(* ===== verification/Prelude.thy ===== *)
theory Prelude
  imports Main "HOL-Library.Word"
begin

text \<open>
  Shared vocabulary of the development: the machine types of the C++ sources, the return
  codes of \<^verbatim>\<open>lib/ob_errno.h\<close> that the modelled functions use, the control structures that the
  code base repeats everywhere (the \<^verbatim>\<open>OB_FAIL(..) || OB_FAIL(..)\<close> chain), and the lemmas on words
  and lists the component theories share.

  Conventions. An unsigned machine integer is an \<^verbatim>\<open>n word\<close>, so that it wraps as the C++ type
  does. A signed integer that the code only counts with (\<^verbatim>\<open>int64_t\<close> sizes, log ids) is an \<^typ>\<open>int\<close>:
  signed overflow is undefined in C++, so no wrapped value of it is ever meaningful. A
  signed integer that is stored or serialized is a word and is read with \<^const>\<open>sint\<close>. A function
  that mutates \<^verbatim>\<open>*this\<close> and returns a code is a function to a pair of the code and the new
  state. Calls that only write a log line or a trace have no counterpart.
\<close>

unbundle bit_operations_syntax

type_synonym byte = "8 word"
type_synonym u16 = "16 word"
type_synonym u32 = "32 word"
type_synonym u64 = "64 word"

named_theorems wrap_simps \<open>moving word arithmetic to the integers\<close>
named_theorems codec_simps \<open>unfolding encoders and decoders\<close>
named_theorems hook_simps \<open>what the committer's callbacks leave unchanged\<close>

datatype ob_ret =
    OB_SUCCESS
  | OB_ERROR
  | OB_INVALID_ARGUMENT
  | OB_INIT_TWICE
  | OB_NOT_INIT
  | OB_NOT_SUPPORTED
  | OB_SIZE_OVERFLOW
  | OB_EAGAIN
  | OB_ERR_UNEXPECTED
  | OB_STATE_NOT_MATCH
  | OB_BUF_NOT_ENOUGH
  | OB_INVALID_DATA
  | OB_CHECKSUM_ERROR
  | OB_DESERIALIZE_ERROR
  | OB_ALLOCATE_MEMORY_FAILED
  | OB_ERR_OUT_OF_LOWER_BOUND
  | OB_TRANS_INVALID_STATE
  | OB_TRANS_PROTOCOL_ERROR
  | OB_TRANS_KILLED
  | OB_BLOCK_FROZEN
  | OB_ENTRY_NOT_EXIST
  | OB_TRANS_CTX_NOT_EXIST
  | OB_TRANS_ROLLBACKED
  | OB_LOG_TOO_LARGE
  | OB_NOT_MASTER
  | OB_NEED_RETRY
  | OB_TRANS_IS_EXITING
  | OB_LS_NOT_EXIST
  | OB_ENTRY_EXIST
  | OB_NOT_RUNNING
  | OB_GTS_NOT_READY
  | OB_LS_LOCATION_LEADER_NOT_EXIST
  | OB_OP_NOT_ALLOW
  | OB_ELECTION_BELOW_MAJORITY
  | OB_ELECTION_OVER_MAJORITY
  | OB_TX_NOLOGCB
  | OB_INIT_FAIL

text \<open>
  \<open>or_chain\<close> is \<^verbatim>\<open>OB_FAIL(f1(..)) || OB_FAIL(f2(..)) || ..\<close>: the calls run in order over one
  state and the chain stops after the first call that does not return \<^const>\<open>OB_SUCCESS\<close>, keeping
  what that call wrote.
\<close>

fun or_chain :: "('s \<Rightarrow> ob_ret \<times> 's) list \<Rightarrow> 's \<Rightarrow> ob_ret \<times> 's" where
  "or_chain [] s = (OB_SUCCESS, s)"
| "or_chain (f # fs) s =
     (case f s of (ret, s') \<Rightarrow> if ret = OB_SUCCESS then or_chain fs s' else (ret, s'))"

lemma or_chain_append:
  "or_chain (fs @ gs) s =
     (case or_chain fs s of (ret, s') \<Rightarrow> if ret = OB_SUCCESS then or_chain gs s' else (ret, s'))"
  by (induction fs arbitrary: s) (auto split: prod.splits)

text \<open>Words read as integers: what a sum, a difference, a quotient or a remainder is when it
  stays in range.\<close>

lemma uint_add_nowrap [wrap_simps]:
  fixes a b :: "'a::len word"
  assumes "uint a + uint b < 2 ^ LENGTH('a)"
  shows "uint (a + b) = uint a + uint b"
  using assms by (simp add: uint_add_lem)

lemma uint_sub_nowrap [wrap_simps]:
  fixes a b :: "'a::len word"
  assumes "uint b \<le> uint a"
  shows "uint (a - b) = uint a - uint b"
  using assms by (simp add: uint_sub_lem)

lemma uint_mult_nowrap [wrap_simps]:
  fixes a b :: "'a::len word"
  assumes "uint a * uint b < 2 ^ LENGTH('a)"
  shows "uint (a * b) = uint a * uint b"
  using assms by (simp add: uint_word_ariths)

lemmas uint_divmod [wrap_simps] = uint_div uint_mod

lemma uint_max: "uint (max a b) = max (uint a) (uint (b :: 'a::len word))"
  by (simp add: max_def word_le_def)

lemma uint_bounded [simp]:
  fixes a :: "'a::len word"
  shows "uint a < 2 ^ LENGTH('a)" and "0 \<le> uint a"
  by auto

lemma uint_of_int_small:
  assumes "0 \<le> k" and "k < 2 ^ LENGTH('a)"
  shows "uint (of_int k :: 'a::len word) = k"
  using assms by (simp add: uint_word_of_int_eq take_bit_int_eq_self)

lemma of_int_uint [simp]: "of_int (uint w) = (w :: 'a::len word)"
  by simp

text \<open>Overwriting a run of a list, as \<^verbatim>\<open>memcpy\<close> into a buffer does.\<close>

definition overwrite :: "'a list \<Rightarrow> nat \<Rightarrow> 'a list \<Rightarrow> 'a list" where
  "overwrite xs n ys = take n xs @ ys @ drop (n + length ys) xs"

lemma length_overwrite [simp]:
  "n + length ys \<le> length xs \<Longrightarrow> length (overwrite xs n ys) = length xs"
  by (simp add: overwrite_def)

lemma nth_overwrite:
  assumes "n + length ys \<le> length xs" and "i < length xs"
  shows "overwrite xs n ys ! i = (if n \<le> i \<and> i < n + length ys then ys ! (i - n) else xs ! i)"
  using assms by (auto simp: overwrite_def nth_append min_def)

lemma overwrite_Nil [simp]: "n \<le> length xs \<Longrightarrow> overwrite xs n [] = xs"
  by (simp add: overwrite_def)

lemma overwrite_append:
  assumes "n + length ys + length zs \<le> length xs"
  shows "overwrite (overwrite xs n ys) (n + length ys) zs = overwrite xs n (ys @ zs)"
proof -
  from assms have "n \<le> length xs" by arith
  then show ?thesis by (simp add: overwrite_def add_ac)
qed

lemma take_drop_overwrite [simp]:
  "n + length ys \<le> length xs \<Longrightarrow> take (length ys) (drop n (overwrite xs n ys)) = ys"
  by (simp add: overwrite_def)

text \<open>Arithmetic that several range arguments need.\<close>

lemma small_mod_add:
  fixes x y m :: int
  assumes "0 < y" "x mod m + y < m" "0 < m"
  shows "(x + y) mod m \<noteq> 0"
proof -
  have p: "0 \<le> x mod m" using assms by simp
  have "(x + y) mod m = (x mod m + y) mod m" by (simp add: mod_add_left_eq)
  also have "\<dots> = x mod m + y" using assms p by (intro mod_pos_pos_trivial) linarith+
  finally show ?thesis using assms p by linarith
qed

lemma uint_ucast_small:
  fixes w :: "'a::len word"
  assumes "uint w < 2 ^ LENGTH('b)"
  shows "uint (ucast w :: 'b::len word) = uint w"
  using assms by (simp add: unsigned_ucast_eq take_bit_int_eq_self)

lemma uint_ucast_up: "LENGTH('a::len) \<le> LENGTH('b::len) \<Longrightarrow> uint (ucast (w :: 'a word) :: 'b word) = uint w"
  by (rule uint_ucast_small) (meson le_less_trans less_le_trans one_le_numeral order_refl power_increasing uint_bounded(1))

lemma add_uint_less:
  assumes "a + uint w < k" shows "a < (k :: int)"
  using assms uint_bounded(2)[of w] by linarith

subsection \<open>Runs of a state machine\<close>

text \<open>
  A run of a labelled step relation collects the events its steps emit. The two locales are
  the contracts the component theories discharge for their own step relations: an invariant
  that every step keeps, and, for a component that hands out items, that each item lies
  beyond everything handed out before it.
\<close>

inductive run :: "('s \<Rightarrow> 'e option \<Rightarrow> 's \<Rightarrow> bool) \<Rightarrow> 's \<Rightarrow> 'e list \<Rightarrow> 's \<Rightarrow> bool"
  for step :: "'s \<Rightarrow> 'e option \<Rightarrow> 's \<Rightarrow> bool" where
  run_nil: "run step s [] s"
| run_cons: "\<lbrakk>step s e s1; run step s1 es s'\<rbrakk>
    \<Longrightarrow> run step s (case e of None \<Rightarrow> es | Some x \<Rightarrow> x # es) s'"

inductive_cases run_nilE: "run step s [] s'"

locale invariant_system =
  fixes step :: "'s \<Rightarrow> 'e option \<Rightarrow> 's \<Rightarrow> bool"
    and inv :: "'s \<Rightarrow> bool"
  assumes step_inv: "\<lbrakk>inv s; step s e s'\<rbrakk> \<Longrightarrow> inv s'"
begin

lemma run_inv: "\<lbrakk>run step s es s'; inv s\<rbrakk> \<Longrightarrow> inv s'"
  by (induction rule: run.induct) (auto intro: step_inv)

end

locale ordered_source = invariant_system step inv
  for step :: "'s \<Rightarrow> 'e option \<Rightarrow> 's \<Rightarrow> bool" and inv :: "'s \<Rightarrow> bool" +
  fixes adv :: "'s \<Rightarrow> 's \<Rightarrow> bool"
    and here :: "'s \<Rightarrow> 'e \<Rightarrow> bool"
    and after :: "'e \<Rightarrow> 'e \<Rightarrow> bool"
  assumes adv_refl: "inv s \<Longrightarrow> adv s s"
    and adv_trans: "\<lbrakk>adv s s1; adv s1 s'\<rbrakk> \<Longrightarrow> adv s s'"
    and step_adv: "\<lbrakk>inv s; step s e s'\<rbrakk> \<Longrightarrow> adv s s'"
    and here_mono: "\<lbrakk>adv s s'; here s' x\<rbrakk> \<Longrightarrow> here s x"
    and step_here: "\<lbrakk>inv s; step s (Some x) s'\<rbrakk> \<Longrightarrow> here s x"
    and step_after: "\<lbrakk>inv s; step s (Some x) s'; here s' y\<rbrakk> \<Longrightarrow> after x y"
begin

lemma run_ordered:
  assumes "run step s es s'" and "inv s"
  shows "adv s s' \<and> sorted_wrt after es \<and> (\<forall>x\<in>set es. here s x)"
  using assms
proof (induction rule: run.induct)
  case (run_nil s)
  then show ?case by (simp add: adv_refl)
next
  case (run_cons s e s1 es s')
  have "adv s s1" using run_cons.hyps(1) run_cons.prems step_adv by blast
  moreover note ih = run_cons.IH[OF step_inv[OF run_cons.prems run_cons.hyps(1)]]
  ultimately have rest: "adv s s'" "\<forall>x\<in>set es. here s x"
    using adv_trans here_mono by blast+
  show ?case
  proof (cases e)
    case None
    then show ?thesis using ih rest by simp
  next
    case (Some x)
    then show ?thesis
      using ih rest step_here[of s x s1] step_after[of s x s1] run_cons.hyps(1) run_cons.prems by auto
  qed
qed

end

text \<open>
  Runs of an executable form of a step relation: every action that succeeds is a step, so that the end of a run from a
  reachable state is reachable.
\<close>

fun run_acts :: "('a \<Rightarrow> 's \<Rightarrow> 's option) \<Rightarrow> 'a list \<Rightarrow> 's \<Rightarrow> 's option" where
  "run_acts act [] s = Some s"
| "run_acts act (a # as) s = (case act a s of None \<Rightarrow> None | Some s' \<Rightarrow> run_acts act as s')"

locale executable_system =
  fixes act :: "'a \<Rightarrow> 's \<Rightarrow> 's option" and step :: "'s \<Rightarrow> 's \<Rightarrow> bool" and reach :: "'s \<Rightarrow> bool"
  assumes act_step: "act a s = Some s' \<Longrightarrow> step s s'"
    and reach_step: "reach s \<Longrightarrow> step s s' \<Longrightarrow> reach s'"
begin

lemma run_acts_reach: "run_acts act as s = Some s' \<Longrightarrow> reach s \<Longrightarrow> reach s'"
proof (induction as arbitrary: s)
  case (Cons a as)
  from Cons.prems(1) obtain v where v: "act a s = Some v" "run_acts act as v = Some s'" by (auto split: option.splits)
  show ?case by (rule Cons.IH [OF v(2) reach_step [OF Cons.prems(2) act_step [OF v(1)]]])
qed simp

end

end
