(* ===== verification/Lsn.thy ===== *)
theory Lsn
  imports Prelude
begin

text \<open>
  Log sequence numbers (\<^verbatim>\<open>palf/lsn.h\<close>, \<^verbatim>\<open>palf/lsn.cpp\<close>): byte offsets in the log stream of a
  replica, with the largest 64-bit value reserved as invalid, and the constants of
  \<^verbatim>\<open>palf/log_define.h\<close> that fix the layout of the stream in blocks.
\<close>

datatype LSN = LSN (lsn_val: u64)

definition LOG_INVALID_LSN_VAL :: u64 where "LOG_INVALID_LSN_VAL = - 1"
definition LOG_MAX_LSN_VAL :: u64 where "LOG_MAX_LSN_VAL = LOG_INVALID_LSN_VAL - 1"

definition OB_INVALID_LOG_ID :: int where "OB_INVALID_LOG_ID = - 1"
definition INVALID_PROPOSAL_ID :: int where "INVALID_PROPOSAL_ID = 9223372036854775807"

definition MAX_INFO_BLOCK_SIZE :: int where "MAX_INFO_BLOCK_SIZE = 4 * 1024"
definition MAX_LOG_BODY_SIZE :: int where "MAX_LOG_BODY_SIZE = 3 * 1024 * 1024 + 512 * 1024"
definition PALF_PHY_BLOCK_SIZE :: int where "PALF_PHY_BLOCK_SIZE = 67108864"
definition PALF_BLOCK_SIZE :: int where
  "PALF_BLOCK_SIZE = PALF_PHY_BLOCK_SIZE - MAX_INFO_BLOCK_SIZE"
definition CLOG_FILE_TAIL_PADDING_TRIGGER :: int where "CLOG_FILE_TAIL_PADDING_TRIGGER = 4096"

definition is_valid_log_id :: "int \<Rightarrow> bool" where
  "is_valid_log_id log_id \<longleftrightarrow> log_id > 0"

definition max_proposal_id :: "int \<Rightarrow> int \<Rightarrow> int" where
  "max_proposal_id a b =
     (if (INVALID_PROPOSAL_ID = a \<and> INVALID_PROPOSAL_ID = b)
         \<or> (INVALID_PROPOSAL_ID \<noteq> a \<and> INVALID_PROPOSAL_ID = b) then a
      else if INVALID_PROPOSAL_ID = a \<and> INVALID_PROPOSAL_ID \<noteq> b then b
      else max a b)"

definition lsn_is_valid :: "LSN \<Rightarrow> bool" where
  "lsn_is_valid l \<longleftrightarrow> LOG_INVALID_LSN_VAL \<noteq> lsn_val l"

definition lsn_reset :: LSN where
  "lsn_reset = LSN LOG_INVALID_LSN_VAL"

definition lsn_lt :: "LSN \<Rightarrow> LSN \<Rightarrow> bool" where
  "lsn_lt a b \<longleftrightarrow> lsn_val a < lsn_val b"

definition lsn_gt :: "LSN \<Rightarrow> LSN \<Rightarrow> bool" where
  "lsn_gt a b \<longleftrightarrow> lsn_lt b a"

definition lsn_ge :: "LSN \<Rightarrow> LSN \<Rightarrow> bool" where
  "lsn_ge a b \<longleftrightarrow> lsn_lt b a \<or> b = a"

definition lsn_le :: "LSN \<Rightarrow> LSN \<Rightarrow> bool" where
  "lsn_le a b \<longleftrightarrow> lsn_gt b a \<or> b = a"

definition lsn_add :: "LSN \<Rightarrow> u64 \<Rightarrow> LSN" where
  "lsn_add l len = LSN (lsn_val l + len)"

definition lsn_sub :: "LSN \<Rightarrow> u64 \<Rightarrow> LSN" where
  "lsn_sub l len = LSN (lsn_val l - len)"

definition lsn_diff :: "LSN \<Rightarrow> LSN \<Rightarrow> u64" where
  "lsn_diff a b = lsn_val a - lsn_val b"

definition lsn_2_block :: "LSN \<Rightarrow> u64 \<Rightarrow> u64" where
  "lsn_2_block l block_size = lsn_val l div block_size"

definition lsn_2_offset :: "LSN \<Rightarrow> u64 \<Rightarrow> u64" where
  "lsn_2_offset l block_size = lsn_val l mod block_size"

text \<open>The code's comparison operators are a linear order, so the library's order automation
  applies to log sequence numbers.\<close>

instantiation LSN :: linorder
begin

definition less_eq_LSN :: "LSN \<Rightarrow> LSN \<Rightarrow> bool" where
  "less_eq_LSN = lsn_le"

definition less_LSN :: "LSN \<Rightarrow> LSN \<Rightarrow> bool" where
  "less_LSN = lsn_lt"

instance
  by standard (auto simp: less_eq_LSN_def less_LSN_def lsn_le_def lsn_gt_def lsn_lt_def intro: LSN.expand)

end

lemma lsn_le_uint: "lsn_le a b \<longleftrightarrow> uint (lsn_val a) \<le> uint (lsn_val b)"
  by (auto simp: lsn_le_def lsn_gt_def lsn_lt_def word_less_def le_less word_uint_eq_iff
      intro: LSN.expand)

lemma lsn_lt_uint: "lsn_lt a b \<longleftrightarrow> uint (lsn_val a) < uint (lsn_val b)"
  by (simp add: lsn_lt_def word_less_def)

lemma lsn_gt_uint: "lsn_gt a b \<longleftrightarrow> uint (lsn_val b) < uint (lsn_val a)"
  by (simp add: lsn_gt_def lsn_lt_uint)

lemma PALF_BLOCK_SIZE_eq: "PALF_BLOCK_SIZE = 67104768"
  by (simp add: PALF_BLOCK_SIZE_def PALF_PHY_BLOCK_SIZE_def MAX_INFO_BLOCK_SIZE_def)

lemma max_proposal_id_upper:
  "\<lbrakk>a \<noteq> INVALID_PROPOSAL_ID; b \<noteq> INVALID_PROPOSAL_ID\<rbrakk> \<Longrightarrow> max_proposal_id a b = max a b"
  by (simp add: max_proposal_id_def)

end
