(* ===== verification/Scn.thy ===== *)
theory Scn
  imports Prelude
begin

text \<open>
  The system change number of \<^verbatim>\<open>src/share/scn.h\<close> and \<^verbatim>\<open>src/share/scn.cpp\<close>: a 64-bit value whose
  low 62 bits are a time in nanoseconds (\<^verbatim>\<open>ts_ns_\<close>) and whose high 2 bits are a version (\<^verbatim>\<open>v_\<close>),
  with version 0 the only valid one. The atomic accessors are the plain ones: each is one
  load, store or compare-and-swap of a single 64-bit cell.
\<close>

datatype SCN = SCN (scn_val: u64)

definition OB_INVALID_SCN_VAL :: u64 where "OB_INVALID_SCN_VAL = - 1"
definition OB_MIN_SCN_TS_NS :: u64 where "OB_MIN_SCN_TS_NS = 0"
definition OB_BASE_SCN_TS_NS :: u64 where "OB_BASE_SCN_TS_NS = 1"
definition OB_MAX_SCN_TS_NS :: u64 where "OB_MAX_SCN_TS_NS = 4611686018427387903"
definition SCN_VERSION :: u64 where "SCN_VERSION = 0"
definition INT64_MAX :: int where "INT64_MAX = 9223372036854775807"

definition ts_ns :: "SCN \<Rightarrow> u64" where
  "ts_ns s = take_bit 62 (scn_val s)"

definition scn_v :: "SCN \<Rightarrow> u64" where
  "scn_v s = drop_bit 62 (scn_val s)"

definition set_fields :: "u64 \<Rightarrow> u64 \<Rightarrow> SCN" where
  "set_fields v t = SCN (push_bit 62 (take_bit 2 v) OR take_bit 62 t)"

definition scn_reset :: SCN where
  "scn_reset = SCN OB_INVALID_SCN_VAL"

definition scn_is_valid :: "SCN \<Rightarrow> bool" where
  "scn_is_valid s \<longleftrightarrow> SCN_VERSION = scn_v s"

definition is_valid_and_not_min :: "SCN \<Rightarrow> bool" where
  "is_valid_and_not_min s \<longleftrightarrow> SCN_VERSION = scn_v s \<and> OB_MIN_SCN_TS_NS \<noteq> scn_val s"

definition max_scn :: SCN where
  "max_scn = set_fields SCN_VERSION OB_MAX_SCN_TS_NS"

definition min_scn :: SCN where
  "min_scn = set_fields SCN_VERSION OB_MIN_SCN_TS_NS"

definition base_scn :: SCN where
  "base_scn = set_fields SCN_VERSION OB_BASE_SCN_TS_NS"

definition scn_is_max :: "SCN \<Rightarrow> bool" where
  "scn_is_max s \<longleftrightarrow> scn_v s = SCN_VERSION \<and> ts_ns s = OB_MAX_SCN_TS_NS"

definition scn_is_min :: "SCN \<Rightarrow> bool" where
  "scn_is_min s \<longleftrightarrow> scn_v s = SCN_VERSION \<and> ts_ns s = OB_MIN_SCN_TS_NS"

definition is_base_scn :: "SCN \<Rightarrow> bool" where
  "is_base_scn s \<longleftrightarrow> SCN_VERSION = scn_v s \<and> OB_BASE_SCN_TS_NS = ts_ns s"

definition scn_lt :: "SCN \<Rightarrow> SCN \<Rightarrow> bool" where
  "scn_lt a b =
     (if \<not> scn_is_valid a \<and> \<not> scn_is_valid b then False
      else if \<not> scn_is_valid a then True
      else if \<not> scn_is_valid b then False
      else ts_ns a < ts_ns b)"

definition scn_le :: "SCN \<Rightarrow> SCN \<Rightarrow> bool" where
  "scn_le a b =
     (if \<not> scn_is_valid a \<and> \<not> scn_is_valid b then True
      else if \<not> scn_is_valid a then True
      else if \<not> scn_is_valid b then False
      else ts_ns a \<le> ts_ns b)"

definition scn_gt :: "SCN \<Rightarrow> SCN \<Rightarrow> bool" where
  "scn_gt a b =
     (if \<not> scn_is_valid a \<and> \<not> scn_is_valid b then False
      else if \<not> scn_is_valid a then False
      else if \<not> scn_is_valid b then True
      else ts_ns a > ts_ns b)"

definition scn_ge :: "SCN \<Rightarrow> SCN \<Rightarrow> bool" where
  "scn_ge a b =
     (if \<not> scn_is_valid a \<and> \<not> scn_is_valid b then True
      else if \<not> scn_is_valid a then False
      else if \<not> scn_is_valid b then True
      else ts_ns a \<ge> ts_ns b)"

text \<open>The order of the operators is a preorder in which all invalid numbers are equal and least.\<close>

instantiation SCN :: preorder
begin

definition less_eq_SCN :: "SCN \<Rightarrow> SCN \<Rightarrow> bool" where
  "less_eq_SCN = scn_le"

definition less_SCN :: "SCN \<Rightarrow> SCN \<Rightarrow> bool" where
  "less_SCN = scn_lt"

instance
  by standard (auto simp: less_eq_SCN_def less_SCN_def scn_le_def scn_lt_def split: if_splits)

end

definition scn_max :: "SCN \<Rightarrow> SCN \<Rightarrow> SCN" where
  "scn_max left right =
     (if \<not> scn_is_valid left then right
      else if \<not> scn_is_valid right then left
      else if scn_gt right left then right else left)"

definition scn_min :: "SCN \<Rightarrow> SCN \<Rightarrow> SCN" where
  "scn_min left right =
     (if \<not> scn_is_valid left then left
      else if \<not> scn_is_valid right then right
      else if scn_lt right left then right else left)"

definition scn_plus :: "SCN \<Rightarrow> u64 \<Rightarrow> SCN" where
  "scn_plus ref delta =
     (if delta \<ge> OB_MAX_SCN_TS_NS \<or> \<not> scn_is_valid ref then scn_reset
      else if scn_val ref + delta > OB_MAX_SCN_TS_NS then scn_reset
      else SCN (scn_val ref + delta))"

definition scn_minus :: "SCN \<Rightarrow> u64 \<Rightarrow> SCN" where
  "scn_minus ref delta =
     (if delta \<ge> OB_MAX_SCN_TS_NS \<or> \<not> scn_is_valid ref then scn_reset
      else if scn_val ref < delta then scn_reset
      else SCN (scn_val ref - delta))"

definition scn_inc :: "SCN \<Rightarrow> SCN" where
  "scn_inc ref = (if scn_val ref \<ge> OB_MAX_SCN_TS_NS then SCN OB_INVALID_SCN_VAL
                  else SCN (scn_val ref + 1))"

definition scn_dec :: "SCN \<Rightarrow> SCN" where
  "scn_dec ref = (if OB_MIN_SCN_TS_NS = scn_val ref \<or> \<not> scn_is_valid ref then SCN OB_INVALID_SCN_VAL
                  else SCN (scn_val ref - 1))"

text \<open>
  \<^verbatim>\<open>inc_update\<close> and \<^verbatim>\<open>dec_update\<close> retry a compare-and-swap while the cell is below (above) the
  reference. Other threads may store between two attempts: \<open>ws\<close> are the values the cell is
  found to hold at the attempts that fail, and the attempt after the last of them finds the
  cell unchanged. The result is the pair of the returned value and the final cell.
\<close>

fun inc_update_loop :: "SCN \<Rightarrow> SCN list \<Rightarrow> SCN \<Rightarrow> SCN \<times> SCN" where
  "inc_update_loop cell [] ref =
     (if scn_lt cell ref then (ref, ref) else (cell, cell))"
| "inc_update_loop cell (w # ws) ref =
     (if scn_lt cell ref
      then (if w = cell then (ref, ref) else inc_update_loop w ws ref)
      else (cell, cell))"

fun dec_update_loop :: "SCN \<Rightarrow> SCN list \<Rightarrow> SCN \<Rightarrow> SCN \<times> SCN" where
  "dec_update_loop cell [] ref =
     (if scn_gt cell ref then (ref, ref) else (cell, cell))"
| "dec_update_loop cell (w # ws) ref =
     (if scn_gt cell ref
      then (if w = cell then (ref, ref) else dec_update_loop w ws ref)
      else (cell, cell))"

definition inc_update :: "SCN \<Rightarrow> SCN list \<Rightarrow> SCN \<Rightarrow> SCN \<times> SCN" where
  "inc_update this ws ref = inc_update_loop this ws ref"

definition dec_update :: "SCN \<Rightarrow> SCN list \<Rightarrow> SCN \<Rightarrow> SCN \<times> SCN" where
  "dec_update this ws ref = dec_update_loop this ws ref"

definition convert_to_ts :: "SCN \<Rightarrow> int" where
  "convert_to_ts s = (if scn_is_valid s then sint (ts_ns s div 1000) else 0)"

definition convert_from_ts :: "SCN \<Rightarrow> u64 \<Rightarrow> ob_ret \<times> SCN" where
  "convert_from_ts this ts_us =
     (let ts = ts_us * 1000 in
      if ts_us \<ge> OB_MAX_SCN_TS_NS div 1000 + 1 then (OB_INVALID_ARGUMENT, this)
      else (OB_SUCCESS, set_fields SCN_VERSION ts))"

definition convert_for_gts :: "SCN \<Rightarrow> int \<Rightarrow> ob_ret \<times> SCN" where
  "convert_for_gts this ts =
     (if 0 > ts \<or> OB_MAX_SCN_TS_NS < of_int ts then (OB_INVALID_ARGUMENT, this)
      else (OB_SUCCESS, set_fields SCN_VERSION (of_int ts)))"

definition convert_for_logservice :: "SCN \<Rightarrow> u64 \<Rightarrow> ob_ret \<times> SCN" where
  "convert_for_logservice this v =
     (if OB_MAX_SCN_TS_NS < v then (OB_INVALID_ARGUMENT, this) else (OB_SUCCESS, SCN v))"

definition convert_for_inner_table_field :: "SCN \<Rightarrow> u64 \<Rightarrow> ob_ret \<times> SCN" where
  "convert_for_inner_table_field this v =
     (if OB_MAX_SCN_TS_NS < v then (OB_INVALID_ARGUMENT, this) else (OB_SUCCESS, SCN v))"

definition convert_for_sql :: "SCN \<Rightarrow> u64 \<Rightarrow> ob_ret \<times> SCN" where
  "convert_for_sql this v =
     (if OB_MAX_SCN_TS_NS < v then (OB_INVALID_ARGUMENT, this) else (OB_SUCCESS, SCN v))"

definition convert_for_tx :: "SCN \<Rightarrow> int \<Rightarrow> ob_ret \<times> SCN" where
  "convert_for_tx this v =
     (if INT64_MAX = v then (OB_SUCCESS, SCN OB_MAX_SCN_TS_NS)
      else if v < 0 \<or> OB_MAX_SCN_TS_NS < of_int v then (OB_INVALID_ARGUMENT, this)
      else (OB_SUCCESS, SCN (of_int v)))"

definition get_val_for_tx :: "SCN \<Rightarrow> int" where
  "get_val_for_tx s =
     (if \<not> scn_is_valid s then - 1
      else if OB_MAX_SCN_TS_NS = ts_ns s then INT64_MAX
      else sint (ts_ns s))"

definition transform_max :: "SCN \<Rightarrow> SCN" where
  "transform_max s = (if of_int INT64_MAX = scn_val s then max_scn else s)"

subsection \<open>The bit fields as ranges\<close>

lemma uint_ts_ns: "uint (ts_ns s) = uint (scn_val s) mod 2 ^ 62"
  by (simp add: ts_ns_def take_bit_eq_mod uint_mod)

lemma uint_scn_v: "uint (scn_v s) = uint (scn_val s) div 2 ^ 62"
  by (simp add: scn_v_def drop_bit_eq_div uint_div)

lemma valid_iff_uint: "scn_is_valid s \<longleftrightarrow> uint (scn_val s) < 2 ^ 62"
proof -
  have "scn_is_valid s \<longleftrightarrow> uint (scn_v s) = 0"
    by (auto simp: scn_is_valid_def SCN_VERSION_def uint_0_iff)
  also have "\<dots> \<longleftrightarrow> uint (scn_val s) < 2 ^ 62"
    unfolding uint_scn_v by (auto simp: zdiv_eq_0_iff)
  finally show ?thesis .
qed

lemma uint_OB_MAX_SCN_TS_NS: "uint OB_MAX_SCN_TS_NS = 2 ^ 62 - 1"
  by (simp add: OB_MAX_SCN_TS_NS_def)

lemma valid_iff_le_max: "scn_is_valid s \<longleftrightarrow> scn_val s \<le> OB_MAX_SCN_TS_NS"
  unfolding valid_iff_uint word_le_def uint_OB_MAX_SCN_TS_NS by auto

lemma ts_ns_of_valid [simp]: "scn_is_valid s \<Longrightarrow> ts_ns s = scn_val s"
  by (simp add: valid_iff_uint uint_ts_ns word_uint_eq_iff)

lemma set_fields_version: "set_fields SCN_VERSION t = SCN (take_bit 62 t)"
  by (simp add: set_fields_def SCN_VERSION_def)

lemma set_fields_small:
  assumes "t \<le> OB_MAX_SCN_TS_NS"
  shows "set_fields SCN_VERSION t = SCN t"
proof -
  have "uint t < 2 ^ 62" using assms by (simp add: word_le_def uint_OB_MAX_SCN_TS_NS)
  then have "take_bit 62 t = t"
    by (simp add: take_bit_eq_mod word_uint_eq_iff uint_mod)
  then show ?thesis by (simp add: set_fields_version)
qed

lemma max_scn_eq: "max_scn = SCN OB_MAX_SCN_TS_NS"
  by (simp add: max_scn_def set_fields_small)

lemma scn_reset_invalid [simp]: "\<not> scn_is_valid scn_reset"
  by (simp add: scn_reset_def OB_INVALID_SCN_VAL_def valid_iff_uint unsigned_minus_1_eq_mask
      mask_eq_exp_minus_1)

lemma valid_SCN [simp]: "t \<le> OB_MAX_SCN_TS_NS \<Longrightarrow> scn_is_valid (SCN t)"
  by (simp add: valid_iff_le_max)

lemma sint_small:
  assumes "uint (t :: u64) < 2 ^ 63"
  shows "sint t = uint t"
  using assms by (simp add: sint_uint signed_take_bit_int_eq_self_iff order_trans[OF _ uint_bounded(2)])

lemmas scn_cmp_defs = scn_lt_def scn_le_def scn_gt_def scn_ge_def

subsection \<open>Properties\<close>



text \<open>\<^verbatim>\<open>SCN::max\<close> returns one of its arguments, is above both of them, and is valid exactly when
  one of them is.\<close>

theorem scn_max_upper:
  "scn_le a (scn_max a b) \<and> scn_le b (scn_max a b) \<and> scn_max a b \<in> {a, b}
   \<and> (scn_is_valid (scn_max a b) \<longleftrightarrow> scn_is_valid a \<or> scn_is_valid b)"
  by (auto simp: scn_max_def scn_cmp_defs)

text \<open>Adding and then subtracting the same offset gives the number back whenever the addition
  produced a valid number, and the sum then moved forward by exactly that offset.\<close>

theorem scn_plus_minus:
  assumes "scn_is_valid (scn_plus s d)"
  shows "scn_minus (scn_plus s d) d = s \<and> uint (scn_val (scn_plus s d)) = uint (scn_val s) + uint d"
proof -
  from assms have g: "d < OB_MAX_SCN_TS_NS" "scn_is_valid s" "scn_val s + d \<le> OB_MAX_SCN_TS_NS"
    and r: "scn_plus s d = SCN (scn_val s + d)"
    by (auto simp: scn_plus_def not_le not_less split: if_splits)
  from g have "uint (scn_val s) + uint d < 2 ^ LENGTH(64)"
    by (simp add: valid_iff_uint word_less_def uint_OB_MAX_SCN_TS_NS)
  then have u: "uint (scn_val s + d) = uint (scn_val s) + uint d"
    by (simp add: uint_add_nowrap)
  then have "\<not> scn_val s + d < d" by (simp add: word_less_def)
  with g r u show ?thesis by (auto simp: scn_minus_def)
qed

theorem scn_plus_minus_witness:
  "scn_minus (scn_plus (SCN 100) 42) 42 = SCN 100"
proof -
  have "scn_is_valid (scn_plus (SCN 100) 42)"
    by (simp add: scn_plus_def valid_iff_uint OB_MAX_SCN_TS_NS_def)
  then show ?thesis using scn_plus_minus by blast
qed

text \<open>A microsecond timestamp that \<^verbatim>\<open>convert_from_ts\<close> accepts becomes a valid number from which
  \<^verbatim>\<open>convert_to_ts\<close> reads the same timestamp; a refused one leaves the object unchanged.\<close>

theorem scn_ts_roundtrip:
  "case convert_from_ts this ts of (ret, s) \<Rightarrow>
     if ret = OB_SUCCESS then scn_is_valid s \<and> convert_to_ts s = uint ts
     else s = this \<and> uint ts > uint OB_MAX_SCN_TS_NS div 1000"
proof (cases "ts \<ge> OB_MAX_SCN_TS_NS div 1000 + 1")
  case True
  then show ?thesis by (simp add: convert_from_ts_def OB_MAX_SCN_TS_NS_def word_le_def)
next
  case False
  then have ts: "uint ts \<le> 4611686018427387"
    by (simp add: OB_MAX_SCN_TS_NS_def word_le_def)
  then have m: "uint (ts * 1000) = uint ts * 1000"
    by (simp add: uint_mult_nowrap)
  with ts have le: "ts * 1000 \<le> OB_MAX_SCN_TS_NS"
    by (simp add: word_le_def uint_OB_MAX_SCN_TS_NS)
  have d: "ts * 1000 div 1000 = ts"
    by (simp add: word_uint_eq_iff uint_div m)
  have "sint ts = uint ts" using ts by (simp add: sint_small)
  with False le d show ?thesis
    by (simp add: convert_from_ts_def set_fields_small convert_to_ts_def)
qed

text \<open>A transaction version that \<^verbatim>\<open>convert_for_tx\<close> accepts is read back by \<^verbatim>\<open>get_val_for_tx\<close>,
  \<^verbatim>\<open>INT64_MAX\<close> included, with one exception: the largest 62-bit value is read back as
  \<^verbatim>\<open>INT64_MAX\<close>, because both stand for the maximal number.\<close>

theorem scn_tx_roundtrip:
  assumes "convert_for_tx this v = (OB_SUCCESS, s)" and "v \<le> INT64_MAX"
  shows "scn_is_valid s \<and> get_val_for_tx s = (if v = 2 ^ 62 - 1 then INT64_MAX else v)"
proof (cases "v = INT64_MAX")
  case True
  with assms show ?thesis
    by (auto simp: convert_for_tx_def get_val_for_tx_def INT64_MAX_def)
next
  case False
  with assms have v: "0 \<le> v" "\<not> OB_MAX_SCN_TS_NS < of_int v" and s: "s = SCN (of_int v)"
    by (auto simp: convert_for_tx_def split: if_splits)
  from v assms(2) have u: "uint (of_int v :: u64) = v"
    by (intro uint_of_int_small) (auto simp: INT64_MAX_def)
  with v have le: "v \<le> 2 ^ 62 - 1"
    by (simp add: word_less_def uint_OB_MAX_SCN_TS_NS)
  have val: "scn_is_valid s" using s v by (simp add: not_less)
  have "OB_MAX_SCN_TS_NS = of_int v \<longleftrightarrow> v = 2 ^ 62 - 1"
    using u by (simp add: word_uint_eq_iff uint_OB_MAX_SCN_TS_NS eq_commute)
  with val s u le show ?thesis
    by (auto simp: get_val_for_tx_def sint_small)
qed

theorem scn_tx_roundtrip_witness:
  "get_val_for_tx (SCN 12345) = 12345 \<and> convert_for_tx scn_reset 12345 = (OB_SUCCESS, SCN 12345)"
proof -
  have c: "convert_for_tx scn_reset 12345 = (OB_SUCCESS, SCN 12345)"
    by (simp add: convert_for_tx_def INT64_MAX_def OB_MAX_SCN_TS_NS_def)
  have "get_val_for_tx (SCN 12345) = 12345"
    using scn_tx_roundtrip[OF c] by (simp add: INT64_MAX_def)
  with c show ?thesis by simp
qed

text \<open>Whatever other threads store between its attempts, \<^verbatim>\<open>inc_update\<close> ends with the cell not
  below the reference, returns what it left in the cell, and leaves the reference itself or
  a value that was already there; it terminates after as many attempts as there were
  interferences plus one.\<close>

theorem scn_inc_update:
  "case inc_update this ws ref of (r, cell) \<Rightarrow>
     r = cell \<and> scn_le ref r \<and> r \<in> {ref, this} \<union> set ws"
proof -
  have "case inc_update_loop this ws ref of (r, cell) \<Rightarrow>
     r = cell \<and> scn_le ref r \<and> r \<in> {ref, this} \<union> set ws"
    by (induction this ws ref rule: inc_update_loop.induct)
       (auto simp: scn_cmp_defs split: if_splits prod.splits)
  then show ?thesis by (simp add: inc_update_def)
qed

end
