(* ===== verification/Lsn_Allocator.thy ===== *)
theory Lsn_Allocator
  imports Lsn Scn
begin

text \<open>
  The allocator of log positions (\<^verbatim>\<open>palf/lsn_allocator.h\<close>, \<^verbatim>\<open>palf/lsn_allocator.cpp\<close>). A leader
  asks it for the position, the id and the change number of each log it appends. The mutable
  part is one 128-bit cell of bit fields, \<open>LSNTsMeta\<close>, that threads replace by
  compare-and-swap under a read lock; the two bases change under the write lock only. Each
  operation takes effect in the one successful swap, so the model performs it in one step
  from the state that swap reads.
\<close>

record LSNTsMeta =
  is_need_cut :: bool
  log_id_delta :: "28 word"
  scn_delta :: "35 word"
  meta_lsn_val :: u64

record LSNAllocator =
  lsn_ts_meta :: LSNTsMeta
  log_id_base :: int
  scn_base :: u64
  is_inited :: bool

record alloc_out =
  out_lsn :: LSN
  out_log_id :: int
  out_scn :: SCN
  is_new_group_log :: bool
  need_gen_padding_entry :: bool
  padding_len :: int

definition LOG_ID_DELTA_UPPER_BOUND :: int where "LOG_ID_DELTA_UPPER_BOUND = 2 ^ 28 - 1000"
definition LOG_TS_DELTA_UPPER_BOUND :: u64 where "LOG_TS_DELTA_UPPER_BOUND = 2 ^ 35 - 1000"
definition LOG_CUT_TRIGGER :: u64 where "LOG_CUT_TRIGGER = 2 ^ 21"
definition LOG_CUT_TRIGGER_MASK :: u64 where "LOG_CUT_TRIGGER_MASK = 2 ^ 21 - 1"
definition GROUP_HEADER_SER_SIZE :: int where "GROUP_HEADER_SER_SIZE = 56"
definition block_size :: u64 where "block_size = of_int PALF_BLOCK_SIZE"

definition allocator_reset :: LSNAllocator where
  "allocator_reset =
     \<lparr>lsn_ts_meta = \<lparr>is_need_cut = True, log_id_delta = 0, scn_delta = 0, meta_lsn_val = 0\<rparr>,
      log_id_base = OB_INVALID_LOG_ID, scn_base = 0, is_inited = False\<rparr>"

definition allocator_init :: "int \<Rightarrow> SCN \<Rightarrow> LSN \<Rightarrow> LSNAllocator \<Rightarrow> ob_ret \<times> LSNAllocator" where
  "allocator_init log_id scn start_lsn al =
     (if is_inited al then (OB_INIT_TWICE, al)
      else if OB_INVALID_LOG_ID = log_id \<or> \<not> scn_is_valid scn \<or> \<not> lsn_is_valid start_lsn
      then (OB_INVALID_ARGUMENT, al)
      else (OB_SUCCESS,
        \<lparr>lsn_ts_meta = \<lparr>is_need_cut = True, log_id_delta = 0, scn_delta = 0,
                        meta_lsn_val = lsn_val start_lsn\<rparr>,
         log_id_base = log_id, scn_base = scn_val scn, is_inited = True\<rparr>))"

definition allocator_truncate :: "LSN \<Rightarrow> int \<Rightarrow> SCN \<Rightarrow> LSNAllocator \<Rightarrow> ob_ret \<times> LSNAllocator" where
  "allocator_truncate lsn log_id scn al =
     (if \<not> is_inited al then (OB_NOT_INIT, al)
      else if \<not> lsn_is_valid lsn \<or> OB_INVALID_LOG_ID = log_id \<or> \<not> scn_is_valid scn
      then (OB_INVALID_ARGUMENT, al)
      else (OB_SUCCESS,
        al\<lparr>lsn_ts_meta := \<lparr>is_need_cut = True, log_id_delta = 0, scn_delta = 0,
                           meta_lsn_val = lsn_val lsn\<rparr>,
           log_id_base := log_id, scn_base := scn_val scn\<rparr>))"

definition cur_log_id :: "LSNAllocator \<Rightarrow> int" where
  "cur_log_id al = log_id_base al + uint (log_id_delta (lsn_ts_meta al))"

definition cur_scn :: "LSNAllocator \<Rightarrow> u64" where
  "cur_scn al = scn_base al + ucast (scn_delta (lsn_ts_meta al))"

definition inc_update_last_log_info ::
    "LSN \<Rightarrow> int \<Rightarrow> SCN \<Rightarrow> LSNAllocator \<Rightarrow> ob_ret \<times> LSNAllocator" where
  "inc_update_last_log_info lsn log_id scn al =
     (if \<not> is_inited al then (OB_NOT_INIT, al)
      else if \<not> lsn_is_valid lsn \<or> \<not> scn_is_valid scn \<or> OB_INVALID_LOG_ID = log_id
      then (OB_INVALID_ARGUMENT, al)
      else if log_id < cur_log_id al \<or> lsn_val lsn < meta_lsn_val (lsn_ts_meta al)
      then (OB_SUCCESS, al)
      else if log_id - log_id_base al \<ge> LOG_ID_DELTA_UPPER_BOUND
              \<or> scn_val scn - scn_base al \<ge> LOG_TS_DELTA_UPPER_BOUND
      then (OB_SUCCESS,
        al\<lparr>lsn_ts_meta := \<lparr>is_need_cut = True, log_id_delta = 0, scn_delta = 0,
                           meta_lsn_val = lsn_val lsn\<rparr>,
           log_id_base := log_id, scn_base := scn_val scn\<rparr>)
      else (OB_SUCCESS,
        al\<lparr>lsn_ts_meta := \<lparr>is_need_cut = True,
                           log_id_delta = of_int (log_id - log_id_base al),
                           scn_delta = ucast (scn_val scn - scn_base al),
                           meta_lsn_val = lsn_val lsn\<rparr>\<rparr>))"

definition inc_update_scn_base :: "SCN \<Rightarrow> LSNAllocator \<Rightarrow> ob_ret \<times> LSNAllocator" where
  "inc_update_scn_base ref_scn al =
     (if \<not> is_inited al then (OB_NOT_INIT, al)
      else if \<not> scn_is_valid ref_scn then (OB_INVALID_ARGUMENT, al)
      else if cur_scn al > scn_val ref_scn then (OB_SUCCESS, al)
      else (OB_SUCCESS,
        al\<lparr>lsn_ts_meta := (lsn_ts_meta al)\<lparr>scn_delta := 0, is_need_cut := True\<rparr>,
           scn_base := scn_val ref_scn\<rparr>))"

definition get_max_log_id :: "LSNAllocator \<Rightarrow> int" where
  "get_max_log_id al = (if \<not> is_inited al then OB_INVALID_LOG_ID else cur_log_id al)"

definition get_max_scn :: "LSNAllocator \<Rightarrow> SCN" where
  "get_max_scn al =
     (if \<not> is_inited al then scn_reset else snd (convert_for_logservice scn_reset (cur_scn al)))"

definition get_curr_end_lsn :: "LSNAllocator \<Rightarrow> LSN \<Rightarrow> ob_ret \<times> LSN" where
  "get_curr_end_lsn al curr_end_lsn =
     (if \<not> is_inited al then (OB_NOT_INIT, curr_end_lsn)
      else (OB_SUCCESS, LSN (meta_lsn_val (lsn_ts_meta al))))"

text \<open>The two freezing calls differ in the code they return when the last log is already cut.
  They return the code, the end of the last log, its id and the new state.\<close>

definition try_freeze_by_time ::
    "LSN \<Rightarrow> int \<Rightarrow> LSNAllocator \<Rightarrow> ob_ret \<times> LSN \<times> int \<times> LSNAllocator" where
  "try_freeze_by_time last_lsn last_log_id al =
     (if \<not> is_inited al then (OB_NOT_INIT, last_lsn, last_log_id, al)
      else if is_need_cut (lsn_ts_meta al)
      then (OB_STATE_NOT_MATCH, LSN (meta_lsn_val (lsn_ts_meta al)), cur_log_id al, al)
      else (OB_SUCCESS, LSN (meta_lsn_val (lsn_ts_meta al)), cur_log_id al,
            al\<lparr>lsn_ts_meta := (lsn_ts_meta al)\<lparr>is_need_cut := True\<rparr>\<rparr>))"

definition try_freeze ::
    "LSN \<Rightarrow> int \<Rightarrow> LSNAllocator \<Rightarrow> ob_ret \<times> LSN \<times> int \<times> LSNAllocator" where
  "try_freeze last_lsn last_log_id al =
     (if \<not> is_inited al then (OB_NOT_INIT, last_lsn, last_log_id, al)
      else if is_need_cut (lsn_ts_meta al)
      then (OB_SUCCESS, LSN (meta_lsn_val (lsn_ts_meta al)), cur_log_id al, al)
      else (OB_SUCCESS, LSN (meta_lsn_val (lsn_ts_meta al)), cur_log_id al,
            al\<lparr>lsn_ts_meta := (lsn_ts_meta al)\<lparr>is_need_cut := True\<rparr>\<rparr>))"

subsection \<open>Allocation\<close>

text \<open>The write-locked part of the loop: fold both deltas into the bases.\<close>

definition update_base :: "SCN \<Rightarrow> LSNAllocator \<Rightarrow> LSNAllocator" where
  "update_base base al =
     al\<lparr>log_id_base := cur_log_id al,
        scn_base := max (scn_val base) (cur_scn al),
        lsn_ts_meta := (lsn_ts_meta al)\<lparr>scn_delta := 0, log_id_delta := 0\<rparr>\<rparr>"

definition tmp_next_scn :: "SCN \<Rightarrow> LSNAllocator \<Rightarrow> u64" where
  "tmp_next_scn base al = max (scn_val base) (cur_scn al + 1)"

definition need_update_base :: "SCN \<Rightarrow> LSNAllocator \<Rightarrow> bool" where
  "need_update_base base al \<longleftrightarrow>
     (tmp_next_scn base al + 1) - scn_base al \<ge> LOG_TS_DELTA_UPPER_BOUND
     \<or> uint (log_id_delta (lsn_ts_meta al)) + 2 \<ge> LOG_ID_DELTA_UPPER_BOUND"

text \<open>
  Does the log start a new group, must the one after it be cut, and where would it end in
  its block? The second branch is the one the source marks as unexpected: it stores
  \<^verbatim>\<open>OB_ERR_UNEXPECTED\<close> in \<^verbatim>\<open>ret\<close> and goes on with the initial values of the locals, and every
  path from there to the end of the loop body stores another code in \<^verbatim>\<open>ret\<close>.
\<close>

definition plan_group :: "bool \<Rightarrow> u64 \<Rightarrow> u64 \<Rightarrow> u64 \<Rightarrow> bool \<times> bool \<times> u64" where
  "plan_group need_cut last_block_offset log_size new_group_log_size =
     (if need_cut then
        (True, (last_block_offset AND LOG_CUT_TRIGGER_MASK) + new_group_log_size \<ge> LOG_CUT_TRIGGER,
         last_block_offset + new_group_log_size)
      else if last_block_offset > 0 \<and> last_block_offset AND LOG_CUT_TRIGGER_MASK = 0 then
        (False, False, 0)
      else if last_block_offset > 0
              \<and> (last_block_offset AND LOG_CUT_TRIGGER_MASK) + log_size > LOG_CUT_TRIGGER then
        (True, (last_block_offset AND LOG_CUT_TRIGGER_MASK) + new_group_log_size \<ge> LOG_CUT_TRIGGER,
         last_block_offset + new_group_log_size)
      else
        (False, (last_block_offset AND LOG_CUT_TRIGGER_MASK) + log_size \<ge> LOG_CUT_TRIGGER,
         last_block_offset + log_size))"

text \<open>Does it fit in its block? The result is the group flag, the padding flag, the padding
  length, the block and the offset of the end, and the cut flag of the next log.\<close>

definition plan_block ::
    "bool \<times> bool \<times> u64 \<Rightarrow> u64 \<Rightarrow> u64 \<Rightarrow> u64 \<Rightarrow> bool \<times> bool \<times> int \<times> u64 \<times> u64 \<times> bool" where
  "plan_block g last_block_id last_block_offset new_group_log_size =
     (case g of (is_new, next_cut, next_offset) \<Rightarrow>
        if next_offset < block_size then
          (if block_size - next_offset < of_int CLOG_FILE_TAIL_PADDING_TRIGGER
           then (True, True, uint (block_size - last_block_offset), last_block_id + 1,
                 new_group_log_size, new_group_log_size \<ge> LOG_CUT_TRIGGER)
           else (is_new, False, 0, last_block_id, next_offset, next_cut))
        else if next_offset = block_size then
          (is_new, False, 0, last_block_id + 1, 0, True)
        else
          (True, True, uint (block_size - last_block_offset), last_block_id + 1,
           new_group_log_size, new_group_log_size \<ge> LOG_CUT_TRIGGER))"

definition alloc_step ::
    "SCN \<Rightarrow> int \<Rightarrow> int \<Rightarrow> LSN \<Rightarrow> alloc_out \<Rightarrow> LSNAllocator \<Rightarrow> ob_ret \<times> alloc_out \<times> LSNAllocator" where
  "alloc_step base log_size log_id_upper_bound lsn_upper_bound out al =
     (let last = lsn_ts_meta al;
          new_group_log_size = of_int (log_size + GROUP_HEADER_SER_SIZE);
          last_log_id = cur_log_id al;
          last_block_id = lsn_2_block (LSN (meta_lsn_val last)) block_size;
          last_block_offset = lsn_2_offset (LSN (meta_lsn_val last)) block_size;
          g = plan_group (is_need_cut last) last_block_offset (of_int log_size) new_group_log_size
      in case plan_block g last_block_id last_block_offset new_group_log_size of
        (is_new, pad, pad_len, next_block_id, next_block_offset, next_cut) \<Rightarrow>
          let next_log_id_delta = uint (log_id_delta last) + (if is_new then 1 else 0)
                                  + (if pad then 1 else 0);
              output_next_scn_delta = tmp_next_scn base al - scn_base al;
              next_scn_delta = output_next_scn_delta + (if pad then 1 else 0);
              next = \<lparr>is_need_cut = next_cut,
                      log_id_delta = of_int next_log_id_delta,
                      scn_delta = ucast next_scn_delta,
                      meta_lsn_val = next_block_id * block_size + next_block_offset\<rparr>;
              new_log_id = (if is_new then last_log_id + 1 else last_log_id) + (if pad then 1 else 0);
              out' = out\<lparr>is_new_group_log := is_new, need_gen_padding_entry := pad,
                         padding_len := pad_len\<rparr>
          in if new_log_id > log_id_upper_bound \<or> lsn_gt (LSN (meta_lsn_val next)) lsn_upper_bound
             then (OB_EAGAIN, out', al)
             else case convert_for_logservice (out_scn out) (scn_base al + output_next_scn_delta) of
               (ret, scn) \<Rightarrow>
                 (ret,
                  out'\<lparr>out_lsn := LSN (meta_lsn_val last),
                       out_log_id := (if is_new then last_log_id + 1 else last_log_id),
                       out_scn := scn\<rparr>,
                  al\<lparr>lsn_ts_meta := next\<rparr>))"

text \<open>The \<^verbatim>\<open>do .. while (need_update_base)\<close> loop; \<^const>\<open>None\<close> would be a loop that never ends.\<close>

partial_function (option) alloc_loop ::
    "bool \<Rightarrow> SCN \<Rightarrow> int \<Rightarrow> int \<Rightarrow> LSN \<Rightarrow> alloc_out \<Rightarrow> LSNAllocator
     \<Rightarrow> (ob_ret \<times> alloc_out \<times> LSNAllocator) option" where
  "alloc_loop update base log_size log_id_upper_bound lsn_upper_bound out al =
     (let al' = (if update then update_base base al else al) in
      if need_update_base base al'
      then alloc_loop True base log_size log_id_upper_bound lsn_upper_bound
             (out\<lparr>is_new_group_log := False, need_gen_padding_entry := False, padding_len := 0\<rparr>) al'
      else Some (alloc_step base log_size log_id_upper_bound lsn_upper_bound out al'))"

definition alloc_lsn_scn ::
    "SCN \<Rightarrow> int \<Rightarrow> int \<Rightarrow> LSN \<Rightarrow> alloc_out \<Rightarrow> LSNAllocator
     \<Rightarrow> (ob_ret \<times> alloc_out \<times> LSNAllocator) option" where
  "alloc_lsn_scn base log_size log_id_upper_bound lsn_upper_bound out al =
     (if \<not> is_inited al then Some (OB_NOT_INIT, out, al)
      else if log_size \<le> 0 \<or> \<not> scn_is_valid base \<or> log_id_upper_bound \<le> 0
              \<or> \<not> lsn_is_valid lsn_upper_bound
      then Some (OB_INVALID_ARGUMENT, out, al)
      else alloc_loop False base log_size log_id_upper_bound lsn_upper_bound out al)"

declare alloc_loop.simps [code]

subsection \<open>Where a log goes\<close>

text \<open>The decisions of \<open>plan_group\<close> and \<open>plan_block\<close> read as integers: the log ends where its
  length says, within one block, and a position on a 2 MB boundary always cuts the group.\<close>

lemma uint_block_size: "uint block_size = PALF_BLOCK_SIZE"
  by (simp add: block_size_def PALF_BLOCK_SIZE_eq)

lemma uint_cut_trigger: "uint LOG_CUT_TRIGGER = 2 ^ 21"
  by (simp add: LOG_CUT_TRIGGER_def)

lemma uint_and_cut_mask: "uint (x AND LOG_CUT_TRIGGER_MASK) = uint x mod 2 ^ 21"
proof -
  have "LOG_CUT_TRIGGER_MASK = mask 21"
    by (simp add: LOG_CUT_TRIGGER_MASK_def mask_eq_exp_minus_1)
  then have "x AND LOG_CUT_TRIGGER_MASK = take_bit 21 x"
    by (simp add: take_bit_eq_mask)
  then show ?thesis by (simp add: uint_mod take_bit_eq_mod)
qed

lemma uint_size:
  assumes "0 < sz" "sz \<le> PALF_BLOCK_SIZE"
  shows "uint (of_int sz :: u64) = sz"
  using assms by (intro uint_of_int_small) (auto simp: PALF_BLOCK_SIZE_eq)

lemma plan_group_sound:
  assumes off: "uint off < PALF_BLOCK_SIZE"
    and sz: "0 < sz" "sz + GROUP_HEADER_SER_SIZE < PALF_BLOCK_SIZE"
    and cut: "need_cut \<or> uint off mod 2 ^ 21 \<noteq> 0"
    and g: "plan_group need_cut off (of_int sz) (of_int (sz + GROUP_HEADER_SER_SIZE)) = (n, nc, no)"
  shows "uint no = uint off + (if n then sz + GROUP_HEADER_SER_SIZE else sz)"
    and "nc \<or> uint no mod 2 ^ 21 \<noteq> 0"
proof -
  let ?len = "if n then sz + GROUP_HEADER_SER_SIZE else sz"
  have u: "uint (of_int sz :: u64) = sz"
      "uint (of_int (sz + GROUP_HEADER_SER_SIZE) :: u64) = sz + GROUP_HEADER_SER_SIZE"
    using sz by (intro uint_size; simp add: GROUP_HEADER_SER_SIZE_def)+
  have s1: "uint (a + of_int sz :: u64) = uint a + sz" if "uint a < PALF_BLOCK_SIZE" for a
    using that sz u by (subst uint_add_nowrap) (auto simp: PALF_BLOCK_SIZE_eq GROUP_HEADER_SER_SIZE_def)
  have s2: "uint (a + of_int (sz + GROUP_HEADER_SER_SIZE) :: u64) = uint a + (sz + GROUP_HEADER_SER_SIZE)"
    if "uint a < PALF_BLOCK_SIZE" for a
    using that sz u by (subst uint_add_nowrap) (auto simp: PALF_BLOCK_SIZE_eq)
  have m: "uint (off AND LOG_CUT_TRIGGER_MASK) < PALF_BLOCK_SIZE"
    by (simp add: uint_and_cut_mask PALF_BLOCK_SIZE_eq order_less_trans[OF pos_mod_bound])
  have nz: "off AND LOG_CUT_TRIGGER_MASK \<noteq> 0" if "\<not> need_cut"
    using that cut by (auto simp: uint_0_iff[symmetric] uint_and_cut_mask simp del: uint_0_iff)
  have cond: "no = off + of_int ?len \<and> (nc \<longleftrightarrow> uint off mod 2 ^ 21 + ?len \<ge> 2 ^ 21)"
    using g nz s1[OF m] s2[OF m]
    by (auto simp: plan_group_def word_le_def uint_cut_trigger uint_and_cut_mask split: if_splits)
  then show no: "uint no = uint off + ?len"
    using s1[OF off] s2[OF off] by (cases n) simp_all
  show "nc \<or> uint no mod 2 ^ 21 \<noteq> 0"
    using cond no small_mod_add[of ?len "uint off" "2 ^ 21"] sz
    by (auto simp: GROUP_HEADER_SER_SIZE_def split: if_splits)
qed

lemma plan_block_sound:
  assumes off: "uint off < PALF_BLOCK_SIZE"
    and ngs: "uint ngs < PALF_BLOCK_SIZE" "0 < uint ngs"
    and blk: "uint blk + 1 < 2 ^ 64"
    and c0: "c0 \<or> uint o0 mod 2 ^ 21 \<noteq> 0"
    and p: "plan_block (n0, c0, o0) blk off ngs = (n, pad, pl, nb, no, nc)"
  shows "if pad
         then n \<and> pl = PALF_BLOCK_SIZE - uint off \<and> uint nb = uint blk + 1 \<and> no = ngs
         else n = n0 \<and> pl = 0
              \<and> (nb = blk \<and> no = o0 \<and> uint o0 < PALF_BLOCK_SIZE
                 \<or> uint nb = uint blk + 1 \<and> no = 0 \<and> uint o0 = PALF_BLOCK_SIZE)"
    and "nc \<or> uint no mod 2 ^ 21 \<noteq> 0"
    and "uint no < PALF_BLOCK_SIZE"
proof -
  have b1: "uint (blk + 1) = uint blk + 1"
    using blk by (subst uint_add_nowrap) auto
  have d: "uint (block_size - off) = PALF_BLOCK_SIZE - uint off"
    using off by (subst uint_sub_nowrap) (auto simp: uint_block_size)
  have cmp: "o0 < block_size \<longleftrightarrow> uint o0 < PALF_BLOCK_SIZE" "o0 = block_size \<longleftrightarrow> uint o0 = PALF_BLOCK_SIZE"
    by (simp_all add: word_less_def uint_block_size word_uint_eq_iff)
  have m: "ngs \<ge> LOG_CUT_TRIGGER \<or> uint ngs mod 2 ^ 21 \<noteq> 0"
    using ngs by (auto simp: word_le_def uint_cut_trigger dest!: zdvd_imp_le)
  show "if pad
         then n \<and> pl = PALF_BLOCK_SIZE - uint off \<and> uint nb = uint blk + 1 \<and> no = ngs
         else n = n0 \<and> pl = 0
              \<and> (nb = blk \<and> no = o0 \<and> uint o0 < PALF_BLOCK_SIZE
                 \<or> uint nb = uint blk + 1 \<and> no = 0 \<and> uint o0 = PALF_BLOCK_SIZE)"
    using p cmp by (auto simp: plan_block_def d b1 split: if_splits)
  show "nc \<or> uint no mod 2 ^ 21 \<noteq> 0"
    using p c0 m by (auto simp: plan_block_def split: if_splits)
  show "uint no < PALF_BLOCK_SIZE"
    using p cmp ngs by (auto simp: plan_block_def PALF_BLOCK_SIZE_eq split: if_splits)
qed

subsection \<open>What the state means\<close>

text \<open>
  The end of the log, the largest change number handed out and the smallest one the next log
  may get, as integers. The invariant is what the branch marked unexpected relies on: a log
  that ends on a 2 MB boundary has its group closed. \<open>alloc_room\<close> leaves two blocks of address
  space and two change numbers, so that nothing wraps.
\<close>

definition end_lsn :: "LSNAllocator \<Rightarrow> int" where
  "end_lsn al = uint (meta_lsn_val (lsn_ts_meta al))"

definition max_scn_int :: "LSNAllocator \<Rightarrow> int" where
  "max_scn_int al = uint (scn_base al) + uint (scn_delta (lsn_ts_meta al))"

definition next_scn_int :: "SCN \<Rightarrow> LSNAllocator \<Rightarrow> int" where
  "next_scn_int base al = max (uint (scn_val base)) (max_scn_int al + 1)"

definition alloc_inv :: "LSNAllocator \<Rightarrow> bool" where
  "alloc_inv al \<longleftrightarrow> is_inited al \<and> max_scn_int al < 2 ^ 62
     \<and> (is_need_cut (lsn_ts_meta al) \<or> end_lsn al mod PALF_BLOCK_SIZE mod 2 ^ 21 \<noteq> 0)"

definition alloc_room :: "SCN \<Rightarrow> LSNAllocator \<Rightarrow> bool" where
  "alloc_room base al \<longleftrightarrow> end_lsn al + 2 * PALF_BLOCK_SIZE < 2 ^ 64 \<and> next_scn_int base al + 2 < 2 ^ 62"

definition log_len :: "int \<Rightarrow> alloc_out \<Rightarrow> int" where
  "log_len sz out = (if is_new_group_log out then sz + GROUP_HEADER_SER_SIZE else sz)"

lemma uint_cur_scn: "max_scn_int al < 2 ^ 62 \<Longrightarrow> uint (cur_scn al) = max_scn_int al"
  by (simp add: cur_scn_def max_scn_int_def uint_add_nowrap uint_ucast_up)

lemma uint_tmp_next_scn:
  "next_scn_int base al + 1 < 2 ^ 62 \<Longrightarrow> uint (tmp_next_scn base al) = next_scn_int base al"
  by (simp add: tmp_next_scn_def next_scn_int_def uint_max uint_add_nowrap uint_cur_scn)

lemma need_update_base_int:
  assumes "next_scn_int base al + 1 < 2 ^ 62"
  shows "need_update_base base al \<longleftrightarrow>
     next_scn_int base al + 1 - uint (scn_base al) \<ge> 2 ^ 35 - 1000
     \<or> uint (log_id_delta (lsn_ts_meta al)) + 2 \<ge> 2 ^ 28 - 1000"
proof -
  have le: "uint (scn_base al) \<le> next_scn_int base al"
    by (simp add: next_scn_int_def max_scn_int_def le_max_iff_disj)
  have "uint (tmp_next_scn base al + 1) = next_scn_int base al + 1"
    using assms by (simp add: uint_add_nowrap uint_tmp_next_scn)
  then have "uint (tmp_next_scn base al + 1 - scn_base al) = next_scn_int base al + 1 - uint (scn_base al)"
    using le by (simp add: uint_sub_nowrap)
  then show ?thesis
    by (simp add: need_update_base_def word_le_def LOG_TS_DELTA_UPPER_BOUND_def
        LOG_ID_DELTA_UPPER_BOUND_def)
qed

lemma update_base_int:
  assumes "max_scn_int al < 2 ^ 62"
  shows "end_lsn (update_base base al) = end_lsn al"
    and "cur_log_id (update_base base al) = cur_log_id al"
    and "max_scn_int (update_base base al) = max (uint (scn_val base)) (max_scn_int al)"
    and "scn_is_valid base \<Longrightarrow> alloc_inv (update_base base al) = alloc_inv al"
    and "next_scn_int base (update_base base al) \<le> next_scn_int base al + 1"
  using assms by (auto simp: update_base_def end_lsn_def cur_log_id_def max_scn_int_def alloc_inv_def
      next_scn_int_def uint_max valid_iff_uint uint_cur_scn[unfolded max_scn_int_def])

lemma no_second_update:
  assumes "next_scn_int base al + 2 < 2 ^ 62"
  shows "\<not> need_update_base base (update_base base al)"
proof -
  have m: "max_scn_int al < 2 ^ 62" using assms by (simp add: next_scn_int_def)
  have "next_scn_int base (update_base base al) + 1 < 2 ^ 62"
    using update_base_int(5)[OF m, of base] assms by linarith
  moreover have "next_scn_int base (update_base base al) + 1 - uint (scn_base (update_base base al)) \<le> 2"
    using m by (simp add: next_scn_int_def update_base_def uint_max max_scn_int_def
        uint_cur_scn[unfolded max_scn_int_def])
  moreover have "uint (log_id_delta (lsn_ts_meta (update_base base al))) = 0"
    by (simp add: update_base_def)
  ultimately show ?thesis by (simp add: need_update_base_int)
qed

text \<open>
  The contract of a successful allocation. The log starts at the old end; what follows is the
  padding, if any, that fills the block exactly, and then the log (with a group header if it
  opens a group), which does not cross a block boundary; the ids grow by one for a new group
  and one for a padding; the change number is new.
\<close>

definition alloc_ok :: "SCN \<Rightarrow> int \<Rightarrow> alloc_out \<Rightarrow> LSNAllocator \<Rightarrow> LSNAllocator \<Rightarrow> bool" where
  "alloc_ok base sz out al al' \<longleftrightarrow>
     alloc_inv al'
   \<and> uint (lsn_val (out_lsn out)) = end_lsn al
   \<and> end_lsn al' = end_lsn al + padding_len out + log_len sz out
   \<and> (end_lsn al + padding_len out) mod PALF_BLOCK_SIZE + log_len sz out \<le> PALF_BLOCK_SIZE
   \<and> (if need_gen_padding_entry out
      then is_new_group_log out \<and> 0 < padding_len out \<and> padding_len out \<le> PALF_BLOCK_SIZE
           \<and> (end_lsn al + padding_len out) mod PALF_BLOCK_SIZE = 0
      else padding_len out = 0)
   \<and> out_log_id out = cur_log_id al + (if is_new_group_log out then 1 else 0)
   \<and> cur_log_id al' = out_log_id out + (if need_gen_padding_entry out then 1 else 0)
   \<and> scn_is_valid (out_scn out)
   \<and> next_scn_int base al \<le> uint (scn_val (out_scn out))
   \<and> uint (scn_val (out_scn out)) \<le> next_scn_int base al + 1
   \<and> max_scn_int al' = uint (scn_val (out_scn out)) + (if need_gen_padding_entry out then 1 else 0)"

lemma block_split:
  fixes e :: int
  shows "e div PALF_BLOCK_SIZE * PALF_BLOCK_SIZE + e mod PALF_BLOCK_SIZE = e"
    and "0 \<le> e \<Longrightarrow> e < 2 ^ 64 \<Longrightarrow> e div PALF_BLOCK_SIZE + 1 < 2 ^ 64"
    and "0 \<le> e mod PALF_BLOCK_SIZE" and "e mod PALF_BLOCK_SIZE < PALF_BLOCK_SIZE"
  by (auto simp: PALF_BLOCK_SIZE_eq)

lemma uint_block_offset:
  "uint (lsn_2_block (LSN w) block_size) = uint w div PALF_BLOCK_SIZE"
  "uint (lsn_2_offset (LSN w) block_size) = uint w mod PALF_BLOCK_SIZE"
  by (simp_all add: lsn_2_block_def lsn_2_offset_def uint_div uint_mod uint_block_size)

lemma next_lsn_int:
  assumes "uint nb * PALF_BLOCK_SIZE + uint no < 2 ^ 64"
  shows "uint (nb * block_size + no) = uint nb * PALF_BLOCK_SIZE + uint no"
proof -
  have "uint nb * uint block_size < 2 ^ LENGTH(64)"
    unfolding uint_block_size using add_uint_less[OF assms] by simp
  then have "uint (nb * block_size) = uint nb * PALF_BLOCK_SIZE"
    by (simp add: uint_mult_nowrap uint_block_size)
  then show ?thesis using assms by (simp add: uint_add_nowrap)
qed

lemma plan_end:
  assumes e: "e = uint w" "e + 2 * PALF_BLOCK_SIZE < 2 ^ 64"
    and sz: "0 < sz" "sz + GROUP_HEADER_SER_SIZE < PALF_BLOCK_SIZE"
    and cut: "need_cut \<or> e mod PALF_BLOCK_SIZE mod 2 ^ 21 \<noteq> 0"
    and blk: "blk = lsn_2_block (LSN w) block_size" and off: "off = lsn_2_offset (LSN w) block_size"
    and p: "plan_block (plan_group need_cut off (of_int sz) (of_int (sz + GROUP_HEADER_SER_SIZE)))
              blk off (of_int (sz + GROUP_HEADER_SER_SIZE)) = (n, pad, pl, nb, no, nc)"
    and len: "len = (if n then sz + GROUP_HEADER_SER_SIZE else sz)"
  shows "uint (nb * block_size + no) = e + pl + len"
    and "(e + pl) mod PALF_BLOCK_SIZE + len \<le> PALF_BLOCK_SIZE"
    and "if pad then n \<and> 0 < pl \<and> pl \<le> PALF_BLOCK_SIZE \<and> (e + pl) mod PALF_BLOCK_SIZE = 0 else pl = 0"
    and "nc \<or> (e + pl + len) mod PALF_BLOCK_SIZE mod 2 ^ 21 \<noteq> 0"
proof -
  let ?B = PALF_BLOCK_SIZE
  let ?ngs = "of_int (sz + GROUP_HEADER_SER_SIZE) :: u64"
  have ub: "uint blk = e div ?B" and uo: "uint off = e mod ?B"
    using e(1) by (simp_all add: blk off uint_block_offset)
  have B: "0 < ?B" by (simp add: PALF_BLOCK_SIZE_eq)
  have e0: "0 \<le> e" using e(1) by simp
  have blk1: "uint blk + 1 < 2 ^ 64" using ub block_split(2)[OF e0] e(2) B by linarith
  have u: "uint ?ngs = sz + GROUP_HEADER_SER_SIZE"
    using sz by (intro uint_size) (auto simp: GROUP_HEADER_SER_SIZE_def)
  obtain n0 c0 o0 where g: "plan_group need_cut off (of_int sz) ?ngs = (n0, c0, o0)"
    by (cases "plan_group need_cut off (of_int sz) ?ngs") auto
  have cut': "need_cut \<or> uint off mod 2 ^ 21 \<noteq> 0" using cut uo by simp
  have off_lt: "uint off < ?B" using uo block_split(4) by simp
  note gs = plan_group_sound[OF off_lt sz cut' g]
  have ngs: "uint ?ngs < ?B" "0 < uint ?ngs" using u sz by (auto simp: GROUP_HEADER_SER_SIZE_def)
  note ps = plan_block_sound[OF off_lt ngs blk1 gs(2) p[unfolded g]]
  have split_e: "uint blk * ?B + uint off = e" using ub uo block_split(1)[of e] by simp
  have tot: "uint nb * ?B + uint no = e + pl + len"
    using ps(1) gs(1) u len split_e
    by (cases pad) (auto simp: algebra_simps)
  have off0: "0 \<le> e mod ?B" by (rule block_split(3))
  have plb: "0 \<le> pl \<and> pl \<le> ?B" using ps(1) uo off0 off_lt by (auto split: if_splits)
  have lenb: "len \<le> ?B" using sz by (simp add: len GROUP_HEADER_SER_SIZE_def)
  have le: "pl + len \<le> 2 * ?B" using plb lenb by linarith
  then have "uint nb * ?B + uint no < 2 ^ 64" using tot e(2) by linarith
  then show r: "uint (nb * block_size + no) = e + pl + len"
    using next_lsn_int tot by simp
  have padz: "(e + pl) mod ?B = 0" if "pad"
  proof -
    have "pl = ?B - uint off" using ps(1) that by simp
    then have "e + pl = (uint blk + 1) * ?B" unfolding distrib_right using split_e by linarith
    then show ?thesis by simp
  qed
  show "(e + pl) mod ?B + len \<le> ?B"
    using ps(1) gs(1) u len uo sz padz by (cases pad) auto
  show "if pad then n \<and> 0 < pl \<and> pl \<le> ?B \<and> (e + pl) mod ?B = 0 else pl = 0"
    using ps(1) padz off_lt by (cases pad) auto
  have "(e + pl + len) mod ?B = uint no"
    using ps(3) by (simp flip: tot)
  then show "nc \<or> (e + pl + len) mod ?B mod 2 ^ 21 \<noteq> 0" using ps(2) by simp
qed

lemma scn_delta_int:
  assumes "next_scn_int base al + 1 < 2 ^ 62" and "\<not> need_update_base base al"
  shows "uint (tmp_next_scn base al - scn_base al + (if pad then 1 else 0))
         = next_scn_int base al - uint (scn_base al) + (if pad then 1 else 0)"
    and "next_scn_int base al - uint (scn_base al) + (if pad then 1 else 0) < 2 ^ 35"
proof -
  have le: "uint (scn_base al) \<le> next_scn_int base al"
    by (simp add: next_scn_int_def max_scn_int_def le_max_iff_disj)
  have d: "uint (tmp_next_scn base al - scn_base al) = next_scn_int base al - uint (scn_base al)"
    using le assms(1) by (simp add: uint_sub_nowrap uint_tmp_next_scn)
  show lt: "next_scn_int base al - uint (scn_base al) + (if pad then 1 else 0) < 2 ^ 35"
    using assms by (simp add: need_update_base_int)
  show "uint (tmp_next_scn base al - scn_base al + (if pad then 1 else 0))
         = next_scn_int base al - uint (scn_base al) + (if pad then 1 else 0)"
    using lt by (subst uint_add_nowrap) (auto simp: d split: if_splits)
qed

lemma convert_tmp_next_scn:
  assumes "next_scn_int base al + 1 < 2 ^ 62"
  shows "convert_for_logservice s (scn_base al + (tmp_next_scn base al - scn_base al))
         = (OB_SUCCESS, SCN (tmp_next_scn base al))"
  using assms by (simp add: convert_for_logservice_def word_less_def uint_OB_MAX_SCN_TS_NS uint_tmp_next_scn)

definition next_meta :: "SCN \<Rightarrow> LSNAllocator \<Rightarrow> bool \<Rightarrow> bool \<Rightarrow> u64 \<Rightarrow> bool \<Rightarrow> LSNTsMeta" where
  "next_meta base al n pad e nc =
     \<lparr>is_need_cut = nc,
      log_id_delta = of_int (uint (log_id_delta (lsn_ts_meta al)) + (if n then 1 else 0) + (if pad then 1 else 0)),
      scn_delta = ucast (tmp_next_scn base al - scn_base al + (if pad then 1 else 0)),
      meta_lsn_val = e\<rparr>"

lemma next_meta_sound:
  assumes "next_scn_int base al + 1 < 2 ^ 62" and "\<not> need_update_base base al"
  shows "cur_log_id (al\<lparr>lsn_ts_meta := next_meta base al n pad e nc\<rparr>)
         = cur_log_id al + (if n then 1 else 0) + (if pad then 1 else 0)"
    and "max_scn_int (al\<lparr>lsn_ts_meta := next_meta base al n pad e nc\<rparr>)
         = next_scn_int base al + (if pad then 1 else 0)"
proof -
  have "uint (log_id_delta (lsn_ts_meta al)) + 2 < 2 ^ 28"
    using assms by (simp add: need_update_base_int)
  then have "uint (of_int (uint (log_id_delta (lsn_ts_meta al)) + (if n then 1 else 0)
                          + (if pad then 1 else 0)) :: 28 word)
             = uint (log_id_delta (lsn_ts_meta al)) + (if n then 1 else 0) + (if pad then 1 else 0)"
    by (intro uint_of_int_small) auto
  then show "cur_log_id (al\<lparr>lsn_ts_meta := next_meta base al n pad e nc\<rparr>)
             = cur_log_id al + (if n then 1 else 0) + (if pad then 1 else 0)"
    by (simp add: cur_log_id_def next_meta_def del: of_int_add)
  note sd = scn_delta_int[OF assms, of pad]
  have "uint (ucast (tmp_next_scn base al - scn_base al + (if pad then 1 else 0)) :: 35 word)
        = next_scn_int base al - uint (scn_base al) + (if pad then 1 else 0)"
    using sd by (subst uint_ucast_small) auto
  then show "max_scn_int (al\<lparr>lsn_ts_meta := next_meta base al n pad e nc\<rparr>)
             = next_scn_int base al + (if pad then 1 else 0)"
    by (simp add: max_scn_int_def next_meta_def)
qed

lemma alloc_step_sound:
  assumes inv: "alloc_inv al" and room: "end_lsn al + 2 * PALF_BLOCK_SIZE < 2 ^ 64" "next_scn_int base al + 1 < 2 ^ 62"
    and nu: "\<not> need_update_base base al"
    and sz: "0 < sz" "sz + GROUP_HEADER_SER_SIZE < PALF_BLOCK_SIZE"
    and step: "alloc_step base sz idub lsnub out al = (ret, out', al')"
  shows "(ret = OB_SUCCESS \<and> alloc_ok base sz out' al al'
            \<and> uint (scn_val (out_scn out')) = next_scn_int base al
            \<and> cur_log_id al' \<le> idub \<and> end_lsn al' \<le> uint (lsn_val lsnub))
       \<or> (ret = OB_EAGAIN \<and> al' = al
            \<and> (idub < cur_log_id al + 2
               \<or> uint (lsn_val lsnub) < end_lsn al + padding_len out' + log_len sz out'))"
proof -
  define w where "w = meta_lsn_val (lsn_ts_meta al)"
  let ?off = "lsn_2_offset (LSN w) block_size" and ?blk = "lsn_2_block (LSN w) block_size"
  let ?ngs = "of_int (sz + GROUP_HEADER_SER_SIZE) :: u64"
  let ?g = "plan_group (is_need_cut (lsn_ts_meta al)) ?off (of_int sz) ?ngs"
  obtain n pad pl nb no nc where p: "plan_block ?g ?blk ?off ?ngs = (n, pad, pl, nb, no, nc)"
    by (cases "plan_block ?g ?blk ?off ?ngs") auto
  define len where "len = (if n then sz + GROUP_HEADER_SER_SIZE else sz)"
  define nx where "nx = next_meta base al n pad (nb * block_size + no) nc"
  let ?al = "al\<lparr>lsn_ts_meta := nx\<rparr>"
  have ew: "end_lsn al = uint w" by (simp add: end_lsn_def w_def)
  from inv have cut: "is_need_cut (lsn_ts_meta al) \<or> uint w mod PALF_BLOCK_SIZE mod 2 ^ 21 \<noteq> 0"
    by (simp add: alloc_inv_def ew)
  from room have r: "uint w + 2 * PALF_BLOCK_SIZE < 2 ^ 64" "next_scn_int base al + 1 < 2 ^ 62"
    by (simp_all add: ew)
  note pe = plan_end[OF refl r(1) sz cut refl refl p len_def]
  note nm = next_meta_sound[OF r(2) nu, of n pad "nb * block_size + no" nc, folded nx_def]
  note st = step[unfolded alloc_step_def Let_def, folded w_def,
      unfolded p prod.case convert_tmp_next_scn[OF r(2)], folded next_meta_def, folded nx_def]
  have ends: "end_lsn ?al = uint w + pl + len" and val: "meta_lsn_val nx = nb * block_size + no"
    using pe(1) by (simp_all add: end_lsn_def nx_def next_meta_def)
  have inv': "alloc_inv ?al"
    using inv pe(4) ends nm(2) r(2) by (simp add: alloc_inv_def) (simp add: nx_def next_meta_def)
  show ?thesis
  proof (cases "idub < (if n then cur_log_id al + 1 else cur_log_id al) + (if pad then 1 else 0)
                \<or> lsn_gt (LSN (meta_lsn_val nx)) lsnub")
    case True
    then have eq: "ret = OB_EAGAIN" "al' = al" "padding_len out' = pl" "is_new_group_log out' = n"
      using st by auto
    have "idub < cur_log_id al + 2 \<or> uint (lsn_val lsnub) < uint w + pl + len"
      using True pe(1) by (auto simp: lsn_gt_uint val split: if_splits)
    then show ?thesis using eq by (simp add: ew log_len_def len_def)
  next
    case False
    then have eq: "ret = OB_SUCCESS" "al' = ?al" "padding_len out' = pl" "is_new_group_log out' = n"
        "need_gen_padding_entry out' = pad" "out_lsn out' = LSN w" "out_scn out' = SCN (tmp_next_scn base al)"
        "out_log_id out' = cur_log_id al + (if n then 1 else 0)"
      using st by auto
    have ll: "log_len sz out' = len" by (simp add: log_len_def len_def eq)
    have "scn_is_valid (SCN (tmp_next_scn base al))"
      using r(2) by (simp add: valid_iff_uint uint_tmp_next_scn)
    then have "alloc_ok base sz out' al ?al"
      unfolding alloc_ok_def nm ends ew ll eq SCN.sel LSN.sel uint_tmp_next_scn[OF r(2)]
      using inv' pe(2,3) by (auto simp: end_lsn_def w_def)
    moreover have "cur_log_id ?al \<le> idub" "end_lsn ?al \<le> uint (lsn_val lsnub)"
      using False nm by (auto simp: lsn_gt_uint end_lsn_def split: if_splits)
    ultimately show ?thesis using eq by (simp add: uint_tmp_next_scn[OF r(2)])
  qed
qed

lemma alloc_ok_update_base:
  assumes m: "next_scn_int base al + 2 < 2 ^ 62"
    and ok: "alloc_ok base sz out (update_base base al) al'"
    and eq: "uint (scn_val (out_scn out)) = next_scn_int base (update_base base al)"
  shows "alloc_ok base sz out al al'"
proof -
  have s: "max_scn_int al < 2 ^ 62" using m by (simp add: next_scn_int_def)
  note u = update_base_int[OF s, of base]
  have ge: "next_scn_int base al \<le> next_scn_int base (update_base base al)"
    by (simp add: next_scn_int_def u(3))
  from ok show ?thesis
    unfolding alloc_ok_def u(1,2) eq using u(5) ge by simp
qed
lemma alloc_lsn_scn_cases:
  assumes "is_inited al" and "0 < sz" and "scn_is_valid base" and "0 < idub" and "lsn_is_valid lsnub"
    and m: "next_scn_int base al + 2 < 2 ^ 62"
  obtains (plain) "\<not> need_update_base base al"
      "alloc_lsn_scn base sz idub lsnub out al = Some (alloc_step base sz idub lsnub out al)"
    | (rebased) "\<not> need_update_base base (update_base base al)"
      "alloc_lsn_scn base sz idub lsnub out al = Some (alloc_step base sz idub lsnub
         (out\<lparr>is_new_group_log := False, need_gen_padding_entry := False, padding_len := 0\<rparr>)
         (update_base base al))"
proof (cases "need_update_base base al")
  case True
  then show ?thesis
    using assms no_second_update[OF m] rebased
    by (simp add: alloc_lsn_scn_def alloc_loop.simps[of False] alloc_loop.simps[of True])
next
  case False
  then show ?thesis using assms plain by (simp add: alloc_lsn_scn_def alloc_loop.simps[of False])
qed

lemma alloc_lsn_scn_total:
  assumes inv: "alloc_inv al" and room: "alloc_room base al"
    and sz: "0 < sz" "sz + GROUP_HEADER_SER_SIZE < PALF_BLOCK_SIZE"
    and args: "scn_is_valid base" "0 < idub" "lsn_is_valid lsnub"
  shows "\<exists>ret out' al'. alloc_lsn_scn base sz idub lsnub out al = Some (ret, out', al')
     \<and> ((ret = OB_SUCCESS \<and> alloc_ok base sz out' al al'
            \<and> cur_log_id al' \<le> idub \<and> end_lsn al' \<le> uint (lsn_val lsnub))
       \<or> (ret = OB_EAGAIN \<and> al' \<in> {al, update_base base al}
            \<and> (idub < cur_log_id al + 2
               \<or> uint (lsn_val lsnub) < end_lsn al + padding_len out' + log_len sz out')))"
proof -
  from room have r: "end_lsn al + 2 * PALF_BLOCK_SIZE < 2 ^ 64" "next_scn_int base al + 2 < 2 ^ 62"
    by (simp_all add: alloc_room_def)
  have "is_inited al" using inv by (simp add: alloc_inv_def)
  then show ?thesis
  proof (cases rule: alloc_lsn_scn_cases[where out = out, OF _ sz(1) args r(2), consumes 1, case_names plain rebased])
    case plain
    then show ?thesis
      using alloc_step_sound[OF inv r(1) _ plain(1) sz, of idub lsnub out] r(2)
      by (cases "alloc_step base sz idub lsnub out al") auto
  next
    case rebased
    have s: "max_scn_int al < 2 ^ 62" using r(2) by (simp add: next_scn_int_def)
    note u = update_base_int[OF s, of base]
    let ?o = "out\<lparr>is_new_group_log := False, need_gen_padding_entry := False, padding_len := 0\<rparr>"
    obtain ret out' al' where e: "alloc_step base sz idub lsnub ?o (update_base base al) = (ret, out', al')"
      by (cases "alloc_step base sz idub lsnub ?o (update_base base al)")
    have "alloc_inv (update_base base al)" "next_scn_int base (update_base base al) + 1 < 2 ^ 62"
      "end_lsn (update_base base al) + 2 * PALF_BLOCK_SIZE < 2 ^ 64"
      using u inv r args by simp_all
    from alloc_step_sound[OF this(1,3,2) rebased(1) sz e] alloc_ok_update_base[OF r(2)]
    show ?thesis using rebased(2) e u(1,2) by auto
  qed
qed

subsection \<open>The other operations\<close>

definition moved_on :: "LSNAllocator \<Rightarrow> LSNAllocator \<Rightarrow> bool" where
  "moved_on al al' \<longleftrightarrow> alloc_inv al' \<and> end_lsn al \<le> end_lsn al' \<and> cur_log_id al \<le> cur_log_id al'
     \<and> max_scn_int al \<le> max_scn_int al'"

lemma moved_on_trans: "\<lbrakk>moved_on a b; moved_on b c\<rbrakk> \<Longrightarrow> moved_on a c"
  by (auto simp: moved_on_def)

lemma moved_on_refl: "alloc_inv a \<Longrightarrow> moved_on a a"
  by (auto simp: moved_on_def)

lemma moved_on_update_base:
  "\<lbrakk>alloc_inv al; scn_is_valid base\<rbrakk> \<Longrightarrow> moved_on al (update_base base al)"
  using update_base_int[of al base] by (auto simp: moved_on_def alloc_inv_def)

lemma log_len_pos: "0 < sz \<Longrightarrow> 0 < log_len sz out"
  by (simp add: log_len_def GROUP_HEADER_SER_SIZE_def)

lemma alloc_ok_moved_on:
  assumes "alloc_ok base sz out al al'" and "0 < sz"
  shows "moved_on al al'"
    and "uint (lsn_val (out_lsn out)) = end_lsn al" and "cur_log_id al \<le> out_log_id out"
    and "max_scn_int al < uint (scn_val (out_scn out))"
    and "uint (lsn_val (out_lsn out)) + padding_len out + log_len sz out = end_lsn al'"
    and "out_log_id out \<le> cur_log_id al'" and "uint (scn_val (out_scn out)) \<le> max_scn_int al'"
  using assms log_len_pos[OF assms(2), of out]
  by (auto simp: alloc_ok_def moved_on_def next_scn_int_def split: if_splits)

lemma last_log_info_exact:
  assumes inv: "alloc_inv al" and v: "lsn_is_valid lsn" "scn_is_valid scn" "log_id \<noteq> OB_INVALID_LOG_ID"
    and fwd: "cur_log_id al \<le> log_id" "end_lsn al \<le> uint (lsn_val lsn)" "max_scn_int al \<le> uint (scn_val scn)"
    and r: "inc_update_last_log_info lsn log_id scn al = (ret, al')"
  shows "ret = OB_SUCCESS \<and> alloc_inv al' \<and> end_lsn al' = uint (lsn_val lsn)
         \<and> cur_log_id al' = log_id \<and> max_scn_int al' = uint (scn_val scn)"
proof -
  have sb: "uint (scn_base al) \<le> uint (scn_val scn)"
    using fwd(3) unfolding max_scn_int_def using uint_bounded(2)[of "scn_delta (lsn_ts_meta al)"] by linarith
  then have d: "uint (scn_val scn - scn_base al) = uint (scn_val scn) - uint (scn_base al)"
    by (simp add: uint_sub_nowrap)
  have id: "0 \<le> log_id - log_id_base al"
    using fwd(1) unfolding cur_log_id_def using uint_bounded(2)[of "log_id_delta (lsn_ts_meta al)"] by linarith
  have i1: "is_inited al" using inv by (simp add: alloc_inv_def)
  have b: "uint (scn_val scn) < 2 ^ 62" using v(2) by (simp add: valid_iff_uint)
  have nlt: "\<not> lsn_val lsn < meta_lsn_val (lsn_ts_meta al)" "\<not> log_id < cur_log_id al"
    using fwd by (simp_all add: end_lsn_def word_less_def)
  show ?thesis
  proof (cases "log_id - log_id_base al \<ge> LOG_ID_DELTA_UPPER_BOUND
              \<or> scn_val scn - scn_base al \<ge> LOG_TS_DELTA_UPPER_BOUND")
    case True
    then show ?thesis using r v i1 b nlt
      by (auto simp: inc_update_last_log_info_def alloc_inv_def end_lsn_def cur_log_id_def max_scn_int_def)
  next
    case False
    then have lt: "uint (scn_val scn - scn_base al) < 2 ^ 35" "log_id - log_id_base al < 2 ^ LENGTH(28)"
      by (auto simp: word_le_def LOG_TS_DELTA_UPPER_BOUND_def LOG_ID_DELTA_UPPER_BOUND_def)
    have "uint (ucast (scn_val scn - scn_base al) :: 35 word) = uint (scn_val scn) - uint (scn_base al)"
      using lt(1) d by (simp add: uint_ucast_small)
    moreover have "uint (of_int (log_id - log_id_base al) :: 28 word) = log_id - log_id_base al"
      by (rule uint_of_int_small[OF id lt(2)])
    ultimately show ?thesis using False r v i1 b nlt
      by (auto simp: inc_update_last_log_info_def alloc_inv_def end_lsn_def cur_log_id_def max_scn_int_def
          simp del: of_int_diff)
  qed
qed

lemma scn_base_moved_on:
  assumes "alloc_inv al" and "inc_update_scn_base ref_scn al = (ret, al')"
  shows "moved_on al al'"
    and "scn_is_valid ref_scn \<Longrightarrow> ret = OB_SUCCESS \<and> max_scn_int al' = max (max_scn_int al) (uint (scn_val ref_scn))"
proof -
  have c: "uint (cur_scn al) = max_scn_int al" using assms(1) by (simp add: alloc_inv_def uint_cur_scn)
  have "moved_on al al' \<and> (scn_is_valid ref_scn \<longrightarrow>
        ret = OB_SUCCESS \<and> max_scn_int al' = max (max_scn_int al) (uint (scn_val ref_scn)))"
  proof (cases "\<not> scn_is_valid ref_scn \<or> scn_val ref_scn < cur_scn al")
    case True
    then have "al' = al" "scn_is_valid ref_scn \<longrightarrow> ret = OB_SUCCESS \<and> uint (scn_val ref_scn) < max_scn_int al"
      using assms c by (auto simp: inc_update_scn_base_def alloc_inv_def word_less_def[of "scn_val ref_scn"] split: if_splits)
    then show ?thesis using moved_on_refl[OF assms(1)] by auto
  next
    case False
    then have "max_scn_int al \<le> uint (scn_val ref_scn)" "scn_is_valid ref_scn"
      using c by (auto simp: word_less_def)
    then show ?thesis using assms False
      by (auto simp: inc_update_scn_base_def alloc_inv_def moved_on_def max_scn_int_def
          end_lsn_def cur_log_id_def valid_iff_uint)
  qed
  then show "moved_on al al'"
    and "scn_is_valid ref_scn \<Longrightarrow> ret = OB_SUCCESS \<and> max_scn_int al' = max (max_scn_int al) (uint (scn_val ref_scn))"
    by auto
qed

lemma freeze_moved_on:
  assumes "alloc_inv al"
  shows "try_freeze l i al = (ret, l', i', al') \<Longrightarrow> moved_on al al' \<and> is_need_cut (lsn_ts_meta al')"
    and "try_freeze_by_time l i al = (ret, l', i', al') \<Longrightarrow> moved_on al al' \<and> is_need_cut (lsn_ts_meta al')"
  using assms by (auto simp: try_freeze_def try_freeze_by_time_def alloc_inv_def moved_on_def end_lsn_def
      cur_log_id_def max_scn_int_def split: if_splits)

lemma alloc_call_moved_on:
  assumes inv: "alloc_inv al" and sz: "0 < sz" "sz + GROUP_HEADER_SER_SIZE < PALF_BLOCK_SIZE"
    and room: "alloc_room base al"
    and r: "alloc_lsn_scn base sz idub lsnub out al = Some (ret, out', al1)"
  shows "moved_on al al1" and "ret = OB_SUCCESS \<Longrightarrow> alloc_ok base sz out' al al1"
proof -
  have "moved_on al al1 \<and> (ret = OB_SUCCESS \<longrightarrow> alloc_ok base sz out' al al1)"
  proof (cases "scn_is_valid base \<and> 0 < idub \<and> lsn_is_valid lsnub")
    case True
    then show ?thesis
      using alloc_lsn_scn_total[OF inv room sz, of idub lsnub out] r alloc_ok_moved_on(1)[OF _ sz(1)]
        moved_on_update_base[OF inv] moved_on_refl[OF inv] by auto
  next
    case False
    then show ?thesis using r inv moved_on_refl[OF inv]
      by (auto simp: alloc_lsn_scn_def alloc_inv_def)
  qed
  then show "moved_on al al1" and "ret = OB_SUCCESS \<Longrightarrow> alloc_ok base sz out' al al1" by auto
qed

lemma last_log_moved_on:
  assumes inv: "alloc_inv al" and fwd: "max_scn_int al \<le> uint (scn_val s)"
    and r: "inc_update_last_log_info l i s al = (ret, al1)"
  shows "moved_on al al1"
proof (cases "lsn_is_valid l \<and> scn_is_valid s \<and> i \<noteq> OB_INVALID_LOG_ID
              \<and> cur_log_id al \<le> i \<and> end_lsn al \<le> uint (lsn_val l)")
  case True
  then show ?thesis using last_log_info_exact[OF inv _ _ _ _ _ fwd r] fwd by (auto simp: moved_on_def)
next
  case False
  then have "al1 = al" using r by (auto simp: inc_update_last_log_info_def end_lsn_def word_less_def split: if_splits)
  then show ?thesis using inv by (simp add: moved_on_refl)
qed

definition log_after :: "int \<times> alloc_out \<Rightarrow> int \<times> alloc_out \<Rightarrow> bool" where
  "log_after p q \<longleftrightarrow>
     uint (lsn_val (out_lsn (snd p))) + padding_len (snd p) + log_len (fst p) (snd p)
       \<le> uint (lsn_val (out_lsn (snd q)))
   \<and> out_log_id (snd p) \<le> out_log_id (snd q)
   \<and> uint (scn_val (out_scn (snd p))) < uint (scn_val (out_scn (snd q)))"

definition from_here :: "LSNAllocator \<Rightarrow> int \<times> alloc_out \<Rightarrow> bool" where
  "from_here al q \<longleftrightarrow> end_lsn al \<le> uint (lsn_val (out_lsn (snd q)))
     \<and> cur_log_id al \<le> out_log_id (snd q) \<and> max_scn_int al < uint (scn_val (out_scn (snd q)))"

lemma from_here_mono: "\<lbrakk>moved_on al al1; from_here al1 q\<rbrakk> \<Longrightarrow> from_here al q"
  by (auto simp: moved_on_def from_here_def)

subsection \<open>Histories of calls\<close>

text \<open>
  One call on the allocator, with the log it handed out, if any. The side condition of the
  call that learns of a received log is what its caller ensures: logs further on carry larger
  change numbers. Truncation, which deliberately moves back, is not among them.
\<close>

inductive alloc_call :: "LSNAllocator \<Rightarrow> (int \<times> alloc_out) option \<Rightarrow> LSNAllocator \<Rightarrow> bool" where
  call_alloc: "\<lbrakk>0 < sz; sz + GROUP_HEADER_SER_SIZE < PALF_BLOCK_SIZE; alloc_room base al;
    alloc_lsn_scn base sz idub lsnub out al = Some (ret, out', al')\<rbrakk>
    \<Longrightarrow> alloc_call al (if ret = OB_SUCCESS then Some (sz, out') else None) al'"
| call_freeze: "try_freeze l i al = (ret, l', i', al') \<Longrightarrow> alloc_call al None al'"
| call_freeze_by_time: "try_freeze_by_time l i al = (ret, l', i', al') \<Longrightarrow> alloc_call al None al'"
| call_scn_base: "inc_update_scn_base s al = (ret, al') \<Longrightarrow> alloc_call al None al'"
| call_last_log: "\<lbrakk>max_scn_int al \<le> uint (scn_val s); inc_update_last_log_info l i s al = (ret, al')\<rbrakk>
    \<Longrightarrow> alloc_call al None al'"

inductive_cases alloc_callE: "alloc_call al e al'"

lemma alloc_call_sound:
  assumes "alloc_call al e al'" and inv: "alloc_inv al"
  shows "moved_on al al' \<and> (\<forall>sz out. e = Some (sz, out) \<longrightarrow> 0 < sz \<and> (\<exists>base. alloc_ok base sz out al al'))"
  using assms(1)
proof cases
  case (call_alloc sz base idub lsnub out ret out')
  then show ?thesis using alloc_call_moved_on[OF inv call_alloc(2-5)] by auto
next
  case (call_freeze l i ret l' i')
  then show ?thesis using freeze_moved_on(1)[OF inv] by blast
next
  case (call_freeze_by_time l i ret l' i')
  then show ?thesis using freeze_moved_on(2)[OF inv] by blast
next
  case (call_scn_base s ret)
  then show ?thesis using scn_base_moved_on(1)[OF inv] by blast
next
  case (call_last_log s l i ret)
  then show ?thesis using last_log_moved_on[OF inv] by blast
qed

interpretation lsn_source: ordered_source alloc_call alloc_inv moved_on from_here log_after
proof unfold_locales
  show "alloc_inv s'" if "alloc_inv s" "alloc_call s e s'" for s e s'
    using alloc_call_sound[OF that(2,1)] by (simp add: moved_on_def)
  show "moved_on s s" if "alloc_inv s" for s using that by (rule moved_on_refl)
  show "moved_on s s'" if "moved_on s s1" "moved_on s1 s'" for s s1 s' using that by (rule moved_on_trans)
  show "moved_on s s'" if "alloc_inv s" "alloc_call s e s'" for s e s'
    using alloc_call_sound[OF that(2,1)] by simp
  show "from_here s x" if "moved_on s s'" "from_here s' x" for s s' x using that by (rule from_here_mono)
  show "from_here s x" if "alloc_inv s" "alloc_call s (Some x) s'" for s x s'
    using alloc_call_sound[OF that(2,1)] alloc_ok_moved_on(2-4)
    by (cases x) (fastforce simp: from_here_def)
  show "log_after x y" if "alloc_inv s" "alloc_call s (Some x) s'" "from_here s' y" for s x s' y
    using alloc_call_sound[OF that(2,1)] alloc_ok_moved_on(5-7) that(3)
    by (cases x) (fastforce simp: log_after_def from_here_def)
qed

subsection \<open>Properties\<close>

text \<open>C35: a call of \<^verbatim>\<open>alloc_lsn_scn\<close> on a state that satisfies the invariant always returns, after at
  most one change of the bases. Either it allocates: the log starts at the old end and takes
  exactly its length (after a padding that fills the block, if the log does not fit in it),
  never crosses a block boundary, stays within both upper bounds, gets a change number that
  is at least the caller's base and above every earlier one, and keeps the invariant. Or the
  bounds leave no room and it returns \<^verbatim>\<open>OB_EAGAIN\<close> with the end of the log where it was.\<close>

theorem alloc_lsn_scn_sound:
  assumes "alloc_inv al" and "alloc_room base al"
    and "0 < sz" and "sz + GROUP_HEADER_SER_SIZE < PALF_BLOCK_SIZE"
    and "scn_is_valid base" and "0 < idub" and "lsn_is_valid lsnub"
  shows "\<exists>ret out' al'. alloc_lsn_scn base sz idub lsnub out al = Some (ret, out', al')
     \<and> ((ret = OB_SUCCESS \<and> alloc_ok base sz out' al al'
            \<and> cur_log_id al' \<le> idub \<and> end_lsn al' \<le> uint (lsn_val lsnub))
       \<or> (ret = OB_EAGAIN \<and> al' \<in> {al, update_base base al}
            \<and> (idub < cur_log_id al + 2
               \<or> uint (lsn_val lsnub) < end_lsn al + padding_len out' + log_len sz out')))"
  using assms by (rule alloc_lsn_scn_total)

text \<open>The instances below start from a fresh leader: position 0, log id 0, change number 1000.\<close>

definition ex_alloc :: LSNAllocator where
  "ex_alloc = snd (allocator_init 0 (SCN 1000) (LSN 0) allocator_reset)"

definition ex_out :: alloc_out where
  "ex_out = \<lparr>out_lsn = lsn_reset, out_log_id = OB_INVALID_LOG_ID, out_scn = scn_reset,
             is_new_group_log = False, need_gen_padding_entry = False, padding_len = 0\<rparr>"

lemma ex_alloc_eq:
  "ex_alloc = \<lparr>lsn_ts_meta = \<lparr>is_need_cut = True, log_id_delta = 0, scn_delta = 0, meta_lsn_val = 0\<rparr>,
               log_id_base = 0, scn_base = 1000, is_inited = True\<rparr>"
  by (simp add: ex_alloc_def allocator_init_def allocator_reset_def OB_INVALID_LOG_ID_def valid_iff_uint
      lsn_is_valid_def LOG_INVALID_LSN_VAL_def)

lemma ex_alloc_inv: "alloc_inv ex_alloc"
  by (simp add: ex_alloc_eq alloc_inv_def max_scn_int_def)

lemma ex_alloc_room: "uint (scn_val base) \<le> 2000 \<Longrightarrow> alloc_room base ex_alloc"
  by (simp add: ex_alloc_eq alloc_room_def end_lsn_def next_scn_int_def max_scn_int_def PALF_BLOCK_SIZE_eq)

lemma ex_args: "scn_is_valid (SCN 2000)" "lsn_is_valid (LSN 1000000)"
  by (simp_all add: valid_iff_uint lsn_is_valid_def LOG_INVALID_LSN_VAL_def)

lemma ex_alloc_call:
  "alloc_lsn_scn (SCN 2000) 100 10 (LSN 1000000) ex_out ex_alloc =
     Some (OB_SUCCESS,
       \<lparr>out_lsn = LSN 0, out_log_id = 1, out_scn = SCN 2000, is_new_group_log = True,
        need_gen_padding_entry = False, padding_len = 0\<rparr>,
       ex_alloc\<lparr>lsn_ts_meta := \<lparr>is_need_cut = False, log_id_delta = 1, scn_delta = 1000,
                                meta_lsn_val = 156\<rparr>\<rparr>)"
  unfolding ex_alloc_eq ex_out_def by code_simp

theorem alloc_lsn_scn_sound_witness:
  "\<exists>out' al'. alloc_lsn_scn (SCN 2000) 100 10 (LSN 1000000) ex_out ex_alloc = Some (OB_SUCCESS, out', al')
     \<and> alloc_ok (SCN 2000) 100 out' ex_alloc al' \<and> end_lsn al' = 156"
  using alloc_lsn_scn_sound[OF ex_alloc_inv ex_alloc_room _ _ ex_args(1) _ ex_args(2), of 100 10 ex_out]
    ex_alloc_call
  by (auto simp: GROUP_HEADER_SER_SIZE_def PALF_BLOCK_SIZE_eq end_lsn_def)


lemma ex_alloc_step:
  "\<exists>out' al'. alloc_call ex_alloc (Some (100, out')) al' \<and> end_lsn al' = 156"
  using call_alloc[OF _ _ ex_alloc_room ex_alloc_call]
  by (fastforce simp: GROUP_HEADER_SER_SIZE_def PALF_BLOCK_SIZE_eq end_lsn_def)


text \<open>C37: telling the allocator of a log that is not behind its own position makes that log the last
  one: the getters return exactly its end, its id and its change number, whichever of the two
  update paths is taken.\<close>

theorem last_log_info_read_back:
  assumes "alloc_inv al" and "lsn_is_valid lsn" and "scn_is_valid scn" and "log_id \<noteq> OB_INVALID_LOG_ID"
    and "cur_log_id al \<le> log_id" and "end_lsn al \<le> uint (lsn_val lsn)"
    and "max_scn_int al \<le> uint (scn_val scn)"
    and "inc_update_last_log_info lsn log_id scn al = (ret, al')"
  shows "ret = OB_SUCCESS \<and> alloc_inv al' \<and> get_curr_end_lsn al' l0 = (OB_SUCCESS, lsn)
         \<and> get_max_log_id al' = log_id \<and> get_max_scn al' = scn"
proof -
  from last_log_info_exact[OF assms]
  have e: "ret = OB_SUCCESS" "alloc_inv al'" "end_lsn al' = uint (lsn_val lsn)"
    "cur_log_id al' = log_id" "max_scn_int al' = uint (scn_val scn)" by simp_all
  have "cur_scn al' = scn_val scn"
    using e(2,5) by (simp add: alloc_inv_def uint_cur_scn word_uint_eq_iff)
  moreover have "meta_lsn_val (lsn_ts_meta al') = lsn_val lsn"
    using e(3) by (simp add: end_lsn_def word_uint_eq_iff)
  ultimately show ?thesis
    using e assms(3) by (auto simp: get_curr_end_lsn_def get_max_log_id_def get_max_scn_def alloc_inv_def
        convert_for_logservice_def valid_iff_le_max)
qed

theorem last_log_info_read_back_witness:
  "\<exists>al'. inc_update_last_log_info (LSN 4096) 7 (SCN 2000) ex_alloc = (OB_SUCCESS, al')
     \<and> get_max_scn al' = SCN 2000 \<and> get_max_log_id al' = 7"
proof -
  obtain ret al' where r: "inc_update_last_log_info (LSN 4096) 7 (SCN 2000) ex_alloc = (ret, al')"
    by (cases "inc_update_last_log_info (LSN 4096) 7 (SCN 2000) ex_alloc")
  have "lsn_is_valid (LSN 4096)" by (simp add: lsn_is_valid_def LOG_INVALID_LSN_VAL_def)
  from last_log_info_read_back[OF ex_alloc_inv this ex_args(1) _ _ _ _ r]
  show ?thesis using r
    by (simp add: OB_INVALID_LOG_ID_def ex_alloc_eq cur_log_id_def end_lsn_def max_scn_int_def)
qed

text \<open>C38: the branch for a last log that ends on a 2 MB boundary without its group being closed is
  meant to fail with \<^verbatim>\<open>OB_ERR_UNEXPECTED\<close>, but the code stored in \<^verbatim>\<open>ret\<close> is overwritten: the call
  succeeds and moves the end of the log back to the start of its block. The invariant
  excludes such a state.\<close>

theorem alloc_unexpected_boundary:
  assumes "is_inited al" and "\<not> is_need_cut (lsn_ts_meta al)"
    and "0 < end_lsn al mod PALF_BLOCK_SIZE" and "end_lsn al mod PALF_BLOCK_SIZE mod 2 ^ 21 = 0"
    and "alloc_room base al" and "\<not> need_update_base base al"
    and "0 < sz" and "scn_is_valid base" and "0 < idub" and "cur_log_id al \<le> idub"
    and "lsn_is_valid lsnub" and "end_lsn al \<le> uint (lsn_val lsnub)"
  shows "\<not> alloc_inv al
       \<and> (\<exists>out' al'. alloc_lsn_scn base sz idub lsnub out al = Some (OB_SUCCESS, out', al')
            \<and> end_lsn al' = end_lsn al - end_lsn al mod PALF_BLOCK_SIZE)"
proof -
  define w where "w = meta_lsn_val (lsn_ts_meta al)"
  have ew: "end_lsn al = uint w" by (simp add: end_lsn_def w_def)
  note r = assms(5)[unfolded alloc_room_def]
  have off: "lsn_2_offset (LSN w) block_size > 0"
      "lsn_2_offset (LSN w) block_size AND LOG_CUT_TRIGGER_MASK = 0"
    using assms(3,4) by (simp_all add: ew word_less_def word_uint_eq_iff uint_and_cut_mask uint_block_offset
        del: word_neq_0_conv)
  have blk: "uint (lsn_2_block (LSN w) block_size * block_size) = uint w - uint w mod PALF_BLOCK_SIZE"
    using next_lsn_int[of "lsn_2_block (LSN w) block_size" 0] block_split(3)[of "uint w"]
      uint_bounded(1)[of w] by (simp add: uint_block_offset minus_mod_eq_div_mult [symmetric])
  have p: "plan_block (plan_group False (lsn_2_offset (LSN w) block_size) a b) blk' o' b
           = (False, False, 0, blk', 0, False)" for a b blk' o'
    using off by (simp add: plan_group_def plan_block_def block_size_def PALF_BLOCK_SIZE_eq
        CLOG_FILE_TAIL_PADDING_TRIGGER_def)
  have le: "\<not> lsn_gt (LSN (lsn_2_block (LSN w) block_size * block_size)) lsnub"
    using assms(12) blk block_split(3)[of "uint w"] by (simp add: lsn_gt_uint ew)
  have "next_scn_int base al + 1 < 2 ^ 62" using r by simp
  note c = convert_tmp_next_scn[OF this, simplified]
  have "alloc_lsn_scn base sz idub lsnub out al = Some (alloc_step base sz idub lsnub out al)"
    using assms by (simp add: alloc_lsn_scn_def alloc_loop.simps[of False])
  moreover have "\<exists>out' al'. alloc_step base sz idub lsnub out al = (OB_SUCCESS, out', al')
                   \<and> end_lsn al' = uint w - uint w mod PALF_BLOCK_SIZE"
    using assms(2,10) blk le
    by (simp add: alloc_step_def Let_def p c flip: w_def) (simp add: end_lsn_def)
  ultimately show ?thesis using assms(2,4) by (auto simp: alloc_inv_def ew)
qed

definition ex_boundary :: LSNAllocator where
  "ex_boundary = ex_alloc\<lparr>lsn_ts_meta :=
     \<lparr>is_need_cut = False, log_id_delta = 1, scn_delta = 1, meta_lsn_val = 2 ^ 21\<rparr>\<rparr>"

theorem alloc_unexpected_boundary_witness:
  "\<exists>out' al'. alloc_lsn_scn (SCN 2000) 100 10 (LSN 10000000) ex_out ex_boundary = Some (OB_SUCCESS, out', al')
     \<and> end_lsn ex_boundary = 2 ^ 21 \<and> end_lsn al' = 0"
proof -
  have e: "end_lsn ex_boundary = 2 ^ 21" "max_scn_int ex_boundary = 1001" "cur_log_id ex_boundary = 1"
    "is_inited ex_boundary" "\<not> is_need_cut (lsn_ts_meta ex_boundary)"
    by (simp_all add: ex_boundary_def ex_alloc_eq end_lsn_def max_scn_int_def cur_log_id_def)
  have n: "next_scn_int (SCN 2000) ex_boundary = 2000" by (simp add: next_scn_int_def e(2))
  have nu: "\<not> need_update_base (SCN 2000) ex_boundary"
    by (simp add: need_update_base_int n) (simp add: ex_boundary_def ex_alloc_eq)
  have "alloc_room (SCN 2000) ex_boundary"
    by (simp add: alloc_room_def e(1) n PALF_BLOCK_SIZE_eq)
  from alloc_unexpected_boundary[OF e(4,5) _ _ this nu _ ex_args(1), of 100 10 "LSN 10000000" ex_out]
  show ?thesis
    by (simp add: e lsn_is_valid_def LOG_INVALID_LSN_VAL_def PALF_BLOCK_SIZE_eq)
qed

end
