(* ===== verification/Committer_Define.thy ===== *)
theory Committer_Define
  imports Prelude
begin

text \<open>
  The enumerations of \<^verbatim>\<open>storage/tx/ob_committer_define.h\<close>, the virtual functions of
  \<^verbatim>\<open>ObTxCycleTwoPhaseCommitter\<close> (\<^verbatim>\<open>storage/tx/ob_two_phase_committer.h\<close>) and the control
  structures that its handlers repeat.
\<close>

datatype ObTwoPhaseCommitLogType =
    OB_LOG_TX_INIT
  | OB_LOG_TX_COMMIT_INFO
  | OB_LOG_TX_PREPARE
  | OB_LOG_TX_PRE_COMMIT
  | OB_LOG_TX_COMMIT
  | OB_LOG_TX_ABORT
  | OB_LOG_TX_CLEAR
  | OB_LOG_TX_MAX

datatype ObTwoPhaseCommitMsgType =
    OB_MSG_TX_UNKNOWN
  | OB_MSG_TX_PREPARE_REQ
  | OB_MSG_TX_PREPARE_RESP
  | OB_MSG_TX_PRE_COMMIT_REQ
  | OB_MSG_TX_PRE_COMMIT_RESP
  | OB_MSG_TX_COMMIT_REQ
  | OB_MSG_TX_COMMIT_RESP
  | OB_MSG_TX_ABORT_REQ
  | OB_MSG_TX_ABORT_RESP
  | OB_MSG_TX_CLEAR_REQ
  | OB_MSG_TX_CLEAR_RESP
  | OB_MSG_TX_PREPARE_REDO_REQ
  | OB_MSG_TX_PREPARE_REDO_RESP
  | OB_MSG_TX_MAX

datatype Ob2PCRole = ROLE_UNKNOWN | ROOT | INTERNAL | LEAF

datatype ObTxState =
    STATE_UNKNOWN
  | INIT
  | REDO_COMPLETE
  | PREPARE
  | PRE_COMMIT
  | COMMIT
  | ABORT
  | CLEAR
  | STATE_MAX

text \<open>The values of the enumerators, which the relational operators of the code compare.\<close>

fun tx_state_val :: "ObTxState \<Rightarrow> nat" where
  "tx_state_val STATE_UNKNOWN = 0"
| "tx_state_val INIT = 10"
| "tx_state_val REDO_COMPLETE = 20"
| "tx_state_val PREPARE = 30"
| "tx_state_val PRE_COMMIT = 40"
| "tx_state_val COMMIT = 50"
| "tx_state_val ABORT = 60"
| "tx_state_val CLEAR = 70"
| "tx_state_val STATE_MAX = 100"

lemma tx_state_val_inject: "tx_state_val s = tx_state_val t \<Longrightarrow> s = t"
  by (cases s; cases t) simp_all

instantiation ObTxState :: linorder
begin

definition less_eq_ObTxState :: "ObTxState \<Rightarrow> ObTxState \<Rightarrow> bool" where
  "less_eq_ObTxState s t \<longleftrightarrow> tx_state_val s \<le> tx_state_val t"

definition less_ObTxState :: "ObTxState \<Rightarrow> ObTxState \<Rightarrow> bool" where
  "less_ObTxState s t \<longleftrightarrow> tx_state_val s < tx_state_val t"

instance
  by standard (auto simp: less_eq_ObTxState_def less_ObTxState_def intro: tx_state_val_inject)

end

lemmas tx_state_order = less_eq_ObTxState_def less_ObTxState_def

text \<open>The messages to the scheduler of an XA transaction (\<^verbatim>\<open>ob_tx_msg.h\<close>).\<close>

datatype sub2pc_resp = SUBPREPARE_RESP | SUBCOMMIT_RESP | SUBROLLBACK_RESP

definition OB_C2PC_UPSTREAM_ID :: int where "OB_C2PC_UPSTREAM_ID = 9223372036854775807 - 1"
definition OB_C2PC_SENDER_ID :: int where "OB_C2PC_SENDER_ID = 9223372036854775807 - 2"

text \<open>
  The members of the base class, and the table of its virtual functions. A class derived from
  it is an extension of the record together with a table for it. The getter of the own
  participant id may store it and so returns the state too; \<open>do_prepare\<close> and \<open>do_pre_commit\<close>
  return their out-parameter beside the code.
\<close>

record committer =
  collected :: "int set"
  self_id :: int

record 'c vtable =
  get_2pc_role :: "'c \<Rightarrow> Ob2PCRole"
  get_downstream_size :: "'c \<Rightarrow> int"
  get_self_id :: "'c \<Rightarrow> int \<times> 'c"
  is_2pc_logging :: "'c \<Rightarrow> bool"
  is_2pc_blocking :: "'c \<Rightarrow> bool"
  get_downstream_state :: "'c \<Rightarrow> ObTxState"
  set_downstream_state :: "ObTxState \<Rightarrow> 'c \<Rightarrow> ob_ret \<times> 'c"
  get_upstream_state :: "'c \<Rightarrow> ObTxState"
  set_upstream_state :: "ObTxState \<Rightarrow> 'c \<Rightarrow> ob_ret \<times> 'c"
  is_sub2pc :: "'c \<Rightarrow> bool"
  is_real_upstream :: "'c \<Rightarrow> bool"
  do_prepare :: "'c \<Rightarrow> ob_ret \<times> bool \<times> 'c"
  do_pre_commit :: "'c \<Rightarrow> ob_ret \<times> bool \<times> 'c"
  do_commit :: "'c \<Rightarrow> ob_ret \<times> 'c"
  do_abort :: "'c \<Rightarrow> ob_ret \<times> 'c"
  do_clear :: "'c \<Rightarrow> ob_ret \<times> 'c"
  on_prepare :: "'c \<Rightarrow> ob_ret \<times> 'c"
  on_commit :: "'c \<Rightarrow> ob_ret \<times> 'c"
  on_abort :: "'c \<Rightarrow> ob_ret \<times> 'c"
  on_clear :: "'c \<Rightarrow> ob_ret \<times> 'c"
  submit_log :: "ObTwoPhaseCommitLogType \<Rightarrow> 'c \<Rightarrow> ob_ret \<times> 'c"
  post_msg :: "ObTwoPhaseCommitMsgType \<Rightarrow> int \<Rightarrow> 'c \<Rightarrow> ob_ret \<times> 'c"
  apply_2pc_msg :: "ObTwoPhaseCommitMsgType \<Rightarrow> 'c \<Rightarrow> ob_ret \<times> 'c"
  merge_intermediate_participants :: "'c \<Rightarrow> ob_ret \<times> 'c"
  reply_to_scheduler_for_sub2pc :: "sub2pc_resp \<Rightarrow> 'c \<Rightarrow> ob_ret \<times> 'c"

text \<open>
  \<open>or_else r k\<close> is \<^verbatim>\<open>if (OB_FAIL(r)) { warn } else { k }\<close>; \<open>tmp_fail r k\<close> is
  \<^verbatim>\<open>if (OB_TMP_FAIL(r)) { warn } k\<close>, where the failure is only logged.
\<close>

definition or_else :: "ob_ret \<times> 's \<Rightarrow> ('s \<Rightarrow> ob_ret \<times> 's) \<Rightarrow> ob_ret \<times> 's" where
  "or_else r k = (case r of (ret, s) \<Rightarrow> if ret = OB_SUCCESS then k s else (ret, s))"

definition tmp_fail :: "ob_ret \<times> 's \<Rightarrow> ('s \<Rightarrow> ob_ret \<times> 's) \<Rightarrow> ob_ret \<times> 's" where
  "tmp_fail r k = k (snd r)"

definition ok :: "'s \<Rightarrow> ob_ret \<times> 's" where
  "ok s = (OB_SUCCESS, s)"

lemma or_else_simps [simp]:
  "or_else (OB_SUCCESS, s) k = k s"
  "ret \<noteq> OB_SUCCESS \<Longrightarrow> or_else (ret, s) k = (ret, s)"
  "tmp_fail (ret, s) k = k s"
  by (simp_all add: or_else_def tmp_fail_def)

named_theorems flow_simps \<open>the result and the object after a composed call\<close>

lemma flow [flow_simps]:
  "snd (or_else r k) = (if fst r = OB_SUCCESS then snd (k (snd r)) else snd r)"
  "fst (or_else r k) = (if fst r = OB_SUCCESS then fst (k (snd r)) else fst r)"
  "tmp_fail r k = k (snd r)"
  "ok c = (OB_SUCCESS, c)"
  by (simp_all add: or_else_def tmp_fail_def ok_def split: prod.splits)

subsection \<open>The contract of the virtual functions\<close>

text \<open>
  What the state machine relies on. \<open>same_view\<close>: a call does not touch anything the state
  machine reads. Most virtual functions only act on the outside world. Exceptions: a log that
  was submitted makes the object \<^verbatim>\<open>is_2pc_logging\<close>, and submitting an abort log also makes
  \<open>ABORT\<close> the upstream state; \<open>do_prepare\<close> may turn a doomed transaction to \<open>ABORT\<close>, and then
  fails; \<open>do_pre_commit\<close> and \<open>do_commit\<close> may start to wait for the timestamp service; applying a message may
  tell a participant its upstream and so its role; merging may add participants.
\<close>

definition same_states :: "'x committer_scheme vtable \<Rightarrow> 'x committer_scheme \<Rightarrow> 'x committer_scheme \<Rightarrow> bool" where
  "same_states V c c' \<longleftrightarrow> get_upstream_state V c' = get_upstream_state V c
     \<and> get_downstream_state V c' = get_downstream_state V c \<and> collected c' = collected c"

definition same_peers :: "'c vtable \<Rightarrow> 'c \<Rightarrow> 'c \<Rightarrow> bool" where
  "same_peers V c c' \<longleftrightarrow> get_2pc_role V c' = get_2pc_role V c
     \<and> get_downstream_size V c' = get_downstream_size V c \<and> is_sub2pc V c' = is_sub2pc V c"

definition same_view :: "'x committer_scheme vtable \<Rightarrow> 'x committer_scheme \<Rightarrow> 'x committer_scheme \<Rightarrow> bool" where
  "same_view V c c' \<longleftrightarrow> same_states V c c' \<and> same_peers V c c' \<and> is_2pc_logging V c' = is_2pc_logging V c"

locale committer_contract =
  fixes V :: "'x committer_scheme vtable"
  assumes downstream_cell:
      "set_downstream_state V s c = (OB_SUCCESS, snd (set_downstream_state V s c))"
      "get_downstream_state V (snd (set_downstream_state V s c)) = s"
      "get_upstream_state V (snd (set_downstream_state V s c)) = get_upstream_state V c"
      "collected (snd (set_downstream_state V s c)) = collected c"
      "same_peers V c (snd (set_downstream_state V s c))"
      "is_2pc_logging V (snd (set_downstream_state V s c)) = is_2pc_logging V c"
    and upstream_cell:
      "set_upstream_state V s c = (OB_SUCCESS, snd (set_upstream_state V s c))"
      "get_upstream_state V (snd (set_upstream_state V s c)) = s"
      "get_downstream_state V (snd (set_upstream_state V s c)) = get_downstream_state V c"
      "collected (snd (set_upstream_state V s c)) = collected c"
      "same_peers V c (snd (set_upstream_state V s c))"
      "is_2pc_logging V (snd (set_upstream_state V s c)) = is_2pc_logging V c"
    and collected_cell:
      "get_upstream_state V (c\<lparr>collected := X\<rparr>) = get_upstream_state V c"
      "get_downstream_state V (c\<lparr>collected := X\<rparr>) = get_downstream_state V c"
      "same_peers V c (c\<lparr>collected := X\<rparr>)"
      "is_2pc_logging V (c\<lparr>collected := X\<rparr>) = is_2pc_logging V c"
    and quiet_calls:
      "same_view V c (snd (get_self_id V c))"
      "same_view V c (snd (post_msg V m i c))"
      "same_view V c (snd (reply_to_scheduler_for_sub2pc V r c))"
      "same_view V c (snd (do_abort V c))"
      "same_view V c (snd (do_clear V c))"
      "same_view V c (snd (on_prepare V c))"
      "same_view V c (snd (on_commit V c))"
      "same_view V c (snd (on_abort V c))"
      "same_view V c (snd (on_clear V c))"
    and commit_call:
      "same_states V c (snd (do_commit V c))"
      "same_peers V c (snd (do_commit V c))"
    and pre_commit_call:
      "same_states V c (snd (snd (do_pre_commit V c)))"
      "same_peers V c (snd (snd (do_pre_commit V c)))"
    and prepare_call:
      "get_downstream_state V (snd (snd (do_prepare V c))) = get_downstream_state V c"
      "collected (snd (snd (do_prepare V c))) = collected c"
      "same_peers V c (snd (snd (do_prepare V c)))"
      "get_upstream_state V (snd (snd (do_prepare V c))) = get_upstream_state V c
       \<or> fst (do_prepare V c) \<noteq> OB_SUCCESS
         \<and> get_upstream_state V (snd (snd (do_prepare V c))) = ABORT"
    and log_call:
      "get_downstream_state V (snd (submit_log V l c)) = get_downstream_state V c"
      "collected (snd (submit_log V l c)) = collected c"
      "same_peers V c (snd (submit_log V l c))"
      "get_upstream_state V (snd (submit_log V l c)) = get_upstream_state V c
       \<or> l = OB_LOG_TX_ABORT \<and> get_upstream_state V (snd (submit_log V l c)) = ABORT"
    and msg_call:
      "same_states V c (snd (apply_2pc_msg V m c))"
      "get_downstream_size V (snd (apply_2pc_msg V m c)) = get_downstream_size V c"
      "get_2pc_role V c \<noteq> ROLE_UNKNOWN \<Longrightarrow> get_2pc_role V (snd (apply_2pc_msg V m c)) = get_2pc_role V c"
      "is_2pc_logging V (snd (apply_2pc_msg V m c)) = is_2pc_logging V c"
    and merge_call:
      "same_states V c (snd (merge_intermediate_participants V c))"
      "is_2pc_logging V (snd (merge_intermediate_participants V c)) = is_2pc_logging V c"
      "is_sub2pc V (snd (merge_intermediate_participants V c)) = is_sub2pc V c"

end
