(* ===== verification/Two_Phase_Committer.thy ===== *)
theory Two_Phase_Committer
  imports Committer_Define
begin

text \<open>
  The two phase commit state machine of a participant: \<^verbatim>\<open>ObTxCycleTwoPhaseCommitter\<close>, in
  \<^verbatim>\<open>ob_two_phase_upstream_committer.cpp\<close> (the part that faces the participants below),
  \<^verbatim>\<open>ob_two_phase_downstream_committer.cpp\<close> (the part that faces the participant above) and
  \<^verbatim>\<open>ob_two_phase_committer_xa.cpp\<close>. Every function takes the table \<open>V\<close> of the virtual
  functions and the object.
\<close>

subsection \<open>Helpers\<close>

definition is_root :: "'c vtable \<Rightarrow> 'c \<Rightarrow> bool" where
  "is_root V c \<longleftrightarrow> ROOT = get_2pc_role V c"

definition is_leaf :: "'c vtable \<Rightarrow> 'c \<Rightarrow> bool" where
  "is_leaf V c \<longleftrightarrow> LEAF = get_2pc_role V c"

definition is_internal :: "'c vtable \<Rightarrow> 'c \<Rightarrow> bool" where
  "is_internal V c \<longleftrightarrow> INTERNAL = get_2pc_role V c"

definition all_downstream_collected :: "'x committer_scheme vtable \<Rightarrow> 'x committer_scheme \<Rightarrow> bool" where
  "all_downstream_collected V c =
     (case get_2pc_role V c of
        ROOT \<Rightarrow> int (card (collected c)) = get_downstream_size V c - 1
      | INTERNAL \<Rightarrow> int (card (collected c)) = get_downstream_size V c
      | LEAF \<Rightarrow> True
      | ROLE_UNKNOWN \<Rightarrow> False)"

definition collect_downstream ::
    "'x committer_scheme vtable \<Rightarrow> int \<Rightarrow> 'x committer_scheme \<Rightarrow> ob_ret \<times> 'x committer_scheme" where
  "collect_downstream V participant c =
     (case get_2pc_role V c of
        LEAF \<Rightarrow> (OB_SUCCESS, c)
      | ROLE_UNKNOWN \<Rightarrow> (OB_ERR_UNEXPECTED, c)
      | _ \<Rightarrow>
          (case get_self_id V c of (me, c1) \<Rightarrow>
             if participant = me then (OB_SUCCESS, c1)
             else if participant < 0 then (OB_INVALID_ARGUMENT, c1)
             else (OB_SUCCESS, c1\<lparr>collected := insert participant (collected c1)\<rparr>)))"

definition collected_reset :: "'x committer_scheme \<Rightarrow> 'x committer_scheme" where
  "collected_reset c = c\<lparr>collected := {}\<rparr>"

text \<open>The loop runs over the participants known at its start; no \<^verbatim>\<open>post_msg\<close> changes their
  number. Its result is the code of the last post.\<close>

definition downstream_ids :: "'c vtable \<Rightarrow> 'c \<Rightarrow> int list" where
  "downstream_ids V c = map int [0..<nat (get_downstream_size V c)]"

definition post_downstream_msg :: "'c vtable \<Rightarrow> ObTwoPhaseCommitMsgType \<Rightarrow> 'c \<Rightarrow> ob_ret \<times> 'c" where
  "post_downstream_msg V msg_type c =
     foldl (\<lambda>(tmp_ret, c) i. case get_self_id V c of (me, c1) \<Rightarrow>
              if i \<noteq> me then post_msg V msg_type i c1 else (tmp_ret, c1))
       (OB_SUCCESS, c) (downstream_ids V c)"

definition decide_next_state :: "ObTxState \<Rightarrow> ObTxState" where
  "decide_next_state cur_state =
     (case cur_state of
        INIT \<Rightarrow> REDO_COMPLETE
      | REDO_COMPLETE \<Rightarrow> PREPARE
      | PREPARE \<Rightarrow> PRE_COMMIT
      | PRE_COMMIT \<Rightarrow> COMMIT
      | COMMIT \<Rightarrow> CLEAR
      | ABORT \<Rightarrow> CLEAR
      | _ \<Rightarrow> STATE_UNKNOWN)"

definition decide_downstream_msg_type ::
    "'c vtable \<Rightarrow> 'c \<Rightarrow> ob_ret \<times> bool \<times> ObTwoPhaseCommitMsgType" where
  "decide_downstream_msg_type V c =
     (case get_upstream_state V c of
        REDO_COMPLETE \<Rightarrow>
          if is_sub2pc V c then (OB_SUCCESS, True, OB_MSG_TX_PREPARE_REDO_REQ)
          else (OB_SUCCESS, False, OB_MSG_TX_UNKNOWN)
      | PREPARE \<Rightarrow> (OB_SUCCESS, True, OB_MSG_TX_PREPARE_REQ)
      | PRE_COMMIT \<Rightarrow> (OB_SUCCESS, True, OB_MSG_TX_PRE_COMMIT_REQ)
      | COMMIT \<Rightarrow> (OB_SUCCESS, True, OB_MSG_TX_COMMIT_REQ)
      | ABORT \<Rightarrow> (OB_SUCCESS, True, OB_MSG_TX_ABORT_REQ)
      | CLEAR \<Rightarrow> (OB_SUCCESS, True, OB_MSG_TX_CLEAR_REQ)
      | _ \<Rightarrow> (OB_TRANS_INVALID_STATE, True, OB_MSG_TX_UNKNOWN))"

definition decide_2pc_log_type :: "'c vtable \<Rightarrow> 'c \<Rightarrow> ob_ret \<times> bool \<times> ObTwoPhaseCommitLogType" where
  "decide_2pc_log_type V c =
     (let upstream_state = get_upstream_state V c; downstream_state = get_downstream_state V c in
      if is_2pc_logging V c then (OB_SUCCESS, False, OB_LOG_TX_INIT)
      else if upstream_state > downstream_state then
        (case upstream_state of
           INIT \<Rightarrow> (OB_SUCCESS, False, OB_LOG_TX_INIT)
         | REDO_COMPLETE \<Rightarrow> (OB_SUCCESS, True, OB_LOG_TX_COMMIT_INFO)
         | PREPARE \<Rightarrow> (OB_SUCCESS, True, OB_LOG_TX_PREPARE)
         | PRE_COMMIT \<Rightarrow> (OB_SUCCESS, False, OB_LOG_TX_INIT)
         | COMMIT \<Rightarrow>
             if PREPARE = downstream_state \<or> PRE_COMMIT = downstream_state
             then (OB_SUCCESS, True, OB_LOG_TX_COMMIT)
             else (OB_TRANS_INVALID_STATE, False, OB_LOG_TX_INIT)
         | ABORT \<Rightarrow>
             if COMMIT \<noteq> downstream_state then (OB_SUCCESS, True, OB_LOG_TX_ABORT)
             else (OB_TRANS_INVALID_STATE, False, OB_LOG_TX_INIT)
         | CLEAR \<Rightarrow>
             if COMMIT = downstream_state \<or> ABORT = downstream_state
             then (OB_SUCCESS, True, OB_LOG_TX_CLEAR)
             else (OB_TRANS_INVALID_STATE, False, OB_LOG_TX_INIT)
         | _ \<Rightarrow> (OB_TRANS_INVALID_STATE, False, OB_LOG_TX_INIT))
      else (OB_SUCCESS, False, OB_LOG_TX_INIT))"

definition submit_2pc_log :: "'c vtable \<Rightarrow> 'c \<Rightarrow> ob_ret \<times> 'c" where
  "submit_2pc_log V c =
     (case decide_2pc_log_type V c of (ret, need_submit, log_type) \<Rightarrow>
        if ret \<noteq> OB_SUCCESS then (ret, c)
        else if need_submit then tmp_fail (submit_log V log_type c) ok
        else ok c)"

subsection \<open>Driving the own state\<close>

text \<open>What is done in memory on entering a phase; the flag tells not to submit a log.\<close>

definition enter_phase :: "'c vtable \<Rightarrow> ObTxState \<Rightarrow> 'c \<Rightarrow> ob_ret \<times> bool \<times> 'c" where
  "enter_phase V next_phase c =
     (case next_phase of
        REDO_COMPLETE \<Rightarrow> (OB_SUCCESS, False, c)
      | PREPARE \<Rightarrow> do_prepare V c
      | PRE_COMMIT \<Rightarrow>
          (case do_pre_commit V c of (ret, need_wait, c1) \<Rightarrow>
             (if ret \<noteq> OB_SUCCESS then ret
              else if need_wait \<and> is_root V c1 then OB_EAGAIN
              else if need_wait \<and> \<not> is_root V c1 then OB_ERR_UNEXPECTED
              else OB_SUCCESS, False, c1))
      | COMMIT \<Rightarrow> (case do_commit V c of (ret, c1) \<Rightarrow> (ret, False, c1))
      | CLEAR \<Rightarrow> (case do_clear V c of (ret, c1) \<Rightarrow> (ret, False, c1))
      | ABORT \<Rightarrow> (case do_abort V c of (ret, c1) \<Rightarrow> (ret, False, c1))
      | _ \<Rightarrow> (OB_ERR_UNEXPECTED, False, c))"

definition submit_unless :: "'c vtable \<Rightarrow> bool \<Rightarrow> 'c \<Rightarrow> ob_ret \<times> 'c" where
  "submit_unless V no_need_submit_log c =
     (if \<not> no_need_submit_log \<and> \<not> is_2pc_logging V c then tmp_fail (submit_2pc_log V c) ok else ok c)"

definition drive_self_2pc_phase ::
    "'x committer_scheme vtable \<Rightarrow> ObTxState \<Rightarrow> 'x committer_scheme \<Rightarrow> ob_ret \<times> 'x committer_scheme" where
  "drive_self_2pc_phase V next_phase c =
     (if is_2pc_logging V c then (OB_EAGAIN, c)
      else if is_2pc_blocking V c then (OB_EAGAIN, c)
      else if next_phase = get_upstream_state V c then submit_unless V False c
      else (case enter_phase V next_phase c of (ret, no_need_submit_log, c1) \<Rightarrow>
        if ret \<noteq> OB_SUCCESS then (ret, c1)
        else or_else (merge_intermediate_participants V c1)
          (\<lambda>c2. tmp_fail (set_upstream_state V next_phase (collected_reset c2))
                 (submit_unless V no_need_submit_log))))"

definition two_phase_commit ::
    "'x committer_scheme vtable \<Rightarrow> 'x committer_scheme \<Rightarrow> ob_ret \<times> 'x committer_scheme" where
  "two_phase_commit V c =
     (if PREPARE \<le> get_upstream_state V c then ok c
      else if is_2pc_logging V c then ok c
      else or_else (drive_self_2pc_phase V PREPARE c)
             (\<lambda>c. tmp_fail (post_downstream_msg V OB_MSG_TX_PREPARE_REQ c) ok))"

definition two_phase_abort ::
    "'x committer_scheme vtable \<Rightarrow> 'x committer_scheme \<Rightarrow> ob_ret \<times> 'x committer_scheme" where
  "two_phase_abort V c =
     (if INIT \<noteq> get_downstream_state V c then (OB_STATE_NOT_MATCH, c)
      else if is_2pc_logging V c then (OB_EAGAIN, c)
      else or_else (drive_self_2pc_phase V ABORT c)
             (\<lambda>c. tmp_fail (post_downstream_msg V OB_MSG_TX_ABORT_REQ c) ok))"

subsection \<open>Retransmission\<close>

definition retransmit_downstream_msg ::
    "'x committer_scheme vtable \<Rightarrow> 'x committer_scheme \<Rightarrow> ob_ret \<times> 'x committer_scheme" where
  "retransmit_downstream_msg V c =
     (if (is_root V c \<or> is_internal V c) \<and> is_real_upstream V c then
        (case get_self_id V c of (this_part_id, c1) \<Rightarrow>
           case decide_downstream_msg_type V c1 of (ret, need_submit, msg_type) \<Rightarrow>
             if ret \<noteq> OB_SUCCESS then (ret, c1)
             else if need_submit then
               ok (foldl (\<lambda>c i. if i \<notin> collected c \<and> this_part_id \<noteq> i
                                then snd (post_msg V msg_type i c) else c)
                     c1 (downstream_ids V c1))
             else ok c1)
      else ok c)"

definition retransmit_downstream_msg_to ::
    "'x committer_scheme vtable \<Rightarrow> int \<Rightarrow> 'x committer_scheme \<Rightarrow> ob_ret \<times> 'x committer_scheme" where
  "retransmit_downstream_msg_to V participant c =
     (if is_leaf V c then ok c
      else case decide_downstream_msg_type V c of (ret, need_submit, msg_type) \<Rightarrow>
        if ret \<noteq> OB_SUCCESS then (ret, c)
        else if need_submit then tmp_fail (post_msg V msg_type participant c) ok
        else ok c)"

text \<open>The decision of \<^verbatim>\<open>retransmit_upstream_msg_\<close>: the code, whether to respond, and with what.\<close>

definition decide_upstream_msg ::
    "'x committer_scheme vtable \<Rightarrow> ObTxState \<Rightarrow> 'x committer_scheme
     \<Rightarrow> ob_ret \<times> bool \<times> ObTwoPhaseCommitMsgType" where
  "decide_upstream_msg V state c =
     (if get_downstream_state V c > get_upstream_state V c then
        (OB_INVALID_ARGUMENT, False, OB_MSG_TX_UNKNOWN)
      else
        (case (case get_2pc_role V c of
                 ROOT \<Rightarrow> (OB_SUCCESS, \<not> is_real_upstream V c)
               | INTERNAL \<Rightarrow>
                   (OB_SUCCESS,
                    ((all_downstream_collected V c \<or> \<not> is_real_upstream V c)
                     \<and> get_downstream_state V c = state)
                    \<or> get_downstream_state V c > state)
               | LEAF \<Rightarrow> (OB_SUCCESS, get_downstream_state V c \<ge> state)
               | ROLE_UNKNOWN \<Rightarrow> (OB_TRANS_INVALID_STATE, False)) of
         (ret, need_respond) \<Rightarrow>
           if need_respond then
             (case state of
                INIT \<Rightarrow> (ret, False, OB_MSG_TX_UNKNOWN)
              | REDO_COMPLETE \<Rightarrow>
                  if is_sub2pc V c then (ret, True, OB_MSG_TX_PREPARE_REDO_RESP)
                  else (ret, False, OB_MSG_TX_UNKNOWN)
              | PREPARE \<Rightarrow> (ret, True, OB_MSG_TX_PREPARE_RESP)
              | PRE_COMMIT \<Rightarrow> (ret, True, OB_MSG_TX_PRE_COMMIT_RESP)
              | COMMIT \<Rightarrow> (ret, True, OB_MSG_TX_COMMIT_RESP)
              | ABORT \<Rightarrow> (ret, True, OB_MSG_TX_ABORT_RESP)
              | CLEAR \<Rightarrow> (OB_NOT_SUPPORTED, True, OB_MSG_TX_UNKNOWN)
              | _ \<Rightarrow> (OB_TRANS_INVALID_STATE, True, OB_MSG_TX_UNKNOWN))
           else (ret, False, OB_MSG_TX_UNKNOWN)))"

definition retransmit_upstream_msg ::
    "'x committer_scheme vtable \<Rightarrow> ObTxState \<Rightarrow> 'x committer_scheme \<Rightarrow> ob_ret \<times> 'x committer_scheme" where
  "retransmit_upstream_msg V state c =
     (case decide_upstream_msg V state c of (ret, need_respond, msg_type) \<Rightarrow>
        if ret = OB_SUCCESS \<and> need_respond
        then tmp_fail (post_msg V msg_type OB_C2PC_SENDER_ID c) ok
        else (ret, c))"

subsection \<open>Pre-commit\<close>

definition on_pre_commit ::
    "'x committer_scheme vtable \<Rightarrow> 'x committer_scheme \<Rightarrow> ob_ret \<times> 'x committer_scheme" where
  "on_pre_commit V c =
     or_else (set_downstream_state V PRE_COMMIT c) (\<lambda>c.
       case get_2pc_role V c of
         ROOT \<Rightarrow>
           if get_downstream_size V c = 1
           then tmp_fail (drive_self_2pc_phase V COMMIT c) ok
           else tmp_fail (post_downstream_msg V OB_MSG_TX_PRE_COMMIT_REQ c) ok
       | INTERNAL \<Rightarrow> tmp_fail (post_downstream_msg V OB_MSG_TX_PRE_COMMIT_REQ c) ok
       | LEAF \<Rightarrow> tmp_fail (post_msg V OB_MSG_TX_PRE_COMMIT_RESP OB_C2PC_UPSTREAM_ID c) ok
       | ROLE_UNKNOWN \<Rightarrow> (OB_TRANS_INVALID_STATE, c))"

text \<open>The code of a failed drive is kept in \<^verbatim>\<open>tmp_ret\<close>, so the caller is told of a success.\<close>

definition try_enter_pre_commit_state ::
    "'x committer_scheme vtable \<Rightarrow> 'x committer_scheme \<Rightarrow> ob_ret \<times> 'x committer_scheme" where
  "try_enter_pre_commit_state V c =
     (if is_2pc_logging V c then (OB_EAGAIN, c)
      else (case drive_self_2pc_phase V PRE_COMMIT c of (tmp_ret, c1) \<Rightarrow>
        if tmp_ret \<noteq> OB_SUCCESS then (OB_SUCCESS, c1) else on_pre_commit V c1))"

subsection \<open>Requests from upstream\<close>

definition handle_2pc_prepare_request_impl ::
    "'x committer_scheme vtable \<Rightarrow> 'x committer_scheme \<Rightarrow> ob_ret \<times> 'x committer_scheme" where
  "handle_2pc_prepare_request_impl V c =
     (if is_2pc_logging V c then ok c
      else or_else (apply_2pc_msg V OB_MSG_TX_PREPARE_REQ c)
        (\<lambda>c. or_else (drive_self_2pc_phase V PREPARE c)
          (\<lambda>c. case get_2pc_role V c of
             ROOT \<Rightarrow> (OB_ERR_UNEXPECTED, c)
           | INTERNAL \<Rightarrow> tmp_fail (post_downstream_msg V OB_MSG_TX_PREPARE_REQ c) ok
           | LEAF \<Rightarrow> ok c
           | ROLE_UNKNOWN \<Rightarrow> (OB_ERR_UNEXPECTED, c))))"

definition handle_2pc_prepare_request ::
    "'x committer_scheme vtable \<Rightarrow> 'x committer_scheme \<Rightarrow> ob_ret \<times> 'x committer_scheme" where
  "handle_2pc_prepare_request V c =
     (case get_downstream_state V c of
        INIT \<Rightarrow> handle_2pc_prepare_request_impl V c
      | REDO_COMPLETE \<Rightarrow> handle_2pc_prepare_request_impl V c
      | PREPARE \<Rightarrow>
          tmp_fail (retransmit_downstream_msg V c)
            (\<lambda>c. tmp_fail (retransmit_upstream_msg V PREPARE c) ok)
      | ABORT \<Rightarrow>
          or_else (apply_2pc_msg V OB_MSG_TX_PREPARE_REQ c)
            (\<lambda>c. tmp_fail (retransmit_downstream_msg V c)
              (\<lambda>c. tmp_fail (retransmit_upstream_msg V ABORT c) ok))
      | PRE_COMMIT \<Rightarrow>
          tmp_fail (retransmit_downstream_msg V c)
            (\<lambda>c. tmp_fail (retransmit_upstream_msg V PREPARE c) ok)
      | COMMIT \<Rightarrow>
          tmp_fail (retransmit_downstream_msg V c)
            (\<lambda>c. tmp_fail (retransmit_upstream_msg V PREPARE c) ok)
      | CLEAR \<Rightarrow> ok c
      | _ \<Rightarrow> (OB_TRANS_INVALID_STATE, c))"

definition handle_2pc_pre_commit_request_impl ::
    "'x committer_scheme vtable \<Rightarrow> 'x committer_scheme \<Rightarrow> ob_ret \<times> 'x committer_scheme" where
  "handle_2pc_pre_commit_request_impl V c =
     or_else (apply_2pc_msg V OB_MSG_TX_PRE_COMMIT_REQ c) (try_enter_pre_commit_state V)"

definition handle_2pc_pre_commit_request ::
    "'x committer_scheme vtable \<Rightarrow> 'x committer_scheme \<Rightarrow> ob_ret \<times> 'x committer_scheme" where
  "handle_2pc_pre_commit_request V c =
     (case get_downstream_state V c of
        INIT \<Rightarrow> (OB_TRANS_PROTOCOL_ERROR, c)
      | REDO_COMPLETE \<Rightarrow> (OB_TRANS_PROTOCOL_ERROR, c)
      | PREPARE \<Rightarrow> handle_2pc_pre_commit_request_impl V c
      | PRE_COMMIT \<Rightarrow>
          tmp_fail (retransmit_downstream_msg V c) (retransmit_upstream_msg V PRE_COMMIT)
      | COMMIT \<Rightarrow>
          tmp_fail (retransmit_downstream_msg V c) (retransmit_upstream_msg V PRE_COMMIT)
      | ABORT \<Rightarrow> (OB_TRANS_PROTOCOL_ERROR, c)
      | CLEAR \<Rightarrow> ok c
      | _ \<Rightarrow> (OB_TRANS_INVALID_STATE, c))"

definition handle_2pc_commit_request_impl ::
    "'x committer_scheme vtable \<Rightarrow> 'x committer_scheme \<Rightarrow> ob_ret \<times> 'x committer_scheme" where
  "handle_2pc_commit_request_impl V c =
     (if is_2pc_logging V c then ok c
      else or_else (apply_2pc_msg V OB_MSG_TX_COMMIT_REQ c)
        (\<lambda>c. or_else (drive_self_2pc_phase V COMMIT c)
          (\<lambda>c. case get_2pc_role V c of
             ROOT \<Rightarrow> (OB_ERR_UNEXPECTED, c)
           | INTERNAL \<Rightarrow> tmp_fail (post_downstream_msg V OB_MSG_TX_COMMIT_REQ c) ok
           | LEAF \<Rightarrow> ok c
           | ROLE_UNKNOWN \<Rightarrow> (OB_ERR_UNEXPECTED, c))))"

text \<open>The case of an aborted participant falls through to the next one, which changes nothing.\<close>

definition handle_2pc_commit_request ::
    "'x committer_scheme vtable \<Rightarrow> 'x committer_scheme \<Rightarrow> ob_ret \<times> 'x committer_scheme" where
  "handle_2pc_commit_request V c =
     (case get_downstream_state V c of
        INIT \<Rightarrow> (OB_TRANS_PROTOCOL_ERROR, c)
      | REDO_COMPLETE \<Rightarrow> (OB_TRANS_PROTOCOL_ERROR, c)
      | PREPARE \<Rightarrow> handle_2pc_commit_request_impl V c
      | PRE_COMMIT \<Rightarrow> handle_2pc_commit_request_impl V c
      | COMMIT \<Rightarrow> tmp_fail (retransmit_downstream_msg V c) (retransmit_upstream_msg V COMMIT)
      | ABORT \<Rightarrow> (OB_TRANS_PROTOCOL_ERROR, c)
      | CLEAR \<Rightarrow> ok c
      | _ \<Rightarrow> (OB_TRANS_INVALID_STATE, c))"

definition handle_2pc_abort_request_impl ::
    "'x committer_scheme vtable \<Rightarrow> 'x committer_scheme \<Rightarrow> ob_ret \<times> 'x committer_scheme" where
  "handle_2pc_abort_request_impl V c =
     (if is_2pc_logging V c then ok c
      else or_else (apply_2pc_msg V OB_MSG_TX_ABORT_REQ c)
        (\<lambda>c. or_else (drive_self_2pc_phase V ABORT c)
          (\<lambda>c. case get_2pc_role V c of
             ROOT \<Rightarrow> (OB_ERR_UNEXPECTED, c)
           | INTERNAL \<Rightarrow> post_downstream_msg V OB_MSG_TX_ABORT_REQ c
           | LEAF \<Rightarrow> ok c
           | ROLE_UNKNOWN \<Rightarrow> (OB_ERR_UNEXPECTED, c))))"

definition handle_2pc_abort_request ::
    "'x committer_scheme vtable \<Rightarrow> 'x committer_scheme \<Rightarrow> ob_ret \<times> 'x committer_scheme" where
  "handle_2pc_abort_request V c =
     (case get_downstream_state V c of
        INIT \<Rightarrow> handle_2pc_abort_request_impl V c
      | REDO_COMPLETE \<Rightarrow> handle_2pc_abort_request_impl V c
      | PREPARE \<Rightarrow> handle_2pc_abort_request_impl V c
      | PRE_COMMIT \<Rightarrow> (OB_TRANS_PROTOCOL_ERROR, c)
      | COMMIT \<Rightarrow> ok c
      | ABORT \<Rightarrow>
          or_else (apply_2pc_msg V OB_MSG_TX_ABORT_REQ c)
            (\<lambda>c. tmp_fail (retransmit_downstream_msg V c) (retransmit_upstream_msg V ABORT))
      | CLEAR \<Rightarrow> ok c
      | _ \<Rightarrow> (OB_TRANS_INVALID_STATE, c))"

definition handle_2pc_clear_request_impl ::
    "'x committer_scheme vtable \<Rightarrow> 'x committer_scheme \<Rightarrow> ob_ret \<times> 'x committer_scheme" where
  "handle_2pc_clear_request_impl V c =
     (if is_2pc_logging V c then ok c
      else or_else (apply_2pc_msg V OB_MSG_TX_CLEAR_REQ c)
        (\<lambda>c. or_else (drive_self_2pc_phase V CLEAR c)
          (\<lambda>c. case get_2pc_role V c of
             ROOT \<Rightarrow> (OB_ERR_UNEXPECTED, c)
           | INTERNAL \<Rightarrow> post_downstream_msg V OB_MSG_TX_CLEAR_REQ c
           | LEAF \<Rightarrow> ok c
           | ROLE_UNKNOWN \<Rightarrow> (OB_ERR_UNEXPECTED, c))))"

definition handle_2pc_clear_request ::
    "'x committer_scheme vtable \<Rightarrow> 'x committer_scheme \<Rightarrow> ob_ret \<times> 'x committer_scheme" where
  "handle_2pc_clear_request V c =
     (case get_downstream_state V c of
        INIT \<Rightarrow> ok c
      | PREPARE \<Rightarrow> (OB_TRANS_PROTOCOL_ERROR, c)
      | PRE_COMMIT \<Rightarrow> (OB_TRANS_PROTOCOL_ERROR, c)
      | COMMIT \<Rightarrow> handle_2pc_clear_request_impl V c
      | ABORT \<Rightarrow> handle_2pc_clear_request_impl V c
      | CLEAR \<Rightarrow> ok c
      | _ \<Rightarrow> (OB_TRANS_INVALID_STATE, c))"

definition handle_2pc_prepare_redo_request_impl ::
    "'x committer_scheme vtable \<Rightarrow> 'x committer_scheme \<Rightarrow> ob_ret \<times> 'x committer_scheme" where
  "handle_2pc_prepare_redo_request_impl V c =
     (if \<not> is_sub2pc V c then (OB_ERR_UNEXPECTED, c)
      else if is_2pc_logging V c then ok c
      else or_else (apply_2pc_msg V OB_MSG_TX_PREPARE_REDO_REQ c)
        (\<lambda>c. or_else (drive_self_2pc_phase V REDO_COMPLETE c)
          (\<lambda>c. if is_internal V c
               then tmp_fail (post_downstream_msg V OB_MSG_TX_PREPARE_REDO_REQ c) ok
               else ok c)))"

definition handle_2pc_prepare_redo_request ::
    "'x committer_scheme vtable \<Rightarrow> 'x committer_scheme \<Rightarrow> ob_ret \<times> 'x committer_scheme" where
  "handle_2pc_prepare_redo_request V c =
     (if \<not> is_sub2pc V c then (OB_ERR_UNEXPECTED, c)
      else case get_downstream_state V c of
        INIT \<Rightarrow> handle_2pc_prepare_redo_request_impl V c
      | REDO_COMPLETE \<Rightarrow>
          (let c1 = (if REDO_COMPLETE = get_upstream_state V c \<and> all_downstream_collected V c then c
                     else snd (retransmit_downstream_msg V c))
           in if PREPARE = get_upstream_state V c1 then ok c1
              else tmp_fail (retransmit_upstream_msg V REDO_COMPLETE c1) ok)
      | PREPARE \<Rightarrow>
          tmp_fail (retransmit_downstream_msg V c)
            (\<lambda>c. tmp_fail (retransmit_upstream_msg V PREPARE c) ok)
      | ABORT \<Rightarrow>
          tmp_fail (retransmit_downstream_msg V c)
            (\<lambda>c. tmp_fail (retransmit_upstream_msg V ABORT c) ok)
      | PRE_COMMIT \<Rightarrow> ok c
      | COMMIT \<Rightarrow> ok c
      | CLEAR \<Rightarrow> ok c
      | _ \<Rightarrow> (OB_TRANS_INVALID_STATE, c))"

definition handle_2pc_req ::
    "'x committer_scheme vtable \<Rightarrow> ObTwoPhaseCommitMsgType \<Rightarrow> 'x committer_scheme \<Rightarrow> ob_ret \<times> 'x committer_scheme" where
  "handle_2pc_req V msg_type c =
     (case msg_type of
        OB_MSG_TX_PREPARE_REDO_REQ \<Rightarrow> handle_2pc_prepare_redo_request V c
      | OB_MSG_TX_PREPARE_REQ \<Rightarrow> handle_2pc_prepare_request V c
      | OB_MSG_TX_PRE_COMMIT_REQ \<Rightarrow> handle_2pc_pre_commit_request V c
      | OB_MSG_TX_COMMIT_REQ \<Rightarrow> handle_2pc_commit_request V c
      | OB_MSG_TX_ABORT_REQ \<Rightarrow> handle_2pc_abort_request V c
      | OB_MSG_TX_CLEAR_REQ \<Rightarrow> handle_2pc_clear_request V c
      | _ \<Rightarrow> (OB_TRANS_INVALID_STATE, c))"

subsection \<open>Responses from downstream\<close>

definition handle_2pc_prepare_response_impl ::
    "'x committer_scheme vtable \<Rightarrow> int \<Rightarrow> 'x committer_scheme \<Rightarrow> ob_ret \<times> 'x committer_scheme" where
  "handle_2pc_prepare_response_impl V participant c =
     (let downstream_state = get_downstream_state V c in
      or_else (apply_2pc_msg V OB_MSG_TX_PREPARE_RESP c)
        (\<lambda>c. or_else (collect_downstream V participant c)
          (\<lambda>c. if is_2pc_logging V c then ok c
               else if PREPARE = downstream_state \<and> all_downstream_collected V c then
                 (case get_2pc_role V c of
                    ROOT \<Rightarrow> try_enter_pre_commit_state V c
                  | INTERNAL \<Rightarrow> post_msg V OB_MSG_TX_PREPARE_RESP OB_C2PC_UPSTREAM_ID c
                  | LEAF \<Rightarrow> (OB_ERR_UNEXPECTED, c)
                  | ROLE_UNKNOWN \<Rightarrow> (OB_ERR_UNEXPECTED, c))
               else ok c)))"

definition handle_2pc_prepare_response ::
    "'x committer_scheme vtable \<Rightarrow> int \<Rightarrow> 'x committer_scheme \<Rightarrow> ob_ret \<times> 'x committer_scheme" where
  "handle_2pc_prepare_response V participant c =
     (case get_upstream_state V c of
        INIT \<Rightarrow> ok c
      | REDO_COMPLETE \<Rightarrow> if is_sub2pc V c then drive_self_2pc_phase V PREPARE c else ok c
      | PREPARE \<Rightarrow> handle_2pc_prepare_response_impl V participant c
      | PRE_COMMIT \<Rightarrow> tmp_fail (retransmit_downstream_msg_to V participant c) ok
      | COMMIT \<Rightarrow> tmp_fail (retransmit_downstream_msg_to V participant c) ok
      | ABORT \<Rightarrow> tmp_fail (retransmit_downstream_msg_to V participant c) ok
      | CLEAR \<Rightarrow> ok c
      | _ \<Rightarrow> (OB_TRANS_INVALID_STATE, c))"

text \<open>The codes of the two calls of \<^verbatim>\<open>apply_2pc_msg_\<close> are tested but not stored.\<close>

definition handle_2pc_ack_response_impl ::
    "'x committer_scheme vtable \<Rightarrow> int \<Rightarrow> 'x committer_scheme \<Rightarrow> ob_ret \<times> 'x committer_scheme" where
  "handle_2pc_ack_response_impl V participant c =
     (let downstream_state = get_downstream_state V c;
          r1 = (if get_upstream_state V c = COMMIT then apply_2pc_msg V OB_MSG_TX_COMMIT_RESP c else ok c)
      in if fst r1 \<noteq> OB_SUCCESS then ok (snd r1)
      else let r2 = (if get_upstream_state V (snd r1) = ABORT
                     then apply_2pc_msg V OB_MSG_TX_ABORT_RESP (snd r1) else ok (snd r1))
      in if fst r2 \<noteq> OB_SUCCESS then ok (snd r2)
      else or_else (collect_downstream V participant (snd r2))
        (\<lambda>c. if is_2pc_logging V c then ok c
             else if (COMMIT = downstream_state \<or> ABORT = downstream_state)
                     \<and> all_downstream_collected V c then
               (case get_2pc_role V c of
                  ROOT \<Rightarrow> or_else (drive_self_2pc_phase V CLEAR c)
                            (\<lambda>c. tmp_fail (post_downstream_msg V OB_MSG_TX_CLEAR_REQ c) ok)
                | INTERNAL \<Rightarrow>
                    tmp_fail (post_msg V (case get_upstream_state V c of
                                            PRE_COMMIT \<Rightarrow> OB_MSG_TX_PRE_COMMIT_RESP
                                          | COMMIT \<Rightarrow> OB_MSG_TX_COMMIT_RESP
                                          | _ \<Rightarrow> OB_MSG_TX_ABORT_RESP) OB_C2PC_UPSTREAM_ID c) ok
                | LEAF \<Rightarrow> (OB_ERR_UNEXPECTED, c)
                | ROLE_UNKNOWN \<Rightarrow> (OB_ERR_UNEXPECTED, c))
             else ok c))"

definition handle_2pc_commit_response ::
    "'x committer_scheme vtable \<Rightarrow> int \<Rightarrow> 'x committer_scheme \<Rightarrow> ob_ret \<times> 'x committer_scheme" where
  "handle_2pc_commit_response V participant c =
     (case get_upstream_state V c of
        INIT \<Rightarrow> (OB_TRANS_PROTOCOL_ERROR, c)
      | REDO_COMPLETE \<Rightarrow> (OB_TRANS_PROTOCOL_ERROR, c)
      | PREPARE \<Rightarrow> ok c
      | PRE_COMMIT \<Rightarrow> ok c
      | COMMIT \<Rightarrow> handle_2pc_ack_response_impl V participant c
      | ABORT \<Rightarrow> (OB_TRANS_PROTOCOL_ERROR, c)
      | CLEAR \<Rightarrow> retransmit_downstream_msg_to V participant c
      | _ \<Rightarrow> (OB_TRANS_INVALID_STATE, c))"

definition handle_2pc_abort_response_impl ::
    "'x committer_scheme vtable \<Rightarrow> int \<Rightarrow> 'x committer_scheme \<Rightarrow> ob_ret \<times> 'x committer_scheme" where
  "handle_2pc_abort_response_impl V participant c =
     (let downstream_state = get_downstream_state V c in
      if INIT \<noteq> downstream_state \<and> REDO_COMPLETE \<noteq> downstream_state \<and> PREPARE \<noteq> downstream_state
      then (OB_TRANS_INVALID_STATE, c)
      else if is_2pc_logging V c then ok c
      else if INIT = get_upstream_state V c \<or> REDO_COMPLETE = get_upstream_state V c
              \<or> PREPARE = get_upstream_state V c then
        (let abort_all = or_else (apply_2pc_msg V OB_MSG_TX_ABORT_RESP c)
               (\<lambda>c. or_else (drive_self_2pc_phase V ABORT c)
                 (\<lambda>c. or_else (collect_downstream V participant c)
                   (\<lambda>c. tmp_fail (post_downstream_msg V OB_MSG_TX_ABORT_REQ c) ok)))
         in case get_2pc_role V c of
              ROOT \<Rightarrow> abort_all
            | INTERNAL \<Rightarrow> abort_all
            | LEAF \<Rightarrow> (OB_ERR_UNEXPECTED, c)
            | ROLE_UNKNOWN \<Rightarrow> (OB_ERR_UNEXPECTED, c))
      else (OB_TRANS_INVALID_STATE, c))"

definition handle_2pc_abort_response ::
    "'x committer_scheme vtable \<Rightarrow> int \<Rightarrow> 'x committer_scheme \<Rightarrow> ob_ret \<times> 'x committer_scheme" where
  "handle_2pc_abort_response V participant c =
     (case get_upstream_state V c of
        INIT \<Rightarrow> handle_2pc_abort_response_impl V participant c
      | REDO_COMPLETE \<Rightarrow> handle_2pc_abort_response_impl V participant c
      | PREPARE \<Rightarrow> handle_2pc_abort_response_impl V participant c
      | COMMIT \<Rightarrow> handle_2pc_ack_response_impl V participant c
      | ABORT \<Rightarrow> handle_2pc_ack_response_impl V participant c
      | CLEAR \<Rightarrow> retransmit_downstream_msg_to V participant c
      | _ \<Rightarrow> (OB_TRANS_INVALID_STATE, c))"

definition handle_2pc_pre_commit_response_impl ::
    "'x committer_scheme vtable \<Rightarrow> int \<Rightarrow> 'x committer_scheme \<Rightarrow> ob_ret \<times> 'x committer_scheme" where
  "handle_2pc_pre_commit_response_impl V participant c =
     or_else (apply_2pc_msg V OB_MSG_TX_PRE_COMMIT_RESP c)
       (\<lambda>c. or_else (collect_downstream V participant c)
         (\<lambda>c. if all_downstream_collected V c then
                (case get_2pc_role V c of
                   ROOT \<Rightarrow> or_else (drive_self_2pc_phase V COMMIT c)
                             (\<lambda>c. tmp_fail (post_downstream_msg V OB_MSG_TX_COMMIT_REQ c) ok)
                 | INTERNAL \<Rightarrow> post_msg V OB_MSG_TX_PRE_COMMIT_RESP OB_C2PC_UPSTREAM_ID c
                 | LEAF \<Rightarrow> (OB_ERR_UNEXPECTED, c)
                 | ROLE_UNKNOWN \<Rightarrow> (OB_ERR_UNEXPECTED, c))
              else ok c))"

definition handle_2pc_pre_commit_response ::
    "'x committer_scheme vtable \<Rightarrow> int \<Rightarrow> 'x committer_scheme \<Rightarrow> ob_ret \<times> 'x committer_scheme" where
  "handle_2pc_pre_commit_response V participant c =
     (case get_upstream_state V c of
        INIT \<Rightarrow> (OB_TRANS_PROTOCOL_ERROR, c)
      | REDO_COMPLETE \<Rightarrow> (OB_TRANS_PROTOCOL_ERROR, c)
      | PREPARE \<Rightarrow> ok c
      | PRE_COMMIT \<Rightarrow> handle_2pc_pre_commit_response_impl V participant c
      | COMMIT \<Rightarrow> retransmit_downstream_msg_to V participant c
      | ABORT \<Rightarrow> (OB_TRANS_PROTOCOL_ERROR, c)
      | CLEAR \<Rightarrow> retransmit_downstream_msg_to V participant c
      | _ \<Rightarrow> (OB_TRANS_INVALID_STATE, c))"

definition handle_2pc_clear_response ::
    "'x committer_scheme vtable \<Rightarrow> int \<Rightarrow> 'x committer_scheme \<Rightarrow> ob_ret \<times> 'x committer_scheme" where
  "handle_2pc_clear_response V participant c =
     ok c"

definition handle_2pc_prepare_redo_response_impl ::
    "'x committer_scheme vtable \<Rightarrow> int \<Rightarrow> 'x committer_scheme \<Rightarrow> ob_ret \<times> 'x committer_scheme" where
  "handle_2pc_prepare_redo_response_impl V participant c =
     (if \<not> is_sub2pc V c then (OB_ERR_UNEXPECTED, c)
      else let state = get_downstream_state V c in
        or_else (collect_downstream V participant c)
          (\<lambda>c. if is_2pc_logging V c then ok c
               else if REDO_COMPLETE = state \<and> all_downstream_collected V c then
                 (if is_root V c then tmp_fail (reply_to_scheduler_for_sub2pc V SUBPREPARE_RESP c) ok
                  else tmp_fail (post_msg V OB_MSG_TX_PREPARE_REDO_RESP OB_C2PC_UPSTREAM_ID c) ok)
               else ok c))"

definition handle_2pc_prepare_redo_response ::
    "'x committer_scheme vtable \<Rightarrow> int \<Rightarrow> 'x committer_scheme \<Rightarrow> ob_ret \<times> 'x committer_scheme" where
  "handle_2pc_prepare_redo_response V participant c =
     (if \<not> is_sub2pc V c then (OB_ERR_UNEXPECTED, c)
      else case get_upstream_state V c of
        INIT \<Rightarrow>
          tmp_fail (set_upstream_state V REDO_COMPLETE c)
            (\<lambda>c. handle_2pc_prepare_redo_response_impl V participant (collected_reset c))
      | REDO_COMPLETE \<Rightarrow> handle_2pc_prepare_redo_response_impl V participant c
      | PREPARE \<Rightarrow> retransmit_downstream_msg_to V participant c
      | PRE_COMMIT \<Rightarrow> retransmit_downstream_msg_to V participant c
      | COMMIT \<Rightarrow> retransmit_downstream_msg_to V participant c
      | ABORT \<Rightarrow> retransmit_downstream_msg_to V participant c
      | CLEAR \<Rightarrow> ok c
      | _ \<Rightarrow> (OB_TRANS_INVALID_STATE, c))"

definition handle_2pc_resp ::
    "'x committer_scheme vtable \<Rightarrow> ObTwoPhaseCommitMsgType \<Rightarrow> int \<Rightarrow> 'x committer_scheme
     \<Rightarrow> ob_ret \<times> 'x committer_scheme" where
  "handle_2pc_resp V msg_type participant c =
     (case msg_type of
        OB_MSG_TX_PREPARE_REDO_RESP \<Rightarrow> handle_2pc_prepare_redo_response V participant c
      | OB_MSG_TX_PREPARE_RESP \<Rightarrow> handle_2pc_prepare_response V participant c
      | OB_MSG_TX_PRE_COMMIT_RESP \<Rightarrow> handle_2pc_pre_commit_response V participant c
      | OB_MSG_TX_COMMIT_RESP \<Rightarrow> handle_2pc_commit_response V participant c
      | OB_MSG_TX_ABORT_RESP \<Rightarrow> handle_2pc_abort_response V participant c
      | OB_MSG_TX_CLEAR_RESP \<Rightarrow> handle_2pc_clear_response V participant c
      | _ \<Rightarrow> (OB_TRANS_INVALID_STATE, c))"

subsection \<open>Timeouts\<close>

text \<open>The last part of \<^verbatim>\<open>handle_timeout\<close>: a transaction with a single participant has nobody whose
  messages could drive it.\<close>

definition drive_single_participant ::
    "'x committer_scheme vtable \<Rightarrow> 'x committer_scheme \<Rightarrow> 'x committer_scheme" where
  "drive_single_participant V c =
     (if is_root V c \<and> get_downstream_size V c = 1 \<and> \<not> is_2pc_logging V c then
        (let c1 = (if get_upstream_state V c = get_downstream_state V c
                      \<and> CLEAR > get_downstream_state V c \<and> PREPARE \<le> get_downstream_state V c
                   then snd (drive_self_2pc_phase V (decide_next_state (get_downstream_state V c)) c)
                   else c)
         in if PRE_COMMIT = get_upstream_state V c1 \<and> PREPARE = get_downstream_state V c1
            then snd (on_pre_commit V c1) else c1)
      else c)"

definition handle_timeout ::
    "'x committer_scheme vtable \<Rightarrow> 'x committer_scheme \<Rightarrow> ob_ret \<times> 'x committer_scheme" where
  "handle_timeout V c =
     (let c1 = snd (submit_2pc_log V c);
          c2 = (if is_root V c1 \<or> is_internal V c1 then snd (retransmit_downstream_msg V c1) else c1);
          c3 = (if is_internal V c2 \<or> is_leaf V c2
                then snd (retransmit_upstream_msg V (get_downstream_state V c2) c2) else c2)
      in ok (drive_single_participant V c3))"

subsection \<open>The second phase of XA transactions\<close>

definition prepare_redo ::
    "'x committer_scheme vtable \<Rightarrow> 'x committer_scheme \<Rightarrow> ob_ret \<times> 'x committer_scheme" where
  "prepare_redo V c =
     (if INIT \<noteq> get_upstream_state V c then ok c
      else if is_2pc_logging V c then ok c
      else tmp_fail (set_upstream_state V REDO_COMPLETE c)
        (\<lambda>c. tmp_fail (post_downstream_msg V OB_MSG_TX_PREPARE_REDO_REQ (collected_reset c))
          (\<lambda>c. tmp_fail (submit_log V OB_LOG_TX_COMMIT_INFO c) ok)))"

definition continue_execution ::
    "'x committer_scheme vtable \<Rightarrow> bool \<Rightarrow> 'x committer_scheme \<Rightarrow> ob_ret \<times> 'x committer_scheme" where
  "continue_execution V is_rollback c =
     (if is_2pc_logging V c then ok c
      else if REDO_COMPLETE < get_upstream_state V c \<or> REDO_COMPLETE < get_downstream_state V c then ok c
      else if is_rollback then
        or_else (drive_self_2pc_phase V ABORT c)
          (\<lambda>c. tmp_fail (post_downstream_msg V OB_MSG_TX_ABORT_REQ c) ok)
      else
        or_else (drive_self_2pc_phase V PREPARE c)
          (\<lambda>c. tmp_fail (post_downstream_msg V OB_MSG_TX_PREPARE_REQ c) ok))"

definition is_prepared_sub2pc ::
    "'x committer_scheme vtable \<Rightarrow> 'x committer_scheme \<Rightarrow> bool" where
  "is_prepared_sub2pc V c =
     (is_sub2pc V c \<and> REDO_COMPLETE = get_downstream_state V c \<and> all_downstream_collected V c)"

subsection \<open>Logs that reached a majority\<close>

text \<open>The code of the first branch is lost: the function returns a constant.\<close>

definition apply_commit_info_log ::
    "'x committer_scheme vtable \<Rightarrow> 'x committer_scheme \<Rightarrow> ob_ret \<times> 'x committer_scheme" where
  "apply_commit_info_log V c =
     (if \<not> is_sub2pc V c then ok c
      else if ABORT = get_downstream_state V c then ok c
      else (let c1 = (if (is_internal V c \<or> is_leaf V c) \<and> all_downstream_collected V c
                      then snd (post_msg V OB_MSG_TX_PREPARE_REDO_RESP OB_C2PC_UPSTREAM_ID c) else c)
            in ok (if is_root V c1 \<and> all_downstream_collected V c1
                   then snd (reply_to_scheduler_for_sub2pc V SUBPREPARE_RESP c1) else c1)))"

definition apply_prepare_log ::
    "'x committer_scheme vtable \<Rightarrow> 'x committer_scheme \<Rightarrow> ob_ret \<times> 'x committer_scheme" where
  "apply_prepare_log V c =
     (let state = get_downstream_state V c; upstream_state = get_upstream_state V c in
      if ABORT = upstream_state then ok c
      else if INIT \<noteq> state \<and> REDO_COMPLETE \<noteq> state then (OB_TRANS_INVALID_STATE, c)
      else if PREPARE \<noteq> upstream_state then (OB_TRANS_INVALID_STATE, c)
      else or_else (on_prepare V c)
        (\<lambda>c. or_else (set_downstream_state V PREPARE c)
          (\<lambda>c. if all_downstream_collected V c then
                 (case get_2pc_role V c of
                    ROOT \<Rightarrow>
                      (case try_enter_pre_commit_state V c of (ret, c1) \<Rightarrow>
                         if ret = OB_EAGAIN then ok c1 else (ret, c1))
                  | INTERNAL \<Rightarrow> tmp_fail (post_msg V OB_MSG_TX_PREPARE_RESP OB_C2PC_UPSTREAM_ID c) ok
                  | LEAF \<Rightarrow> tmp_fail (post_msg V OB_MSG_TX_PREPARE_RESP OB_C2PC_UPSTREAM_ID c) ok
                  | ROLE_UNKNOWN \<Rightarrow> (OB_TRANS_INVALID_STATE, c))
               else ok c)))"

text \<open>What \<^verbatim>\<open>apply_commit_log\<close> and \<^verbatim>\<open>apply_abort_log\<close> do once the state is durable, with the response
  as the only difference.\<close>

definition after_decision_log ::
    "'x committer_scheme vtable \<Rightarrow> ObTwoPhaseCommitMsgType \<Rightarrow> 'x committer_scheme \<Rightarrow> ob_ret \<times> 'x committer_scheme" where
  "after_decision_log V resp c =
     (if all_downstream_collected V c then
        (case get_2pc_role V c of
           ROOT \<Rightarrow> ok (case drive_self_2pc_phase V CLEAR c of (tmp_ret, c1) \<Rightarrow>
                        if tmp_ret = OB_SUCCESS
                        then snd (post_downstream_msg V OB_MSG_TX_CLEAR_REQ c1) else c1)
         | INTERNAL \<Rightarrow> tmp_fail (post_msg V resp OB_C2PC_UPSTREAM_ID c) ok
         | LEAF \<Rightarrow> tmp_fail (post_msg V resp OB_C2PC_UPSTREAM_ID c) ok
         | ROLE_UNKNOWN \<Rightarrow> (OB_ERR_UNEXPECTED, c))
      else ok c)"

definition apply_commit_log ::
    "'x committer_scheme vtable \<Rightarrow> 'x committer_scheme \<Rightarrow> ob_ret \<times> 'x committer_scheme" where
  "apply_commit_log V c =
     (let state = get_downstream_state V c; upstream_state = get_upstream_state V c in
      if PREPARE \<noteq> state \<and> PRE_COMMIT \<noteq> state \<and> COMMIT \<noteq> state then (OB_TRANS_INVALID_STATE, c)
      else if COMMIT \<noteq> upstream_state then (OB_TRANS_INVALID_STATE, c)
      else or_else (on_commit V c)
        (\<lambda>c. or_else (set_downstream_state V COMMIT c)
          (after_decision_log V OB_MSG_TX_COMMIT_RESP)))"

text \<open>A different upstream state is only logged.\<close>

definition apply_abort_log ::
    "'x committer_scheme vtable \<Rightarrow> 'x committer_scheme \<Rightarrow> ob_ret \<times> 'x committer_scheme" where
  "apply_abort_log V c =
     (let state = get_downstream_state V c in
      if INIT \<noteq> state \<and> REDO_COMPLETE \<noteq> state \<and> PREPARE \<noteq> state then (OB_TRANS_INVALID_STATE, c)
      else or_else (on_abort V c)
        (\<lambda>c. or_else (set_downstream_state V ABORT c)
          (after_decision_log V OB_MSG_TX_ABORT_RESP)))"

definition apply_clear_log ::
    "'x committer_scheme vtable \<Rightarrow> 'x committer_scheme \<Rightarrow> ob_ret \<times> 'x committer_scheme" where
  "apply_clear_log V c =
     (let state = get_downstream_state V c; upstream_state = get_upstream_state V c in
      if COMMIT \<noteq> state \<and> ABORT \<noteq> state then (OB_TRANS_INVALID_STATE, c)
      else if CLEAR \<noteq> upstream_state then (OB_TRANS_INVALID_STATE, c)
      else or_else (on_clear V c) (set_downstream_state V CLEAR))"

text \<open>A log that cannot be applied stops the process: \<^verbatim>\<open>ob_abort()\<close> is \<^const>\<open>None\<close>.\<close>

definition apply_log ::
    "'x committer_scheme vtable \<Rightarrow> ObTwoPhaseCommitLogType \<Rightarrow> 'x committer_scheme
     \<Rightarrow> (ob_ret \<times> 'x committer_scheme) option" where
  "apply_log V log_type c =
     (case (case log_type of
              OB_LOG_TX_COMMIT_INFO \<Rightarrow> apply_commit_info_log V c
            | OB_LOG_TX_PREPARE \<Rightarrow> apply_prepare_log V c
            | OB_LOG_TX_COMMIT \<Rightarrow> apply_commit_log V c
            | OB_LOG_TX_ABORT \<Rightarrow> apply_abort_log V c
            | OB_LOG_TX_CLEAR \<Rightarrow> apply_clear_log V c
            | _ \<Rightarrow> (OB_TRANS_INVALID_STATE, c)) of
        (ret, c1) \<Rightarrow> if ret \<noteq> OB_SUCCESS then None else Some (ret, c1))"

subsection \<open>Replay\<close>

text \<open>The common shape of the replay functions: a state already reached only refreshes the
  in-memory part, a state in \<open>from\<close> moves both states.\<close>

definition replay_to ::
    "'x committer_scheme vtable \<Rightarrow> ObTxState \<Rightarrow> ObTxState list \<Rightarrow> 'x committer_scheme
     \<Rightarrow> ob_ret \<times> 'x committer_scheme" where
  "replay_to V target froms c =
     (let state = get_downstream_state V c in
      if target = state then
        tmp_fail (set_upstream_state V target c) (\<lambda>c. ok (collected_reset c))
      else if state \<notin> set froms then (OB_TRANS_INVALID_STATE, c)
      else tmp_fail (set_upstream_state V target c)
        (\<lambda>c. or_else (set_downstream_state V target c) (\<lambda>c. ok (collected_reset c))))"

definition replay_prepare_log ::
    "'x committer_scheme vtable \<Rightarrow> 'x committer_scheme \<Rightarrow> ob_ret \<times> 'x committer_scheme" where
  "replay_prepare_log V c =
     replay_to V PREPARE [INIT, REDO_COMPLETE, PRE_COMMIT] c"

definition replay_commit_info_log ::
    "'x committer_scheme vtable \<Rightarrow> 'x committer_scheme \<Rightarrow> ob_ret \<times> 'x committer_scheme" where
  "replay_commit_info_log V c =
     replay_to V REDO_COMPLETE [INIT, PREPARE, PRE_COMMIT] c"

definition replay_commit_log ::
    "'x committer_scheme vtable \<Rightarrow> 'x committer_scheme \<Rightarrow> ob_ret \<times> 'x committer_scheme" where
  "replay_commit_log V c =
     replay_to V COMMIT [PREPARE, PRE_COMMIT] c"

definition replay_abort_log ::
    "'x committer_scheme vtable \<Rightarrow> 'x committer_scheme \<Rightarrow> ob_ret \<times> 'x committer_scheme" where
  "replay_abort_log V c =
     replay_to V ABORT [INIT, REDO_COMPLETE, PREPARE] c"

text \<open>Replaying a clear log leaves the set of responses alone.\<close>

definition replay_clear_log ::
    "'x committer_scheme vtable \<Rightarrow> 'x committer_scheme \<Rightarrow> ob_ret \<times> 'x committer_scheme" where
  "replay_clear_log V c =
     (let state = get_downstream_state V c in
      if CLEAR = state then tmp_fail (set_upstream_state V CLEAR c) ok
      else if COMMIT \<noteq> state \<and> ABORT \<noteq> state then (OB_TRANS_INVALID_STATE, c)
      else tmp_fail (set_upstream_state V CLEAR c) (set_downstream_state V CLEAR))"

definition replay_log ::
    "'x committer_scheme vtable \<Rightarrow> ObTwoPhaseCommitLogType \<Rightarrow> 'x committer_scheme \<Rightarrow> ob_ret \<times> 'x committer_scheme" where
  "replay_log V log_type c =
     or_else (merge_intermediate_participants V c)
       (\<lambda>c. case log_type of
          OB_LOG_TX_COMMIT_INFO \<Rightarrow> replay_commit_info_log V c
        | OB_LOG_TX_PREPARE \<Rightarrow> replay_prepare_log V c
        | OB_LOG_TX_COMMIT \<Rightarrow> replay_commit_log V c
        | OB_LOG_TX_ABORT \<Rightarrow> replay_abort_log V c
        | OB_LOG_TX_CLEAR \<Rightarrow> replay_clear_log V c
        | _ \<Rightarrow> (OB_TRANS_INVALID_STATE, c))"

definition recover_from_tx_table ::
    "'x committer_scheme vtable \<Rightarrow> 'x committer_scheme \<Rightarrow> ob_ret \<times> 'x committer_scheme" where
  "recover_from_tx_table V c =
     tmp_fail (set_upstream_state V (get_downstream_state V c) c) (\<lambda>c. ok (collected_reset c))"

definition handle_reboot :: ob_ret where "handle_reboot = OB_NOT_SUPPORTED"
definition leader_takeover :: ob_ret where "leader_takeover = OB_NOT_SUPPORTED"
definition leader_revoke :: ob_ret where "leader_revoke = OB_NOT_SUPPORTED"

subsection \<open>Messages for a transaction that is not there\<close>

text \<open>The answer of a node that has no context of the transaction: the code, the message to send
  and whether to send it.\<close>

definition handle_orphan_2pc_req ::
    "ObTwoPhaseCommitMsgType \<Rightarrow> ObTwoPhaseCommitMsgType \<Rightarrow> bool \<Rightarrow> ob_ret \<times> ObTwoPhaseCommitMsgType \<times> bool" where
  "handle_orphan_2pc_req recv_msg_type send_msg_type need_ack =
     (case recv_msg_type of
        OB_MSG_TX_PREPARE_REDO_REQ \<Rightarrow> (OB_SUCCESS, OB_MSG_TX_ABORT_RESP, True)
      | OB_MSG_TX_PREPARE_REQ \<Rightarrow> (OB_SUCCESS, OB_MSG_TX_ABORT_RESP, True)
      | OB_MSG_TX_PRE_COMMIT_REQ \<Rightarrow> (OB_SUCCESS, OB_MSG_TX_ABORT_RESP, True)
      | OB_MSG_TX_COMMIT_REQ \<Rightarrow> (OB_SUCCESS, OB_MSG_TX_ABORT_RESP, True)
      | OB_MSG_TX_ABORT_REQ \<Rightarrow> (OB_SUCCESS, OB_MSG_TX_ABORT_RESP, True)
      | OB_MSG_TX_CLEAR_REQ \<Rightarrow> (OB_SUCCESS, send_msg_type, False)
      | _ \<Rightarrow> (OB_TRANS_INVALID_STATE, send_msg_type, need_ack))"

definition handle_orphan_2pc_resp ::
    "ObTwoPhaseCommitMsgType \<Rightarrow> ObTwoPhaseCommitMsgType \<Rightarrow> bool \<Rightarrow> ob_ret \<times> ObTwoPhaseCommitMsgType \<times> bool" where
  "handle_orphan_2pc_resp recv_msg_type send_msg_type need_ack =
     (case recv_msg_type of
        OB_MSG_TX_PREPARE_REDO_RESP \<Rightarrow> (OB_SUCCESS, OB_MSG_TX_ABORT_REQ, True)
      | OB_MSG_TX_PREPARE_RESP \<Rightarrow> (OB_SUCCESS, OB_MSG_TX_ABORT_REQ, True)
      | OB_MSG_TX_PRE_COMMIT_RESP \<Rightarrow> (OB_SUCCESS, OB_MSG_TX_ABORT_REQ, True)
      | OB_MSG_TX_COMMIT_RESP \<Rightarrow> (OB_SUCCESS, OB_MSG_TX_CLEAR_REQ, True)
      | OB_MSG_TX_ABORT_RESP \<Rightarrow> (OB_SUCCESS, OB_MSG_TX_CLEAR_REQ, True)
      | OB_MSG_TX_CLEAR_RESP \<Rightarrow> (OB_SUCCESS, send_msg_type, False)
      | _ \<Rightarrow> (OB_TRANS_INVALID_STATE, send_msg_type, need_ack))"

definition is_2pc_request_msg :: "ObTwoPhaseCommitMsgType \<Rightarrow> bool" where
  "is_2pc_request_msg msg_type \<longleftrightarrow>
     OB_MSG_TX_PREPARE_REQ = msg_type \<or> OB_MSG_TX_PRE_COMMIT_REQ = msg_type
     \<or> OB_MSG_TX_COMMIT_REQ = msg_type \<or> OB_MSG_TX_ABORT_REQ = msg_type
     \<or> OB_MSG_TX_CLEAR_REQ = msg_type \<or> OB_MSG_TX_PREPARE_REDO_REQ = msg_type"

definition is_2pc_response_msg :: "ObTwoPhaseCommitMsgType \<Rightarrow> bool" where
  "is_2pc_response_msg msg_type \<longleftrightarrow>
     OB_MSG_TX_PREPARE_RESP = msg_type \<or> OB_MSG_TX_PRE_COMMIT_RESP = msg_type
     \<or> OB_MSG_TX_COMMIT_RESP = msg_type \<or> OB_MSG_TX_ABORT_RESP = msg_type
     \<or> OB_MSG_TX_CLEAR_RESP = msg_type \<or> OB_MSG_TX_PREPARE_REDO_RESP = msg_type"

end
