(* ===== verification/Part_Trans_Ctx.thy ===== *)
theory Part_Trans_Ctx
  imports Two_Phase_Committer Lsn Scn
begin

text \<open>
  The context of a transaction on one log stream, \<^verbatim>\<open>ObPartTransCtx\<close>, as far as two phase commit
  needs it: its virtual functions (\<^verbatim>\<open>ob_tx_2pc_ctx_impl.cpp\<close>), the messages it builds and the
  handlers that receive them (\<^verbatim>\<open>ob_tx_2pc_msg_handler.cpp\<close>). The class is an extension of the
  record of its base class. What belongs to other subsystems (the network, the log service,
  the timestamp service, the memtable, multi data sources, replicated tables) is a parameter
  \<open>env\<close> that returns the codes and values those calls return. The messages handed to the network
  and to the scheduler are kept in \<open>outbox\<close> and \<open>scheduler_box\<close>, in the order of sending; a report
  to the scheduler that is skipped counts as one that was not posted. Error injection is off.
\<close>

subsection \<open>Data\<close>

definition INVALID_LS_ID :: int where "INVALID_LS_ID = - 1"

definition ls_id_is_valid :: "int \<Rightarrow> bool" where
  "ls_id_is_valid ls \<longleftrightarrow> INVALID_LS_ID \<noteq> ls"

record ObTxExecPart =
  part_ls_id :: int
  exec_epoch :: int
  transfer_epoch :: int

datatype ObLSLogInfo = ObLSLogInfo (info_ls_id: int) (info_lsn: LSN)

text \<open>A message between participants. The classes derived from \<^verbatim>\<open>ObTxMsg\<close> are one record here; a
  field that a message type does not have keeps its default. \<open>is_version_msg\<close> tells the XA forms
  of the prepare request and response from the plain ones.\<close>

record ObTxMsg =
  tx_msg_type :: ObTwoPhaseCommitMsgType
  is_version_msg :: bool
  msg_sender :: int
  msg_receiver :: int
  msg_upstream :: int
  msg_epoch :: int
  msg_transfer_epoch :: int
  msg_prepare_version :: SCN
  msg_commit_version :: SCN
  msg_commit_log_scn :: SCN
  msg_max_commit_log_scn :: SCN
  msg_prepare_info_array :: "ObLSLogInfo list"

datatype scheduler_msg = TX_COMMIT_RESP ob_ret | TX_SUB_RESP sub2pc_resp

record ObTxExecInfo =
  state :: ObTxState
  upstream :: int
  participants :: "int list"
  commit_parts :: "ObTxExecPart list"
  intermediate_participants :: "ObTxExecPart list"
  transfer_parts :: "ObTxExecPart list"
  sub2pc_flag :: bool
  is_dup_tx :: bool
  is_sp_trans :: bool
  prepare_version :: SCN
  prepare_log_info_arr :: "ObLSLogInfo list"

record ObPartTransCtx = committer +
  ls_id :: int
  ctx_epoch :: int
  exec_info :: ObTxExecInfo
  upstream_state :: ObTxState
  state_log_submitting :: bool
  gts_waiting :: bool
  transfer_blocking :: bool
  force_abort :: bool
  mt_prepared :: bool
  commit_version :: SCN
  end_log_ts :: SCN
  max_2pc_commit_scn :: SCN
  dup_table_follower_max_read_version :: SCN
  coord_prepare_info_arr :: "ObLSLogInfo list"
  msg_2pc_cache :: "ObTxMsg option"
  callback_scheduler_on_clear :: bool
  tx_committed :: bool
  is_exiting :: bool
  outbox :: "ObTxMsg list"
  scheduler_box :: "scheduler_msg list"

record tx_env =
  rpc_post :: "ObTxMsg \<Rightarrow> ObPartTransCtx \<Rightarrow> ob_ret"
  scheduler_post :: "scheduler_msg \<Rightarrow> ObPartTransCtx \<Rightarrow> ob_ret"
  big_segment_active :: "ObPartTransCtx \<Rightarrow> bool"
  submit_big_segment_log :: "ObPartTransCtx \<Rightarrow> ob_ret"
  submit_state_log :: "ObTwoPhaseCommitLogType \<Rightarrow> ObPartTransCtx \<Rightarrow> ob_ret \<times> bool"
  get_gts :: "ObPartTransCtx \<Rightarrow> ob_ret \<times> SCN"
  wait_gts_elapse :: "ObPartTransCtx \<Rightarrow> ob_ret \<times> bool"
  local_max_read_version :: "ObPartTransCtx \<Rightarrow> ob_ret \<times> SCN"
  max_read_ts :: "ObPartTransCtx \<Rightarrow> SCN"
  tx_data_writable :: "ObPartTransCtx \<Rightarrow> ob_ret"
  mds_tx_end :: "bool \<Rightarrow> ObPartTransCtx \<Rightarrow> ob_ret"
  search_unsubmitted_dup_table_redo :: "ObPartTransCtx \<Rightarrow> ob_ret"
  dup_table_redo_sync_completed :: "ObPartTransCtx \<Rightarrow> bool"
  dup_table_tx_redo_sync :: "ObPartTransCtx \<Rightarrow> ob_ret \<times> bool"
  dup_table_tx_pre_commit :: "ObPartTransCtx \<Rightarrow> ob_ret"
  restart_2pc_trans_timer :: "ObPartTransCtx \<Rightarrow> ob_ret"
  tx_end :: "bool \<Rightarrow> ObPartTransCtx \<Rightarrow> ob_ret"
  trans_clear :: "ObPartTransCtx \<Rightarrow> ob_ret"
  acquire_ctx_ref :: "ObPartTransCtx \<Rightarrow> ob_ret"
  min_cluster_version_4_1 :: bool
  early_response_error :: "ObPartTransCtx \<Rightarrow> bool"
  get_role :: "ObPartTransCtx \<Rightarrow> ob_ret \<times> bool"
  is_follower :: "ObPartTransCtx \<Rightarrow> bool"
  notify_data_source :: "ObPartTransCtx \<Rightarrow> ob_ret"
  retain_for_mds :: "ObPartTransCtx \<Rightarrow> ob_ret"
  remove_commiting_dup_trx :: "ObPartTransCtx \<Rightarrow> ob_ret"
  update_max_commit_version :: "ObPartTransCtx \<Rightarrow> ob_ret"
  is_commit_action :: "ObPartTransCtx \<Rightarrow> bool"
  check_ls_status :: "int \<Rightarrow> ob_ret \<times> bool"
  clear_req_scn :: "bool \<Rightarrow> int \<Rightarrow> ob_ret \<times> SCN"
  orphan_post :: "ObTxMsg \<Rightarrow> ob_ret"

subsection \<open>Role and participants\<close>

definition part_role :: "ObPartTransCtx \<Rightarrow> Ob2PCRole" where
  "part_role c =
     (if ls_id_is_valid (upstream (exec_info c)) then
        if upstream (exec_info c) = ls_id c then ROOT
        else if participants (exec_info c) = [] then LEAF
        else INTERNAL
      else ROLE_UNKNOWN)"

definition part_downstream_size :: "ObPartTransCtx \<Rightarrow> int" where
  "part_downstream_size c = int (length (participants (exec_info c)))"

fun find_index_from :: "int \<Rightarrow> int list \<Rightarrow> nat \<Rightarrow> int option" where
  "find_index_from x [] i = None"
| "find_index_from x (y # ys) i = (if x = y then Some (int i) else find_index_from x ys (Suc i))"

definition find_participant_id :: "int \<Rightarrow> ObPartTransCtx \<Rightarrow> ob_ret \<times> int" where
  "find_participant_id participant c =
     (case find_index_from participant (participants (exec_info c)) 0 of
        Some i \<Rightarrow> (OB_SUCCESS, i)
      | None \<Rightarrow> (OB_ENTRY_NOT_EXIST, - 1))"

definition part_self_id :: "ObPartTransCtx \<Rightarrow> int \<times> ObPartTransCtx" where
  "part_self_id c =
     (if self_id c = - 1 then
        (let me = snd (find_participant_id (ls_id c) c) in (me, c\<lparr>self_id := me\<rparr>))
      else (self_id c, c))"

definition part_logging :: "ObPartTransCtx \<Rightarrow> bool" where
  "part_logging c \<longleftrightarrow> state_log_submitting c \<or> gts_waiting c"

definition part_set_downstream :: "ObTxState \<Rightarrow> ObPartTransCtx \<Rightarrow> ob_ret \<times> ObPartTransCtx" where
  "part_set_downstream s c = (OB_SUCCESS, c\<lparr>exec_info := (exec_info c)\<lparr>state := s\<rparr>\<rparr>)"

definition part_set_upstream :: "ObTxState \<Rightarrow> ObPartTransCtx \<Rightarrow> ob_ret \<times> ObPartTransCtx" where
  "part_set_upstream s c = (OB_SUCCESS, c\<lparr>upstream_state := s\<rparr>)"

definition part_real_upstream :: "ObPartTransCtx \<Rightarrow> bool" where
  "part_real_upstream c =
     (case msg_2pc_cache c of
        None \<Rightarrow> True
      | Some msg \<Rightarrow> msg_sender msg = upstream (exec_info c))"

text \<open>
  \<^verbatim>\<open>merge_intermediate_participants\<close>: the inner loop looks for the log stream among the first
  \<open>n\<close> participants, those there were before the merge. \<open>find_existing\<close> is its result: the
  position, or the failure of the check that both arrays agree there. \<open>merge_parts\<close> is the outer
  loop over the three arrays; it keeps what it did before a failure.
\<close>

definition find_existing :: "int \<Rightarrow> nat \<Rightarrow> int list \<Rightarrow> ObTxExecPart list \<Rightarrow> ob_ret \<times> nat option" where
  "find_existing ls n ps cps =
     (case find_index_from ls (take n ps) 0 of
        None \<Rightarrow> (OB_SUCCESS, None)
      | Some i \<Rightarrow> if part_ls_id (cps ! nat i) \<noteq> ps ! nat i then (OB_ERR_UNEXPECTED, Some (nat i))
                  else (OB_SUCCESS, Some (nat i)))"

fun merge_parts ::
    "nat \<Rightarrow> ObTxExecPart list \<Rightarrow> int list \<Rightarrow> ObTxExecPart list \<Rightarrow> ob_ret \<times> int list \<times> ObTxExecPart list" where
  "merge_parts n [] ps cps = (OB_SUCCESS, ps, cps)"
| "merge_parts n (x # xs) ps cps =
     (case find_existing (part_ls_id x) n ps cps of
        (OB_SUCCESS, None) \<Rightarrow> merge_parts n xs (ps @ [part_ls_id x]) (cps @ [x])
      | (OB_SUCCESS, Some j) \<Rightarrow>
          merge_parts n xs ps
            (if transfer_epoch (cps ! j) > 0 then cps
             else cps[j := (cps ! j)\<lparr>transfer_epoch := transfer_epoch x\<rparr>])
      | (ret, _) \<Rightarrow> (ret, ps, cps))"

definition part_merge :: "ObPartTransCtx \<Rightarrow> ob_ret \<times> ObPartTransCtx" where
  "part_merge c =
     (let e = exec_info c; n = length (participants e) in
      if intermediate_participants e \<noteq> [] then
        (if n \<noteq> length (commit_parts e) then (OB_ERR_UNEXPECTED, c)
         else case merge_parts n (intermediate_participants e) (participants e) (commit_parts e) of
           (ret, ps, cps) \<Rightarrow>
             (ret, c\<lparr>exec_info := e\<lparr>participants := ps, commit_parts := cps,
                 intermediate_participants :=
                   (if ret = OB_SUCCESS then [] else intermediate_participants e)\<rparr>\<rparr>))
      else (OB_SUCCESS, c))"

definition add_intermediate_participants :: "int \<Rightarrow> int \<Rightarrow> ObPartTransCtx \<Rightarrow> ob_ret \<times> ObPartTransCtx" where
  "add_intermediate_participants ls epoch c =
     (let e = exec_info c in
      if ls \<in> part_ls_id ` set (intermediate_participants e) then (OB_SUCCESS, c)
      else (OB_SUCCESS, c\<lparr>exec_info := e\<lparr>intermediate_participants :=
              intermediate_participants e @
                [\<lparr>part_ls_id = ls, exec_epoch = - 1, transfer_epoch = epoch\<rparr>]\<rparr>\<rparr>))"

subsection \<open>Versions\<close>

definition set_2pc_upstream :: "int \<Rightarrow> ObPartTransCtx \<Rightarrow> ObPartTransCtx" where
  "set_2pc_upstream ls c =
     (if \<not> ls_id_is_valid (upstream (exec_info c))
      then c\<lparr>exec_info := (exec_info c)\<lparr>upstream := ls\<rparr>\<rparr> else c)"

definition update_2pc_prepare_version :: "SCN \<Rightarrow> ObPartTransCtx \<Rightarrow> ObPartTransCtx" where
  "update_2pc_prepare_version v c =
     c\<lparr>exec_info := (exec_info c)\<lparr>prepare_version := scn_max v (prepare_version (exec_info c))\<rparr>\<rparr>"

definition set_commit_version :: "tx_env \<Rightarrow> SCN \<Rightarrow> ObPartTransCtx \<Rightarrow> ob_ret \<times> ObPartTransCtx" where
  "set_commit_version env v c =
     (if tx_data_writable env c \<noteq> OB_SUCCESS then (tx_data_writable env c, c)
      else (OB_SUCCESS, c\<lparr>commit_version := v\<rparr>))"

definition set_2pc_commit_version :: "tx_env \<Rightarrow> SCN \<Rightarrow> ObPartTransCtx \<Rightarrow> ob_ret \<times> ObPartTransCtx" where
  "set_2pc_commit_version env v c =
     (if scn_ge (commit_version c) v then (OB_SUCCESS, c) else set_commit_version env v c)"

definition add_log_info :: "ObLSLogInfo list \<Rightarrow> ObLSLogInfo \<Rightarrow> ObLSLogInfo list" where
  "add_log_info arr info = (if info \<in> set arr then arr else arr @ [info])"

definition merge_prepare_log_info :: "ObLSLogInfo list \<Rightarrow> ObPartTransCtx \<Rightarrow> ObPartTransCtx" where
  "merge_prepare_log_info info_array c =
     c\<lparr>exec_info := (exec_info c)\<lparr>prepare_log_info_arr :=
         foldl add_log_info (prepare_log_info_arr (exec_info c)) info_array\<rparr>\<rparr>"

text \<open>Asking for a timestamp; when it has to be waited for, the context is marked.\<close>

definition ask_gts :: "tx_env \<Rightarrow> ObPartTransCtx \<Rightarrow> ob_ret \<times> SCN \<times> ObPartTransCtx" where
  "ask_gts env c =
     (case get_gts env c of (ret, gts) \<Rightarrow>
        (ret, gts, if ret = OB_EAGAIN then c\<lparr>gts_waiting := True\<rparr> else c))"

text \<open>The second half of \<^verbatim>\<open>generate_prepare_version_\<close>, once the timestamp is known.\<close>

definition raise_prepare_version :: "tx_env \<Rightarrow> SCN \<Rightarrow> ObPartTransCtx \<Rightarrow> ob_ret \<times> ObPartTransCtx" where
  "raise_prepare_version env gts c =
     (let c1 = c\<lparr>mt_prepared := True\<rparr> in
      case local_max_read_version env c1 of (ret, lmrv) \<Rightarrow>
        if ret \<noteq> OB_SUCCESS then (ret, c1)
        else let c2 = update_2pc_prepare_version (scn_max gts lmrv) c1 in
          if is_dup_tx (exec_info c1) then
            (if \<not> scn_is_valid (dup_table_follower_max_read_version c1) then (OB_ERR_UNEXPECTED, c1)
             else (OB_SUCCESS, c2\<lparr>exec_info := (exec_info c2)\<lparr>prepare_version :=
                     scn_max (prepare_version (exec_info c2)) (dup_table_follower_max_read_version c1)\<rparr>\<rparr>))
          else (OB_SUCCESS, c2))"

definition generate_prepare_version :: "tx_env \<Rightarrow> ObPartTransCtx \<Rightarrow> ob_ret \<times> ObPartTransCtx" where
  "generate_prepare_version env c =
     (if \<not> mt_prepared c \<or> \<not> scn_is_valid (prepare_version (exec_info c)) then
        (if part_role c = ROOT \<or> is_dup_tx (exec_info c) then
           (case ask_gts env c of (ret, gts, c1) \<Rightarrow>
              if ret = OB_EAGAIN then (OB_SUCCESS, c1)
              else if ret \<noteq> OB_SUCCESS then (ret, c1)
              else raise_prepare_version env gts c1)
         else raise_prepare_version env min_scn c)
      else (OB_SUCCESS, c))"

definition generate_commit_version :: "tx_env \<Rightarrow> ObPartTransCtx \<Rightarrow> ob_ret \<times> ObPartTransCtx" where
  "generate_commit_version env c =
     (if \<not> scn_is_valid (commit_version c) then
        (case ask_gts env c of (ret, gts, c1) \<Rightarrow>
           if ret \<noteq> OB_SUCCESS then (ret, c1)
           else let c2 = c1\<lparr>mt_prepared := True\<rparr> in
             set_commit_version env (scn_max gts (max_read_ts env c2)) c2)
      else (OB_SUCCESS, c))"

subsection \<open>Logs\<close>

text \<open>
  \<^verbatim>\<open>submit_log\<close> with \<^verbatim>\<open>submit_log_impl_\<close>: \<open>submit_state_log\<close> stands for the function that builds the
  block and hands it to the log service; its flag tells that a callback is now awaited. Its failure
  for a row that is too big for one log, which kills the transaction, is not modelled. The
  branch of the prepare log that first drives an earlier state to \<open>PREPARE\<close> is for callers other
  than the committer, which asks for a prepare log in that state only.
\<close>

definition hand_in_log ::
    "tx_env \<Rightarrow> ObTwoPhaseCommitLogType \<Rightarrow> ObPartTransCtx \<Rightarrow> ob_ret \<times> ObPartTransCtx" where
  "hand_in_log env log_type c =
     (case submit_state_log env log_type c of (ret, pending) \<Rightarrow>
        (ret, c\<lparr>state_log_submitting := (state_log_submitting c \<or> pending)\<rparr>))"

definition submit_log_by_type ::
    "tx_env \<Rightarrow> ObTwoPhaseCommitLogType \<Rightarrow> ObPartTransCtx \<Rightarrow> ob_ret \<times> ObPartTransCtx" where
  "submit_log_by_type env log_type c =
     (if big_segment_active env c then (OB_LOG_TOO_LARGE, c)
      else case log_type of
        OB_LOG_TX_COMMIT_INFO \<Rightarrow> hand_in_log env OB_LOG_TX_COMMIT_INFO c
      | OB_LOG_TX_PREPARE \<Rightarrow>
          or_else (generate_prepare_version env c) (\<lambda>c.
            if mt_prepared c \<and> upstream_state c = PREPARE \<and> state (exec_info c) < PREPARE
               \<and> \<not> part_logging c
            then hand_in_log env OB_LOG_TX_PREPARE c else ok c)
      | OB_LOG_TX_COMMIT \<Rightarrow>
          or_else (if \<not> mt_prepared c \<and> is_sp_trans (exec_info c) then generate_commit_version env c else ok c)
            (\<lambda>c. if mt_prepared c then hand_in_log env OB_LOG_TX_COMMIT c else ok c)
      | OB_LOG_TX_ABORT \<Rightarrow> hand_in_log env OB_LOG_TX_ABORT (c\<lparr>upstream_state := ABORT\<rparr>)
      | OB_LOG_TX_CLEAR \<Rightarrow> hand_in_log env OB_LOG_TX_CLEAR c
      | _ \<Rightarrow> ok c)"

definition handle_submit_log_err ::
    "tx_env \<Rightarrow> ObTwoPhaseCommitLogType \<Rightarrow> ob_ret \<times> ObPartTransCtx \<Rightarrow> ob_ret \<times> ObPartTransCtx" where
  "handle_submit_log_err env log_type r =
     (if fst r = OB_TX_NOLOGCB
         \<and> log_type \<in> {OB_LOG_TX_PREPARE, OB_LOG_TX_COMMIT, OB_LOG_TX_COMMIT_INFO} then (OB_SUCCESS, snd r)
      else if fst r = OB_LOG_TOO_LARGE then (submit_big_segment_log env (snd r), snd r)
      else r)"

definition submit_log_impl ::
    "tx_env \<Rightarrow> ObTwoPhaseCommitLogType \<Rightarrow> ObPartTransCtx \<Rightarrow> ob_ret \<times> ObPartTransCtx" where
  "submit_log_impl env log_type c = handle_submit_log_err env log_type (submit_log_by_type env log_type c)"

definition part_submit_log ::
    "tx_env \<Rightarrow> ObTwoPhaseCommitLogType \<Rightarrow> ObPartTransCtx \<Rightarrow> ob_ret \<times> ObPartTransCtx" where
  "part_submit_log env log_type c =
     (if gts_waiting c then ok c else submit_log_impl env log_type c)"

definition compensate_abort_log :: "tx_env \<Rightarrow> ObPartTransCtx \<Rightarrow> ob_ret \<times> ObPartTransCtx" where
  "compensate_abort_log env c =
     (if force_abort c \<and> state_log_submitting c then ok c
      else submit_log_impl env OB_LOG_TX_ABORT (c\<lparr>force_abort := True\<rparr>))"

subsection \<open>Answers to the scheduler\<close>

definition tell_scheduler :: "tx_env \<Rightarrow> scheduler_msg \<Rightarrow> ObPartTransCtx \<Rightarrow> ObPartTransCtx" where
  "tell_scheduler env msg c =
     (if scheduler_post env msg c = OB_SUCCESS then c\<lparr>scheduler_box := scheduler_box c @ [msg]\<rparr> else c)"

definition part_reply :: "tx_env \<Rightarrow> sub2pc_resp \<Rightarrow> ObPartTransCtx \<Rightarrow> ob_ret \<times> ObPartTransCtx" where
  "part_reply env msg_type c =
     (if is_sp_trans (exec_info c) then (OB_ERR_UNEXPECTED, c)
      else if part_role c \<noteq> ROOT then (OB_ERR_UNEXPECTED, c)
      else ok (tell_scheduler env (TX_SUB_RESP msg_type) c))"

definition check_and_response_scheduler ::
    "tx_env \<Rightarrow> ObTxState \<Rightarrow> ob_ret \<Rightarrow> ObPartTransCtx \<Rightarrow> ObPartTransCtx" where
  "check_and_response_scheduler env next_phase result c =
     (if \<not> sub2pc_flag (exec_info c) \<and> early_response_error env c \<and> next_phase \<noteq> CLEAR
         \<and> \<not> callback_scheduler_on_clear c
      then c\<lparr>callback_scheduler_on_clear := True\<rparr>
      else if callback_scheduler_on_clear c \<and> CLEAR \<noteq> next_phase then c
      else if sub2pc_flag (exec_info c) then
        (if COMMIT = next_phase then snd (part_reply env SUBCOMMIT_RESP c)
         else if ABORT = next_phase \<or> ABORT = state (exec_info c)
         then snd (part_reply env SUBROLLBACK_RESP c)
         else c)
      else tell_scheduler env (TX_COMMIT_RESP result) c)"

subsection \<open>What is done in each phase\<close>

definition part_do_prepare :: "tx_env \<Rightarrow> ObPartTransCtx \<Rightarrow> ob_ret \<times> bool \<times> ObPartTransCtx" where
  "part_do_prepare env c =
     (let (ret1, c1) =
        (if force_abort c then
           (if mds_tx_end env False c \<noteq> OB_SUCCESS then (mds_tx_end env False c, c)
            else or_else (compensate_abort_log env c) (\<lambda>c. (OB_TRANS_KILLED, c)))
         else ok c)
      in if ret1 \<noteq> OB_SUCCESS then (ret1, False, c1)
      else let ret2 = search_unsubmitted_dup_table_redo env c1
      in if ret2 \<noteq> OB_SUCCESS then (ret2, False, c1)
      else let no_need_submit_log = (is_dup_tx (exec_info c1) \<and> \<not> dup_table_redo_sync_completed env c1);
          (ret3, c3) =
            (if no_need_submit_log
             then (case dup_table_tx_redo_sync env c1 of (ret, pending) \<Rightarrow>
                     (ret, c1\<lparr>state_log_submitting := (state_log_submitting c1 \<or> pending)\<rparr>))
             else ok c1)
      in if ret3 \<noteq> OB_SUCCESS then (ret3, no_need_submit_log, c3)
      else if mds_tx_end env True c3 \<noteq> OB_SUCCESS then (mds_tx_end env True c3, no_need_submit_log, c3)
      else (case generate_prepare_version env c3 of (ret4, c4) \<Rightarrow>
        if ret4 \<noteq> OB_SUCCESS then (ret4, no_need_submit_log, c4)
        else (restart_2pc_trans_timer env c4, no_need_submit_log, c4)))"

text \<open>
  \<open>wait_gts_elapse_commit_version\<close> returns the code, whether to wait, and the context. In
  \<^verbatim>\<open>do_pre_commit\<close> the call that publishes the commit version stores its own code in \<^verbatim>\<open>ret\<close>, which
  is always a success, so a failure of the steps before it is lost unless it has to wait.
\<close>

definition wait_gts_elapse_commit_version :: "tx_env \<Rightarrow> ObPartTransCtx \<Rightarrow> ob_ret \<times> bool \<times> ObPartTransCtx" where
  "wait_gts_elapse_commit_version env c =
     (case wait_gts_elapse env c of (ret, need_wait) \<Rightarrow>
        if ret \<noteq> OB_SUCCESS then (ret, need_wait, c)
        else if need_wait then (acquire_ctx_ref env c, True, c\<lparr>gts_waiting := True\<rparr>)
        else (OB_SUCCESS, False, c))"

definition part_do_pre_commit :: "tx_env \<Rightarrow> ObPartTransCtx \<Rightarrow> ob_ret \<times> bool \<times> ObPartTransCtx" where
  "part_do_pre_commit env c =
     (let (ret, need_wait, c1) =
        (if part_role c = ROOT then
           (case set_commit_version env (prepare_version (exec_info c)) c of (ret, c1) \<Rightarrow>
              if ret \<noteq> OB_SUCCESS then (ret, False, c1) else wait_gts_elapse_commit_version env c1)
         else (OB_SUCCESS, False, c));
          ret2 = (if \<not> need_wait then OB_SUCCESS else ret)
      in (if ret2 = OB_SUCCESS then restart_2pc_trans_timer env c1 else ret2, need_wait, c1))"

definition part_do_commit :: "tx_env \<Rightarrow> ObPartTransCtx \<Rightarrow> ob_ret \<times> ObPartTransCtx" where
  "part_do_commit env c =
     or_else
       (if is_sp_trans (exec_info c) then
          (case ask_gts env c of (ret, gts, c1) \<Rightarrow>
             if ret = OB_EAGAIN then ok c1
             else if ret \<noteq> OB_SUCCESS then (ret, c1)
             else let c2 = c1\<lparr>mt_prepared := True\<rparr> in
               case local_max_read_version env c2 of (ret, lmrv) \<Rightarrow>
                 if ret \<noteq> OB_SUCCESS then (ret, c2)
                 else set_commit_version env (scn_max gts lmrv) c2)
        else if part_role c = ROOT then
          ok (check_and_response_scheduler env COMMIT OB_SUCCESS
                (c\<lparr>coord_prepare_info_arr := prepare_log_info_arr (exec_info c)\<rparr>))
        else ok c)
       (\<lambda>c. (restart_2pc_trans_timer env c, c))"

definition part_do_abort :: "tx_env \<Rightarrow> ObPartTransCtx \<Rightarrow> ob_ret \<times> ObPartTransCtx" where
  "part_do_abort env c =
     ok (if \<not> sub2pc_flag (exec_info c) \<and> part_role c = ROOT
         then check_and_response_scheduler env ABORT OB_TRANS_KILLED c else c)"

definition part_do_clear :: "tx_env \<Rightarrow> ObPartTransCtx \<Rightarrow> ob_ret \<times> ObPartTransCtx" where
  "part_do_clear env c =
     ok (if part_role c = ROOT
         then check_and_response_scheduler env CLEAR
                (if tx_committed c then OB_SUCCESS else OB_TRANS_ROLLBACKED) c else c)"

definition part_on_prepare :: "ObPartTransCtx \<Rightarrow> ob_ret \<times> ObPartTransCtx" where
  "part_on_prepare c = ok c"

definition part_on_commit :: "tx_env \<Rightarrow> ObPartTransCtx \<Rightarrow> ob_ret \<times> ObPartTransCtx" where
  "part_on_commit env c =
     (if is_sp_trans (exec_info c) then ok c
      else (tx_end env True c,
            if tx_end env True c = OB_SUCCESS then c\<lparr>tx_committed := True\<rparr> else c))"

definition part_on_abort :: "tx_env \<Rightarrow> ObPartTransCtx \<Rightarrow> ob_ret \<times> ObPartTransCtx" where
  "part_on_abort env c =
     (let c1 = (if sub2pc_flag (exec_info c) \<and> part_role c = ROOT
                then check_and_response_scheduler env ABORT OB_TRANS_KILLED c else c)
      in if tx_end env False c1 \<noteq> OB_SUCCESS then (tx_end env False c1, c1)
         else (trans_clear env c1, c1))"

definition part_on_clear :: "ObPartTransCtx \<Rightarrow> ob_ret \<times> ObPartTransCtx" where
  "part_on_clear c = ok (c\<lparr>is_exiting := True\<rparr>)"

subsection \<open>Messages out\<close>

text \<open>The header of a message. The loop over the commit parts has no exit: the last entry for the
  receiver counts. Fields that the type does not fill keep their initial value.\<close>

definition build_tx_common_msg :: "int \<Rightarrow> ObTwoPhaseCommitMsgType \<Rightarrow> ObPartTransCtx \<Rightarrow> ObTxMsg" where
  "build_tx_common_msg receiver msg_type c =
     foldl (\<lambda>msg part. if part_ls_id part = receiver
              then msg\<lparr>msg_epoch := exec_epoch part, msg_transfer_epoch := transfer_epoch part\<rparr> else msg)
       \<lparr>tx_msg_type = msg_type, is_version_msg = False, msg_sender = ls_id c, msg_receiver = receiver,
        msg_upstream = INVALID_LS_ID, msg_epoch = - 1, msg_transfer_epoch = - 1,
        msg_prepare_version = scn_reset, msg_commit_version = scn_reset,
        msg_commit_log_scn = scn_reset, msg_max_commit_log_scn = scn_reset,
        msg_prepare_info_array = []\<rparr>
       (commit_parts (exec_info c))"

definition rpc_send :: "tx_env \<Rightarrow> ObTxMsg \<Rightarrow> ObPartTransCtx \<Rightarrow> ob_ret \<times> ObPartTransCtx" where
  "rpc_send env msg c =
     (rpc_post env msg c,
      if rpc_post env msg c = OB_SUCCESS then c\<lparr>outbox := outbox c @ [msg]\<rparr> else c)"

definition post_msg_to ::
    "tx_env \<Rightarrow> ObTwoPhaseCommitMsgType \<Rightarrow> int \<Rightarrow> ObPartTransCtx \<Rightarrow> ob_ret \<times> ObPartTransCtx" where
  "post_msg_to env msg_type receiver c =
     (let msg = build_tx_common_msg receiver msg_type c in
      case msg_type of
        OB_MSG_TX_PREPARE_REDO_REQ \<Rightarrow> rpc_send env (msg\<lparr>msg_upstream := ls_id c\<rparr>) c
      | OB_MSG_TX_PREPARE_REDO_RESP \<Rightarrow> rpc_send env msg c
      | OB_MSG_TX_PREPARE_REQ \<Rightarrow>
          rpc_send env (msg\<lparr>is_version_msg := sub2pc_flag (exec_info c), msg_upstream := ls_id c\<rparr>) c
      | OB_MSG_TX_PREPARE_RESP \<Rightarrow>
          rpc_send env (msg\<lparr>is_version_msg := sub2pc_flag (exec_info c),
                            msg_prepare_version := prepare_version (exec_info c),
                            msg_prepare_info_array := prepare_log_info_arr (exec_info c)\<rparr>) c
      | OB_MSG_TX_PRE_COMMIT_REQ \<Rightarrow> rpc_send env (msg\<lparr>msg_commit_version := commit_version c\<rparr>) c
      | OB_MSG_TX_PRE_COMMIT_RESP \<Rightarrow>
          (if is_dup_tx (exec_info c) \<and> dup_table_tx_pre_commit env c \<noteq> OB_SUCCESS
           then (if dup_table_tx_pre_commit env c = OB_EAGAIN then OB_SUCCESS
                 else dup_table_tx_pre_commit env c, c)
           else rpc_send env (msg\<lparr>msg_commit_version := commit_version c\<rparr>) c)
      | OB_MSG_TX_COMMIT_REQ \<Rightarrow>
          (let c1 = (if part_role c = ROOT \<and> coord_prepare_info_arr c = []
                     then c\<lparr>coord_prepare_info_arr := prepare_log_info_arr (exec_info c)\<rparr> else c)
           in rpc_send env (msg\<lparr>msg_commit_version := commit_version c,
                                msg_prepare_info_array := coord_prepare_info_arr c1\<rparr>) c1)
      | OB_MSG_TX_COMMIT_RESP \<Rightarrow>
          rpc_send env (msg\<lparr>msg_commit_version := commit_version c,
                            msg_commit_log_scn :=
                              (if scn_is_valid (max_2pc_commit_scn c)
                               then scn_max (max_2pc_commit_scn c) (end_log_ts c) else end_log_ts c)\<rparr>) c
      | OB_MSG_TX_ABORT_REQ \<Rightarrow> rpc_send env (msg\<lparr>msg_upstream := ls_id c\<rparr>) c
      | OB_MSG_TX_ABORT_RESP \<Rightarrow> rpc_send env msg c
      | OB_MSG_TX_CLEAR_REQ \<Rightarrow>
          rpc_send env (msg\<lparr>msg_max_commit_log_scn := scn_max (max_2pc_commit_scn c) (end_log_ts c)\<rparr>) c
      | OB_MSG_TX_CLEAR_RESP \<Rightarrow> rpc_send env msg c
      | _ \<Rightarrow> (OB_INVALID_ARGUMENT, c))"

text \<open>A negative participant id would index before the array; no caller passes one.\<close>

definition part_post_msg ::
    "tx_env \<Rightarrow> ObTwoPhaseCommitMsgType \<Rightarrow> int \<Rightarrow> ObPartTransCtx \<Rightarrow> ob_ret \<times> ObPartTransCtx" where
  "part_post_msg env msg_type participant_id c =
     (let ps = participants (exec_info c) in
      if participant_id \<ge> int (length ps) \<and> OB_C2PC_UPSTREAM_ID \<noteq> participant_id
         \<and> OB_C2PC_SENDER_ID \<noteq> participant_id
      then (OB_INVALID_ARGUMENT, c)
      else if OB_C2PC_UPSTREAM_ID = participant_id
      then post_msg_to env msg_type (upstream (exec_info c)) c
      else if OB_C2PC_SENDER_ID = participant_id then
        (case msg_2pc_cache c of
           Some msg \<Rightarrow> post_msg_to env msg_type (msg_sender msg) c
         | None \<Rightarrow> if ls_id_is_valid (upstream (exec_info c))
                   then post_msg_to env msg_type (upstream (exec_info c)) c else ok c)
      else post_msg_to env msg_type (ps ! nat participant_id) c)"

subsection \<open>Messages in\<close>

text \<open>\<^verbatim>\<open>apply_2pc_msg_\<close> reads the type of the cached message before it checks that there is one;
  the handlers below set the cache first.\<close>

definition apply_cached_msg :: "tx_env \<Rightarrow> ObTxMsg \<Rightarrow> ObPartTransCtx \<Rightarrow> ob_ret \<times> ObPartTransCtx" where
  "apply_cached_msg env msg c =
     (case tx_msg_type msg of
        OB_MSG_TX_PREPARE_REDO_REQ \<Rightarrow>
          (let c1 = set_2pc_upstream (msg_upstream msg)
                      (c\<lparr>exec_info := (exec_info c)\<lparr>is_sp_trans := False\<rparr>\<rparr>)
           in ok (c1\<lparr>exec_info := (exec_info c1)\<lparr>sub2pc_flag := True\<rparr>\<rparr>))
      | OB_MSG_TX_PREPARE_REQ \<Rightarrow>
          if \<not> sub2pc_flag (exec_info c) \<and> is_version_msg msg then (OB_ERR_UNEXPECTED, c)
          else if sub2pc_flag (exec_info c) then ok (set_2pc_upstream (msg_upstream msg) c)
          else ok (set_2pc_upstream (msg_upstream msg)
                     (c\<lparr>exec_info := (exec_info c)\<lparr>is_sp_trans := False\<rparr>\<rparr>))
      | OB_MSG_TX_PREPARE_RESP \<Rightarrow>
          if \<not> sub2pc_flag (exec_info c) \<and> is_version_msg msg then (OB_ERR_UNEXPECTED, c)
          else if sub2pc_flag (exec_info c) then ok c
          else ok (merge_prepare_log_info (msg_prepare_info_array msg)
                     (update_2pc_prepare_version (msg_prepare_version msg) c))
      | OB_MSG_TX_PRE_COMMIT_REQ \<Rightarrow>
          set_2pc_commit_version env (msg_commit_version msg) (set_2pc_upstream (msg_sender msg) c)
      | OB_MSG_TX_PRE_COMMIT_RESP \<Rightarrow>
          set_2pc_commit_version env (msg_commit_version msg)
            (update_2pc_prepare_version (msg_commit_version msg) c)
      | OB_MSG_TX_COMMIT_REQ \<Rightarrow>
          or_else (set_2pc_commit_version env (msg_commit_version msg) (set_2pc_upstream (msg_sender msg) c))
            (\<lambda>c. ok (c\<lparr>coord_prepare_info_arr := msg_prepare_info_array msg\<rparr>))
      | OB_MSG_TX_COMMIT_RESP \<Rightarrow>
          set_2pc_commit_version env (msg_commit_version msg)
            (c\<lparr>max_2pc_commit_scn := scn_max (msg_commit_log_scn msg) (max_2pc_commit_scn c)\<rparr>)
      | OB_MSG_TX_ABORT_REQ \<Rightarrow>
          ok (if ls_id_is_valid (msg_upstream msg) then set_2pc_upstream (msg_upstream msg) c else c)
      | OB_MSG_TX_ABORT_RESP \<Rightarrow> ok c
      | OB_MSG_TX_CLEAR_REQ \<Rightarrow>
          if min_cluster_version_4_1 env
             \<and> (scn_lt (msg_max_commit_log_scn msg) (max_2pc_commit_scn c)
                \<or> scn_lt (msg_max_commit_log_scn msg) (end_log_ts c))
          then (OB_ERR_UNEXPECTED, c)
          else let c1 = set_2pc_upstream (msg_sender msg) c in
            ok (c1\<lparr>max_2pc_commit_scn := scn_max (msg_max_commit_log_scn msg) (max_2pc_commit_scn c1)\<rparr>)
      | OB_MSG_TX_CLEAR_RESP \<Rightarrow> ok c
      | _ \<Rightarrow> (OB_ERR_UNEXPECTED, c))"

definition part_apply_msg ::
    "tx_env \<Rightarrow> ObTwoPhaseCommitMsgType \<Rightarrow> ObPartTransCtx \<Rightarrow> ob_ret \<times> ObPartTransCtx" where
  "part_apply_msg env msg_type c =
     (case msg_2pc_cache c of
        None \<Rightarrow> (OB_INVALID_ARGUMENT, c)
      | Some msg \<Rightarrow>
          if tx_msg_type msg \<noteq> msg_type
             \<and> (OB_MSG_TX_COMMIT_RESP \<noteq> msg_type \<or> OB_MSG_TX_ABORT_RESP \<noteq> tx_msg_type msg)
          then (OB_INVALID_ARGUMENT, c)
          else apply_cached_msg env msg c)"

text \<open>The table of virtual functions of the class.\<close>

definition part_vtable :: "tx_env \<Rightarrow> ObPartTransCtx vtable" where
  "part_vtable env =
     \<lparr>get_2pc_role = part_role,
      get_downstream_size = part_downstream_size,
      get_self_id = part_self_id,
      is_2pc_logging = part_logging,
      is_2pc_blocking = transfer_blocking,
      get_downstream_state = (\<lambda>c. state (exec_info c)),
      set_downstream_state = part_set_downstream,
      get_upstream_state = upstream_state,
      set_upstream_state = part_set_upstream,
      is_sub2pc = (\<lambda>c. sub2pc_flag (exec_info c)),
      is_real_upstream = part_real_upstream,
      do_prepare = part_do_prepare env,
      do_pre_commit = part_do_pre_commit env,
      do_commit = part_do_commit env,
      do_abort = part_do_abort env,
      do_clear = part_do_clear env,
      on_prepare = part_on_prepare,
      on_commit = part_on_commit env,
      on_abort = part_on_abort env,
      on_clear = part_on_clear,
      submit_log = part_submit_log env,
      post_msg = part_post_msg env,
      apply_2pc_msg = part_apply_msg env,
      merge_intermediate_participants = part_merge,
      reply_to_scheduler_for_sub2pc = part_reply env\<rparr>"

lemma part_sel [simp]:
  "get_2pc_role (part_vtable env) = part_role"
  "get_downstream_size (part_vtable env) = part_downstream_size"
  "get_self_id (part_vtable env) = part_self_id"
  "is_2pc_logging (part_vtable env) = part_logging"
  "is_2pc_blocking (part_vtable env) = transfer_blocking"
  "get_downstream_state (part_vtable env) = (\<lambda>c. state (exec_info c))"
  "set_downstream_state (part_vtable env) = part_set_downstream"
  "get_upstream_state (part_vtable env) = upstream_state"
  "set_upstream_state (part_vtable env) = part_set_upstream"
  "is_sub2pc (part_vtable env) = (\<lambda>c. sub2pc_flag (exec_info c))"
  "is_real_upstream (part_vtable env) = part_real_upstream"
  "do_prepare (part_vtable env) = part_do_prepare env"
  "do_pre_commit (part_vtable env) = part_do_pre_commit env"
  "do_commit (part_vtable env) = part_do_commit env"
  "do_abort (part_vtable env) = part_do_abort env"
  "do_clear (part_vtable env) = part_do_clear env"
  "on_prepare (part_vtable env) = part_on_prepare"
  "on_commit (part_vtable env) = part_on_commit env"
  "on_abort (part_vtable env) = part_on_abort env"
  "on_clear (part_vtable env) = part_on_clear"
  "submit_log (part_vtable env) = part_submit_log env"
  "post_msg (part_vtable env) = part_post_msg env"
  "apply_2pc_msg (part_vtable env) = part_apply_msg env"
  "merge_intermediate_participants (part_vtable env) = part_merge"
  "reply_to_scheduler_for_sub2pc (part_vtable env) = part_reply env"
  by (simp_all add: part_vtable_def)

text \<open>
  The handlers. They run under the lock of the context: each caches the message, calls the
  committer, and drops the message. \<open>with_participant\<close> is the part the response handlers share;
  its flag tells whether a sender that is not a participant is tolerated when there are no
  participants at all.
\<close>

definition drop_msg :: "ob_ret \<times> ObPartTransCtx \<Rightarrow> ob_ret \<times> ObPartTransCtx" where
  "drop_msg r = (fst r, (snd r)\<lparr>msg_2pc_cache := None\<rparr>)"

definition handle_req_msg :: "tx_env \<Rightarrow> ObTxMsg \<Rightarrow> ObPartTransCtx \<Rightarrow> ob_ret \<times> ObPartTransCtx" where
  "handle_req_msg env msg c =
     drop_msg (handle_2pc_req (part_vtable env) (tx_msg_type msg) (c\<lparr>msg_2pc_cache := Some msg\<rparr>))"

definition with_participant ::
    "bool \<Rightarrow> ObTxMsg \<Rightarrow> (int \<Rightarrow> ObPartTransCtx \<Rightarrow> ob_ret \<times> ObPartTransCtx) \<Rightarrow> ObPartTransCtx
     \<Rightarrow> ob_ret \<times> ObPartTransCtx" where
  "with_participant tolerant msg k c =
     (case find_participant_id (msg_sender msg) c of (ret, participant_id) \<Rightarrow>
        if ret \<noteq> OB_SUCCESS
        then (if tolerant \<and> participants (exec_info c) = [] then OB_SUCCESS else ret, c)
        else k participant_id c)"

definition handle_resp_msg ::
    "tx_env \<Rightarrow> bool \<Rightarrow> ObTxMsg \<Rightarrow> ObPartTransCtx \<Rightarrow> ob_ret \<times> ObPartTransCtx" where
  "handle_resp_msg env tolerant msg c =
     drop_msg (with_participant tolerant msg
       (handle_2pc_resp (part_vtable env) (tx_msg_type msg)) (c\<lparr>msg_2pc_cache := Some msg\<rparr>))"

definition handle_tx_2pc_prepare_req :: "tx_env \<Rightarrow> ObTxMsg \<Rightarrow> ObPartTransCtx \<Rightarrow> ob_ret \<times> ObPartTransCtx" where
  "handle_tx_2pc_prepare_req env msg c =
     handle_req_msg env msg (c\<lparr>exec_info := (exec_info c)\<lparr>is_sp_trans := False\<rparr>\<rparr>)"

definition handle_tx_2pc_prepare_resp :: "tx_env \<Rightarrow> ObTxMsg \<Rightarrow> ObPartTransCtx \<Rightarrow> ob_ret \<times> ObPartTransCtx" where
  "handle_tx_2pc_prepare_resp env msg c = handle_resp_msg env True msg c"

definition handle_tx_2pc_prepare_redo_req :: "tx_env \<Rightarrow> ObTxMsg \<Rightarrow> ObPartTransCtx \<Rightarrow> ob_ret \<times> ObPartTransCtx" where
  "handle_tx_2pc_prepare_redo_req env msg c =
     (if part_logging c then ok c
      else let c1 = c\<lparr>exec_info := (exec_info c)\<lparr>sub2pc_flag := True\<rparr>, msg_2pc_cache := Some msg\<rparr> in
        drop_msg (if force_abort c1
                  then or_else (compensate_abort_log env c1) (\<lambda>c. (OB_TRANS_KILLED, c))
                  else handle_2pc_req (part_vtable env) (tx_msg_type msg) c1))"

text \<open>The prepare redo response is the one message that is not cached.\<close>

definition handle_tx_2pc_prepare_redo_resp :: "tx_env \<Rightarrow> ObTxMsg \<Rightarrow> ObPartTransCtx \<Rightarrow> ob_ret \<times> ObPartTransCtx" where
  "handle_tx_2pc_prepare_redo_resp env msg c =
     with_participant True msg (handle_2pc_resp (part_vtable env) (tx_msg_type msg)) c"

definition handle_tx_2pc_prepare_version_req :: "tx_env \<Rightarrow> ObTxMsg \<Rightarrow> ObPartTransCtx \<Rightarrow> ob_ret \<times> ObPartTransCtx" where
  "handle_tx_2pc_prepare_version_req env msg c = handle_req_msg env msg c"

definition handle_tx_2pc_prepare_version_resp :: "tx_env \<Rightarrow> ObTxMsg \<Rightarrow> ObPartTransCtx \<Rightarrow> ob_ret \<times> ObPartTransCtx" where
  "handle_tx_2pc_prepare_version_resp env msg c =
     handle_resp_msg env False msg
       (merge_prepare_log_info (msg_prepare_info_array msg)
          (update_2pc_prepare_version (msg_prepare_version msg) c))"

definition handle_tx_2pc_pre_commit_req :: "tx_env \<Rightarrow> ObTxMsg \<Rightarrow> ObPartTransCtx \<Rightarrow> ob_ret \<times> ObPartTransCtx" where
  "handle_tx_2pc_pre_commit_req env msg c = handle_req_msg env msg c"

definition handle_tx_2pc_pre_commit_resp :: "tx_env \<Rightarrow> ObTxMsg \<Rightarrow> ObPartTransCtx \<Rightarrow> ob_ret \<times> ObPartTransCtx" where
  "handle_tx_2pc_pre_commit_resp env msg c = handle_resp_msg env False msg c"

definition handle_tx_2pc_commit_req :: "tx_env \<Rightarrow> ObTxMsg \<Rightarrow> ObPartTransCtx \<Rightarrow> ob_ret \<times> ObPartTransCtx" where
  "handle_tx_2pc_commit_req env msg c = handle_req_msg env msg c"

definition handle_tx_2pc_commit_resp :: "tx_env \<Rightarrow> ObTxMsg \<Rightarrow> ObPartTransCtx \<Rightarrow> ob_ret \<times> ObPartTransCtx" where
  "handle_tx_2pc_commit_resp env msg c = handle_resp_msg env False msg c"

definition handle_tx_2pc_abort_req :: "tx_env \<Rightarrow> ObTxMsg \<Rightarrow> ObPartTransCtx \<Rightarrow> ob_ret \<times> ObPartTransCtx" where
  "handle_tx_2pc_abort_req env msg c = handle_req_msg env msg c"

definition handle_tx_2pc_abort_resp :: "tx_env \<Rightarrow> ObTxMsg \<Rightarrow> ObPartTransCtx \<Rightarrow> ob_ret \<times> ObPartTransCtx" where
  "handle_tx_2pc_abort_resp env msg c = handle_resp_msg env True msg c"

definition handle_tx_2pc_clear_req :: "tx_env \<Rightarrow> ObTxMsg \<Rightarrow> ObPartTransCtx \<Rightarrow> ob_ret \<times> ObPartTransCtx" where
  "handle_tx_2pc_clear_req env msg c =
     (if is_exiting c then (OB_TRANS_CTX_NOT_EXIST, c\<lparr>msg_2pc_cache := None\<rparr>)
      else handle_req_msg env msg c)"

definition handle_tx_2pc_clear_resp :: "tx_env \<Rightarrow> ObTxMsg \<Rightarrow> ObPartTransCtx \<Rightarrow> ob_ret \<times> ObPartTransCtx" where
  "handle_tx_2pc_clear_resp env msg c = handle_resp_msg env False msg c"

text \<open>The reply to a message for a transaction that has no context on this node. The change number of
  a clear request comes from the transaction service, or from the timestamp service when the log
  stream is gone. The second component is the message that was posted.\<close>

definition post_orphan_msg ::
    "tx_env \<Rightarrow> ObTwoPhaseCommitMsgType \<Rightarrow> ObTxMsg \<Rightarrow> bool \<Rightarrow> ob_ret \<times> ObTxMsg option" where
  "post_orphan_msg env msg_type recv_msg ls_deleted =
     (let msg = \<lparr>tx_msg_type = msg_type, is_version_msg = False, msg_sender = msg_receiver recv_msg,
            msg_receiver = msg_sender recv_msg, msg_upstream = INVALID_LS_ID, msg_epoch = - 1,
            msg_transfer_epoch = - 1, msg_prepare_version = scn_reset, msg_commit_version = scn_reset,
            msg_commit_log_scn = scn_reset, msg_max_commit_log_scn = scn_reset,
            msg_prepare_info_array = []\<rparr>;
          post = (\<lambda>m. (orphan_post env m, if orphan_post env m = OB_SUCCESS then Some m else None)) in
      case msg_type of
        OB_MSG_TX_ABORT_REQ \<Rightarrow> post msg
      | OB_MSG_TX_ABORT_RESP \<Rightarrow> post msg
      | OB_MSG_TX_CLEAR_REQ \<Rightarrow>
          (case clear_req_scn env ls_deleted (msg_sender msg) of (ret, v) \<Rightarrow>
             if ret \<noteq> OB_SUCCESS then (ret, None) else post (msg\<lparr>msg_max_commit_log_scn := v\<rparr>))
      | OB_MSG_TX_CLEAR_RESP \<Rightarrow> post msg
      | _ \<Rightarrow> (OB_INVALID_ARGUMENT, None))"

definition handle_tx_orphan_2pc_msg :: "tx_env \<Rightarrow> ObTxMsg \<Rightarrow> bool \<Rightarrow> ob_ret \<times> ObTxMsg option" where
  "handle_tx_orphan_2pc_msg env msg ls_deleted =
     (case (if is_2pc_request_msg (tx_msg_type msg)
            then handle_orphan_2pc_req (tx_msg_type msg) OB_MSG_TX_UNKNOWN True
            else if is_2pc_response_msg (tx_msg_type msg)
            then handle_orphan_2pc_resp (tx_msg_type msg) OB_MSG_TX_UNKNOWN True
            else (OB_ERR_UNEXPECTED, OB_MSG_TX_UNKNOWN, True)) of
       (ret, send_msg_type, need_ack) \<Rightarrow>
         if ret \<noteq> OB_SUCCESS then (ret, None)
         else if need_ack then post_orphan_msg env send_msg_type msg ls_deleted
         else (OB_SUCCESS, None))"

definition handle_orphan_2pc_msg :: "tx_env \<Rightarrow> ObTxMsg \<Rightarrow> bool \<Rightarrow> bool \<Rightarrow> ob_ret \<times> ObTxMsg option" where
  "handle_orphan_2pc_msg env msg need_check_leader ls_deleted =
     (let ret = (if need_check_leader then
                   (case check_ls_status env (msg_receiver msg) of (ret, leader) \<Rightarrow>
                      if ret \<noteq> OB_SUCCESS then (if OB_LS_NOT_EXIST = ret then OB_SUCCESS else ret)
                      else if \<not> leader then OB_NOT_MASTER else OB_SUCCESS)
                 else OB_SUCCESS)
      in if ret = OB_SUCCESS then handle_tx_orphan_2pc_msg env msg ls_deleted else (ret, None))"

subsection \<open>The dispatcher of the service\<close>

definition is_exec_complete_without_lock :: "int \<Rightarrow> int \<Rightarrow> int \<Rightarrow> ObPartTransCtx \<Rightarrow> bool" where
  "is_exec_complete_without_lock ls epoch t_epoch c =
     (if epoch > 0 \<and> epoch \<noteq> ctx_epoch c then False
      else if t_epoch > 0
      then \<exists>p\<in>set (transfer_parts (exec_info c)). ls = part_ls_id p \<and> t_epoch = transfer_epoch p
      else True)"

definition is_exec_complete :: "int \<Rightarrow> int \<Rightarrow> int \<Rightarrow> ObPartTransCtx \<Rightarrow> bool" where
  "is_exec_complete ls epoch t_epoch c =
     (if t_epoch \<le> 0 then \<not> (epoch > 0 \<and> epoch \<noteq> ctx_epoch c)
      else is_exec_complete_without_lock ls epoch t_epoch c)"

definition call_msg_handler :: "tx_env \<Rightarrow> ObTxMsg \<Rightarrow> ObPartTransCtx \<Rightarrow> ob_ret \<times> ObPartTransCtx" where
  "call_msg_handler env msg c =
     (case tx_msg_type msg of
        OB_MSG_TX_PREPARE_REDO_REQ \<Rightarrow> handle_tx_2pc_prepare_redo_req env msg c
      | OB_MSG_TX_PREPARE_REDO_RESP \<Rightarrow> handle_tx_2pc_prepare_redo_resp env msg c
      | OB_MSG_TX_PREPARE_REQ \<Rightarrow>
          if is_version_msg msg then handle_tx_2pc_prepare_version_req env msg c
          else handle_tx_2pc_prepare_req env msg c
      | OB_MSG_TX_PREPARE_RESP \<Rightarrow>
          if is_version_msg msg then handle_tx_2pc_prepare_version_resp env msg c
          else handle_tx_2pc_prepare_resp env msg c
      | OB_MSG_TX_PRE_COMMIT_REQ \<Rightarrow> handle_tx_2pc_pre_commit_req env msg c
      | OB_MSG_TX_PRE_COMMIT_RESP \<Rightarrow> handle_tx_2pc_pre_commit_resp env msg c
      | OB_MSG_TX_COMMIT_REQ \<Rightarrow> handle_tx_2pc_commit_req env msg c
      | OB_MSG_TX_COMMIT_RESP \<Rightarrow> handle_tx_2pc_commit_resp env msg c
      | OB_MSG_TX_ABORT_REQ \<Rightarrow> handle_tx_2pc_abort_req env msg c
      | OB_MSG_TX_ABORT_RESP \<Rightarrow> handle_tx_2pc_abort_resp env msg c
      | OB_MSG_TX_CLEAR_REQ \<Rightarrow> handle_tx_2pc_clear_req env msg c
      | OB_MSG_TX_CLEAR_RESP \<Rightarrow> handle_tx_2pc_clear_resp env msg c
      | _ \<Rightarrow> (OB_NOT_SUPPORTED, c))"

text \<open>When a message is valid, as far as its fields are modelled (the identifiers of cluster, tenant and
  transaction, and the XA identifier of a prepare redo request, are not).\<close>

definition tx_msg_is_valid :: "tx_env \<Rightarrow> ObTxMsg \<Rightarrow> bool" where
  "tx_msg_is_valid env msg \<longleftrightarrow>
     ls_id_is_valid (msg_sender msg) \<and> ls_id_is_valid (msg_receiver msg) \<and>
     (case tx_msg_type msg of
        OB_MSG_TX_PREPARE_REQ \<Rightarrow> is_version_msg msg \<or> ls_id_is_valid (msg_upstream msg)
      | OB_MSG_TX_PREPARE_RESP \<Rightarrow>
          scn_is_valid (msg_prepare_version msg) \<and> msg_prepare_info_array msg \<noteq> []
      | OB_MSG_TX_COMMIT_REQ \<Rightarrow> scn_is_valid (msg_commit_version msg) \<and> msg_prepare_info_array msg \<noteq> []
      | OB_MSG_TX_COMMIT_RESP \<Rightarrow>
          scn_is_valid (msg_commit_version msg)
          \<and> (min_cluster_version_4_1 env \<longrightarrow> scn_is_valid (msg_commit_log_scn msg))
      | OB_MSG_TX_CLEAR_REQ \<Rightarrow> min_cluster_version_4_1 env \<longrightarrow> scn_is_valid (msg_max_commit_log_scn msg)
      | OB_MSG_TX_PREPARE_REDO_REQ \<Rightarrow> ls_id_is_valid (msg_upstream msg)
      | OB_MSG_TX_UNKNOWN \<Rightarrow> False
      | _ \<Rightarrow> True)"

text \<open>
  \<^verbatim>\<open>handle_tx_batch_req\<close> for a message that could be decoded. The context the node
  has of the transaction is an option; the third component is the reply that is sent on behalf
  of a transaction that is not (or no longer, or not completely) there.
\<close>

definition handle_tx_batch_req ::
    "tx_env \<Rightarrow> ObTxMsg \<Rightarrow> ObPartTransCtx option \<Rightarrow> ob_ret \<times> ObPartTransCtx option \<times> ObTxMsg option" where
  "handle_tx_batch_req env msg ctx =
     (if \<not> tx_msg_is_valid env msg then (OB_INVALID_ARGUMENT, ctx, None)
      else case ctx of
        None \<Rightarrow> (OB_TRANS_CTX_NOT_EXIST, None, snd (handle_orphan_2pc_msg env msg True False))
      | Some c \<Rightarrow>
          (case get_role env c of (ret, leader) \<Rightarrow>
             if ret \<noteq> OB_SUCCESS then (ret, Some c, None)
             else if \<not> leader then (OB_NOT_MASTER, Some c, None)
             else if is_exiting c
             then (OB_TRANS_CTX_NOT_EXIST, Some c, snd (handle_orphan_2pc_msg env msg False False))
             else if transfer_blocking c then (OB_NEED_RETRY, Some c, None)
             else if (tx_msg_type msg = OB_MSG_TX_PREPARE_REDO_REQ
                      \<or> tx_msg_type msg = OB_MSG_TX_PREPARE_REQ \<and> \<not> is_version_msg msg)
                     \<and> \<not> is_exec_complete (msg_sender msg) (msg_epoch msg) (msg_transfer_epoch msg) c
             then (OB_TRANS_CTX_NOT_EXIST, Some c, snd (handle_orphan_2pc_msg env msg False False))
             else (case call_msg_handler env msg c of (ret, c1) \<Rightarrow> (ret, Some c1, None))))"

subsection \<open>Callbacks\<close>

definition part_set_end_log_ts :: "tx_env \<Rightarrow> SCN \<Rightarrow> ObPartTransCtx \<Rightarrow> ob_ret \<times> ObPartTransCtx" where
  "part_set_end_log_ts env log_ts c =
     (if tx_data_writable env c \<noteq> OB_SUCCESS then (tx_data_writable env c, c)
      else (OB_SUCCESS, c\<lparr>end_log_ts := log_ts\<rparr>))"

definition after_local_commit_succ :: "tx_env \<Rightarrow> ObPartTransCtx \<Rightarrow> ob_ret \<times> ObPartTransCtx" where
  "after_local_commit_succ env c =
     (if update_max_commit_version env c \<noteq> OB_SUCCESS then (update_max_commit_version env c, c)
      else ok ((tell_scheduler env (TX_COMMIT_RESP OB_SUCCESS) c)\<lparr>is_exiting := True\<rparr>))"

definition on_local_commit_tx :: "tx_env \<Rightarrow> ObPartTransCtx \<Rightarrow> ob_ret \<times> ObPartTransCtx" where
  "on_local_commit_tx env c =
     (if gts_waiting c then (OB_ERR_UNEXPECTED, c)
      else if \<not> scn_is_valid (commit_version c) then (OB_ERR_UNEXPECTED, c)
      else case wait_gts_elapse_commit_version env c of (ret, need_wait, c1) \<Rightarrow>
        if ret \<noteq> OB_SUCCESS then (ret, c1)
        else if tx_end env True c1 \<noteq> OB_SUCCESS then (tx_end env True c1, c1)
        else let c2 = c1\<lparr>tx_committed := True\<rparr> in
          if trans_clear env c2 \<noteq> OB_SUCCESS then (trans_clear env c2, c2)
          else if notify_data_source env c2 \<noteq> OB_SUCCESS then (notify_data_source env c2, c2)
          else let c3 = snd (part_set_downstream COMMIT c2) in
            if need_wait then ok c3 else after_local_commit_succ env c3)"

definition on_local_abort_tx :: "tx_env \<Rightarrow> ObPartTransCtx \<Rightarrow> ob_ret \<times> ObPartTransCtx" where
  "on_local_abort_tx env c =
     (if tx_end env False c \<noteq> OB_SUCCESS then (tx_end env False c, c)
      else if trans_clear env c \<noteq> OB_SUCCESS then (trans_clear env c, c)
      else if notify_data_source env c \<noteq> OB_SUCCESS then (notify_data_source env c, c)
      else let c1 = snd (part_set_downstream ABORT c);
               c2 = (if is_commit_action env c1
                     then tell_scheduler env (TX_COMMIT_RESP OB_TRANS_KILLED) c1 else c1)
           in ok (c2\<lparr>is_exiting := True\<rparr>))"

text \<open>
  The part of \<^verbatim>\<open>on_success_ops_\<close> for a state log: what the callback of the log service does once
  the log reached a majority. \<^const>\<open>None\<close> is \<^verbatim>\<open>ob_abort()\<close>.
\<close>

definition drop_dup_trx :: "tx_env \<Rightarrow> ob_ret \<times> ObPartTransCtx \<Rightarrow> ob_ret \<times> ObPartTransCtx" where
  "drop_dup_trx env r =
     or_else r (\<lambda>c. (if is_dup_tx (exec_info c) then remove_commiting_dup_trx env c else OB_SUCCESS, c))"

definition notify_and_apply ::
    "tx_env \<Rightarrow> ObTwoPhaseCommitLogType \<Rightarrow> ObPartTransCtx \<Rightarrow> (ob_ret \<times> ObPartTransCtx) option" where
  "notify_and_apply env log_type c =
     (if notify_data_source env c \<noteq> OB_SUCCESS then Some (notify_data_source env c, c)
      else apply_log (part_vtable env) log_type c)"

definition on_success_state_log ::
    "tx_env \<Rightarrow> ObTwoPhaseCommitLogType \<Rightarrow> SCN \<Rightarrow> LSN \<Rightarrow> ObPartTransCtx \<Rightarrow> (ob_ret \<times> ObPartTransCtx) option" where
  "on_success_state_log env log_type log_ts lsn c =
     (let c1 = c\<lparr>state_log_submitting := False\<rparr> in
      case log_type of
        OB_LOG_TX_PREPARE \<Rightarrow>
          notify_and_apply env log_type (merge_prepare_log_info [ObLSLogInfo (ls_id c) lsn] c1)
      | OB_LOG_TX_COMMIT \<Rightarrow>
          if retain_for_mds env c1 \<noteq> OB_SUCCESS then Some (retain_for_mds env c1, c1)
          else (case part_set_end_log_ts env log_ts c1 of (ret, c2) \<Rightarrow>
            if ret \<noteq> OB_SUCCESS then Some (ret, c2)
            else map_option (drop_dup_trx env)
              (if is_sp_trans (exec_info c2) then Some (on_local_commit_tx env c2)
               else notify_and_apply env log_type c2))
      | OB_LOG_TX_ABORT \<Rightarrow>
          if retain_for_mds env c1 \<noteq> OB_SUCCESS then Some (retain_for_mds env c1, c1)
          else (case part_set_end_log_ts env log_ts c1 of (ret, c2) \<Rightarrow>
            if ret \<noteq> OB_SUCCESS then Some (ret, c2)
            else map_option (drop_dup_trx env)
              (if is_sp_trans (exec_info c2) \<or> force_abort c2 then Some (on_local_abort_tx env c2)
               else notify_and_apply env log_type c2))
      | OB_LOG_TX_CLEAR \<Rightarrow> apply_log (part_vtable env) log_type c1
      | _ \<Rightarrow> Some (OB_ERR_UNEXPECTED, c1))"

text \<open>
  \<^verbatim>\<open>gts_elapse_callback\<close>: the timestamp service has passed the commit version. A code other than
  \<open>OB_EAGAIN\<close> at the end ends the waiting in any case. The code of the function itself is that of
  giving the reference back, once it has been given back.
\<close>

definition gts_elapse_callback ::
    "tx_env \<Rightarrow> SCN \<Rightarrow> ObPartTransCtx \<Rightarrow> ob_ret \<times> ObPartTransCtx" where
  "gts_elapse_callback env gts c =
     (let stop_waiting = (\<lambda>(ret, c). (ret, if ret \<noteq> OB_SUCCESS \<and> ret \<noteq> OB_EAGAIN
                                          then c\<lparr>gts_waiting := False\<rparr> else c)) in
      stop_waiting
        (if \<not> scn_is_valid gts then (OB_INVALID_ARGUMENT, c)
         else if is_exiting c then (OB_TRANS_IS_EXITING, c)
         else if scn_gt (commit_version c) gts then (OB_EAGAIN, c)
         else let c1 = c\<lparr>gts_waiting := False\<rparr>;
                  c2 = (if is_sp_trans (exec_info c1) \<and> is_dup_tx (exec_info c1)
                        then c1\<lparr>exec_info := (exec_info c1)\<lparr>is_sp_trans := False\<rparr>\<rparr> else c1)
           in if is_sp_trans (exec_info c2) then after_local_commit_succ env c2
           else if part_role c2 \<noteq> ROOT then (OB_ERR_UNEXPECTED, c2)
           else if is_follower env c2 then ok c2
           else or_else (try_enter_pre_commit_state (part_vtable env) c2)
             (\<lambda>c. if sub2pc_flag (exec_info c) then part_reply env SUBCOMMIT_RESP c else ok c)))"

end
