(* ===== verification/Committer_Safety.thy ===== *)
theory Committer_Safety
  imports Two_Phase_Committer
begin

text \<open>
  A durable state and the in-memory target it may have: the target is the durable state
  itself or one of the states a log (or, for pre-commit, a message) can make durable next.
\<close>

definition legal :: "ObTxState \<Rightarrow> ObTxState \<Rightarrow> bool" where
  "legal d u \<longleftrightarrow> (u = d \<and> d \<noteq> STATE_UNKNOWN \<and> d \<noteq> STATE_MAX)
     \<or> (d = INIT \<and> u \<in> {REDO_COMPLETE, PREPARE, ABORT})
     \<or> (d = REDO_COMPLETE \<and> u \<in> {PREPARE, ABORT})
     \<or> (d = PREPARE \<and> u \<in> {PRE_COMMIT, COMMIT, ABORT})
     \<or> (d = PRE_COMMIT \<and> u = COMMIT)
     \<or> (d \<in> {COMMIT, ABORT} \<and> u = CLEAR)"

definition states_legal :: "'c vtable \<Rightarrow> 'c \<Rightarrow> bool" where
  "states_legal V c \<longleftrightarrow> legal (get_downstream_state V c) (get_upstream_state V c)"

text \<open>The moves of the durable state in one call.\<close>

definition durable_move :: "ObTxState \<Rightarrow> ObTxState \<Rightarrow> bool" where
  "durable_move d d' \<longleftrightarrow> d' = d
     \<or> (d \<in> {INIT, REDO_COMPLETE} \<and> d' \<in> {PREPARE, PRE_COMMIT, ABORT})
     \<or> (d = PREPARE \<and> d' \<in> {PRE_COMMIT, COMMIT, ABORT})
     \<or> (d = PRE_COMMIT \<and> d' = COMMIT)
     \<or> (d \<in> {COMMIT, ABORT} \<and> d' = CLEAR)"

text \<open>A decision that is durable stays: only clearing follows it.\<close>

definition decided_kept :: "ObTxState \<Rightarrow> ObTxState \<Rightarrow> bool" where
  "decided_kept d d' \<longleftrightarrow> (d = COMMIT \<longrightarrow> d' \<in> {COMMIT, CLEAR}) \<and> (d = ABORT \<longrightarrow> d' \<in> {ABORT, CLEAR})
     \<and> (d = CLEAR \<longrightarrow> d' = CLEAR)"

lemma decided_kept_refl [simp]: "decided_kept d d" by (simp add: decided_kept_def)

lemma decided_kept_trans: "\<lbrakk>decided_kept d e; decided_kept e f\<rbrakk> \<Longrightarrow> decided_kept d f"
  by (auto simp: decided_kept_def)

definition moves_ok :: "'c vtable \<Rightarrow> 'c \<Rightarrow> 'c \<Rightarrow> bool" where
  "moves_ok V c c' \<longleftrightarrow> states_legal V c'
     \<and> durable_move (get_downstream_state V c) (get_downstream_state V c')"

lemma durable_move_refl [simp]: "durable_move d d" by (simp add: durable_move_def)

lemma legal_abort: "legal d PREPARE \<Longrightarrow> legal d ABORT"
  by (auto simp: legal_def)

lemma durable_move_kept: "durable_move d d' \<Longrightarrow> decided_kept d d'"
  by (auto simp: durable_move_def decided_kept_def)

context committer_contract
begin

lemmas view_defs = same_states_def same_peers_def same_view_def

lemmas cell_simps [simp] =
  downstream_cell(2-4,6) downstream_cell(5)[unfolded same_peers_def]
  upstream_cell(2-4,6) upstream_cell(5)[unfolded same_peers_def]
  collected_cell(1,2,4) collected_cell(3)[unfolded same_peers_def]

lemmas call_simps [simp] =
  quiet_calls[unfolded view_defs] commit_call[unfolded view_defs] pre_commit_call[unfolded view_defs]
  prepare_call(1,2) prepare_call(3)[unfolded view_defs]
  log_call(1,2) log_call(3)[unfolded view_defs]
  msg_call(1)[unfolded view_defs] msg_call(2,3,4)
  merge_call(1)[unfolded view_defs] merge_call(2,3)

lemma reset_simps [simp]:
  "get_upstream_state V (collected_reset c) = get_upstream_state V c"
  "get_downstream_state V (collected_reset c) = get_downstream_state V c"
  "get_2pc_role V (collected_reset c) = get_2pc_role V c"
  "get_downstream_size V (collected_reset c) = get_downstream_size V c"
  "is_sub2pc V (collected_reset c) = is_sub2pc V c"
  "is_2pc_logging V (collected_reset c) = is_2pc_logging V c"
  "collected (collected_reset c) = {}"
  by (simp_all add: collected_reset_def)

lemma fst_set_downstream_state [simp]: "fst (set_downstream_state V s c) = OB_SUCCESS"
  by (subst downstream_cell(1)) simp

lemma self_id_view:
  assumes "get_self_id V c = (me, c1)"
  shows "get_upstream_state V c1 = get_upstream_state V c"
    "get_downstream_state V c1 = get_downstream_state V c" "collected c1 = collected c"
    "get_2pc_role V c1 = get_2pc_role V c" "get_downstream_size V c1 = get_downstream_size V c"
    "is_2pc_logging V c1 = is_2pc_logging V c" "is_sub2pc V c1 = is_sub2pc V c"
  using quiet_calls(1)[of c] assms by (simp_all add: view_defs)

lemma post_downstream_view: "same_view V c (snd (post_downstream_msg V m c))"
proof -
  have "same_view V c (snd (foldl (\<lambda>(tmp_ret, c) i. case get_self_id V c of (me, c1) \<Rightarrow>
              if i \<noteq> me then post_msg V m i c1 else (tmp_ret, c1)) (r, c1) ids))"
    if "same_view V c c1" for r c1 ids
    using that
  proof (induction ids arbitrary: r c1)
    case Nil
    then show ?case by simp
  next
    case (Cons i ids)
    obtain me c2 where g: "get_self_id V c1 = (me, c2)" by (cases "get_self_id V c1")
    have "same_view V c (snd (if i \<noteq> me then post_msg V m i c2 else (r, c2)))"
      using Cons.prems self_id_view[OF g] by (simp add: view_defs)
    then show ?case using Cons.IH g by (cases "if i \<noteq> me then post_msg V m i c2 else (r, c2)") simp
  qed
  then show ?thesis unfolding post_downstream_msg_def by (simp add: view_defs)
qed

lemma retransmit_loop_view:
  "same_view V c c1 \<Longrightarrow>
   same_view V c (foldl (\<lambda>c i. if i \<notin> collected c \<and> p \<noteq> i then snd (post_msg V m i c) else c) c1 ids)"
  by (induction ids arbitrary: c1) (simp_all add: view_defs)

lemma retransmit_view:
  "same_view V c (snd (retransmit_downstream_msg V c))"
  "same_view V c (snd (retransmit_downstream_msg_to V p c))"
  "same_view V c (snd (retransmit_upstream_msg V s c))"
proof -
  have "same_view V c c1" if "get_self_id V c = (me, c1)" for me c1
    using self_id_view[OF that] by (simp add: view_defs)
  then show "same_view V c (snd (retransmit_downstream_msg V c))"
    by (auto simp: retransmit_downstream_msg_def flow_simps view_defs[of V c c] split: prod.splits
        intro!: retransmit_loop_view)
  show "same_view V c (snd (retransmit_downstream_msg_to V p c))"
    "same_view V c (snd (retransmit_upstream_msg V s c))"
    by (auto simp: retransmit_downstream_msg_to_def retransmit_upstream_msg_def flow_simps view_defs
        split: prod.splits)
qed

lemmas send_simps [simp] =
  post_downstream_view[unfolded view_defs] retransmit_view[unfolded view_defs]

lemma decide_abort: "decide_2pc_log_type V c = (ret, True, OB_LOG_TX_ABORT) \<Longrightarrow> get_upstream_state V c = ABORT"
  by (auto simp: decide_2pc_log_type_def Let_def split: if_splits ObTxState.splits)

lemma submit_2pc_log_frame [simp]:
  "get_upstream_state V (snd (submit_2pc_log V c)) = get_upstream_state V c"
  "get_downstream_state V (snd (submit_2pc_log V c)) = get_downstream_state V c"
  "collected (snd (submit_2pc_log V c)) = collected c"
  "get_2pc_role V (snd (submit_2pc_log V c)) = get_2pc_role V c"
  "get_downstream_size V (snd (submit_2pc_log V c)) = get_downstream_size V c"
  "is_sub2pc V (snd (submit_2pc_log V c)) = is_sub2pc V c"
proof -
  show "get_upstream_state V (snd (submit_2pc_log V c)) = get_upstream_state V c"
    using log_call(4)[of "snd (snd (decide_2pc_log_type V c))" c] decide_abort[of c]
    by (auto simp: submit_2pc_log_def flow_simps prod_eq_iff split: prod.splits)
qed (auto simp: submit_2pc_log_def flow_simps split: prod.splits)

lemma submit_unless_frame [simp]:
  "get_upstream_state V (snd (submit_unless V b c)) = get_upstream_state V c"
  "get_downstream_state V (snd (submit_unless V b c)) = get_downstream_state V c"
  "collected (snd (submit_unless V b c)) = collected c"
  "get_2pc_role V (snd (submit_unless V b c)) = get_2pc_role V c"
  "get_downstream_size V (snd (submit_unless V b c)) = get_downstream_size V c"
  "is_sub2pc V (snd (submit_unless V b c)) = is_sub2pc V c"
  "fst (submit_unless V b c) = OB_SUCCESS"
  by (simp_all add: submit_unless_def flow_simps)

lemma enter_phase_frame [simp]:
  "get_downstream_state V (snd (snd (enter_phase V s c))) = get_downstream_state V c"
  "collected (snd (snd (enter_phase V s c))) = collected c"
  "get_2pc_role V (snd (snd (enter_phase V s c))) = get_2pc_role V c"
  "get_downstream_size V (snd (snd (enter_phase V s c))) = get_downstream_size V c"
  "is_sub2pc V (snd (snd (enter_phase V s c))) = is_sub2pc V c"
  by (cases s; simp add: enter_phase_def case_prod_beta)+

lemma enter_phase_up:
  "get_upstream_state V (snd (snd (enter_phase V s c))) = get_upstream_state V c
   \<or> fst (enter_phase V s c) \<noteq> OB_SUCCESS \<and> s = PREPARE
     \<and> get_upstream_state V (snd (snd (enter_phase V s c))) = ABORT"
  using prepare_call(4)[of c] by (cases s) (simp_all add: enter_phase_def case_prod_beta)

lemma drive_down [simp]: "get_downstream_state V (snd (drive_self_2pc_phase V s c)) = get_downstream_state V c"
  by (simp add: drive_self_2pc_phase_def flow_simps case_prod_beta)

lemma drive_sub2pc [simp]: "is_sub2pc V (snd (drive_self_2pc_phase V s c)) = is_sub2pc V c"
  by (simp add: drive_self_2pc_phase_def flow_simps case_prod_beta)

lemma drive_ok:
  assumes "fst (drive_self_2pc_phase V s c) = OB_SUCCESS"
  shows "get_upstream_state V (snd (drive_self_2pc_phase V s c)) = s"
    "collected (snd (drive_self_2pc_phase V s c)) = (if s = get_upstream_state V c then collected c else {})"
    "\<not> is_2pc_logging V c"
  using assms by (auto simp: drive_self_2pc_phase_def flow_simps case_prod_beta split: if_splits)

lemma drive_failed:
  assumes "fst (drive_self_2pc_phase V s c) \<noteq> OB_SUCCESS"
  shows "get_upstream_state V (snd (drive_self_2pc_phase V s c)) = get_upstream_state V c
         \<or> s = PREPARE \<and> get_upstream_state V (snd (drive_self_2pc_phase V s c)) = ABORT"
    "collected (snd (drive_self_2pc_phase V s c)) = collected c"
  using assms enter_phase_up[of s c]
  by (auto simp: drive_self_2pc_phase_def flow_simps case_prod_beta split: if_splits)

lemma drive_up:
  "get_upstream_state V (snd (drive_self_2pc_phase V s c)) \<in> {get_upstream_state V c, s}
   \<or> s = PREPARE \<and> get_upstream_state V (snd (drive_self_2pc_phase V s c)) = ABORT"
  using drive_ok(1)[of s c] drive_failed(1)[of s c] by blast

text \<open>Driving to a state that is legal for the durable one keeps the states legal.\<close>

lemma drive_legal:
  assumes "states_legal V c" and "legal (get_downstream_state V c) s"
  shows "states_legal V (snd (drive_self_2pc_phase V s c))"
  using assms drive_up[of s c] legal_abort by (auto simp: states_legal_def)

lemma on_pre_commit_moves:
  assumes "get_downstream_state V c = PREPARE \<or> get_downstream_state V c = PRE_COMMIT"
    and "get_upstream_state V c = PRE_COMMIT"
  shows "get_downstream_state V (snd (on_pre_commit V c)) = PRE_COMMIT"
    "states_legal V (snd (on_pre_commit V c))"
proof -
  let ?c = "snd (set_downstream_state V PRE_COMMIT c)"
  have d: "states_legal V ?c" using assms by (simp add: states_legal_def legal_def)
  have "states_legal V (snd (drive_self_2pc_phase V COMMIT ?c))"
    by (rule drive_legal[OF d]) (simp add: legal_def)
  then show "states_legal V (snd (on_pre_commit V c))"
    using d by (auto simp: on_pre_commit_def flow_simps states_legal_def split: Ob2PCRole.splits)
  show "get_downstream_state V (snd (on_pre_commit V c)) = PRE_COMMIT"
    by (simp add: on_pre_commit_def flow_simps split: Ob2PCRole.splits)
qed

lemma try_enter_moves:
  assumes "states_legal V c" and "get_downstream_state V c = PREPARE"
  shows "states_legal V (snd (try_enter_pre_commit_state V c))"
    "get_downstream_state V (snd (try_enter_pre_commit_state V c)) \<in> {PREPARE, PRE_COMMIT}"
proof -
  let ?d = "drive_self_2pc_phase V PRE_COMMIT c"
  have l: "states_legal V (snd ?d)" using drive_legal[OF assms(1)] assms(2) by (simp add: legal_def)
  show "states_legal V (snd (try_enter_pre_commit_state V c))"
    "get_downstream_state V (snd (try_enter_pre_commit_state V c)) \<in> {PREPARE, PRE_COMMIT}"
    using assms l on_pre_commit_moves[of "snd ?d"] drive_ok(1)[of PRE_COMMIT c]
    by (auto simp: try_enter_pre_commit_state_def case_prod_beta)
qed

lemma collect_frame [simp]:
  "get_upstream_state V (snd (collect_downstream V p c)) = get_upstream_state V c"
  "get_downstream_state V (snd (collect_downstream V p c)) = get_downstream_state V c"
  "get_2pc_role V (snd (collect_downstream V p c)) = get_2pc_role V c"
  "get_downstream_size V (snd (collect_downstream V p c)) = get_downstream_size V c"
  "is_sub2pc V (snd (collect_downstream V p c)) = is_sub2pc V c"
  "is_2pc_logging V (snd (collect_downstream V p c)) = is_2pc_logging V c"
  by (auto simp: collect_downstream_def case_prod_beta split: Ob2PCRole.splits)

lemma legal_apply [simp]:
  "states_legal V (snd (apply_2pc_msg V m c)) = states_legal V c"
  "states_legal V (snd (collect_downstream V p c)) = states_legal V c"
  "states_legal V (snd (post_msg V m i c)) = states_legal V c"
  "states_legal V (snd (post_downstream_msg V m c)) = states_legal V c"
  "states_legal V (snd (retransmit_downstream_msg V c)) = states_legal V c"
  "states_legal V (snd (retransmit_downstream_msg_to V p c)) = states_legal V c"
  "states_legal V (snd (retransmit_upstream_msg V s c)) = states_legal V c"
  "states_legal V (snd (reply_to_scheduler_for_sub2pc V r c)) = states_legal V c"
  "states_legal V (snd (submit_2pc_log V c)) = states_legal V c"
  by (simp_all add: states_legal_def)

lemma request_impl_moves:
  assumes "states_legal V c"
  shows "legal (get_downstream_state V c) PREPARE \<Longrightarrow> moves_ok V c (snd (handle_2pc_prepare_request_impl V c))"
    "legal (get_downstream_state V c) COMMIT \<Longrightarrow> moves_ok V c (snd (handle_2pc_commit_request_impl V c))"
    "legal (get_downstream_state V c) ABORT \<Longrightarrow> moves_ok V c (snd (handle_2pc_abort_request_impl V c))"
    "legal (get_downstream_state V c) CLEAR \<Longrightarrow> moves_ok V c (snd (handle_2pc_clear_request_impl V c))"
    "legal (get_downstream_state V c) REDO_COMPLETE \<Longrightarrow> moves_ok V c (snd (handle_2pc_prepare_redo_request_impl V c))"
  using assms
  by (auto simp: handle_2pc_prepare_request_impl_def handle_2pc_commit_request_impl_def
      handle_2pc_abort_request_impl_def handle_2pc_clear_request_impl_def
      handle_2pc_prepare_redo_request_impl_def flow_simps moves_ok_def drive_legal
      split: Ob2PCRole.splits)

lemma request_moves:
  assumes "states_legal V c"
  shows "moves_ok V c (snd (handle_2pc_req V m c))"
proof -
  note defs = handle_2pc_prepare_request_def handle_2pc_pre_commit_request_def
    handle_2pc_pre_commit_request_impl_def handle_2pc_commit_request_def handle_2pc_abort_request_def
    handle_2pc_clear_request_def handle_2pc_prepare_redo_request_def
  have te: "moves_ok V c (snd (try_enter_pre_commit_state V (snd (apply_2pc_msg V n c))))"
    if "get_downstream_state V c = PREPARE" for n
    using try_enter_moves[of "snd (apply_2pc_msg V n c)"] that assms
    by (auto simp: moves_ok_def durable_move_def)
  show ?thesis
    using assms te request_impl_moves[OF assms]
    by (cases m; cases "get_downstream_state V c")
       (simp_all add: handle_2pc_req_def defs flow_simps legal_def moves_ok_def Let_def)
qed

lemma moves_ok_refl: "states_legal V c \<Longrightarrow> moves_ok V c c"
  by (simp add: moves_ok_def)

lemma prepare_response_moves:
  assumes "states_legal V c"
  shows "moves_ok V c (snd (handle_2pc_prepare_response_impl V p c))"
proof -
  let ?c = "snd (collect_downstream V p (snd (apply_2pc_msg V OB_MSG_TX_PREPARE_RESP c)))"
  have "moves_ok V c (snd (try_enter_pre_commit_state V ?c))" if "get_downstream_state V c = PREPARE"
    using try_enter_moves[of ?c] that assms by (auto simp: moves_ok_def durable_move_def)
  then show ?thesis
    using assms by (auto simp: handle_2pc_prepare_response_impl_def Let_def flow_simps moves_ok_def
        split: Ob2PCRole.splits)
qed

lemma ack_response_moves:
  assumes "states_legal V c"
  shows "moves_ok V c (snd (handle_2pc_ack_response_impl V p c))"
proof -
  have drv: "moves_ok V c (snd (drive_self_2pc_phase V CLEAR c1))"
    if "states_legal V c1" "get_downstream_state V c1 = get_downstream_state V c"
      "get_downstream_state V c = COMMIT \<or> get_downstream_state V c = ABORT" for c1
    using drive_legal[OF that(1), of CLEAR] that by (auto simp: moves_ok_def legal_def)
  show ?thesis
    using assms drv by (auto simp: handle_2pc_ack_response_impl_def Let_def flow_simps moves_ok_def
        split: Ob2PCRole.splits)
qed

lemma abort_response_moves:
  assumes "states_legal V c"
  shows "moves_ok V c (snd (handle_2pc_abort_response_impl V p c))"
proof -
  have drv: "states_legal V (snd (drive_self_2pc_phase V ABORT (snd (apply_2pc_msg V m c))))"
    if "get_downstream_state V c \<in> {INIT, REDO_COMPLETE, PREPARE}" for m
    using drive_legal[of "snd (apply_2pc_msg V m c)" ABORT] that assms by (auto simp: legal_def)
  show ?thesis
    using assms drv by (auto simp: handle_2pc_abort_response_impl_def Let_def flow_simps moves_ok_def
        split: Ob2PCRole.splits)
qed

lemma pre_commit_response_moves:
  assumes "states_legal V c" and "get_upstream_state V c = PRE_COMMIT"
  shows "moves_ok V c (snd (handle_2pc_pre_commit_response_impl V p c))"
proof -
  let ?c = "snd (collect_downstream V p (snd (apply_2pc_msg V OB_MSG_TX_PRE_COMMIT_RESP c)))"
  have "legal (get_downstream_state V c) COMMIT"
    using assms by (auto simp: states_legal_def legal_def)
  then have "states_legal V (snd (drive_self_2pc_phase V COMMIT ?c))"
    using drive_legal[of ?c COMMIT] assms by simp
  then show ?thesis
    using assms by (auto simp: handle_2pc_pre_commit_response_impl_def Let_def flow_simps moves_ok_def
        split: Ob2PCRole.splits)
qed

lemma redo_response_moves:
  assumes "states_legal V c"
  shows "moves_ok V c (snd (handle_2pc_prepare_redo_response_impl V p c))"
  using assms by (auto simp: handle_2pc_prepare_redo_response_impl_def Let_def flow_simps moves_ok_def)

lemma response_moves:
  assumes "states_legal V c"
  shows "moves_ok V c (snd (handle_2pc_resp V m p c))"
proof -
  note defs = handle_2pc_prepare_response_def handle_2pc_commit_response_def handle_2pc_abort_response_def
    handle_2pc_pre_commit_response_def handle_2pc_clear_response_def handle_2pc_prepare_redo_response_def
  let ?r = "collected_reset (snd (set_upstream_state V REDO_COMPLETE c))"
  have redo: "moves_ok V c (snd (handle_2pc_prepare_redo_response_impl V p ?r))"
    if "get_upstream_state V c = INIT"
    using redo_response_moves[of ?r p] that assms by (auto simp: states_legal_def moves_ok_def legal_def)
  have drv: "moves_ok V c (snd (drive_self_2pc_phase V PREPARE c))" if "get_upstream_state V c = REDO_COMPLETE"
    using drive_legal[OF assms, of PREPARE] that assms by (auto simp: states_legal_def moves_ok_def legal_def)
  show ?thesis
    using assms redo drv prepare_response_moves[OF assms, of p] ack_response_moves[OF assms, of p]
      abort_response_moves[OF assms, of p] pre_commit_response_moves[OF assms, of p]
      redo_response_moves[OF assms, of p]
    by (cases m; cases "get_upstream_state V c")
       (simp_all add: handle_2pc_resp_def defs flow_simps moves_ok_refl moves_ok_def[of V c "snd (retransmit_downstream_msg_to V p c)"])
qed

lemma start_moves:
  assumes "states_legal V c"
  shows "moves_ok V c (snd (two_phase_commit V c))" "moves_ok V c (snd (two_phase_abort V c))"
    "moves_ok V c (snd (prepare_redo V c))" "moves_ok V c (snd (continue_execution V b c))"
proof -
  have "legal (get_downstream_state V c) PREPARE" if "\<not> PREPARE \<le> get_upstream_state V c"
    using that assms by (cases "get_upstream_state V c") (auto simp: states_legal_def legal_def tx_state_order)
  then show "moves_ok V c (snd (two_phase_commit V c))"
    using assms by (auto simp: two_phase_commit_def flow_simps moves_ok_def drive_legal)
  show "moves_ok V c (snd (two_phase_abort V c))"
    using assms drive_legal[OF assms, of ABORT]
    by (auto simp: two_phase_abort_def flow_simps moves_ok_def legal_def)
  have "legal (get_downstream_state V c) REDO_COMPLETE" if "get_upstream_state V c = INIT"
    using that assms by (auto simp: states_legal_def legal_def)
  then show "moves_ok V c (snd (prepare_redo V c))"
    using assms log_call(4)[of OB_LOG_TX_COMMIT_INFO]
    by (auto simp: prepare_redo_def flow_simps moves_ok_def states_legal_def)
  have "legal (get_downstream_state V c) PREPARE \<and> legal (get_downstream_state V c) ABORT"
    if "\<not> REDO_COMPLETE < get_upstream_state V c" "\<not> REDO_COMPLETE < get_downstream_state V c"
    using that assms
    by (cases "get_downstream_state V c"; cases "get_upstream_state V c")
       (auto simp: states_legal_def legal_def tx_state_order)
  then show "moves_ok V c (snd (continue_execution V b c))"
    using assms by (auto simp: continue_execution_def flow_simps moves_ok_def drive_legal)
qed

lemma single_participant_moves:
  assumes "states_legal V c"
  shows "moves_ok V c (drive_single_participant V c)"
proof -
  let ?n = "decide_next_state (get_downstream_state V c)"
  define c1 where "c1 = (if get_upstream_state V c = get_downstream_state V c
       \<and> CLEAR > get_downstream_state V c \<and> PREPARE \<le> get_downstream_state V c
     then snd (drive_self_2pc_phase V ?n c) else c)"
  have "legal (get_downstream_state V c) ?n"
    if "CLEAR > get_downstream_state V c" "PREPARE \<le> get_downstream_state V c"
    using that by (cases "get_downstream_state V c") (auto simp: legal_def tx_state_order decide_next_state_def)
  then have l: "states_legal V c1" "get_downstream_state V c1 = get_downstream_state V c"
    using assms drive_legal by (auto simp: c1_def)
  then show ?thesis
    using assms on_pre_commit_moves[of c1]
    by (auto simp: drive_single_participant_def moves_ok_def durable_move_def simp flip: c1_def)
qed

lemma timeout_moves:
  assumes "states_legal V c"
  shows "moves_ok V c (snd (handle_timeout V c))"
proof -
  define c1 where "c1 = snd (submit_2pc_log V c)"
  define c2 where "c2 = (if is_root V c1 \<or> is_internal V c1 then snd (retransmit_downstream_msg V c1) else c1)"
  define c3 where "c3 = (if is_internal V c2 \<or> is_leaf V c2
                then snd (retransmit_upstream_msg V (get_downstream_state V c2) c2) else c2)"
  have "states_legal V c3" "get_downstream_state V c3 = get_downstream_state V c"
    using assms by (simp_all add: c1_def c2_def c3_def)
  moreover have "snd (handle_timeout V c) = drive_single_participant V c3"
    by (simp only: handle_timeout_def Let_def c1_def c2_def c3_def flow_simps snd_conv)
  ultimately show ?thesis using single_participant_moves[of c3] by (simp add: moves_ok_def)
qed

lemma after_decision_moves:
  assumes "states_legal V c" and "get_downstream_state V c = COMMIT \<or> get_downstream_state V c = ABORT"
  shows "states_legal V (snd (after_decision_log V m c))"
    "get_downstream_state V (snd (after_decision_log V m c)) = get_downstream_state V c"
  using assms drive_legal[OF assms(1), of CLEAR]
  by (auto simp: after_decision_log_def flow_simps case_prod_beta legal_def split: Ob2PCRole.splits)

lemma apply_prepare_moves:
  assumes "states_legal V c"
  shows "moves_ok V c (snd (apply_prepare_log V c))"
proof -
  let ?c = "snd (set_downstream_state V PREPARE (snd (on_prepare V c)))"
  have "states_legal V ?c" "get_downstream_state V ?c = PREPARE" if "get_upstream_state V c = PREPARE"
    using that by (simp_all add: states_legal_def legal_def)
  then show ?thesis
    using assms try_enter_moves[of ?c]
    by (auto simp: apply_prepare_log_def Let_def flow_simps moves_ok_def durable_move_def case_prod_beta
        states_legal_def split: Ob2PCRole.splits)
qed

lemma apply_decision_moves:
  assumes "states_legal V c"
  shows "moves_ok V c (snd (apply_commit_log V c))"
    "get_upstream_state V c = ABORT \<Longrightarrow> moves_ok V c (snd (apply_abort_log V c))"
    "moves_ok V c (snd (apply_clear_log V c))"
    "moves_ok V c (snd (apply_commit_info_log V c))"
proof -
  let ?c = "\<lambda>s. snd (set_downstream_state V s (snd (on_commit V c)))"
  let ?a = "snd (set_downstream_state V ABORT (snd (on_abort V c)))"
  have l: "states_legal V (?c COMMIT)" if "get_upstream_state V c = COMMIT"
    using that by (simp add: states_legal_def legal_def)
  have a: "states_legal V ?a" if "get_upstream_state V c = ABORT"
    using that by (simp add: states_legal_def legal_def)
  show "moves_ok V c (snd (apply_commit_log V c))"
    using assms l after_decision_moves[of "?c COMMIT"]
    by (auto simp: apply_commit_log_def Let_def flow_simps moves_ok_def durable_move_def states_legal_def)
  show "moves_ok V c (snd (apply_abort_log V c))" if "get_upstream_state V c = ABORT"
    using assms a that after_decision_moves[of ?a]
    by (auto simp: apply_abort_log_def Let_def flow_simps moves_ok_def durable_move_def states_legal_def)
  show "moves_ok V c (snd (apply_clear_log V c))"
    using assms
    by (auto simp: apply_clear_log_def Let_def flow_simps moves_ok_def durable_move_def states_legal_def legal_def)
  show "moves_ok V c (snd (apply_commit_info_log V c))"
    using assms by (auto simp: apply_commit_info_log_def Let_def flow_simps moves_ok_def)
qed

lemma apply_moves:
  assumes "states_legal V c" and "l = OB_LOG_TX_ABORT \<Longrightarrow> get_upstream_state V c = ABORT"
    and "apply_log V l c = Some (ret, c')"
  shows "moves_ok V c c'"
  using assms(3) apply_prepare_moves[OF assms(1)] apply_decision_moves[OF assms(1)] assms(2)
  by (cases l) (auto simp: apply_log_def case_prod_beta split: if_splits)

text \<open>A replay either fails and leaves the object alone, or makes both states equal.\<close>

definition replayed :: "'x committer_scheme \<Rightarrow> ob_ret \<times> 'x committer_scheme \<Rightarrow> bool" where
  "replayed c r \<longleftrightarrow> (if fst r = OB_SUCCESS
     then get_upstream_state V (snd r) = get_downstream_state V (snd r)
          \<and> decided_kept (get_downstream_state V c) (get_downstream_state V (snd r)) \<and> states_legal V (snd r)
     else snd r = c)"

lemma replay_to_result:
  "replay_to V t fs c =
     (if get_downstream_state V c = t
      then (OB_SUCCESS, collected_reset (snd (set_upstream_state V t c)))
      else if get_downstream_state V c \<in> set fs
      then (OB_SUCCESS, collected_reset (snd (set_downstream_state V t (snd (set_upstream_state V t c)))))
      else (OB_TRANS_INVALID_STATE, c))"
  by (auto simp: replay_to_def Let_def flow_simps or_else_def case_prod_beta)

lemma replay_to_replayed:
  assumes "\<forall>d\<in>set fs. decided_kept d t" and "t \<noteq> STATE_UNKNOWN" "t \<noteq> STATE_MAX"
  shows "replayed c (replay_to V t fs c)"
  using assms by (auto simp: replayed_def replay_to_result states_legal_def legal_def)

lemma replay_clear_replayed: "replayed c (replay_clear_log V c)"
  by (auto simp: replayed_def replay_clear_log_def Let_def flow_simps states_legal_def legal_def
      decided_kept_def)

lemma replay_log_replayed:
  "\<exists>m. same_states V c m \<and> replayed m (replay_log V l c)"
proof -
  let ?m = "snd (merge_intermediate_participants V c)"
  have "replayed ?m (replay_log V l c)"
  proof (cases "fst (merge_intermediate_participants V c) = OB_SUCCESS")
    case False
    then show ?thesis by (simp add: replay_log_def or_else_def case_prod_beta replayed_def)
  next
    case True
    then show ?thesis
      using replay_clear_replayed[of ?m]
      by (cases l)
         (simp_all add: replay_log_def or_else_def case_prod_beta replay_commit_info_log_def
          replay_prepare_log_def replay_commit_log_def replay_abort_log_def replay_to_replayed decided_kept_def
          replayed_def[of _ "(OB_TRANS_INVALID_STATE, _)"])
  qed
  then show ?thesis using merge_call(1)[of c] by blast
qed

lemma replay_moves:
  assumes "states_legal V c"
  shows "states_legal V (snd (replay_log V l c))"
    "decided_kept (get_downstream_state V c) (get_downstream_state V (snd (replay_log V l c)))"
  using replay_log_replayed[of c l] assms
  by (auto simp: replayed_def view_defs states_legal_def split: if_splits)

lemma recover_moves:
  assumes "states_legal V c"
  shows "moves_ok V c (snd (recover_from_tx_table V c))"
  using assms by (auto simp: recover_from_tx_table_def flow_simps moves_ok_def states_legal_def legal_def)

end

text \<open>Every entry point of the committer as one call. \<^const>\<open>None\<close> is the process that stopped.\<close>

datatype committer_call =
    Start_commit
  | Start_abort
  | Start_prepare_redo
  | Continue bool
  | Request ObTwoPhaseCommitMsgType
  | Response ObTwoPhaseCommitMsgType int
  | Timeout
  | Apply ObTwoPhaseCommitLogType
  | Replay ObTwoPhaseCommitLogType
  | Recover

fun perform ::
    "'x committer_scheme vtable \<Rightarrow> committer_call \<Rightarrow> 'x committer_scheme \<Rightarrow> 'x committer_scheme option" where
  "perform V Start_commit c = Some (snd (two_phase_commit V c))"
| "perform V Start_abort c = Some (snd (two_phase_abort V c))"
| "perform V Start_prepare_redo c = Some (snd (prepare_redo V c))"
| "perform V (Continue is_rollback) c = Some (snd (continue_execution V is_rollback c))"
| "perform V (Request m) c = Some (snd (handle_2pc_req V m c))"
| "perform V (Response m p) c = Some (snd (handle_2pc_resp V m p c))"
| "perform V Timeout c = Some (snd (handle_timeout V c))"
| "perform V (Apply l) c = map_option snd (apply_log V l c)"
| "perform V (Replay l) c = Some (snd (replay_log V l c))"
| "perform V Recover c = Some (snd (recover_from_tx_table V c))"

context committer_contract
begin

lemma perform_moves:
  assumes "states_legal V c" and "call = Apply OB_LOG_TX_ABORT \<Longrightarrow> get_upstream_state V c = ABORT"
    and "perform V call c = Some c'"
  shows "states_legal V c'" and "decided_kept (get_downstream_state V c) (get_downstream_state V c')"
    and "(\<forall>l. call \<noteq> Replay l) \<Longrightarrow> durable_move (get_downstream_state V c) (get_downstream_state V c')"
proof -
  note m = start_moves[OF assms(1)] request_moves[OF assms(1)] response_moves[OF assms(1)]
    timeout_moves[OF assms(1)] recover_moves[OF assms(1)]
  have app: "moves_ok V c c'" if "call = Apply l" for l
    using apply_moves[OF assms(1), of l "fst (the (apply_log V l c))"] assms(2,3) that
    by (cases "apply_log V l c") auto
  have other: "moves_ok V c c'" if "\<forall>l. call \<noteq> Replay l"
    using that m app assms(3) by (cases call) auto
  show "states_legal V c'" "decided_kept (get_downstream_state V c) (get_downstream_state V c')"
    using other replay_moves[OF assms(1)] assms(3) durable_move_kept
    by (cases "\<exists>l. call = Replay l"; force simp: moves_ok_def)+
  show "durable_move (get_downstream_state V c) (get_downstream_state V c')" if "\<forall>l. call \<noteq> Replay l"
    using other that by (simp add: moves_ok_def)
qed

end

subsection \<open>The decision of the root\<close>

text \<open>Enough distinct participants have answered: all but the root itself.\<close>

definition enough :: "'c vtable \<Rightarrow> 'c \<Rightarrow> int set \<Rightarrow> bool" where
  "enough V c X \<longleftrightarrow> (\<exists>C\<subseteq>X. int (card C) = get_downstream_size V c - 1)"

definition decides_only_with :: "'c vtable \<Rightarrow> int set \<Rightarrow> 'c \<Rightarrow> 'c \<Rightarrow> bool" where
  "decides_only_with V X c c' \<longleftrightarrow>
     (get_upstream_state V c' \<in> {PRE_COMMIT, COMMIT} \<and> get_upstream_state V c' \<noteq> get_upstream_state V c
      \<longrightarrow> enough V c X)"

context committer_contract
begin

lemma collect_subset: "collected (snd (collect_downstream V p c)) \<subseteq> insert p (collected c)"
  by (auto simp: collect_downstream_def case_prod_beta split: Ob2PCRole.splits if_splits)

lemma drive_no_decision:
  assumes "s \<notin> {PRE_COMMIT, COMMIT}" and "get_upstream_state V c1 = get_upstream_state V c"
  shows "decides_only_with V X c (snd (drive_self_2pc_phase V s c1))"
  using drive_up[of s c1] assms by (auto simp: decides_only_with_def)

lemma decides_send [simp]:
  "decides_only_with V X c (snd (post_downstream_msg V m c1)) = decides_only_with V X c c1"
  "decides_only_with V X c (snd (post_msg V m i c1)) = decides_only_with V X c c1"
  "decides_only_with V X c (snd (collect_downstream V p c1)) = decides_only_with V X c c1"
  "decides_only_with V X c (snd (reply_to_scheduler_for_sub2pc V r c1)) = decides_only_with V X c c1"
  "decides_only_with V X c (snd (retransmit_downstream_msg V c1)) = decides_only_with V X c c1"
  "decides_only_with V X c (snd (retransmit_downstream_msg_to V p c1)) = decides_only_with V X c c1"
  "decides_only_with V X c (snd (retransmit_upstream_msg V s c1)) = decides_only_with V X c c1"
  "decides_only_with V X c (snd (submit_2pc_log V c1)) = decides_only_with V X c c1"
  by (simp_all add: decides_only_with_def)

lemma response_impl_enough:
  assumes "get_2pc_role V c = ROOT"
    and "all_downstream_collected V (snd (collect_downstream V p (snd (apply_2pc_msg V m c))))"
  shows "enough V c (insert p (collected c))"
  using assms collect_subset[of p "snd (apply_2pc_msg V m c)"]
  by (auto simp: all_downstream_collected_def enough_def)

lemma response_decides:
  assumes root: "get_2pc_role V c = ROOT"
  shows "decides_only_with V (insert p (collected c)) c (snd (handle_2pc_resp V m p c))"
proof -
  let ?D = "decides_only_with V (insert p (collected c)) c"
  note defs = handle_2pc_prepare_response_def handle_2pc_commit_response_def handle_2pc_abort_response_def
    handle_2pc_pre_commit_response_def handle_2pc_clear_response_def handle_2pc_prepare_redo_response_def
  have quiet: "?D c'" if "get_upstream_state V c' = get_upstream_state V c" for c'
    using that by (simp add: decides_only_with_def)
  have prep: "?D (snd (handle_2pc_prepare_response_impl V p c))"
    using root response_impl_enough[OF root, of p OB_MSG_TX_PREPARE_RESP]
    by (auto simp: handle_2pc_prepare_response_impl_def Let_def flow_simps decides_only_with_def
        split: Ob2PCRole.splits)
  have prec: "?D (snd (handle_2pc_pre_commit_response_impl V p c))"
    using root response_impl_enough[OF root, of p OB_MSG_TX_PRE_COMMIT_RESP]
    by (auto simp: handle_2pc_pre_commit_response_impl_def Let_def flow_simps decides_only_with_def
        split: Ob2PCRole.splits)
  have ack: "?D (snd (handle_2pc_ack_response_impl V p c))"
    by (simp add: handle_2pc_ack_response_impl_def Let_def flow_simps quiet drive_no_decision
        split: Ob2PCRole.splits)
  have abrt: "?D (snd (handle_2pc_abort_response_impl V p c))"
    by (simp add: handle_2pc_abort_response_impl_def Let_def flow_simps quiet drive_no_decision
        split: Ob2PCRole.splits)
  have redo: "?D (snd (handle_2pc_prepare_redo_response_impl V p c1))"
    if "?D c1" for c1
    using that by (simp add: handle_2pc_prepare_redo_response_impl_def Let_def flow_simps)
  show ?thesis
    using prep prec ack abrt redo[of c]
      redo[of "collected_reset (snd (set_upstream_state V REDO_COMPLETE c))"]
      drive_no_decision[of PREPARE c c]
    by (cases m; cases "get_upstream_state V c")
       (simp_all add: handle_2pc_resp_def defs flow_simps quiet decides_only_with_def[of V _ c "collected_reset _"])
qed

lemma start_decides:
  "decides_only_with V X c (snd (two_phase_commit V c))"
  "decides_only_with V X c (snd (two_phase_abort V c))"
  "decides_only_with V X c (snd (continue_execution V b c))"
  "decides_only_with V X c (snd (prepare_redo V c))"
proof -
  have [simp]: "decides_only_with V X c c" by (simp add: decides_only_with_def)
  show "decides_only_with V X c (snd (two_phase_commit V c))"
    "decides_only_with V X c (snd (two_phase_abort V c))"
    "decides_only_with V X c (snd (continue_execution V b c))"
    by (simp_all add: two_phase_commit_def two_phase_abort_def continue_execution_def flow_simps
        drive_no_decision)
  show "decides_only_with V X c (snd (prepare_redo V c))"
    using log_call(4)[of OB_LOG_TX_COMMIT_INFO]
    by (auto simp: prepare_redo_def flow_simps decides_only_with_def)
qed

lemma timeout_decides:
  "decides_only_with V X c (snd (handle_timeout V c))"
proof -
  define c1 where "c1 = snd (submit_2pc_log V c)"
  define c2 where "c2 = (if is_root V c1 \<or> is_internal V c1 then snd (retransmit_downstream_msg V c1) else c1)"
  define c3 where "c3 = (if is_internal V c2 \<or> is_leaf V c2
                then snd (retransmit_upstream_msg V (get_downstream_state V c2) c2) else c2)"
  have same: "get_upstream_state V c3 = get_upstream_state V c"
    "get_downstream_size V c3 = get_downstream_size V c"
    by (simp_all add: c1_def c2_def c3_def)
  have one: "enough V c X" if "get_downstream_size V c = 1"
    using that by (auto simp: enough_def intro: exI[of _ "{}"])
  have "snd (handle_timeout V c) = drive_single_participant V c3"
    by (simp only: handle_timeout_def Let_def c1_def c2_def c3_def flow_simps snd_conv)
  then show ?thesis
    using one same by (auto simp: decides_only_with_def drive_single_participant_def Let_def)
qed

lemma apply_decides:
  assumes root: "get_2pc_role V c = ROOT" and a: "apply_log V l c = Some (ret, c')"
  shows "decides_only_with V (collected c) c c'"
proof -
  let ?D = "decides_only_with V (collected c) c"
  have quiet: "?D c1" if "get_upstream_state V c1 = get_upstream_state V c" for c1
    using that by (simp add: decides_only_with_def)
  let ?c = "snd (set_downstream_state V PREPARE (snd (on_prepare V c)))"
  have "all_downstream_collected V ?c \<Longrightarrow> enough V c (collected c)"
    using root by (auto simp: all_downstream_collected_def enough_def)
  then have prep: "?D (snd (apply_prepare_log V c))"
    by (auto simp: apply_prepare_log_def Let_def flow_simps quiet decides_only_with_def case_prod_beta
        root split: Ob2PCRole.splits)
  have after: "?D (snd (after_decision_log V m c1))" if "get_upstream_state V c1 = get_upstream_state V c" for m c1
    using that by (auto simp: after_decision_log_def flow_simps quiet drive_no_decision case_prod_beta
        split: Ob2PCRole.splits)
  have fin: "?D (snd (apply_commit_log V c))" "?D (snd (apply_abort_log V c))" "?D (snd (apply_clear_log V c))"
    "?D (snd (apply_commit_info_log V c))"
    by (simp_all add: apply_commit_log_def apply_abort_log_def apply_clear_log_def apply_commit_info_log_def
        Let_def flow_simps quiet after)
  show ?thesis
    using a prep fin by (cases l) (auto simp: apply_log_def case_prod_beta split: if_splits)
qed

lemma perform_decides:
  assumes root: "get_2pc_role V c = ROOT" and "perform V call c = Some c'"
    and "(\<forall>m. call \<noteq> Request m) \<and> (\<forall>l. call \<noteq> Replay l) \<and> call \<noteq> Recover"
  shows "decides_only_with V (collected c \<union> (case call of Response m p \<Rightarrow> {p} | _ \<Rightarrow> {})) c c'"
proof (cases call)
  case (Response m p)
  then show ?thesis using assms(2) response_decides[OF root, of p m] by auto
next
  case (Apply l)
  then show ?thesis using assms(2) apply_decides[OF root, of l] by (cases "apply_log V l c") auto
qed (use assms(2,3) start_decides[of _ c] timeout_decides[of _ c] in auto)

end

end
