(* ===== verification/Part_Ctx_Safety.thy ===== *)
theory Part_Ctx_Safety
  imports Part_Trans_Ctx Committer_Safety
begin

text \<open>
  \<^verbatim>\<open>ObPartTransCtx\<close> satisfies the contract of the committer whatever the other subsystems return,
  and so inherits the safety of the state machine.
\<close>

subsection \<open>What the operations of the context leave alone\<close>

text \<open>\<open>tx_frame\<close>: the components of the context that the committer reads are the same.\<close>

definition tx_frame :: "ObPartTransCtx \<Rightarrow> ObPartTransCtx \<Rightarrow> bool" where
  "tx_frame c c' \<longleftrightarrow> state (exec_info c') = state (exec_info c) \<and> collected c' = collected c
     \<and> ls_id c' = ls_id c \<and> upstream (exec_info c') = upstream (exec_info c)
     \<and> participants (exec_info c') = participants (exec_info c)
     \<and> sub2pc_flag (exec_info c') = sub2pc_flag (exec_info c)"

lemma tx_frame_refl [simp]: "tx_frame c c" by (simp add: tx_frame_def)

lemma tx_frame_trans [trans]: "\<lbrakk>tx_frame a b; tx_frame b c\<rbrakk> \<Longrightarrow> tx_frame a c"
  by (simp add: tx_frame_def)

lemma tx_frame_role: "tx_frame c c' \<Longrightarrow> part_role c' = part_role c"
  by (simp add: tx_frame_def part_role_def)

lemma tx_frame_size: "tx_frame c c' \<Longrightarrow> part_downstream_size c' = part_downstream_size c"
  by (simp add: tx_frame_def part_downstream_size_def)

definition still :: "ObPartTransCtx \<Rightarrow> ObPartTransCtx \<Rightarrow> bool" where
  "still c c' \<longleftrightarrow> tx_frame c c' \<and> upstream_state c' = upstream_state c \<and> part_logging c' = part_logging c"

lemma still_refl [simp]: "still c c" by (simp add: still_def)

lemma still_trans [trans]: "\<lbrakk>still a b; still b c\<rbrakk> \<Longrightarrow> still a c"
  using tx_frame_trans by (auto simp: still_def)

lemma still_self_id: "still c (snd (part_self_id c))"
  by (simp add: still_def tx_frame_def part_self_id_def part_logging_def Let_def)

lemma still_scheduler:
  "still c (tell_scheduler env msg c)"
  "still c (snd (part_reply env r c))"
  "still c (check_and_response_scheduler env s res c)"
proof -
  show t: "still c (tell_scheduler env msg c)" for msg c
    by (simp add: still_def tx_frame_def tell_scheduler_def part_logging_def)
  then show r: "still c (snd (part_reply env r c))" for r
    by (simp add: part_reply_def ok_def)
  show "still c (check_and_response_scheduler env s res c)"
    using t r by (simp add: check_and_response_scheduler_def) (simp add: still_def tx_frame_def part_logging_def)
qed

lemma still_send: "still c (snd (part_post_msg env m i c))"
proof -
  have r: "still c (snd (rpc_send env msg c))" for msg and c
    by (simp add: still_def tx_frame_def rpc_send_def part_logging_def)
  have coord: "still c (c\<lparr>coord_prepare_info_arr := x\<rparr>)" for x
    by (simp add: still_def tx_frame_def part_logging_def)
  have "still c (snd (post_msg_to env m t c))" for t
    using r coord still_trans[OF coord r]
    by (cases m) (simp_all add: post_msg_to_def Let_def)
  then show ?thesis by (simp add: part_post_msg_def Let_def ok_def split: option.splits)
qed

lemma still_phases:
  "still c (snd (part_do_abort env c))"
  "still c (snd (part_do_clear env c))"
  "still c (snd (part_on_prepare c))"
  "still c (snd (part_on_commit env c))"
  "still c (snd (part_on_abort env c))"
  "still c (snd (part_on_clear c))"
proof -
  have [simp]: "still c (c\<lparr>tx_committed := b\<rparr>)" "still c (c\<lparr>is_exiting := b\<rparr>)" for b
    by (simp_all add: still_def tx_frame_def part_logging_def)
  show "still c (snd (part_do_abort env c))"
    "still c (snd (part_do_clear env c))"
    "still c (snd (part_on_prepare c))"
    "still c (snd (part_on_commit env c))"
    "still c (snd (part_on_abort env c))"
    "still c (snd (part_on_clear c))"
    by (simp_all add: part_do_abort_def part_do_clear_def part_on_prepare_def part_on_commit_def
        part_on_abort_def part_on_clear_def ok_def still_scheduler Let_def)
qed

text \<open>Calls that may mark the context as waiting for a log or a timestamp.\<close>

definition waits :: "ObPartTransCtx \<Rightarrow> ObPartTransCtx \<Rightarrow> bool" where
  "waits c c' \<longleftrightarrow> tx_frame c c' \<and> upstream_state c' = upstream_state c"

lemma waits_refl [simp]: "waits c c" by (simp add: waits_def)

lemma waits_trans [trans]: "\<lbrakk>waits a b; waits b c\<rbrakk> \<Longrightarrow> waits a c"
  using tx_frame_trans by (auto simp: waits_def)

lemma still_waits: "still c c' \<Longrightarrow> waits c c'" by (simp add: still_def waits_def)

lemma waits_versions:
  "waits c (snd (set_commit_version env v c))"
  "waits c (update_2pc_prepare_version v c)"
  "waits c (snd (snd (ask_gts env c)))"
  "waits c (snd (raise_prepare_version env g c))"
  by (simp_all add: waits_def tx_frame_def set_commit_version_def update_2pc_prepare_version_def
      ask_gts_def raise_prepare_version_def Let_def case_prod_beta)

lemma waits_generate: "waits c (snd (generate_prepare_version env c))"
  using waits_trans[OF waits_versions(3) waits_versions(4)] waits_versions
  by (simp add: generate_prepare_version_def case_prod_beta)

lemma waits_commit_version: "waits c (snd (generate_commit_version env c))"
proof -
  have "waits c (a\<lparr>mt_prepared := True\<rparr>)" if "waits c a" for a
    using that by (simp add: waits_def tx_frame_def)
  from waits_trans[OF this[OF waits_versions(3)] waits_versions(1)] show ?thesis
    by (simp add: generate_commit_version_def waits_versions case_prod_beta Let_def)
qed

lemma waits_commit_phases:
  "waits c (snd (part_do_commit env c))"
  "waits c (snd (snd (part_do_pre_commit env c)))"
proof -
  have w: "waits a (snd (snd (wait_gts_elapse_commit_version env a)))" for a
    by (simp add: wait_gts_elapse_commit_version_def waits_def tx_frame_def case_prod_beta)
  show "waits c (snd (snd (part_do_pre_commit env c)))"
    using waits_trans[OF waits_versions(1) w] waits_versions(1)
    by (simp add: part_do_pre_commit_def Let_def case_prod_beta)
  have m: "waits c (c1\<lparr>mt_prepared := True\<rparr>)" if "waits c c1" for c1
    using that by (simp add: waits_def tx_frame_def)
  have k: "waits c (snd (or_else r (\<lambda>c. (f c, c))))" if "waits c (snd r)" for r f
    using that by (simp add: flow_simps)
  have co: "waits c (check_and_response_scheduler env COMMIT OB_SUCCESS (c\<lparr>coord_prepare_info_arr := x\<rparr>))" for x
    by (rule waits_trans[OF _ still_waits[OF still_scheduler(3)]]) (simp add: waits_def tx_frame_def)
  show "waits c (snd (part_do_commit env c))"
    unfolding part_do_commit_def
    using m[OF waits_versions(3)] waits_trans[OF m[OF waits_versions(3)] waits_versions(1)]
    by (intro k) (simp add: case_prod_beta Let_def ok_def co waits_versions)
qed

text \<open>Submitting a log and preparing may also turn the transaction to an abort.\<close>

lemma submit_impl_frame:
  "tx_frame c (snd (submit_log_impl env l c))"
  "upstream_state (snd (submit_log_impl env l c)) = upstream_state c
   \<or> l = OB_LOG_TX_ABORT \<and> upstream_state (snd (submit_log_impl env l c)) = ABORT"
proof -
  have h: "waits a (snd (hand_in_log env l a))" for a l
    by (simp add: hand_in_log_def waits_def tx_frame_def case_prod_beta)
  have p: "waits c (snd (or_else (generate_prepare_version env c) (\<lambda>c.
             if B c then hand_in_log env OB_LOG_TX_PREPARE c else ok c)))" for B
    using waits_trans[OF waits_generate h] waits_generate by (simp add: flow_simps)
  have v: "waits c (snd (or_else (if b then generate_commit_version env c else ok c)
             (\<lambda>c. if B c then hand_in_log env OB_LOG_TX_COMMIT c else ok c)))" for b B
    using waits_trans[OF waits_commit_version h] waits_commit_version h[of c] by (simp add: flow_simps)
  have a: "tx_frame c (snd (hand_in_log env l (c\<lparr>upstream_state := ABORT\<rparr>)))"
    "upstream_state (snd (hand_in_log env l (c\<lparr>upstream_state := ABORT\<rparr>))) = ABORT" for l
    by (simp_all add: hand_in_log_def tx_frame_def case_prod_beta)
  show "tx_frame c (snd (submit_log_impl env l c))"
    "upstream_state (snd (submit_log_impl env l c)) = upstream_state c
     \<or> l = OB_LOG_TX_ABORT \<and> upstream_state (snd (submit_log_impl env l c)) = ABORT"
    using h[of c] p[unfolded waits_def] v[unfolded waits_def] a
    by (cases l; simp add: submit_log_impl_def handle_submit_log_err_def submit_log_by_type_def ok_def waits_def)+
qed

lemma compensate_frame:
  "tx_frame c (snd (compensate_abort_log env c))"
  "upstream_state (snd (compensate_abort_log env c)) \<in> {upstream_state c, ABORT}"
  using submit_impl_frame[where c = "c\<lparr>force_abort := True\<rparr>" and env = env and l = OB_LOG_TX_ABORT]
  by (auto simp: compensate_abort_log_def ok_def tx_frame_def)

lemma do_prepare_frame:
  "tx_frame c (snd (snd (part_do_prepare env c)))"
  "upstream_state (snd (snd (part_do_prepare env c))) = upstream_state c
   \<or> fst (part_do_prepare env c) \<noteq> OB_SUCCESS
     \<and> upstream_state (snd (snd (part_do_prepare env c))) = ABORT"
proof -
  have s: "waits c (c\<lparr>state_log_submitting := b\<rparr>)" for b
    by (simp add: waits_def tx_frame_def)
  have g: "waits c (snd (generate_prepare_version env (c\<lparr>state_log_submitting := b\<rparr>)))" for b
    by (rule waits_trans[OF s waits_generate])
  note w = s[unfolded waits_def] g[unfolded waits_def] waits_generate[where c = c and env = env, unfolded waits_def]
  show "tx_frame c (snd (snd (part_do_prepare env c)))"
    using w compensate_frame(1)[where c = c and env = env]
    by (simp add: part_do_prepare_def Let_def case_prod_beta flow_simps)
  show "upstream_state (snd (snd (part_do_prepare env c))) = upstream_state c
   \<or> fst (part_do_prepare env c) \<noteq> OB_SUCCESS
     \<and> upstream_state (snd (snd (part_do_prepare env c))) = ABORT"
    using w compensate_frame(2)[where c = c and env = env]
    by (auto simp: part_do_prepare_def Let_def case_prod_beta flow_simps)
qed

text \<open>A message may set the upstream, once, and mark an XA transaction.\<close>

definition applied :: "ObPartTransCtx \<Rightarrow> ObPartTransCtx \<Rightarrow> bool" where
  "applied c c' \<longleftrightarrow> state (exec_info c') = state (exec_info c) \<and> collected c' = collected c
     \<and> ls_id c' = ls_id c \<and> participants (exec_info c') = participants (exec_info c)
     \<and> upstream_state c' = upstream_state c \<and> part_logging c' = part_logging c
     \<and> (ls_id_is_valid (upstream (exec_info c)) \<longrightarrow> upstream (exec_info c') = upstream (exec_info c))"

lemma applied_refl [simp]: "applied c c" by (simp add: applied_def)

lemma applied_trans [trans]: "\<lbrakk>applied a b; applied b c\<rbrakk> \<Longrightarrow> applied a c"
  by (simp add: applied_def)

lemma applied_role: "\<lbrakk>applied c c'; part_role c \<noteq> ROLE_UNKNOWN\<rbrakk> \<Longrightarrow> part_role c' = part_role c"
  by (auto simp: applied_def part_role_def split: if_splits)

lemma applied_steps:
  "applied c (set_2pc_upstream ls c)"
  "applied c (update_2pc_prepare_version v c)"
  "applied c (merge_prepare_log_info infos c)"
  "applied c (snd (set_2pc_commit_version env v c))"
  "applied c (c\<lparr>exec_info := (exec_info c)\<lparr>is_sp_trans := b\<rparr>\<rparr>)"
  "applied c (c\<lparr>exec_info := (exec_info c)\<lparr>sub2pc_flag := b\<rparr>\<rparr>)"
  "applied c (c\<lparr>coord_prepare_info_arr := x\<rparr>)"
  "applied c (c\<lparr>max_2pc_commit_scn := v\<rparr>)"
  by (simp_all add: applied_def set_2pc_upstream_def update_2pc_prepare_version_def part_logging_def
      merge_prepare_log_info_def set_2pc_commit_version_def set_commit_version_def)

lemma applied_msg: "applied c (snd (part_apply_msg env m c))"
proof -
  note ss = applied_steps applied_trans[OF applied_steps(1) applied_steps(4)]
    applied_trans[OF applied_steps(1) applied_steps(8)] applied_trans[OF applied_steps(2) applied_steps(3)]
    applied_trans[OF applied_steps(2) applied_steps(4)] applied_trans[OF applied_steps(5) applied_steps(1)]
    applied_trans[OF applied_steps(8) applied_steps(4)]
    applied_trans[OF applied_trans[OF applied_steps(5) applied_steps(1)] applied_steps(6)]
    applied_trans[OF applied_trans[OF applied_steps(1) applied_steps(4)] applied_steps(7)]
  have "applied c (snd (apply_cached_msg env msg c))" for msg
    using ss by (cases "tx_msg_type msg") (simp_all add: apply_cached_msg_def flow_simps Let_def)
  then show ?thesis by (simp add: part_apply_msg_def split: option.splits)
qed

lemma merge_view:
  "same_states (part_vtable env) c (snd (part_merge c))"
  "part_logging (snd (part_merge c)) = part_logging c"
  "sub2pc_flag (exec_info (snd (part_merge c))) = sub2pc_flag (exec_info c)"
  by (simp_all add: part_merge_def Let_def case_prod_beta same_states_def part_logging_def)

lemma still_same_view: "still c c' \<Longrightarrow> same_view (part_vtable env) c c'"
  by (simp add: still_def same_view_def same_states_def same_peers_def tx_frame_role tx_frame_size)
     (simp add: tx_frame_def)

lemma waits_same: "waits c c' \<Longrightarrow> same_states (part_vtable env) c c' \<and> same_peers (part_vtable env) c c'"
  by (simp add: waits_def same_states_def same_peers_def tx_frame_role tx_frame_size)
     (simp add: tx_frame_def)

lemma frame_same_peers: "tx_frame c c' \<Longrightarrow> same_peers (part_vtable env) c c'"
  by (simp add: same_peers_def tx_frame_role tx_frame_size) (simp add: tx_frame_def)

subsection \<open>The contract\<close>

interpretation part_ctx: committer_contract "part_vtable env" for env
proof unfold_locales
  fix c :: ObPartTransCtx and s
  let ?d = "snd (set_downstream_state (part_vtable env) s c)"
  let ?u = "snd (set_upstream_state (part_vtable env) s c)"
  show "same_peers (part_vtable env) c ?d" "same_peers (part_vtable env) c ?u"
    by (simp_all add: part_set_downstream_def part_set_upstream_def same_peers_def
        part_role_def part_downstream_size_def)
  show "set_downstream_state (part_vtable env) s c = (OB_SUCCESS, ?d)"
    "get_downstream_state (part_vtable env) ?d = s"
    "get_upstream_state (part_vtable env) ?d = get_upstream_state (part_vtable env) c"
    "collected ?d = collected c"
    "is_2pc_logging (part_vtable env) ?d = is_2pc_logging (part_vtable env) c"
    "set_upstream_state (part_vtable env) s c = (OB_SUCCESS, ?u)"
    "get_upstream_state (part_vtable env) ?u = s"
    "get_downstream_state (part_vtable env) ?u = get_downstream_state (part_vtable env) c"
    "collected ?u = collected c"
    "is_2pc_logging (part_vtable env) ?u = is_2pc_logging (part_vtable env) c"
    by (simp_all add: part_set_downstream_def part_set_upstream_def part_logging_def)
next
  fix c :: ObPartTransCtx and X
  show "get_upstream_state (part_vtable env) (c\<lparr>collected := X\<rparr>) = get_upstream_state (part_vtable env) c"
    "get_downstream_state (part_vtable env) (c\<lparr>collected := X\<rparr>) = get_downstream_state (part_vtable env) c"
    "same_peers (part_vtable env) c (c\<lparr>collected := X\<rparr>)"
    "is_2pc_logging (part_vtable env) (c\<lparr>collected := X\<rparr>) = is_2pc_logging (part_vtable env) c"
    by (simp_all add: same_peers_def part_role_def part_downstream_size_def part_logging_def)
next
  fix c :: ObPartTransCtx and m i r
  show "same_view (part_vtable env) c (snd (get_self_id (part_vtable env) c))"
    "same_view (part_vtable env) c (snd (post_msg (part_vtable env) m i c))"
    "same_view (part_vtable env) c (snd (reply_to_scheduler_for_sub2pc (part_vtable env) r c))"
    "same_view (part_vtable env) c (snd (do_abort (part_vtable env) c))"
    "same_view (part_vtable env) c (snd (do_clear (part_vtable env) c))"
    "same_view (part_vtable env) c (snd (on_prepare (part_vtable env) c))"
    "same_view (part_vtable env) c (snd (on_commit (part_vtable env) c))"
    "same_view (part_vtable env) c (snd (on_abort (part_vtable env) c))"
    "same_view (part_vtable env) c (snd (on_clear (part_vtable env) c))"
    using still_self_id still_send still_scheduler(2) still_phases
    by (auto intro!: still_same_view)
next
  fix c :: ObPartTransCtx
  show "same_states (part_vtable env) c (snd (do_commit (part_vtable env) c))"
    "same_peers (part_vtable env) c (snd (do_commit (part_vtable env) c))"
    "same_states (part_vtable env) c (snd (snd (do_pre_commit (part_vtable env) c)))"
    "same_peers (part_vtable env) c (snd (snd (do_pre_commit (part_vtable env) c)))"
    using waits_same[OF waits_commit_phases(1)] waits_same[OF waits_commit_phases(2)]
    by (simp_all)
next
  fix c :: ObPartTransCtx and l
  show "get_downstream_state (part_vtable env) (snd (snd (do_prepare (part_vtable env) c)))
          = get_downstream_state (part_vtable env) c"
    "collected (snd (snd (do_prepare (part_vtable env) c))) = collected c"
    "get_downstream_state (part_vtable env) (snd (submit_log (part_vtable env) l c))
       = get_downstream_state (part_vtable env) c"
    "collected (snd (submit_log (part_vtable env) l c)) = collected c"
    using do_prepare_frame(1) submit_impl_frame(1)
    by (simp_all add: tx_frame_def part_submit_log_def ok_def)
  show "same_peers (part_vtable env) c (snd (snd (do_prepare (part_vtable env) c)))"
    "same_peers (part_vtable env) c (snd (submit_log (part_vtable env) l c))"
    using frame_same_peers do_prepare_frame(1) submit_impl_frame(1)
    by (simp_all add: part_submit_log_def ok_def)
  show "get_upstream_state (part_vtable env) (snd (snd (do_prepare (part_vtable env) c)))
          = get_upstream_state (part_vtable env) c
        \<or> fst (do_prepare (part_vtable env) c) \<noteq> OB_SUCCESS
          \<and> get_upstream_state (part_vtable env) (snd (snd (do_prepare (part_vtable env) c))) = ABORT"
    "get_upstream_state (part_vtable env) (snd (submit_log (part_vtable env) l c))
       = get_upstream_state (part_vtable env) c
     \<or> l = OB_LOG_TX_ABORT \<and> get_upstream_state (part_vtable env) (snd (submit_log (part_vtable env) l c)) = ABORT"
    using do_prepare_frame(2) submit_impl_frame(2)
    by (simp_all add: part_submit_log_def ok_def)
next
  fix c :: ObPartTransCtx and m
  show "same_states (part_vtable env) c (snd (apply_2pc_msg (part_vtable env) m c))"
    "get_downstream_size (part_vtable env) (snd (apply_2pc_msg (part_vtable env) m c))
       = get_downstream_size (part_vtable env) c"
    "is_2pc_logging (part_vtable env) (snd (apply_2pc_msg (part_vtable env) m c))
       = is_2pc_logging (part_vtable env) c"
    using applied_msg[where c = c and env = env and m = m]
    by (simp_all add: same_states_def applied_def part_downstream_size_def)
  show "get_2pc_role (part_vtable env) (snd (apply_2pc_msg (part_vtable env) m c))
          = get_2pc_role (part_vtable env) c"
    if "get_2pc_role (part_vtable env) c \<noteq> ROLE_UNKNOWN"
    using applied_role[OF applied_msg] that by (simp)
  show "same_states (part_vtable env) c (snd (merge_intermediate_participants (part_vtable env) c))"
    "is_2pc_logging (part_vtable env) (snd (merge_intermediate_participants (part_vtable env) c))
       = is_2pc_logging (part_vtable env) c"
    "is_sub2pc (part_vtable env) (snd (merge_intermediate_participants (part_vtable env) c))
       = is_sub2pc (part_vtable env) c"
    using merge_view(1)[where c = c and env = env] merge_view(2,3)[where c = c] by (simp_all)
qed

subsection \<open>Events of a context\<close>

text \<open>Everything that happens to a context: a message, the callback of a state log, the callback of
  the timestamp service, and the calls that come from the node itself.\<close>

datatype tx_event =
    Message ObTxMsg
  | Log_success ObTwoPhaseCommitLogType SCN LSN
  | Gts_elapsed SCN
  | Own committer_call

fun tx_call :: "tx_env \<Rightarrow> tx_event \<Rightarrow> ObPartTransCtx \<Rightarrow> ObPartTransCtx option" where
  "tx_call env (Message msg) c = fst (snd (handle_tx_batch_req env msg (Some c)))"
| "tx_call env (Log_success l log_ts lsn) c = map_option snd (on_success_state_log env l log_ts lsn c)"
| "tx_call env (Gts_elapsed gts) c = Some (snd (gts_elapse_callback env gts c))"
| "tx_call env (Own call) c = perform (part_vtable env) call c"

text \<open>
  When an event can happen. The transaction is distributed. The callback of an abort log comes
  after the log was submitted, which made \<open>ABORT\<close> the upstream state. The timestamp service is
  awaited by a prepared root, and while it waits nothing else moves it. A transaction is
  killed, if at all, before it is pre-committed. The other orders are checked by the code.
\<close>

fun tx_expected :: "tx_event \<Rightarrow> ObPartTransCtx \<Rightarrow> bool" where
  "tx_expected (Message msg) c \<longleftrightarrow> (force_abort c \<longrightarrow> state (exec_info c) \<in> {INIT, REDO_COMPLETE, PREPARE, ABORT})"
| "tx_expected (Log_success l log_ts lsn) c \<longleftrightarrow>
     \<not> is_sp_trans (exec_info c) \<and> (l = OB_LOG_TX_ABORT \<longrightarrow> upstream_state c = ABORT)"
| "tx_expected (Gts_elapsed gts) c \<longleftrightarrow> \<not> is_sp_trans (exec_info c) \<and> state (exec_info c) = PREPARE"
| "tx_expected (Own call) c \<longleftrightarrow> (call = Apply OB_LOG_TX_ABORT \<longrightarrow> upstream_state c = ABORT)"

text \<open>One step, with whatever the rest of the system answers; the label is a new durable state.\<close>

definition tx_step :: "ObPartTransCtx \<Rightarrow> ObTxState option \<Rightarrow> ObPartTransCtx \<Rightarrow> bool" where
  "tx_step c e c' \<longleftrightarrow> (\<exists>env ev. tx_expected ev c \<and> tx_call env ev c = Some c')
     \<and> e = (if state (exec_info c') = state (exec_info c) then None else Some (state (exec_info c')))"

definition tx_legal :: "ObPartTransCtx \<Rightarrow> bool" where
  "tx_legal c \<longleftrightarrow> legal (state (exec_info c)) (upstream_state c)"

definition tx_moves :: "ObPartTransCtx \<Rightarrow> ObPartTransCtx \<Rightarrow> bool" where
  "tx_moves c c' \<longleftrightarrow> tx_legal c' \<and> durable_move (state (exec_info c)) (state (exec_info c'))"

lemma tx_legal_vtable: "states_legal (part_vtable env) c = tx_legal c"
  by (simp add: states_legal_def tx_legal_def)

lemma tx_moves_vtable: "moves_ok (part_vtable env) c c' = tx_moves c c'"
  by (simp add: moves_ok_def tx_moves_def tx_legal_vtable)

lemma tx_moves_refl: "tx_legal c \<Longrightarrow> tx_moves c c"
  by (simp add: tx_moves_def)

definition same_phase :: "ObPartTransCtx \<Rightarrow> ObPartTransCtx \<Rightarrow> bool" where
  "same_phase c c' \<longleftrightarrow> state (exec_info c') = state (exec_info c) \<and> upstream_state c' = upstream_state c"

lemma same_phase_legal: "same_phase c c' \<Longrightarrow> tx_legal c' = tx_legal c"
  by (simp add: same_phase_def tx_legal_def)

lemma same_phase_moves:
  "\<lbrakk>same_phase c a; tx_moves a b\<rbrakk> \<Longrightarrow> tx_moves c b"
  "\<lbrakk>tx_moves c a; same_phase a b\<rbrakk> \<Longrightarrow> tx_moves c b"
  by (simp_all add: same_phase_def tx_moves_def tx_legal_def)

lemma same_phase_quiet: "\<lbrakk>same_phase c c'; tx_legal c\<rbrakk> \<Longrightarrow> tx_moves c c'"
  by (rule same_phase_moves(2)[OF tx_moves_refl])

lemma drop_msg_moves: "tx_moves c (snd r) \<Longrightarrow> tx_moves c (snd (drop_msg r))"
  by (rule same_phase_moves(2)) (simp_all add: drop_msg_def same_phase_def)

lemma request_msg_moves:
  assumes "tx_legal c" and "same_phase c a"
  shows "tx_moves c (snd (handle_2pc_req (part_vtable env) m a))"
    and "tx_moves c (snd (handle_req_msg env msg a))"
proof -
  have h: "tx_moves c (snd (handle_2pc_req (part_vtable env) m b))" if "same_phase c b" for b m
    using same_phase_moves(1)[OF that] part_ctx.request_moves[of env b m] assms(1) same_phase_legal[OF that]
    by (simp only: tx_moves_vtable tx_legal_vtable)
  then show "tx_moves c (snd (handle_2pc_req (part_vtable env) m a))" using assms(2) by blast
  have "same_phase c (a\<lparr>msg_2pc_cache := Some msg\<rparr>)" using assms(2) by (simp add: same_phase_def)
  then show "tx_moves c (snd (handle_req_msg env msg a))"
    unfolding handle_req_msg_def by (intro drop_msg_moves h)
qed

lemma with_participant_cases:
  assumes "\<And>p. P (snd (k p b))" and "P b"
  shows "P (snd (with_participant t msg k b))"
  using assms by (simp add: with_participant_def split: prod.splits)

lemma response_msg_moves:
  assumes "tx_legal c" and "same_phase c a"
  shows "tx_moves c (snd (with_participant t msg (handle_2pc_resp (part_vtable env) m) a))"
    and "tx_moves c (snd (handle_resp_msg env t msg a))"
proof -
  have h: "tx_moves c (snd (with_participant t msg (handle_2pc_resp (part_vtable env) m) b))"
    if b: "same_phase c b" for b m
  proof -
    have l: "tx_legal b" using same_phase_legal[OF b] assms(1) by simp
    have "tx_moves b (snd (handle_2pc_resp (part_vtable env) m p b))" for p
      using part_ctx.response_moves[of env b] l by (simp only: tx_moves_vtable tx_legal_vtable)
    then have "tx_moves b (snd (with_participant t msg (handle_2pc_resp (part_vtable env) m) b))"
      by (rule with_participant_cases) (rule tx_moves_refl[OF l])
    then show ?thesis by (rule same_phase_moves(1)[OF b])
  qed
  then show "tx_moves c (snd (with_participant t msg (handle_2pc_resp (part_vtable env) m) a))"
    using assms(2) by blast
  have "same_phase c (a\<lparr>msg_2pc_cache := Some msg\<rparr>)" using assms(2) by (simp add: same_phase_def)
  then show "tx_moves c (snd (handle_resp_msg env t msg a))"
    unfolding handle_resp_msg_def by (intro drop_msg_moves h)
qed

lemma same_phase_updates [simp]:
  "same_phase c c"
  "same_phase c (c\<lparr>msg_2pc_cache := x\<rparr>)"
  "same_phase c (c\<lparr>exec_info := (exec_info c)\<lparr>is_sp_trans := b\<rparr>\<rparr>)"
  "same_phase c (c\<lparr>exec_info := (exec_info c)\<lparr>sub2pc_flag := b\<rparr>, msg_2pc_cache := x\<rparr>)"
  "same_phase c (merge_prepare_log_info infos (update_2pc_prepare_version v c))"
  by (simp_all add: same_phase_def merge_prepare_log_info_def update_2pc_prepare_version_def)

lemma redo_request_moves:
  assumes "tx_legal c" and "force_abort c \<Longrightarrow> state (exec_info c) \<in> {INIT, REDO_COMPLETE, PREPARE, ABORT}"
  shows "tx_moves c (snd (handle_tx_2pc_prepare_redo_req env msg c))"
proof -
  let ?c = "c\<lparr>exec_info := (exec_info c)\<lparr>sub2pc_flag := True\<rparr>, msg_2pc_cache := Some msg\<rparr>"
  have "tx_moves c (snd (compensate_abort_log env ?c))" if "force_abort c"
  proof -
    have d: "state (exec_info (snd (compensate_abort_log env ?c))) = state (exec_info c)"
      "upstream_state (snd (compensate_abort_log env ?c)) \<in> {upstream_state c, ABORT}"
      using compensate_frame[where c = ?c and env = env] by (simp_all add: tx_frame_def)
    have "legal (state (exec_info c)) ABORT" using assms(2)[OF that] by (auto simp: legal_def)
    then show ?thesis using assms(1) d by (auto simp: tx_moves_def tx_legal_def)
  qed
  then show ?thesis
    using request_msg_moves(1)[OF assms(1)] tx_moves_refl[OF assms(1)]
    by (simp add: handle_tx_2pc_prepare_redo_req_def Let_def flow_simps drop_msg_moves)
qed

lemma message_moves:
  assumes "tx_legal c" and "tx_expected (Message msg) c" and "tx_call env (Message msg) c = Some c'"
  shows "tx_moves c c'"
proof -
  note defs = handle_tx_2pc_prepare_req_def handle_tx_2pc_prepare_resp_def handle_tx_2pc_prepare_redo_resp_def
    handle_tx_2pc_prepare_version_req_def handle_tx_2pc_prepare_version_resp_def handle_tx_2pc_pre_commit_req_def
    handle_tx_2pc_pre_commit_resp_def handle_tx_2pc_commit_req_def handle_tx_2pc_commit_resp_def
    handle_tx_2pc_abort_req_def handle_tx_2pc_abort_resp_def handle_tx_2pc_clear_req_def
    handle_tx_2pc_clear_resp_def
  have "tx_moves c (snd (call_msg_handler env msg c))"
    using assms(2) redo_request_moves[OF assms(1)] tx_moves_refl[OF assms(1)]
    by (cases "tx_msg_type msg")
       (simp_all add: call_msg_handler_def defs request_msg_moves[OF assms(1)] response_msg_moves[OF assms(1)]
          same_phase_quiet[OF _ assms(1)])
  then show ?thesis
    using assms(3) tx_moves_refl[OF assms(1)]
    by (auto simp: handle_tx_batch_req_def case_prod_beta split: if_splits)
qed

lemma apply_log_moves:
  assumes "tx_legal c" and "same_phase c a" and "l = OB_LOG_TX_ABORT \<Longrightarrow> upstream_state c = ABORT"
    and "apply_log (part_vtable env) l a = Some r"
  shows "tx_moves c (snd r)"
proof -
  have "moves_ok (part_vtable env) a (snd r)"
    by (rule part_ctx.apply_moves[where l = l and ret = "fst r"])
       (use assms same_phase_legal[OF assms(2)] in \<open>simp_all add: tx_legal_vtable same_phase_def\<close>)
  then show ?thesis using same_phase_moves(1)[OF assms(2)] by (simp only: tx_moves_vtable)
qed

lemma notify_moves:
  assumes "tx_legal c" and "same_phase c a" and "l = OB_LOG_TX_ABORT \<Longrightarrow> upstream_state c = ABORT"
    and "notify_and_apply env l a = Some r"
  shows "tx_moves c (snd r)"
  using assms(4) apply_log_moves[OF assms(1,2), of l env r] assms(3) same_phase_quiet[OF assms(2,1)]
  by (auto simp: notify_and_apply_def split: if_splits)

lemma local_abort_moves:
  assumes "tx_legal c" and "same_phase c a" and "upstream_state c = ABORT"
  shows "tx_moves c (snd (on_local_abort_tx env a))"
proof -
  have d: "state (exec_info c) \<in> {INIT, REDO_COMPLETE, PREPARE, ABORT}"
    using assms(1,3) by (auto simp: tx_legal_def legal_def)
  have t: "same_phase b (tell_scheduler env m b)" for b m
    by (simp add: same_phase_def tell_scheduler_def)
  have "tx_moves c (snd (part_set_downstream ABORT a))"
    using d assms(2,3) by (auto simp: tx_moves_def tx_legal_def part_set_downstream_def same_phase_def
        legal_def durable_move_def)
  note m = this same_phase_moves(2)[OF this t]
  have "tx_moves c (b\<lparr>is_exiting := True\<rparr>)" if "tx_moves c b" for b
    by (rule same_phase_moves(2)[OF that]) (simp add: same_phase_def)
  note m = this[OF m(1)] this[OF m(2)]
  show ?thesis
    using m same_phase_quiet[OF assms(2,1)] by (simp add: on_local_abort_tx_def Let_def ok_def)
qed

lemma drop_dup_same [simp]: "snd (drop_dup_trx env r) = snd r"
  by (simp add: drop_dup_trx_def flow_simps)

lemma log_success_moves:
  assumes "tx_legal c" and "tx_expected (Log_success l log_ts lsn) c"
    and "on_success_state_log env l log_ts lsn c = Some r"
  shows "tx_moves c (snd r)"
proof -
  let ?c = "c\<lparr>state_log_submitting := False\<rparr>"
  let ?e = "snd (part_set_end_log_ts env log_ts ?c)"
  let ?m = "merge_prepare_log_info [ObLSLogInfo (ls_id c) lsn] ?c"
  have p: "same_phase c ?c" "same_phase c ?e" "same_phase c ?m"
    by (simp_all add: same_phase_def part_set_end_log_ts_def merge_prepare_log_info_def)
  note q = p[THEN same_phase_quiet[OF _ assms(1)]]
  have up: "l = OB_LOG_TX_ABORT \<Longrightarrow> upstream_state c = ABORT" using assms(2) by simp
  have nsp: "\<not> is_sp_trans (exec_info ?e)" using assms(2) by (simp add: part_set_end_log_ts_def)
  have la: "on_local_abort_tx env ?e = (ret, x) \<Longrightarrow> upstream_state c = ABORT \<Longrightarrow> tx_moves c x" for ret x
    using local_abort_moves[OF assms(1) p(2), of env] by simp
  have n: "notify_and_apply env l ?e = Some x \<Longrightarrow> tx_moves c (snd x)"
    "notify_and_apply env l ?m = Some x \<Longrightarrow> tx_moves c (snd x)"
    "apply_log (part_vtable env) l ?c = Some x \<Longrightarrow> tx_moves c (snd x)" for x
    by (erule notify_moves[OF assms(1) p(2), rotated] notify_moves[OF assms(1) p(3), rotated]
        apply_log_moves[OF assms(1) p(1), rotated], erule up)+
  show ?thesis
    using assms(3) n q nsp la up
    by (cases l) (auto simp: on_success_state_log_def Let_def case_prod_beta split: if_splits)
qed

lemma gts_elapse_moves:
  assumes "tx_legal c" and "tx_expected (Gts_elapsed gts) c"
  shows "tx_moves c (snd (gts_elapse_callback env gts c))"
proof -
  let ?c = "c\<lparr>gts_waiting := False\<rparr>"
  have l: "states_legal (part_vtable env) ?c" using assms(1) by (simp add: states_legal_def tx_legal_def)
  have s: "get_downstream_state (part_vtable env) ?c = PREPARE" using assms(2) by simp
  let ?t = "snd (try_enter_pre_commit_state (part_vtable env) ?c)"
  have t: "tx_moves c ?t"
    using part_ctx.try_enter_moves[OF l s] assms(2) tx_legal_vtable[of env ?t]
    by (auto simp: tx_moves_def durable_move_def)
  have r: "same_phase b (snd (part_reply env m b))" for b m
    by (simp add: same_phase_def part_reply_def tell_scheduler_def ok_def)
  have g: "same_phase b (b\<lparr>gts_waiting := False\<rparr>)" for b by (simp add: same_phase_def)
  note m = t same_phase_moves(2)[OF t r] tx_moves_refl[OF assms(1)] same_phase_quiet[OF g assms(1)]
  show ?thesis
    using m assms(2) same_phase_moves(2)[OF _ g]
    by (simp add: gts_elapse_callback_def Let_def case_prod_beta flow_simps)
qed

lemma tx_event_moves:
  assumes "tx_legal c" and "tx_expected ev c" and "tx_call env ev c = Some c'"
  shows "tx_legal c'" and "decided_kept (state (exec_info c)) (state (exec_info c'))"
    and "(\<forall>l. ev \<noteq> Own (Replay l)) \<Longrightarrow> durable_move (state (exec_info c)) (state (exec_info c'))"
proof -
  have log: "tx_moves c c'" if "ev = Log_success l log_ts lsn" for l log_ts lsn
    using log_success_moves[OF assms(1), of l log_ts lsn env] assms(2,3) that by auto
  have other: "tx_moves c c'" if "\<forall>call. ev \<noteq> Own call"
    using assms that message_moves[OF assms(1)] log gts_elapse_moves[OF assms(1)]
    by (cases ev) auto
  have own: "tx_legal c'" "decided_kept (state (exec_info c)) (state (exec_info c'))"
    "(\<forall>l. call \<noteq> Replay l) \<Longrightarrow> durable_move (state (exec_info c)) (state (exec_info c'))"
    if "ev = Own call" for call
    using part_ctx.perform_moves[where env = env and c = c and c' = c' and call = call] assms that
      tx_legal_vtable[of env c] tx_legal_vtable[of env c']
    by simp_all
  show "tx_legal c'" "decided_kept (state (exec_info c)) (state (exec_info c'))"
    using other own durable_move_kept by (cases ev; auto simp: tx_moves_def)+
  show "durable_move (state (exec_info c)) (state (exec_info c'))" if "\<forall>l. ev \<noteq> Own (Replay l)"
    using other own that by (cases ev) (auto simp: tx_moves_def)
qed

interpretation tx_runs: invariant_system tx_step tx_legal
  by unfold_locales (auto simp: tx_step_def dest: tx_event_moves(1))

end
