(* ===== verification/Tx_Samples.thy ===== *)
theory Tx_Samples
  imports Part_Trans_Ctx
begin

text \<open>A sample environment, context and message, at which the theorems about the two phase commit are
  exercised.\<close>

text \<open>Everything outside the context succeeds; a log that is submitted stays pending until its
  callback; timestamps have passed.\<close>

definition calm_env :: tx_env where
  "calm_env =
     \<lparr>rpc_post = (\<lambda>_ _. OB_SUCCESS),
      scheduler_post = (\<lambda>_ _. OB_SUCCESS),
      big_segment_active = (\<lambda>_. False),
      submit_big_segment_log = (\<lambda>_. OB_SUCCESS),
      submit_state_log = (\<lambda>_ _. (OB_SUCCESS, True)),
      get_gts = (\<lambda>_. (OB_SUCCESS, SCN 100)),
      wait_gts_elapse = (\<lambda>_. (OB_SUCCESS, False)),
      local_max_read_version = (\<lambda>_. (OB_SUCCESS, SCN 50)),
      max_read_ts = (\<lambda>_. SCN 60),
      tx_data_writable = (\<lambda>_. OB_SUCCESS),
      mds_tx_end = (\<lambda>_ _. OB_SUCCESS),
      search_unsubmitted_dup_table_redo = (\<lambda>_. OB_SUCCESS),
      dup_table_redo_sync_completed = (\<lambda>_. True),
      dup_table_tx_redo_sync = (\<lambda>_. (OB_SUCCESS, False)),
      dup_table_tx_pre_commit = (\<lambda>_. OB_SUCCESS),
      restart_2pc_trans_timer = (\<lambda>_. OB_SUCCESS),
      tx_end = (\<lambda>_ _. OB_SUCCESS),
      trans_clear = (\<lambda>_. OB_SUCCESS),
      acquire_ctx_ref = (\<lambda>_. OB_SUCCESS),
      min_cluster_version_4_1 = True,
      early_response_error = (\<lambda>_. False),
      get_role = (\<lambda>_. (OB_SUCCESS, True)),
      is_follower = (\<lambda>_. False),
      notify_data_source = (\<lambda>_. OB_SUCCESS),
      retain_for_mds = (\<lambda>_. OB_SUCCESS),
      remove_commiting_dup_trx = (\<lambda>_. OB_SUCCESS),
      update_max_commit_version = (\<lambda>_. OB_SUCCESS),
      is_commit_action = (\<lambda>_. True),
      check_ls_status = (\<lambda>_. (OB_SUCCESS, True)),
      clear_req_scn = (\<lambda>_ _. (OB_SUCCESS, SCN 160)),
      orphan_post = (\<lambda>_. OB_SUCCESS)\<rparr>"

text \<open>A context on log stream \<open>ls\<close> below \<open>up\<close> with the given participants.\<close>

definition sample_ctx :: "int \<Rightarrow> int \<Rightarrow> int list \<Rightarrow> ObPartTransCtx" where
  "sample_ctx ls up ps =
     \<lparr>collected = {}, self_id = - 1, ls_id = ls, ctx_epoch = 7,
      exec_info = \<lparr>state = INIT, upstream = up, participants = ps,
        commit_parts = map (\<lambda>p. \<lparr>part_ls_id = p, exec_epoch = 7, transfer_epoch = - 1\<rparr>) ps,
        intermediate_participants = [], transfer_parts = [], sub2pc_flag = False, is_dup_tx = False,
        is_sp_trans = False, prepare_version = scn_reset, prepare_log_info_arr = []\<rparr>,
      upstream_state = INIT, state_log_submitting = False, gts_waiting = False,
      transfer_blocking = False, force_abort = False, mt_prepared = False,
      commit_version = scn_reset, end_log_ts = scn_reset, max_2pc_commit_scn = scn_reset,
      dup_table_follower_max_read_version = scn_reset, coord_prepare_info_arr = [],
      msg_2pc_cache = None, callback_scheduler_on_clear = False, tx_committed = False,
      is_exiting = False, outbox = [], scheduler_box = []\<rparr>"

definition sample_msg :: "ObTwoPhaseCommitMsgType \<Rightarrow> int \<Rightarrow> int \<Rightarrow> ObTxMsg" where
  "sample_msg t from to =
     \<lparr>tx_msg_type = t, is_version_msg = False, msg_sender = from, msg_receiver = to,
      msg_upstream = from, msg_epoch = 7, msg_transfer_epoch = - 1,
      msg_prepare_version = SCN 120, msg_commit_version = SCN 120, msg_commit_log_scn = SCN 130,
      msg_max_commit_log_scn = SCN 140, msg_prepare_info_array = [ObLSLogInfo from (LSN 4096)]\<rparr>"

end
