(* ===== verification/Participants.thy ===== *)
theory Participants
  imports Tx_Samples
begin

text \<open>The lists of participants that a context keeps: looking a participant up, and merging those
  that were learnt from transfers.\<close>

lemma find_index_from_None: "find_index_from x ys i = None \<longleftrightarrow> x \<notin> set ys"
  by (induction ys arbitrary: i) auto

lemma find_index_from_Some:
  "find_index_from x ys i = Some k \<Longrightarrow> int i \<le> k \<and> nat k - i < length ys \<and> ys ! (nat k - i) = x"
proof (induction ys arbitrary: i)
  case Nil
  then show ?case by simp
next
  case (Cons y ys)
  show ?case
  proof (cases "x = y")
    case True
    then show ?thesis using Cons.prems by auto
  next
    case False
    then have k: "int (Suc i) \<le> k \<and> nat k - Suc i < length ys \<and> ys ! (nat k - Suc i) = x"
      using Cons.IH[of "Suc i"] Cons.prems by simp
    then have "nat k - i = Suc (nat k - Suc i)" by linarith
    then show ?thesis using k by auto
  qed
qed

lemma find_existing_result:
  assumes "map part_ls_id cps = ps" and "n \<le> length ps"
  shows "find_existing ls n ps cps = (OB_SUCCESS, None) \<and> ls \<notin> set (take n ps)
    \<or> (\<exists>j<n. find_existing ls n ps cps = (OB_SUCCESS, Some j) \<and> ps ! j = ls)"
proof (cases "find_index_from ls (take n ps) 0")
  case None
  moreover from None have "ls \<notin> set (take n ps)" by (simp add: find_index_from_None)
  ultimately show ?thesis by (simp add: find_existing_def)
next
  case (Some k)
  then have j: "nat k < n" "ps ! nat k = ls" using find_index_from_Some[OF Some] assms(2) by auto
  then have "part_ls_id (cps ! nat k) = ps ! nat k" using assms by auto
  then show ?thesis using j Some by (auto simp: find_existing_def)
qed

lemma merge_parts_result:
  assumes "map part_ls_id cps = ps" and "n \<le> length ps"
  shows "\<exists>cps'. merge_parts n xs ps cps
           = (OB_SUCCESS, ps @ map part_ls_id (filter (\<lambda>x. part_ls_id x \<notin> set (take n ps)) xs), cps')
         \<and> map part_ls_id cps' = ps @ map part_ls_id (filter (\<lambda>x. part_ls_id x \<notin> set (take n ps)) xs)
         \<and> (\<forall>i<length ps. transfer_epoch (cps ! i) > 0 \<longrightarrow> cps' ! i = cps ! i)"
  using assms
proof (induction xs arbitrary: ps cps)
  case Nil
  then show ?case by simp
next
  case (Cons x xs)
  have len: "length cps = length ps" using Cons.prems(1) by auto
  consider "find_existing (part_ls_id x) n ps cps = (OB_SUCCESS, None)" "part_ls_id x \<notin> set (take n ps)"
    | j where "j < n" "find_existing (part_ls_id x) n ps cps = (OB_SUCCESS, Some j)" "ps ! j = part_ls_id x"
    using find_existing_result[OF Cons.prems] by blast
  then show ?case
  proof cases
    case 1
    have "map part_ls_id (cps @ [x]) = ps @ [part_ls_id x]" "n \<le> length (ps @ [part_ls_id x])"
      using Cons.prems by simp_all
    from Cons.IH[OF this] obtain cps' where ih:
      "merge_parts n xs (ps @ [part_ls_id x]) (cps @ [x])
         = (OB_SUCCESS, (ps @ [part_ls_id x]) @ map part_ls_id (filter (\<lambda>x. part_ls_id x \<notin> set (take n ps)) xs), cps')"
      "map part_ls_id cps' = (ps @ [part_ls_id x]) @ map part_ls_id (filter (\<lambda>x. part_ls_id x \<notin> set (take n ps)) xs)"
      "\<forall>i<Suc (length ps). transfer_epoch ((cps @ [x]) ! i) > 0 \<longrightarrow> cps' ! i = (cps @ [x]) ! i"
      using Cons.prems(2) by auto
    have "\<forall>i<length ps. transfer_epoch (cps ! i) > 0 \<longrightarrow> cps' ! i = cps ! i"
      using ih(3) len by (metis less_Suc_eq nth_append)
    then show ?thesis using 1 ih(1,2) by auto
  next
    case (2 j)
    have mem: "part_ls_id x \<in> set (take n ps)" using 2 Cons.prems(2) by (auto simp: in_set_conv_nth)
    let ?cps = "if transfer_epoch (cps ! j) > 0 then cps else cps[j := (cps ! j)\<lparr>transfer_epoch := transfer_epoch x\<rparr>]"
    have "j < length cps" using Cons.prems(2) 2(1) len by simp
    then have "part_ls_id (cps ! j) = map part_ls_id cps ! j" by simp
    then have "map part_ls_id ?cps = map part_ls_id cps"
      by (auto simp: map_update simp del: nth_map)
    then have "map part_ls_id ?cps = ps" by (simp only: Cons.prems(1))
    from Cons.IH[OF this Cons.prems(2)] obtain cps' where ih:
      "merge_parts n xs ps ?cps
         = (OB_SUCCESS, ps @ map part_ls_id (filter (\<lambda>x. part_ls_id x \<notin> set (take n ps)) xs), cps')"
      "map part_ls_id cps' = ps @ map part_ls_id (filter (\<lambda>x. part_ls_id x \<notin> set (take n ps)) xs)"
      "\<forall>i<length ps. transfer_epoch (?cps ! i) > 0 \<longrightarrow> cps' ! i = ?cps ! i"
      by blast
    have "?cps ! i = cps ! i" if "transfer_epoch (cps ! i) > 0" for i
      using that by (cases "i = j") simp_all
    then have "\<forall>i<length ps. transfer_epoch (cps ! i) > 0 \<longrightarrow> cps' ! i = cps ! i"
      using ih(3) by presburger
    then show ?thesis using 2 ih(1,2) mem by auto
  qed
qed

text \<open>C13: merging the participants that were learnt from transfers. When the list of participants
  and the list of commit parts agree and neither list has duplicates, the merge succeeds: the old
  participants keep their positions (so the responses that are indexed by position stay valid),
  exactly the new log streams are appended in order, both lists still agree and have no
  duplicates, a transfer epoch that was known is kept, and the pending list is emptied.\<close>

theorem merge_adds_participants:
  fixes c :: ObPartTransCtx
  assumes "map part_ls_id (commit_parts (exec_info c)) = participants (exec_info c)" and "distinct (participants (exec_info c))"
    and "distinct (map part_ls_id (intermediate_participants (exec_info c)))"
  shows "\<exists>c' added. part_merge c = (OB_SUCCESS, c')
    \<and> participants (exec_info c') = participants (exec_info c) @ added
    \<and> set (participants (exec_info c')) = set (participants (exec_info c)) \<union> part_ls_id ` set (intermediate_participants (exec_info c))
    \<and> distinct (participants (exec_info c'))
    \<and> map part_ls_id (commit_parts (exec_info c')) = participants (exec_info c')
    \<and> (\<forall>i<length (participants (exec_info c)). transfer_epoch (commit_parts (exec_info c) ! i) > 0
          \<longrightarrow> commit_parts (exec_info c') ! i = commit_parts (exec_info c) ! i)
    \<and> intermediate_participants (exec_info c') = []"
proof (cases "intermediate_participants (exec_info c) = []")
  case True
  then show ?thesis using assms(1,2) by (auto simp: part_merge_def Let_def)
next
  case False
  define e where "e = exec_info c"
  note a = assms[folded e_def] False[folded e_def]
  let ?n = "length (participants e)" and ?xs = "intermediate_participants e"
  let ?new = "map part_ls_id (filter (\<lambda>x. part_ls_id x \<notin> set (participants e)) ?xs)"
  obtain cps' where m: "merge_parts ?n ?xs (participants e) (commit_parts e) = (OB_SUCCESS, participants e @ ?new, cps')"
    "map part_ls_id cps' = participants e @ ?new"
    "\<forall>i<?n. transfer_epoch (commit_parts e ! i) > 0 \<longrightarrow> cps' ! i = commit_parts e ! i"
    using merge_parts_result[OF a(1) le_refl, of ?xs] by auto
  have len: "?n = length (commit_parts e)" using a(1) by (metis length_map)
  let ?c = "c\<lparr>exec_info := e\<lparr>participants := participants e @ ?new, commit_parts := cps', intermediate_participants := []\<rparr>\<rparr>"
  have "part_merge c = (OB_SUCCESS, ?c)"
    using a(4) m(1) len by (simp add: part_merge_def e_def[symmetric] Let_def)
  moreover have "distinct (participants e @ ?new)"
    using a(2,3) by (auto simp: distinct_map intro: inj_on_subset)
  ultimately show ?thesis unfolding e_def[symmetric] using m(2,3) by (intro exI[of _ ?c] exI[of _ ?new]) auto
qed

theorem merge_adds_participants_witness:
  "\<exists>c'. part_merge ((sample_ctx 1 1 [1, 2])\<lparr>exec_info := (exec_info (sample_ctx 1 1 [1, 2]))
        \<lparr>intermediate_participants := [\<lparr>part_ls_id = 2, exec_epoch = - 1, transfer_epoch = 5\<rparr>,
                                      \<lparr>part_ls_id = 9, exec_epoch = - 1, transfer_epoch = 6\<rparr>]\<rparr>\<rparr>) = (OB_SUCCESS, c')
     \<and> set (participants (exec_info c')) = {1, 2, 9} \<and> distinct (participants (exec_info c'))"
  using merge_adds_participants[of "(sample_ctx 1 1 [1, 2])\<lparr>exec_info := (exec_info (sample_ctx 1 1 [1, 2]))
        \<lparr>intermediate_participants := [\<lparr>part_ls_id = 2, exec_epoch = - 1, transfer_epoch = 5\<rparr>,
                                      \<lparr>part_ls_id = 9, exec_epoch = - 1, transfer_epoch = 6\<rparr>]\<rparr>\<rparr>"]
  by (auto simp: sample_ctx_def)

end
