(* ===== verification/Commit_Protocol.thy ===== *)
theory Commit_Protocol
  imports Part_Ctx_Safety Participants
begin

text \<open>
  What the two phase commit of a distributed transaction guarantees on one participant, stated
  for \<^verbatim>\<open>ObPartTransCtx\<close> with its real virtual functions.
\<close>

text \<open>Playing a list of events, with the durable states it goes through.\<close>

fun tx_play :: "tx_env \<Rightarrow> tx_event list \<Rightarrow> ObPartTransCtx \<Rightarrow> (ObTxState list \<times> ObPartTransCtx) option" where
  "tx_play env [] c = Some ([], c)"
| "tx_play env (ev # evs) c =
     (if tx_expected ev c then
        (case tx_call env ev c of
           None \<Rightarrow> None
         | Some c1 \<Rightarrow> map_option (\<lambda>(es, c'). (if state (exec_info c1) = state (exec_info c) then es
                                            else state (exec_info c1) # es, c')) (tx_play env evs c1))
      else None)"

lemma tx_play_run: "tx_play env evs c = Some (es, c') \<Longrightarrow> run tx_step c es c'"
proof (induction evs arbitrary: c es)
  case Nil
  then show ?case by (simp add: run_nil)
next
  case (Cons ev evs)
  then obtain c1 es1 where s: "tx_expected ev c" "tx_call env ev c = Some c1" "tx_play env evs c1 = Some (es1, c')"
    "es = (if state (exec_info c1) = state (exec_info c) then es1 else state (exec_info c1) # es1)"
    by (auto split: if_splits option.splits)
  let ?e = "if state (exec_info c1) = state (exec_info c) then None else Some (state (exec_info c1))"
  have "tx_step c ?e c1" using s(1,2) by (auto simp: tx_step_def)
  from run_cons[of tx_step, OF this Cons.IH[OF s(3)]] show ?case using s(4) by (simp split: if_splits)
qed

definition leaf_events :: "tx_event list" where
  "leaf_events =
     [Message (sample_msg OB_MSG_TX_PREPARE_REQ 1 2), Log_success OB_LOG_TX_PREPARE (SCN 110) (LSN 4096),
      Message (sample_msg OB_MSG_TX_PRE_COMMIT_REQ 1 2),
      Message (sample_msg OB_MSG_TX_COMMIT_REQ 1 2), Log_success OB_LOG_TX_COMMIT (SCN 130) (LSN 8192),
      Message (sample_msg OB_MSG_TX_CLEAR_REQ 1 2), Log_success OB_LOG_TX_CLEAR (SCN 150) (LSN 12288)]"

lemma leaf_plays:
  "map_option fst (tx_play calm_env leaf_events (sample_ctx 2 (- 1) [])) = Some [PREPARE, PRE_COMMIT, COMMIT, CLEAR]"
  by code_simp

lemma sample_legal: "tx_legal (sample_ctx ls up ps)"
  by (simp add: tx_legal_def sample_ctx_def legal_def)

subsection \<open>One decision\<close>

text \<open>The durable states of a context as items that a source hands out in order: nothing but
  clearing comes after a decision.\<close>

interpretation tx_history: ordered_source tx_step tx_legal
  "\<lambda>c c'. decided_kept (state (exec_info c)) (state (exec_info c'))"
  "\<lambda>c d. decided_kept (state (exec_info c)) d" decided_kept
proof unfold_locales
  show "decided_kept (state (exec_info s)) (state (exec_info s'))" if "tx_legal s" "tx_step s e s'" for s e s'
    using that tx_event_moves(2) by (auto simp: tx_step_def)
  then show "decided_kept (state (exec_info s)) x" if "tx_legal s" "tx_step s (Some x) s'" for s x s'
    using that by (fastforce simp: tx_step_def split: if_splits)
qed (auto simp: tx_step_def split: if_splits intro: decided_kept_trans)





subsection \<open>Participants that are not there\<close>

text \<open>The most that the two abort messages and the clear message can do to a participant.\<close>

definition turns_away :: "'c vtable \<Rightarrow> 'c \<Rightarrow> 'c \<Rightarrow> bool" where
  "turns_away V c c' \<longleftrightarrow> get_upstream_state V c' \<in> {get_upstream_state V c, ABORT, CLEAR}
     \<and> get_downstream_state V c' = get_downstream_state V c"

context committer_contract
begin

lemma turns_away_quiet [simp]:
  "turns_away V c c"
  "turns_away V c (snd (apply_2pc_msg V m c1)) = turns_away V c c1"
  "turns_away V c (snd (post_downstream_msg V m c1)) = turns_away V c c1"
  "turns_away V c (snd (post_msg V m i c1)) = turns_away V c c1"
  "turns_away V c (snd (collect_downstream V p c1)) = turns_away V c c1"
  "turns_away V c (snd (retransmit_downstream_msg V c1)) = turns_away V c c1"
  "turns_away V c (snd (retransmit_downstream_msg_to V p c1)) = turns_away V c c1"
  "turns_away V c (snd (retransmit_upstream_msg V s c1)) = turns_away V c c1"
  by (simp_all add: turns_away_def)

lemma turns_away_drive:
  "\<lbrakk>s \<in> {ABORT, CLEAR}; turns_away V c c1\<rbrakk> \<Longrightarrow> turns_away V c (snd (drive_self_2pc_phase V s c1))"
  using drive_up[of s c1] by (auto simp: turns_away_def)

lemma abort_side_messages:
  "m \<in> {OB_MSG_TX_ABORT_REQ, OB_MSG_TX_CLEAR_REQ} \<Longrightarrow> turns_away V c (snd (handle_2pc_req V m c))"
  "turns_away V c (snd (handle_2pc_resp V OB_MSG_TX_ABORT_RESP p c))"
proof -
  have r: "turns_away V c (snd (handle_2pc_abort_request V c))" "turns_away V c (snd (handle_2pc_clear_request V c))"
    by (simp_all add: handle_2pc_abort_request_def handle_2pc_abort_request_impl_def
        handle_2pc_clear_request_def handle_2pc_clear_request_impl_def flow_simps turns_away_drive
        split: ObTxState.splits Ob2PCRole.splits)
  then show "turns_away V c (snd (handle_2pc_req V m c))" if "m \<in> {OB_MSG_TX_ABORT_REQ, OB_MSG_TX_CLEAR_REQ}"
    using that by (auto simp: handle_2pc_req_def)
  have "turns_away V c (snd (handle_2pc_abort_response_impl V p c))"
    "turns_away V c (snd (handle_2pc_ack_response_impl V p c))"
    by (simp_all add: handle_2pc_abort_response_impl_def handle_2pc_ack_response_impl_def flow_simps Let_def
        turns_away_drive split: Ob2PCRole.splits)
  then show "turns_away V c (snd (handle_2pc_resp V OB_MSG_TX_ABORT_RESP p c))"
    by (simp add: handle_2pc_resp_def handle_2pc_abort_response_def split: ObTxState.splits)
qed

end

lemma orphan_replies:
  "handle_tx_orphan_2pc_msg env msg ls_deleted = (ret, Some reply) \<Longrightarrow>
   msg_receiver reply = msg_sender msg \<and> msg_sender reply = msg_receiver msg
   \<and> tx_msg_type reply \<in> {OB_MSG_TX_ABORT_REQ, OB_MSG_TX_ABORT_RESP, OB_MSG_TX_CLEAR_REQ}"
  by (cases "tx_msg_type msg")
     (auto simp: handle_tx_orphan_2pc_msg_def is_2pc_request_msg_def is_2pc_response_msg_def
      handle_orphan_2pc_req_def handle_orphan_2pc_resp_def post_orphan_msg_def Let_def
      split: if_splits prod.splits)

lemma abort_side_handlers:
  assumes "tx_msg_type msg \<in> {OB_MSG_TX_ABORT_REQ, OB_MSG_TX_ABORT_RESP, OB_MSG_TX_CLEAR_REQ}"
  shows "upstream_state (snd (call_msg_handler env msg c)) \<in> {upstream_state c, ABORT, CLEAR}
    \<and> state (exec_info (snd (call_msg_handler env msg c))) = state (exec_info c)"
proof -
  let ?c = "c\<lparr>msg_2pc_cache := Some msg\<rparr>"
  let ?P = "\<lambda>c'. upstream_state c' \<in> {upstream_state c, ABORT, CLEAR} \<and> state (exec_info c') = state (exec_info c)"
  have resp: "?P (snd (with_participant True msg (handle_2pc_resp (part_vtable env) OB_MSG_TX_ABORT_RESP) ?c))"
    by (rule with_participant_cases)
       (use part_ctx.abort_side_messages(2)[of env ?c] in \<open>simp_all add: turns_away_def\<close>)
  have req: "?P (snd (handle_2pc_req (part_vtable env) m ?c))"
    if "m \<in> {OB_MSG_TX_ABORT_REQ, OB_MSG_TX_CLEAR_REQ}" for m
    using part_ctx.abort_side_messages(1)[OF that, of env ?c] by (simp add: turns_away_def)
  show ?thesis
    using assms resp req[of "tx_msg_type msg"]
    by (elim insertE emptyE)
       (simp_all add: call_msg_handler_def handle_tx_2pc_abort_req_def handle_tx_2pc_abort_resp_def
         handle_tx_2pc_clear_req_def handle_req_msg_def handle_resp_msg_def drop_msg_def)
qed

text \<open>C8: presumed abort. A node without a context of the transaction (it never had one, or has
  finished and forgotten it) answers every message of the protocol, if at all, to its sender,
  and in such a way that whoever receives the answer, in whatever state, keeps its durable state
  and at most turns to abort or to clearing; it never makes anyone commit.\<close>

theorem orphan_reply_never_commits:
  assumes "handle_tx_orphan_2pc_msg env0 msg ls_deleted = (ret, Some reply)"
    and "handle_tx_batch_req env reply (Some c) = (ret', Some c', further)"
  shows "msg_receiver reply = msg_sender msg
    \<and> upstream_state c' \<in> {upstream_state c, ABORT, CLEAR} \<and> state (exec_info c') = state (exec_info c)"
  using orphan_replies[OF assms(1)] assms(2) abort_side_handlers[of reply env c]
  by (auto simp: handle_tx_batch_req_def case_prod_beta split: if_splits)

text \<open>A prepare request to a node that knows nothing, and the abort response at the root.\<close>

theorem orphan_reply_never_commits_witness:
  "\<exists>reply c'. handle_tx_orphan_2pc_msg calm_env (sample_msg OB_MSG_TX_PREPARE_REQ 1 2) False = (OB_SUCCESS, Some reply)
     \<and> upstream_state c' = ABORT \<and> state (exec_info c') = INIT
     \<and> handle_tx_batch_req calm_env reply (Some (snd (two_phase_commit (part_vtable calm_env) ((sample_ctx 1 1 [1, 2])))\<lparr>state_log_submitting := False\<rparr>))
       = (OB_SUCCESS, Some c', None)"
proof -
  let ?c = "(snd (two_phase_commit (part_vtable calm_env) ((sample_ctx 1 1 [1, 2]))))\<lparr>state_log_submitting := False\<rparr>"
  let ?o = "handle_tx_orphan_2pc_msg calm_env (sample_msg OB_MSG_TX_PREPARE_REQ 1 2) False"
  let ?h = "handle_tx_batch_req calm_env (the (snd ?o)) (Some ?c)"
  have o: "fst ?o = OB_SUCCESS \<and> snd ?o \<noteq> None" by code_simp
  have h: "fst ?h = OB_SUCCESS \<and> snd (snd ?h) = None \<and>
     map_option (\<lambda>c. upstream_state c) (fst (snd ?h)) = Some ABORT \<and> state (exec_info ?c) = INIT" by code_simp
  from o obtain reply where r: "?o = (OB_SUCCESS, Some reply)" by (cases ?o) auto
  from h r obtain c' where c': "handle_tx_batch_req calm_env reply (Some ?c) = (OB_SUCCESS, Some c', None)"
    "upstream_state c' = ABORT" by (cases ?h) (auto simp: map_option_eq_Some)
  from orphan_reply_never_commits[OF r c'(1)] h r c' show ?thesis by auto
qed

subsection \<open>The decision of the root\<close>

text \<open>The bookkeeping of a root: it is one of its participants, which are distinct, and it has
  collected answers of other participants only.\<close>

definition index_of :: "int \<Rightarrow> ObPartTransCtx \<Rightarrow> int" where
  "index_of p c = snd (find_participant_id p c)"

definition root_books :: "ObPartTransCtx \<Rightarrow> bool" where
  "root_books c \<longleftrightarrow> part_role c = ROOT \<and> distinct (participants (exec_info c))
     \<and> ls_id c \<in> set (participants (exec_info c))
     \<and> collected c \<subseteq> int ` {0..<length (participants (exec_info c))} - {index_of (ls_id c) c}"

text \<open>The participants whose answer to the current phase the root has, with the event.\<close>

definition answered :: "tx_event \<Rightarrow> ObPartTransCtx \<Rightarrow> int set" where
  "answered ev c = {participants (exec_info c) ! nat i | i. i \<in> collected c}
     \<union> (case ev of Message msg \<Rightarrow> {msg_sender msg} | _ \<Rightarrow> {})"

text \<open>The events in which a root may decide: a response of another participant, a log that became
  durable, and the calls of the node itself; the callback of the timestamp service only resumes
  an earlier attempt.\<close>

fun deciding_event :: "tx_event \<Rightarrow> ObPartTransCtx \<Rightarrow> bool" where
  "deciding_event (Message msg) c \<longleftrightarrow> is_2pc_response_msg (tx_msg_type msg) \<and> msg_sender msg \<noteq> ls_id c"
| "deciding_event (Log_success l log_ts lsn) c \<longleftrightarrow> \<not> is_sp_trans (exec_info c)"
| "deciding_event (Gts_elapsed gts) c \<longleftrightarrow> False"
| "deciding_event (Own call) c \<longleftrightarrow>
     call \<in> {Start_commit, Start_abort, Start_prepare_redo, Continue False, Continue True, Timeout}"

lemma index_of_member:
  assumes "p \<in> set (participants (exec_info c))"
  shows "fst (find_participant_id p c) = OB_SUCCESS"
    "0 \<le> index_of p c" "nat (index_of p c) < length (participants (exec_info c))"
    "participants (exec_info c) ! nat (index_of p c) = p"
proof -
  obtain k where k: "find_index_from p (participants (exec_info c)) 0 = Some k"
    using assms find_index_from_None[of p "participants (exec_info c)" 0] by auto
  then show "fst (find_participant_id p c) = OB_SUCCESS"
    "0 \<le> index_of p c" "nat (index_of p c) < length (participants (exec_info c))"
    "participants (exec_info c) ! nat (index_of p c) = p"
    using find_index_from_Some[OF k] by (simp_all add: find_participant_id_def index_of_def)
qed

lemma find_participant_member:
  "fst (find_participant_id p c) = OB_SUCCESS \<Longrightarrow> p \<in> set (participants (exec_info c))"
  using find_index_from_None[of p "participants (exec_info c)" 0]
  by (simp add: find_participant_id_def split: option.splits)

text \<open>Enough answers from valid positions other than the own one are the answers of everybody.\<close>

lemma enough_is_all:
  assumes "part_role c = ROOT" and "ls_id c \<in> set (participants (exec_info c))"
    and "X \<subseteq> int ` {0..<length (participants (exec_info c))} - {index_of (ls_id c) c}"
    and "enough (part_vtable env) c X"
  shows "X = int ` {0..<length (participants (exec_info c))} - {index_of (ls_id c) c}"
proof -
  let ?n = "length (participants (exec_info c))" and ?me = "index_of (ls_id c) c"
  let ?S = "int ` {0..<?n} - {?me}"
  have "?me \<in> int ` {0..<?n}"
    using index_of_member[OF assms(2)] by (intro image_eqI[of _ _ "nat ?me"]) auto
  then have "card ?S = ?n - 1" by (simp add: card_image inj_on_def)
  moreover obtain C where C: "C \<subseteq> X" "int (card C) = int ?n - 1"
    using assms(4) by (auto simp: enough_def part_downstream_size_def)
  ultimately have "card C = card ?S" by linarith
  then have "C = ?S" using C(1) assms(3) by (intro card_subset_eq) auto
  then show ?thesis using C(1) assms(3) by blast
qed

lemma decides_shift:
  assumes "upstream_state a = upstream_state c" and "part_downstream_size a = part_downstream_size c"
  shows "decides_only_with (part_vtable env) X a = decides_only_with (part_vtable env) X c"
  using assms by (simp add: fun_eq_iff decides_only_with_def enough_def)

text \<open>Updates that a root's bookkeeping does not see.\<close>

definition same_books :: "ObPartTransCtx \<Rightarrow> ObPartTransCtx \<Rightarrow> bool" where
  "same_books c a \<longleftrightarrow> upstream_state a = upstream_state c \<and> part_role a = part_role c
     \<and> participants (exec_info a) = participants (exec_info c) \<and> collected a = collected c"

lemma response_msg_decides:
  assumes root: "part_role c = ROOT" and b: "same_books c a"
  shows "decides_only_with (part_vtable env) (collected c \<union> {i. i = index_of (msg_sender msg) c
             \<and> msg_sender msg \<in> set (participants (exec_info c))}) c
           (snd (with_participant t msg (handle_2pc_resp (part_vtable env) m) a))"
proof -
  let ?D = "decides_only_with (part_vtable env) (collected c \<union> {i. i = index_of (msg_sender msg) c
             \<and> msg_sender msg \<in> set (participants (exec_info c))}) c"
  have i: "find_participant_id (msg_sender msg) a = find_participant_id (msg_sender msg) c"
    using b by (simp add: find_participant_id_def same_books_def)
  have q: "?D a" using b by (simp add: decides_only_with_def same_books_def)
  have "?D (snd (handle_2pc_resp (part_vtable env) m (index_of (msg_sender msg) c) a))"
    if "fst (find_participant_id (msg_sender msg) c) = OB_SUCCESS"
    using part_ctx.response_decides[of env a "index_of (msg_sender msg) c" m] root b
      find_participant_member[OF that]
      decides_shift[of a c env, THEN fun_cong]
    by (auto simp: same_books_def part_downstream_size_def decides_only_with_def)
  then show ?thesis
    using q i by (auto simp: with_participant_def index_of_def case_prod_beta)
qed

lemma same_books_decides:
  assumes "same_books c a" and "decides_only_with (part_vtable env) X a c'"
  shows "decides_only_with (part_vtable env) X c c'"
  using assms decides_shift[of a c env X] by (simp add: same_books_def part_downstream_size_def)

lemma books_quiet: "upstream_state c' = upstream_state c \<Longrightarrow> decides_only_with (part_vtable env) X c c'"
  by (simp add: decides_only_with_def)

lemma apply_log_decides:
  assumes "part_role c = ROOT" and "same_books c a" and "apply_log (part_vtable env) l a = Some r"
  shows "decides_only_with (part_vtable env) (collected c) c (snd r)"
  using part_ctx.apply_decides[of env a l "fst r" "snd r"] assms same_books_decides[OF assms(2)]
  by (simp add: same_books_def)

lemma log_success_decides:
  assumes "part_role c = ROOT" and "\<not> is_sp_trans (exec_info c)"
    and "on_success_state_log env l log_ts lsn c = Some r"
  shows "decides_only_with (part_vtable env) (collected c) c (snd r)"
proof -
  let ?D = "decides_only_with (part_vtable env) (collected c) c"
  let ?c = "c\<lparr>state_log_submitting := False\<rparr>"
  let ?e = "snd (part_set_end_log_ts env log_ts ?c)"
  let ?m = "merge_prepare_log_info [ObLSLogInfo (ls_id c) lsn] ?c"
  have p: "same_books c ?c" "same_books c ?e" "same_books c ?m"
    by (simp_all add: same_books_def part_set_end_log_ts_def merge_prepare_log_info_def part_role_def)
  have q: "?D ?c" "?D ?e" "?D ?m" using p by (auto simp: same_books_def intro: books_quiet)
  have nsp: "\<not> is_sp_trans (exec_info ?e)" using assms(2) by (simp add: part_set_end_log_ts_def)
  have n: "notify_and_apply env l a = Some x \<Longrightarrow> ?D (snd x)" if "same_books c a" for a x l
    using apply_log_decides[OF assms(1) that, of env l x] that
    by (auto simp: notify_and_apply_def same_books_def intro!: books_quiet split: if_splits)
  have ab: "?D x" if "on_local_abort_tx env ?e = (ret, x)" for ret x
  proof -
    have "upstream_state (snd (on_local_abort_tx env a)) = upstream_state a" for a
      by (simp add: on_local_abort_tx_def Let_def ok_def tell_scheduler_def part_set_downstream_def)
    from this[of ?e] show ?thesis using p(2) that by (auto simp: same_books_def intro!: books_quiet)
  qed
  show ?thesis
    using assms(3) n[OF p(2)] n[OF p(3)] apply_log_decides[OF assms(1) p(1)] q nsp ab
    by (cases l) (auto simp: on_success_state_log_def Let_def case_prod_beta split: if_splits)
qed

lemma response_call:
  assumes "is_2pc_response_msg (tx_msg_type msg)"
  shows "\<exists>t a. same_books c a \<and> upstream_state (snd (call_msg_handler env msg c))
      = upstream_state (snd (with_participant t msg (handle_2pc_resp (part_vtable env) (tx_msg_type msg)) a))"
proof -
  let ?a = "c\<lparr>msg_2pc_cache := Some msg\<rparr>"
  let ?b = "(merge_prepare_log_info (msg_prepare_info_array msg)
              (update_2pc_prepare_version (msg_prepare_version msg) c))\<lparr>msg_2pc_cache := Some msg\<rparr>"
  have s: "same_books c c" "same_books c ?a" "same_books c ?b"
    by (simp_all add: same_books_def part_role_def merge_prepare_log_info_def update_2pc_prepare_version_def)
  let ?v = "tx_msg_type msg = OB_MSG_TX_PREPARE_RESP \<and> is_version_msg msg"
  let ?t = "\<not> ?v \<and> tx_msg_type msg \<in> {OB_MSG_TX_PREPARE_RESP, OB_MSG_TX_ABORT_RESP, OB_MSG_TX_PREPARE_REDO_RESP}"
  let ?x = "if ?v then ?b else if tx_msg_type msg = OB_MSG_TX_PREPARE_REDO_RESP then c else ?a"
  have "same_books c ?x" using s by simp
  moreover have "upstream_state (snd (call_msg_handler env msg c))
      = upstream_state (snd (with_participant ?t msg (handle_2pc_resp (part_vtable env) (tx_msg_type msg)) ?x))"
    using assms
    by (cases "tx_msg_type msg")
       (simp_all add: is_2pc_response_msg_def call_msg_handler_def handle_tx_2pc_prepare_resp_def
        handle_tx_2pc_prepare_version_resp_def handle_tx_2pc_pre_commit_resp_def handle_tx_2pc_commit_resp_def
        handle_tx_2pc_abort_resp_def handle_tx_2pc_clear_resp_def handle_tx_2pc_prepare_redo_resp_def
        handle_resp_msg_def drop_msg_def)
  ultimately show ?thesis by blast
qed

lemma tx_call_decides:
  assumes root: "part_role c = ROOT" and ev: "deciding_event ev c" and call: "tx_call env ev c = Some c'"
  shows "decides_only_with (part_vtable env)
     (collected c \<union> (case ev of Message msg \<Rightarrow> {i. i = index_of (msg_sender msg) c
             \<and> msg_sender msg \<in> set (participants (exec_info c))} | _ \<Rightarrow> {})) c c'"
proof (cases ev)
  case (Message msg)
  let ?X = "collected c \<union> {i. i = index_of (msg_sender msg) c \<and> msg_sender msg \<in> set (participants (exec_info c))}"
  obtain t a where a: "same_books c a" "upstream_state (snd (call_msg_handler env msg c))
      = upstream_state (snd (with_participant t msg (handle_2pc_resp (part_vtable env) (tx_msg_type msg)) a))"
    using response_call[of msg c env] ev Message by auto
  have "decides_only_with (part_vtable env) ?X c (snd (call_msg_handler env msg c))"
    using response_msg_decides[OF root a(1), of env msg t "tx_msg_type msg"] a(2)
    by (simp add: decides_only_with_def)
  then show ?thesis
    using call Message books_quiet[of c c env ?X]
    by (auto simp: handle_tx_batch_req_def case_prod_beta split: if_splits)
next
  case (Log_success l log_ts lsn)
  then show ?thesis using log_success_decides[OF root] ev call by auto
next
  case (Own cl)
  then show ?thesis
    using part_ctx.perform_decides[of env c cl c'] root ev call by (auto split: committer_call.splits)
qed (use ev in simp)


text \<open>A root with two participants that is prepared, and the response of the other one.\<close>

definition prepared_root :: ObPartTransCtx where
  "prepared_root = snd (the (tx_play calm_env
     [Own Start_commit, Log_success OB_LOG_TX_PREPARE (SCN 110) (LSN 4096)] (sample_ctx 1 1 [1, 2])))"


subsection \<open>Replicas\<close>

text \<open>Pre-commit is not logged: what the log tells of a durable state.\<close>

definition logged :: "ObTxState \<Rightarrow> ObTxState" where
  "logged d = (if d = PRE_COMMIT then PREPARE else d)"

fun log_target :: "ObTwoPhaseCommitLogType \<Rightarrow> ObTxState" where
  "log_target OB_LOG_TX_PREPARE = PREPARE"
| "log_target OB_LOG_TX_COMMIT = COMMIT"
| "log_target OB_LOG_TX_ABORT = ABORT"
| "log_target OB_LOG_TX_CLEAR = CLEAR"
| "log_target _ = STATE_UNKNOWN"

context committer_contract
begin

lemma after_decision_down [simp]:
  "get_downstream_state V (snd (after_decision_log V m c)) = get_downstream_state V c"
  by (simp add: after_decision_log_def flow_simps case_prod_beta split: Ob2PCRole.splits)

lemma apply_log_target:
  assumes "states_legal V c" and "apply_log V l c = Some (ret, c')"
    and "l \<in> {OB_LOG_TX_PREPARE, OB_LOG_TX_COMMIT, OB_LOG_TX_ABORT, OB_LOG_TX_CLEAR}"
    and "l = OB_LOG_TX_PREPARE \<Longrightarrow> get_upstream_state V c \<noteq> ABORT"
  shows "logged (get_downstream_state V c') = log_target l"
    and "get_downstream_state V c \<in> (case l of OB_LOG_TX_PREPARE \<Rightarrow> {INIT, REDO_COMPLETE}
           | OB_LOG_TX_COMMIT \<Rightarrow> {PREPARE, PRE_COMMIT, COMMIT} | OB_LOG_TX_ABORT \<Rightarrow> {INIT, REDO_COMPLETE, PREPARE}
           | _ \<Rightarrow> {COMMIT, ABORT})"
proof -
  let ?p = "snd (set_downstream_state V PREPARE (snd (on_prepare V c)))"
  have leg: "states_legal V ?p" if "get_upstream_state V c = PREPARE"
    using that by (simp add: states_legal_def legal_def)
  have t: "get_downstream_state V (snd (try_enter_pre_commit_state V ?p)) \<in> {PREPARE, PRE_COMMIT}"
    if "get_upstream_state V c = PREPARE"
    using try_enter_moves(2)[OF leg[OF that]] by simp
  have prep: "logged (get_downstream_state V (snd (apply_prepare_log V c))) = PREPARE
      \<and> get_downstream_state V c \<in> {INIT, REDO_COMPLETE}"
    if "fst (apply_prepare_log V c) = OB_SUCCESS" "get_upstream_state V c \<noteq> ABORT"
    using that t
    by (auto simp: apply_prepare_log_def Let_def flow_simps case_prod_beta logged_def
        split: if_splits Ob2PCRole.splits)
  have fin: "fst (apply_commit_log V c) = OB_SUCCESS \<Longrightarrow> get_downstream_state V (snd (apply_commit_log V c)) = COMMIT
      \<and> get_downstream_state V c \<in> {PREPARE, PRE_COMMIT, COMMIT}"
    "fst (apply_abort_log V c) = OB_SUCCESS \<Longrightarrow> get_downstream_state V (snd (apply_abort_log V c)) = ABORT
      \<and> get_downstream_state V c \<in> {INIT, REDO_COMPLETE, PREPARE}"
    "fst (apply_clear_log V c) = OB_SUCCESS \<Longrightarrow> get_downstream_state V (snd (apply_clear_log V c)) = CLEAR
      \<and> get_downstream_state V c \<in> {COMMIT, ABORT}"
    by (auto simp: apply_commit_log_def apply_abort_log_def apply_clear_log_def Let_def flow_simps split: if_splits)
  show "logged (get_downstream_state V c') = log_target l"
    "get_downstream_state V c \<in> (case l of OB_LOG_TX_PREPARE \<Rightarrow> {INIT, REDO_COMPLETE}
           | OB_LOG_TX_COMMIT \<Rightarrow> {PREPARE, PRE_COMMIT, COMMIT} | OB_LOG_TX_ABORT \<Rightarrow> {INIT, REDO_COMPLETE, PREPARE}
           | _ \<Rightarrow> {COMMIT, ABORT})"
    using assms(2-4) prep fin
    by (auto simp: apply_log_def case_prod_beta logged_def split: if_splits)
qed

lemma replay_log_target:
  assumes "fst (merge_intermediate_participants V f) = OB_SUCCESS"
    and "l \<in> {OB_LOG_TX_PREPARE, OB_LOG_TX_COMMIT, OB_LOG_TX_ABORT, OB_LOG_TX_CLEAR}"
    and "get_downstream_state V f \<in> logged ` (case l of OB_LOG_TX_PREPARE \<Rightarrow> {INIT, REDO_COMPLETE}
           | OB_LOG_TX_COMMIT \<Rightarrow> {PREPARE, PRE_COMMIT, COMMIT} | OB_LOG_TX_ABORT \<Rightarrow> {INIT, REDO_COMPLETE, PREPARE}
           | _ \<Rightarrow> {COMMIT, ABORT})"
  shows "fst (replay_log V l f) = OB_SUCCESS" "get_downstream_state V (snd (replay_log V l f)) = log_target l"
    "get_upstream_state V (snd (replay_log V l f)) = log_target l"
  using assms(2,3)
  by (auto simp: replay_log_def flow_simps assms(1) replay_prepare_log_def replay_commit_log_def
      replay_abort_log_def replay_clear_log_def replay_to_result Let_def logged_def)

end



end
