(* ===== verification/Tx_Messages.thy ===== *)
theory Tx_Messages
  imports Participants
begin

text \<open>What the messages of the protocol carry: the versions that the root collects for the commit
  version, and the receivers of a retransmission.\<close>

subsection \<open>The commit version\<close>

lemma scn_le_refl [simp]: "scn_le a a" by (simp add: scn_le_def)

lemma scn_le_trans: "\<lbrakk>scn_le a b; scn_le b c\<rbrakk> \<Longrightarrow> scn_le a c"
  using order_trans[of a b c] by (simp add: less_eq_SCN_def)

lemma scn_max_le: "scn_le a (scn_max a b)" "scn_le b (scn_max a b)"
  by (auto simp: scn_max_def scn_cmp_defs)

lemma apply_prepare_resp:
  assumes "tx_msg_type m = OB_MSG_TX_PREPARE_RESP" and "\<not> is_version_msg m" and "\<not> sub2pc_flag (exec_info c)"
  shows "fst (apply_cached_msg env m c) = OB_SUCCESS"
    "prepare_version (exec_info (snd (apply_cached_msg env m c))) = scn_max (msg_prepare_version m) (prepare_version (exec_info c))"
    "sub2pc_flag (exec_info (snd (apply_cached_msg env m c))) = sub2pc_flag (exec_info c)"
    "part_role (snd (apply_cached_msg env m c)) = part_role c"
  using assms by (simp_all add: apply_cached_msg_def flow_simps merge_prepare_log_info_def
      update_2pc_prepare_version_def part_role_def)

lemma apply_prepare_resps:
  assumes "\<forall>m\<in>set msgs. tx_msg_type m = OB_MSG_TX_PREPARE_RESP \<and> \<not> is_version_msg m"
    and "\<not> sub2pc_flag (exec_info c)"
  shows "fst (or_chain (map (apply_cached_msg env) msgs) c) = OB_SUCCESS
    \<and> part_role (snd (or_chain (map (apply_cached_msg env) msgs) c)) = part_role c
    \<and> scn_le (prepare_version (exec_info c)) (prepare_version (exec_info (snd (or_chain (map (apply_cached_msg env) msgs) c))))
    \<and> (\<forall>m\<in>set msgs. scn_le (msg_prepare_version m)
          (prepare_version (exec_info (snd (or_chain (map (apply_cached_msg env) msgs) c)))))"
  using assms
proof (induction msgs arbitrary: c)
  case Nil
  then show ?case by simp
next
  case (Cons m msgs)
  let ?c = "snd (apply_cached_msg env m c)"
  have m: "tx_msg_type m = OB_MSG_TX_PREPARE_RESP" "\<not> is_version_msg m" using Cons.prems(1) by simp_all
  note a = apply_prepare_resp[OF m Cons.prems(2), of env]
  let ?r = "or_chain (map (apply_cached_msg env) msgs) ?c"
  have o: "or_chain (map (apply_cached_msg env) (m # msgs)) c = ?r"
    using a(1) by (simp add: case_prod_beta)
  have p: "\<forall>m\<in>set msgs. tx_msg_type m = OB_MSG_TX_PREPARE_RESP \<and> \<not> is_version_msg m"
    "\<not> sub2pc_flag (exec_info ?c)"
    using Cons.prems a(3) by simp_all
  have ih: "fst ?r = OB_SUCCESS" "part_role (snd ?r) = part_role ?c"
    "scn_le (prepare_version (exec_info ?c)) (prepare_version (exec_info (snd ?r)))"
    "\<forall>m\<in>set msgs. scn_le (msg_prepare_version m) (prepare_version (exec_info (snd ?r)))"
    using Cons.IH[OF p] by blast+
  have "scn_le (msg_prepare_version m) (prepare_version (exec_info (snd ?r)))"
    "scn_le (prepare_version (exec_info c)) (prepare_version (exec_info (snd ?r)))"
    by (rule scn_le_trans[OF _ ih(3)], simp only: a(2) scn_max_le)+
  then show ?case unfolding o using ih a(4) by simp
qed



text \<open>C32: the failure to store the commit version is lost. When the transaction data of the root
  cannot be written, entering pre-commit still reports success without waiting, and the commit version
  has not been set; the committer then goes on to pre-commit.\<close>

theorem pre_commit_loses_failure:
  assumes "part_role c = ROOT" and "tx_data_writable env c \<noteq> OB_SUCCESS"
    and "restart_2pc_trans_timer env c = OB_SUCCESS"
  shows "part_do_pre_commit env c = (OB_SUCCESS, False, c)"
  using assms by (simp add: part_do_pre_commit_def set_commit_version_def Let_def)

theorem pre_commit_loses_failure_witness:
  "part_do_pre_commit (calm_env\<lparr>tx_data_writable := (\<lambda>_. OB_ERR_UNEXPECTED)\<rparr>) (sample_ctx 1 1 [1, 2])
   = (OB_SUCCESS, False, sample_ctx 1 1 [1, 2]) \<and> \<not> scn_is_valid (commit_version (sample_ctx 1 1 [1, 2]))"
proof -
  have "part_do_pre_commit (calm_env\<lparr>tx_data_writable := (\<lambda>_. OB_ERR_UNEXPECTED)\<rparr>) (sample_ctx 1 1 [1, 2])
     = (OB_SUCCESS, False, sample_ctx 1 1 [1, 2])"
    by (rule pre_commit_loses_failure)
       (simp_all add: sample_ctx_def part_role_def ls_id_is_valid_def INVALID_LS_ID_def calm_env_def)
  then show ?thesis by (simp add: sample_ctx_def)
qed

subsection \<open>Retransmission\<close>

definition is_request :: "ObTwoPhaseCommitMsgType \<Rightarrow> bool" where
  "is_request m \<longleftrightarrow> m \<in> {OB_MSG_TX_PREPARE_REDO_REQ, OB_MSG_TX_PREPARE_REQ, OB_MSG_TX_PRE_COMMIT_REQ,
     OB_MSG_TX_COMMIT_REQ, OB_MSG_TX_ABORT_REQ, OB_MSG_TX_CLEAR_REQ}"

lemma decide_downstream_request:
  "decide_downstream_msg_type V c = (OB_SUCCESS, True, m) \<Longrightarrow> is_request m"
  by (auto simp: decide_downstream_msg_type_def is_request_def split: ObTxState.splits if_splits)

lemma build_tx_common_msg_fields:
  "tx_msg_type (build_tx_common_msg r m c) = m \<and> msg_receiver (build_tx_common_msg r m c) = r
   \<and> msg_sender (build_tx_common_msg r m c) = ls_id c"
proof -
  have "tx_msg_type (foldl (\<lambda>msg part. if part_ls_id part = r
              then msg\<lparr>msg_epoch := exec_epoch part, msg_transfer_epoch := transfer_epoch part\<rparr> else msg) x parts) = tx_msg_type x
    \<and> msg_receiver (foldl (\<lambda>msg part. if part_ls_id part = r
              then msg\<lparr>msg_epoch := exec_epoch part, msg_transfer_epoch := transfer_epoch part\<rparr> else msg) x parts) = msg_receiver x
    \<and> msg_sender (foldl (\<lambda>msg part. if part_ls_id part = r
              then msg\<lparr>msg_epoch := exec_epoch part, msg_transfer_epoch := transfer_epoch part\<rparr> else msg) x parts) = msg_sender x"
    for x :: ObTxMsg and parts :: "ObTxExecPart list"
    by (induction parts arbitrary: x) simp_all
  then show ?thesis by (simp add: build_tx_common_msg_def)
qed

text \<open>One post of a request to a position: one message more, to that participant.\<close>

definition sent :: "ObPartTransCtx \<Rightarrow> (ObTwoPhaseCommitMsgType \<times> int \<times> int) list" where
  "sent c = map (\<lambda>msg. (tx_msg_type msg, msg_sender msg, msg_receiver msg)) (outbox c)"

definition routing :: "ObPartTransCtx \<Rightarrow> int list \<times> int set \<times> int" where
  "routing c = (participants (exec_info c), collected c, ls_id c)"

lemma rpc_send_sent:
  assumes "rpc_post env = (\<lambda>_ _. OB_SUCCESS)"
  shows "sent (snd (rpc_send env msg c)) = sent c @ [(tx_msg_type msg, msg_sender msg, msg_receiver msg)]"
    "routing (snd (rpc_send env msg c)) = routing c"
  using assms by (simp_all add: rpc_send_def sent_def routing_def)

lemma coord_info_sent:
  "sent (c\<lparr>coord_prepare_info_arr := x\<rparr>) = sent c" "routing (c\<lparr>coord_prepare_info_arr := x\<rparr>) = routing c"
  by (simp_all add: sent_def routing_def)

lemma post_request:
  assumes "rpc_post env = (\<lambda>_ _. OB_SUCCESS)" and "is_request m"
    and "i < length (participants (exec_info c))" and "length (participants (exec_info c)) < 2 ^ 62"
  shows "sent (snd (part_post_msg env m (int i) c)) = sent c @ [(m, ls_id c, participants (exec_info c) ! i)]"
    "routing (snd (part_post_msg env m (int i) c)) = routing c"
proof -
  have ids: "int i \<noteq> OB_C2PC_UPSTREAM_ID" "int i \<noteq> OB_C2PC_SENDER_ID"
    using assms(3,4) by (auto simp: OB_C2PC_UPSTREAM_ID_def OB_C2PC_SENDER_ID_def)
  have p: "part_post_msg env m (int i) c = post_msg_to env m (participants (exec_info c) ! i) c"
    using assms(3) ids by (simp add: part_post_msg_def Let_def)
  show "sent (snd (part_post_msg env m (int i) c)) = sent c @ [(m, ls_id c, participants (exec_info c) ! i)]"
    "routing (snd (part_post_msg env m (int i) c)) = routing c"
    using assms(2) unfolding p is_request_def insert_iff empty_iff
    by (elim disjE FalseE;
        simp add: post_msg_to_def Let_def rpc_send_sent[OF assms(1)] coord_info_sent build_tx_common_msg_fields)+
qed

lemma retransmit_loop:
  assumes "rpc_post env = (\<lambda>_ _. OB_SUCCESS)" and "is_request m"
    and "length (participants (exec_info c)) < 2 ^ 62" and "\<forall>i\<in>set is. i < length (participants (exec_info c))"
  shows "sent (foldl (\<lambda>c i. if i \<notin> collected c \<and> me \<noteq> i then snd (part_post_msg env m i c) else c) c (map int is))
      = sent c @ map (\<lambda>i. (m, ls_id c, participants (exec_info c) ! i)) (filter (\<lambda>i. int i \<notin> collected c \<and> int i \<noteq> me) is)"
  using assms(3,4)
proof (induction "is" arbitrary: c)
  case Nil
  then show ?case by simp
next
  case (Cons i "is")
  show ?case
  proof (cases "int i \<notin> collected c \<and> me \<noteq> int i")
    case True
    let ?c = "snd (part_post_msg env m (int i) c)"
    have i: "i < length (participants (exec_info c))" using Cons.prems(2) by simp
    note p = post_request[OF assms(1,2) i Cons.prems(1)]
    have r: "participants (exec_info ?c) = participants (exec_info c)" "collected ?c = collected c" "ls_id ?c = ls_id c"
      using p(2) by (simp_all add: routing_def)
    have ih: "sent (foldl (\<lambda>c i. if i \<notin> collected c \<and> me \<noteq> i then snd (part_post_msg env m i c) else c) ?c (map int is))
      = sent ?c @ map (\<lambda>i. (m, ls_id ?c, participants (exec_info ?c) ! i)) (filter (\<lambda>i. int i \<notin> collected ?c \<and> int i \<noteq> me) is)"
      using Cons.IH[of ?c] Cons.prems r by simp
    show ?thesis using True ih p(1) by (simp add: r)
  next
    case False
    then show ?thesis using Cons.IH[of c] Cons.prems by auto
  qed
qed

text \<open>C12: a retransmission of a root or an internal participant that is driven by its real upstream
  posts the request of the current phase exactly once to every participant that has not
  answered it, other than itself, in the order of the participants, and to nobody else.\<close>

theorem retransmit_reaches_the_silent:
  assumes "rpc_post env = (\<lambda>_ _. OB_SUCCESS)"
    and "part_role c \<in> {ROOT, INTERNAL}" and "part_real_upstream c"
    and "decide_downstream_msg_type (part_vtable env) c = (OB_SUCCESS, True, m)"
    and "length (participants (exec_info c)) < 2 ^ 62"
  shows "sent (snd (retransmit_downstream_msg (part_vtable env) c))
    = sent c @ map (\<lambda>i. (m, ls_id c, participants (exec_info c) ! i))
        (filter (\<lambda>i. int i \<notin> collected c \<and> int i \<noteq> fst (part_self_id c)) [0..<length (participants (exec_info c))])"
proof -
  let ?c = "snd (part_self_id c)"
  have r: "participants (exec_info ?c) = participants (exec_info c)" "collected ?c = collected c" "ls_id ?c = ls_id c"
    "sent ?c = sent c" "upstream_state ?c = upstream_state c" "sub2pc_flag (exec_info ?c) = sub2pc_flag (exec_info c)"
    by (simp_all add: part_self_id_def Let_def sent_def)
  have d: "decide_downstream_msg_type (part_vtable env) ?c = (OB_SUCCESS, True, m)"
    using assms(4) r by (cases "upstream_state c") (simp_all add: decide_downstream_msg_type_def)
  have ids: "downstream_ids (part_vtable env) ?c = map int [0..<length (participants (exec_info c))]"
    using r by (simp add: downstream_ids_def part_downstream_size_def)
  have role: "is_root (part_vtable env) c \<or> is_internal (part_vtable env) c" "is_real_upstream (part_vtable env) c"
    using assms(2,3) by (auto simp: is_root_def is_internal_def)
  have "snd (retransmit_downstream_msg (part_vtable env) c)
      = foldl (\<lambda>x i. if i \<notin> collected x \<and> fst (part_self_id c) \<noteq> i then snd (part_post_msg env m i x) else x) ?c
          (map int [0..<length (participants (exec_info c))])"
    using role d ids
    by (simp add: retransmit_downstream_msg_def case_prod_beta flow_simps cong: if_cong)
  then show ?thesis
    using retransmit_loop[OF assms(1) decide_downstream_request[OF d], of ?c "[0..<length (participants (exec_info c))]"
        "fst (part_self_id c)"] assms(5) by (simp add: r)
qed

theorem retransmit_reaches_the_silent_witness:
  "sent (snd (retransmit_downstream_msg (part_vtable calm_env)
       ((sample_ctx 1 1 [1, 2, 3, 4])\<lparr>upstream_state := PREPARE, collected := {2}\<rparr>)))
   = [(OB_MSG_TX_PREPARE_REQ, 1, 2), (OB_MSG_TX_PREPARE_REQ, 1, 4)]"
proof -
  let ?c = "(sample_ctx 1 1 [1, 2, 3, 4])\<lparr>upstream_state := PREPARE, collected := {2}\<rparr>"
  have h: "part_role ?c \<in> {ROOT, INTERNAL}" "part_real_upstream ?c"
    "decide_downstream_msg_type (part_vtable calm_env) ?c = (OB_SUCCESS, True, OB_MSG_TX_PREPARE_REQ)"
    by code_simp+
  have l: "length (participants (exec_info ?c)) < 2 ^ 62" by (simp add: sample_ctx_def)
  have "rpc_post calm_env = (\<lambda>_ _. OB_SUCCESS)" by (simp add: calm_env_def)
  from retransmit_reaches_the_silent[OF this h l] show ?thesis
    by (simp add: sample_ctx_def part_self_id_def find_participant_id_def sent_def upt_rec)
qed

end
