(* ===== verification/Serialization.thy ===== *)
theory Serialization
  imports Scn Lsn
begin

text \<open>
  The fixed-width integers of \<^verbatim>\<open>lib/utility/serialization.h\<close> in big-endian order, the change number
  and the sequence number built on them (\<^verbatim>\<open>scn.cpp\<close>, \<^verbatim>\<open>lsn.cpp\<close>), and the parity of
  \<^verbatim>\<open>lib/checksum/ob_parity_check.cpp\<close>. A buffer is a list of bytes whose length is \<^verbatim>\<open>buf_len\<close>, or
  \<^const>\<open>None\<close> for a null pointer; a position is a natural number. An encoder maps a buffer and a
  position to a code and both again; a decoder returns the value, if it has one, and the position.
\<close>

type_synonym buffer = "byte list option"
type_synonym writer = "buffer \<times> nat"

subsection \<open>Integers\<close>

definition bytes_i16 :: "u16 \<Rightarrow> byte list" where
  "bytes_i16 v = [ucast (drop_bit 8 v), ucast v]"

definition bytes_i32 :: "u32 \<Rightarrow> byte list" where
  "bytes_i32 v = [ucast (drop_bit 24 v), ucast (drop_bit 16 v), ucast (drop_bit 8 v), ucast v]"

definition bytes_i64 :: "u64 \<Rightarrow> byte list" where
  "bytes_i64 v =
     [ucast (drop_bit 56 v), ucast (drop_bit 48 v), ucast (drop_bit 40 v), ucast (drop_bit 32 v),
      ucast (drop_bit 24 v), ucast (drop_bit 16 v), ucast (drop_bit 8 v), ucast v]"

definition put_bytes :: "byte list \<Rightarrow> writer \<Rightarrow> ob_ret \<times> writer" where
  "put_bytes bs w =
     (case w of (buf, pos) \<Rightarrow>
        case buf of
          None \<Rightarrow> (OB_SIZE_OVERFLOW, w)
        | Some xs \<Rightarrow>
            if int (length xs) - int pos \<ge> int (length bs)
            then (OB_SUCCESS, (Some (overwrite xs pos bs), pos + length bs))
            else (OB_SIZE_OVERFLOW, w))"

definition encode_i8 :: "byte \<Rightarrow> writer \<Rightarrow> ob_ret \<times> writer" where
  "encode_i8 v = put_bytes [v]"

definition encode_i16 :: "u16 \<Rightarrow> writer \<Rightarrow> ob_ret \<times> writer" where
  "encode_i16 v = put_bytes (bytes_i16 v)"

definition encode_i32 :: "u32 \<Rightarrow> writer \<Rightarrow> ob_ret \<times> writer" where
  "encode_i32 v = put_bytes (bytes_i32 v)"

definition encode_i64 :: "u64 \<Rightarrow> writer \<Rightarrow> ob_ret \<times> writer" where
  "encode_i64 v = put_bytes (bytes_i64 v)"

definition get_bytes :: "nat \<Rightarrow> buffer \<Rightarrow> nat \<Rightarrow> byte list option" where
  "get_bytes n buf pos =
     (case buf of
        None \<Rightarrow> None
      | Some xs \<Rightarrow> if int (length xs) - int pos \<ge> int n then Some (take n (drop pos xs)) else None)"

definition value_i16 :: "byte list \<Rightarrow> u16" where
  "value_i16 bs = push_bit 8 (ucast (bs ! 0)) OR ucast (bs ! 1)"

definition value_i32 :: "byte list \<Rightarrow> u32" where
  "value_i32 bs = push_bit 24 (ucast (bs ! 0)) OR push_bit 16 (ucast (bs ! 1))
     OR push_bit 8 (ucast (bs ! 2)) OR ucast (bs ! 3)"

definition value_i64 :: "byte list \<Rightarrow> u64" where
  "value_i64 bs = push_bit 56 (ucast (bs ! 0)) OR push_bit 48 (ucast (bs ! 1))
     OR push_bit 40 (ucast (bs ! 2)) OR push_bit 32 (ucast (bs ! 3))
     OR push_bit 24 (ucast (bs ! 4)) OR push_bit 16 (ucast (bs ! 5))
     OR push_bit 8 (ucast (bs ! 6)) OR ucast (bs ! 7)"

definition decode_i8 :: "buffer \<Rightarrow> nat \<Rightarrow> ob_ret \<times> byte option \<times> nat" where
  "decode_i8 buf pos =
     (case get_bytes 1 buf pos of
        None \<Rightarrow> (OB_DESERIALIZE_ERROR, None, pos)
      | Some bs \<Rightarrow> (OB_SUCCESS, Some (bs ! 0), pos + 1))"

definition decode_i16 :: "buffer \<Rightarrow> nat \<Rightarrow> ob_ret \<times> u16 option \<times> nat" where
  "decode_i16 buf pos =
     (case get_bytes 2 buf pos of
        None \<Rightarrow> (OB_DESERIALIZE_ERROR, None, pos)
      | Some bs \<Rightarrow> (OB_SUCCESS, Some (value_i16 bs), pos + 2))"

definition decode_i32 :: "buffer \<Rightarrow> nat \<Rightarrow> ob_ret \<times> u32 option \<times> nat" where
  "decode_i32 buf pos =
     (case get_bytes 4 buf pos of
        None \<Rightarrow> (OB_DESERIALIZE_ERROR, None, pos)
      | Some bs \<Rightarrow> (OB_SUCCESS, Some (value_i32 bs), pos + 4))"

definition decode_i64 :: "buffer \<Rightarrow> nat \<Rightarrow> ob_ret \<times> u64 option \<times> nat" where
  "decode_i64 buf pos =
     (case get_bytes 8 buf pos of
        None \<Rightarrow> (OB_DESERIALIZE_ERROR, None, pos)
      | Some bs \<Rightarrow> (OB_SUCCESS, Some (value_i64 bs), pos + 8))"

text \<open>Between the bytes and the value nothing is lost in either direction.\<close>

lemma length_bytes [simp]:
  "length (bytes_i16 a) = 2" "length (bytes_i32 b) = 4" "length (bytes_i64 c) = 8"
  by (simp_all add: bytes_i16_def bytes_i32_def bytes_i64_def)

lemma join_byte:
  fixes v :: "'a::len word"
  shows "push_bit k (ucast (ucast (drop_bit k v) :: byte)) OR take_bit k v = take_bit (k + 8) v"
  by (rule bit_word_eqI) (auto simp: bit_simps)

lemma low_byte: "ucast (ucast v :: byte) = take_bit 8 (v :: 'a::len word)"
  by (rule bit_word_eqI) (auto simp: bit_simps)

lemma value_bytes_i16 [simp]: "value_i16 (bytes_i16 v) = v"
  using join_byte[of 8 v] by (simp add: value_i16_def bytes_i16_def low_byte take_bit_word_eq_self)

lemma value_bytes_i32 [simp]: "value_i32 (bytes_i32 v) = v"
  using join_byte[of 8 v] join_byte[of 16 v] join_byte[of 24 v]
  by (simp add: value_i32_def bytes_i32_def low_byte take_bit_word_eq_self)

lemma value_bytes_i64 [simp]: "value_i64 (bytes_i64 v) = v"
  using join_byte[of 8 v] join_byte[of 16 v] join_byte[of 24 v] join_byte[of 32 v] join_byte[of 40 v]
    join_byte[of 48 v] join_byte[of 56 v]
  by (simp add: value_i64_def bytes_i64_def low_byte take_bit_word_eq_self)

text \<open>The other direction: each byte is found again at its place.\<close>

lemma byte_high: "8 \<le> n \<Longrightarrow> \<not> bit (b :: byte) n"
  using bit_imp_le_length[of b n] by auto

lemma bytes_value_i16:
  assumes "length bs = 2" shows "bytes_i16 (value_i16 bs) = bs"
proof -
  from assms obtain a b where "bs = [a, b]" by (auto simp: numeral_2_eq_2 length_Suc_conv)
  then show ?thesis
    by (simp add: bytes_i16_def value_i16_def) (intro conjI bit_word_eqI; simp add: bit_simps byte_high)
qed

lemma bytes_value_i32:
  assumes "length bs = 4" shows "bytes_i32 (value_i32 bs) = bs"
proof -
  from assms obtain a b c d where "bs = [a, b, c, d]" by (auto simp: eval_nat_numeral length_Suc_conv)
  then show ?thesis
    by (simp add: bytes_i32_def value_i32_def) (intro conjI bit_word_eqI; simp add: bit_simps byte_high)
qed

lemma bytes_value_i64:
  assumes "length bs = 8" shows "bytes_i64 (value_i64 bs) = bs"
proof -
  from assms obtain a b c d e f g h where "bs = [a, b, c, d, e, f, g, h]"
    by (auto simp: eval_nat_numeral length_Suc_conv)
  then show ?thesis
    by (simp add: bytes_i64_def value_i64_def) (intro conjI bit_word_eqI; simp add: bit_simps byte_high)
qed

subsection \<open>Change numbers and sequence numbers\<close>

definition empty_buffer :: "buffer \<Rightarrow> bool" where
  "empty_buffer buf \<longleftrightarrow> (case buf of None \<Rightarrow> True | Some xs \<Rightarrow> xs = [])"

definition scn_fixed_serialize :: "SCN \<Rightarrow> writer \<Rightarrow> ob_ret \<times> writer" where
  "scn_fixed_serialize s w =
     (if empty_buffer (fst w) then (OB_INVALID_ARGUMENT, w) else encode_i64 (scn_val s) w)"

definition fixed_deserialize_without_transform :: "buffer \<Rightarrow> nat \<Rightarrow> ob_ret \<times> SCN option \<times> nat" where
  "fixed_deserialize_without_transform buf pos =
     (if empty_buffer buf then (OB_INVALID_ARGUMENT, None, pos)
      else case decode_i64 buf pos of (ret, v, new_pos) \<Rightarrow>
        if ret \<noteq> OB_SUCCESS then (ret, map_option SCN v, pos) else (OB_SUCCESS, map_option SCN v, new_pos))"

definition scn_fixed_deserialize :: "buffer \<Rightarrow> nat \<Rightarrow> ob_ret \<times> SCN option \<times> nat" where
  "scn_fixed_deserialize buf pos =
     (case fixed_deserialize_without_transform buf pos of (ret, v, new_pos) \<Rightarrow>
        if ret \<noteq> OB_SUCCESS then (ret, v, new_pos) else (OB_SUCCESS, map_option transform_max v, new_pos))"

text \<open>The guard of the sequence number joins its two tests with \<^verbatim>\<open>&&\<close>; a null pointer comes with
  length 0 here, so both tests agree then.\<close>

definition lsn_serialize :: "LSN \<Rightarrow> writer \<Rightarrow> ob_ret \<times> writer" where
  "lsn_serialize l w =
     (if fst w = None then (OB_INVALID_ARGUMENT, w)
      else case encode_i64 (lsn_val l) w of (ret, w1) \<Rightarrow>
        if ret \<noteq> OB_SUCCESS then (OB_BUF_NOT_ENOUGH, (fst w1, snd w)) else (OB_SUCCESS, w1))"

definition lsn_deserialize :: "buffer \<Rightarrow> nat \<Rightarrow> ob_ret \<times> LSN option \<times> nat" where
  "lsn_deserialize buf pos =
     (if buf = None then (OB_INVALID_ARGUMENT, None, pos)
      else case decode_i64 buf pos of (ret, v, new_pos) \<Rightarrow>
        if ret \<noteq> OB_SUCCESS then (OB_BUF_NOT_ENOUGH, map_option LSN v, pos)
        else (OB_SUCCESS, map_option LSN v, new_pos))"

subsection \<open>Chains of encoders\<close>

lemma put_bytes_fits [codec_simps]:
  "pos + length bs \<le> length xs \<Longrightarrow>
   put_bytes bs (Some xs, pos) = (OB_SUCCESS, (Some (overwrite xs pos bs), pos + length bs))"
  by (simp add: put_bytes_def)

lemma put_chain:
  assumes "pos + length (concat bss) \<le> length xs"
  shows "or_chain (map put_bytes bss) (Some xs, pos)
    = (OB_SUCCESS, (Some (overwrite xs pos (concat bss)), pos + length (concat bss)))"
  using assms
proof (induction bss arbitrary: xs pos)
  case Nil
  then show ?case by simp
next
  case (Cons bs bss)
  have "or_chain (map put_bytes (bs # bss)) (Some xs, pos)
      = or_chain (map put_bytes bss) (Some (overwrite xs pos bs), pos + length bs)"
    using Cons.prems by (simp add: put_bytes_fits)
  also have "\<dots> = (OB_SUCCESS, (Some (overwrite (overwrite xs pos bs) (pos + length bs) (concat bss)),
      pos + length bs + length (concat bss)))"
    using Cons.prems by (intro Cons.IH) simp
  finally show ?case using Cons.prems by (simp add: overwrite_append)
qed

lemma scn_serialize_put: "xs \<noteq> [] \<Longrightarrow> scn_fixed_serialize s (Some xs, pos) = put_bytes (bytes_i64 (scn_val s)) (Some xs, pos)"
  by (simp add: scn_fixed_serialize_def empty_buffer_def encode_i64_def)

text \<open>An encoder that fails leaves the position and writes nothing; the chains below do not depend
  on the code it fails with.\<close>

lemma lsn_serialize_put:
  "fst (lsn_serialize l (Some xs, pos)) = OB_SUCCESS \<longleftrightarrow> fst (put_bytes (bytes_i64 (lsn_val l)) (Some xs, pos)) = OB_SUCCESS"
  "snd (lsn_serialize l (Some xs, pos)) = snd (put_bytes (bytes_i64 (lsn_val l)) (Some xs, pos))"
  by (auto simp: lsn_serialize_def encode_i64_def put_bytes_def)

text \<open>Reading at a position inside the bytes of a header.\<close>

lemma get_bytes_at:
  "pos + n \<le> length xs \<Longrightarrow> get_bytes n (Some xs) pos = Some (take n (drop pos xs))"
  by (simp add: get_bytes_def)

lemma decode_fits [codec_simps]:
  "pos + 2 \<le> length xs \<Longrightarrow> decode_i16 (Some xs) pos = (OB_SUCCESS, Some (value_i16 (take 2 (drop pos xs))), pos + 2)"
  "pos + 4 \<le> length xs \<Longrightarrow> decode_i32 (Some xs) pos = (OB_SUCCESS, Some (value_i32 (take 4 (drop pos xs))), pos + 4)"
  "pos + 8 \<le> length xs \<Longrightarrow> decode_i64 (Some xs) pos = (OB_SUCCESS, Some (value_i64 (take 8 (drop pos xs))), pos + 8)"
  "pos + 8 \<le> length xs \<Longrightarrow> scn_fixed_deserialize (Some xs) pos
     = (OB_SUCCESS, Some (transform_max (SCN (value_i64 (take 8 (drop pos xs))))), pos + 8)"
  "pos + 8 \<le> length xs \<Longrightarrow> lsn_deserialize (Some xs) pos
     = (OB_SUCCESS, Some (LSN (value_i64 (take 8 (drop pos xs)))), pos + 8)"
  by (auto simp: decode_i16_def decode_i32_def decode_i64_def scn_fixed_deserialize_def lsn_deserialize_def
      fixed_deserialize_without_transform_def empty_buffer_def get_bytes_at)

lemma transform_max_valid [simp]: "scn_is_valid s \<Longrightarrow> transform_max s = s"
  by (auto simp: transform_max_def valid_iff_uint INT64_MAX_def uint_of_int_small)

subsection \<open>Parity\<close>

text \<open>The table is built from its macros; the folding halves the word until one byte is left.\<close>

definition parity_p2 :: "bool \<Rightarrow> bool list" where
  "parity_p2 n = [n, n \<noteq> True, n \<noteq> True, n]"

definition parity_p4 :: "bool \<Rightarrow> bool list" where
  "parity_p4 n = parity_p2 n @ parity_p2 (n \<noteq> True) @ parity_p2 (n \<noteq> True) @ parity_p2 n"

definition parity_p6 :: "bool \<Rightarrow> bool list" where
  "parity_p6 n = parity_p4 n @ parity_p4 (n \<noteq> True) @ parity_p4 (n \<noteq> True) @ parity_p4 n"

definition ParityTable :: "bool list" where
  "ParityTable = parity_p6 False @ parity_p6 True @ parity_p6 True @ parity_p6 False"

definition parity_check_u16 :: "u16 \<Rightarrow> bool" where
  "parity_check_u16 v = (let v = v XOR drop_bit 8 v in ParityTable ! unat (v AND 0xff))"

definition parity_check_u32 :: "u32 \<Rightarrow> bool" where
  "parity_check_u32 v =
     (let v = v XOR drop_bit 16 v; v = v XOR drop_bit 8 v in ParityTable ! unat (v AND 0xff))"

definition parity_check_u64 :: "u64 \<Rightarrow> bool" where
  "parity_check_u64 v =
     (let v = v XOR drop_bit 32 v; v = v XOR drop_bit 16 v; v = v XOR drop_bit 8 v
      in ParityTable ! unat (v AND 0xff))"

text \<open>The specification: whether the number of ones among the low bits is odd.\<close>

fun odd_ones :: "nat \<Rightarrow> 'a::len word \<Rightarrow> bool" where
  "odd_ones 0 w = False"
| "odd_ones (Suc n) w = (odd_ones n w \<noteq> bit w n)"

lemma odd_ones_card: "odd_ones n w \<longleftrightarrow> odd (card {i. i < n \<and> bit w i})"
proof (induction n)
  case 0
  then show ?case by simp
next
  case (Suc n)
  have "{i. i < Suc n \<and> bit w i} = (if bit w n then insert n {i. i < n \<and> bit w i} else {i. i < n \<and> bit w i})"
    by (auto simp: less_Suc_eq)
  then show ?case using Suc by simp
qed

lemma odd_ones_xor: "odd_ones n (a XOR b) = (odd_ones n a \<noteq> odd_ones n b)"
  by (induction n) (auto simp: bit_simps)

lemma odd_ones_add: "odd_ones (m + n) w = (odd_ones m w \<noteq> odd_ones n (drop_bit m w))"
  by (induction n) (auto simp: bit_simps)

lemma odd_ones_cong: "(\<And>i. i < n \<Longrightarrow> bit a i = bit b i) \<Longrightarrow> odd_ones n a = odd_ones n b"
  by (induction n) auto

lemma odd_ones_fold: "odd_ones n (w XOR drop_bit n w) = odd_ones (n + n) w"
  by (simp add: odd_ones_xor odd_ones_add)

lemma parity_table:
  fixes w :: "'a::len word"
  assumes "8 \<le> LENGTH('a)"
  shows "ParityTable ! unat (w AND 0xff) = odd_ones 8 w"
proof -
  have t: "\<forall>i\<in>set [0..<256]. ParityTable ! i = odd_ones 8 (of_nat i :: byte)" by code_simp
  let ?b = "ucast w :: byte"
  have "(0xff :: 'a word) = mask 8" by (simp add: mask_eq_exp_minus_1)
  then have "w AND 0xff = ucast ?b" by (simp add: low_byte take_bit_eq_mask)
  then have "uint (w AND 0xff) = uint ?b" using assms by (simp add: uint_ucast_up)
  then have "unat (w AND 0xff) = unat ?b" by (simp only: unat_eq_nat_uint)
  moreover have "unat ?b < 256" using unsigned_less[of ?b] by simp
  ultimately have "ParityTable ! unat (w AND 0xff) = odd_ones 8 ?b" using t by simp
  also have "\<dots> = odd_ones 8 w" by (rule odd_ones_cong) (simp add: bit_simps)
  finally show ?thesis .
qed

lemma parity_checks [simp]:
  "parity_check_u16 a = odd_ones 16 a" "parity_check_u32 b = odd_ones 32 b" "parity_check_u64 c = odd_ones 64 c"
  using odd_ones_fold[of 8 a] odd_ones_fold[of 8 "b XOR drop_bit 16 b"] odd_ones_fold[of 16 b]
    odd_ones_fold[of 8 "(c XOR drop_bit 32 c) XOR drop_bit 16 (c XOR drop_bit 32 c)"]
    odd_ones_fold[of 16 "c XOR drop_bit 32 c"] odd_ones_fold[of 32 c]
  by (simp_all add: parity_check_u16_def parity_check_u32_def parity_check_u64_def Let_def parity_table
      del: drop_bit_xor)

text \<open>The parity of a run of bytes, and that it is the parity of the integers they encode.\<close>

definition odd_bytes :: "byte list \<Rightarrow> bool" where
  "odd_bytes bs = foldr (\<lambda>b p. odd_ones 8 b \<noteq> p) bs False"

lemma odd_bytes_simps [simp]:
  "odd_bytes [] = False" "odd_bytes (b # bs) = (odd_ones 8 b \<noteq> odd_bytes bs)"
  by (simp_all add: odd_bytes_def)

lemma odd_bytes_append [simp]: "odd_bytes (as @ bs) = (odd_bytes as \<noteq> odd_bytes bs)"
  by (induction as) auto

lemma odd_ones_byte: "odd_ones 8 (ucast w :: byte) = odd_ones 8 (w :: 'a::len word)"
  by (rule odd_ones_cong) (simp add: bit_simps)

lemma odd_bytes_cons_byte:
  "odd_bytes bs = odd_ones k c \<Longrightarrow> odd_bytes (ucast (drop_bit k c) # bs) = odd_ones (k + 8) (c :: 'a::len word)"
  by (auto simp: odd_ones_add odd_ones_byte simp del: odd_ones.simps)

lemma odd_bytes_ints [simp]:
  "odd_bytes (bytes_i16 a) = odd_ones 16 a" "odd_bytes (bytes_i32 b) = odd_ones 32 b"
  "odd_bytes (bytes_i64 c) = odd_ones 64 c"
proof -
  have s1: "odd_bytes [ucast w] = odd_ones 8 w" for w :: "'b::len word"
    by (simp add: odd_ones_byte del: odd_ones.simps)
  have s2: "odd_bytes [ucast (drop_bit 8 w), ucast w] = odd_ones 16 w" for w :: "'b::len word"
    using odd_bytes_cons_byte[OF s1, of w] by (simp del: odd_bytes_simps)
  have s3: "odd_bytes [ucast (drop_bit 16 w), ucast (drop_bit 8 w), ucast w] = odd_ones 24 w" for w :: "'b::len word"
    using odd_bytes_cons_byte[OF s2, of w] by (simp del: odd_bytes_simps)
  have s4: "odd_bytes [ucast (drop_bit 24 w), ucast (drop_bit 16 w), ucast (drop_bit 8 w), ucast w] = odd_ones 32 w" for w :: "'b::len word"
    using odd_bytes_cons_byte[OF s3, of w] by (simp del: odd_bytes_simps)
  have s5: "odd_bytes [ucast (drop_bit 32 w), ucast (drop_bit 24 w), ucast (drop_bit 16 w), ucast (drop_bit 8 w), ucast w] = odd_ones 40 w" for w :: "'b::len word"
    using odd_bytes_cons_byte[OF s4, of w] by (simp del: odd_bytes_simps)
  have s6: "odd_bytes [ucast (drop_bit 40 w), ucast (drop_bit 32 w), ucast (drop_bit 24 w), ucast (drop_bit 16 w), ucast (drop_bit 8 w), ucast w] = odd_ones 48 w" for w :: "'b::len word"
    using odd_bytes_cons_byte[OF s5, of w] by (simp del: odd_bytes_simps)
  have s7: "odd_bytes [ucast (drop_bit 48 w), ucast (drop_bit 40 w), ucast (drop_bit 32 w), ucast (drop_bit 24 w), ucast (drop_bit 16 w), ucast (drop_bit 8 w), ucast w] = odd_ones 56 w" for w :: "'b::len word"
    using odd_bytes_cons_byte[OF s6, of w] by (simp del: odd_bytes_simps)
  have s8: "odd_bytes [ucast (drop_bit 56 w), ucast (drop_bit 48 w), ucast (drop_bit 40 w), ucast (drop_bit 32 w), ucast (drop_bit 24 w), ucast (drop_bit 16 w), ucast (drop_bit 8 w), ucast w] = odd_ones 64 w" for w :: "'b::len word"
    using odd_bytes_cons_byte[OF s7, of w] by (simp del: odd_bytes_simps)
  show "odd_bytes (bytes_i16 a) = odd_ones 16 a" using s2[of a] by (simp only: bytes_i16_def)
  show "odd_bytes (bytes_i32 b) = odd_ones 32 b" using s4[of b] by (simp only: bytes_i32_def)
  show "odd_bytes (bytes_i64 c) = odd_ones 64 c" using s8[of c] by (simp only: bytes_i64_def)
qed

text \<open>One flipped bit.\<close>

definition flip_bit_at :: "nat \<Rightarrow> nat \<Rightarrow> byte list \<Rightarrow> byte list" where
  "flip_bit_at i k bs = bs[i := flip_bit k (bs ! i)]"

lemma odd_ones_flip: "k < n \<Longrightarrow> n \<le> LENGTH('a) \<Longrightarrow> odd_ones n (flip_bit k (w :: 'a::len word)) \<longleftrightarrow> \<not> odd_ones n w"
proof (induction n)
  case (Suc n)
  show ?case
  proof (cases "k = n")
    case True
    have "odd_ones n (flip_bit k w) = odd_ones n w"
      using True Suc.prems by (intro odd_ones_cong) (auto simp: bit_simps)
    then show ?thesis using True Suc.prems by (auto simp: bit_simps)
  next
    case False
    then show ?thesis using Suc by (auto simp: bit_simps)
  qed
qed simp

lemma odd_bytes_flip:
  "\<lbrakk>i < length bs; k < 8\<rbrakk> \<Longrightarrow> odd_bytes (flip_bit_at i k bs) \<longleftrightarrow> \<not> odd_bytes bs"
  unfolding flip_bit_at_def
proof (induction bs arbitrary: i)
  case (Cons b bs)
  then show ?case by (cases i) (auto simp: odd_ones_flip simp del: odd_ones.simps)
qed simp

end
