(* ===== verification/Log_Entry_Header.thy ===== *)
theory Log_Entry_Header
  imports Serialization
begin

text \<open>
  The headers in front of a single log entry: \<^verbatim>\<open>LogEntryHeader\<close> (\<^verbatim>\<open>palf/log_entry_header.cpp\<close>), the
  entry it starts (\<^verbatim>\<open>palf/log_entry.cpp\<close>), and \<^verbatim>\<open>ObLogBaseHeader\<close> (\<^verbatim>\<open>ob_log_base_header.cpp\<close>) that the
  services put in front of their payload. The function \<open>crc\<close> stands for \<^verbatim>\<open>common::ob_crc64\<close>, a
  function pointer that is set by the type of the processor; the theory of the checksum relates its
  targets. Memory read through a pointer is a list of bytes that starts there.
\<close>

type_synonym crc64 = "u64 \<Rightarrow> byte list \<Rightarrow> u64"

subsection \<open>A header as a codec of fixed width\<close>

text \<open>
  What the two headers have in common, and what follows from it: written bytes are read back, and
  a header with one bit flipped is never accepted as another header.
\<close>

definition read_field ::
    "(buffer \<Rightarrow> nat \<Rightarrow> ob_ret \<times> 'v option \<times> nat) \<Rightarrow> ('v \<Rightarrow> 'h \<Rightarrow> 'h) \<Rightarrow> buffer \<Rightarrow> 'h \<times> nat \<Rightarrow> ob_ret \<times> 'h \<times> nat" where
  "read_field dec upd buf s =
     (case s of (h, pos) \<Rightarrow> case dec buf pos of (ret, v, new_pos) \<Rightarrow>
        (ret, (case v of None \<Rightarrow> h | Some x \<Rightarrow> upd x h), new_pos))"

definition reads :: "nat \<Rightarrow> nat \<Rightarrow> ('h \<times> nat \<Rightarrow> ob_ret \<times> 'h \<times> nat) \<Rightarrow> bool" where
  "reads len n f \<longleftrightarrow> (\<forall>h p. fst (f (h, p)) = OB_SUCCESS \<longrightarrow> p + n \<le> len \<and> snd (snd (f (h, p))) = p + n)"

lemma reads_fields:
  "reads (length xs) 2 (read_field decode_i16 u1 (Some xs))" "reads (length xs) 4 (read_field decode_i32 u2 (Some xs))"
  "reads (length xs) 8 (read_field decode_i64 u3 (Some xs))" "reads (length xs) 8 (read_field lsn_deserialize u4 (Some xs))"
  "reads (length xs) 8 (read_field scn_fixed_deserialize u5 (Some xs))"
  by (auto simp: reads_def read_field_def decode_i16_def decode_i32_def decode_i64_def get_bytes_def
      lsn_deserialize_def scn_fixed_deserialize_def fixed_deserialize_without_transform_def)

lemma chain_reads:
  "\<lbrakk>list_all2 (reads len) ns fs; fst (or_chain fs (h, p)) = OB_SUCCESS; fs \<noteq> []\<rbrakk> \<Longrightarrow> p + sum_list ns \<le> len"
proof (induction fs arbitrary: ns h p)
  case (Cons f fs)
  then obtain n ns' where ns: "ns = n # ns'" and f: "reads len n f" and fs: "list_all2 (reads len) ns' fs"
    by (auto simp: list_all2_Cons2)
  obtain ret h1 p1 where e: "f (h, p) = (ret, h1, p1)" by (metis prod_cases3)
  then have "ret = OB_SUCCESS" using Cons.prems(2) by (auto split: if_splits)
  then have "p + n \<le> len \<and> p1 = p + n" "fst (or_chain fs (h1, p1)) = OB_SUCCESS"
    using f[unfolded reads_def, rule_format, of h p] e Cons.prems(2) by simp_all
  then show ?case using Cons.IH[OF fs, of h1 p1] ns fs by (cases "fs = []") auto
qed simp

locale header_codec =
  fixes width :: nat
    and to_bytes :: "'h \<Rightarrow> byte list"
    and of_bytes :: "byte list \<Rightarrow> 'h"
    and intact :: "'h \<Rightarrow> bool"
    and ser :: "'h \<Rightarrow> writer \<Rightarrow> ob_ret \<times> writer"
    and deser :: "'h \<Rightarrow> buffer \<Rightarrow> nat \<Rightarrow> ob_ret \<times> 'h \<times> nat"
  assumes length_to_bytes: "length (to_bytes h) = width"
    and of_to: "intact h \<Longrightarrow> of_bytes (to_bytes h) = h"
    and intact_even: "intact h \<Longrightarrow> \<not> odd_bytes (to_bytes h)"
    and ser_fits: "pos + width \<le> length xs \<Longrightarrow>
      ser h (Some xs, pos) = (OB_SUCCESS, (Some (overwrite xs pos (to_bytes h)), pos + width))"
    and deser_fits: "pos + width \<le> length xs \<Longrightarrow>
      deser h0 (Some xs) pos = (let h = of_bytes (take width (drop pos xs)) in
        if intact h then (OB_SUCCESS, h, pos + width) else (OB_INVALID_DATA, h, pos))"
    and deser_short: "length xs < pos + width \<Longrightarrow>
      fst (deser h0 (Some xs) pos) \<in> {OB_INVALID_ARGUMENT, OB_BUF_NOT_ENOUGH} \<and> snd (snd (deser h0 (Some xs) pos)) = pos"
    and flip_masked: "\<lbrakk>intact h; i < width; k < 8; intact (of_bytes (flip_bit_at i k (to_bytes h)));
      to_bytes (of_bytes (flip_bit_at i k (to_bytes h))) \<noteq> flip_bit_at i k (to_bytes h)\<rbrakk>
      \<Longrightarrow> of_bytes (flip_bit_at i k (to_bytes h)) = h"
begin

lemma roundtrip:
  assumes "intact h" and "pos + width \<le> length xs"
  shows "deser h0 (fst (snd (ser h (Some xs, pos)))) pos = (OB_SUCCESS, h, pos + width)"
proof -
  have "pos + length (to_bytes h) \<le> length xs" using assms length_to_bytes by simp
  then have "take width (drop pos (overwrite xs pos (to_bytes h))) = to_bytes h"
    using take_drop_overwrite length_to_bytes by metis
  then show ?thesis
    using assms by (simp add: ser_fits deser_fits length_to_bytes of_to)
qed

lemma flip_detected:
  assumes "intact h" and "i < width" and "k < 8"
    and "deser h0 (Some (flip_bit_at i k (to_bytes h))) 0 = (OB_SUCCESS, h', n)"
  shows "h' = h"
proof -
  let ?bs = "flip_bit_at i k (to_bytes h)"
  have len: "length ?bs = width" by (simp add: flip_bit_at_def length_to_bytes)
  then have h': "h' = of_bytes ?bs" "intact (of_bytes ?bs)"
    using assms(4) deser_fits[of 0 ?bs h0] by (auto simp: Let_def split: if_splits)
  have "odd_bytes ?bs" using assms intact_even odd_bytes_flip length_to_bytes by metis
  then have "to_bytes (of_bytes ?bs) \<noteq> ?bs" using h' intact_even by metis
  then show ?thesis using flip_masked assms h' by simp
qed

end

subsection \<open>The header of the services\<close>

record ObLogBaseHeader =
  lbh_version :: u16
  lbh_log_type :: u16
  lbh_flag :: u32
  lbh_replay_hint :: u64

datatype ObReplayBarrierType = INVALID_BARRIER | STRICT_BARRIER | PRE_BARRIER | NO_NEED_BARRIER

definition BASE_HEADER_VERSION :: u16 where "BASE_HEADER_VERSION = 1"
definition PADDING_LOG_BASE_TYPE :: u16 where "PADDING_LOG_BASE_TYPE = 25"
definition NEED_POST_REPLAY_BARRIER_FLAG :: u32 where "NEED_POST_REPLAY_BARRIER_FLAG = push_bit 31 1"
definition NEED_PRE_REPLAY_BARRIER_FLAG :: u32 where "NEED_PRE_REPLAY_BARRIER_FLAG = push_bit 30 1"
definition PAYLOAD_IS_COMPRESSED :: u32 where "PAYLOAD_IS_COMPRESSED = push_bit 29 1"
definition BASE_HEADER_SIZE :: nat where "BASE_HEADER_SIZE = 16"

fun lbh_construct :: "u16 \<Rightarrow> ObReplayBarrierType \<Rightarrow> u64 \<Rightarrow> ObLogBaseHeader" where
  "lbh_construct log_type barrier hint =
     \<lparr>lbh_version = BASE_HEADER_VERSION, lbh_log_type = log_type,
      lbh_flag = (case barrier of
          NO_NEED_BARRIER \<Rightarrow> 0
        | PRE_BARRIER \<Rightarrow> NEED_PRE_REPLAY_BARRIER_FLAG
        | STRICT_BARRIER \<Rightarrow> NEED_POST_REPLAY_BARRIER_FLAG OR NEED_PRE_REPLAY_BARRIER_FLAG
        | INVALID_BARRIER \<Rightarrow> NEED_POST_REPLAY_BARRIER_FLAG OR NEED_PRE_REPLAY_BARRIER_FLAG),
      lbh_replay_hint = hint\<rparr>"

definition lbh_reset :: ObLogBaseHeader where
  "lbh_reset = \<lparr>lbh_version = 0, lbh_log_type = 0, lbh_flag = 0, lbh_replay_hint = 0\<rparr>"

definition lbh_set_compressed :: "ObLogBaseHeader \<Rightarrow> ObLogBaseHeader" where
  "lbh_set_compressed h = h\<lparr>lbh_flag := lbh_flag h OR PAYLOAD_IS_COMPRESSED\<rparr>"

definition lbh_is_compressed :: "ObLogBaseHeader \<Rightarrow> bool" where
  "lbh_is_compressed h \<longleftrightarrow> lbh_flag h AND PAYLOAD_IS_COMPRESSED \<noteq> 0"

definition lbh_is_valid :: "ObLogBaseHeader \<Rightarrow> bool" where
  "lbh_is_valid h \<longleftrightarrow> sint (lbh_version h) > 0 \<and> sint (lbh_log_type h) > 0"

definition need_pre_replay_barrier :: "ObLogBaseHeader \<Rightarrow> bool" where
  "need_pre_replay_barrier h \<longleftrightarrow> lbh_flag h AND NEED_PRE_REPLAY_BARRIER_FLAG \<noteq> 0"

definition need_post_replay_barrier :: "ObLogBaseHeader \<Rightarrow> bool" where
  "need_post_replay_barrier h \<longleftrightarrow> lbh_flag h AND NEED_POST_REPLAY_BARRIER_FLAG \<noteq> 0"

text \<open>These two move the caller's position with every field, also when a later field fails.\<close>

definition lbh_serialize :: "ObLogBaseHeader \<Rightarrow> writer \<Rightarrow> ob_ret \<times> writer" where
  "lbh_serialize h w =
     (if empty_buffer (fst w) then (OB_INVALID_ARGUMENT, w)
      else or_chain
        [encode_i16 (lbh_version h), encode_i16 (lbh_log_type h), encode_i32 (lbh_flag h),
         encode_i64 (lbh_replay_hint h)] w)"

definition lbh_deserialize :: "ObLogBaseHeader \<Rightarrow> buffer \<Rightarrow> nat \<Rightarrow> ob_ret \<times> ObLogBaseHeader \<times> nat" where
  "lbh_deserialize h buf pos =
     (if empty_buffer buf then (OB_INVALID_ARGUMENT, h, pos)
      else or_chain
        [read_field decode_i16 (\<lambda>v. lbh_version_update (\<lambda>_. v)) buf,
         read_field decode_i16 (\<lambda>v. lbh_log_type_update (\<lambda>_. v)) buf,
         read_field decode_i32 (\<lambda>v. lbh_flag_update (\<lambda>_. v)) buf,
         read_field decode_i64 (\<lambda>v. lbh_replay_hint_update (\<lambda>_. v)) buf] (h, pos))"

subsection \<open>The header of an entry\<close>

record LogEntryHeader =
  leh_magic :: u16
  leh_version :: u16
  leh_log_size :: u32
  leh_scn :: SCN
  leh_data_checksum :: u64
  leh_flag :: u64

definition LOG_ENTRY_MAGIC :: u16 where "LOG_ENTRY_MAGIC = 0x4C48"
definition LOG_ENTRY_HEADER_VERSION :: u16 where "LOG_ENTRY_HEADER_VERSION = 1"
definition PADDING_TYPE_MASK :: u64 where "PADDING_TYPE_MASK = push_bit 1 1"
definition LOG_ENTRY_HEADER_SIZE :: nat where "LOG_ENTRY_HEADER_SIZE = 32"

definition leh_construct :: LogEntryHeader where
  "leh_construct = \<lparr>leh_magic = 0, leh_version = 0, leh_log_size = 0, leh_scn = scn_reset,
     leh_data_checksum = 0, leh_flag = 0\<rparr>"

definition leh_reset :: LogEntryHeader where
  "leh_reset = \<lparr>leh_magic = 0, leh_version = 0, leh_log_size = - 1, leh_scn = scn_reset,
     leh_data_checksum = 0, leh_flag = 0\<rparr>"

definition leh_get_data_len :: "LogEntryHeader \<Rightarrow> int" where
  "leh_get_data_len h = sint (leh_log_size h)"

definition leh_is_valid :: "LogEntryHeader \<Rightarrow> bool" where
  "leh_is_valid h \<longleftrightarrow> leh_magic h = LOG_ENTRY_MAGIC \<and> sint (leh_log_size h) > 0 \<and> scn_is_valid (leh_scn h)"

definition leh_parity_check_res :: "LogEntryHeader \<Rightarrow> bool" where
  "leh_parity_check_res h =
     (let b = parity_check_u16 (leh_magic h);
          b = (b \<noteq> parity_check_u16 (leh_version h));
          b = (b \<noteq> parity_check_u32 (leh_log_size h));
          b = (b \<noteq> parity_check_u64 (scn_val (leh_scn h)));
          b = (b \<noteq> parity_check_u64 (leh_data_checksum h));
          tmp_flag = leh_flag h AND NOT 1
      in b \<noteq> parity_check_u64 tmp_flag)"

definition leh_update_header_checksum :: "LogEntryHeader \<Rightarrow> LogEntryHeader" where
  "leh_update_header_checksum h =
     (if leh_parity_check_res h then h\<lparr>leh_flag := leh_flag h OR 1\<rparr> else h)"

definition leh_check_header_checksum :: "LogEntryHeader \<Rightarrow> bool" where
  "leh_check_header_checksum h \<longleftrightarrow> (if leh_parity_check_res h then 1 else 0) = leh_flag h AND 1"

definition leh_is_padding_log :: "LogEntryHeader \<Rightarrow> bool" where
  "leh_is_padding_log h \<longleftrightarrow> sint (leh_flag h AND PADDING_TYPE_MASK) > 0"

definition leh_generate_header ::
    "crc64 \<Rightarrow> LogEntryHeader \<Rightarrow> buffer \<Rightarrow> int \<Rightarrow> SCN \<Rightarrow> ob_ret \<times> LogEntryHeader" where
  "leh_generate_header crc h log_data data_len s =
     (case log_data of
        None \<Rightarrow> (OB_INVALID_ARGUMENT, h)
      | Some xs \<Rightarrow>
          if data_len \<le> 0 \<or> \<not> scn_is_valid s then (OB_INVALID_ARGUMENT, h)
          else (OB_SUCCESS, leh_update_header_checksum
            (h\<lparr>leh_magic := LOG_ENTRY_MAGIC, leh_version := LOG_ENTRY_HEADER_VERSION,
               leh_log_size := of_int data_len, leh_scn := s,
               leh_data_checksum := crc 0 (take (nat data_len) xs)\<rparr>)))"

definition leh_generate_padding_header ::
    "crc64 \<Rightarrow> LogEntryHeader \<Rightarrow> buffer \<Rightarrow> int \<Rightarrow> int \<Rightarrow> SCN \<Rightarrow> ob_ret \<times> LogEntryHeader" where
  "leh_generate_padding_header crc h log_data base_header_len padding_data_len s =
     (case log_data of
        None \<Rightarrow> (OB_INVALID_ARGUMENT, h)
      | Some xs \<Rightarrow>
          if base_header_len \<le> 0 \<or> padding_data_len \<le> 0 \<or> \<not> scn_is_valid s then (OB_INVALID_ARGUMENT, h)
          else (OB_SUCCESS, leh_update_header_checksum
            (h\<lparr>leh_magic := LOG_ENTRY_MAGIC, leh_version := LOG_ENTRY_HEADER_VERSION,
               leh_log_size := of_int padding_data_len, leh_scn := s,
               leh_data_checksum := crc 0 (take (nat base_header_len) xs),
               leh_flag := leh_flag h OR PADDING_TYPE_MASK\<rparr>)))"

definition leh_check_header_integrity :: "LogEntryHeader \<Rightarrow> bool" where
  "leh_check_header_integrity h \<longleftrightarrow> leh_is_valid h \<and> leh_check_header_checksum h"

definition leh_check_integrity :: "crc64 \<Rightarrow> LogEntryHeader \<Rightarrow> buffer \<Rightarrow> int \<Rightarrow> bool" where
  "leh_check_integrity crc h buf data_len =
     (let valid_data_len = if leh_is_padding_log h then int BASE_HEADER_SIZE else data_len in
      case buf of
        None \<Rightarrow> False
      | Some xs \<Rightarrow>
          if data_len \<le> 0 then False
          else if leh_magic h \<noteq> LOG_ENTRY_MAGIC then False
          else if \<not> leh_check_header_checksum h then False
          else leh_data_checksum h = crc 0 (take (nat valid_data_len) xs))"

definition leh_serialize :: "LogEntryHeader \<Rightarrow> writer \<Rightarrow> ob_ret \<times> writer" where
  "leh_serialize h w =
     (if empty_buffer (fst w) then (OB_INVALID_ARGUMENT, w)
      else case or_chain
          [encode_i16 (leh_magic h), encode_i16 (leh_version h), encode_i32 (leh_log_size h),
           scn_fixed_serialize (leh_scn h), encode_i64 (leh_data_checksum h), encode_i64 (leh_flag h)] w
        of (ret, w1) \<Rightarrow>
          if ret \<noteq> OB_SUCCESS then (OB_BUF_NOT_ENOUGH, (fst w1, snd w)) else (OB_SUCCESS, w1))"

definition leh_deserialize :: "LogEntryHeader \<Rightarrow> buffer \<Rightarrow> nat \<Rightarrow> ob_ret \<times> LogEntryHeader \<times> nat" where
  "leh_deserialize h buf pos =
     (if empty_buffer buf then (OB_INVALID_ARGUMENT, h, pos)
      else case or_chain
          [read_field decode_i16 (\<lambda>v. leh_magic_update (\<lambda>_. v)) buf,
           read_field decode_i16 (\<lambda>v. leh_version_update (\<lambda>_. v)) buf,
           read_field decode_i32 (\<lambda>v. leh_log_size_update (\<lambda>_. v)) buf,
           read_field scn_fixed_deserialize (\<lambda>v. leh_scn_update (\<lambda>_. v)) buf,
           read_field decode_i64 (\<lambda>v. leh_data_checksum_update (\<lambda>_. v)) buf,
           read_field decode_i64 (\<lambda>v. leh_flag_update (\<lambda>_. v)) buf] (h, pos)
        of (ret, h1, new_pos) \<Rightarrow>
          if ret \<noteq> OB_SUCCESS then (OB_BUF_NOT_ENOUGH, h1, pos)
          else if \<not> leh_check_header_integrity h1 then (OB_INVALID_DATA, h1, pos)
          else (OB_SUCCESS, h1, new_pos))"

definition leh_get_serialize_size :: nat where
  "leh_get_serialize_size = 2 + 2 + 4 + 8 + 8 + 8"

text \<open>\<^verbatim>\<open>generate_padding_log_buf\<close> first writes the base header behind the place of the entry header, then
  the entry header over the first 32 bytes; \<^verbatim>\<open>padding_valid_data_len\<close> is the length of \<^verbatim>\<open>out_buf\<close>.\<close>

definition leh_generate_padding_log_buf ::
    "crc64 \<Rightarrow> int \<Rightarrow> SCN \<Rightarrow> buffer \<Rightarrow> ob_ret \<times> buffer" where
  "leh_generate_padding_log_buf crc padding_data_len s out_buf =
     (let base_header = lbh_construct PADDING_LOG_BASE_TYPE NO_NEED_BARRIER 0;
          header_len = leh_get_serialize_size in
      case out_buf of
        None \<Rightarrow> (OB_INVALID_ARGUMENT, out_buf)
      | Some xs \<Rightarrow>
          if padding_data_len \<le> 0 \<or> \<not> scn_is_valid s
             \<or> length xs < BASE_HEADER_SIZE + header_len
             \<or> padding_data_len < int (length xs)
          then (OB_INVALID_ARGUMENT, out_buf)
          else case lbh_serialize base_header (Some xs, header_len) of (ret, buf1, _) \<Rightarrow>
            if ret \<noteq> OB_SUCCESS then (ret, buf1)
            else case leh_generate_padding_header crc leh_construct (map_option (drop header_len) buf1)
                        (int BASE_HEADER_SIZE) padding_data_len s of (ret, header) \<Rightarrow>
              if ret \<noteq> OB_SUCCESS then (ret, buf1)
              else case leh_serialize header (map_option (take header_len) buf1, 0) of (ret, buf2, _) \<Rightarrow>
                (ret, case buf1 of None \<Rightarrow> None | Some ys \<Rightarrow> map_option (\<lambda>b. b @ drop header_len ys) buf2))"

subsection \<open>The bytes of an entry header\<close>

definition leh_bytes :: "LogEntryHeader \<Rightarrow> byte list" where
  "leh_bytes h = concat [bytes_i16 (leh_magic h), bytes_i16 (leh_version h), bytes_i32 (leh_log_size h),
     bytes_i64 (scn_val (leh_scn h)), bytes_i64 (leh_data_checksum h), bytes_i64 (leh_flag h)]"

definition leh_of_bytes :: "byte list \<Rightarrow> LogEntryHeader" where
  "leh_of_bytes bs =
     \<lparr>leh_magic = value_i16 (take 2 bs), leh_version = value_i16 (take 2 (drop 2 bs)),
      leh_log_size = value_i32 (take 4 (drop 4 bs)),
      leh_scn = transform_max (SCN (value_i64 (take 8 (drop 8 bs)))),
      leh_data_checksum = value_i64 (take 8 (drop 16 bs)), leh_flag = value_i64 (take 8 (drop 24 bs))\<rparr>"

lemma length_leh_bytes [simp]: "length (leh_bytes h) = 32"
  by (simp add: leh_bytes_def)

lemma leh_bytes_not_Nil [simp]: "leh_bytes h \<noteq> []"
  using length_leh_bytes[of h] by fastforce

lemma leh_of_bytes_bytes: "scn_is_valid (leh_scn h) \<Longrightarrow> leh_of_bytes (leh_bytes h) = h"
  by (simp add: leh_of_bytes_def leh_bytes_def)

lemma leh_serialize_fits:
  assumes "pos + 32 \<le> length xs"
  shows "leh_serialize h (Some xs, pos) = (OB_SUCCESS, (Some (overwrite xs pos (leh_bytes h)), pos + 32))"
proof -
  let ?bss = "[bytes_i16 (leh_magic h), bytes_i16 (leh_version h), bytes_i32 (leh_log_size h),
     bytes_i64 (scn_val (leh_scn h)), bytes_i64 (leh_data_checksum h), bytes_i64 (leh_flag h)]"
  have ne: "xs \<noteq> []" using assms by auto
  have "or_chain [encode_i16 (leh_magic h), encode_i16 (leh_version h), encode_i32 (leh_log_size h),
           scn_fixed_serialize (leh_scn h), encode_i64 (leh_data_checksum h), encode_i64 (leh_flag h)] (Some xs, pos)
      = or_chain (map put_bytes ?bss) (Some xs, pos)"
    using assms by (simp add: encode_i16_def encode_i32_def encode_i64_def put_bytes_fits scn_serialize_put overwrite_def)
  also have "\<dots> = (OB_SUCCESS, (Some (overwrite xs pos (leh_bytes h)), pos + 32))"
    using assms put_chain[of pos ?bss xs] by (simp add: leh_bytes_def)
  finally show ?thesis using ne by (simp add: leh_serialize_def empty_buffer_def)
qed

lemma leh_deserialize_fits:
  assumes "pos + 32 \<le> length xs"
  shows "leh_deserialize h0 (Some xs) pos = (let h = leh_of_bytes (take 32 (drop pos xs)) in
    if leh_check_header_integrity h then (OB_SUCCESS, h, pos + 32) else (OB_INVALID_DATA, h, pos))"
proof -
  have "xs \<noteq> []" using assms by auto
  then show ?thesis using assms
    by (cases h0) (simp add: leh_deserialize_def empty_buffer_def read_field_def decode_fits leh_of_bytes_def
        drop_take add.commute[of pos] Let_def del: add_2_eq_Suc' add_2_eq_Suc)
qed

lemma even_bit0: "odd_ones 64 (w :: u64) = (odd_ones 64 (w AND NOT 1) \<noteq> bit w 0)"
proof -
  have "odd_ones 64 w = odd_ones 64 ((w AND NOT 1) XOR (w AND 1))"
    by (rule arg_cong[where f = "odd_ones 64"], rule bit_word_eqI) (auto simp: bit_simps)
  moreover have "odd_ones 64 (w AND 1) = bit w 0"
    by (simp add: eval_nat_numeral bit_simps del: odd_ones_xor)
  ultimately show ?thesis by (simp add: odd_ones_xor del: odd_ones.simps)
qed

lemma leh_checksum_even: "leh_check_header_checksum h \<longleftrightarrow> \<not> odd_bytes (leh_bytes h)"
proof -
  have "leh_flag h AND 1 = (if bit (leh_flag h) 0 then 1 else 0)"
    by (simp add: and_one_eq odd_iff_mod_2_eq_one bit_0)
  then have "leh_check_header_checksum h \<longleftrightarrow> leh_parity_check_res h = bit (leh_flag h) 0"
    by (auto simp: leh_check_header_checksum_def)
  also have "\<dots> \<longleftrightarrow> \<not> odd_bytes (leh_bytes h)"
    using even_bit0[of "leh_flag h"]
    by (auto simp: leh_parity_check_res_def leh_bytes_def Let_def simp del: odd_ones.simps)
  finally show ?thesis .
qed

text \<open>
  Reading any 32 bytes and writing the result gives the bytes back, unless the change number in
  them is the value that \<^const>\<open>transform_max\<close> rewrites. One flipped bit makes that value only of the
  largest change number, and the rewriting undoes the flip.
\<close>

lemma flip_bit_at_append:
  "flip_bit_at i k (as @ bs) =
     (if i < length as then flip_bit_at i k as @ bs else as @ flip_bit_at (i - length as) k bs)"
  by (simp add: flip_bit_at_def nth_append list_update_append)

lemma length_flip_bit_at [simp]: "length (flip_bit_at i k bs) = length bs"
  by (simp add: flip_bit_at_def)

lemma less_8_cases: "j < 8 \<Longrightarrow> j = 0 \<or> j = 1 \<or> j = 2 \<or> j = 3 \<or> j = 4 \<or> j = 5 \<or> j = 6 \<or> j = (7 :: nat)"
  by linarith

lemma nth_bytes_i64: "j < 8 \<Longrightarrow> bytes_i64 v ! j = ucast (drop_bit (8 * (7 - j)) v)"
  by (drule less_8_cases, elim disjE) (simp_all add: bytes_i64_def)

lemma digits_eq:
  assumes "b < 8" "k < (8 :: nat)"
  shows "8 * m + b = 8 * n + k \<longleftrightarrow> m = n \<and> b = k"
proof -
  have "(8 * m + b) div 8 = m" "(8 * m + b) mod 8 = b" "(8 * n + k) div 8 = n" "(8 * n + k) mod 8 = k"
    using assms by simp_all
  then show ?thesis by metis
qed

lemma flip_bytes_i64:
  assumes "i < 8" "k < 8"
  shows "flip_bit_at i k (bytes_i64 v) = bytes_i64 (flip_bit (8 * (7 - i) + k) v)"
proof (rule nth_equalityI)
  fix j assume "j < length (flip_bit_at i k (bytes_i64 v))"
  then have j: "j < 8" by simp
  have e: "(8 * (7 - i) + k = 8 * (7 - j) + b) \<longleftrightarrow> (j = i \<and> b = k)" if "b < 8" for b
    using assms j that digits_eq[of k b "7 - i" "7 - j"] by auto
  have "(if j = i then flip_bit k (ucast (drop_bit (8 * (7 - i)) v)) else ucast (drop_bit (8 * (7 - j)) v) :: byte)
      = ucast (drop_bit (8 * (7 - j)) (flip_bit (8 * (7 - i) + k) v))"
    using assms by (intro bit_word_eqI) (auto simp: bit_simps e)
  then show "flip_bit_at i k (bytes_i64 v) ! j = bytes_i64 (flip_bit (8 * (7 - i) + k) v) ! j"
    using assms j by (auto simp: flip_bit_at_def nth_list_update nth_bytes_i64)
qed simp

lemma scn_flip_cases:
  assumes s: "scn_is_valid s" and ik: "i < 8" "k < 8"
    and v: "v = value_i64 (flip_bit_at i k (bytes_i64 (scn_val s)))"
  shows "transform_max (SCN v) = SCN v \<or> transform_max (SCN v) = s"
proof (cases "v = of_int INT64_MAX")
  case False
  then show ?thesis by (auto simp: transform_max_def)
next
  case True
  let ?n = "8 * (7 - i) + k"
  have f: "flip_bit ?n (scn_val s) = of_int INT64_MAX" using v True ik by (simp add: flip_bytes_i64)
  have max: "of_int INT64_MAX = (mask 63 :: u64)" by (simp add: INT64_MAX_def mask_eq_exp_minus_1)
  have m: "scn_val max_scn = mask 62"
    by (simp add: max_scn_def set_fields_def SCN_VERSION_def OB_MAX_SCN_TS_NS_def mask_eq_exp_minus_1)
  have "drop_bit 62 (scn_val s) = 0" using s by (simp add: scn_is_valid_def SCN_VERSION_def scn_v_def)
  then have v62: "\<not> bit (scn_val s) 62" using fun_cong[OF bit_drop_bit_eq[of 62 "scn_val s"], of 0] by simp
  have b: "bit (flip_bit ?n (scn_val s)) j = (j < 63)" if "j < 64" for j
    using that by (simp add: f max bit_simps)
  have n: "?n = 62" using b[of 62] v62 by (auto simp: bit_simps)
  have "scn_val s = mask 62"
  proof (rule bit_word_eqI)
    fix j assume "j < LENGTH(64)"
    then show "bit (scn_val s) j = bit (mask 62 :: u64) j"
      using b[of j] v62 unfolding n by (cases "j = 62") (auto simp: bit_simps)
  qed
  then have "s = max_scn" using m by (intro SCN.expand) simp
  then show ?thesis using True by (simp add: transform_max_def)
qed

lemma leh_bytes_of_bytes:
  assumes len: "length bs = 32" and t: "transform_max (SCN (value_i64 (take 8 (drop 8 bs)))) = SCN (value_i64 (take 8 (drop 8 bs)))"
  shows "leh_bytes (leh_of_bytes bs) = bs"
proof -
  have "leh_bytes (leh_of_bytes bs) = take 2 bs @ take 2 (drop 2 bs) @ take 4 (drop 4 bs) @ take 8 (drop 8 bs)
      @ take 8 (drop 16 bs) @ take 8 (drop 24 bs)"
    using len by (simp add: leh_bytes_def leh_of_bytes_def t bytes_value_i16 bytes_value_i32 bytes_value_i64)
  also have "\<dots> = take 32 bs"
    using take_add[of 24 8 bs] take_add[of 16 8 bs] take_add[of 8 8 bs] take_add[of 4 4 bs] take_add[of 2 2 bs] by simp
  finally show ?thesis using len by simp
qed

lemma leh_deserialize_short:
  assumes "length xs < pos + 32"
  shows "fst (leh_deserialize h0 (Some xs) pos) \<in> {OB_INVALID_ARGUMENT, OB_BUF_NOT_ENOUGH}
    \<and> snd (snd (leh_deserialize h0 (Some xs) pos)) = pos"
proof -
  let ?fs = "[read_field decode_i16 (\<lambda>v. leh_magic_update (\<lambda>_. v)) (Some xs),
     read_field decode_i16 (\<lambda>v. leh_version_update (\<lambda>_. v)) (Some xs),
     read_field decode_i32 (\<lambda>v. leh_log_size_update (\<lambda>_. v)) (Some xs),
     read_field scn_fixed_deserialize (\<lambda>v. leh_scn_update (\<lambda>_. v)) (Some xs),
     read_field decode_i64 (\<lambda>v. leh_data_checksum_update (\<lambda>_. v)) (Some xs),
     read_field decode_i64 (\<lambda>v. leh_flag_update (\<lambda>_. v)) (Some xs)]"
  have "list_all2 (reads (length xs)) [2, 2, 4, 8, 8, 8] ?fs" by (simp add: reads_fields)
  note short = chain_reads[OF this, of h0 pos]
  have "fst (or_chain ?fs (h0, pos)) \<noteq> OB_SUCCESS"
  proof
    assume "fst (or_chain ?fs (h0, pos)) = OB_SUCCESS"
    from short[OF this] show False using assms by simp
  qed
  then show ?thesis by (auto simp: leh_deserialize_def split: prod.splits simp del: or_chain.simps)
qed

lemma leh_flip_masked:
  assumes h: "leh_check_header_integrity h" and ik: "i < 32" "k < 8"
    and ne: "leh_bytes (leh_of_bytes (flip_bit_at i k (leh_bytes h))) \<noteq> flip_bit_at i k (leh_bytes h)"
  shows "leh_of_bytes (flip_bit_at i k (leh_bytes h)) = h"
proof -
  let ?S = "bytes_i64 (scn_val (leh_scn h))"
  define A where "A = bytes_i16 (leh_magic h) @ bytes_i16 (leh_version h) @ bytes_i32 (leh_log_size h)"
  define B where "B = bytes_i64 (leh_data_checksum h) @ bytes_i64 (leh_flag h)"
  have len: "length A = 8" "length B = 16" by (simp_all add: A_def B_def)
  have bs: "leh_bytes h = A @ ?S @ B" by (simp add: leh_bytes_def A_def B_def)
  have s: "scn_is_valid (leh_scn h)" using h by (simp add: leh_check_header_integrity_def leh_is_valid_def)
  define S where "S = take 8 (drop 8 (flip_bit_at i k (leh_bytes h)))"
  have t: "transform_max (SCN (value_i64 S)) \<noteq> SCN (value_i64 S)"
    using ne leh_bytes_of_bytes[of "flip_bit_at i k (leh_bytes h)"] by (auto simp: S_def)
  have i: "8 \<le> i" "i < 16"
    using t s ik len by (auto simp: S_def bs flip_bit_at_append split: if_splits)
  have i8: "i - 8 < 8" using i by simp
  then have f: "flip_bit_at i k (leh_bytes h) = A @ flip_bit_at (i - 8) k ?S @ B"
    using len i by (simp add: bs flip_bit_at_append)
  then have S: "S = flip_bit_at (i - 8) k ?S" using len by (simp add: S_def)
  have "transform_max (SCN (value_i64 S)) = leh_scn h"
    using scn_flip_cases[OF s i8 ik(2), of "value_i64 S"] t S by auto
  then have "leh_of_bytes (A @ S @ B) = leh_of_bytes (A @ ?S @ B)"
    using len s S by (simp add: leh_of_bytes_def)
  then show ?thesis using leh_of_bytes_bytes[OF s] f S bs by simp
qed

interpretation leh: header_codec LOG_ENTRY_HEADER_SIZE leh_bytes leh_of_bytes leh_check_header_integrity
    leh_serialize leh_deserialize
proof (unfold_locales, goal_cases)
  case (2 h)
  then show ?case by (simp add: leh_of_bytes_bytes leh_check_header_integrity_def leh_is_valid_def)
next
  case (3 h)
  then show ?case by (simp add: leh_checksum_even leh_check_header_integrity_def)
next
  case (6 xs pos h0)
  then show ?case using leh_deserialize_short[of xs pos h0] by (simp add: LOG_ENTRY_HEADER_SIZE_def)
next
  case (7 h i k)
  then show ?case by (intro leh_flip_masked) (auto simp: LOG_ENTRY_HEADER_SIZE_def)
qed (simp_all add: LOG_ENTRY_HEADER_SIZE_def leh_serialize_fits leh_deserialize_fits Let_def)

subsection \<open>An entry\<close>

text \<open>\<^verbatim>\<open>buf_\<close> points into the memory the entry was read from, so it is the list of the bytes from there
  on. A header that passes its own check has a positive length.\<close>

record LogEntry =
  le_header :: LogEntryHeader
  le_buf :: buffer

definition le_is_valid :: "LogEntry \<Rightarrow> bool" where
  "le_is_valid e \<longleftrightarrow> leh_is_valid (le_header e) \<and> le_buf e \<noteq> None"

definition le_shallow_copy :: "LogEntry \<Rightarrow> LogEntry \<Rightarrow> ob_ret \<times> LogEntry" where
  "le_shallow_copy e input = (OB_SUCCESS, if le_is_valid input then input else e)"

definition le_reset :: LogEntry where
  "le_reset = \<lparr>le_header = leh_reset, le_buf = None\<rparr>"

definition le_check_integrity :: "crc64 \<Rightarrow> LogEntry \<Rightarrow> bool" where
  "le_check_integrity crc e = leh_check_integrity crc (le_header e) (le_buf e) (leh_get_data_len (le_header e))"

definition copy_from :: "buffer \<Rightarrow> nat \<Rightarrow> byte list" where
  "copy_from buf n = (case buf of None \<Rightarrow> [] | Some xs \<Rightarrow> take n xs)"

definition buffer_len :: "buffer \<Rightarrow> int" where
  "buffer_len buf = (case buf of None \<Rightarrow> 0 | Some xs \<Rightarrow> int (length xs))"

definition le_serialize :: "LogEntry \<Rightarrow> writer \<Rightarrow> ob_ret \<times> writer" where
  "le_serialize e w =
     (let data_len = leh_get_data_len (le_header e) in
      if empty_buffer (fst w) then (OB_INVALID_ARGUMENT, w)
      else case leh_serialize (le_header e) w of (ret, buf1, new_pos) \<Rightarrow>
        if ret \<noteq> OB_SUCCESS then (ret, (buf1, snd w))
        else if buffer_len buf1 - int new_pos < data_len then (OB_BUF_NOT_ENOUGH, (buf1, snd w))
        else (OB_SUCCESS, (map_option (\<lambda>xs. overwrite xs new_pos (copy_from (le_buf e) (nat data_len))) buf1,
                new_pos + nat data_len)))"

definition le_deserialize :: "LogEntry \<Rightarrow> buffer \<Rightarrow> nat \<Rightarrow> ob_ret \<times> LogEntry \<times> nat" where
  "le_deserialize e buf pos =
     (if empty_buffer buf then (OB_INVALID_ARGUMENT, e, pos)
      else case leh_deserialize (le_header e) buf pos of (ret, h, new_pos) \<Rightarrow>
        let e1 = e\<lparr>le_header := h\<rparr> in
        if ret \<noteq> OB_SUCCESS then (ret, e1, pos)
        else if buffer_len buf - int new_pos < leh_get_data_len h then (OB_BUF_NOT_ENOUGH, e1, pos)
        else (OB_SUCCESS,
              e1\<lparr>le_buf := if leh_get_data_len h > 0 then map_option (drop new_pos) buf else None\<rparr>,
              new_pos + nat (leh_get_data_len h)))"

definition le_get_serialize_size :: "LogEntry \<Rightarrow> int" where
  "le_get_serialize_size e = int leh_get_serialize_size + leh_get_data_len (le_header e)"

subsection \<open>Generating and checking\<close>

lemma leh_update_intact:
  assumes "\<not> bit (leh_flag h) 0"
  shows "leh_check_header_checksum (leh_update_header_checksum h)"
proof -
  have "leh_flag h AND 1 = 0" using assms by (simp add: and_one_eq bit_0 even_iff_mod_2_eq_zero)
  moreover have "(leh_flag h OR 1) AND NOT 1 = leh_flag h AND NOT 1"
    by (rule bit_word_eqI) (auto simp: bit_simps)
  ultimately show ?thesis
    by (simp add: leh_update_header_checksum_def leh_check_header_checksum_def leh_parity_check_res_def
        bit.conj_disj_distrib2 del: odd_ones.simps)
qed

lemma leh_update_fields [simp]:
  "leh_magic (leh_update_header_checksum h) = leh_magic h"
  "leh_log_size (leh_update_header_checksum h) = leh_log_size h"
  "leh_scn (leh_update_header_checksum h) = leh_scn h"
  "leh_data_checksum (leh_update_header_checksum h) = leh_data_checksum h"
  by (simp_all add: leh_update_header_checksum_def)

lemma leh_update_padding [simp]:
  "leh_is_padding_log (leh_update_header_checksum h) = leh_is_padding_log h"
proof -
  have "(leh_flag h OR 1) AND PADDING_TYPE_MASK = leh_flag h AND PADDING_TYPE_MASK"
    by (rule bit_word_eqI) (auto simp: PADDING_TYPE_MASK_def bit_simps)
  then show ?thesis by (simp add: leh_update_header_checksum_def leh_is_padding_log_def)
qed

lemma sint_of_int_small:
  assumes "0 \<le> k" "k < 2 ^ 31" shows "sint (of_int k :: u32) = k"
  using assms by (simp add: signed_of_int signed_take_bit_int_eq_self)

definition whole_entry :: "crc64 \<Rightarrow> LogEntry \<Rightarrow> bool" where
  "whole_entry crc e \<longleftrightarrow> leh_check_header_integrity (le_header e) \<and> le_check_integrity crc e
     \<and> le_buf e \<noteq> None \<and> leh_get_data_len (le_header e) \<le> buffer_len (le_buf e)"

lemma generated_entry_whole:
  assumes "\<not> bit (leh_flag h) 0" "\<not> leh_is_padding_log h" "0 < length data" "int (length data) < 2 ^ 31" "scn_is_valid s"
    and "leh_generate_header crc h (Some data) (int (length data)) s = (ret, h')"
  shows "ret = OB_SUCCESS \<and> leh_get_data_len h' = int (length data) \<and> leh_scn h' = s
    \<and> whole_entry crc \<lparr>le_header = h', le_buf = Some data\<rparr>"
proof -
  define g where "g = h\<lparr>leh_magic := LOG_ENTRY_MAGIC, leh_version := LOG_ENTRY_HEADER_VERSION,
    leh_log_size := of_int (int (length data)), leh_scn := s, leh_data_checksum := crc 0 data\<rparr>"
  have h': "ret = OB_SUCCESS" "h' = leh_update_header_checksum g"
    using assms by (auto simp: leh_generate_header_def g_def)
  have g: "sint (leh_log_size g) = int (length data)" "\<not> bit (leh_flag g) 0" "leh_magic g = LOG_ENTRY_MAGIC"
      "leh_scn g = s" "leh_data_checksum g = crc 0 data" "\<not> leh_is_padding_log g"
    using assms sint_of_int_small[of "int (length data)"] by (simp_all add: g_def leh_is_padding_log_def)
  then show ?thesis
    using h' assms leh_update_intact[of g]
    by (simp add: whole_entry_def leh_check_header_integrity_def leh_is_valid_def le_check_integrity_def
        leh_check_integrity_def leh_get_data_len_def buffer_len_def)
qed

end
