(* ===== verification/Log_Group_Header.thy ===== *)
theory Log_Group_Header
  imports Log_Entry_Header
begin

text \<open>
  The header of a group of entries (\<^verbatim>\<open>palf/log_group_entry_header.cpp\<close>) and the group itself
  (\<^verbatim>\<open>palf/log_group_entry.cpp\<close>): the unit that is written, sent to the followers and checked. The
  accumulated checksum chains the groups, the data checksum of a group chains the checksums of its
  entries.
\<close>

subsection \<open>The header\<close>

record LogGroupEntryHeader =
  lgh_magic :: u16
  lgh_version :: u16
  lgh_group_size :: u32
  lgh_proposal_id :: u64
  lgh_committed_end_lsn :: LSN
  lgh_max_scn :: SCN
  lgh_accumulated_checksum :: u64
  lgh_log_id :: u64
  lgh_flag :: u64

definition LOG_GROUP_MAGIC :: u16 where "LOG_GROUP_MAGIC = 0x4752"
definition LOG_GROUP_ENTRY_HEADER_VERSION :: u16 where "LOG_GROUP_ENTRY_HEADER_VERSION = 1"
definition RAW_WRITE_MASK :: u64 where "RAW_WRITE_MASK = push_bit 2 1"
definition PADDING_LOG_DATA_CHECKSUM :: u64 where "PADDING_LOG_DATA_CHECKSUM = 0"
definition LOG_GROUP_HEADER_SIZE :: nat where "LOG_GROUP_HEADER_SIZE = 56"

definition lgh_reset :: LogGroupEntryHeader where
  "lgh_reset = \<lparr>lgh_magic = 0, lgh_version = 0, lgh_group_size = 0,
     lgh_proposal_id = of_int INVALID_PROPOSAL_ID, lgh_committed_end_lsn = lsn_reset, lgh_max_scn = scn_reset,
     lgh_accumulated_checksum = 0, lgh_log_id = 0, lgh_flag = 0\<rparr>"

definition lgh_get_data_len :: "LogGroupEntryHeader \<Rightarrow> int" where
  "lgh_get_data_len h = sint (lgh_group_size h)"

definition lgh_is_valid :: "LogGroupEntryHeader \<Rightarrow> bool" where
  "lgh_is_valid h \<longleftrightarrow> LOG_GROUP_MAGIC = lgh_magic h \<and> LOG_GROUP_ENTRY_HEADER_VERSION = lgh_version h
     \<and> INVALID_PROPOSAL_ID \<noteq> sint (lgh_proposal_id h) \<and> lsn_is_valid (lgh_committed_end_lsn h)
     \<and> scn_is_valid (lgh_max_scn h) \<and> is_valid_log_id (sint (lgh_log_id h))"

definition lgh_is_padding_log :: "LogGroupEntryHeader \<Rightarrow> bool" where
  "lgh_is_padding_log h \<longleftrightarrow> sint (lgh_flag h AND PADDING_TYPE_MASK) > 0"

definition lgh_is_raw_write :: "LogGroupEntryHeader \<Rightarrow> bool" where
  "lgh_is_raw_write h \<longleftrightarrow> sint (lgh_flag h AND RAW_WRITE_MASK) > 0"

definition lgh_parity_check_res :: "LogGroupEntryHeader \<Rightarrow> bool" where
  "lgh_parity_check_res h =
     (let b = parity_check_u16 (lgh_magic h);
          b = (b \<noteq> parity_check_u16 (lgh_version h));
          b = (b \<noteq> parity_check_u32 (lgh_group_size h));
          b = (b \<noteq> parity_check_u64 (lgh_proposal_id h));
          b = (b \<noteq> parity_check_u64 (lsn_val (lgh_committed_end_lsn h)));
          b = (b \<noteq> parity_check_u64 (scn_val (lgh_max_scn h)));
          b = (b \<noteq> parity_check_u64 (lgh_accumulated_checksum h));
          b = (b \<noteq> parity_check_u64 (lgh_log_id h));
          tmp_flag = lgh_flag h AND NOT 1
      in b \<noteq> parity_check_u64 tmp_flag)"

definition lgh_update_header_checksum :: "LogGroupEntryHeader \<Rightarrow> LogGroupEntryHeader" where
  "lgh_update_header_checksum h =
     (if lgh_parity_check_res h then h\<lparr>lgh_flag := lgh_flag h OR 1\<rparr>
      else h\<lparr>lgh_flag := lgh_flag h AND NOT 1\<rparr>)"

definition lgh_check_header_checksum :: "LogGroupEntryHeader \<Rightarrow> bool" where
  "lgh_check_header_checksum h \<longleftrightarrow> (if lgh_parity_check_res h then 1 else 0) = lgh_flag h AND 1"

definition lgh_check_header_integrity :: "LogGroupEntryHeader \<Rightarrow> bool" where
  "lgh_check_header_integrity h \<longleftrightarrow> lgh_is_valid h \<and> lgh_check_header_checksum h"

definition lgh_equal :: "LogGroupEntryHeader \<Rightarrow> LogGroupEntryHeader \<Rightarrow> bool" where
  "lgh_equal a b \<longleftrightarrow> lgh_magic a = lgh_magic b \<and> lgh_version a = lgh_version b
     \<and> lgh_group_size a = lgh_group_size b \<and> lgh_proposal_id a = lgh_proposal_id b
     \<and> lgh_committed_end_lsn a = lgh_committed_end_lsn b \<and> scn_val (lgh_max_scn a) = scn_val (lgh_max_scn b)
     \<and> lgh_accumulated_checksum a = lgh_accumulated_checksum b \<and> lgh_log_id a = lgh_log_id b
     \<and> lgh_flag a = lgh_flag b"

definition lgh_update_log_proposal_id :: "LogGroupEntryHeader \<Rightarrow> u64 \<Rightarrow> ob_ret \<times> LogGroupEntryHeader" where
  "lgh_update_log_proposal_id h log_proposal_id =
     (if INVALID_PROPOSAL_ID = sint log_proposal_id then (OB_INVALID_ARGUMENT, h)
      else (OB_SUCCESS, lgh_update_header_checksum (h\<lparr>lgh_proposal_id := log_proposal_id\<rparr>)))"

definition lgh_update_committed_end_lsn :: "LogGroupEntryHeader \<Rightarrow> LSN \<Rightarrow> ob_ret \<times> LogGroupEntryHeader" where
  "lgh_update_committed_end_lsn h l =
     (if \<not> lsn_is_valid l then (OB_INVALID_ARGUMENT, h)
      else (OB_SUCCESS, lgh_update_header_checksum (h\<lparr>lgh_committed_end_lsn := l\<rparr>)))"

definition lgh_update_write_mode :: "LogGroupEntryHeader \<Rightarrow> bool \<Rightarrow> LogGroupEntryHeader" where
  "lgh_update_write_mode h is_raw_write =
     (if is_raw_write then h\<lparr>lgh_flag := lgh_flag h OR RAW_WRITE_MASK\<rparr> else h)"

definition lgh_update_accumulated_checksum :: "LogGroupEntryHeader \<Rightarrow> u64 \<Rightarrow> LogGroupEntryHeader" where
  "lgh_update_accumulated_checksum h c = h\<lparr>lgh_accumulated_checksum := c\<rparr>"

definition lgh_serialize :: "LogGroupEntryHeader \<Rightarrow> writer \<Rightarrow> ob_ret \<times> writer" where
  "lgh_serialize h w =
     (if empty_buffer (fst w) then (OB_INVALID_ARGUMENT, w)
      else case or_chain
          [encode_i16 (lgh_magic h), encode_i16 (lgh_version h), encode_i32 (lgh_group_size h),
           encode_i64 (lgh_proposal_id h), lsn_serialize (lgh_committed_end_lsn h),
           scn_fixed_serialize (lgh_max_scn h), encode_i64 (lgh_accumulated_checksum h),
           encode_i64 (lgh_log_id h), encode_i64 (lgh_flag h)] w
        of (ret, w1) \<Rightarrow>
          if ret \<noteq> OB_SUCCESS then (OB_BUF_NOT_ENOUGH, (fst w1, snd w)) else (OB_SUCCESS, w1))"

definition lgh_deserialize ::
    "LogGroupEntryHeader \<Rightarrow> buffer \<Rightarrow> nat \<Rightarrow> ob_ret \<times> LogGroupEntryHeader \<times> nat" where
  "lgh_deserialize h buf pos =
     (if empty_buffer buf then (OB_INVALID_ARGUMENT, h, pos)
      else case or_chain
          [read_field decode_i16 (\<lambda>v. lgh_magic_update (\<lambda>_. v)) buf,
           read_field decode_i16 (\<lambda>v. lgh_version_update (\<lambda>_. v)) buf,
           read_field decode_i32 (\<lambda>v. lgh_group_size_update (\<lambda>_. v)) buf,
           read_field decode_i64 (\<lambda>v. lgh_proposal_id_update (\<lambda>_. v)) buf,
           read_field lsn_deserialize (\<lambda>v. lgh_committed_end_lsn_update (\<lambda>_. v)) buf,
           read_field scn_fixed_deserialize (\<lambda>v. lgh_max_scn_update (\<lambda>_. v)) buf,
           read_field decode_i64 (\<lambda>v. lgh_accumulated_checksum_update (\<lambda>_. v)) buf,
           read_field decode_i64 (\<lambda>v. lgh_log_id_update (\<lambda>_. v)) buf,
           read_field decode_i64 (\<lambda>v. lgh_flag_update (\<lambda>_. v)) buf] (h, pos)
        of (ret, h1, new_pos) \<Rightarrow>
          if ret \<noteq> OB_SUCCESS then (OB_BUF_NOT_ENOUGH, h1, pos)
          else if \<not> lgh_check_header_integrity h1 then (OB_INVALID_DATA, h1, pos)
          else (OB_SUCCESS, h1, new_pos))"

definition lgh_get_serialize_size :: nat where
  "lgh_get_serialize_size = 2 + 2 + 4 + 8 + 8 + 8 + 8 + 8 + 8"

subsection \<open>The checksum of a group\<close>

text \<open>
  \<^verbatim>\<open>calculate_log_checksum_\<close> walks over the entry headers of a group that may lie in several pieces
  of memory, since the ring buffer wraps. The loop keeps the piece it is in, the pieces behind
  it and its position; a header that crosses the end of a piece is put together in a
  temporary buffer. \<^verbatim>\<open>ob_assert\<close> stops the process: the result is then \<^const>\<open>None\<close>. A checksum is
  passed to \<open>crc\<close> as the eight bytes of the integer in memory, lowest first.
\<close>

definition memory_bytes :: "u64 \<Rightarrow> byte list" where
  "memory_bytes v = rev (bytes_i64 v)"

datatype header_read =
    Read_Done
  | Read_Abort
  | Read ob_ret LogEntryHeader nat "byte list" "byte list list"

definition read_next_header :: "LogEntryHeader \<Rightarrow> byte list \<Rightarrow> byte list list \<Rightarrow> nat \<Rightarrow> header_read" where
  "read_next_header h cur rest pos =
     (if length cur \<le> pos then
        (case rest of
           [] \<Rightarrow> Read_Done
         | nxt # rest1 \<Rightarrow>
             let pos1 = pos - length cur in
             if pos1 = length nxt then Read_Done
             else if length nxt < pos1 then Read_Abort
             else case leh_deserialize h (Some nxt) pos1 of (ret, h1, pos2) \<Rightarrow> Read ret h1 pos2 nxt rest1)
      else if length cur - pos < LOG_ENTRY_HEADER_SIZE then
        (case rest of
           [] \<Rightarrow> Read_Abort
         | nxt # rest1 \<Rightarrow>
             let curr_copy_size = length cur - pos;
                 tmp_buf = drop pos cur @ take (LOG_ENTRY_HEADER_SIZE - curr_copy_size) nxt
             in case leh_deserialize h (Some tmp_buf) 0 of (ret, h1, tmp_buf_pos) \<Rightarrow>
                  Read ret h1 (LOG_ENTRY_HEADER_SIZE - curr_copy_size) nxt rest1)
      else case leh_deserialize h (Some cur) pos of (ret, h1, pos1) \<Rightarrow> Read ret h1 pos1 cur rest)"

function (sequential) checksum_loop ::
    "crc64 \<Rightarrow> LogEntryHeader \<Rightarrow> byte list \<Rightarrow> byte list list \<Rightarrow> nat \<Rightarrow> u64 \<Rightarrow> (ob_ret \<times> u64) option" where
  "checksum_loop crc h cur rest pos tmp_log_checksum =
     (case read_next_header h cur rest pos of
        Read_Done \<Rightarrow> Some (OB_SUCCESS, tmp_log_checksum)
      | Read_Abort \<Rightarrow> None
      | Read ret h1 pos1 cur1 rest1 \<Rightarrow>
          if ret \<noteq> OB_SUCCESS then Some (ret, tmp_log_checksum)
          else if \<not> leh_check_header_integrity h1 then Some (OB_ERR_UNEXPECTED, tmp_log_checksum)
          else checksum_loop crc h1 cur1 rest1 (pos1 + nat (leh_get_data_len h1))
                 (crc tmp_log_checksum (memory_bytes (leh_data_checksum h1))))"
  by pat_completeness auto

lemma leh_deserialize_success:
  assumes "leh_deserialize h (Some xs) pos = (OB_SUCCESS, h1, pos1)"
  shows "pos + 32 \<le> length xs \<and> pos1 = pos + 32 \<and> leh_check_header_integrity h1
    \<and> h1 = leh_of_bytes (take 32 (drop pos xs))"
proof (cases "pos + 32 \<le> length xs")
  case True
  then show ?thesis using assms by (auto simp: leh_deserialize_fits Let_def split: if_splits)
next
  case False
  then show ?thesis using assms leh_deserialize_short[of xs pos h] by simp
qed

lemma intact_positive: "leh_check_header_integrity h \<Longrightarrow> leh_get_data_len h > 0"
  by (simp add: leh_check_header_integrity_def leh_is_valid_def leh_get_data_len_def)

lemma read_next_advances:
  assumes "read_next_header h cur rest pos = Read OB_SUCCESS h1 pos1 cur1 rest1"
  shows "leh_check_header_integrity h1 \<and> pos < length cur + length (concat rest)
    \<and> length cur1 + length (concat rest1) + pos + 32 = length cur + length (concat rest) + pos1"
  using assms
  by (auto simp: read_next_header_def LOG_ENTRY_HEADER_SIZE_def Let_def dest!: leh_deserialize_success
      split: if_splits list.splits prod.splits)

termination checksum_loop
proof (relation "measure (\<lambda>(crc, h, cur, rest, pos, c). length cur + length (concat rest) - pos)", goal_cases)
  case (2 crc h cur rest pos c ret h1 pos1 cur1 rest1)
  then show ?case
    using read_next_advances[of h cur rest pos h1 pos1 cur1 rest1] intact_positive[of h1] by auto
qed simp

definition calculate_log_checksum ::
    "crc64 \<Rightarrow> bool \<Rightarrow> byte list list \<Rightarrow> int \<Rightarrow> u64 \<Rightarrow> (ob_ret \<times> u64) option" where
  "calculate_log_checksum crc is_padding_log log_write_buf data_len data_checksum =
     (case log_write_buf of
        [] \<Rightarrow> Some (OB_INVALID_ARGUMENT, data_checksum)
      | cur # rest \<Rightarrow>
          if is_padding_log then Some (OB_SUCCESS, PADDING_LOG_DATA_CHECKSUM)
          else if data_len + int LOG_GROUP_HEADER_SIZE \<noteq> int (length (concat log_write_buf)) then None
          else case checksum_loop crc leh_construct cur rest LOG_GROUP_HEADER_SIZE 0 of
              None \<Rightarrow> None
            | Some (ret, c) \<Rightarrow> Some (ret, if ret = OB_SUCCESS then c else data_checksum))"

definition lgh_generate ::
    "crc64 \<Rightarrow> LogGroupEntryHeader \<Rightarrow> bool \<Rightarrow> bool \<Rightarrow> byte list list \<Rightarrow> int \<Rightarrow> SCN \<Rightarrow> u64 \<Rightarrow> LSN \<Rightarrow> u64 \<Rightarrow> u64
       \<Rightarrow> (ob_ret \<times> LogGroupEntryHeader \<times> u64) option" where
  "lgh_generate crc h is_raw_write is_padding_log log_write_buf data_len group_max_scn log_id committed_end_lsn
       log_proposal_id data_checksum =
     (if \<not> scn_is_valid group_max_scn \<or> \<not> is_valid_log_id (sint log_id) \<or> \<not> lsn_is_valid committed_end_lsn
         \<or> INVALID_PROPOSAL_ID = sint log_proposal_id
      then Some (OB_INVALID_ARGUMENT, h, data_checksum)
      else
        let h1 = h\<lparr>lgh_magic := LOG_GROUP_MAGIC, lgh_version := LOG_GROUP_ENTRY_HEADER_VERSION,
                   lgh_group_size := of_int data_len, lgh_max_scn := group_max_scn, lgh_log_id := log_id,
                   lgh_committed_end_lsn := committed_end_lsn, lgh_proposal_id := log_proposal_id\<rparr>;
            h2 = if is_padding_log then h1\<lparr>lgh_flag := lgh_flag h1 OR PADDING_TYPE_MASK\<rparr> else h1;
            h3 = if is_raw_write then h2\<lparr>lgh_flag := lgh_flag h2 OR RAW_WRITE_MASK\<rparr> else h2
        in case calculate_log_checksum crc is_padding_log log_write_buf data_len data_checksum of
             None \<Rightarrow> None
           | Some (ret, c) \<Rightarrow> Some (ret, h3, c))"

text \<open>The receiver's side: the body is walked entry by entry, each with its own data checked.\<close>

lemma le_deserialize_success:
  assumes "le_deserialize e (Some xs) pos = (OB_SUCCESS, e1, pos1)"
  shows "leh_check_header_integrity (le_header e1) \<and> pos + 32 \<le> length xs
    \<and> pos1 = pos + 32 + nat (leh_get_data_len (le_header e1))"
  using assms by (auto simp: le_deserialize_def Let_def dest!: leh_deserialize_success split: prod.splits if_splits)

function (sequential) check_entries ::
    "crc64 \<Rightarrow> LogEntry \<Rightarrow> byte list \<Rightarrow> nat \<Rightarrow> u64 \<Rightarrow> bool \<times> u64" where
  "check_entries crc e xs pos tmp_group_checksum =
     (if pos < length xs then
        (case le_deserialize e (Some xs) pos of (ret, e1, pos1) \<Rightarrow>
           if ret \<noteq> OB_SUCCESS then (False, tmp_group_checksum)
           else
             let c = crc tmp_group_checksum (memory_bytes (leh_data_checksum (le_header e1))) in
             if le_check_integrity crc e1 then check_entries crc e1 xs pos1 c else (False, c))
      else (True, tmp_group_checksum))"
  by pat_completeness auto
termination
  by (relation "measure (\<lambda>(crc, e, xs, pos, c). length xs - pos)") (auto dest!: le_deserialize_success[OF sym])

definition check_log_checksum ::
    "crc64 \<Rightarrow> LogGroupEntryHeader \<Rightarrow> buffer \<Rightarrow> int \<Rightarrow> u64 \<Rightarrow> bool \<times> u64" where
  "check_log_checksum crc h buf data_len group_data_checksum =
     (case buf of
        None \<Rightarrow> (False, group_data_checksum)
      | Some xs \<Rightarrow>
          if data_len < 0 then (False, group_data_checksum)
          else if lgh_is_padding_log h then (True, PADDING_LOG_DATA_CHECKSUM)
          else case check_entries crc \<lparr>le_header = leh_construct, le_buf = None\<rparr> (take (nat data_len) xs) 0 0
            of (ok, c) \<Rightarrow> (ok, if ok then c else group_data_checksum))"

definition lgh_check_integrity ::
    "crc64 \<Rightarrow> LogGroupEntryHeader \<Rightarrow> buffer \<Rightarrow> int \<Rightarrow> u64 \<Rightarrow> bool \<times> u64" where
  "lgh_check_integrity crc h buf buf_len group_log_checksum =
     (if LOG_GROUP_MAGIC \<noteq> lgh_magic h then (False, group_log_checksum)
      else if \<not> lgh_check_header_checksum h then (False, group_log_checksum)
      else check_log_checksum crc h buf buf_len group_log_checksum)"

subsection \<open>Truncating a group\<close>

text \<open>The loop keeps the position behind the last entry that stays, the largest change number of
  those entries and their checksum.\<close>

function (sequential) truncate_loop ::
    "crc64 \<Rightarrow> LogEntryHeader \<Rightarrow> byte list \<Rightarrow> SCN \<Rightarrow> nat \<Rightarrow> nat \<Rightarrow> SCN \<Rightarrow> u64 \<Rightarrow> ob_ret \<times> nat \<times> SCN \<times> u64" where
  "truncate_loop crc h xs cut_scn pos cut_pos tmp_max_scn tmp_log_checksum =
     (if pos < length xs then
        (case leh_deserialize h (Some xs) pos of (ret, h1, pos1) \<Rightarrow>
           if ret \<noteq> OB_SUCCESS then (ret, cut_pos, tmp_max_scn, tmp_log_checksum)
           else if scn_gt (leh_scn h1) cut_scn then (OB_SUCCESS, cut_pos, tmp_max_scn, tmp_log_checksum)
           else
             let pos2 = pos1 + nat (leh_get_data_len h1) in
             truncate_loop crc h1 xs cut_scn pos2 pos2
               (if \<not> scn_is_valid tmp_max_scn \<or> scn_gt (leh_scn h1) tmp_max_scn then leh_scn h1 else tmp_max_scn)
               (crc tmp_log_checksum (memory_bytes (leh_data_checksum h1))))
      else (OB_SUCCESS, cut_pos, tmp_max_scn, tmp_log_checksum))"
  by pat_completeness auto
termination
  by (relation "measure (\<lambda>(crc, h, xs, cut, pos, cp, m, c). length xs - pos)") (auto dest!: leh_deserialize_success[OF sym])

declare check_entries.simps [simp del] truncate_loop.simps [simp del]

definition lgh_truncate ::
    "crc64 \<Rightarrow> LogGroupEntryHeader \<Rightarrow> buffer \<Rightarrow> int \<Rightarrow> SCN \<Rightarrow> u64 \<Rightarrow> ob_ret \<times> LogGroupEntryHeader" where
  "lgh_truncate crc h buf data_len cut_scn pre_accum_checksum =
     (case buf of
        None \<Rightarrow> (OB_INVALID_ARGUMENT, h)
      | Some xs \<Rightarrow>
          if data_len \<le> 0 \<or> \<not> scn_is_valid cut_scn then (OB_INVALID_ARGUMENT, h)
          else if lgh_is_padding_log h then
            (OB_SUCCESS, if scn_gt (lgh_max_scn h) cut_scn
                         then lgh_update_header_checksum (h\<lparr>lgh_group_size := 0\<rparr>) else h)
          else case truncate_loop crc leh_construct (take (nat data_len) xs) cut_scn 0 0 scn_reset 0
            of (ret, cut_pos, tmp_max_scn, tmp_log_checksum) \<Rightarrow>
              if ret = OB_SUCCESS then
                (OB_SUCCESS, lgh_update_header_checksum (lgh_update_accumulated_checksum
                   (h\<lparr>lgh_group_size := of_nat cut_pos, lgh_max_scn := tmp_max_scn\<rparr>)
                   (crc pre_accum_checksum (memory_bytes tmp_log_checksum))))
              else (ret, h))"

subsection \<open>The group\<close>

record LogGroupEntry =
  lge_header :: LogGroupEntryHeader
  lge_buf :: buffer

definition lge_is_valid :: "LogGroupEntry \<Rightarrow> bool" where
  "lge_is_valid g \<longleftrightarrow> lgh_is_valid (lge_header g) \<and> lge_buf g \<noteq> None"

definition lge_generate :: "LogGroupEntry \<Rightarrow> LogGroupEntryHeader \<Rightarrow> buffer \<Rightarrow> ob_ret \<times> LogGroupEntry" where
  "lge_generate g header buf =
     (if \<not> lgh_is_valid header \<or> buf = None then (OB_INVALID_ARGUMENT, g)
      else (OB_SUCCESS, \<lparr>lge_header = header, lge_buf = buf\<rparr>))"

definition lge_shallow_copy :: "LogGroupEntry \<Rightarrow> LogGroupEntry \<Rightarrow> ob_ret \<times> LogGroupEntry" where
  "lge_shallow_copy g entry = (if \<not> lge_is_valid entry then (OB_INVALID_ARGUMENT, g) else (OB_SUCCESS, entry))"

definition lge_reset :: LogGroupEntry where
  "lge_reset = \<lparr>lge_header = lgh_reset, lge_buf = None\<rparr>"

definition lge_check_integrity :: "crc64 \<Rightarrow> LogGroupEntry \<Rightarrow> u64 \<Rightarrow> bool \<times> u64" where
  "lge_check_integrity crc g data_checksum =
     lgh_check_integrity crc (lge_header g) (lge_buf g) (lgh_get_data_len (lge_header g)) data_checksum"

definition lge_truncate :: "crc64 \<Rightarrow> LogGroupEntry \<Rightarrow> SCN \<Rightarrow> u64 \<Rightarrow> ob_ret \<times> LogGroupEntry" where
  "lge_truncate crc g upper_limit_scn pre_accum_checksum =
     (case lgh_truncate crc (lge_header g) (lge_buf g) (lgh_get_data_len (lge_header g)) upper_limit_scn
             pre_accum_checksum of (ret, h) \<Rightarrow> (ret, g\<lparr>lge_header := h\<rparr>))"

definition lge_serialize :: "LogGroupEntry \<Rightarrow> writer \<Rightarrow> ob_ret \<times> writer" where
  "lge_serialize g w =
     (let data_len = lgh_get_data_len (lge_header g) in
      if empty_buffer (fst w) then (OB_INVALID_ARGUMENT, w)
      else case lgh_serialize (lge_header g) w of (ret, buf1, new_pos) \<Rightarrow>
        if ret \<noteq> OB_SUCCESS then (ret, (buf1, snd w))
        else if buffer_len buf1 - int new_pos < data_len then (OB_BUF_NOT_ENOUGH, (buf1, snd w))
        else (OB_SUCCESS, (map_option (\<lambda>xs. overwrite xs new_pos (copy_from (lge_buf g) (nat data_len))) buf1,
                new_pos + nat data_len)))"

definition lge_deserialize :: "LogGroupEntry \<Rightarrow> buffer \<Rightarrow> nat \<Rightarrow> ob_ret \<times> LogGroupEntry \<times> int" where
  "lge_deserialize g buf pos =
     (if empty_buffer buf then (OB_INVALID_ARGUMENT, g, int pos)
      else case lgh_deserialize (lge_header g) buf pos of (ret, h, new_pos) \<Rightarrow>
        let g1 = g\<lparr>lge_header := h\<rparr> in
        if ret \<noteq> OB_SUCCESS then (ret, g1, int pos)
        else if buffer_len buf - int new_pos < lgh_get_data_len h then (OB_BUF_NOT_ENOUGH, g1, int pos)
        else (OB_SUCCESS,
              g1\<lparr>lge_buf := if lgh_get_data_len h \<ge> 0 then map_option (drop new_pos) buf else None\<rparr>,
              int new_pos + lgh_get_data_len h))"

definition get_log_min_scn :: "LogGroupEntry \<Rightarrow> SCN \<Rightarrow> ob_ret \<times> SCN" where
  "get_log_min_scn g out =
     (if lgh_is_padding_log (lge_header g) then (OB_SUCCESS, lgh_max_scn (lge_header g))
      else case leh_deserialize leh_construct
                  (map_option (take (nat (lgh_get_data_len (lge_header g)))) (lge_buf g)) 0
        of (ret, header, pos) \<Rightarrow> if ret \<noteq> OB_SUCCESS then (ret, out) else (OB_SUCCESS, leh_scn header))"

subsection \<open>The bytes of a group header\<close>

definition lgh_bytes :: "LogGroupEntryHeader \<Rightarrow> byte list" where
  "lgh_bytes h = concat [bytes_i16 (lgh_magic h), bytes_i16 (lgh_version h), bytes_i32 (lgh_group_size h),
     bytes_i64 (lgh_proposal_id h), bytes_i64 (lsn_val (lgh_committed_end_lsn h)),
     bytes_i64 (scn_val (lgh_max_scn h)), bytes_i64 (lgh_accumulated_checksum h),
     bytes_i64 (lgh_log_id h), bytes_i64 (lgh_flag h)]"

definition lgh_of_bytes :: "byte list \<Rightarrow> LogGroupEntryHeader" where
  "lgh_of_bytes bs =
     \<lparr>lgh_magic = value_i16 (take 2 bs), lgh_version = value_i16 (take 2 (drop 2 bs)),
      lgh_group_size = value_i32 (take 4 (drop 4 bs)), lgh_proposal_id = value_i64 (take 8 (drop 8 bs)),
      lgh_committed_end_lsn = LSN (value_i64 (take 8 (drop 16 bs))),
      lgh_max_scn = transform_max (SCN (value_i64 (take 8 (drop 24 bs)))),
      lgh_accumulated_checksum = value_i64 (take 8 (drop 32 bs)),
      lgh_log_id = value_i64 (take 8 (drop 40 bs)), lgh_flag = value_i64 (take 8 (drop 48 bs))\<rparr>"

lemma length_lgh_bytes [simp]: "length (lgh_bytes h) = 56"
  by (simp add: lgh_bytes_def)

lemma lgh_bytes_not_Nil [simp]: "lgh_bytes h \<noteq> []"
  using length_lgh_bytes[of h] by fastforce

lemma lgh_of_bytes_bytes: "scn_is_valid (lgh_max_scn h) \<Longrightarrow> lgh_of_bytes (lgh_bytes h) = h"
  by (simp add: lgh_of_bytes_def lgh_bytes_def)

lemma lsn_serialize_fits:
  "pos + 8 \<le> length xs \<Longrightarrow> lsn_serialize l (Some xs, pos) = put_bytes (bytes_i64 (lsn_val l)) (Some xs, pos)"
  by (simp add: lsn_serialize_def encode_i64_def put_bytes_def)

lemma lgh_serialize_fits:
  assumes "pos + 56 \<le> length xs"
  shows "lgh_serialize h (Some xs, pos) = (OB_SUCCESS, (Some (overwrite xs pos (lgh_bytes h)), pos + 56))"
proof -
  let ?bss = "[bytes_i16 (lgh_magic h), bytes_i16 (lgh_version h), bytes_i32 (lgh_group_size h),
     bytes_i64 (lgh_proposal_id h), bytes_i64 (lsn_val (lgh_committed_end_lsn h)),
     bytes_i64 (scn_val (lgh_max_scn h)), bytes_i64 (lgh_accumulated_checksum h),
     bytes_i64 (lgh_log_id h), bytes_i64 (lgh_flag h)]"
  have ne: "xs \<noteq> []" using assms by auto
  have "or_chain [encode_i16 (lgh_magic h), encode_i16 (lgh_version h), encode_i32 (lgh_group_size h),
           encode_i64 (lgh_proposal_id h), lsn_serialize (lgh_committed_end_lsn h),
           scn_fixed_serialize (lgh_max_scn h), encode_i64 (lgh_accumulated_checksum h),
           encode_i64 (lgh_log_id h), encode_i64 (lgh_flag h)] (Some xs, pos)
      = or_chain (map put_bytes ?bss) (Some xs, pos)"
    using assms
    by (simp add: encode_i16_def encode_i32_def encode_i64_def put_bytes_fits scn_serialize_put lsn_serialize_fits
        overwrite_def)
  also have "\<dots> = (OB_SUCCESS, (Some (overwrite xs pos (lgh_bytes h)), pos + 56))"
    using assms put_chain[of pos ?bss xs] by (simp add: lgh_bytes_def)
  finally show ?thesis using ne by (simp add: lgh_serialize_def empty_buffer_def)
qed

lemma lgh_deserialize_fits:
  assumes "pos + 56 \<le> length xs"
  shows "lgh_deserialize h0 (Some xs) pos = (let h = lgh_of_bytes (take 56 (drop pos xs)) in
    if lgh_check_header_integrity h then (OB_SUCCESS, h, pos + 56) else (OB_INVALID_DATA, h, pos))"
proof -
  have "xs \<noteq> []" using assms by auto
  then show ?thesis using assms
    by (cases h0) (simp add: lgh_deserialize_def empty_buffer_def read_field_def decode_fits lgh_of_bytes_def
        drop_take add.commute[of pos] Let_def del: add_2_eq_Suc' add_2_eq_Suc)
qed

lemma lgh_deserialize_short:
  assumes "length xs < pos + 56"
  shows "fst (lgh_deserialize h0 (Some xs) pos) \<in> {OB_INVALID_ARGUMENT, OB_BUF_NOT_ENOUGH}
    \<and> snd (snd (lgh_deserialize h0 (Some xs) pos)) = pos"
proof -
  let ?fs = "[read_field decode_i16 (\<lambda>v. lgh_magic_update (\<lambda>_. v)) (Some xs),
     read_field decode_i16 (\<lambda>v. lgh_version_update (\<lambda>_. v)) (Some xs),
     read_field decode_i32 (\<lambda>v. lgh_group_size_update (\<lambda>_. v)) (Some xs),
     read_field decode_i64 (\<lambda>v. lgh_proposal_id_update (\<lambda>_. v)) (Some xs),
     read_field lsn_deserialize (\<lambda>v. lgh_committed_end_lsn_update (\<lambda>_. v)) (Some xs),
     read_field scn_fixed_deserialize (\<lambda>v. lgh_max_scn_update (\<lambda>_. v)) (Some xs),
     read_field decode_i64 (\<lambda>v. lgh_accumulated_checksum_update (\<lambda>_. v)) (Some xs),
     read_field decode_i64 (\<lambda>v. lgh_log_id_update (\<lambda>_. v)) (Some xs),
     read_field decode_i64 (\<lambda>v. lgh_flag_update (\<lambda>_. v)) (Some xs)]"
  have "list_all2 (reads (length xs)) [2, 2, 4, 8, 8, 8, 8, 8, 8] ?fs" by (simp add: reads_fields)
  note short = chain_reads[OF this, of h0 pos]
  have "fst (or_chain ?fs (h0, pos)) \<noteq> OB_SUCCESS"
  proof
    assume "fst (or_chain ?fs (h0, pos)) = OB_SUCCESS"
    from short[OF this] show False using assms by simp
  qed
  then show ?thesis by (auto simp: lgh_deserialize_def split: prod.splits simp del: or_chain.simps)
qed

lemma lgh_checksum_even: "lgh_check_header_checksum h \<longleftrightarrow> \<not> odd_bytes (lgh_bytes h)"
proof -
  have "lgh_flag h AND 1 = (if bit (lgh_flag h) 0 then 1 else 0)"
    by (simp add: and_one_eq odd_iff_mod_2_eq_one bit_0)
  then have "lgh_check_header_checksum h \<longleftrightarrow> lgh_parity_check_res h = bit (lgh_flag h) 0"
    by (auto simp: lgh_check_header_checksum_def)
  also have "\<dots> \<longleftrightarrow> \<not> odd_bytes (lgh_bytes h)"
    using even_bit0[of "lgh_flag h"]
    by (auto simp: lgh_parity_check_res_def lgh_bytes_def Let_def simp del: odd_ones.simps)
  finally show ?thesis .
qed

lemma lgh_bytes_of_bytes:
  assumes len: "length bs = 56" and t: "transform_max (SCN (value_i64 (take 8 (drop 24 bs)))) = SCN (value_i64 (take 8 (drop 24 bs)))"
  shows "lgh_bytes (lgh_of_bytes bs) = bs"
proof -
  have "lgh_bytes (lgh_of_bytes bs) = take 2 bs @ take 2 (drop 2 bs) @ take 4 (drop 4 bs) @ take 8 (drop 8 bs)
      @ take 8 (drop 16 bs) @ take 8 (drop 24 bs) @ take 8 (drop 32 bs) @ take 8 (drop 40 bs) @ take 8 (drop 48 bs)"
    using len by (simp add: lgh_bytes_def lgh_of_bytes_def t bytes_value_i16 bytes_value_i32 bytes_value_i64)
  also have "\<dots> = take 56 bs"
    using take_add[of 48 8 bs] take_add[of 40 8 bs] take_add[of 32 8 bs] take_add[of 24 8 bs] take_add[of 16 8 bs]
      take_add[of 8 8 bs] take_add[of 4 4 bs] take_add[of 2 2 bs] by simp
  finally show ?thesis using len by simp
qed

lemma lgh_flip_masked:
  assumes h: "lgh_check_header_integrity h" and ik: "i < 56" "k < 8"
    and ne: "lgh_bytes (lgh_of_bytes (flip_bit_at i k (lgh_bytes h))) \<noteq> flip_bit_at i k (lgh_bytes h)"
  shows "lgh_of_bytes (flip_bit_at i k (lgh_bytes h)) = h"
proof -
  let ?S = "bytes_i64 (scn_val (lgh_max_scn h))"
  define A where "A = bytes_i16 (lgh_magic h) @ bytes_i16 (lgh_version h) @ bytes_i32 (lgh_group_size h)
    @ bytes_i64 (lgh_proposal_id h) @ bytes_i64 (lsn_val (lgh_committed_end_lsn h))"
  define B where "B = bytes_i64 (lgh_accumulated_checksum h) @ bytes_i64 (lgh_log_id h) @ bytes_i64 (lgh_flag h)"
  have len: "length A = 24" "length B = 24" by (simp_all add: A_def B_def)
  have bs: "lgh_bytes h = A @ ?S @ B" by (simp add: lgh_bytes_def A_def B_def)
  have s: "scn_is_valid (lgh_max_scn h)" using h by (simp add: lgh_check_header_integrity_def lgh_is_valid_def)
  define S where "S = take 8 (drop 24 (flip_bit_at i k (lgh_bytes h)))"
  have t: "transform_max (SCN (value_i64 S)) \<noteq> SCN (value_i64 S)"
    using ne lgh_bytes_of_bytes[of "flip_bit_at i k (lgh_bytes h)"] by (auto simp: S_def)
  have i: "24 \<le> i" "i < 32"
    using t s ik len by (auto simp: S_def bs flip_bit_at_append split: if_splits)
  have i8: "i - 24 < 8" using i by simp
  then have f: "flip_bit_at i k (lgh_bytes h) = A @ flip_bit_at (i - 24) k ?S @ B"
    using len i by (simp add: bs flip_bit_at_append)
  then have S: "S = flip_bit_at (i - 24) k ?S" using len by (simp add: S_def)
  have "transform_max (SCN (value_i64 S)) = lgh_max_scn h"
    using scn_flip_cases[OF s i8 ik(2), of "value_i64 S"] t S by auto
  then have "lgh_of_bytes (A @ S @ B) = lgh_of_bytes (A @ ?S @ B)"
    using len s S by (simp add: lgh_of_bytes_def)
  then show ?thesis using lgh_of_bytes_bytes[OF s] f S bs by simp
qed

interpretation lgh: header_codec LOG_GROUP_HEADER_SIZE lgh_bytes lgh_of_bytes lgh_check_header_integrity
    lgh_serialize lgh_deserialize
proof (unfold_locales, goal_cases)
  case (2 h)
  then show ?case by (simp add: lgh_of_bytes_bytes lgh_check_header_integrity_def lgh_is_valid_def)
next
  case (3 h)
  then show ?case by (simp add: lgh_checksum_even lgh_check_header_integrity_def)
next
  case (6 xs pos h0)
  then show ?case using lgh_deserialize_short[of xs pos h0] by (simp add: LOG_GROUP_HEADER_SIZE_def)
next
  case (7 h i k)
  then show ?case by (intro lgh_flip_masked) (auto simp: LOG_GROUP_HEADER_SIZE_def)
qed (simp_all add: LOG_GROUP_HEADER_SIZE_def lgh_serialize_fits lgh_deserialize_fits Let_def)

lemma lgh_update_intact: "lgh_check_header_checksum (lgh_update_header_checksum h)"
proof -
  have "(lgh_flag h OR 1) AND 1 = 1" "(lgh_flag h AND NOT 1) AND 1 = 0"
      "(lgh_flag h OR 1) AND NOT 1 = lgh_flag h AND NOT 1" "(lgh_flag h AND NOT 1) AND NOT 1 = lgh_flag h AND NOT 1"
    by (rule bit_word_eqI; auto simp: bit_simps)+
  then show ?thesis
    by (simp add: lgh_update_header_checksum_def lgh_check_header_checksum_def lgh_parity_check_res_def
        del: odd_ones.simps)
qed

lemma lgh_update_fields [simp]:
  "lgh_magic (lgh_update_header_checksum h) = lgh_magic h"
  "lgh_version (lgh_update_header_checksum h) = lgh_version h"
  "lgh_group_size (lgh_update_header_checksum h) = lgh_group_size h"
  "lgh_proposal_id (lgh_update_header_checksum h) = lgh_proposal_id h"
  "lgh_committed_end_lsn (lgh_update_header_checksum h) = lgh_committed_end_lsn h"
  "lgh_max_scn (lgh_update_header_checksum h) = lgh_max_scn h"
  "lgh_accumulated_checksum (lgh_update_header_checksum h) = lgh_accumulated_checksum h"
  "lgh_log_id (lgh_update_header_checksum h) = lgh_log_id h"
  by (simp_all add: lgh_update_header_checksum_def)

lemma lgh_update_padding [simp]:
  "lgh_is_padding_log (lgh_update_header_checksum h) = lgh_is_padding_log h"
proof -
  have "(lgh_flag h OR 1) AND PADDING_TYPE_MASK = lgh_flag h AND PADDING_TYPE_MASK"
      "(lgh_flag h AND NOT 1) AND PADDING_TYPE_MASK = lgh_flag h AND PADDING_TYPE_MASK"
    by (rule bit_word_eqI; auto simp: PADDING_TYPE_MASK_def bit_simps)+
  then show ?thesis by (simp add: lgh_update_header_checksum_def lgh_is_padding_log_def)
qed

end
