(* ===== verification/Log_Group.thy ===== *)
theory Log_Group
  imports Log_Group_Header
begin

text \<open>
  What the operations on a group compute, against the sequence of entries that its body is the
  image of: the checksum over pieces of memory, the receiver's check, and truncation.
\<close>

type_synonym entry = "LogEntryHeader \<times> byte list"

definition entry_image :: "entry \<Rightarrow> byte list" where
  "entry_image e = leh_bytes (fst e) @ snd e"

definition stream :: "entry list \<Rightarrow> byte list" where
  "stream es = concat (map entry_image es)"

definition good_entry :: "entry \<Rightarrow> bool" where
  "good_entry e \<longleftrightarrow> leh_check_header_integrity (fst e) \<and> leh_get_data_len (fst e) = int (length (snd e))"

definition chain_checksum :: "crc64 \<Rightarrow> entry list \<Rightarrow> u64 \<Rightarrow> u64" where
  "chain_checksum crc es c = fold (\<lambda>e c. crc c (memory_bytes (leh_data_checksum (fst e)))) es c"

lemma stream_simps [simp]:
  "stream [] = []" "stream (e # es) = leh_bytes (fst e) @ snd e @ stream es"
  by (simp_all add: stream_def entry_image_def)

lemma chain_simps [simp]:
  "chain_checksum crc [] c = c"
  "chain_checksum crc (e # es) c = chain_checksum crc es (crc c (memory_bytes (leh_data_checksum (fst e))))"
  by (simp_all add: chain_checksum_def)

lemma good_entry_header:
  assumes "good_entry e"
  shows "leh_check_header_integrity (fst e)" "nat (leh_get_data_len (fst e)) = length (snd e)"
    "leh_of_bytes (leh_bytes (fst e)) = fst e" "snd e \<noteq> []"
  using assms intact_positive[of "fst e"]
  by (auto simp: good_entry_def leh_check_header_integrity_def leh_is_valid_def leh_of_bytes_bytes)

lemma read_header_at:
  assumes "good_entry e" and "take 32 (drop pos xs) = leh_bytes (fst e)"
  shows "leh_deserialize h0 (Some xs) pos = (OB_SUCCESS, fst e, pos + 32)"
proof -
  have "length (take 32 (drop pos xs)) = 32" using assms(2) by simp
  then have "pos + 32 \<le> length xs" by auto
  then show ?thesis using assms good_entry_header[OF assms(1)] by (simp add: leh_deserialize_fits)
qed

subsection \<open>The checksum over pieces\<close>

lemma append_splitE:
  assumes "as @ bs = cs @ ds" and "length cs \<le> length as"
  obtains us where "as = cs @ us" and "us @ bs = ds"
  using assms by (auto simp: append_eq_append_conv2)

lemma read_next_stream:
  assumes e: "good_entry e" and r: "length rest \<le> 1" and s: "cur @ concat rest = pre @ stream (e # es)"
  obtains pre1 cur1 rest1 where "read_next_header h cur rest (length pre) = Read OB_SUCCESS (fst e) (length pre1) cur1 rest1"
    "length rest1 \<le> 1" "cur1 @ concat rest1 = pre1 @ snd e @ stream es"
proof (cases "length cur \<le> length pre")
  case True
  have total: "length cur + length (concat rest) = length pre + 32 + length (snd e) + length (stream es)"
    using arg_cong[OF s, of length] by simp
  then obtain nxt where rest: "rest = [nxt]"
    using True r by (cases rest; cases "tl rest") auto
  define p where "p = drop (length cur) pre"
  have p_len: "length pre - length cur = length p" by (simp add: p_def)
  have nxt: "nxt = p @ leh_bytes (fst e) @ snd e @ stream es"
    using s True rest by (simp add: p_def append_eq_append_conv_if)
  then have "leh_deserialize h (Some nxt) (length p) = (OB_SUCCESS, fst e, length p + 32)"
    using e by (intro read_header_at) simp_all
  then have "read_next_header h cur rest (length pre) = Read OB_SUCCESS (fst e) (length (p @ leh_bytes (fst e))) nxt []"
    using True rest nxt p_len by (simp add: read_next_header_def Let_def)
  then show ?thesis using that[of "p @ leh_bytes (fst e)" nxt "[]"] nxt by simp
next
  case False
  then obtain us where cur: "cur = pre @ us" and us: "us @ concat rest = leh_bytes (fst e) @ snd e @ stream es"
    using append_splitE[OF s] by (metis nat_le_linear stream_simps(2))
  show ?thesis
  proof (cases "length us < 32")
    case True
    then obtain vs where hd: "leh_bytes (fst e) = us @ vs" and rs: "concat rest = vs @ snd e @ stream es"
      using append_splitE[OF us[symmetric]] by (metis length_leh_bytes nat_less_le)
    have "vs \<noteq> []" using True arg_cong[OF hd, of length] by auto
    then obtain nxt where rest: "rest = [nxt]" using rs r by (cases rest; cases "tl rest") auto
    have len: "length us + length vs = 32" using arg_cong[OF hd, of length] by simp
    have "leh_deserialize h (Some (us @ vs)) 0 = (OB_SUCCESS, fst e, 32)"
      using read_header_at[OF e, of 0 "us @ vs" h] hd len by simp
    then have "read_next_header h cur rest (length pre) = Read OB_SUCCESS (fst e) (length vs) nxt []"
      using True False rest rs len cur by (simp add: read_next_header_def LOG_ENTRY_HEADER_SIZE_def Let_def)
    then show ?thesis using that[of vs nxt "[]"] rs rest by simp
  next
    case no_wrap: False
    then obtain vs where "us = leh_bytes (fst e) @ vs" and rs: "vs @ concat rest = snd e @ stream es"
      using append_splitE[OF us] by (metis length_leh_bytes not_le)
    then have cur2: "cur = pre @ leh_bytes (fst e) @ vs" using cur by simp
    then have "leh_deserialize h (Some cur) (length pre) = (OB_SUCCESS, fst e, length pre + 32)"
      using e by (intro read_header_at) simp_all
    then have "read_next_header h cur rest (length pre) = Read OB_SUCCESS (fst e) (length (pre @ leh_bytes (fst e))) cur rest"
      using cur2 by (simp add: read_next_header_def LOG_ENTRY_HEADER_SIZE_def)
    then show ?thesis using that[of "pre @ leh_bytes (fst e)" cur rest] cur2 rs r by simp
  qed
qed

lemma checksum_loop_stream:
  assumes "list_all good_entry es" and "length rest \<le> 1" and "cur @ concat rest = pre @ stream es"
  shows "checksum_loop crc h cur rest (length pre) c = Some (OB_SUCCESS, chain_checksum crc es c)"
  using assms
proof (induction es arbitrary: h cur rest pre c)
  case Nil
  have "length (cur @ concat rest) = length pre" using Nil.prems(3) by simp
  then have "length cur + length (concat rest) = length pre" by (simp only: length_append)
  then have "read_next_header h cur rest (length pre) = Read_Done"
    using Nil.prems(2) by (cases rest; cases "tl rest") (auto simp: read_next_header_def Let_def)
  then show ?case by simp
next
  case (Cons e es)
  then have e: "good_entry e" and es: "list_all good_entry es" by simp_all
  from e Cons.prems(2,3) obtain pre1 cur1 rest1 where
      n: "read_next_header h cur rest (length pre) = Read OB_SUCCESS (fst e) (length pre1) cur1 rest1"
    and r1: "length rest1 \<le> 1" and s1: "cur1 @ concat rest1 = pre1 @ snd e @ stream es"
    by (rule read_next_stream)
  have "cur1 @ concat rest1 = (pre1 @ snd e) @ stream es" using s1 by simp
  from Cons.IH[OF es r1 this] show ?case
    using n good_entry_header[OF e] by simp
qed

subsection \<open>The receiver's check\<close>

definition plain_entry :: "entry \<Rightarrow> bool" where
  "plain_entry e \<longleftrightarrow> good_entry e \<and> \<not> leh_is_padding_log (fst e)"

definition data_intact :: "crc64 \<Rightarrow> entry \<Rightarrow> bool" where
  "data_intact crc e \<longleftrightarrow> leh_data_checksum (fst e) = crc 0 (snd e)"

lemma read_entry_at:
  assumes e: "good_entry e"
  shows "le_deserialize e0 (Some (pre @ stream (e # es))) (length pre)
    = (OB_SUCCESS, \<lparr>le_header = fst e, le_buf = Some (snd e @ stream es)\<rparr>, length (pre @ entry_image e))"
proof -
  have "leh_deserialize (le_header e0) (Some (pre @ stream (e # es))) (length pre) = (OB_SUCCESS, fst e, length pre + 32)"
    using e by (intro read_header_at) simp_all
  then show ?thesis
    using good_entry_header[OF e] intact_positive[of "fst e"] e
    by (cases e0) (simp add: le_deserialize_def empty_buffer_def buffer_len_def Let_def entry_image_def good_entry_def)
qed

lemma plain_check:
  assumes "plain_entry e"
  shows "le_check_integrity crc \<lparr>le_header = fst e, le_buf = Some (snd e @ rest)\<rparr> \<longleftrightarrow> data_intact crc e"
  using assms good_entry_header[of e] intact_positive[of "fst e"]
  by (auto simp: plain_entry_def le_check_integrity_def leh_check_integrity_def data_intact_def Let_def
      good_entry_def leh_check_header_integrity_def leh_is_valid_def)

lemma check_entries_stream:
  assumes "list_all plain_entry es"
  shows "check_entries crc e0 (pre @ stream es) (length pre) c =
     (list_all (data_intact crc) es,
      chain_checksum crc (takeWhile (data_intact crc) es @ take 1 (dropWhile (data_intact crc) es)) c)"
  using assms
proof (induction es arbitrary: e0 pre c)
  case Nil
  then show ?case by (simp add: check_entries.simps)
next
  case (Cons e es)
  then have e: "plain_entry e" "good_entry e" and es: "list_all plain_entry es" by (auto simp: plain_entry_def[of e])
  have s: "pre @ stream (e # es) = (pre @ entry_image e) @ stream es" by (simp add: entry_image_def)
  have l: "length pre < length (pre @ stream (e # es))" by simp
  show ?case
    unfolding check_entries.simps[of crc e0 "pre @ stream (e # es)"]
    using l read_entry_at[OF e(2), of e0 pre es] plain_check[OF e(1), of crc "stream es"]
      Cons.IH[OF es, of _ "pre @ entry_image e"] s
    by (simp add: Let_def del: stream_simps)
qed

subsection \<open>Truncation\<close>

definition kept :: "SCN \<Rightarrow> entry list \<Rightarrow> entry list" where
  "kept cut_scn es = takeWhile (\<lambda>e. \<not> scn_gt (leh_scn (fst e)) cut_scn) es"

definition later_scn :: "entry \<Rightarrow> SCN \<Rightarrow> SCN" where
  "later_scn e m = (if \<not> scn_is_valid m \<or> scn_gt (leh_scn (fst e)) m then leh_scn (fst e) else m)"

lemma truncate_loop_stream:
  assumes "list_all good_entry es"
  shows "truncate_loop crc h (pre @ stream es) cut_scn (length pre) (length pre) m c
    = (OB_SUCCESS, length pre + length (stream (kept cut_scn es)), fold later_scn (kept cut_scn es) m,
       chain_checksum crc (kept cut_scn es) c)"
  using assms
proof (induction es arbitrary: h pre m c)
  case Nil
  then show ?case by (simp add: kept_def truncate_loop.simps)
next
  case (Cons e es)
  then have e: "good_entry e" and es: "list_all good_entry es" by simp_all
  have s: "pre @ stream (e # es) = (pre @ entry_image e) @ stream es" by (simp add: entry_image_def)
  have l: "length pre < length (pre @ stream (e # es))" by simp
  have d: "leh_deserialize h (Some (pre @ stream (e # es))) (length pre) = (OB_SUCCESS, fst e, length pre + 32)"
    using e by (intro read_header_at) simp_all
  have p: "length pre + 32 + nat (leh_get_data_len (fst e)) = length (pre @ entry_image e)"
    using good_entry_header[OF e] by (simp add: entry_image_def)
  show ?case
    unfolding truncate_loop.simps[of crc h "pre @ stream (e # es)"]
    using l d p Cons.IH[OF es, of "fst e" "pre @ entry_image e"] s
    by (simp add: Let_def kept_def later_scn_def entry_image_def add.assoc)
qed

lemma later_scn_max:
  assumes "list_all good_entry es" and "es \<noteq> [] \<or> scn_is_valid m"
  shows "scn_is_valid (fold later_scn es m)
    \<and> (\<forall>e\<in>set es. scn_le (leh_scn (fst e)) (fold later_scn es m))
    \<and> (scn_is_valid m \<longrightarrow> scn_le m (fold later_scn es m))
    \<and> (fold later_scn es m = m \<or> (\<exists>e\<in>set es. fold later_scn es m = leh_scn (fst e)))"
  using assms
proof (induction es arbitrary: m)
  case Nil
  then show ?case by (auto simp: scn_le_def)
next
  case (Cons e es)
  have v: "scn_is_valid (leh_scn (fst e))"
    using Cons.prems by (simp add: good_entry_def leh_check_header_integrity_def leh_is_valid_def)
  have m1: "scn_is_valid (later_scn e m)" "scn_le (leh_scn (fst e)) (later_scn e m)" "scn_is_valid m \<Longrightarrow> scn_le m (later_scn e m)"
    using v by (auto simp: later_scn_def scn_le_def scn_gt_def)
  have le_trans: "scn_le a c" if "scn_le a b" "scn_le b c" for a b c
    using that order_trans[of a b c] by (simp add: less_eq_SCN_def)
  let ?f = "fold later_scn es (later_scn e m)"
  have f: "scn_is_valid ?f" "\<forall>e'\<in>set es. scn_le (leh_scn (fst e')) ?f" "scn_le (later_scn e m) ?f"
      "?f = later_scn e m \<or> (\<exists>e'\<in>set es. ?f = leh_scn (fst e'))"
    using Cons.IH[of "later_scn e m"] m1 Cons.prems by auto
  have "scn_le (leh_scn (fst e)) ?f" "scn_is_valid m \<Longrightarrow> scn_le m ?f"
    using le_trans[OF m1(2) f(3)] le_trans[OF m1(3) f(3)] by auto
  moreover have "later_scn e m = m \<or> later_scn e m = leh_scn (fst e)" by (simp add: later_scn_def)
  ultimately show ?case using f by auto
qed

lemma stream_kept_prefix: "stream es = stream (kept cut_scn es) @ stream (drop (length (kept cut_scn es)) es)"
proof -
  have "es = kept cut_scn es @ drop (length (kept cut_scn es)) es"
    unfolding kept_def by (metis dropWhile_eq_drop takeWhile_dropWhile_id)
  then show ?thesis by (metis concat_append map_append stream_def)
qed

lemma kept_good: "list_all P es \<Longrightarrow> list_all P (kept cut_scn es)"
  by (auto simp: kept_def list_all_iff dest: set_takeWhileD)

lemma check_whole_stream:
  assumes "list_all plain_entry es" "list_all (data_intact crc) es"
  shows "check_entries crc e0 (stream es) 0 c = (True, chain_checksum crc es c)"
proof -
  have "takeWhile (data_intact crc) es @ take 1 (dropWhile (data_intact crc) es) = es"
    using assms(2) by (induction es) auto
  then show ?thesis using check_entries_stream[OF assms(1), of crc e0 "[]" c] assms(2) by simp
qed

lemma truncate_result:
  assumes h: "\<not> lgh_is_padding_log h" and es: "list_all good_entry es" "es \<noteq> []"
    and n: "int (length (stream es)) < 2 ^ 31" and c: "scn_is_valid cut_scn"
  shows "lgh_truncate crc h (Some (stream es)) (int (length (stream es))) cut_scn pre = (OB_SUCCESS,
    lgh_update_header_checksum (h\<lparr>lgh_group_size := of_nat (length (stream (kept cut_scn es))),
      lgh_max_scn := fold later_scn (kept cut_scn es) scn_reset,
      lgh_accumulated_checksum := crc pre (memory_bytes (chain_checksum crc (kept cut_scn es) 0))\<rparr>))"
proof -
  have "stream es \<noteq> []" using es by (cases es) auto
  then show ?thesis
    using truncate_loop_stream[OF es(1), of crc leh_construct "[]" cut_scn scn_reset 0] h c
    by (simp add: lgh_truncate_def lgh_update_accumulated_checksum_def)
qed

subsection \<open>Properties\<close>

text \<open>C29: both headers read back as they were written, whatever was in the memory and in the
  object before.\<close>

theorem headers_roundtrip:
  assumes "lgh_check_header_integrity g" and "leh_check_header_integrity e"
    and "pos + 56 \<le> length xs"
  shows "lgh_deserialize g0 (fst (snd (lgh_serialize g (Some xs, pos)))) pos = (OB_SUCCESS, g, pos + 56)
    \<and> leh_deserialize e0 (fst (snd (leh_serialize e (Some xs, pos)))) pos = (OB_SUCCESS, e, pos + 32)"
  using lgh.roundtrip[OF assms(1), of pos xs g0] leh.roundtrip[OF assms(2), of pos xs e0] assms(3)
  by (simp add: LOG_GROUP_HEADER_SIZE_def LOG_ENTRY_HEADER_SIZE_def)

text \<open>Sample headers and a group of two entries.\<close>

definition sample_crc :: crc64 where
  "sample_crc c bs = foldl (\<lambda>a b. a * 31 + ucast b + 7) c bs"

definition sample_leh :: LogEntryHeader where
  "sample_leh = snd (leh_generate_header sample_crc leh_construct (Some [1, 2, 3]) 3 (SCN 7))"

definition sample_entries :: "entry list" where
  "sample_entries = [(sample_leh, [1, 2, 3]),
     (snd (leh_generate_header sample_crc leh_construct (Some [4, 5]) 2 (SCN 9)), [4, 5])]"

definition sample_lgh :: "u32 \<Rightarrow> LogGroupEntryHeader" where
  "sample_lgh group_size = lgh_update_header_checksum
     \<lparr>lgh_magic = LOG_GROUP_MAGIC, lgh_version = LOG_GROUP_ENTRY_HEADER_VERSION, lgh_group_size = group_size,
      lgh_proposal_id = 1, lgh_committed_end_lsn = LSN 100, lgh_max_scn = SCN 7, lgh_accumulated_checksum = 5,
      lgh_log_id = 3, lgh_flag = 0\<rparr>"

lemma sample_headers:
  "leh_check_header_integrity sample_leh" "lgh_check_header_integrity (sample_lgh 35)"
  "lgh_check_header_integrity (sample_lgh (- 100))" "lgh_get_data_len (sample_lgh (- 100)) = - 100"
  by code_simp+

lemma sample_entries_ok:
  "list_all plain_entry sample_entries" "list_all (data_intact sample_crc) sample_entries" "sample_entries \<noteq> []"
  by code_simp+

lemma length_sample [simp]: "length (stream sample_entries) = 69"
  by (simp add: sample_entries_def)

theorem headers_roundtrip_witness:
  "lgh_deserialize lgh_reset (fst (snd (lgh_serialize (sample_lgh 35) (Some (replicate 60 9), 2)))) 2
     = (OB_SUCCESS, sample_lgh 35, 58)
   \<and> leh_deserialize leh_reset (fst (snd (leh_serialize sample_leh (Some (replicate 60 9), 2)))) 2
     = (OB_SUCCESS, sample_leh, 34)"
  using headers_roundtrip[OF sample_headers(2,1), of 2 "replicate 60 9" lgh_reset leh_reset] by simp





text \<open>C24: truncating a group at a change number keeps exactly the entries before the first one above
  it: the new size is the length of their image, the new \<^verbatim>\<open>max_scn_\<close> is the largest of their change
  numbers, the accumulated checksum continues the chain over them, the header's own checksum
  holds again, and the shortened body passes the receiver's check. If no entry stays, the size is
  0 and the header carries no valid change number.\<close>

theorem truncate_keeps_prefix:
  assumes "\<not> lgh_is_padding_log h" and "list_all plain_entry es" and "list_all (data_intact crc) es" and "es \<noteq> []"
    and "int (length (stream es)) < 2 ^ 31" and "scn_is_valid cut_scn"
    and "lgh_truncate crc h (Some (stream es)) (int (length (stream es))) cut_scn pre = (ret, h')"
  shows "ret = OB_SUCCESS \<and> lgh_get_data_len h' = int (length (stream (kept cut_scn es)))
    \<and> lgh_accumulated_checksum h' = crc pre (memory_bytes (chain_checksum crc (kept cut_scn es) 0))
    \<and> lgh_check_integrity crc h' (Some (stream es)) (lgh_get_data_len h') c
        = (if lgh_magic h = LOG_GROUP_MAGIC then (True, chain_checksum crc (kept cut_scn es) 0) else (False, c))
    \<and> (if kept cut_scn es = [] then lgh_get_data_len h' = 0 \<and> \<not> lgh_is_valid h'
       else scn_is_valid (lgh_max_scn h') \<and> lgh_max_scn h' \<in> (\<lambda>e. leh_scn (fst e)) ` set (kept cut_scn es)
         \<and> (\<forall>e\<in>set (kept cut_scn es). scn_le (leh_scn (fst e)) (lgh_max_scn h')))"
proof -
  have good: "list_all good_entry es" using assms(2) by (auto simp: list_all_iff plain_entry_def)
  let ?k = "kept cut_scn es" let ?c = "chain_checksum crc ?k 0"
  define h1 where "h1 = h\<lparr>lgh_group_size := of_nat (length (stream ?k)), lgh_max_scn := fold later_scn ?k scn_reset,
      lgh_accumulated_checksum := crc pre (memory_bytes ?c)\<rparr>"
  have r: "ret = OB_SUCCESS" "h' = lgh_update_header_checksum h1"
    using truncate_result[OF assms(1) good assms(4,5,6), of crc pre] assms(7) by (auto simp: h1_def)
  have pre: "stream es = stream ?k @ stream (drop (length ?k) es)" by (rule stream_kept_prefix)
  then have "int (length (stream ?k)) < 2 ^ 31" using assms(5) by (metis length_append le_add1 of_nat_mono order_le_less_trans)
  then have len: "lgh_get_data_len h' = int (length (stream ?k))"
    using sint_of_int_small[of "int (length (stream ?k))"] by (simp add: lgh_get_data_len_def r h1_def)
  have "\<not> lgh_is_padding_log h1" using assms(1) by (simp add: h1_def lgh_is_padding_log_def)
  then have pad: "\<not> lgh_is_padding_log h'" by (simp add: r)
  have chk: "check_entries crc e0 (stream ?k) 0 0 = (True, ?c)" for e0
    by (intro check_whole_stream kept_good assms)
  have body: "check_log_checksum crc h' (Some (stream es)) (int (length (stream ?k))) c = (True, ?c)"
    using pad chk by (subst pre) (simp add: check_log_checksum_def)
  have m: "lgh_magic h' = lgh_magic h" "lgh_max_scn h' = fold later_scn ?k scn_reset"
      "lgh_accumulated_checksum h' = crc pre (memory_bytes ?c)" by (simp_all add: r h1_def)
  have hc: "lgh_check_header_checksum h'" by (simp add: r lgh_update_intact)
  have i: "lgh_check_integrity crc h' (Some (stream es)) (lgh_get_data_len h') c
      = (if lgh_magic h = LOG_GROUP_MAGIC then (True, ?c) else (False, c))"
    using body hc unfolding len by (auto simp: lgh_check_integrity_def m(1))
  have inv: "\<not> scn_is_valid scn_reset" by code_simp
  have s: "if ?k = [] then lgh_get_data_len h' = 0 \<and> \<not> lgh_is_valid h'
      else scn_is_valid (lgh_max_scn h') \<and> lgh_max_scn h' \<in> (\<lambda>e. leh_scn (fst e)) ` set ?k
        \<and> (\<forall>e\<in>set ?k. scn_le (leh_scn (fst e)) (lgh_max_scn h'))"
  proof (cases "?k = []")
    case True
    then show ?thesis using inv by (simp add: len lgh_is_valid_def m)
  next
    case False
    then show ?thesis using later_scn_max[OF kept_good[OF good], of cut_scn scn_reset] inv unfolding m(2) by auto
  qed
  show ?thesis using r(1) len m(3) i s by blast
qed

theorem truncate_keeps_prefix_witness:
  "lgh_get_data_len (snd (lgh_truncate sample_crc (sample_lgh 69) (Some (stream sample_entries)) 69 (SCN 8) 1)) = 35
   \<and> lgh_max_scn (snd (lgh_truncate sample_crc (sample_lgh 69) (Some (stream sample_entries)) 69 (SCN 8) 1)) = SCN 7"
proof -
  have k: "kept (SCN 8) sample_entries = [(sample_leh, [1, 2, 3])]" "leh_scn sample_leh = SCN 7"
      "\<not> lgh_is_padding_log (sample_lgh 69)" "scn_is_valid (SCN 8)" by code_simp+
  show ?thesis
    using truncate_keeps_prefix[OF k(3) sample_entries_ok _ k(4), where pre = 1 and c = 0] k(1,2)
    by (cases "lgh_truncate sample_crc (sample_lgh 69) (Some (stream sample_entries)) 69 (SCN 8) 1") auto
qed

text \<open>C31: the check of a group header does not bound the length it announces. A header with a
  negative length passes, \<^verbatim>\<open>LogGroupEntry::deserialize\<close> reports success with a null body, and the
  position it returns lies before the end of the header, by as much as the length is negative.\<close>

theorem negative_group_moves_back:
  assumes "lgh_check_header_integrity h" and "lgh_get_data_len h < 0"
  shows "lge_deserialize g (Some (lgh_bytes h @ behind)) 0
    = (OB_SUCCESS, \<lparr>lge_header = h, lge_buf = None\<rparr>, 56 + lgh_get_data_len h)"
proof -
  have "lgh_of_bytes (lgh_bytes h) = h" using assms(1) lgh.of_to by simp
  then have d: "lgh_deserialize (lge_header g) (Some (lgh_bytes h @ behind)) 0 = (OB_SUCCESS, h, 56)"
    using assms(1) by (simp add: lgh_deserialize_fits)
  then show ?thesis
    using assms(2) by (cases g) (simp add: lge_deserialize_def empty_buffer_def buffer_len_def Let_def)
qed

theorem negative_group_moves_back_witness:
  "lge_deserialize lge_reset (Some (lgh_bytes (sample_lgh (- 100)) @ [1, 2])) 0
    = (OB_SUCCESS, \<lparr>lge_header = sample_lgh (- 100), lge_buf = None\<rparr>, - 44)"
  using negative_group_moves_back[OF sample_headers(3), of lge_reset "[1, 2]"] sample_headers(4) by simp

end
