(* ===== verification/Log_Checksum.thy ===== *)
theory Log_Checksum
  imports Log_Group
begin

text \<open>
  The accumulated checksum of a replica (\<^verbatim>\<open>palf/log_checksum.cpp\<close>) and what it is for: a group
  that the leader builds, possibly across the end of its ring buffer, is read back by a follower
  with the same data checksum, and the follower's chain accepts it.
\<close>

subsection \<open>The chain\<close>

record LogChecksum =
  lc_is_inited :: bool
  lc_palf_id :: int
  prev_accum_checksum :: u64
  accum_checksum :: u64
  verify_checksum :: u64

definition INVALID_PALF_ID :: int where "INVALID_PALF_ID = - 1"

definition lc_construct :: LogChecksum where
  "lc_construct = \<lparr>lc_is_inited = False, lc_palf_id = INVALID_PALF_ID, prev_accum_checksum = 0,
     accum_checksum = 0, verify_checksum = 0\<rparr>"

definition lc_init :: "LogChecksum \<Rightarrow> int \<Rightarrow> u64 \<Rightarrow> ob_ret \<times> LogChecksum" where
  "lc_init s palf_id c =
     (if lc_is_inited s then (OB_INIT_TWICE, s)
      else (OB_SUCCESS, s\<lparr>lc_palf_id := palf_id, accum_checksum := c, verify_checksum := c, lc_is_inited := True\<rparr>))"

definition lc_destroy :: "LogChecksum \<Rightarrow> LogChecksum" where
  "lc_destroy s = s\<lparr>lc_is_inited := False, lc_palf_id := INVALID_PALF_ID, accum_checksum := 0, verify_checksum := 0\<rparr>"

definition acquire_accum_checksum :: "crc64 \<Rightarrow> LogChecksum \<Rightarrow> u64 \<Rightarrow> u64 \<Rightarrow> ob_ret \<times> LogChecksum \<times> u64" where
  "acquire_accum_checksum crc s data_checksum out =
     (if \<not> lc_is_inited s then (OB_NOT_INIT, s, out)
      else
        let c = crc (accum_checksum s) (memory_bytes data_checksum)
        in (OB_SUCCESS, s\<lparr>prev_accum_checksum := accum_checksum s, accum_checksum := c\<rparr>, c))"

definition verify_accum_checksum_static :: "crc64 \<Rightarrow> u64 \<Rightarrow> u64 \<Rightarrow> u64 \<Rightarrow> ob_ret \<times> u64" where
  "verify_accum_checksum_static crc old_accum_checksum data_checksum expected_accum_checksum =
     (let new_accum_checksum = crc old_accum_checksum (memory_bytes data_checksum)
      in (if new_accum_checksum \<noteq> expected_accum_checksum then OB_CHECKSUM_ERROR else OB_SUCCESS, new_accum_checksum))"

definition verify_accum_checksum :: "crc64 \<Rightarrow> LogChecksum \<Rightarrow> u64 \<Rightarrow> u64 \<Rightarrow> ob_ret \<times> LogChecksum" where
  "verify_accum_checksum crc s data_checksum c =
     (if \<not> lc_is_inited s then (OB_NOT_INIT, s)
      else case verify_accum_checksum_static crc (verify_checksum s) data_checksum c of (ret, new_verify_checksum) \<Rightarrow>
        if ret \<noteq> OB_SUCCESS then (ret, s) else (OB_SUCCESS, s\<lparr>verify_checksum := new_verify_checksum\<rparr>))"

definition rollback_accum_checksum :: "LogChecksum \<Rightarrow> u64 \<Rightarrow> ob_ret \<times> LogChecksum" where
  "rollback_accum_checksum s curr_accum_checksum =
     (if curr_accum_checksum \<noteq> accum_checksum s then (OB_STATE_NOT_MATCH, s)
      else (OB_SUCCESS, s\<lparr>accum_checksum := prev_accum_checksum s, prev_accum_checksum := 0\<rparr>))"

definition set_accum_checksum :: "LogChecksum \<Rightarrow> u64 \<Rightarrow> LogChecksum" where
  "set_accum_checksum s c = s\<lparr>accum_checksum := c\<rparr>"

definition set_verify_checksum :: "LogChecksum \<Rightarrow> u64 \<Rightarrow> LogChecksum" where
  "set_verify_checksum s c = s\<lparr>verify_checksum := c\<rparr>"

text \<open>A leader acquires a checksum for each group, a follower verifies each group it receives.\<close>

fun acquire_all :: "crc64 \<Rightarrow> LogChecksum \<Rightarrow> u64 list \<Rightarrow> LogChecksum \<times> u64 list" where
  "acquire_all crc s [] = (s, [])"
| "acquire_all crc s (d # ds) =
     (case acquire_accum_checksum crc s d 0 of (ret, s1, c) \<Rightarrow>
      case acquire_all crc s1 ds of (s2, cs) \<Rightarrow> (s2, c # cs))"

fun verify_all :: "crc64 \<Rightarrow> LogChecksum \<Rightarrow> (u64 \<times> u64) list \<Rightarrow> ob_ret \<times> LogChecksum" where
  "verify_all crc s [] = (OB_SUCCESS, s)"
| "verify_all crc s ((d, c) # dcs) =
     (case verify_accum_checksum crc s d c of (ret, s1) \<Rightarrow>
        if ret \<noteq> OB_SUCCESS then (ret, s1) else verify_all crc s1 dcs)"

lemma verify_acquired:
  assumes "lc_is_inited l" "lc_is_inited f" "verify_checksum f = accum_checksum l"
    and "acquire_all crc l ds = (l', cs)"
  shows "verify_all crc f (zip ds cs) = (OB_SUCCESS, f\<lparr>verify_checksum := accum_checksum l'\<rparr>)"
  using assms
proof (induction ds arbitrary: l f l' cs)
  case Nil
  then show ?case by (cases f) simp
next
  case (Cons d ds)
  define l1 where "l1 = l\<lparr>prev_accum_checksum := accum_checksum l, accum_checksum := crc (accum_checksum l) (memory_bytes d)\<rparr>"
  obtain l2 cs2 where a: "acquire_all crc l1 ds = (l2, cs2)" by fastforce
  then have l': "l' = l2" "cs = accum_checksum l1 # cs2"
    using Cons.prems by (auto simp: acquire_accum_checksum_def l1_def Let_def)
  have v: "verify_accum_checksum crc f d (accum_checksum l1) = (OB_SUCCESS, f\<lparr>verify_checksum := accum_checksum l1\<rparr>)"
    using Cons.prems by (simp add: verify_accum_checksum_def verify_accum_checksum_static_def l1_def Let_def)
  have "verify_all crc (f\<lparr>verify_checksum := accum_checksum l1\<rparr>) (zip ds cs2)
      = (OB_SUCCESS, f\<lparr>verify_checksum := accum_checksum l1\<rparr>\<lparr>verify_checksum := accum_checksum l2\<rparr>)"
    using Cons.prems a by (intro Cons.IH) (auto simp: l1_def)
  then show ?case using v l' by simp
qed

lemma acquire_all_length: "acquire_all crc l ds = (l', cs) \<Longrightarrow> length cs = length ds"
  by (induction ds arbitrary: l l' cs) (auto split: prod.splits)

lemma acquire_all_append:
  "acquire_all crc l (ds @ es) =
     (case acquire_all crc l ds of (l1, cs) \<Rightarrow> case acquire_all crc l1 es of (l2, cs') \<Rightarrow> (l2, cs @ cs'))"
  by (induction ds arbitrary: l) (auto split: prod.splits)

lemma acquire_all_inited: "lc_is_inited l \<Longrightarrow> lc_is_inited (fst (acquire_all crc l ds))"
  by (induction ds arbitrary: l) (auto simp: acquire_accum_checksum_def Let_def case_prod_beta)

lemma rollback_last:
  assumes "lc_is_inited l" and "acquire_all crc l (ds @ [d]) = (l', cs)"
  shows "rollback_accum_checksum l' (accum_checksum l')
    = (OB_SUCCESS, l'\<lparr>accum_checksum := accum_checksum (fst (acquire_all crc l ds)), prev_accum_checksum := 0\<rparr>)"
  using assms acquire_all_inited[OF assms(1), of crc ds]
  by (auto simp: acquire_all_append acquire_accum_checksum_def rollback_accum_checksum_def Let_def split: prod.splits)

subsection \<open>Properties\<close>

text \<open>C30: a follower whose chain starts where the leader's does accepts every sequence of groups with
  the checksums the leader acquired for them and ends at the leader's value; a group with another
  accumulated checksum is refused and leaves the follower's chain where it was; and a rollback
  after the last acquisition brings the leader's chain back to the value before it.\<close>

theorem chain_verified:
  assumes "lc_is_inited l" and "lc_is_inited f" and "verify_checksum f = accum_checksum l"
    and "acquire_all crc l (ds @ [d]) = (l', cs)"
  shows "verify_all crc f (zip (ds @ [d]) cs) = (OB_SUCCESS, f\<lparr>verify_checksum := accum_checksum l'\<rparr>)
    \<and> length cs = length ds + 1
    \<and> (\<forall>c x. c \<noteq> crc (verify_checksum f) (memory_bytes x) \<longrightarrow> verify_accum_checksum crc f x c = (OB_CHECKSUM_ERROR, f))
    \<and> fst (rollback_accum_checksum l' (accum_checksum l')) = OB_SUCCESS
    \<and> accum_checksum (snd (rollback_accum_checksum l' (accum_checksum l'))) = accum_checksum (fst (acquire_all crc l ds))"
proof -
  have "verify_accum_checksum crc f x c = (OB_CHECKSUM_ERROR, f)" if "c \<noteq> crc (verify_checksum f) (memory_bytes x)" for c x
    using that assms(2) by (simp add: verify_accum_checksum_def verify_accum_checksum_static_def Let_def)
  then show ?thesis
    using verify_acquired[OF assms] acquire_all_length[OF assms(4)] rollback_last[OF assms(1,4)] by simp
qed

theorem chain_verified_witness:
  "verify_all sample_crc (snd (lc_init lc_construct 1 5))
      (zip [3, 4] (snd (acquire_all sample_crc (snd (lc_init lc_construct 2 5)) [3, 4])))
    = (OB_SUCCESS, (snd (lc_init lc_construct 1 5))
        \<lparr>verify_checksum := accum_checksum (fst (acquire_all sample_crc (snd (lc_init lc_construct 2 5)) [3, 4]))\<rparr>)"
proof -
  have "lc_is_inited (snd (lc_init lc_construct 2 5))" "lc_is_inited (snd (lc_init lc_construct 1 5))"
      "verify_checksum (snd (lc_init lc_construct 1 5)) = accum_checksum (snd (lc_init lc_construct 2 5))"
    by (simp_all add: lc_init_def lc_construct_def)
  from chain_verified[OF this, of sample_crc "[3]" 4] show ?thesis
    by (cases "acquire_all sample_crc (snd (lc_init lc_construct 2 5)) [3, 4]") simp
qed

end
