(* ===== verification/Group_Buffer.thy ===== *)
theory Group_Buffer
  imports Log_Checksum
begin

text \<open>
  The ring buffer between the log entries of a replica and its disk (\<^verbatim>\<open>palf/log_group_buffer.cpp\<close>)
  and the pieces of memory handed to the I/O layer (\<^verbatim>\<open>palf/log_writer_utils.cpp\<close>). The memory behind
  \<^verbatim>\<open>data_buf_\<close> is a function from offsets to bytes, so that a write past the allocated region would
  be visible. The byte of sequence number \<open>l\<close> lives at offset \<open>(l - start_lsn) mod reserved\<close>; what
  may still be read is bounded by \<^verbatim>\<open>readable_begin_lsn_\<close> and \<^verbatim>\<open>reuse_lsn_\<close>. The abstract state is the
  log itself: for each sequence number the byte last filled in.
\<close>

type_synonym memory = "nat \<Rightarrow> byte"

definition mem_write :: "memory \<Rightarrow> nat \<Rightarrow> byte list \<Rightarrow> memory" where
  "mem_write m pos bs = (\<lambda>i. if pos \<le> i \<and> i < pos + length bs then bs ! (i - pos) else m i)"

definition mem_read :: "memory \<Rightarrow> nat \<Rightarrow> nat \<Rightarrow> byte list" where
  "mem_read m pos n = map m [pos..<pos + n]"

definition LEADER_DEFAULT_GROUP_BUFFER_SIZE :: int where
  "LEADER_DEFAULT_GROUP_BUFFER_SIZE = 2 ^ 25"
definition FOLLOWER_DEFAULT_GROUP_BUFFER_SIZE :: int where
  "FOLLOWER_DEFAULT_GROUP_BUFFER_SIZE = LEADER_DEFAULT_GROUP_BUFFER_SIZE + 8 * 1024 * 1024"
definition MAX_LOG_HEADER_SIZE :: int where "MAX_LOG_HEADER_SIZE = 4 * 1024"
definition MAX_LOG_BUFFER_SIZE :: int where
  "MAX_LOG_BUFFER_SIZE = MAX_LOG_BODY_SIZE + MAX_LOG_HEADER_SIZE + CLOG_FILE_TAIL_PADDING_TRIGGER"
definition PADDING_LOG_CONTENT_CHAR :: byte where "PADDING_LOG_CONTENT_CHAR = 0"

subsection \<open>Pieces of memory\<close>

text \<open>\<^verbatim>\<open>LogWriteBuf::push_back\<close> cuts what it is given into pieces of at most \<^const>\<open>MAX_LOG_BUFFER_SIZE\<close>.\<close>

function (sequential) cut_pieces :: "nat \<Rightarrow> byte list \<Rightarrow> byte list list" where
  "cut_pieces step xs = (if step = 0 \<or> xs = [] then [] else take step xs # cut_pieces step (drop step xs))"
  by pat_completeness auto
termination by (relation "measure (\<lambda>(step, xs). length xs)") auto

declare cut_pieces.simps [simp del]

definition write_buf_push_back :: "byte list list \<Rightarrow> buffer \<Rightarrow> ob_ret \<times> byte list list" where
  "write_buf_push_back wb buf =
     (case buf of
        None \<Rightarrow> (OB_INVALID_ARGUMENT, wb)
      | Some xs \<Rightarrow> if xs = [] then (OB_INVALID_ARGUMENT, wb)
                  else (OB_SUCCESS, wb @ cut_pieces (nat MAX_LOG_BUFFER_SIZE) xs))"

definition write_buf_is_valid :: "byte list list \<Rightarrow> bool" where
  "write_buf_is_valid wb \<longleftrightarrow> 0 < length wb"

definition write_buf_get_total_size :: "byte list list \<Rightarrow> nat" where
  "write_buf_get_total_size wb = sum_list (map length wb)"

definition memcpy_to_continous_memory :: "byte list list \<Rightarrow> byte list \<Rightarrow> byte list" where
  "memcpy_to_continous_memory wb dest =
     fst (foldl (\<lambda>(d, pos) b. (overwrite d pos b, pos + length b)) (dest, 0) wb)"

subsection \<open>The state\<close>

record LogGroupBuffer =
  gb_is_inited :: bool
  gb_start_lsn :: LSN
  gb_reuse_lsn :: LSN
  gb_readable_begin_lsn :: LSN
  reserved_buffer_size :: int
  available_buffer_size :: int
  data_buf :: "memory option"

definition gb_reset :: LogGroupBuffer where
  "gb_reset = \<lparr>gb_is_inited = False, gb_start_lsn = lsn_reset, gb_reuse_lsn = lsn_reset,
     gb_readable_begin_lsn = lsn_reset, reserved_buffer_size = 0, available_buffer_size = 0, data_buf = None\<rparr>"

text \<open>\<open>alloc\<close> says whether \<^verbatim>\<open>mtl_malloc\<close> returns memory.\<close>

definition gb_init :: "bool \<Rightarrow> LogGroupBuffer \<Rightarrow> LSN \<Rightarrow> ob_ret \<times> LogGroupBuffer" where
  "gb_init alloc s start =
     (if gb_is_inited s then (OB_INIT_TWICE, s)
      else if \<not> lsn_is_valid start then (OB_INVALID_ARGUMENT, s)
      else if \<not> alloc then (OB_ALLOCATE_MEMORY_FAILED, s\<lparr>data_buf := None\<rparr>)
      else (OB_SUCCESS,
        \<lparr>gb_is_inited = True, gb_start_lsn = start, gb_reuse_lsn = start, gb_readable_begin_lsn = start,
         reserved_buffer_size = FOLLOWER_DEFAULT_GROUP_BUFFER_SIZE,
         available_buffer_size = FOLLOWER_DEFAULT_GROUP_BUFFER_SIZE, data_buf = Some (\<lambda>_. 0)\<rparr>))"

definition gb_destroy :: "LogGroupBuffer \<Rightarrow> LogGroupBuffer" where
  "gb_destroy s = gb_reset"

text \<open>\<^verbatim>\<open>lsn - start_lsn\<close> is read as a signed number, which the code asserts to be non-negative.\<close>

definition get_buffer_pos :: "LogGroupBuffer \<Rightarrow> LSN \<Rightarrow> ob_ret \<times> int" where
  "get_buffer_pos s l =
     (if \<not> gb_is_inited s then (OB_NOT_INIT, 0)
      else if \<not> lsn_is_valid l then (OB_INVALID_ARGUMENT, 0)
      else if lsn_lt l (gb_start_lsn s) then (OB_ERR_OUT_OF_LOWER_BOUND, 0)
      else (OB_SUCCESS, sint (lsn_diff l (gb_start_lsn s)) mod reserved_buffer_size s))"

definition can_handle_new_log_ref :: "LogGroupBuffer \<Rightarrow> LSN \<Rightarrow> int \<Rightarrow> LSN \<Rightarrow> bool" where
  "can_handle_new_log_ref s l total_len ref_reuse_lsn =
     (let end_lsn = lsn_add l (of_int total_len);
          reuse_lsn = min (gb_reuse_lsn s) ref_reuse_lsn in
      if \<not> gb_is_inited s then False
      else if \<not> lsn_is_valid l \<or> total_len \<le> 0 \<or> \<not> lsn_is_valid ref_reuse_lsn then False
      else if lsn_lt l (gb_start_lsn s) then False
      else if lsn_gt end_lsn (lsn_add reuse_lsn (of_int (available_buffer_size s))) then False
      else True)"

definition can_handle_new_log :: "LogGroupBuffer \<Rightarrow> LSN \<Rightarrow> int \<Rightarrow> bool" where
  "can_handle_new_log s l total_len =
     (if \<not> gb_is_inited s then False
      else if \<not> lsn_is_valid l \<or> total_len \<le> 0 then False
      else can_handle_new_log_ref s l total_len (LSN LOG_MAX_LSN_VAL))"

definition read_ring :: "LogGroupBuffer \<Rightarrow> int \<Rightarrow> int \<Rightarrow> byte list \<times> byte list" where
  "read_ring s start_pos len =
     (let m = the (data_buf s);
          group_buf_tail_len = reserved_buffer_size s - start_pos;
          first_part_len = min group_buf_tail_len len
      in (mem_read m (nat start_pos) (nat first_part_len),
          if len > first_part_len then mem_read m 0 (nat (len - first_part_len)) else []))"

definition get_log_buf :: "LogGroupBuffer \<Rightarrow> LSN \<Rightarrow> int \<Rightarrow> byte list list \<Rightarrow> ob_ret \<times> byte list list" where
  "get_log_buf s l total_len log_buf =
     (if \<not> gb_is_inited s then (OB_NOT_INIT, log_buf)
      else if \<not> lsn_is_valid l \<or> total_len \<le> 0 then (OB_INVALID_ARGUMENT, log_buf)
      else if lsn_lt l (gb_start_lsn s) then (OB_INVALID_ARGUMENT, log_buf)
      else case get_buffer_pos s l of (ret, start_pos) \<Rightarrow>
        if ret \<noteq> OB_SUCCESS then (ret, log_buf)
        else case read_ring s start_pos total_len of (first_part, second_part) \<Rightarrow>
          case write_buf_push_back log_buf (Some first_part) of (ret, log_buf1) \<Rightarrow>
            if ret \<noteq> OB_SUCCESS then (ret, log_buf1)
            else if second_part \<noteq> [] then write_buf_push_back log_buf1 (Some second_part)
            else (OB_SUCCESS, log_buf1))"

definition fill_ring :: "LogGroupBuffer \<Rightarrow> int \<Rightarrow> byte list \<Rightarrow> LogGroupBuffer" where
  "fill_ring s start_pos data =
     (let m = the (data_buf s);
          group_buf_tail_len = reserved_buffer_size s - start_pos;
          first_part_len = nat (min group_buf_tail_len (int (length data)));
          m1 = mem_write m (nat start_pos) (take first_part_len data);
          m2 = if length data > first_part_len then mem_write m1 0 (drop first_part_len data) else m1
      in s\<lparr>data_buf := Some m2\<rparr>)"

definition gen_readable_begin_lsn_for_filling :: "LogGroupBuffer \<Rightarrow> LSN \<Rightarrow> LSN" where
  "gen_readable_begin_lsn_for_filling s l =
     (if lsn_val l \<ge> of_int (reserved_buffer_size s) then lsn_sub l (of_int (reserved_buffer_size s)) else LSN 0)"

definition gb_inc_update_readable :: "LogGroupBuffer \<Rightarrow> LSN \<Rightarrow> LogGroupBuffer" where
  "gb_inc_update_readable s l =
     (if lsn_val (gb_readable_begin_lsn s) < lsn_val l then s\<lparr>gb_readable_begin_lsn := l\<rparr> else s)"

definition gb_fill :: "LogGroupBuffer \<Rightarrow> LSN \<Rightarrow> buffer \<Rightarrow> ob_ret \<times> LogGroupBuffer" where
  "gb_fill s l data =
     (let data_len = buffer_len data;
          end_lsn = lsn_add l (of_int data_len) in
      if \<not> gb_is_inited s then (OB_NOT_INIT, s)
      else if \<not> lsn_is_valid l \<or> data = None \<or> data_len \<le> 0 then (OB_INVALID_ARGUMENT, s)
      else if lsn_lt l (gb_start_lsn s) then (OB_ERR_UNEXPECTED, s)
      else if lsn_le end_lsn (gb_reuse_lsn s) then (OB_ERR_UNEXPECTED, s)
      else if lsn_gt end_lsn (lsn_add (gb_reuse_lsn s) (of_int (available_buffer_size s))) then (OB_EAGAIN, s)
      else case get_buffer_pos s l of (ret, start_pos) \<Rightarrow>
        if ret \<noteq> OB_SUCCESS then (ret, s)
        else (OB_SUCCESS, fill_ring (gb_inc_update_readable s (gen_readable_begin_lsn_for_filling s end_lsn))
                start_pos (the data)))"

text \<open>The body of a padding log: zeros, then its valid bytes over the front of them.\<close>

definition gb_fill_padding_body :: "LogGroupBuffer \<Rightarrow> LSN \<Rightarrow> byte list \<Rightarrow> int \<Rightarrow> ob_ret \<times> LogGroupBuffer" where
  "gb_fill_padding_body s l data log_body_size =
     (let end_lsn = lsn_add l (of_int log_body_size) in
      if \<not> gb_is_inited s then (OB_NOT_INIT, s)
      else if \<not> lsn_is_valid l \<or> log_body_size \<le> 0 then (OB_INVALID_ARGUMENT, s)
      else if lsn_lt l (gb_start_lsn s) then (OB_ERR_UNEXPECTED, s)
      else if lsn_le end_lsn (gb_reuse_lsn s) then (OB_ERR_UNEXPECTED, s)
      else if lsn_gt end_lsn (lsn_add (gb_reuse_lsn s) (of_int (available_buffer_size s))) then (OB_EAGAIN, s)
      else case get_buffer_pos s l of (ret, start_pos) \<Rightarrow>
        if ret \<noteq> OB_SUCCESS then (ret, s)
        else
          let s1 = gb_inc_update_readable s (gen_readable_begin_lsn_for_filling s end_lsn);
              s2 = fill_ring s1 start_pos (replicate (nat log_body_size) PADDING_LOG_CONTENT_CHAR)
          in (OB_SUCCESS, fill_ring s2 start_pos data))"

definition check_log_buf_wrapped :: "LogGroupBuffer \<Rightarrow> LSN \<Rightarrow> int \<Rightarrow> ob_ret \<times> bool" where
  "check_log_buf_wrapped s l log_len =
     (if \<not> gb_is_inited s then (OB_NOT_INIT, False)
      else if \<not> lsn_is_valid l \<or> log_len \<le> 0 then (OB_INVALID_ARGUMENT, False)
      else if lsn_lt l (gb_start_lsn s) then (OB_SUCCESS, False)
      else case get_buffer_pos s l of (ret, start_pos) \<Rightarrow>
        if ret \<noteq> OB_SUCCESS then (ret, False)
        else (OB_SUCCESS, start_pos + log_len > reserved_buffer_size s))"

definition gb_to_leader :: "LogGroupBuffer \<Rightarrow> ob_ret \<times> LogGroupBuffer" where
  "gb_to_leader s =
     (if \<not> gb_is_inited s then (OB_NOT_INIT, s)
      else if LEADER_DEFAULT_GROUP_BUFFER_SIZE = available_buffer_size s then (OB_STATE_NOT_MATCH, s)
      else (OB_SUCCESS, s\<lparr>available_buffer_size := LEADER_DEFAULT_GROUP_BUFFER_SIZE\<rparr>))"

definition gb_to_follower :: "LogGroupBuffer \<Rightarrow> ob_ret \<times> LogGroupBuffer" where
  "gb_to_follower s =
     (if \<not> gb_is_inited s then (OB_NOT_INIT, s)
      else if FOLLOWER_DEFAULT_GROUP_BUFFER_SIZE = available_buffer_size s then (OB_SUCCESS, s)
      else (OB_SUCCESS, s\<lparr>available_buffer_size := FOLLOWER_DEFAULT_GROUP_BUFFER_SIZE\<rparr>))"

definition gb_inc_update_readable_begin_lsn :: "LogGroupBuffer \<Rightarrow> LSN \<Rightarrow> ob_ret \<times> LogGroupBuffer" where
  "gb_inc_update_readable_begin_lsn s l =
     (if \<not> lsn_is_valid l then (OB_INVALID_ARGUMENT, s) else (OB_SUCCESS, gb_inc_update_readable s l))"

definition gb_inc_update_reuse_lsn :: "LogGroupBuffer \<Rightarrow> LSN \<Rightarrow> ob_ret \<times> LogGroupBuffer" where
  "gb_inc_update_reuse_lsn s l =
     (if \<not> lsn_is_valid l then (OB_INVALID_ARGUMENT, s)
      else (OB_SUCCESS, if lsn_gt l (gb_reuse_lsn s) then s\<lparr>gb_reuse_lsn := l\<rparr> else s))"

definition gb_truncate :: "LogGroupBuffer \<Rightarrow> LSN \<Rightarrow> ob_ret \<times> LogGroupBuffer" where
  "gb_truncate s l =
     (if \<not> lsn_is_valid l then (OB_INVALID_ARGUMENT, s)
      else if lsn_lt l (gb_start_lsn s) then (OB_INVALID_ARGUMENT, s)
      else (OB_SUCCESS, (gb_inc_update_readable s l)\<lparr>gb_reuse_lsn := l\<rparr>))"

text \<open>\<^verbatim>\<open>read_data\<close> copies into the caller's buffer; the result is what it copies, which is nothing when
  the reuse point has not passed the position. With no writer in between, the second look at
  \<^verbatim>\<open>readable_begin_lsn_\<close> sees the first value.\<close>

definition gb_read_data :: "LogGroupBuffer \<Rightarrow> LSN \<Rightarrow> int \<Rightarrow> ob_ret \<times> byte list" where
  "gb_read_data s l in_read_size =
     (if \<not> lsn_is_valid l \<or> in_read_size \<le> 0 then (OB_INVALID_ARGUMENT, [])
      else case get_buffer_pos s l of (ret, start_pos) \<Rightarrow>
        if ret \<noteq> OB_SUCCESS then (ret, [])
        else if lsn_lt l (gb_readable_begin_lsn s) then (OB_ERR_OUT_OF_LOWER_BOUND, [])
        else if lsn_gt (gb_reuse_lsn s) l then
          let readable_size = sint (lsn_diff (gb_reuse_lsn s) l);
              real_read_size = min readable_size in_read_size
          in case read_ring s start_pos real_read_size of (first_part, second_part) \<Rightarrow>
            (OB_SUCCESS, first_part @ second_part)
        else (OB_SUCCESS, []))"

end
