(* ===== verification/Ring_Refinement.thy ===== *)
theory Ring_Refinement
  imports Group_Buffer
begin

text \<open>
  The ring buffer implements the log: after any history of calls that respects the callers'
  contract, what \<^verbatim>\<open>read_data\<close> returns are the bytes last filled in at those sequence numbers.
\<close>

subsection \<open>Positions in the ring\<close>

lemma ring_pos_neq:
  fixes x y start R :: nat
  assumes "start \<le> x" "start \<le> y" "x < y" "y < x + R"
  shows "(x - start) mod R \<noteq> (y - start) mod R"
proof
  assume "(x - start) mod R = (y - start) mod R"
  then have "R dvd (y - start) - (x - start)" using assms by (metis mod_eq_dvd_iff_nat diff_le_mono less_imp_le_nat)
  then have "R dvd y - x" using assms by (simp add: diff_diff_eq)
  then show False using assms by (auto dest: dvd_imp_le)
qed

lemma int_tail: "P < R \<Longrightarrow> int R - int P = int (R - P)"
  by simp

lemma fill_ring_nat:
  assumes "reserved_buffer_size s = int R" "P < R"
  shows "the (data_buf (fill_ring s (int P) data)) =
    (if length data \<le> R - P then mem_write (the (data_buf s)) P data
     else mem_write (mem_write (the (data_buf s)) P (take (R - P) data)) 0 (drop (R - P) data))"
proof -
  have "nat (min (int R - int P) (int (length data))) = min (R - P) (length data)"
    using int_tail[OF assms(2)] by (metis nat_int of_nat_min)
  then show ?thesis using assms by (simp add: fill_ring_def Let_def min_def)
qed

lemma fill_ring_at:
  assumes R: "reserved_buffer_size s = int R" "P < R" and len: "length data \<le> R" and i: "i < R"
  shows "the (data_buf (fill_ring s (int P) data)) i =
    (if P \<le> i \<and> i < P + length data then data ! (i - P)
     else if i + R < P + length data then data ! (i + R - P) else the (data_buf s) i)"
proof -
  have "R - P + i = i + R - P" using R(2) by simp
  then show ?thesis using assms unfolding fill_ring_nat[OF R] by (auto simp: mem_write_def)
qed

lemma fill_ring_hit:
  assumes R: "reserved_buffer_size s = int R" "P < R" and len: "length data \<le> R" and k: "k < length data"
  shows "the (data_buf (fill_ring s (int P) data)) ((P + k) mod R) = data ! k"
proof -
  have "(P + k) mod R < R" using R(2) by simp
  moreover have "(P + k) mod R = (if P + k < R then P + k else P + k - R)" using R(2) len k by (auto simp: mod_if)
  ultimately show ?thesis using R(2) len k by (auto simp: fill_ring_at[OF R len])
qed

lemma fill_ring_miss:
  assumes R: "reserved_buffer_size s = int R" "P < R" and len: "length data \<le> R" and i: "i < R"
    and miss: "\<And>k. k < length data \<Longrightarrow> (P + k) mod R \<noteq> i"
  shows "the (data_buf (fill_ring s (int P) data)) i = the (data_buf s) i"
proof -
  have "\<not> (P \<le> i \<and> i < P + length data)" using miss[of "i - P"] i by (auto simp: less_diff_conv2)
  moreover have "\<not> i + R < P + length data"
  proof
    assume a: "i + R < P + length data"
    then show False using miss[of "i + R - P"] R(2) i by (auto simp: less_diff_conv2)
  qed
  ultimately show ?thesis by (simp only: fill_ring_at[OF R len i] if_False)
qed

lemma fill_ring_outside:
  assumes R: "reserved_buffer_size s = int R" "P < R" and "length data \<le> R" and "R \<le> i"
  shows "the (data_buf (fill_ring s (int P) data)) i = the (data_buf s) i"
  using assms unfolding fill_ring_nat[OF R] by (auto simp: mem_write_def)

lemma fill_ring_fields [simp]:
  "gb_is_inited (fill_ring s p d) = gb_is_inited s" "gb_start_lsn (fill_ring s p d) = gb_start_lsn s"
  "gb_reuse_lsn (fill_ring s p d) = gb_reuse_lsn s" "gb_readable_begin_lsn (fill_ring s p d) = gb_readable_begin_lsn s"
  "reserved_buffer_size (fill_ring s p d) = reserved_buffer_size s"
  "available_buffer_size (fill_ring s p d) = available_buffer_size s" "data_buf (fill_ring s p d) \<noteq> None"
  by (simp_all add: fill_ring_def Let_def)

lemma read_ring_nat:
  assumes "reserved_buffer_size s = int R" "P < R"
  shows "read_ring s (int P) (int n) =
    (mem_read (the (data_buf s)) P (min (R - P) n), mem_read (the (data_buf s)) 0 (n - min (R - P) n))"
proof -
  have m: "min (int R - int P) (int n) = int (min (R - P) n)"
    using int_tail[OF assms(2)] by (metis of_nat_min)
  have d: "nat (int n - int k) = n - k" for k by linarith
  show ?thesis unfolding read_ring_def Let_def assms(1) m d by (auto simp: mem_read_def)
qed

lemma read_ring_at:
  assumes R: "reserved_buffer_size s = int R" "P < R" and n: "n \<le> R"
  shows "fst (read_ring s (int P) (int n)) @ snd (read_ring s (int P) (int n))
    = map (\<lambda>k. the (data_buf s) ((P + k) mod R)) [0..<n]"
proof (rule nth_equalityI)
  fix k assume "k < length (fst (read_ring s (int P) (int n)) @ snd (read_ring s (int P) (int n)))"
  then have k: "k < n" unfolding read_ring_nat[OF R] by (simp add: mem_read_def)
  have e: "(P + k) mod R = (if k < R - P then P + k else k - (R - P))"
    using R(2) n k by (auto simp: mod_if)
  show "(fst (read_ring s (int P) (int n)) @ snd (read_ring s (int P) (int n))) ! k
      = map (\<lambda>k. the (data_buf s) ((P + k) mod R)) [0..<n] ! k"
    using k unfolding read_ring_nat[OF R] by (simp add: mem_read_def nth_append e min_def)
qed (simp add: read_ring_nat[OF R] mem_read_def)

subsection \<open>The log the buffer stands for\<close>

type_synonym log = "nat \<Rightarrow> byte option"

definition ln :: "LSN \<Rightarrow> nat" where
  "ln l = nat (uint (lsn_val l))"

definition LSN_LIMIT :: nat where
  "LSN_LIMIT = 2 ^ 62"

abbreviation ring_size :: "LogGroupBuffer \<Rightarrow> nat" where
  "ring_size s \<equiv> nat (reserved_buffer_size s)"

definition log_write :: "log \<Rightarrow> nat \<Rightarrow> byte list \<Rightarrow> log" where
  "log_write g a bs = (\<lambda>l. if a \<le> l \<and> l < a + length bs then Some (bs ! (l - a)) else g l)"

definition log_cut :: "log \<Rightarrow> nat \<Rightarrow> log" where
  "log_cut g n = (\<lambda>l. if l < n then g l else None)"

definition gb_inv :: "LogGroupBuffer \<Rightarrow> bool" where
  "gb_inv s \<longleftrightarrow> gb_is_inited s \<and> data_buf s \<noteq> None
     \<and> reserved_buffer_size s = FOLLOWER_DEFAULT_GROUP_BUFFER_SIZE
     \<and> 0 < available_buffer_size s \<and> available_buffer_size s \<le> reserved_buffer_size s
     \<and> ln (gb_start_lsn s) \<le> ln (gb_reuse_lsn s) \<and> ln (gb_reuse_lsn s) < LSN_LIMIT
     \<and> ln (gb_readable_begin_lsn s) < LSN_LIMIT"

definition holds_byte :: "LogGroupBuffer \<Rightarrow> nat \<Rightarrow> byte \<Rightarrow> bool" where
  "holds_byte s l b \<longleftrightarrow> ln (gb_start_lsn s) \<le> l \<and> l < ln (gb_reuse_lsn s) + ring_size s
     \<and> l < ln (gb_readable_begin_lsn s) + ring_size s
     \<and> (ln (gb_readable_begin_lsn s) \<le> l \<longrightarrow> the (data_buf s) ((l - ln (gb_start_lsn s)) mod ring_size s) = b)"

definition stands_for :: "LogGroupBuffer \<Rightarrow> log \<Rightarrow> bool" where
  "stands_for s g \<longleftrightarrow> gb_inv s \<and> (\<forall>l b. g l = Some b \<longrightarrow> holds_byte s l b)"

lemma int_ln: "int (ln l) = uint (lsn_val l)"
  by (simp add: ln_def)

lemma int_LSN_LIMIT: "int LSN_LIMIT = 2 ^ 62"
  by (simp add: LSN_LIMIT_def)

lemma ln_order: "lsn_lt a b \<longleftrightarrow> ln a < ln b" "lsn_gt a b \<longleftrightarrow> ln b < ln a" "lsn_le a b \<longleftrightarrow> ln a \<le> ln b"
  unfolding lsn_lt_uint lsn_gt_uint lsn_le_uint int_ln[symmetric] by simp_all

lemma ring_size_eq:
  assumes "gb_inv s"
  shows "reserved_buffer_size s = int (ring_size s)" "0 < ring_size s" "ring_size s < LSN_LIMIT"
proof -
  have R: "reserved_buffer_size s = 41943040"
    using assms by (simp add: gb_inv_def FOLLOWER_DEFAULT_GROUP_BUFFER_SIZE_def LEADER_DEFAULT_GROUP_BUFFER_SIZE_def)
  then show "reserved_buffer_size s = int (ring_size s)" "0 < ring_size s" by simp_all
  have "int (ring_size s) < int LSN_LIMIT" unfolding int_LSN_LIMIT by (simp add: R)
  then show "ring_size s < LSN_LIMIT" by (simp only: of_nat_less_iff)
qed

lemma ln_less_uint: "ln l < LSN_LIMIT \<Longrightarrow> uint (lsn_val l) < 2 ^ 62"
  unfolding int_ln[symmetric] int_LSN_LIMIT[symmetric] by simp

lemma sint_below:
  assumes "uint w < 2 ^ 62" shows "sint (w :: u64) = uint w"
proof -
  have "- (2 ^ 63) \<le> uint w" using uint_bounded(2)[of w] by (rule order_trans[rotated]) simp
  moreover have "uint w < 2 ^ 63" using assms by (rule less_trans) simp
  ultimately show ?thesis using signed_take_bit_int_eq_self[of 63 "uint w"] by (simp add: sint_uint)
qed

lemma ln_valid: "ln l < LSN_LIMIT \<Longrightarrow> lsn_is_valid l"
proof -
  assume "ln l < LSN_LIMIT"
  then have "uint (lsn_val l) < 2 ^ 62" by (rule ln_less_uint)
  moreover have "uint (- 1 :: u64) = 2 ^ 64 - 1" by (simp add: unsigned_minus_1_eq_mask mask_eq_exp_minus_1)
  ultimately have "uint (lsn_val l) \<noteq> uint (- 1 :: u64)" by auto
  then have "lsn_val l \<noteq> - 1" by metis
  then show ?thesis by (auto simp: lsn_is_valid_def LOG_INVALID_LSN_VAL_def)
qed

lemma ln_add:
  assumes "ln l < LSN_LIMIT" "k < LSN_LIMIT"
  shows "ln (lsn_add l (of_int (int k))) = ln l + k"
proof -
  have k: "int k < 2 ^ 62" using assms(2) unfolding int_LSN_LIMIT[symmetric] by simp
  have u: "uint (of_int (int k) :: u64) = int k" using k by (intro uint_of_int_small) simp_all
  have "uint (lsn_val l) + int k < 2 ^ 64" using ln_less_uint[OF assms(1)] k by simp
  then have "uint (lsn_val (lsn_add l (of_int (int k)))) = uint (lsn_val l) + int k"
    unfolding lsn_add_def LSN.sel by (subst uint_add_nowrap) (simp_all only: u len_of_numeral_defs, simp)
  then have "int (ln (lsn_add l (of_int (int k)))) = int (ln l + k)" by (simp only: int_ln of_nat_add)
  then show ?thesis by (simp only: of_nat_eq_iff)
qed

lemma get_buffer_pos_ok:
  assumes "gb_inv s" "ln (gb_start_lsn s) \<le> ln l" "ln l < LSN_LIMIT"
  shows "get_buffer_pos s l = (OB_SUCCESS, int ((ln l - ln (gb_start_lsn s)) mod ring_size s))"
proof -
  have "uint (lsn_val (gb_start_lsn s)) \<le> uint (lsn_val l)" using assms(2) unfolding int_ln[symmetric] by simp
  then have u: "uint (lsn_diff l (gb_start_lsn s)) = uint (lsn_val l) - uint (lsn_val (gb_start_lsn s))"
    by (simp add: lsn_diff_def uint_sub_nowrap)
  then have "uint (lsn_diff l (gb_start_lsn s)) < 2 ^ 62"
    using ln_less_uint[OF assms(3)] uint_bounded(2)[of "lsn_val (gb_start_lsn s)"] by linarith
  then have "sint (lsn_diff l (gb_start_lsn s)) = uint (lsn_diff l (gb_start_lsn s))" by (rule sint_below)
  also have "\<dots> = int (ln l - ln (gb_start_lsn s))" using u assms(2) by (simp add: int_ln[symmetric])
  finally show ?thesis
    using assms ring_size_eq(1)[OF assms(1)]
    by (simp add: get_buffer_pos_def ln_valid ln_order not_less gb_inv_def zmod_int)
qed

subsection \<open>Filling\<close>

lemma gen_readable_ln:
  assumes "gb_inv s" "ln e < LSN_LIMIT"
  shows "ln (gen_readable_begin_lsn_for_filling s e) = ln e - ring_size s"
proof -
  note R = ring_size_eq[OF assms(1)]
  have r: "uint (of_int (reserved_buffer_size s) :: u64) = int (ring_size s)"
  proof -
    have "int (ring_size s) < int LSN_LIMIT" using R(3) by (simp only: of_nat_less_iff)
    then have "int (ring_size s) < 2 ^ LENGTH(64)" unfolding int_LSN_LIMIT by (rule less_trans) simp
    then show ?thesis by (subst R(1), intro uint_of_int_small) simp_all
  qed
  have c: "lsn_val e \<ge> of_int (reserved_buffer_size s) \<longleftrightarrow> ring_size s \<le> ln e"
    unfolding word_le_def r int_ln[symmetric] by (simp only: of_nat_le_iff)
  have sub: "int (ln (lsn_sub e (of_int (reserved_buffer_size s)))) = int (ln e - ring_size s)" if "ring_size s \<le> ln e"
    unfolding lsn_sub_def int_ln LSN.sel
    using that by (subst uint_sub_nowrap) (simp_all only: r int_ln[symmetric] of_nat_le_iff of_nat_diff)
  have z: "ln (LSN 0) = 0" by (simp add: ln_def)
  show ?thesis
  proof (cases "ring_size s \<le> ln e")
    case True
    then show ?thesis using sub c by (simp only: gen_readable_begin_lsn_for_filling_def if_True of_nat_eq_iff)
  next
    case False
    then show ?thesis using z c by (simp add: gen_readable_begin_lsn_for_filling_def)
  qed
qed

lemma inc_readable_fields [simp]:
  "gb_is_inited (gb_inc_update_readable s l) = gb_is_inited s"
  "gb_start_lsn (gb_inc_update_readable s l) = gb_start_lsn s"
  "gb_reuse_lsn (gb_inc_update_readable s l) = gb_reuse_lsn s"
  "reserved_buffer_size (gb_inc_update_readable s l) = reserved_buffer_size s"
  "available_buffer_size (gb_inc_update_readable s l) = available_buffer_size s"
  "data_buf (gb_inc_update_readable s l) = data_buf s"
  by (simp_all add: gb_inc_update_readable_def)

lemma inc_readable_ln [simp]:
  "ln (gb_readable_begin_lsn (gb_inc_update_readable s l)) = max (ln (gb_readable_begin_lsn s)) (ln l)"
  by (auto simp: gb_inc_update_readable_def ln_order(1)[unfolded lsn_lt_def] max_def)

lemma fill_fields:
  assumes "gb_fill s l d = (ret, s')"
  shows "gb_start_lsn s' = gb_start_lsn s" "gb_reuse_lsn s' = gb_reuse_lsn s"
    "reserved_buffer_size s' = reserved_buffer_size s" "available_buffer_size s' = available_buffer_size s"
  using assms by (auto simp: gb_fill_def Let_def split: if_splits prod.splits)

definition fill_contract :: "LogGroupBuffer \<Rightarrow> LSN \<Rightarrow> nat \<Rightarrow> bool" where
  "fill_contract s l n \<longleftrightarrow> ln (gb_reuse_lsn s) \<le> ln l \<and> ln l + n < LSN_LIMIT \<and> n < LSN_LIMIT"

text \<open>What the guards of the two filling operations leave, and what a fill then does to the log.\<close>

lemma fill_bytes:
  assumes rel: "stands_for s g" and c: "ln (gb_reuse_lsn s) \<le> ln l" "ln l + length d < LSN_LIMIT"
    and e: "ln l + length d \<le> ln (gb_reuse_lsn s) + ring_size s"
    and m: "ln l + length d - ring_size s \<le> m" "m < LSN_LIMIT"
    and s': "s' = fill_ring s1 (int ((ln l - ln (gb_start_lsn s)) mod ring_size s)) d"
    and s1: "gb_is_inited s1" "data_buf s1 = data_buf s" "gb_start_lsn s1 = gb_start_lsn s"
      "gb_reuse_lsn s1 = gb_reuse_lsn s" "reserved_buffer_size s1 = reserved_buffer_size s"
      "available_buffer_size s1 = available_buffer_size s"
      "ln (gb_readable_begin_lsn s1) = max (ln (gb_readable_begin_lsn s)) m"
  shows "stands_for s' (log_write g (ln l) d)"
proof -
  have inv: "gb_inv s" using rel by (simp add: stands_for_def)
  note R = ring_size_eq[OF inv]
  let ?R = "ring_size s" let ?st = "ln (gb_start_lsn s)" let ?P = "(ln l - ?st) mod ?R"
  have st: "?st \<le> ln l" using inv c by (simp add: gb_inv_def)
  have P: "?P < ?R" using R(2) by simp
  have len: "length d \<le> ?R" using c e by simp
  have R1: "reserved_buffer_size s1 = int ?R" using s1 R(1) by simp
  have inv': "gb_inv s'" using inv s1 s' m by (simp add: gb_inv_def)
  have pos: "(?P + k) mod ?R = (ln l + k - ?st) mod ?R" for k
    using st by (simp add: mod_add_left_eq)
  have hit: "the (data_buf s') ((ln l + k - ?st) mod ?R) = d ! k" if "k < length d" for k
    using fill_ring_hit[OF R1 P len that] unfolding pos s' .
  have miss: "the (data_buf s') ((x - ?st) mod ?R) = the (data_buf s) ((x - ?st) mod ?R)"
    if "?st \<le> x" "\<And>y. ln l \<le> y \<Longrightarrow> y < ln l + length d \<Longrightarrow> x < y \<and> y < x + ?R \<or> y < x \<and> x < y + ?R" for x
    unfolding s' s1(2)[symmetric]
  proof (rule fill_ring_miss[OF R1 P len])
    fix k assume "k < length d"
    then have "ln l + k < x + ?R \<and> x < ln l + k \<or> ln l + k < x \<and> x < ln l + k + ?R" using that(2)[of "ln l + k"] by auto
    then show "(?P + k) mod ?R \<noteq> (x - ?st) mod ?R"
      using that(1) st ring_pos_neq[of ?st x "ln l + k" ?R] ring_pos_neq[of ?st "ln l + k" x ?R] unfolding pos by force
  qed (use R(2) in simp)
  have "holds_byte s' x b" if x: "log_write g (ln l) d x = Some b" for x b
  proof (cases "ln l \<le> x \<and> x < ln l + length d")
    case True
    then show ?thesis using x hit[of "x - ln l"] st s1 s' e m R by (auto simp: holds_byte_def log_write_def)
  next
    case False
    then have "holds_byte s x b" using x rel by (auto simp: stands_for_def log_write_def split: if_splits)
    then show ?thesis using False miss[of x] s1 s' m c st by (auto simp: holds_byte_def)
  qed
  then show ?thesis using inv' by (simp add: stands_for_def)
qed

lemma fill_shape:
  assumes inv: "gb_inv s" and c: "fill_contract s l (length d)" and f: "gb_fill s l (Some d) = (OB_SUCCESS, s')"
  shows "ln l + length d \<le> ln (gb_reuse_lsn s) + ring_size s
    \<and> s' = fill_ring (gb_inc_update_readable s
        (gen_readable_begin_lsn_for_filling s (lsn_add l (of_int (int (length d))))))
        (int ((ln l - ln (gb_start_lsn s)) mod ring_size s)) d"
proof -
  have c': "ln (gb_reuse_lsn s) \<le> ln l" "ln l < LSN_LIMIT" "length d < LSN_LIMIT" "ln (gb_start_lsn s) \<le> ln l"
    using c inv by (auto simp: fill_contract_def gb_inv_def)
  note pos = get_buffer_pos_ok[OF inv c'(4,2)]
  have e: "ln (lsn_add l (of_int (int (length d)))) = ln l + length d" by (rule ln_add[OF c'(2,3)])
  have a: "available_buffer_size s = int (nat (available_buffer_size s))" "nat (available_buffer_size s) \<le> ring_size s"
    using inv by (auto simp: gb_inv_def)
  have top: "ln (lsn_add (gb_reuse_lsn s) (of_int (available_buffer_size s)))
      = ln (gb_reuse_lsn s) + nat (available_buffer_size s)"
    by (subst a(1), rule ln_add) (use inv a(2) ring_size_eq[OF inv] in \<open>auto simp: gb_inv_def\<close>)
  show ?thesis
    using f pos e top a(2) unfolding gb_fill_def Let_def buffer_len_def
    by (auto simp: ln_order split: if_splits)
qed

lemma fill_success:
  assumes rel: "stands_for s g" and c: "fill_contract s l (length d)"
    and f: "gb_fill s l (Some d) = (OB_SUCCESS, s')"
  shows "stands_for s' (log_write g (ln l) d)"
proof -
  have inv: "gb_inv s" using rel by (simp add: stands_for_def)
  have c': "ln (gb_reuse_lsn s) \<le> ln l" "ln l + length d < LSN_LIMIT" "ln l < LSN_LIMIT" "length d < LSN_LIMIT"
    using c by (auto simp: fill_contract_def)
  let ?e = "lsn_add l (of_int (int (length d)))"
  note s' = fill_shape[OF inv c f]
  have m: "ln (gen_readable_begin_lsn_for_filling s ?e) = ln l + length d - ring_size s"
    using gen_readable_ln[OF inv, of ?e] ln_add[OF c'(3,4)] c'(2) by simp
  show ?thesis
    by (rule fill_bytes[OF rel c'(1,2) conjunct1[OF s'] _ _ conjunct2[OF s'], where m = "ln l + length d - ring_size s"])
      (use m c' inv in \<open>auto simp: gb_inv_def\<close>)
qed

lemma log_write_over:
  "length d \<le> length z \<Longrightarrow> log_write (log_write g a z) a d = log_write g a (overwrite z 0 d)"
  by (rule ext) (auto simp: log_write_def overwrite_def nth_append)

lemma fill_padding_success:
  assumes rel: "stands_for s g" and c: "fill_contract s l n" "length d \<le> n"
    and f: "gb_fill_padding_body s l d (int n) = (OB_SUCCESS, s')"
  shows "stands_for s' (log_write g (ln l) (overwrite (replicate n PADDING_LOG_CONTENT_CHAR) 0 d))"
proof -
  define z where "z = replicate n PADDING_LOG_CONTENT_CHAR"
  have z: "length z = n" by (simp add: z_def)
  have inv: "gb_inv s" using rel by (simp add: stands_for_def)
  have "int n > 0" using f by (auto simp: gb_fill_padding_body_def Let_def split: if_splits)
  then obtain s1 where s1: "gb_fill s l (Some z) = (OB_SUCCESS, s1)"
      "s' = fill_ring s1 (int ((ln l - ln (gb_start_lsn s)) mod ring_size s)) d"
    using f c inv get_buffer_pos_ok[OF inv, of l] z
    by (auto simp: gb_fill_padding_body_def gb_fill_def buffer_len_def Let_def fill_contract_def gb_inv_def z_def
        split: if_splits)
  have rel1: "stands_for s1 (log_write g (ln l) z)" using fill_success[OF rel _ s1(1)] c z by simp
  have same: "gb_start_lsn s1 = gb_start_lsn s" "gb_reuse_lsn s1 = gb_reuse_lsn s"
      "reserved_buffer_size s1 = reserved_buffer_size s"
    using fill_fields[OF s1(1)] by simp_all
  have inv1: "gb_inv s1" using rel1 by (simp add: stands_for_def)
  have top: "ln l + n \<le> ln (gb_readable_begin_lsn s1) + ring_size s \<and> ln l + n \<le> ln (gb_reuse_lsn s) + ring_size s"
  proof -
    obtain k where n: "n = Suc k" using \<open>int n > 0\<close> gr0_conv_Suc by auto
    then have "log_write g (ln l) z (ln l + k) = Some (z ! k)" using z by (simp add: log_write_def)
    then have "holds_byte s1 (ln l + k) (z ! k)" using rel1 by (simp add: stands_for_def)
    then show ?thesis using n same by (auto simp: holds_byte_def)
  qed
  have "stands_for s' (log_write (log_write g (ln l) z) (ln l) d)"
    by (rule fill_bytes[OF rel1, where m = "ln (gb_readable_begin_lsn s1)" and ?s1.0 = s1])
      (use s1(2) same c top inv1 in \<open>auto simp: fill_contract_def gb_inv_def\<close>)
  then show ?thesis using c z by (simp add: log_write_over z_def)
qed

subsection \<open>Histories of calls\<close>

datatype gb_call =
    Fill LSN "byte list"
  | Fill_Padding LSN "byte list" nat
  | Inc_Readable LSN
  | Inc_Reuse LSN
  | Truncate LSN
  | To_Leader
  | To_Follower

fun gb_exec :: "gb_call \<Rightarrow> LogGroupBuffer \<Rightarrow> ob_ret \<times> LogGroupBuffer" where
  "gb_exec (Fill l d) s = gb_fill s l (Some d)"
| "gb_exec (Fill_Padding l d n) s = gb_fill_padding_body s l d (int n)"
| "gb_exec (Inc_Readable l) s = gb_inc_update_readable_begin_lsn s l"
| "gb_exec (Inc_Reuse l) s = gb_inc_update_reuse_lsn s l"
| "gb_exec (Truncate l) s = gb_truncate s l"
| "gb_exec To_Leader s = gb_to_leader s"
| "gb_exec To_Follower s = gb_to_follower s"

fun log_exec :: "gb_call \<Rightarrow> log \<Rightarrow> log" where
  "log_exec (Fill l d) g = log_write g (ln l) d"
| "log_exec (Fill_Padding l d n) g = log_write g (ln l) (overwrite (replicate n PADDING_LOG_CONTENT_CHAR) 0 d)"
| "log_exec (Truncate l) g = log_cut g (ln l)"
| "log_exec _ g = g"

definition lsn_in_range :: "LSN \<Rightarrow> bool" where
  "lsn_in_range l \<longleftrightarrow> ln l < LSN_LIMIT"

lemma lsn_in_range_code [code]: "lsn_in_range l \<longleftrightarrow> uint (lsn_val l) < 2 ^ 62"
  unfolding lsn_in_range_def int_ln[symmetric] int_LSN_LIMIT[symmetric] by simp

lemma fill_contract_code [code]:
  "fill_contract s l n \<longleftrightarrow> uint (lsn_val (gb_reuse_lsn s)) \<le> uint (lsn_val l)
     \<and> uint (lsn_val l) + int n < 2 ^ 62 \<and> int n < 2 ^ 62"
  unfolding fill_contract_def int_ln[symmetric] int_LSN_LIMIT[symmetric] by linarith

text \<open>The callers fill at or behind the reuse point, within the range of sequence numbers that
  signed offsets can express.\<close>

fun gb_contract :: "gb_call \<Rightarrow> LogGroupBuffer \<Rightarrow> bool" where
  "gb_contract (Fill l d) s = fill_contract s l (length d)"
| "gb_contract (Fill_Padding l d n) s = (fill_contract s l n \<and> length d \<le> n)"
| "gb_contract (Inc_Readable l) s = lsn_in_range l"
| "gb_contract (Inc_Reuse l) s = lsn_in_range l"
| "gb_contract (Truncate l) s = lsn_in_range l"
| "gb_contract _ s = True"

fun run_calls :: "('op \<Rightarrow> 'c \<Rightarrow> ob_ret \<times> 'c) \<Rightarrow> ('op \<Rightarrow> 'a \<Rightarrow> 'a) \<Rightarrow> 'op list \<Rightarrow> 'c \<Rightarrow> 'a \<Rightarrow> 'c \<times> 'a" where
  "run_calls conc abst [] c a = (c, a)"
| "run_calls conc abst (op # ops) c a =
     (case conc op c of (ret, c1) \<Rightarrow> run_calls conc abst ops c1 (if ret = OB_SUCCESS then abst op a else a))"

fun keeps_contract :: "('op \<Rightarrow> 'c \<Rightarrow> ob_ret \<times> 'c) \<Rightarrow> ('op \<Rightarrow> 'c \<Rightarrow> bool) \<Rightarrow> 'op list \<Rightarrow> 'c \<Rightarrow> bool" where
  "keeps_contract conc contract [] c = True"
| "keeps_contract conc contract (op # ops) c =
     (contract op c \<and> keeps_contract conc contract ops (snd (conc op c)))"

locale call_refinement =
  fixes conc :: "'op \<Rightarrow> 'c \<Rightarrow> ob_ret \<times> 'c"
    and abst :: "'op \<Rightarrow> 'a \<Rightarrow> 'a"
    and contract :: "'op \<Rightarrow> 'c \<Rightarrow> bool"
    and rel :: "'c \<Rightarrow> 'a \<Rightarrow> bool"
  assumes call_done: "\<lbrakk>rel c a; contract op c; conc op c = (OB_SUCCESS, c')\<rbrakk> \<Longrightarrow> rel c' (abst op a)"
    and call_failed: "\<lbrakk>rel c a; conc op c = (ret, c'); ret \<noteq> OB_SUCCESS\<rbrakk> \<Longrightarrow> rel c' a"
begin

lemma run_refines:
  "\<lbrakk>rel c a; keeps_contract conc contract ops c; run_calls conc abst ops c a = (c', a')\<rbrakk> \<Longrightarrow> rel c' a'"
proof (induction ops arbitrary: c a)
  case (Cons op ops)
  obtain ret c1 where e: "conc op c = (ret, c1)" by fastforce
  have "rel c1 (if ret = OB_SUCCESS then abst op a else a)"
    using Cons.prems e call_done[of c a op c1] call_failed[of c a op ret c1] by auto
  then show ?case using Cons.IH[of c1] Cons.prems e by auto
qed simp

end

lemma update_keeps:
  assumes "stands_for s g" and "ln l < LSN_LIMIT"
  shows "stands_for (gb_inc_update_readable s l) g"
    and "ln (gb_reuse_lsn s) \<le> ln l \<Longrightarrow> stands_for (s\<lparr>gb_reuse_lsn := l\<rparr>) g"
proof -
  have b: "holds_byte (gb_inc_update_readable s l) x b" if "holds_byte s x b" for x b
    using that by (auto simp: holds_byte_def)
  then show "stands_for (gb_inc_update_readable s l) g" using assms by (simp add: stands_for_def gb_inv_def)
  assume r: "ln (gb_reuse_lsn s) \<le> ln l"
  have "holds_byte (s\<lparr>gb_reuse_lsn := l\<rparr>) x b" if "holds_byte s x b" for x b
    using that r by (auto simp: holds_byte_def)
  then show "stands_for (s\<lparr>gb_reuse_lsn := l\<rparr>) g" using assms r by (simp add: stands_for_def gb_inv_def)
qed

lemma truncate_keeps:
  assumes "stands_for s g" and "ln l < LSN_LIMIT" and "gb_truncate s l = (OB_SUCCESS, s')"
  shows "stands_for s' (log_cut g (ln l))"
proof -
  have s': "s' = (gb_inc_update_readable s l)\<lparr>gb_reuse_lsn := l\<rparr>" "ln (gb_start_lsn s) \<le> ln l"
    using assms(3) by (auto simp: gb_truncate_def ln_order split: if_splits)
  then show ?thesis using update_keeps(1)[OF assms(1,2)] assms(2)
    by (auto simp: stands_for_def gb_inv_def holds_byte_def log_cut_def split: if_splits)
qed

lemma role_switch_keeps:
  assumes "stands_for s g"
  shows "stands_for (snd (gb_to_leader s)) g" "stands_for (snd (gb_to_follower s)) g"
  using assms
  by (auto simp: gb_to_leader_def gb_to_follower_def stands_for_def gb_inv_def holds_byte_def
      FOLLOWER_DEFAULT_GROUP_BUFFER_SIZE_def LEADER_DEFAULT_GROUP_BUFFER_SIZE_def)

declare lsn_in_range_def [simp]

interpretation ring: call_refinement gb_exec log_exec gb_contract stands_for
proof (unfold_locales, goal_cases)
  case (1 s g op s')
  show ?case
  proof (cases op)
    case (Fill l d)
    then show ?thesis using 1 fill_success by simp
  next
    case (Fill_Padding l d n)
    then show ?thesis using 1 fill_padding_success by simp
  next
    case (Inc_Readable l)
    then show ?thesis using 1 update_keeps(1)[of s g l]
      by (auto simp: gb_inc_update_readable_begin_lsn_def split: if_splits)
  next
    case (Inc_Reuse l)
    then show ?thesis using 1 update_keeps(2)[of s g l]
      by (auto simp: gb_inc_update_reuse_lsn_def ln_order split: if_splits)
  next
    case (Truncate l)
    then show ?thesis using 1 truncate_keeps by simp
  next
    case To_Leader
    then show ?thesis using 1 role_switch_keeps(1)[of s g] by simp
  next
    case To_Follower
    then show ?thesis using 1 role_switch_keeps(2)[of s g] by simp
  qed
next
  case (2 s g op ret s')
  then have "s' = s"
    by (cases op) (auto simp: gb_fill_def gb_fill_padding_body_def gb_inc_update_readable_begin_lsn_def
        gb_inc_update_reuse_lsn_def gb_truncate_def gb_to_leader_def gb_to_follower_def Let_def
        split: if_splits prod.splits)
  then show ?case using 2 by simp
qed

subsection \<open>Reading\<close>

lemma read_data_log:
  assumes rel: "stands_for s g" and l: "ln l < LSN_LIMIT"
    and r: "gb_read_data s l n = (OB_SUCCESS, out)"
    and w: "\<And>k. k < length out \<Longrightarrow> g (ln l + k) \<noteq> None"
  shows "\<forall>k<length out. g (ln l + k) = Some (out ! k)"
proof -
  have inv: "gb_inv s" using rel by (simp add: stands_for_def)
  note R = ring_size_eq[OF inv]
  let ?R = "ring_size s" let ?st = "ln (gb_start_lsn s)" let ?P = "(ln l - ?st) mod ?R"
  have st: "?st \<le> ln l" and rb: "ln (gb_readable_begin_lsn s) \<le> ln l"
    using r inv by (auto simp: gb_read_data_def get_buffer_pos_def ln_order gb_inv_def split: if_splits)
  note pos = get_buffer_pos_ok[OF inv st l]
  show ?thesis
  proof (cases "out = []")
    case False
    define z where "z = min (sint (lsn_diff (gb_reuse_lsn s) l)) n"
    have out: "out = fst (read_ring s (int ?P) z) @ snd (read_ring s (int ?P) z)"
      using r pos False unfolding gb_read_data_def z_def by (auto simp: Let_def split: if_splits prod.splits)
    have P: "?P < ?R" using R(2) by simp
    then have "reserved_buffer_size s - int ?P > 0" using R(1) by linarith
    then have "z > 0" using False out by (auto simp: read_ring_def Let_def mem_read_def min_def split: if_splits)
    then obtain N where N: "z = int N" "0 < N" by (metis zero_less_imp_eq_int)
    have len: "length out = N" unfolding out N read_ring_nat[OF R(1) P] by (simp add: mem_read_def)
    have at: "holds_byte s (ln l + k) (the (g (ln l + k)))" if "k < N" for k
      using rel w[of k] len that by (auto simp: stands_for_def)
    have "N \<le> ?R" using at[of "N - 1"] N rb by (auto simp: holds_byte_def)
    then have "out = map (\<lambda>k. the (data_buf s) ((?P + k) mod ?R)) [0..<N]"
      unfolding out N by (rule read_ring_at[OF R(1) P])
    moreover have "(?P + k) mod ?R = (ln l + k - ?st) mod ?R" for k using st by (simp add: mod_add_left_eq)
    ultimately have "out ! k = the (g (ln l + k))" if "k < N" for k
      using at[OF that] that rb by (simp add: holds_byte_def)
    then show ?thesis using w len by auto
  qed simp
qed

subsection \<open>Properties\<close>


definition sample_calls :: "gb_call list" where
  "sample_calls = [Fill (LSN 100) [1, 2, 3, 4], Inc_Reuse (LSN 104), Truncate (LSN 102), Fill (LSN 102) [7, 8],
     Inc_Reuse (LSN 104)]"


text \<open>C22: filling never writes outside the allocated memory. For a call that keeps the contract,
  whether it succeeds or not, every byte behind the reserved size is what it was; a refused call
  changes nothing at all.\<close>

theorem fill_in_bounds:
  assumes "gb_inv s" and "fill_contract s l (length d)" and "gb_fill s l (Some d) = (ret, s')"
    and "ring_size s \<le> i"
  shows "the (data_buf s') i = the (data_buf s) i \<and> (ret \<noteq> OB_SUCCESS \<longrightarrow> s' = s)"
proof (cases "ret = OB_SUCCESS")
  case False
  then show ?thesis using assms(3) by (auto simp: gb_fill_def Let_def split: if_splits prod.splits)
next
  case True
  have shape: "ln l + length d \<le> ln (gb_reuse_lsn s) + ring_size s"
      "s' = fill_ring (gb_inc_update_readable s
        (gen_readable_begin_lsn_for_filling s (lsn_add l (of_int (int (length d))))))
        (int ((ln l - ln (gb_start_lsn s)) mod ring_size s)) d" (is "_ = fill_ring ?s1 (int ?P) _")
    using fill_shape[OF assms(1,2) assms(3)[unfolded True]] by simp_all
  have "reserved_buffer_size ?s1 = int (ring_size s)" using ring_size_eq(1)[OF assms(1)] by simp
  moreover have "?P < ring_size s" using ring_size_eq(2)[OF assms(1)] by simp
  moreover have "length d \<le> ring_size s" using shape(1) assms(2) by (simp add: fill_contract_def)
  ultimately have "the (data_buf (fill_ring ?s1 (int ?P) d)) i = the (data_buf ?s1) i"
    using assms(4) by (rule fill_ring_outside)
  then show ?thesis using True shape(2) by (simp only: inc_readable_fields) simp
qed

theorem fill_in_bounds_witness:
  "the (data_buf (snd (gb_fill (snd (gb_init True gb_reset (LSN 100))) (LSN 100) (Some [1, 2])))) (nat 41943040) = 0"
proof -
  let ?s = "snd (gb_init True gb_reset (LSN 100))"
  have c: "fill_contract ?s (LSN 100) (length [1, 2 :: byte])" "lsn_in_range (LSN 100)" by code_simp+
  have s: "gb_inv ?s" "ring_size ?s = nat 41943040" "the (data_buf ?s) i = 0" for i
    using c(2) by (simp_all add: gb_inv_def gb_init_def gb_reset_def lsn_is_valid_def LOG_INVALID_LSN_VAL_def
        FOLLOWER_DEFAULT_GROUP_BUFFER_SIZE_def LEADER_DEFAULT_GROUP_BUFFER_SIZE_def)
  show ?thesis using fill_in_bounds[OF s(1) c(1), of _ _ "nat 41943040"] s(2,3) by (metis order_refl prod.collapse)
qed

end
