(* ===== verification/Group_Pipeline.thy ===== *)
theory Group_Pipeline
  imports Ring_Refinement
begin

text \<open>
  From the ring buffer of the leader to the check of a follower. \<^verbatim>\<open>generate_group_entry_header_\<close> and
  the submission of a group in \<^verbatim>\<open>handle_next_submit_log_\<close> (\<^verbatim>\<open>palf/log_sliding_window.cpp\<close>) are put on
  top of the ring buffer, the group header and the accumulated checksum.
\<close>

subsection \<open>The leader's side\<close>

record LogTaskHeaderInfo =
  hi_begin_lsn :: LSN
  hi_max_scn :: SCN
  hi_data_len :: int
  hi_proposal_id :: u64
  hi_committed_end_lsn :: LSN
  hi_is_padding_log :: bool
  hi_is_raw_write :: bool

definition TMP_HEADER_SER_BUF_LEN :: nat where "TMP_HEADER_SER_BUF_LEN = 256"

text \<open>The result is the code, the header, the checksum state, the data checksum and whether a
  checksum was acquired; \<^const>\<open>None\<close> when an assertion stops the process.\<close>

type_synonym header_result = "ob_ret \<times> LogGroupEntryHeader \<times> LogChecksum \<times> u64 \<times> bool"

definition generate_group_entry_header ::
    "crc64 \<Rightarrow> LogGroupBuffer \<Rightarrow> LogChecksum \<Rightarrow> LSN \<Rightarrow> u64 \<Rightarrow> LogTaskHeaderInfo option \<Rightarrow> LogGroupEntryHeader
       \<Rightarrow> u64 \<Rightarrow> bool \<Rightarrow> header_result option" where
  "generate_group_entry_header crc gb cs global_committed_end_lsn log_id task group_header data_checksum acquired =
     (case task of
        None \<Rightarrow> Some (OB_INVALID_ARGUMENT, group_header, cs, data_checksum, acquired)
      | Some hi \<Rightarrow>
          if OB_INVALID_LOG_ID = sint log_id then Some (OB_INVALID_ARGUMENT, group_header, cs, data_checksum, acquired)
          else
            let log_committed_end_lsn = (if \<not> lsn_is_valid (hi_committed_end_lsn hi) then global_committed_end_lsn
                                         else hi_committed_end_lsn hi);
                group_entry_size = int LOG_GROUP_HEADER_SIZE + hi_data_len hi in
            if lsn_gt log_committed_end_lsn (hi_begin_lsn hi)
            then Some (OB_ERR_UNEXPECTED, group_header, cs, data_checksum, acquired)
            else case get_log_buf gb (hi_begin_lsn hi) group_entry_size [] of (ret, log_write_buf) \<Rightarrow>
              if ret \<noteq> OB_SUCCESS then Some (ret, group_header, cs, data_checksum, acquired)
              else case lgh_generate crc group_header (hi_is_raw_write hi) (hi_is_padding_log hi) log_write_buf
                          (hi_data_len hi) (hi_max_scn hi) log_id log_committed_end_lsn (hi_proposal_id hi) data_checksum
                of None \<Rightarrow> None
                | Some (ret, h1, c1) \<Rightarrow>
                    if ret \<noteq> OB_SUCCESS then Some (ret, h1, cs, c1, acquired)
                    else case acquire_accum_checksum crc cs c1 0 of (ret, cs1, accum) \<Rightarrow>
                      if ret \<noteq> OB_SUCCESS then Some (ret, h1, cs1, c1, acquired)
                      else Some (OB_SUCCESS, lgh_update_header_checksum (lgh_update_accumulated_checksum h1 accum),
                             cs1, c1, True))"

text \<open>The header goes through a temporary buffer into the ring, and the pieces of the whole group
  are handed to the I/O layer and to the followers. The first test computes
  \<^verbatim>\<open>ret = (need && serialize(..))\<close>, so that a failing serialization leaves the truth value 1 as the
  code; it is modelled as \<^const>\<open>OB_ERROR\<close>, a code different from success.\<close>

definition submit_group ::
    "LogGroupBuffer \<Rightarrow> bool \<Rightarrow> LSN \<Rightarrow> LogGroupEntryHeader \<Rightarrow> ob_ret \<times> LogGroupBuffer \<times> byte list list" where
  "submit_group gb need_serialize_header begin_lsn h =
     (let group_entry_size = int LOG_GROUP_HEADER_SIZE + lgh_get_data_len h;
          (ser_ret, tmp_buf, pos) = lgh_serialize h (Some (replicate TMP_HEADER_SER_BUF_LEN 0), 0) in
      if need_serialize_header \<and> ser_ret \<noteq> OB_SUCCESS then (OB_ERROR, gb, [])
      else case (if need_serialize_header then gb_fill gb begin_lsn (map_option (take pos) tmp_buf) else (OB_SUCCESS, gb))
        of (ret, gb1) \<Rightarrow>
          if ret \<noteq> OB_SUCCESS then (ret, gb1, [])
          else case get_log_buf gb1 begin_lsn group_entry_size [] of (ret, wb) \<Rightarrow> (ret, gb1, wb))"

subsection \<open>The pieces handed out are the log\<close>

lemma cut_pieces_short: "\<lbrakk>xs \<noteq> []; length xs \<le> n\<rbrakk> \<Longrightarrow> cut_pieces n xs = [xs]"
  by (subst cut_pieces.simps, cases "n = 0") (auto simp: cut_pieces.simps)

lemma get_log_buf_log:
  assumes rel: "stands_for s g" and l: "ln (gb_start_lsn s) \<le> ln l" "ln l < LSN_LIMIT"
    and rb: "ln (gb_readable_begin_lsn s) \<le> ln l"
    and n: "0 < n" "int n \<le> MAX_LOG_BUFFER_SIZE"
  obtains cur rest where "get_log_buf s l (int n) [] = (OB_SUCCESS, cur # rest)" "length rest \<le> 1"
    "length (cur @ concat rest) = n" "\<And>k b. \<lbrakk>k < n; g (ln l + k) = Some b\<rbrakk> \<Longrightarrow> (cur @ concat rest) ! k = b"
proof -
  have inv: "gb_inv s" using rel by (simp add: stands_for_def)
  note R = ring_size_eq[OF inv]
  let ?R = "ring_size s" let ?st = "ln (gb_start_lsn s)" let ?P = "(ln l - ?st) mod ?R"
  have P: "?P < ?R" using R(2) by simp
  have "int n \<le> reserved_buffer_size s" using n(2) inv
    by (simp add: gb_inv_def MAX_LOG_BUFFER_SIZE_def MAX_LOG_BODY_SIZE_def MAX_LOG_HEADER_SIZE_def
        CLOG_FILE_TAIL_PADDING_TRIGGER_def FOLLOWER_DEFAULT_GROUP_BUFFER_SIZE_def LEADER_DEFAULT_GROUP_BUFFER_SIZE_def)
  then have nR: "n \<le> ?R" using R(1) by simp
  define a b where "a = fst (read_ring s (int ?P) (int n))" and "b = snd (read_ring s (int ?P) (int n))"
  have "(?P + k) mod ?R = (ln l + k - ?st) mod ?R" for k using l(1) by (simp add: mod_add_left_eq)
  moreover have "holds_byte s (ln l + k) v" if "g (ln l + k) = Some v" for k v using rel that by (simp add: stands_for_def)
  ultimately have ab: "(a @ b) ! k = v" if "k < n" "g (ln l + k) = Some v" for k v
    using that rb unfolding a_def b_def read_ring_at[OF R(1) P nR] by (auto simp: holds_byte_def)
  have len: "a \<noteq> []" "length a + length b = n"
    using P n(1) by (auto simp: a_def b_def read_ring_nat[OF R(1) P] mem_read_def)
  have M: "length a \<le> nat MAX_LOG_BUFFER_SIZE" "length b \<le> nat MAX_LOG_BUFFER_SIZE" using n(2) len by simp_all
  have rr: "read_ring s (int ?P) (int n) = (a, b)" by (simp add: a_def b_def)
  have i: "gb_is_inited s" using inv by (simp add: gb_inv_def)
  have "get_log_buf s l (int n) [] = (OB_SUCCESS, a # (if b = [] then [] else [b]))"
    using get_buffer_pos_ok[OF inv l] n(1) l i len(1) M rr
    by (simp add: get_log_buf_def ln_valid ln_order write_buf_push_back_def cut_pieces_short)
  moreover have cr: "concat (if b = [] then [] else [b]) = b" by simp
  ultimately show ?thesis using that[of a "if b = [] then [] else [b]"] ab len(2) unfolding cr by simp
qed

lemma split_at:
  assumes "length xs = m + length ys" and "\<And>k. k < length ys \<Longrightarrow> xs ! (m + k) = ys ! k"
  obtains pre where "xs = pre @ ys" "length pre = m"
proof -
  have "drop m xs = ys" using assms by (intro nth_equalityI) auto
  then have "xs = take m xs @ ys" by (metis append_take_drop_id)
  then show ?thesis using that[of "take m xs"] assms(1) by simp
qed

definition body_in_log :: "log \<Rightarrow> nat \<Rightarrow> byte list \<Rightarrow> bool" where
  "body_in_log g a bs \<longleftrightarrow> (\<forall>k<length bs. g (a + k) = Some (bs ! k))"

definition task_ready :: "LogTaskHeaderInfo \<Rightarrow> u64 \<Rightarrow> byte list \<Rightarrow> bool" where
  "task_ready hi log_id body \<longleftrightarrow> hi_data_len hi = int (length body) \<and> body \<noteq> []
     \<and> 56 + int (length body) \<le> MAX_LOG_BUFFER_SIZE \<and> \<not> hi_is_padding_log hi \<and> scn_is_valid (hi_max_scn hi)
     \<and> is_valid_log_id (sint log_id) \<and> INVALID_PROPOSAL_ID \<noteq> sint (hi_proposal_id hi)
     \<and> lsn_is_valid (hi_committed_end_lsn hi) \<and> ln (hi_committed_end_lsn hi) \<le> ln (hi_begin_lsn hi)"

definition sent_header :: "LogGroupEntryHeader \<Rightarrow> int \<Rightarrow> u64 \<Rightarrow> bool" where
  "sent_header h n accum \<longleftrightarrow> lgh_check_header_integrity h \<and> lgh_get_data_len h = n \<and> \<not> lgh_is_padding_log h
     \<and> lgh_accumulated_checksum h = accum"

lemma leader_header:
  assumes rel: "stands_for s g" and l: "ln (gb_start_lsn s) \<le> ln (hi_begin_lsn hi)" "ln (hi_begin_lsn hi) < LSN_LIMIT"
    and rb: "ln (gb_readable_begin_lsn s) \<le> ln (hi_begin_lsn hi)"
    and t: "task_ready hi log_id (stream es)" and es: "list_all good_entry es"
    and body: "body_in_log g (ln (hi_begin_lsn hi) + 56) (stream es)" and cs: "lc_is_inited cs"
  obtains h where "generate_group_entry_header crc s cs gc log_id (Some hi) lgh_reset c0 acq
      = Some (OB_SUCCESS, h, cs\<lparr>prev_accum_checksum := accum_checksum cs,
          accum_checksum := crc (accum_checksum cs) (memory_bytes (chain_checksum crc es 0))\<rparr>,
          chain_checksum crc es 0, True)"
    "sent_header h (int (length (stream es))) (crc (accum_checksum cs) (memory_bytes (chain_checksum crc es 0)))"
proof -
  let ?n = "length (stream es)"
  have t': "hi_data_len hi = int ?n" "int (56 + ?n) \<le> MAX_LOG_BUFFER_SIZE" "\<not> hi_is_padding_log hi"
    using t by (simp_all add: task_ready_def)
  obtain cur rest where wb: "get_log_buf s (hi_begin_lsn hi) (int (56 + ?n)) [] = (OB_SUCCESS, cur # rest)" "length rest \<le> 1"
      and len: "length (cur @ concat rest) = 56 + ?n"
      and at: "\<And>k b. \<lbrakk>k < 56 + ?n; g (ln (hi_begin_lsn hi) + k) = Some b\<rbrakk> \<Longrightarrow> (cur @ concat rest) ! k = b"
    using get_log_buf_log[OF rel l rb _ t'(2)] by auto
  have "(cur @ concat rest) ! (56 + k) = stream es ! k" if "k < ?n" for k
    using at[of "56 + k" "stream es ! k"] body that by (simp add: body_in_log_def add.assoc)
  then obtain pre where pre: "cur @ concat rest = pre @ stream es" "length pre = 56" by (rule split_at[OF len])
  have c: "calculate_log_checksum crc False (cur # rest) (int ?n) c0 = Some (OB_SUCCESS, chain_checksum crc es 0)"
    using checksum_loop_stream[OF es wb(2) pre(1), of crc leh_construct 0] pre len
    by (simp add: calculate_log_checksum_def LOG_GROUP_HEADER_SIZE_def del: checksum_loop.simps)
  define flag where "flag = (if hi_is_raw_write hi then RAW_WRITE_MASK else 0)"
  define h1 where "h1 = \<lparr>lgh_magic = LOG_GROUP_MAGIC, lgh_version = LOG_GROUP_ENTRY_HEADER_VERSION,
    lgh_group_size = of_int (int ?n), lgh_proposal_id = hi_proposal_id hi,
    lgh_committed_end_lsn = hi_committed_end_lsn hi, lgh_max_scn = hi_max_scn hi, lgh_accumulated_checksum = 0,
    lgh_log_id = log_id, lgh_flag = flag\<rparr>"
  have gen: "lgh_generate crc lgh_reset (hi_is_raw_write hi) False (cur # rest) (int ?n) (hi_max_scn hi) log_id
      (hi_committed_end_lsn hi) (hi_proposal_id hi) c0 = Some (OB_SUCCESS, h1, chain_checksum crc es 0)"
    using t c by (simp add: lgh_generate_def task_ready_def h1_def flag_def lgh_reset_def Let_def)
  let ?a = "crc (accum_checksum cs) (memory_bytes (chain_checksum crc es 0))"
  let ?h = "lgh_update_header_checksum (lgh_update_accumulated_checksum h1 ?a)"
  have "flag AND PADDING_TYPE_MASK = 0" by (simp add: flag_def RAW_WRITE_MASK_def PADDING_TYPE_MASK_def)
  then have "\<not> lgh_is_padding_log ?h"
    unfolding lgh_update_padding by (simp add: lgh_is_padding_log_def lgh_update_accumulated_checksum_def h1_def)
  moreover have "int ?n < 2 ^ 31"
    using t'(2) by (simp add: MAX_LOG_BUFFER_SIZE_def MAX_LOG_BODY_SIZE_def MAX_LOG_HEADER_SIZE_def CLOG_FILE_TAIL_PADDING_TRIGGER_def)
  ultimately have "sent_header ?h (int ?n) ?a"
    using t lgh_update_intact[of "lgh_update_accumulated_checksum h1 ?a"] sint_of_int_small[of "int ?n"]
    by (simp add: sent_header_def lgh_check_header_integrity_def lgh_is_valid_def lgh_update_accumulated_checksum_def
        h1_def task_ready_def lgh_get_data_len_def)
  then show ?thesis
    using that[of ?h] t t' wb(1) gen cs
    by (simp add: generate_group_entry_header_def task_ready_def ln_order LOG_GROUP_HEADER_SIZE_def Let_def
        acquire_accum_checksum_def OB_INVALID_LOG_ID_def is_valid_log_id_def)
qed

lemma fill_not_full:
  assumes inv: "gb_inv s" and c: "fill_contract s l (length d)" "d \<noteq> []"
    and room: "int (ln l + length d) \<le> int (ln (gb_reuse_lsn s)) + available_buffer_size s"
  shows "fst (gb_fill s l (Some d)) = OB_SUCCESS"
proof -
  have c': "ln (gb_reuse_lsn s) \<le> ln l" "ln l < LSN_LIMIT" "length d < LSN_LIMIT" "ln (gb_start_lsn s) \<le> ln l"
    using c inv by (auto simp: fill_contract_def gb_inv_def)
  have e: "ln (lsn_add l (of_int (int (length d)))) = ln l + length d" by (rule ln_add[OF c'(2,3)])
  have a: "available_buffer_size s = int (nat (available_buffer_size s))" "nat (available_buffer_size s) \<le> ring_size s"
    using inv by (auto simp: gb_inv_def)
  have top: "ln (lsn_add (gb_reuse_lsn s) (of_int (available_buffer_size s)))
      = ln (gb_reuse_lsn s) + nat (available_buffer_size s)"
    by (subst a(1), rule ln_add) (use inv a(2) ring_size_eq[OF inv] in \<open>auto simp: gb_inv_def\<close>)
  have "\<not> ln l + length d \<le> ln (gb_reuse_lsn s)" using c(2) c'(1) by (cases d) auto
  then show ?thesis
    using get_buffer_pos_ok[OF inv c'(4,2)] e top room a(1) c(2) c' inv ln_valid[OF c'(2)] unfolding gb_fill_def Let_def buffer_len_def
    by (auto simp: ln_order gb_inv_def)
qed

lemma fill_readable:
  assumes inv: "gb_inv s" and c: "fill_contract s l (length d)" and f: "gb_fill s l (Some d) = (OB_SUCCESS, s')"
  shows "ln (gb_readable_begin_lsn s') = max (ln (gb_readable_begin_lsn s)) (ln l + length d - ring_size s)"
proof -
  let ?e = "lsn_add l (of_int (int (length d)))"
  have c': "ln l < LSN_LIMIT" "length d < LSN_LIMIT" "ln l + length d < LSN_LIMIT" using c by (auto simp: fill_contract_def)
  have e: "ln ?e = ln l + length d" by (rule ln_add[OF c'(1,2)])
  have "gb_readable_begin_lsn s' = gb_readable_begin_lsn (gb_inc_update_readable s (gen_readable_begin_lsn_for_filling s ?e))"
    using f unfolding gb_fill_def Let_def buffer_len_def by (auto split: if_splits prod.splits)
  then show ?thesis using gen_readable_ln[OF inv, of ?e] e c' by simp
qed

lemma submit_pieces:
  assumes rel: "stands_for s g" and c: "fill_contract s l 56" and rb: "ln (gb_readable_begin_lsn s) \<le> ln l"
    and room: "int (ln l + 56) \<le> int (ln (gb_reuse_lsn s)) + available_buffer_size s"
    and h: "sent_header h (int (length body)) accum" and n: "56 + int (length body) \<le> MAX_LOG_BUFFER_SIZE"
    and body: "body_in_log g (ln l + 56) body"
  obtains s' wb where "submit_group s True l h = (OB_SUCCESS, s', wb)" "concat wb = lgh_bytes h @ body"
    "stands_for s' (log_write g (ln l) (lgh_bytes h))"
proof -
  have inv: "gb_inv s" using rel by (simp add: stands_for_def)
  have c': "fill_contract s l (length (lgh_bytes h))" using c by simp
  have "fst (gb_fill s l (Some (lgh_bytes h))) = OB_SUCCESS"
    using room by (intro fill_not_full[OF inv c']) auto
  then obtain s' where f: "gb_fill s l (Some (lgh_bytes h)) = (OB_SUCCESS, s')" by (metis prod.collapse)
  have rel': "stands_for s' (log_write g (ln l) (lgh_bytes h))" by (rule fill_success[OF rel c' f])
  have s': "gb_start_lsn s' = gb_start_lsn s"
    using fill_fields[OF f] by simp
  have "int 56 \<le> reserved_buffer_size s"
    using inv by (simp add: gb_inv_def FOLLOWER_DEFAULT_GROUP_BUFFER_SIZE_def LEADER_DEFAULT_GROUP_BUFFER_SIZE_def)
  then have rb': "ln (gb_readable_begin_lsn s') \<le> ln l"
    using fill_readable[OF inv c' f] rb by simp
  have l: "ln (gb_start_lsn s') \<le> ln l" "ln l < LSN_LIMIT" using c inv s' by (auto simp: fill_contract_def gb_inv_def)
  have n': "int (56 + length body) \<le> MAX_LOG_BUFFER_SIZE" using n by simp
  obtain cur rest where wb: "get_log_buf s' l (int (56 + length body)) [] = (OB_SUCCESS, cur # rest)"
      and len: "length (cur @ concat rest) = 56 + length body"
      and at: "\<And>k b. \<lbrakk>k < 56 + length body; log_write g (ln l) (lgh_bytes h) (ln l + k) = Some b\<rbrakk> \<Longrightarrow> (cur @ concat rest) ! k = b"
    by (rule get_log_buf_log[OF rel' l rb' _ n']) simp_all
  have "log_write g (ln l) (lgh_bytes h) (ln l + k) = Some ((lgh_bytes h @ body) ! k)" if "k < 56 + length body" for k
    using body that by (auto simp: log_write_def body_in_log_def nth_append dest!: spec[of _ "k - 56"])
  then have "cur @ concat rest = lgh_bytes h @ body" using at len by (intro nth_equalityI) auto
  moreover have "submit_group s True l h = (OB_SUCCESS, s', cur # rest)"
    using wb f h by (simp add: submit_group_def lgh_serialize_fits TMP_HEADER_SER_BUF_LEN_def overwrite_def
        LOG_GROUP_HEADER_SIZE_def sent_header_def)
  ultimately show ?thesis using that rel' by simp
qed

lemma follower_accepts:
  assumes h: "sent_header h (int (length (stream es))) accum" and es: "list_all plain_entry es" "list_all (data_intact crc) es"
  shows "\<exists>ge. lge_deserialize ge0 (Some (lgh_bytes h @ stream es)) 0 = (OB_SUCCESS, ge, 56 + int (length (stream es)))
    \<and> lge_header ge = h \<and> lge_check_integrity crc ge c = (True, chain_checksum crc es 0)"
proof -
  have h': "lgh_check_header_integrity h" "lgh_get_data_len h = int (length (stream es))" "\<not> lgh_is_padding_log h"
    using h by (simp_all add: sent_header_def)
  let ?xs = "lgh_bytes h @ stream es"
  have "lgh_of_bytes (lgh_bytes h) = h" using h'(1) lgh.of_to by simp
  then have d: "lgh_deserialize (lge_header ge0) (Some ?xs) 0 = (OB_SUCCESS, h, 56)"
    using h'(1) by (simp add: lgh_deserialize_fits)
  have ne: "?xs \<noteq> []" by simp
  let ?ge = "ge0\<lparr>lge_header := h, lge_buf := Some (stream es)\<rparr>"
  have "lge_deserialize ge0 (Some ?xs) 0 = (OB_SUCCESS, ?ge, 56 + int (length (stream es)))"
    using d h' ne by (simp add: lge_deserialize_def empty_buffer_def buffer_len_def Let_def)
  moreover have "check_entries crc e0 (stream es) 0 0 = (True, chain_checksum crc es 0)" for e0
    by (rule check_whole_stream[OF es])
  then have "lge_check_integrity crc ?ge c = (True, chain_checksum crc es 0)"
    using h' by (simp add: lge_check_integrity_def lgh_check_integrity_def check_log_checksum_def
        lgh_check_header_integrity_def lgh_is_valid_def)
  ultimately show ?thesis by (intro exI[of _ ?ge]) simp
qed

subsection \<open>An instance\<close>

text \<open>A ring whose reuse point is 40 bytes before the end of the memory, so that the group below it
  wraps inside its header.\<close>

definition sample_ring :: LogGroupBuffer where
  "sample_ring = \<lparr>gb_is_inited = True, gb_start_lsn = LSN 0, gb_reuse_lsn = LSN 41943000,
     gb_readable_begin_lsn = LSN 41943000, reserved_buffer_size = FOLLOWER_DEFAULT_GROUP_BUFFER_SIZE,
     available_buffer_size = LEADER_DEFAULT_GROUP_BUFFER_SIZE, data_buf = Some (\<lambda>_. 9)\<rparr>"

definition sample_filled :: LogGroupBuffer where
  "sample_filled = snd (gb_fill sample_ring (LSN 41943056) (Some (stream sample_entries)))"

definition sample_log :: log where
  "sample_log = log_write (\<lambda>_. None) 41943056 (stream sample_entries)"

definition sample_task :: LogTaskHeaderInfo where
  "sample_task = \<lparr>hi_begin_lsn = LSN 41943000, hi_max_scn = SCN 7, hi_data_len = 69, hi_proposal_id = 1,
     hi_committed_end_lsn = LSN 41943000, hi_is_padding_log = False, hi_is_raw_write = False\<rparr>"

definition sample_chain :: LogChecksum where
  "sample_chain = snd (lc_init lc_construct 1 5)"

lemma ln_numeral [simp]: "ln (LSN 41943000) = 41943000" "ln (LSN 41943056) = 41943056" "ln (LSN 0) = 0"
  by (simp_all add: ln_def)

lemma sample_limit [simp]: "41943000 < LSN_LIMIT" "41943056 < LSN_LIMIT" "41943125 < LSN_LIMIT" "56 < LSN_LIMIT" "69 < LSN_LIMIT"
  by (simp_all add: LSN_LIMIT_def)

lemma sample_stands:
  "stands_for sample_filled sample_log" "gb_reuse_lsn sample_filled = LSN 41943000"
  "ln (gb_readable_begin_lsn sample_filled) = 41943000" "available_buffer_size sample_filled = LEADER_DEFAULT_GROUP_BUFFER_SIZE"
proof -
  have s: "stands_for sample_ring (\<lambda>_. None)"
    by (simp add: stands_for_def gb_inv_def sample_ring_def FOLLOWER_DEFAULT_GROUP_BUFFER_SIZE_def
        LEADER_DEFAULT_GROUP_BUFFER_SIZE_def)
  have inv: "gb_inv sample_ring" using s by (simp add: stands_for_def)
  have c: "fill_contract sample_ring (LSN 41943056) (length (stream sample_entries))"
    by (simp add: fill_contract_def sample_ring_def)
  have "fst (gb_fill sample_ring (LSN 41943056) (Some (stream sample_entries))) = OB_SUCCESS"
    by (rule fill_not_full[OF inv c]) (simp_all add: sample_ring_def LEADER_DEFAULT_GROUP_BUFFER_SIZE_def sample_entries_def)
  then have f: "gb_fill sample_ring (LSN 41943056) (Some (stream sample_entries)) = (OB_SUCCESS, sample_filled)"
    unfolding sample_filled_def by (metis prod.collapse)
  show "stands_for sample_filled sample_log" using fill_success[OF s c f] by (simp add: sample_log_def)
  show "gb_reuse_lsn sample_filled = LSN 41943000" "available_buffer_size sample_filled = LEADER_DEFAULT_GROUP_BUFFER_SIZE"
    using fill_fields[OF f] by (simp_all add: sample_ring_def)
  show "ln (gb_readable_begin_lsn sample_filled) = 41943000"
    using fill_readable[OF inv c f]
    by (simp add: sample_ring_def FOLLOWER_DEFAULT_GROUP_BUFFER_SIZE_def LEADER_DEFAULT_GROUP_BUFFER_SIZE_def)
qed

subsection \<open>Properties\<close>



end
