(* ===== verification/Crc64.thy ===== *)
theory Crc64
  imports Crc_Tables Log_Entry_Header
begin

text \<open>
  The data checksum (\<^verbatim>\<open>lib/checksum/ob_crc64.{h,cpp}\<close>): the table driven routine, the one that takes
  eight bytes per step, the one built on the processor's instructions, the call of the ISA-L
  library, the choice among them on the first call, and the accumulator \<^verbatim>\<open>ObBatchChecksum\<close>. What the
  instructions and the library compute is a parameter, the record \<open>crc_cpu\<close>; \<open>crc32c_cpu\<close> is their
  documented behaviour. The reference is the bitwise register \<open>crc_ref\<close>.
\<close>

subsection \<open>Reference\<close>

definition crc_byte :: "u32 \<Rightarrow> byte \<Rightarrow> u32" where
  "crc_byte c b = crc_bits 8 (c XOR ucast b)"

fun crc_ref :: "u32 \<Rightarrow> byte list \<Rightarrow> u32" where
  "crc_ref c [] = c"
| "crc_ref c (b # bs) = crc_ref (crc_byte c b) bs"

subsection \<open>The routines\<close>

text \<open>A \<^verbatim>\<open>char\<close> is signed: it is extended with its sign before the exclusive or.\<close>

definition crc64_sse42_manually :: "u64 \<Rightarrow> byte list \<Rightarrow> u64" where
  "crc64_sse42_manually crc buf =
     foldl (\<lambda>crc b. ucast (crc32tab ! unat ((crc XOR scast b) AND 0xff)) XOR drop_bit 8 crc) crc buf"

fun fast_loop :: "u64 \<Rightarrow> byte list \<Rightarrow> u64" where
  "fast_loop localCrc (b0 # b1 # b2 # b3 # b4 # b5 # b6 # b7 # rest) =
     (let c0 = scast b0 XOR localCrc;
          localCrc1 = drop_bit 8 localCrc; c1 = scast b1 XOR localCrc1;
          localCrc2 = drop_bit 8 localCrc1; c2 = scast b2 XOR localCrc2;
          localCrc3 = drop_bit 8 localCrc2; c3 = scast b3 XOR localCrc3;
          t = (T8_7 ! unat (c0 AND 0xff) XOR T8_6 ! unat (c1 AND 0xff))
              XOR (T8_5 ! unat (c2 AND 0xff) XOR T8_4 ! unat (c3 AND 0xff));
          d3 = T8_3 ! unat ((scast b4 :: u64) AND 0xff);
          d2 = T8_2 ! unat ((scast b5 :: u64) AND 0xff);
          d1 = T8_1 ! unat ((scast b6 :: u64) AND 0xff);
          d0 = T8_0 ! unat ((scast b7 :: u64) AND 0xff)
      in fast_loop (ucast t XOR ucast ((d3 XOR d2) XOR (d1 XOR d0))) rest)"
| "fast_loop localCrc buf =
     foldl (\<lambda>localCrc b. drop_bit 8 localCrc XOR ucast (T8_0 ! unat ((localCrc XOR scast b) AND 0xff))) localCrc buf"

definition fast_crc64_sse42_manually :: "u64 \<Rightarrow> byte list \<Rightarrow> u64" where
  "fast_crc64_sse42_manually crc buf = fast_loop crc buf AND 0xffffffff"

text \<open>The processor: the two instructions, the library routine, and what \<^verbatim>\<open>cpuid\<close> says.\<close>

record crc_cpu =
  crc32_byte :: "u64 \<Rightarrow> byte \<Rightarrow> u64"
  crc32_quadword :: "u64 \<Rightarrow> u64 \<Rightarrow> u64"
  crc32_iscsi :: "byte list \<Rightarrow> int \<Rightarrow> u32 \<Rightarrow> u32"
  is_x86_64 :: bool
  genuine_intel :: bool
  cpuid_c :: u32

definition load_quadword :: "byte list \<Rightarrow> u64" where
  "load_quadword bs = value_i64 (rev bs)"

fun align_loop :: "crc_cpu \<Rightarrow> u64 \<Rightarrow> u64 \<Rightarrow> byte list \<Rightarrow> u64 \<times> byte list" where
  "align_loop cpu addr crc [] = (crc, [])"
| "align_loop cpu addr crc (b # bs) =
     (if addr AND 7 \<noteq> 0 then align_loop cpu (addr + 1) (crc32_byte cpu crc b) bs else (crc, b # bs))"

definition quad_step :: "crc_cpu \<Rightarrow> u64 \<times> byte list \<Rightarrow> u64 \<times> byte list" where
  "quad_step cpu s = (case s of (crc, bs) \<Rightarrow> (crc32_quadword cpu crc (load_quadword (take 8 bs)), drop 8 bs))"

function loop_32 :: "crc_cpu \<Rightarrow> u64 \<times> byte list \<Rightarrow> u64 \<times> byte list" where
  "loop_32 cpu s =
     (if length (snd s) \<ge> 32 then loop_32 cpu (quad_step cpu (quad_step cpu (quad_step cpu (quad_step cpu s)))) else s)"
  by pat_completeness auto
termination by (relation "measure (\<lambda>(cpu, s). length (snd s))") (auto simp: quad_step_def split: prod.split)

function loop_8 :: "crc_cpu \<Rightarrow> u64 \<times> byte list \<Rightarrow> u64 \<times> byte list" where
  "loop_8 cpu s = (if length (snd s) \<ge> 8 then loop_8 cpu (quad_step cpu s) else s)"
  by pat_completeness auto
termination by (relation "measure (\<lambda>(cpu, s). length (snd s))") (auto simp: quad_step_def split: prod.split)

declare loop_32.simps [simp del] loop_8.simps [simp del]

definition crc64_sse42 :: "crc_cpu \<Rightarrow> u64 \<Rightarrow> u64 \<Rightarrow> buffer \<Rightarrow> u64" where
  "crc64_sse42 cpu addr uCRC64 buf =
     (case buf of
        None \<Rightarrow> uCRC64
      | Some bs \<Rightarrow>
          if bs = [] then uCRC64
          else case loop_8 cpu (loop_32 cpu (align_loop cpu addr uCRC64 bs)) of (crc, tail) \<Rightarrow>
            foldl (crc32_byte cpu) crc tail)"

text \<open>The library takes its length as an \<^verbatim>\<open>int\<close> and its register as an \<^verbatim>\<open>unsigned int\<close>.\<close>

definition ob_crc64_isal :: "crc_cpu \<Rightarrow> u64 \<Rightarrow> buffer \<Rightarrow> u64" where
  "ob_crc64_isal cpu uCRC64 buf =
     (case buf of
        None \<Rightarrow> uCRC64
      | Some bs \<Rightarrow> if bs = [] then uCRC64 else ucast (crc32_iscsi cpu bs (sint (of_nat (length bs) :: u32)) (ucast uCRC64)))"

text \<open>The function pointer \<^verbatim>\<open>ob_crc64_sse42_func\<close>, which the first call sets.\<close>

datatype crc_func = Dispatch | Isal | Sse42 | Fast

definition choose_func :: "crc_cpu \<Rightarrow> crc_func" where
  "choose_func cpu =
     (if is_x86_64 cpu then
        if genuine_intel cpu then Isal
        else if cpuid_c cpu AND push_bit 20 1 \<noteq> 0 then Sse42 else Fast
      else Sse42)"

fun call_func :: "crc_cpu \<Rightarrow> crc_func \<Rightarrow> u64 \<Rightarrow> u64 \<Rightarrow> buffer \<Rightarrow> u64" where
  "call_func cpu Isal addr crc buf = ob_crc64_isal cpu crc buf"
| "call_func cpu Sse42 addr crc buf = crc64_sse42 cpu addr crc buf"
| "call_func cpu Fast addr crc buf = fast_crc64_sse42_manually crc (case buf of None \<Rightarrow> [] | Some bs \<Rightarrow> bs)"
| "call_func cpu Dispatch addr crc buf =
     (case choose_func cpu of
        Isal \<Rightarrow> ob_crc64_isal cpu crc buf
      | Sse42 \<Rightarrow> crc64_sse42 cpu addr crc buf
      | _ \<Rightarrow> fast_crc64_sse42_manually crc (case buf of None \<Rightarrow> [] | Some bs \<Rightarrow> bs))"

definition ob_crc64 :: "crc_cpu \<Rightarrow> crc_func \<Rightarrow> u64 \<Rightarrow> u64 \<Rightarrow> buffer \<Rightarrow> u64 \<times> crc_func" where
  "ob_crc64 cpu func addr uCRC64 buf =
     (call_func cpu func addr uCRC64 buf, if func = Dispatch then choose_func cpu else func)"

subsection \<open>The accumulator\<close>

record ObBatchChecksum =
  bc_buffer :: "byte list"
  bc_pos :: int
  bc_base :: u64

definition BATCH_BUFFER_SIZE :: int where "BATCH_BUFFER_SIZE = 64"

definition bc_reset :: "ObBatchChecksum \<Rightarrow> ObBatchChecksum" where
  "bc_reset s = s\<lparr>bc_pos := 0, bc_base := 0\<rparr>"

definition bc_set_base :: "ObBatchChecksum \<Rightarrow> u64 \<Rightarrow> ObBatchChecksum" where
  "bc_set_base s b = s\<lparr>bc_base := b\<rparr>"

text \<open>Copying at a position outside the buffer is undefined: the result is then \<^const>\<open>None\<close>. The
  position is inside after \<^verbatim>\<open>reset\<close> and each \<^verbatim>\<open>fill\<close>.\<close>

function bc_fill_loop :: "crc64 \<Rightarrow> ObBatchChecksum \<Rightarrow> byte list \<Rightarrow> ObBatchChecksum option" where
  "bc_fill_loop crc s rest =
     (if rest = [] then Some s
      else if bc_pos s < 0 \<or> bc_pos s > BATCH_BUFFER_SIZE then None
      else
        let size2copy = nat (min (BATCH_BUFFER_SIZE - bc_pos s) (int (length rest)));
            buf = overwrite (bc_buffer s) (nat (bc_pos s)) (take size2copy rest);
            pos = bc_pos s + int size2copy;
            s1 = if pos \<ge> BATCH_BUFFER_SIZE
                 then s\<lparr>bc_buffer := buf, bc_base := crc (bc_base s) buf, bc_pos := 0\<rparr>
                 else s\<lparr>bc_buffer := buf, bc_pos := pos\<rparr>
        in bc_fill_loop crc s1 (drop size2copy rest))"
  by pat_completeness auto
termination
  by (relation "measure (\<lambda>(crc, s, rest). 2 * length rest + (if bc_pos s = BATCH_BUFFER_SIZE then 1 else 0))")
    (auto simp: BATCH_BUFFER_SIZE_def min_def Let_def)

declare bc_fill_loop.simps [simp del]

definition bc_fill :: "crc64 \<Rightarrow> ObBatchChecksum \<Rightarrow> buffer \<Rightarrow> ObBatchChecksum option" where
  "bc_fill crc s pv = (case pv of None \<Rightarrow> Some s | Some bs \<Rightarrow> bc_fill_loop crc s bs)"

definition bc_calc :: "crc64 \<Rightarrow> ObBatchChecksum \<Rightarrow> u64 \<times> ObBatchChecksum" where
  "bc_calc crc s =
     (let s1 = if 0 < bc_pos s
               then s\<lparr>bc_base := crc (bc_base s) (take (nat (bc_pos s)) (bc_buffer s)), bc_pos := 0\<rparr> else s
      in (bc_base s1, s1))"

subsection \<open>Each routine is the register\<close>

lemma bit_byte_less: "bit (b :: byte) n \<Longrightarrow> n < 8" and bit_u32_less: "bit (c :: u32) n \<Longrightarrow> n < 32"
  by (auto dest: bit_imp_le_length)

lemma crc_bits_low_zero: "take_bit m x = 0 \<Longrightarrow> crc_bits m x = drop_bit m x"
proof (induction m arbitrary: x)
  case (Suc m)
  have b: "\<not> bit x i" if "i \<le> m" for i
    using Suc.prems that bit_take_bit_iff[of "Suc m" x i] by simp
  have "crc_bit x = drop_bit 1 x" using b[of 0] by (simp add: crc_bit_def and_1_bit)
  moreover have "take_bit m (drop_bit 1 x) = 0"
    by (rule bit_word_eqI) (use b in \<open>auto simp: bit_simps Suc_le_eq\<close>)
  ultimately show ?case using Suc.IH by (simp add: drop_bit_drop_bit)
qed simp

lemma table_at: "crc_table m ! unat ((w :: u64) AND 0xff) = crc_bits m (ucast (ucast w :: byte))"
proof -
  have "w AND 0xff = take_bit 8 w" by (simp add: take_bit_eq_mask mask_eq_exp_minus_1)
  then have e: "w AND 0xff = ucast (ucast w :: byte)" by (simp add: unsigned_ucast_eq)
  have u: "unat (w AND 0xff) = unat (ucast w :: byte)" unfolding e by (simp add: unsigned_ucast_eq unsigned_take_bit_eq)
  have "unat (ucast w :: byte) < 256" using unsigned_less[of "ucast w :: byte"] by simp
  then show ?thesis unfolding u by (simp add: crc_table_nth)
qed

lemma crc_byte_table: "crc_byte c b = crc_bits 8 (ucast (ucast c XOR b :: byte)) XOR drop_bit 8 c"
proof -
  have "c XOR ucast b = ucast (ucast c XOR b :: byte) XOR push_bit 8 (drop_bit 8 c)"
    by (rule bit_word_eqI) (auto simp: bit_simps)
  moreover have "crc_bits 8 (push_bit 8 (drop_bit 8 c)) = drop_bit 8 c"
    by (subst crc_bits_low_zero, auto intro!: bit_word_eqI simp: bit_simps) (auto dest!: bit_u32_less)
  ultimately show ?thesis by (simp add: crc_byte_def crc_bits_xor)
qed

lemma low_byte_xor: "(ucast (ucast (c :: u32) XOR scast b :: u64) :: byte) = ucast c XOR b"
    "(ucast (scast b XOR w :: u64) :: byte) = b XOR ucast w" "(ucast (scast b :: u64) :: byte) = b"
  by (auto intro!: bit_word_eqI simp: bit_simps)

lemma drop_ucast: "drop_bit n (ucast (c :: u32) :: u64) = ucast (drop_bit n c)"
  by (rule bit_word_eqI, auto simp: bit_simps) (auto dest!: bit_u32_less)

lemma xor_ucast: "(ucast (a :: u32) :: u64) XOR ucast b = ucast (a XOR b)"
  by (rule bit_word_eqI) (auto simp: bit_simps)

lemma crc_ref_append [simp]: "crc_ref c (xs @ ys) = crc_ref (crc_ref c xs) ys"
  by (induction xs arbitrary: c) simp_all

lemma table_step:
  "ucast (crc_table 8 ! unat ((ucast c XOR scast b :: u64) AND 0xff)) XOR drop_bit 8 (ucast c :: u64) = ucast (crc_byte c b)"
  by (simp only: table_at low_byte_xor drop_ucast xor_ucast crc_byte_table)

lemma manually_ref: "crc64_sse42_manually (ucast c) bs = ucast (crc_ref c bs)"
  unfolding crc64_sse42_manually_def crc_tables
  by (induction bs arbitrary: c) (simp_all only: foldl.simps table_step crc_ref.simps)

text \<open>Eight bytes at once: the register is linear, so every byte contributes on its own.\<close>

lemma crc_bits_push:
  assumes "k \<le> 24" shows "crc_bits (k + n) (push_bit k (ucast (b :: byte))) = crc_bits n (ucast b)"
proof -
  have "crc_bits k (push_bit k (ucast b)) = ucast b"
    using assms by (subst crc_bits_low_zero, auto intro!: bit_word_eqI simp: bit_simps) (auto dest!: bit_byte_less)
  then show ?thesis by (simp add: crc_bits_add)
qed

lemma split_u32:
  "(c :: u32) = ucast (ucast c :: byte) XOR push_bit 8 (ucast (ucast (drop_bit 8 c) :: byte))
    XOR push_bit 16 (ucast (ucast (drop_bit 16 c) :: byte)) XOR push_bit 24 (ucast (ucast (drop_bit 24 c) :: byte))"
  by (rule bit_word_eqI) (auto simp: bit_simps)

lemma four_bytes:
  "crc_bits 64 c = crc_bits 64 (ucast (ucast c :: byte)) XOR crc_bits 56 (ucast (ucast (drop_bit 8 c) :: byte))
    XOR crc_bits 48 (ucast (ucast (drop_bit 16 c) :: byte)) XOR crc_bits 40 (ucast (ucast (drop_bit 24 c) :: byte))"
  using crc_bits_push[of 8 56] crc_bits_push[of 16 48] crc_bits_push[of 24 40]
  by (subst split_u32) (simp add: crc_bits_xor)

lemma eight_bytes:
  "crc_ref c [b0, b1, b2, b3, b4, b5, b6, b7] =
    crc_bits 64 c XOR crc_bits 64 (ucast b0) XOR crc_bits 56 (ucast b1) XOR crc_bits 48 (ucast b2)
    XOR crc_bits 40 (ucast b3) XOR crc_bits 32 (ucast b4) XOR crc_bits 24 (ucast b5) XOR crc_bits 16 (ucast b6)
    XOR crc_bits 8 (ucast b7)"
  using crc_bits_add[of 8 8] crc_bits_add[of 16 8] crc_bits_add[of 24 8] crc_bits_add[of 32 8] crc_bits_add[of 40 8]
    crc_bits_add[of 48 8] crc_bits_add[of 56 8]
  by (simp add: crc_byte_def crc_bits_xor ac_simps)

lemma ucast_parts: "(ucast (x XOR y :: byte) :: u32) = ucast x XOR ucast y" "(ucast (ucast (c :: u32) :: u64) :: byte) = ucast c"
  by (auto intro!: bit_word_eqI simp: bit_simps)

lemma fast_loop_ref: "fast_loop (ucast c) bs = ucast (crc_ref c bs)"
proof (induction "length bs" arbitrary: bs c rule: less_induct)
  case less
  show ?case
  proof (cases "8 \<le> length bs")
    case True
    then obtain b0 b1 b2 b3 b4 b5 b6 b7 rest where bs: "bs = [b0, b1, b2, b3, b4, b5, b6, b7] @ rest"
      by (auto simp: eval_nat_numeral Suc_le_length_iff)
    have "fast_loop (ucast c) bs = fast_loop (ucast (crc_ref c [b0, b1, b2, b3, b4, b5, b6, b7])) rest"
      unfolding bs eight_bytes four_bytes[of c]
      by (simp only: append.simps fast_loop.simps crc_tables table_at low_byte_xor Let_def drop_ucast xor_ucast drop_bit_drop_bit
          ucast_parts crc_bits_xor) (simp add: ac_simps)
    then show ?thesis using less[of rest] by (simp add: bs)
  next
    case False
    then have "fast_loop x bs =
        foldl (\<lambda>localCrc b. drop_bit 8 localCrc XOR ucast (T8_0 ! unat ((localCrc XOR scast b) AND 0xff))) x bs" for x
      by (cases "(x, bs)" rule: fast_loop.cases) auto
    moreover have "foldl (\<lambda>localCrc b. drop_bit 8 localCrc XOR ucast (T8_0 ! unat ((localCrc XOR scast b) AND 0xff)))
        (ucast c :: u64) xs = ucast (crc_ref c xs)" for c xs
      unfolding crc_tables
      by (induction xs arbitrary: c) (simp_all only: foldl.simps table_step crc_ref.simps xor.commute[of "drop_bit 8 _"])
    ultimately show ?thesis by simp
  qed
qed

lemma mask_ucast: "(ucast (c :: u32) :: u64) AND 0xffffffff = ucast c"
proof -
  have "(ucast c :: u64) AND 0xffffffff = take_bit 32 (ucast c)" by (simp add: take_bit_eq_mask mask_eq_exp_minus_1)
  also have "\<dots> = ucast c" by (rule bit_word_eqI, auto simp: bit_simps) (auto dest!: bit_u32_less)
  finally show ?thesis .
qed

lemma fast_ref: "fast_crc64_sse42_manually (ucast c) bs = ucast (crc_ref c bs)"
  by (simp add: fast_crc64_sse42_manually_def fast_loop_ref mask_ucast)

text \<open>The documented behaviour of the instructions and of the library: they see the low half of the
  register only, and eight bytes in memory are what eight single bytes would be.\<close>

definition crc32c_cpu :: "crc_cpu \<Rightarrow> bool" where
  "crc32c_cpu cpu \<longleftrightarrow>
     (\<forall>c b. crc32_byte cpu c b = ucast (crc_byte (ucast c) b))
     \<and> (\<forall>c w. crc32_quadword cpu c w = ucast (crc_ref (ucast c) (rev (bytes_i64 w))))
     \<and> (\<forall>bs n c. 0 \<le> n \<longrightarrow> n \<le> int (length bs) \<longrightarrow> crc32_iscsi cpu bs n c = crc_ref c (take (nat n) bs))"

text \<open>What a sequence of instructions has computed: the register of the bytes it has used up.\<close>

definition crc_done :: "u64 \<times> byte list \<Rightarrow> u64 \<times> byte list \<Rightarrow> bool" where
  "crc_done s t \<longleftrightarrow> (\<exists>used. snd s = used @ snd t \<and> (ucast (fst t) :: u32) = crc_ref (ucast (fst s)) used
     \<and> (used \<noteq> [] \<longrightarrow> fst t = ucast (ucast (fst t) :: u32)) \<and> (used = [] \<longrightarrow> t = s))"

lemma ucast_down [simp]: "(ucast (ucast (c :: u32) :: u64) :: u32) = c"
  by (rule bit_word_eqI) (auto simp: bit_simps)

lemma crc_done_refl [simp]: "crc_done s s"
  unfolding crc_done_def by (intro exI[of _ "[]"]) simp

lemma crc_done_trans: "crc_done s t \<Longrightarrow> crc_done t u \<Longrightarrow> crc_done s u"
  unfolding crc_done_def
proof (elim exE conjE)
  fix xs ys assume a: "snd s = xs @ snd t" "snd t = ys @ snd u" "ucast (fst t) = crc_ref (ucast (fst s)) xs"
    "ucast (fst u) = crc_ref (ucast (fst t)) ys" "ys \<noteq> [] \<longrightarrow> fst u = ucast (ucast (fst u) :: u32)" "ys = [] \<longrightarrow> u = t"
    "xs \<noteq> [] \<longrightarrow> fst t = ucast (ucast (fst t) :: u32)" "xs = [] \<longrightarrow> t = s"
  then show "\<exists>used. snd s = used @ snd u \<and> (ucast (fst u) :: u32) = crc_ref (ucast (fst s)) used
     \<and> (used \<noteq> [] \<longrightarrow> fst u = ucast (ucast (fst u) :: u32)) \<and> (used = [] \<longrightarrow> u = s)"
    by (intro exI[of _ "xs @ ys"]) auto
qed

lemma quad_step_done:
  assumes "crc32c_cpu cpu" "8 \<le> length (snd s)" shows "crc_done s (quad_step cpu s)"
proof -
  have "rev (bytes_i64 (load_quadword (take 8 (snd s)))) = take 8 (snd s)"
    using assms(2) by (simp add: load_quadword_def bytes_value_i64 min_def)
  then show ?thesis
    using assms unfolding crc_done_def quad_step_def crc32c_cpu_def
    by (intro exI[of _ "take 8 (snd s)"]) (auto split: prod.split)
qed

lemma length_quad_step [simp]: "length (snd (quad_step cpu s)) = length (snd s) - 8"
  by (simp add: quad_step_def split: prod.split)

lemma loop_32_done: "crc32c_cpu cpu \<Longrightarrow> crc_done s (loop_32 cpu s)"
proof (induction cpu s rule: loop_32.induct)
  case (1 cpu s)
  have "crc_done s (quad_step cpu (quad_step cpu (quad_step cpu (quad_step cpu s))))" if "32 \<le> length (snd s)"
    by (rule crc_done_trans[OF crc_done_trans[OF quad_step_done quad_step_done] crc_done_trans[OF quad_step_done quad_step_done]])
      (use 1(2) that in simp_all)
  then show ?case using 1 by (subst loop_32.simps) (auto intro: crc_done_trans)
qed

lemma loop_8_done: "crc32c_cpu cpu \<Longrightarrow> crc_done s (loop_8 cpu s)"
proof (induction cpu s rule: loop_8.induct)
  case (1 cpu s)
  then show ?case by (subst loop_8.simps) (auto intro: crc_done_trans quad_step_done)
qed

lemma byte_done: "crc32c_cpu cpu \<Longrightarrow> crc_done (c, b # bs) (crc32_byte cpu c b, bs)"
  unfolding crc_done_def crc32c_cpu_def by (intro exI[of _ "[b]"]) simp

lemma align_loop_done: "crc32c_cpu cpu \<Longrightarrow> crc_done (c, bs) (align_loop cpu addr c bs)"
  by (induction cpu addr c bs rule: align_loop.induct) (auto intro: crc_done_trans byte_done)

lemma tail_done: "crc32c_cpu cpu \<Longrightarrow> crc_done (c, bs) (foldl (crc32_byte cpu) c bs, [])"
  by (induction bs arbitrary: c) (auto intro: crc_done_trans byte_done)

lemma sse42_ref:
  assumes "crc32c_cpu cpu" shows "crc64_sse42 cpu addr (ucast c) (Some bs) = ucast (crc_ref c bs)"
proof (cases "bs = []")
  case False
  define s where "s = loop_8 cpu (loop_32 cpu (align_loop cpu addr (ucast c) bs))"
  have "crc_done (ucast c, bs) s" unfolding s_def
    by (intro crc_done_trans[OF align_loop_done crc_done_trans[OF loop_32_done loop_8_done]] assms)
  then have "crc_done (ucast c, bs) (foldl (crc32_byte cpu) (fst s) (snd s), [])"
    using tail_done[OF assms, of "fst s" "snd s"] by (auto intro: crc_done_trans)
  then show ?thesis using False by (auto simp: crc64_sse42_def crc_done_def s_def split: prod.split)
qed (simp add: crc64_sse42_def)

lemma isal_ref:
  assumes "crc32c_cpu cpu" "length bs < 2 ^ 31"
  shows "ob_crc64_isal cpu (ucast c) (Some bs) = ucast (crc_ref c bs)"
proof -
  have "int (length bs) < 2 ^ 31" using assms(2) by simp
  then have "sint (of_nat (length bs) :: u32) = int (length bs)"
    using sint_of_int_small[of "int (length bs)"] by simp
  then show ?thesis using assms(1) by (simp add: ob_crc64_isal_def crc32c_cpu_def)
qed

lemma call_func_ref:
  assumes "crc32c_cpu cpu" "length bs < 2 ^ 31"
  shows "call_func cpu func addr (ucast c) (Some bs) = ucast (crc_ref c bs)"
  using assms by (cases func) (simp_all add: isal_ref sse42_ref fast_ref split: crc_func.split)

lemma low_half: "uint (c :: u64) < 2 ^ 32 \<Longrightarrow> ucast (ucast c :: u32) = c"
proof -
  assume "uint c < 2 ^ 32"
  then have "take_bit 32 c = c" by (intro word_uint_eqI) (simp add: unsigned_take_bit_eq take_bit_int_eq_self)
  moreover have "ucast (ucast c :: u32) = take_bit 32 c" by (rule bit_word_eqI) (auto simp: bit_simps)
  ultimately show ?thesis by simp
qed

lemma uint_ucast_half: "uint (ucast (c :: u32) :: u64) < 2 ^ 32"
  using uint_bounded(1)[of c] by (simp add: uint_ucast_up)

subsection \<open>The accumulator over any routine\<close>

definition holds_crc :: "ObBatchChecksum \<Rightarrow> u32 \<Rightarrow> bool" where
  "holds_crc s c \<longleftrightarrow> 0 \<le> bc_pos s \<and> bc_pos s < 64 \<and> length (bc_buffer s) = 64 \<and> uint (bc_base s) < 2 ^ 32
     \<and> crc_ref (ucast (bc_base s)) (take (nat (bc_pos s)) (bc_buffer s)) = c"

fun bc_fill_all :: "crc64 \<Rightarrow> ObBatchChecksum \<Rightarrow> byte list list \<Rightarrow> ObBatchChecksum option" where
  "bc_fill_all crc s [] = Some s"
| "bc_fill_all crc s (p # ps) = Option.bind (bc_fill crc s (Some p)) (\<lambda>s1. bc_fill_all crc s1 ps)"

text \<open>What the accumulator needs of the routine it calls.\<close>

locale block_checksum =
  fixes crc :: crc64
  assumes block: "\<lbrakk>uint c < 2 ^ 32; length bs \<le> 64\<rbrakk> \<Longrightarrow> crc c bs = ucast (crc_ref (ucast c) bs)"
begin

lemma fill_loop_holds:
  "holds_crc s c \<Longrightarrow> \<exists>s'. bc_fill_loop crc s rest = Some s' \<and> holds_crc s' (crc_ref c rest)"
proof (induction "length rest" arbitrary: s c rest rule: less_induct)
  case less
  show ?case
  proof (cases "rest = []")
    case True
    then show ?thesis using less(2) by (simp add: bc_fill_loop.simps)
  next
    case False
    let ?p = "nat (bc_pos s)"
    define n where "n = nat (min (64 - bc_pos s) (int (length rest)))"
    let ?b = "overwrite (bc_buffer s) ?p (take n rest)"
    let ?s = "if bc_pos s + int n \<ge> 64 then s\<lparr>bc_buffer := ?b, bc_base := crc (bc_base s) ?b, bc_pos := 0\<rparr>
              else s\<lparr>bc_buffer := ?b, bc_pos := bc_pos s + int n\<rparr>"
    note h = less(2)[unfolded holds_crc_def]
    have n: "0 < n" "n \<le> length rest" "?p + n \<le> 64" using h False by (auto simp: n_def)
    have b: "length ?b = 64" "take (?p + n) ?b = take ?p (bc_buffer s) @ take n rest"
      using h n by (simp_all add: overwrite_def)
    have c: "crc_ref (ucast (bc_base s)) (take (?p + n) ?b) = crc_ref c (take n rest)" unfolding b(2) using h by simp
    have "holds_crc ?s (crc_ref c (take n rest))"
    proof (cases "bc_pos s + int n \<ge> 64")
      case True
      then have "?p + n = 64" using n h by linarith
      then have "crc (bc_base s) ?b = ucast (crc_ref c (take n rest))" using block[of "bc_base s" ?b] h b(1) c by simp
      then show ?thesis using True h b(1) uint_ucast_half by (simp add: holds_crc_def)
    next
      case False
      moreover have "nat (bc_pos s + int n) = ?p + n" using h by (simp add: nat_add_distrib)
      ultimately show ?thesis using h b(1) c by (simp add: holds_crc_def)
    qed
    moreover have "bc_fill_loop crc s rest = bc_fill_loop crc ?s (drop n rest)"
      using False h by (subst bc_fill_loop.simps) (simp add: BATCH_BUFFER_SIZE_def Let_def n_def)
    moreover have "crc_ref (crc_ref c (take n rest)) (drop n rest) = crc_ref c rest"
      by (metis append_take_drop_id crc_ref_append)
    ultimately show ?thesis using less(1)[of "drop n rest" ?s "crc_ref c (take n rest)"] n False by (auto simp del: crc_ref_append)
  qed
qed

lemma calc_holds: "holds_crc s c \<Longrightarrow> fst (bc_calc crc s) = ucast c"
  using block[of "bc_base s" "take (nat (bc_pos s)) (bc_buffer s)"] low_half[of "bc_base s"]
  by (auto simp: holds_crc_def bc_calc_def Let_def)

lemma fill_all_holds:
  "holds_crc s c \<Longrightarrow> \<exists>s'. bc_fill_all crc s ps = Some s' \<and> holds_crc s' (crc_ref c (concat ps))"
proof (induction ps arbitrary: s c)
  case (Cons p ps)
  then obtain s1 where "bc_fill crc s (Some p) = Some s1" "holds_crc s1 (crc_ref c p)"
    using fill_loop_holds by (fastforce simp: bc_fill_def)
  then show ?case using Cons.IH by fastforce
qed simp

lemma batch_result:
  assumes "length (bc_buffer s) = 64" "uint base < 2 ^ 32"
  shows "\<exists>s'. bc_fill_all crc (bc_set_base (bc_reset s) base) ps = Some s'
    \<and> fst (bc_calc crc s') = ucast (crc_ref (ucast base) (concat ps))"
proof -
  have "holds_crc (bc_set_base (bc_reset s) base) (ucast base)"
    using assms by (simp add: holds_crc_def bc_set_base_def bc_reset_def)
  then show ?thesis using fill_all_holds[of _ _ ps] calc_holds by blast
qed

end

interpretation fast: block_checksum fast_crc64_sse42_manually
  using fast_ref low_half by unfold_locales (metis)

interpretation manually: block_checksum crc64_sse42_manually
  using manually_ref low_half by unfold_locales (metis)

lemma machine_block: "crc32c_cpu cpu \<Longrightarrow> block_checksum (\<lambda>c bs. fst (ob_crc64 cpu func addr c (Some bs)))"
proof
  fix c :: u64 and bs :: "byte list"
  assume "crc32c_cpu cpu" "uint c < 2 ^ 32" "length bs \<le> 64"
  then show "fst (ob_crc64 cpu func addr c (Some bs)) = ucast (crc_ref (ucast c) bs)"
    using call_func_ref[of cpu bs func addr "ucast c"] by (simp add: ob_crc64_def low_half)
qed

subsection \<open>Damage\<close>

fun low_first :: "byte list \<Rightarrow> u32" where
  "low_first [] = 0"
| "low_first (b # bs) = ucast b XOR push_bit 8 (low_first bs)"

lemma bit_low_first: "bit (low_first bs) n \<Longrightarrow> n < 8 * length bs"
  by (induction bs arbitrary: n) (force simp: bit_simps dest: bit_byte_less)+

lemma low_first_inject:
  "\<lbrakk>length xs = length ys; length ys \<le> 4; low_first xs = low_first ys\<rbrakk> \<Longrightarrow> xs = ys"
proof (induction xs ys rule: list_induct2)
  case (Cons x xs y ys)
  have e: "bit (ucast x XOR push_bit 8 (low_first xs) :: u32) n = bit (ucast y XOR push_bit 8 (low_first ys) :: u32) n" for n
    using Cons.prems by simp
  have "x = y"
  proof (rule bit_word_eqI)
    fix n assume "n < LENGTH(8)"
    then show "bit x n = bit y n" using e[of n] by (simp add: bit_simps)
  qed
  moreover have "low_first xs = low_first ys"
  proof (rule bit_word_eqI)
    fix n assume "n < LENGTH(32)"
    show "bit (low_first xs) n = bit (low_first ys) n"
    proof (cases "n < 24")
      case True
      then show ?thesis using e[of "n + 8"] \<open>x = y\<close> by (auto simp: bit_simps)
    next
      case False
      then show ?thesis using bit_low_first[of xs n] bit_low_first[of ys n] Cons by auto
    qed
  qed
  ultimately show ?case using Cons by simp
qed simp

lemma crc_ref_short: "length bs \<le> 4 \<Longrightarrow> crc_ref c bs = crc_bits (8 * length bs) (c XOR low_first bs)"
proof (induction bs arbitrary: c)
  case (Cons b bs)
  have "crc_bits 8 (push_bit 8 (low_first bs)) = low_first bs"
    using bit_low_first[of bs] Cons.prems
    by (subst crc_bits_low_zero, auto intro!: bit_word_eqI simp: bit_simps) force
  then have "crc_bits 8 (c XOR ucast b) XOR low_first bs = crc_bits 8 (c XOR low_first (b # bs))"
    by (simp add: crc_bits_xor xor.assoc)
  moreover have "crc_ref c (b # bs) = crc_bits (8 * length bs) (crc_bits 8 (c XOR ucast b) XOR low_first bs)"
    using Cons by (simp add: crc_byte_def)
  ultimately show ?case using crc_bits_add[of 8 "8 * length bs"] by simp
qed simp

lemma xor_cancel: "x XOR y = z XOR y \<longleftrightarrow> x = z" "y XOR x = y XOR z \<longleftrightarrow> x = z" for x :: "'a :: len word"
  by (metis xor.assoc xor_self_eq xor.right_neutral, metis xor.assoc xor_self_eq xor.left_neutral)

lemma crc_ref_inject: "crc_ref c bs = crc_ref d bs \<longleftrightarrow> c = d"
  by (induction bs arbitrary: c d) (simp_all add: crc_byte_def crc_bits_inject xor_cancel)

lemma burst_changes_crc:
  assumes "length v = length w" "length w \<le> 4" "v \<noteq> w"
  shows "crc_ref c (xs @ v @ ys) \<noteq> crc_ref c (xs @ w @ ys)"
proof
  assume "crc_ref c (xs @ v @ ys) = crc_ref c (xs @ w @ ys)"
  then have "crc_ref (crc_ref c xs) v = crc_ref (crc_ref c xs) w" by (simp add: crc_ref_inject)
  then have "crc_ref c xs XOR low_first v = crc_ref c xs XOR low_first w" using assms by (simp only: crc_ref_short crc_bits_inject)
  then have "low_first v = low_first w" by (simp only: xor_cancel)
  then show False using low_first_inject assms by blast
qed

subsection \<open>Properties\<close>

definition sample_cpu :: crc_cpu where
  "sample_cpu = \<lparr>crc32_byte = \<lambda>c b. ucast (crc_byte (ucast c) b),
     crc32_quadword = \<lambda>c w. ucast (crc_ref (ucast c) (rev (bytes_i64 w))),
     crc32_iscsi = \<lambda>bs n c. crc_ref c (take (nat n) bs), is_x86_64 = True, genuine_intel = False,
     cpuid_c = push_bit 20 1\<rparr>"

lemma sample_cpu_ok: "crc32c_cpu sample_cpu"
  by (simp add: crc32c_cpu_def sample_cpu_def)

text \<open>A register that no routine returns, and no data: one routine clears the upper half, the other
  keeps it.\<close>

lemma routines_differ_above:
  "fast_crc64_sse42_manually 0x100000000 [] = 0 \<and> crc64_sse42_manually 0x100000000 [] = 0x100000000"
  by (simp add: fast_crc64_sse42_manually_def crc64_sse42_manually_def)

text \<open>C26: all implementations of the checksum agree. On a processor whose instructions compute CRC-32C,
  whatever routine the function pointer holds or the first call chooses, wherever the buffer
  lies in memory, the result is that of the byte by byte routine and that of the bitwise
  register; so replicas on different machines compute the same checksums. The register must be
  one that a routine can return, that is below \<open>2 ^ 32\<close> (\<open>routines_differ_above\<close>).\<close>

theorem checksum_routines_agree:
  assumes "crc32c_cpu cpu" and "uint c < 2 ^ 32" and "length bs < 2 ^ 31"
  shows "fst (ob_crc64 cpu func addr c (Some bs)) = ucast (crc_ref (ucast c) bs)
    \<and> crc64_sse42_manually c bs = ucast (crc_ref (ucast c) bs)
    \<and> fast_crc64_sse42_manually c bs = ucast (crc_ref (ucast c) bs)"
  using call_func_ref[OF assms(1,3), of func addr "ucast c"] manually_ref[of "ucast c" bs] fast_ref[of "ucast c" bs]
  by (simp add: ob_crc64_def low_half[OF assms(2)])

theorem checksum_routines_agree_witness:
  "fst (ob_crc64 sample_cpu Dispatch 3 0xffffffff (Some [49, 50, 51, 52, 53, 54, 55, 56, 57])) = 0x1CF96D7C
   \<and> snd (ob_crc64 sample_cpu Dispatch 3 0xffffffff (Some [49, 50, 51, 52, 53, 54, 55, 56, 57])) = Sse42"
proof -
  let ?bs = "[49, 50, 51, 52, 53, 54, 55, 56, 57] :: byte list"
  have v: "ucast (crc_ref (ucast (0xffffffff :: u64)) ?bs) = (0x1CF96D7C :: u64)"
    by code_simp
  have d: "choose_func sample_cpu = Sse42" by (simp add: choose_func_def sample_cpu_def)
  have l: "uint (0xffffffff :: u64) < 2 ^ 32" "length ?bs < 2 ^ 31" by simp_all
  show ?thesis
    using checksum_routines_agree[OF sample_cpu_ok l, of Dispatch 3, THEN conjunct1] unfolding v by (simp only: ob_crc64_def d snd_conv if_True simp_thms)
qed

text \<open>C28: the accumulator computes the checksum of everything it was given. However the data is cut
  into calls of \<^verbatim>\<open>fill\<close>, empty ones included, every call returns, no copy leaves the buffer, and
  \<^verbatim>\<open>calc\<close> gives the checksum of the whole data from the base on.\<close>

theorem batch_checksum_of_all:
  assumes "crc32c_cpu cpu" and "length (bc_buffer s) = 64" and "uint base < 2 ^ 32"
  shows "\<exists>s'. bc_fill_all (\<lambda>c bs. fst (ob_crc64 cpu func addr c (Some bs))) (bc_set_base (bc_reset s) base) ps = Some s'
    \<and> fst (bc_calc (\<lambda>c bs. fst (ob_crc64 cpu func addr c (Some bs))) s') = ucast (crc_ref (ucast base) (concat ps))"
  by (rule block_checksum.batch_result[OF machine_block[OF assms(1)] assms(2,3)])

theorem batch_checksum_of_all_witness:
  "\<exists>s'. bc_fill_all (\<lambda>c bs. fst (ob_crc64 sample_cpu Fast 0 c (Some bs)))
      (bc_set_base (bc_reset \<lparr>bc_buffer = replicate 64 0, bc_pos = 9, bc_base = 8\<rparr>) 5) [replicate 63 1, [], [2, 3]] = Some s'
    \<and> fst (bc_calc (\<lambda>c bs. fst (ob_crc64 sample_cpu Fast 0 c (Some bs))) s')
      = ucast (crc_ref (ucast (5 :: u64)) (concat [replicate 63 1, [], [2, 3]]))"
  by (rule batch_checksum_of_all[OF sample_cpu_ok]) simp_all

text \<open>C27: damage of up to four adjacent bytes in the data of a log entry is always found. If the entry
  passes \<^verbatim>\<open>check_integrity\<close>, it no longer does so once at most four neighbouring bytes under the
  checksum are replaced by others.\<close>

theorem damaged_data_detected:
  assumes "crc32c_cpu cpu" and "length xs < 2 ^ 31"
    and "leh_check_integrity (\<lambda>c bs. fst (ob_crc64 cpu func addr c (Some bs))) h (Some xs) data_len"
    and "xs = us @ v @ ws" and "length v = length w" and "length w \<le> 4" and "v \<noteq> w"
    and "int (length us + length v) \<le> (if leh_is_padding_log h then int BASE_HEADER_SIZE else data_len)"
  shows "\<not> leh_check_integrity (\<lambda>c bs. fst (ob_crc64 cpu func addr c (Some bs))) h (Some (us @ w @ ws)) data_len"
proof -
  define n where "n = nat (if leh_is_padding_log h then int BASE_HEADER_SIZE else data_len)"
  have n: "length us + length w \<le> n" using assms(5,8) by (simp add: n_def)
  have t: "take n (us @ v @ ws) = us @ v @ take (n - length us - length v) ws"
    "take n (us @ w @ ws) = us @ w @ take (n - length us - length v) ws" using n assms(5) by simp_all
  have "crc_ref 0 (us @ v @ zs) \<noteq> crc_ref 0 (us @ w @ zs)" for zs by (rule burst_changes_crc[OF assms(5-7)])
  then have "call_func cpu func addr 0 (Some (take n (us @ v @ ws))) \<noteq> call_func cpu func addr 0 (Some (take n (us @ w @ ws)))"
    using call_func_ref[OF assms(1), of "take n (us @ v @ ws)" func addr 0]
      call_func_ref[OF assms(1), of "take n (us @ w @ ws)" func addr 0] assms(2,4,5) t
    by (metis (no_types, lifting) length_append length_take min.strict_coboundedI1 ucast_0 ucast_down)
  then show ?thesis using assms(3,4) unfolding leh_check_integrity_def ob_crc64_def n_def by (auto simp: Let_def)
qed

theorem damaged_data_detected_witness:
  "\<not> leh_check_integrity (\<lambda>c bs. fst (ob_crc64 sample_cpu Sse42 0 c (Some bs)))
      (snd (leh_generate_header (\<lambda>c bs. fst (ob_crc64 sample_cpu Sse42 0 c (Some bs))) leh_construct (Some [1, 2, 3, 4, 5]) 5 (SCN 7)))
      (Some [1, 9, 3, 8, 5]) 5"
proof -
  let ?crc = "\<lambda>c bs. fst (ob_crc64 sample_cpu Sse42 0 c (Some bs))"
  let ?h = "snd (leh_generate_header ?crc leh_construct (Some [1, 2, 3, 4, 5]) 5 (SCN 7))"
  have v: "\<not> bit (leh_flag leh_construct) 0" "\<not> leh_is_padding_log leh_construct" "scn_is_valid (SCN 7)"
    by code_simp+
  have "leh_generate_header ?crc leh_construct (Some [1, 2, 3, 4, 5]) (int (length [1, 2, 3, 4, 5 :: byte])) (SCN 7)
      = (fst (leh_generate_header ?crc leh_construct (Some [1, 2, 3, 4, 5]) 5 (SCN 7)), ?h)" by simp
  from generated_entry_whole[OF v(1,2) _ _ v(3) this]
  have w: "whole_entry ?crc \<lparr>le_header = ?h, le_buf = Some [1, 2, 3, 4, 5]\<rparr>" "leh_get_data_len ?h = 5" by simp_all
  then have c: "leh_check_integrity ?crc ?h (Some [1, 2, 3, 4, 5]) 5" by (simp add: whole_entry_def le_check_integrity_def)
  have p: "leh_is_padding_log ?h = leh_is_padding_log leh_construct"
    using v(3) by (simp add: leh_generate_header_def leh_update_padding) (simp add: leh_is_padding_log_def)
  have "\<not> leh_check_integrity ?crc ?h (Some ([1] @ [9, 3, 8] @ [5])) 5"
    by (rule damaged_data_detected[OF sample_cpu_ok _ c, where v = "[2, 3, 4]"]) (simp_all add: p v(2))
  then show ?thesis by (simp only: append.simps not_False_eq_True)
qed

end
