(* ===== verification/Election_Define.thy ===== *)
theory Election_Define
  imports Lsn "HOL-Library.Multiset"
begin

text \<open>
  The vocabulary of the leader election (\<^verbatim>\<open>palf/election\<close>): addresses, configuration versions
  (\<^verbatim>\<open>log_meta_info.cpp\<close>), constants (\<^verbatim>\<open>utils/election_common_define.h\<close>), messages
  (\<^verbatim>\<open>message/election_message.cpp\<close>), leases, member lists and what a proposer books per member
  (\<^verbatim>\<open>utils/election_utils.{h,cpp}\<close>, \<^verbatim>\<open>utils/election_member_list.cpp\<close>). Times are microseconds, \<^typ>\<open>int\<close>.
  Time stamps that only measure delays, and the flags that only steer the wire format, are left
  out of the messages.
\<close>

subsection \<open>Addresses, roles, versions\<close>

text \<open>An address is a number in the order of addresses; \<^const>\<open>None\<close> is the invalid address.\<close>

type_synonym ObAddr = "nat option"

fun addr_less :: "ObAddr \<Rightarrow> ObAddr \<Rightarrow> bool" where
  "addr_less None b \<longleftrightarrow> b \<noteq> None"
| "addr_less (Some x) None \<longleftrightarrow> False"
| "addr_less (Some x) (Some y) \<longleftrightarrow> x < y"

datatype ObRole = INVALID_ROLE | LEADER | FOLLOWER | STANDBY_LEADER | RESTORE_LEADER

datatype RoleChangeReason = DevoteToBeLeader | ChangeLeaderToBeLeader | LeaseExpiredToRevoke
  | ChangeLeaderToRevoke | StopToRevoke

record LogConfigVersion =
  cv_proposal_id :: int
  cv_config_seq :: int

definition cv_reset :: LogConfigVersion where
  "cv_reset = \<lparr>cv_proposal_id = INVALID_PROPOSAL_ID, cv_config_seq = - 1\<rparr>"

definition cv_is_valid :: "LogConfigVersion \<Rightarrow> bool" where
  "cv_is_valid v \<longleftrightarrow> cv_proposal_id v \<noteq> INVALID_PROPOSAL_ID \<and> cv_config_seq v \<ge> 0"

definition cv_is_initial_version :: "LogConfigVersion \<Rightarrow> bool" where
  "cv_is_initial_version v \<longleftrightarrow> cv_config_seq v \<le> 0"

definition cv_generate :: "LogConfigVersion \<Rightarrow> int \<Rightarrow> int \<Rightarrow> ob_ret \<times> LogConfigVersion" where
  "cv_generate v proposal_id config_seq =
     (if proposal_id = INVALID_PROPOSAL_ID \<or> config_seq < 0 then (OB_INVALID_ARGUMENT, v)
      else (OB_SUCCESS, \<lparr>cv_proposal_id = proposal_id, cv_config_seq = config_seq\<rparr>))"

definition cv_inc_update_version :: "LogConfigVersion \<Rightarrow> int \<Rightarrow> ob_ret \<times> LogConfigVersion" where
  "cv_inc_update_version v proposal_id =
     (if INVALID_PROPOSAL_ID = cv_proposal_id v \<or> cv_config_seq v < 0 then (OB_NOT_INIT, v)
      else if INVALID_PROPOSAL_ID = proposal_id \<or> proposal_id < cv_proposal_id v then (OB_INVALID_ARGUMENT, v)
      else (OB_SUCCESS, \<lparr>cv_proposal_id = proposal_id, cv_config_seq = cv_config_seq v + 1\<rparr>))"

definition cv_gt :: "LogConfigVersion \<Rightarrow> LogConfigVersion \<Rightarrow> bool" where
  "cv_gt v w =
     (let cmp_ret = cv_proposal_id v > cv_proposal_id w
            \<or> cv_proposal_id v = cv_proposal_id w \<and> cv_config_seq v > cv_config_seq w in
      if cv_is_valid v \<and> cv_is_valid w then cmp_ret
      else if \<not> cv_is_valid v then False
      else True)"

definition cv_lt :: "LogConfigVersion \<Rightarrow> LogConfigVersion \<Rightarrow> bool" where
  "cv_lt v w =
     (let cmp_ret = cv_proposal_id v < cv_proposal_id w
            \<or> cv_proposal_id v = cv_proposal_id w \<and> cv_config_seq v < cv_config_seq w in
      if cv_is_valid v \<and> cv_is_valid w then cmp_ret
      else if \<not> cv_is_valid w then False
      else True)"

subsection \<open>Constants\<close>

definition INVALID_VALUE :: int where "INVALID_VALUE = - 1"
definition MAX_LEASE_TIME :: int where "MAX_LEASE_TIME = 10000000"
definition CACHE_EXPIRATION_TIME :: int where "CACHE_EXPIRATION_TIME = 5000000"
definition SEED_TEMORARILY_DOWNGRADE_PRIORIY_BIT :: u64 where
  "SEED_TEMORARILY_DOWNGRADE_PRIORIY_BIT = push_bit 22 1"
definition SEED_NOT_NORMOL_REPLICA_BIT :: u64 where "SEED_NOT_NORMOL_REPLICA_BIT = push_bit 48 1"

definition CALCULATE_RENEW_LEASE_INTERVAL :: "int \<Rightarrow> int" where
  "CALCULATE_RENEW_LEASE_INTERVAL max_tst = min (max_tst div 2) 500000"
definition CALCULATE_TIME_WINDOW_SPAN_TS :: "int \<Rightarrow> int" where
  "CALCULATE_TIME_WINDOW_SPAN_TS max_tst = 2 * max_tst"
definition CALCULATE_MAX_ELECT_COST_TIME :: "int \<Rightarrow> int" where
  "CALCULATE_MAX_ELECT_COST_TIME max_tst = 10 * max_tst"
definition CALCULATE_LEASE_INTERVAL :: "int \<Rightarrow> int" where
  "CALCULATE_LEASE_INTERVAL max_tst = 4 * max_tst"
definition CALCULATE_TRIGGER_ELECT_WATER_MARK :: "int \<Rightarrow> int" where
  "CALCULATE_TRIGGER_ELECT_WATER_MARK max_tst = min max_tst 1000000"

subsection \<open>Leases\<close>

record Lease =
  ls_owner :: ObAddr
  lease_end_ts :: int
  ls_ballot_number :: int

definition lease_construct :: Lease where
  "lease_construct = \<lparr>ls_owner = None, lease_end_ts = INVALID_VALUE, ls_ballot_number = INVALID_VALUE\<rparr>"

definition lease_is_expired :: "int \<Rightarrow> Lease \<Rightarrow> bool" where
  "lease_is_expired now l \<longleftrightarrow> now > lease_end_ts l"

definition lease_reset :: "Lease \<Rightarrow> Lease" where
  "lease_reset l = l\<lparr>ls_owner := None, lease_end_ts := - 1\<rparr>"

definition lease_is_empty :: "Lease \<Rightarrow> bool" where
  "lease_is_empty l \<longleftrightarrow> ls_owner l = None \<and> lease_end_ts l = - 1"

subsection \<open>Messages\<close>

record ElectionMsgBase =
  msg_ls_id :: int
  msg_sender :: ObAddr
  msg_receiver :: ObAddr
  msg_restart_counter :: int
  msg_ballot_number :: int
  msg_cluster_version :: u64

record ElectionPrepareRequestMsg = ElectionMsgBase +
  prq_role :: ObRole
  prq_is_buffer_valid :: bool
  prq_inner_priority_seed :: u64
  prq_membership_version :: LogConfigVersion
  prq_priority_buffer :: "byte list"

record ElectionPrepareResponseMsg = ElectionMsgBase +
  prs_accepted :: bool
  prs_lease :: Lease

record ElectionAcceptRequestMsg = ElectionMsgBase +
  arq_lease_start_ts_on_proposer :: int
  arq_lease_interval :: int
  arq_membership_version :: LogConfigVersion

record ElectionAcceptResponseMsg = ElectionMsgBase +
  ars_lease_started_ts_on_proposer :: int
  ars_lease_interval :: int
  ars_accepted :: bool
  ars_is_buffer_valid :: bool
  ars_inner_priority_seed :: u64
  ars_responsed_membership_version :: LogConfigVersion
  ars_membership_version :: LogConfigVersion
  ars_priority_buffer :: "byte list"

record ElectionChangeLeaderMsg = ElectionMsgBase +
  clm_switch_source_leader_ballot :: int
  clm_membership_version :: LogConfigVersion

datatype ElectionMsg =
    PrepareRequest ElectionPrepareRequestMsg
  | PrepareResponse ElectionPrepareResponseMsg
  | AcceptRequest ElectionAcceptRequestMsg
  | AcceptResponse ElectionAcceptResponseMsg
  | ChangeLeader ElectionChangeLeaderMsg

text \<open>The type of a message is its constructor, so that it is always one of the five.\<close>

definition msg_is_valid :: "'a ElectionMsgBase_scheme \<Rightarrow> bool" where
  "msg_is_valid m \<longleftrightarrow> msg_sender m \<noteq> None \<and> msg_receiver m \<noteq> None
     \<and> msg_restart_counter m \<noteq> INVALID_VALUE \<and> msg_ballot_number m \<noteq> INVALID_VALUE"

definition msg_reset :: "'a ElectionMsgBase_scheme \<Rightarrow> 'a ElectionMsgBase_scheme" where
  "msg_reset m = m\<lparr>msg_sender := None, msg_receiver := None, msg_restart_counter := INVALID_VALUE,
     msg_ballot_number := INVALID_VALUE, msg_cluster_version := 0\<rparr>"

text \<open>A response goes to the sender of the request and carries its restart counter.\<close>

definition prepare_response ::
    "ObAddr \<Rightarrow> u64 \<Rightarrow> ElectionPrepareRequestMsg \<Rightarrow> ElectionPrepareResponseMsg" where
  "prepare_response self version req =
     \<lparr>msg_ls_id = msg_ls_id req, msg_sender = self, msg_receiver = msg_sender req,
      msg_restart_counter = msg_restart_counter req, msg_ballot_number = INVALID_VALUE,
      msg_cluster_version = version, prs_accepted = False, prs_lease = lease_construct\<rparr>"

definition prs_set_accepted :: "int \<Rightarrow> Lease \<Rightarrow> ElectionPrepareResponseMsg \<Rightarrow> ElectionPrepareResponseMsg" where
  "prs_set_accepted ballot_number l m = m\<lparr>msg_ballot_number := ballot_number, prs_lease := l, prs_accepted := True\<rparr>"

definition prs_set_rejected :: "int \<Rightarrow> ElectionPrepareResponseMsg \<Rightarrow> ElectionPrepareResponseMsg" where
  "prs_set_rejected ballot_number m = m\<lparr>msg_ballot_number := ballot_number, prs_accepted := False\<rparr>"

definition accept_response ::
    "ObAddr \<Rightarrow> u64 \<Rightarrow> LogConfigVersion \<Rightarrow> u64 \<Rightarrow> ElectionAcceptRequestMsg \<Rightarrow> ElectionAcceptResponseMsg" where
  "accept_response self seed membership_version version req =
     \<lparr>msg_ls_id = msg_ls_id req, msg_sender = self, msg_receiver = msg_sender req,
      msg_restart_counter = msg_restart_counter req, msg_ballot_number = INVALID_VALUE,
      msg_cluster_version = version,
      ars_lease_started_ts_on_proposer = arq_lease_start_ts_on_proposer req,
      ars_lease_interval = arq_lease_interval req, ars_accepted = False, ars_is_buffer_valid = False,
      ars_inner_priority_seed = seed, ars_responsed_membership_version = arq_membership_version req,
      ars_membership_version = membership_version, ars_priority_buffer = []\<rparr>"

text \<open>\<open>priority\<close> is \<^const>\<open>None\<close> for a null pointer, else what serializing the priority returns.\<close>

definition ars_set_accepted ::
    "int \<Rightarrow> (ob_ret \<times> byte list) option \<Rightarrow> ElectionAcceptResponseMsg \<Rightarrow> ob_ret \<times> ElectionAcceptResponseMsg" where
  "ars_set_accepted ballot_number priority m =
     (let m1 = m\<lparr>msg_ballot_number := ballot_number, ars_accepted := True\<rparr> in
      case priority of
        None \<Rightarrow> (OB_SUCCESS, m1)
      | Some (ret, buf) \<Rightarrow>
          if ret \<noteq> OB_SUCCESS then (ret, m1)
          else (OB_SUCCESS, m1\<lparr>ars_is_buffer_valid := True, ars_priority_buffer := buf\<rparr>))"

definition ars_set_rejected :: "int \<Rightarrow> ElectionAcceptResponseMsg \<Rightarrow> ElectionAcceptResponseMsg" where
  "ars_set_rejected ballot_number m = m\<lparr>msg_ballot_number := ballot_number, ars_accepted := False\<rparr>"

definition prq_set ::
    "(ob_ret \<times> byte list) option \<Rightarrow> ObRole \<Rightarrow> ElectionPrepareRequestMsg \<Rightarrow> ob_ret \<times> ElectionPrepareRequestMsg" where
  "prq_set priority role m =
     (let m1 = m\<lparr>prq_role := role\<rparr> in
      case priority of
        None \<Rightarrow> (OB_SUCCESS, m1)
      | Some (ret, buf) \<Rightarrow>
          if ret \<noteq> OB_SUCCESS then (ret, m1)
          else (OB_SUCCESS, m1\<lparr>prq_is_buffer_valid := True, prq_priority_buffer := buf\<rparr>))"

text \<open>The assertion in \<^verbatim>\<open>Lease::update_from\<close> stops the process: the result is then \<^const>\<open>None\<close>.\<close>

definition lease_update_from :: "int \<Rightarrow> Lease \<Rightarrow> ElectionAcceptRequestMsg \<Rightarrow> Lease option" where
  "lease_update_from now l req =
     (if msg_ballot_number req \<ge> ls_ballot_number l
      then Some \<lparr>ls_owner = msg_sender req, lease_end_ts = max (lease_end_ts l) (now + arq_lease_interval req),
             ls_ballot_number = msg_ballot_number req\<rparr>
      else None)"

end
