(* ===== verification/Election_Members.thy ===== *)
theory Election_Members
  imports Election_Define
begin

text \<open>
  Member lists (\<^verbatim>\<open>utils/election_member_list.cpp\<close>) and the books a proposer keeps per member
  (\<^verbatim>\<open>MemberListWithStates\<close> and the helpers of \<^verbatim>\<open>utils/election_utils.{h,cpp}\<close>): who has prepared, until
  when each member has promised not to vote, and which configuration each has confirmed; with
  the majority that these books give.
\<close>

subsection \<open>Helpers\<close>

definition count_if :: "('a \<Rightarrow> bool) \<Rightarrow> 'a list \<Rightarrow> int" where
  "count_if f xs = int (length (filter f xs))"

definition swap_desc :: "nat \<Rightarrow> 'a :: linorder list \<Rightarrow> 'a list" where
  "swap_desc j xs = (if xs ! j < xs ! (j + 1) then xs[j := xs ! (j + 1), j + 1 := xs ! j] else xs)"

definition bubble_sort_desc :: "'a :: linorder list \<Rightarrow> 'a list" where
  "bubble_sort_desc xs =
     (if length xs \<ge> 2
      then fold (\<lambda>i ys. fold swap_desc [0..<length xs - i - 1] ys) [0..<length xs - 1] xs
      else xs)"

definition get_sorted_majority_one_desc :: "'a :: linorder list \<Rightarrow> 'a" where
  "get_sorted_majority_one_desc xs = bubble_sort_desc xs ! (length xs div 2)"

subsection \<open>Member list\<close>

record MemberList =
  addr_list :: "ObAddr list"
  membership_version :: LogConfigVersion
  replica_num :: nat

definition ml_construct :: MemberList where
  "ml_construct = \<lparr>addr_list = [], membership_version = cv_reset, replica_num = 0\<rparr>"

definition ml_is_valid :: "MemberList \<Rightarrow> bool" where
  "ml_is_valid l \<longleftrightarrow> length (addr_list l) \<noteq> 0 \<and> cv_is_valid (membership_version l) \<and> replica_num l > 0"

definition ml_equal :: "MemberList \<Rightarrow> MemberList \<Rightarrow> bool" where
  "ml_equal l r =
     (if \<not> ml_is_valid l \<and> \<not> ml_is_valid r then True
      else if ml_is_valid l \<and> ml_is_valid r then
        membership_version l = membership_version r \<and> replica_num l = replica_num r
        \<and> length (addr_list l) = length (addr_list r) \<and> addr_list l = addr_list r
      else False)"

definition only_membership_version_different :: "MemberList \<Rightarrow> MemberList \<Rightarrow> bool" where
  "only_membership_version_different l r =
     (if ml_equal l r then True
      else if replica_num l \<noteq> replica_num r then False
      else if length (addr_list l) \<noteq> length (addr_list r) then False
      else addr_list l = addr_list r)"

definition ml_set_new_member_list :: "ObAddr list \<Rightarrow> LogConfigVersion \<Rightarrow> nat \<Rightarrow> MemberList" where
  "ml_set_new_member_list addrs version n = \<lparr>addr_list = addrs, membership_version = version, replica_num = n\<rparr>"

subsection \<open>Books\<close>

record MemberListWithStates =
  member_list :: MemberList
  prepare_ok :: "bool list"
  accept_ok :: "int list"
  renewed_version :: "LogConfigVersion list"

definition mls_construct :: MemberListWithStates where
  "mls_construct = \<lparr>member_list = ml_construct, prepare_ok = [], accept_ok = [], renewed_version = []\<rparr>"

definition same_members :: "MemberList \<Rightarrow> MemberList \<Rightarrow> bool" where
  "same_members l r \<longleftrightarrow> replica_num l = replica_num r \<and> length (addr_list l) = length (addr_list r)
     \<and> addr_list l = addr_list r"

text \<open>The books of a member that stays are kept under its new index; the last occurrence of an
  address in the old list wins.\<close>

definition carry_over :: "ObAddr list \<Rightarrow> 'a list \<Rightarrow> ObAddr list \<Rightarrow> 'a list \<Rightarrow> 'a list" where
  "carry_over old old_vals new new_vals =
     fold (\<lambda>i vals. fold (\<lambda>j vals. if old ! i = new ! j then vals[j := old_vals ! i] else vals) [0..<length new] vals)
       [0..<length old] new_vals"

definition mls_set_member_list :: "bool \<Rightarrow> MemberListWithStates \<Rightarrow> MemberList \<Rightarrow> ob_ret \<times> MemberListWithStates" where
  "mls_set_member_list alloc s new =
     (if same_members (member_list s) new
      then (OB_SUCCESS, s\<lparr>member_list := (member_list s)\<lparr>membership_version := membership_version new\<rparr>\<rparr>)
      else if \<not> alloc then (OB_SUCCESS, s)
      else
        let old_addrs = addr_list (member_list s); n = replica_num new in
        (OB_SUCCESS,
         \<lparr>member_list = new,
          prepare_ok = carry_over old_addrs (prepare_ok s) (addr_list new) (replicate n False),
          accept_ok = carry_over old_addrs (accept_ok s) (addr_list new) (replicate n 0),
          renewed_version = carry_over old_addrs (renewed_version s) (addr_list new) (replicate n cv_reset)\<rparr>))"

definition clear_prepare_and_accept_states :: "MemberListWithStates \<Rightarrow> MemberListWithStates" where
  "clear_prepare_and_accept_states s =
     s\<lparr>prepare_ok := replicate (replica_num (member_list s)) False,
       accept_ok := replicate (replica_num (member_list s)) 0\<rparr>"

fun index_from :: "'a \<Rightarrow> nat \<Rightarrow> 'a list \<Rightarrow> nat option" where
  "index_from x i [] = None"
| "index_from x i (y # ys) = (if y = x then Some i else index_from x (i + 1) ys)"

definition get_server_idx_in_memberlist :: "MemberListWithStates \<Rightarrow> ObAddr \<Rightarrow> nat option" where
  "get_server_idx_in_memberlist s a = index_from a 0 (addr_list (member_list s))"

definition majority_count :: "MemberListWithStates \<Rightarrow> int" where
  "majority_count s = int (replica_num (member_list s)) div 2 + 1"

definition record_prepare_ok ::
    "MemberListWithStates \<Rightarrow> ElectionPrepareResponseMsg \<Rightarrow> ob_ret \<times> MemberListWithStates" where
  "record_prepare_ok s res =
     (case get_server_idx_in_memberlist s (msg_sender res) of
        None \<Rightarrow> (OB_ENTRY_NOT_EXIST, s)
      | Some idx \<Rightarrow>
          let s1 = s\<lparr>prepare_ok := (prepare_ok s)[idx := True]\<rparr>;
              ok_count = count_if (\<lambda>v. v) (prepare_ok s1) in
          (if ok_count < majority_count s1 then OB_ELECTION_BELOW_MAJORITY
           else if ok_count > majority_count s1 then OB_ELECTION_OVER_MAJORITY
           else OB_SUCCESS, s1))"

definition record_accept_ok ::
    "MemberListWithStates \<Rightarrow> ElectionAcceptResponseMsg \<Rightarrow> ob_ret \<times> MemberListWithStates" where
  "record_accept_ok s res =
     (case get_server_idx_in_memberlist s (msg_sender res) of
        None \<Rightarrow> (OB_ENTRY_NOT_EXIST, s)
      | Some idx \<Rightarrow>
          let write_ts = max (accept_ok s ! idx) (ars_lease_started_ts_on_proposer res + ars_lease_interval res);
              v = renewed_version s ! idx;
              w = ars_responsed_membership_version res;
              write_version = (if \<not> cv_is_valid v then w else if cv_gt v w then v else w);
              s1 = s\<lparr>accept_ok := (accept_ok s)[idx := write_ts],
                     renewed_version := (renewed_version s)[idx := write_version]\<rparr>;
              ok_count = count_if (\<lambda>v. v \<noteq> 0) (accept_ok s1) in
          (if ok_count < majority_count s1 then OB_ELECTION_BELOW_MAJORITY else OB_SUCCESS, s1))"

definition get_majority_promised_not_vote_ts :: "MemberListWithStates \<Rightarrow> int" where
  "get_majority_promised_not_vote_ts s = get_sorted_majority_one_desc (accept_ok s)"

definition is_synced_with_majority :: "MemberListWithStates \<Rightarrow> bool" where
  "is_synced_with_majority s =
     (if \<not> cv_is_valid (membership_version (member_list s)) then True
      else count_if (\<lambda>v. v = membership_version (member_list s)) (renewed_version s) \<ge> majority_count s)"

subsection \<open>Sorting\<close>

lemma swap_desc_length [simp]: "length (swap_desc j xs) = length xs"
  by (simp add: swap_desc_def)

lemma swap_desc_mset [simp]: "j + 1 < length xs \<Longrightarrow> mset (swap_desc j xs) = mset xs"
  by (simp add: swap_desc_def mset_swap)

lemma swap_desc_nth:
  "j + 1 < length xs \<Longrightarrow> swap_desc j xs ! k
    = (if k = j then max (xs ! j) (xs ! (j + 1)) else if k = j + 1 then min (xs ! j) (xs ! (j + 1)) else xs ! k)"
  by (auto simp: swap_desc_def nth_list_update max_def min_def)

lemma pass_facts:
  assumes "m < length xs"
  shows "length (fold swap_desc [0..<m] xs) = length xs \<and> mset (fold swap_desc [0..<m] xs) = mset xs
    \<and> (\<forall>k. m < k \<longrightarrow> fold swap_desc [0..<m] xs ! k = xs ! k)
    \<and> (\<forall>k\<le>m. fold swap_desc [0..<m] xs ! m \<le> fold swap_desc [0..<m] xs ! k)"
  using assms
proof (induction m)
  case (Suc m)
  let ?ys = "fold swap_desc [0..<m] xs"
  have ih: "length ?ys = length xs" "mset ?ys = mset xs" "\<And>k. m < k \<Longrightarrow> ?ys ! k = xs ! k"
      "\<And>k. k \<le> m \<Longrightarrow> ?ys ! m \<le> ?ys ! k" using Suc by auto
  have e: "fold swap_desc [0..<Suc m] xs = swap_desc m ?ys" by simp
  have "swap_desc m ?ys ! Suc m \<le> swap_desc m ?ys ! k" if "k \<le> Suc m" for k
    using that Suc.prems ih(1) ih(4)[of k] by (auto simp: swap_desc_nth min_le_iff_disj le_Suc_eq)
  then show ?case using ih Suc.prems unfolding e by (auto simp: swap_desc_nth)
qed auto

lemma pass_prefix_set:
  assumes "m < length xs"
  shows "set (take (Suc m) (fold swap_desc [0..<m] xs)) = set (take (Suc m) xs)"
proof -
  let ?ys = "fold swap_desc [0..<m] xs"
  have "drop (Suc m) ?ys = drop (Suc m) xs"
    using pass_facts[OF assms] by (intro nth_equalityI) auto
  moreover have "mset (take (Suc m) ?ys) + mset (drop (Suc m) ?ys) = mset (take (Suc m) xs) + mset (drop (Suc m) xs)"
    using pass_facts[OF assms] by (metis append_take_drop_id mset_append)
  ultimately show ?thesis by (metis add_right_cancel mset_eq_setD)
qed

text \<open>After \<open>i\<close> passes the last \<open>i\<close> places hold the smallest values in falling order.\<close>

definition tail_sorted :: "nat \<Rightarrow> 'a :: linorder list \<Rightarrow> bool" where
  "tail_sorted i ys \<longleftrightarrow> (\<forall>j k. j < k \<and> k < length ys \<and> length ys - i \<le> k \<longrightarrow> ys ! k \<le> ys ! j)"

lemma passes_sort:
  assumes "i < length xs"
  shows "length (fold (\<lambda>i ys. fold swap_desc [0..<length xs - i - 1] ys) [0..<i] xs) = length xs
    \<and> mset (fold (\<lambda>i ys. fold swap_desc [0..<length xs - i - 1] ys) [0..<i] xs) = mset xs
    \<and> tail_sorted i (fold (\<lambda>i ys. fold swap_desc [0..<length xs - i - 1] ys) [0..<i] xs)"
  using assms
proof (induction i)
  case (Suc i)
  let ?f = "\<lambda>i ys. fold swap_desc [0..<length xs - i - 1] ys"
  let ?ys = "fold ?f [0..<i] xs" let ?m = "length xs - i - 1" let ?zs = "fold swap_desc [0..<?m] ?ys"
  have ih: "length ?ys = length xs" "mset ?ys = mset xs" "tail_sorted i ?ys" using Suc by auto
  have m: "?m < length ?ys" using ih Suc.prems by simp
  note p = pass_facts[OF m]
  have "?zs ! k \<le> ?zs ! j" if "j < k" "k < length xs" "length xs - Suc i \<le> k" for j k
  proof (cases "k = ?m")
    case True
    then show ?thesis using p that by auto
  next
    case False
    then have k: "?m < k" "length xs - i \<le> k" using that by auto
    then have "?zs ! k = ?ys ! k" using p by simp
    moreover have "?ys ! k \<le> y" if "y \<in> set (take (Suc ?m) ?ys)" for y
      using that ih(1,3) k \<open>k < length xs\<close> by (auto simp: in_set_conv_nth tail_sorted_def)
    moreover have "?zs ! j \<in> set (take (Suc ?m) ?ys)" if "j \<le> ?m"
      using that m p unfolding pass_prefix_set[OF m, symmetric] by (auto simp: in_set_conv_nth intro!: exI[of _ j])
    moreover have "?zs ! j = ?ys ! j \<and> ?ys ! k \<le> ?ys ! j" if "\<not> j \<le> ?m"
      using that p ih(1,3) k \<open>j < k\<close> \<open>k < length xs\<close> by (auto simp: tail_sorted_def)
    ultimately show ?thesis by metis
  qed
  moreover have "fold ?f [0..<Suc i] xs = ?zs" by simp
  ultimately show ?case using p ih by (simp add: tail_sorted_def)
qed (auto simp: tail_sorted_def)

lemma bubble_sort_desc_sorts:
  "mset (bubble_sort_desc xs) = mset xs \<and> (\<forall>j k. j < k \<and> k < length xs \<longrightarrow> bubble_sort_desc xs ! k \<le> bubble_sort_desc xs ! j)"
proof (cases "length xs \<ge> 2")
  case True
  let ?ys = "bubble_sort_desc xs"
  have f: "length ?ys = length xs" "mset ?ys = mset xs" "tail_sorted (length xs - 1) ?ys"
    using passes_sort[of "length xs - 1" xs] True by (auto simp: bubble_sort_desc_def)
  then show ?thesis by (auto simp: tail_sorted_def)
qed (auto simp: bubble_sort_desc_def not_le numeral_2_eq_2 less_Suc_eq)

lemma length_bubble_sort [simp]: "length (bubble_sort_desc xs) = length xs"
  using bubble_sort_desc_sorts[of xs] by (metis size_mset)

text \<open>What the value in the middle means: a majority of the entries is at or above it.\<close>

lemma majority_reached:
  assumes "xs \<noteq> []"
  shows "length xs div 2 + 1 \<le> card {i. i < length xs \<and> get_sorted_majority_one_desc xs \<le> xs ! i}"
proof -
  let ?ys = "bubble_sort_desc xs" let ?k = "length xs div 2" let ?v = "?ys ! ?k" let ?P = "\<lambda>x. ?v \<le> x"
  have k: "?k < length xs" using assms by (cases xs) auto
  have "?v \<le> ?ys ! i" if "i \<le> ?k" for i
    using that k bubble_sort_desc_sorts[of xs] by (cases "i = ?k") auto
  then have "\<forall>y\<in>set (take (?k + 1) ?ys). ?P y" using k by (auto simp: in_set_conv_nth less_Suc_eq_le)
  then have "filter ?P (take (?k + 1) ?ys) = take (?k + 1) ?ys" by simp
  then have "?k + 1 \<le> length (filter ?P (take (?k + 1) ?ys))" using k by simp
  also have "\<dots> \<le> length (filter ?P ?ys)"
    by (metis append_take_drop_id filter_append length_append le_add1)
  also have "\<dots> = length (filter ?P xs)"
    using bubble_sort_desc_sorts[of xs] by (metis mset_filter size_mset)
  finally show ?thesis unfolding get_sorted_majority_one_desc_def length_filter_conv_card .
qed

lemma majority_not_exceeded:
  "card {i. i < length xs \<and> get_sorted_majority_one_desc xs < xs ! i} \<le> length xs div 2"
proof -
  let ?ys = "bubble_sort_desc xs" let ?k = "length xs div 2" let ?v = "?ys ! ?k" let ?P = "\<lambda>x. ?v < x"
  have "?ys ! i \<le> ?v" if "?k \<le> i" "i < length xs" for i
    using that bubble_sort_desc_sorts[of xs] by (cases "i = ?k") auto
  then have "\<forall>y\<in>set (drop ?k ?ys). \<not> ?P y" by (auto simp: in_set_conv_nth not_less)
  then have "filter ?P (drop ?k ?ys) = []" by (simp add: filter_empty_conv)
  then have "filter ?P ?ys = filter ?P (take ?k ?ys)"
    using filter_append[of ?P "take ?k ?ys" "drop ?k ?ys"] by simp
  then have "length (filter ?P ?ys) \<le> ?k"
    using length_filter_le[of ?P "take ?k ?ys"] by simp
  also have "length (filter ?P ?ys) = length (filter ?P xs)"
    using bubble_sort_desc_sorts[of xs] by (metis mset_filter size_mset)
  finally show ?thesis unfolding get_sorted_majority_one_desc_def length_filter_conv_card .
qed

lemma sorted_desc_unique:
  fixes ys :: "'a :: linorder list"
  assumes "mset ys = mset xs" "\<forall>j k. j < k \<and> k < length ys \<longrightarrow> ys ! k \<le> ys ! j"
  shows "ys = rev (sort xs)"
proof -
  have "rev ys ! i \<le> rev ys ! j" if "i < j" "j < length ys" for i j
  proof -
    have "length ys - Suc j < length ys - Suc i \<and> length ys - Suc i < length ys" using that by linarith
    then show ?thesis using assms(2) that by (simp add: rev_nth)
  qed
  then have "sorted (rev ys)" by (simp add: sorted_iff_nth_mono_less)
  then have "sort xs = rev ys" using assms(1) by (intro properties_for_sort) simp_all
  then show ?thesis by simp
qed

text \<open>C39: The bubble sort of the election utilities is sorting in falling order: it agrees with the
  library's sort on every list.\<close>

theorem bubble_sort_desc_is_sort: "bubble_sort_desc xs = rev (sort xs)"
  using bubble_sort_desc_sorts[of xs] by (intro sorted_desc_unique) auto

text \<open>C20: The lease a leader takes is exact: a majority of the members has promised not to vote
  before that time, and no later time has been promised by a majority.\<close>

theorem majority_promise_exact:
  assumes "accept_ok s \<noteq> []"
  shows "length (accept_ok s) div 2 + 1 \<le> card {i. i < length (accept_ok s) \<and> get_majority_promised_not_vote_ts s \<le> accept_ok s ! i}
    \<and> card {i. i < length (accept_ok s) \<and> get_majority_promised_not_vote_ts s < accept_ok s ! i} \<le> length (accept_ok s) div 2"
  unfolding get_majority_promised_not_vote_ts_def using majority_reached[OF assms] majority_not_exceeded by blast

theorem majority_promise_exact_witness:
  "(let s = mls_construct\<lparr>accept_ok := [50, 0, 40]\<rparr> in get_majority_promised_not_vote_ts s = 40
     \<and> length (accept_ok s) div 2 + 1 \<le> card {i. i < length (accept_ok s) \<and> get_majority_promised_not_vote_ts s \<le> accept_ok s ! i}
     \<and> card {i. i < length (accept_ok s) \<and> get_majority_promised_not_vote_ts s < accept_ok s ! i} \<le> length (accept_ok s) div 2)"
proof -
  have "get_majority_promised_not_vote_ts (mls_construct\<lparr>accept_ok := [50, 0, 40]\<rparr>) = 40" by code_simp
  then show ?thesis unfolding Let_def using majority_promise_exact[of "mls_construct\<lparr>accept_ok := [50, 0, 40]\<rparr>"] by fastforce
qed

end
