(* ===== verification/Election_State.thy ===== *)
theory Election_State
  imports Election_Members
begin

text \<open>
  The state of one election object (\<^verbatim>\<open>algorithm/election_impl.h\<close>, \<^verbatim>\<open>election_proposer.h\<close>,
  \<^verbatim>\<open>election_acceptor.h\<close>) and the functions both roles use. Every entry point runs under the object's
  lock, so that it is one step. What the rest of the process answers during that step is the
  record \<open>el_env\<close>: the clocks, the codes of sending and of the timer, and the external priority.
  A step reads the monotonic clock once, but for the second look of \<^verbatim>\<open>LeaderLeaseAndEpoch\<close>, which
  exists because the clock may have moved on. Messages handed to the sender are collected in
  \<open>sent_msgs\<close>, also when sending reports an error, since they may have left nevertheless; calls of
  the role change callback are collected in \<open>role_changes\<close>. Monitoring and event reports have no
  counterpart. An assertion or \<^verbatim>\<open>abort\<close> stops the process: the result is then \<^const>\<open>None\<close>.
\<close>

record el_env =
  mono_ts :: int
  mono_ts_later :: int
  clock_ts :: int
  real_clock_ts :: int
  INIT_TS :: int
  MAX_TST :: int
  send_ret :: ob_ret
  broadcast_ret :: ob_ret
  timer_ret :: ob_ret
  priority_serialize :: "ob_ret \<times> byte list"
  priority_compare :: "byte list \<Rightarrow> byte list \<Rightarrow> u64 \<Rightarrow> bool \<Rightarrow> ob_ret \<times> int"
  has_fatal_failure :: bool
  change_leader_cb :: "ob_ret option"
  min_cluster_version :: u64
  is_arbitration_mode :: bool
  memory_left :: bool

record ElectionProposer =
  pr_role :: ObRole
  pr_ballot_number :: int
  memberlist_with_states :: MemberListWithStates
  prepare_success_ballot :: int
  leader_lease :: int
  leader_epoch :: int
  switch_source_leader_ballot :: int
  switch_source_leader_addr :: ObAddr
  restart_counter :: int
  last_do_prepare_ts :: int
  record_lease_interval :: int
  cached_msg :: ElectionAcceptResponseMsg
  cached_ts :: int
  devote_task_delay :: "int option"

record ElectionAcceptor =
  ac_ballot_number :: int
  ballot_of_time_window :: int
  ac_lease :: Lease
  highest_priority_prepare_req :: ElectionPrepareRequestMsg
  is_time_window_opened :: bool
  last_time_window_open_ts :: int
  last_record_lease_owner :: ObAddr
  last_record_lease_valid_state :: bool
  window_task_delay :: "int option"

record ElectionImpl =
  el_is_inited :: bool
  is_running :: bool
  el_ls_id :: int
  self_addr :: ObAddr
  proposer :: ElectionProposer
  acceptor :: ElectionAcceptor
  has_priority :: bool
  inner_priority_seed :: u64
  downgrade_expire_ts :: int
  biggest_version_ever_seen :: u64
  sent_msgs :: "ElectionMsg list"
  role_changes :: "(ObRole \<times> ObRole \<times> RoleChangeReason) list"

abbreviation upd_p :: "(ElectionProposer \<Rightarrow> ElectionProposer) \<Rightarrow> ElectionImpl \<Rightarrow> ElectionImpl" where
  "upd_p f e \<equiv> e\<lparr>proposer := f (proposer e)\<rparr>"

abbreviation upd_a :: "(ElectionAcceptor \<Rightarrow> ElectionAcceptor) \<Rightarrow> ElectionImpl \<Rightarrow> ElectionImpl" where
  "upd_a f e \<equiv> e\<lparr>acceptor := f (acceptor e)\<rparr>"

subsection \<open>Construction\<close>

definition empty_accept_response :: ElectionAcceptResponseMsg where
  "empty_accept_response =
     \<lparr>msg_ls_id = INVALID_VALUE, msg_sender = None, msg_receiver = None, msg_restart_counter = INVALID_VALUE,
      msg_ballot_number = INVALID_VALUE, msg_cluster_version = 0, ars_lease_started_ts_on_proposer = 0,
      ars_lease_interval = 0, ars_accepted = False, ars_is_buffer_valid = False,
      ars_inner_priority_seed = push_bit 12 1, ars_responsed_membership_version = cv_reset,
      ars_membership_version = cv_reset, ars_priority_buffer = []\<rparr>"

definition empty_prepare_request :: ElectionPrepareRequestMsg where
  "empty_prepare_request =
     \<lparr>msg_ls_id = INVALID_VALUE, msg_sender = None, msg_receiver = None, msg_restart_counter = INVALID_VALUE,
      msg_ballot_number = INVALID_VALUE, msg_cluster_version = 0, prq_role = INVALID_ROLE,
      prq_is_buffer_valid = False, prq_inner_priority_seed = push_bit 12 1, prq_membership_version = cv_reset,
      prq_priority_buffer = []\<rparr>"

definition proposer_construct :: ElectionProposer where
  "proposer_construct =
     \<lparr>pr_role = FOLLOWER, pr_ballot_number = INVALID_VALUE, memberlist_with_states = mls_construct,
      prepare_success_ballot = INVALID_VALUE, leader_lease = INVALID_VALUE, leader_epoch = INVALID_VALUE,
      switch_source_leader_ballot = INVALID_VALUE, switch_source_leader_addr = None,
      restart_counter = INVALID_VALUE, last_do_prepare_ts = INVALID_VALUE, record_lease_interval = INVALID_VALUE,
      cached_msg = empty_accept_response, cached_ts = INVALID_VALUE, devote_task_delay = None\<rparr>"

definition acceptor_construct :: ElectionAcceptor where
  "acceptor_construct =
     \<lparr>ac_ballot_number = INVALID_VALUE, ballot_of_time_window = INVALID_VALUE, ac_lease = lease_construct,
      highest_priority_prepare_req = empty_prepare_request, is_time_window_opened = False,
      last_time_window_open_ts = INVALID_VALUE, last_record_lease_owner = None,
      last_record_lease_valid_state = False, window_task_delay = None\<rparr>"

definition election_construct :: ElectionImpl where
  "election_construct =
     \<lparr>el_is_inited = False, is_running = False, el_ls_id = 0, self_addr = None, proposer = proposer_construct,
      acceptor = acceptor_construct, has_priority = False, inner_priority_seed = 0, downgrade_expire_ts = 0,
      biggest_version_ever_seen = 0, sent_msgs = [], role_changes = []\<rparr>"

subsection \<open>Shared functions\<close>

definition get_ls_biggest_min_cluster_version_ever_seen :: "el_env \<Rightarrow> ElectionImpl \<Rightarrow> u64" where
  "get_ls_biggest_min_cluster_version_ever_seen E e =
     (if is_arbitration_mode E then 0 else max (min_cluster_version E) (biggest_version_ever_seen e))"

definition generate_inner_priority_seed :: "el_env \<Rightarrow> ElectionImpl \<Rightarrow> u64" where
  "generate_inner_priority_seed E e =
     (if mono_ts E < downgrade_expire_ts e
      then inner_priority_seed e OR SEED_TEMORARILY_DOWNGRADE_PRIORIY_BIT else inner_priority_seed e)"

definition get_membership_version :: "ElectionImpl \<Rightarrow> LogConfigVersion" where
  "get_membership_version e = membership_version (member_list (memberlist_with_states (proposer e)))"

definition get_priority :: "el_env \<Rightarrow> ElectionImpl \<Rightarrow> (ob_ret \<times> byte list) option" where
  "get_priority E e = (if has_priority e then Some (priority_serialize E) else None)"

definition send_msg :: "ElectionMsg \<Rightarrow> ElectionImpl \<Rightarrow> ElectionImpl" where
  "send_msg m e = e\<lparr>sent_msgs := sent_msgs e @ [m]\<rparr>"

definition broadcast :: "(ObAddr \<Rightarrow> ElectionMsg) \<Rightarrow> ElectionImpl \<Rightarrow> ElectionImpl" where
  "broadcast m e =
     e\<lparr>sent_msgs := sent_msgs e @ map m (addr_list (member_list (memberlist_with_states (proposer e))))\<rparr>"

definition is_self_in_memberlist :: "ElectionImpl \<Rightarrow> bool" where
  "is_self_in_memberlist e \<longleftrightarrow> self_addr e \<in> set (addr_list (member_list (memberlist_with_states (proposer e))))"

definition check_leader :: "el_env \<Rightarrow> ElectionImpl \<Rightarrow> bool" where
  "check_leader E e \<longleftrightarrow> mono_ts E < leader_lease (proposer e)"

text \<open>Which of two messages has the higher priority; the parameters are what the template reads of
  each message: whether it is valid, its membership version, seed, whether it carries a priority,
  the priority, and the sender.\<close>

type_synonym msg_rank = "bool \<times> LogConfigVersion \<times> u64 \<times> bool \<times> byte list \<times> ObAddr"

definition is_rhs_message_higher :: "el_env \<Rightarrow> ElectionImpl \<Rightarrow> msg_rank \<Rightarrow> msg_rank \<Rightarrow> bool \<Rightarrow> bool" where
  "is_rhs_message_higher E e lhs rhs decentralized_voting =
     (case lhs of (lvalid, lversion, lseed, lbuffer_valid, lbuffer, lsender) \<Rightarrow>
      case rhs of (rvalid, rversion, rseed, rbuffer_valid, rbuffer, rsender) \<Rightarrow>
        let by_address = decentralized_voting \<and> addr_less rsender lsender;
            compare_version = get_ls_biggest_min_cluster_version_ever_seen E e in
        if \<not> rvalid then False
        else if \<not> lvalid then True
        else if cv_gt lversion rversion then False
        else if cv_lt lversion rversion then True
        else if lseed < rseed then False
        else if lseed > rseed then True
        else if \<not> lbuffer_valid then (if rbuffer_valid then True else by_address)
        else if \<not> rbuffer_valid then False
        else if \<not> has_priority e \<or> compare_version = 0 then by_address
        else case priority_compare E lbuffer rbuffer compare_version decentralized_voting of (ret, compare_result) \<Rightarrow>
          if ret \<noteq> OB_SUCCESS then False
          else if compare_result < 0 then True
          else if compare_result = 0 \<and> decentralized_voting then addr_less rsender lsender
          else False)"

definition prepare_rank :: "ElectionPrepareRequestMsg \<Rightarrow> msg_rank" where
  "prepare_rank m = (msg_is_valid m, prq_membership_version m, prq_inner_priority_seed m, prq_is_buffer_valid m,
     prq_priority_buffer m, msg_sender m)"

definition accept_rank :: "ElectionAcceptResponseMsg \<Rightarrow> msg_rank" where
  "accept_rank m = (msg_is_valid m, ars_membership_version m, ars_inner_priority_seed m, ars_is_buffer_valid m,
     ars_priority_buffer m, msg_sender m)"

definition new_prepare_request :: "el_env \<Rightarrow> ElectionImpl \<Rightarrow> ElectionPrepareRequestMsg" where
  "new_prepare_request E e =
     \<lparr>msg_ls_id = el_ls_id e, msg_sender = self_addr e, msg_receiver = None,
      msg_restart_counter = restart_counter (proposer e), msg_ballot_number = pr_ballot_number (proposer e),
      msg_cluster_version = get_ls_biggest_min_cluster_version_ever_seen E e, prq_role = INVALID_ROLE,
      prq_is_buffer_valid = False, prq_inner_priority_seed = generate_inner_priority_seed E e,
      prq_membership_version = get_membership_version e, prq_priority_buffer = []\<rparr>"

end
