(* ===== verification/Election_Acceptor.thy ===== *)
theory Election_Acceptor
  imports Election_State
begin

text \<open>
  The acceptor (\<^verbatim>\<open>algorithm/election_acceptor.cpp\<close>): it answers prepare requests of a leader at once,
  collects those of candidates in a time window and votes for the best when the window closes,
  and takes over the lease of every accept request that is not older than its ballot. The task that
  \<^verbatim>\<open>start()\<close> schedules is \<open>time_window_task\<close>; the two variables its closure keeps are fields of the
  acceptor. \<^verbatim>\<open>refresh_priority_()\<close> has no effect on this state: \<open>priority_serialize\<close> is what the
  refreshed priority gives.
\<close>

definition keeps_silence :: "el_env \<Rightarrow> bool" where
  "keeps_silence E = (if INIT_TS E < 0 then True else if mono_ts E < INIT_TS E + MAX_LEASE_TIME then True else False)"

definition reset_time_window_states :: "ElectionAcceptor \<Rightarrow> ElectionAcceptor" where
  "reset_time_window_states a =
     (if is_time_window_opened a
      then a\<lparr>is_time_window_opened := False, highest_priority_prepare_req := msg_reset (highest_priority_prepare_req a)\<rparr>
      else a)"

definition acceptor_advance_ballot :: "int \<Rightarrow> ElectionAcceptor \<Rightarrow> ElectionAcceptor" where
  "acceptor_advance_ballot new_ballot_number a =
     (if new_ballot_number > ac_ballot_number a
      then reset_time_window_states (a\<lparr>ac_ballot_number := new_ballot_number, ballot_of_time_window := new_ballot_number\<rparr>)
      else a)"

definition new_prepare_response :: "el_env \<Rightarrow> ElectionImpl \<Rightarrow> ElectionPrepareRequestMsg \<Rightarrow> ElectionPrepareResponseMsg" where
  "new_prepare_response E e req =
     prepare_response (self_addr e) (get_ls_biggest_min_cluster_version_ever_seen E e) req"

definition new_accept_response :: "el_env \<Rightarrow> ElectionImpl \<Rightarrow> ElectionAcceptRequestMsg \<Rightarrow> ElectionAcceptResponseMsg" where
  "new_accept_response E e req =
     accept_response (self_addr e) (generate_inner_priority_seed E e) (get_membership_version e)
       (get_ls_biggest_min_cluster_version_ever_seen E e) req"

definition check_prepare_ballot_valid ::
    "el_env \<Rightarrow> ElectionPrepareRequestMsg \<Rightarrow> ElectionImpl \<Rightarrow> bool \<times> ElectionImpl" where
  "check_prepare_ballot_valid E req e =
     (if msg_ballot_number req < ac_ballot_number (acceptor e)
      then (False, send_msg (PrepareResponse (prs_set_rejected (ac_ballot_number (acceptor e)) (new_prepare_response E e req))) e)
      else (True, e))"

definition check_accept_ballot_valid ::
    "el_env \<Rightarrow> ElectionAcceptRequestMsg \<Rightarrow> ElectionImpl \<Rightarrow> bool \<times> ElectionImpl" where
  "check_accept_ballot_valid E req e =
     (if msg_ballot_number req < ac_ballot_number (acceptor e)
      then (False, send_msg (AcceptResponse (ars_set_rejected (ac_ballot_number (acceptor e)) (new_accept_response E e req))) e)
      else (True, e))"

subsection \<open>Prepare requests\<close>

definition vote_for_leader :: "el_env \<Rightarrow> ElectionPrepareRequestMsg \<Rightarrow> ElectionImpl \<Rightarrow> ElectionImpl" where
  "vote_for_leader E req e =
     (if msg_ballot_number req \<le> ac_ballot_number (acceptor e) then e
      else let e1 = upd_a (acceptor_advance_ballot (msg_ballot_number req)) e in
        send_msg (PrepareResponse (prs_set_accepted (ac_ballot_number (acceptor e1)) (ac_lease (acceptor e1))
          (new_prepare_response E e1 req))) e1)"

definition open_time_window :: "el_env \<Rightarrow> ElectionPrepareRequestMsg \<Rightarrow> ElectionAcceptor \<Rightarrow> ob_ret \<times> ElectionAcceptor" where
  "open_time_window E req a =
     (if \<not> is_time_window_opened a \<and> msg_ballot_number req > ballot_of_time_window a then
        let a1 = a\<lparr>ballot_of_time_window := msg_ballot_number req,
                   highest_priority_prepare_req := msg_reset (highest_priority_prepare_req a)\<rparr>;
            timewindow_span =
              (if \<not> lease_is_expired (mono_ts E) (ac_lease a1)
               then max (lease_end_ts (ac_lease a1) - mono_ts E) (CALCULATE_TIME_WINDOW_SPAN_TS (MAX_TST E) div 2)
               else CALCULATE_TIME_WINDOW_SPAN_TS (MAX_TST E)) in
        if timer_ret E \<noteq> OB_SUCCESS then (timer_ret E, a1)
        else (OB_SUCCESS, a1\<lparr>window_task_delay := Some timewindow_span, is_time_window_opened := True,
                last_time_window_open_ts := clock_ts E\<rparr>)
      else (OB_SUCCESS, a))"

definition count_prepare_request ::
    "el_env \<Rightarrow> ElectionPrepareRequestMsg \<Rightarrow> ElectionImpl \<Rightarrow> ElectionImpl" where
  "count_prepare_request E req e =
     (let a = acceptor e; highest = highest_priority_prepare_req a;
          replace = upd_a (\<lambda>a. a\<lparr>highest_priority_prepare_req := req\<rparr>) e in
      if msg_ballot_number req \<noteq> ballot_of_time_window a then e
      else if \<not> msg_is_valid highest then replace
      else if cv_gt (prq_membership_version req) (prq_membership_version highest) then replace
      else if cv_lt (prq_membership_version req) (prq_membership_version highest) then e
      else if is_rhs_message_higher E e (prepare_rank highest) (prepare_rank req) True then replace
      else e)"

definition collect_prepare_request ::
    "el_env \<Rightarrow> ElectionPrepareRequestMsg \<Rightarrow> ElectionImpl \<Rightarrow> ElectionImpl" where
  "collect_prepare_request E req e =
     (let a = acceptor e;
          a1 = (if is_time_window_opened a \<and> msg_ballot_number req > ballot_of_time_window a
                then reset_time_window_states a else a) in
      case open_time_window E req a1 of (ret, a2) \<Rightarrow>
        let e1 = e\<lparr>acceptor := a2\<rparr> in
        if ret = OB_SUCCESS \<and> is_time_window_opened a2 then count_prepare_request E req e1 else e1)"

definition is_member_list_valid :: "ElectionImpl \<Rightarrow> bool" where
  "is_member_list_valid e \<longleftrightarrow> ml_is_valid (member_list (memberlist_with_states (proposer e)))"

definition acceptor_on_prepare_request ::
    "el_env \<Rightarrow> ElectionPrepareRequestMsg \<Rightarrow> ElectionImpl \<Rightarrow> ElectionImpl" where
  "acceptor_on_prepare_request E req e =
     (if keeps_silence E then e
      else if \<not> is_member_list_valid e then e
      else if cv_lt (prq_membership_version req) (get_membership_version e) then e
      else case check_prepare_ballot_valid E req e of (valid, e1) \<Rightarrow>
        if \<not> valid then e1
        else if prq_role req = LEADER then vote_for_leader E req e1
        else collect_prepare_request E req e1)"

subsection \<open>The task that closes the window\<close>

definition vote_when_closed :: "el_env \<Rightarrow> ElectionImpl \<Rightarrow> ElectionImpl" where
  "vote_when_closed E e =
     (let a = acceptor e; req = highest_priority_prepare_req a in
      if ballot_of_time_window a = msg_ballot_number req \<and> ballot_of_time_window a > ac_ballot_number a then
        let e1 = upd_a (\<lambda>a. a\<lparr>ac_ballot_number := ballot_of_time_window a\<rparr>) e;
            e2 = (if lease_is_expired (mono_ts E) (ac_lease (acceptor e1))
                  then upd_a (\<lambda>a. a\<lparr>ac_lease := lease_reset (ac_lease a)\<rparr>) e1 else e1) in
        send_msg (PrepareResponse (prs_set_accepted (ac_ballot_number (acceptor e2)) (ac_lease (acceptor e2))
          (new_prepare_response E e2 req))) e2
      else e)"

definition time_window_task :: "el_env \<Rightarrow> ElectionImpl \<Rightarrow> ElectionImpl" where
  "time_window_task E e =
     (let a = acceptor e;
          lease_valid_state = (\<not> lease_is_expired (mono_ts E) (ac_lease a));
          lease_lost = last_record_lease_valid_state a \<and> \<not> lease_valid_state;
          e1 = (if last_record_lease_valid_state a \<noteq> lease_valid_state \<and> \<not> lease_valid_state
                then upd_a (\<lambda>a. a\<lparr>ac_lease := lease_reset (ac_lease a)\<rparr>) e else e);
          e2 = (if last_record_lease_owner (acceptor e1) \<noteq> ls_owner (ac_lease (acceptor e1))
                then upd_a (\<lambda>a. a\<lparr>last_record_lease_owner := ls_owner (ac_lease a)\<rparr>) e1 else e1);
          can_vote = (lease_lost
            \<or> clock_ts E - last_time_window_open_ts (acceptor e2) \<ge> CALCULATE_TIME_WINDOW_SPAN_TS (MAX_TST E));
          e3 = (if is_time_window_opened (acceptor e2) \<and> can_vote
                then upd_a (\<lambda>a. a\<lparr>is_time_window_opened := False\<rparr>) (vote_when_closed E e2) else e2) in
      upd_a (\<lambda>a. a\<lparr>last_record_lease_valid_state := lease_valid_state\<rparr>) e3)"

subsection \<open>Accept requests\<close>

text \<open>The second component is how long the lease is still valid, 0 when the request is not taken.\<close>

definition acceptor_on_accept_request ::
    "el_env \<Rightarrow> ElectionAcceptRequestMsg \<Rightarrow> ElectionImpl \<Rightarrow> (ElectionImpl \<times> int) option" where
  "acceptor_on_accept_request E req e =
     (if keeps_silence E then Some (e, 0)
      else case check_accept_ballot_valid E req e of (valid, e1) \<Rightarrow>
        if \<not> valid then Some (e1, 0)
        else
          let e2 = (if msg_ballot_number req > ac_ballot_number (acceptor e1)
                    then upd_a (acceptor_advance_ballot (msg_ballot_number req)) e1 else e1) in
          case lease_update_from (mono_ts E) (ac_lease (acceptor e2)) req of
            None \<Rightarrow> None
          | Some l \<Rightarrow>
              let e3 = upd_a (\<lambda>a. a\<lparr>ac_lease := l\<rparr>) e2;
                  us_to_expired = lease_end_ts l - mono_ts E in
              case ars_set_accepted (ac_ballot_number (acceptor e3)) (get_priority E e3) (new_accept_response E e3 req) of
                (ret, res) \<Rightarrow> Some (if ret \<noteq> OB_SUCCESS then e3 else send_msg (AcceptResponse res) e3, us_to_expired))"

end
