(* ===== verification/Election_Proposer.thy ===== *)
theory Election_Proposer
  imports Election_Acceptor
begin

text \<open>
  The proposer (\<^verbatim>\<open>algorithm/election_proposer.{h,cpp}\<close>): it asks for votes, proposes a lease once a
  majority has voted for it, is the leader until the time a majority has promised, renews the
  lease, and hands the leadership over. The two timer tasks are \<open>renew_lease_task\<close> and \<open>devote_task\<close>;
  \<open>devote_task_delay\<close> is the delay the devote task was last scheduled with. The sequence lock of
  \<^verbatim>\<open>LeaderLeaseAndEpoch\<close> makes its two values one atomic pair for the readers.
\<close>

abbreviation pr_member_list :: "ElectionImpl \<Rightarrow> MemberList" where
  "pr_member_list e \<equiv> member_list (memberlist_with_states (proposer e))"

abbreviation set_books :: "MemberListWithStates \<Rightarrow> ElectionImpl \<Rightarrow> ElectionImpl" where
  "set_books s e \<equiv> upd_p (\<lambda>p. p\<lparr>memberlist_with_states := s\<rparr>) e"

definition proposer_init :: "int \<Rightarrow> bool \<Rightarrow> ElectionProposer \<Rightarrow> ob_ret \<times> ElectionProposer" where
  "proposer_init counter mls_init_ok p =
     (if \<not> mls_init_ok then (OB_ALLOCATE_MEMORY_FAILED, p) else (OB_SUCCESS, p\<lparr>restart_counter := counter\<rparr>))"

definition proposer_advance_ballot :: "int \<Rightarrow> ElectionImpl \<Rightarrow> ElectionImpl option" where
  "proposer_advance_ballot new_ballot_number e =
     (if new_ballot_number \<ge> pr_ballot_number (proposer e)
      then Some (upd_p (\<lambda>p. p\<lparr>pr_ballot_number := new_ballot_number,
        memberlist_with_states := clear_prepare_and_accept_states (memberlist_with_states p),
        switch_source_leader_ballot := INVALID_VALUE, switch_source_leader_addr := None\<rparr>) e)
      else None)"

subsection \<open>The leader's lease\<close>

definition lease_and_epoch_reset :: "ElectionProposer \<Rightarrow> ElectionProposer" where
  "lease_and_epoch_reset p = p\<lparr>leader_lease := INVALID_VALUE, leader_epoch := INVALID_VALUE\<rparr>"

definition set_lease_and_epoch_if_lease_expired_or_just_set_lease ::
    "el_env \<Rightarrow> int \<Rightarrow> int \<Rightarrow> ElectionProposer \<Rightarrow> ElectionProposer" where
  "set_lease_and_epoch_if_lease_expired_or_just_set_lease E lease epoch p =
     (let old_lease = leader_lease p in
      if mono_ts E < old_lease then
        let p1 = p\<lparr>leader_lease := lease\<rparr> in
        if mono_ts_later E \<ge> old_lease then p1\<lparr>leader_epoch := epoch\<rparr> else p1
      else p\<lparr>leader_lease := lease, leader_epoch := epoch\<rparr>)"

definition leader_revoke_if_lease_expired :: "el_env \<Rightarrow> RoleChangeReason \<Rightarrow> ElectionImpl \<Rightarrow> bool \<times> ElectionImpl" where
  "leader_revoke_if_lease_expired E reason e =
     (if pr_role (proposer e) = LEADER \<and> \<not> check_leader E e
      then (True, upd_p (\<lambda>p. lease_and_epoch_reset (p\<lparr>pr_role := FOLLOWER,
              memberlist_with_states := clear_prepare_and_accept_states (memberlist_with_states p)\<rparr>))
            (e\<lparr>role_changes := role_changes e @ [(LEADER, FOLLOWER, reason)]\<rparr>))
      else (False, e))"

definition propose :: "el_env \<Rightarrow> ElectionImpl \<Rightarrow> ElectionImpl" where
  "propose E e =
     (let new_lease_interval = CALCULATE_LEASE_INTERVAL (MAX_TST E);
          e1 = (if new_lease_interval \<noteq> record_lease_interval (proposer e)
                then upd_p (\<lambda>p. p\<lparr>record_lease_interval := new_lease_interval\<rparr>) e else e) in
      broadcast (\<lambda>dst. AcceptRequest
        \<lparr>msg_ls_id = el_ls_id e1, msg_sender = self_addr e1, msg_receiver = dst,
         msg_restart_counter = restart_counter (proposer e1), msg_ballot_number = prepare_success_ballot (proposer e1),
         msg_cluster_version = get_ls_biggest_min_cluster_version_ever_seen E e1,
         arq_lease_start_ts_on_proposer = mono_ts E, arq_lease_interval = new_lease_interval,
         arq_membership_version = get_membership_version e1\<rparr>) e1)"

definition cache_reset :: "ElectionProposer \<Rightarrow> ElectionProposer" where
  "cache_reset p = p\<lparr>cached_ts := INVALID_VALUE, cached_msg := msg_reset (cached_msg p)\<rparr>"

definition cache_set :: "el_env \<Rightarrow> ElectionAcceptResponseMsg \<Rightarrow> ElectionProposer \<Rightarrow> ElectionProposer" where
  "cache_set E msg p = p\<lparr>cached_msg := msg, cached_ts := real_clock_ts E\<rparr>"

definition cache_check_expired :: "el_env \<Rightarrow> ElectionProposer \<Rightarrow> ElectionProposer" where
  "cache_check_expired E p =
     (if cached_ts p \<noteq> INVALID_VALUE \<and> real_clock_ts E - cached_ts p > CACHE_EXPIRATION_TIME then cache_reset p else p)"

definition leader_takeover_if_lease_valid :: "el_env \<Rightarrow> RoleChangeReason \<Rightarrow> ElectionImpl \<Rightarrow> bool \<times> ElectionImpl" where
  "leader_takeover_if_lease_valid E reason e =
     (if pr_role (proposer e) \<noteq> LEADER \<and> check_leader E e
      then (True, propose E (upd_p (\<lambda>p. (cache_reset p)\<lparr>pr_role := LEADER\<rparr>)
             (e\<lparr>role_changes := role_changes e @ [(FOLLOWER, LEADER, reason)]\<rparr>)))
      else (False, e))"

subsection \<open>Asking for votes\<close>

definition broadcast_prepare :: "el_env \<Rightarrow> ObRole \<Rightarrow> ElectionImpl \<Rightarrow> ob_ret \<times> ElectionImpl" where
  "broadcast_prepare E role e =
     (case prq_set (get_priority E e) role (new_prepare_request E e) of (ret, req) \<Rightarrow>
        if ret \<noteq> OB_SUCCESS then (ret, e)
        else (broadcast_ret E, broadcast (\<lambda>dst. PrepareRequest (req\<lparr>msg_receiver := dst\<rparr>)) e))"

definition prepare :: "el_env \<Rightarrow> ObRole \<Rightarrow> ElectionImpl \<Rightarrow> ElectionImpl option" where
  "prepare E role e =
     (if addr_list (pr_member_list e) = [] then Some e
      else if \<not> is_self_in_memberlist e then Some e
      else if role = FOLLOWER \<and> clock_ts E - last_do_prepare_ts (proposer e) < CALCULATE_MAX_ELECT_COST_TIME (MAX_TST E) div 2
      then Some e
      else
        let e1 = upd_p (\<lambda>p. p\<lparr>last_do_prepare_ts := clock_ts E\<rparr>) e in
        case (case role of
                FOLLOWER \<Rightarrow> proposer_advance_ballot (pr_ballot_number (proposer e1) + 1) e1
              | LEADER \<Rightarrow> Some e1
              | _ \<Rightarrow> None) of
          None \<Rightarrow> None
        | Some e2 \<Rightarrow> Some (snd (broadcast_prepare E role e2)))"

text \<open>The first component says whether the devote task has to be scheduled anew.\<close>

definition proposer_on_prepare_request ::
    "el_env \<Rightarrow> ElectionPrepareRequestMsg \<Rightarrow> ElectionImpl \<Rightarrow> (bool \<times> ElectionImpl) option" where
  "proposer_on_prepare_request E req e =
     (if msg_ballot_number req \<le> pr_ballot_number (proposer e) then
        if msg_ballot_number req < pr_ballot_number (proposer e)
        then Some (False, send_msg (PrepareResponse (prs_set_rejected (pr_ballot_number (proposer e)) (new_prepare_response E e req))) e)
        else Some (False, e)
      else if \<not> is_self_in_memberlist e then Some (False, e)
      else case proposer_advance_ballot (msg_ballot_number req) e of
        None \<Rightarrow> None
      | Some e1 \<Rightarrow>
          if prq_role req = LEADER then Some (False, e1)
          else if prq_role req \<noteq> FOLLOWER then Some (False, e1)
          else if addr_list (pr_member_list e1) = [] then Some (False, e1)
          else case broadcast_prepare E (pr_role (proposer e1)) e1 of (ret, e2) \<Rightarrow>
            if ret \<noteq> OB_SUCCESS then Some (False, e2)
            else Some (True, upd_p (\<lambda>p. p\<lparr>last_do_prepare_ts := clock_ts E\<rparr>) e2))"

subsection \<open>Responses\<close>

definition check_ballot_and_restart_counter_valid_and_accepted ::
    "el_env \<Rightarrow> int \<Rightarrow> int \<Rightarrow> bool \<Rightarrow> ElectionImpl \<Rightarrow> (bool \<times> ElectionImpl) option" where
  "check_ballot_and_restart_counter_valid_and_accepted E counter ballot accepted e =
     (if counter \<noteq> restart_counter (proposer e) then
        (if counter < restart_counter (proposer e) then Some (False, e) else None)
      else if ballot < pr_ballot_number (proposer e) then Some (False, e)
      else if ballot > pr_ballot_number (proposer e) then
        if accepted then None
        else (case proposer_advance_ballot ballot e of
          None \<Rightarrow> None
        | Some e1 \<Rightarrow>
            if check_leader E e1 then
              case proposer_advance_ballot (pr_ballot_number (proposer e1) + 1) e1 of
                None \<Rightarrow> None
              | Some e2 \<Rightarrow> map_option (\<lambda>e3. (False, e3)) (prepare E LEADER e2)
            else Some (False, e1))
      else if \<not> accepted then Some (False, e)
      else Some (True, e))"

definition is_lease_free_for :: "ElectionImpl \<Rightarrow> Lease \<Rightarrow> bool" where
  "is_lease_free_for e l \<longleftrightarrow> lease_is_empty l \<or> ls_owner l = self_addr e
     \<or> ls_owner l = switch_source_leader_addr (proposer e) \<and> ls_ballot_number l = switch_source_leader_ballot (proposer e)"

definition on_prepare_response ::
    "el_env \<Rightarrow> ElectionPrepareResponseMsg \<Rightarrow> ElectionImpl \<Rightarrow> ElectionImpl option" where
  "on_prepare_response E res e =
     (case check_ballot_and_restart_counter_valid_and_accepted E (msg_restart_counter res) (msg_ballot_number res) (prs_accepted res) e of
        None \<Rightarrow> None
      | Some (ok, e1) \<Rightarrow>
          if \<not> ok then Some e1
          else if \<not> is_lease_free_for e1 (prs_lease res) then Some e1
          else case record_prepare_ok (memberlist_with_states (proposer e1)) res of (ret, s) \<Rightarrow>
            let e2 = set_books s e1 in
            if ret \<noteq> OB_SUCCESS then Some e2
            else Some (propose E (upd_p (\<lambda>p. p\<lparr>prepare_success_ballot := max (pr_ballot_number p) (prepare_success_ballot p)\<rparr>) e2)))"

subsection \<open>Handing over the leadership\<close>

definition inner_change_leader_to :: "el_env \<Rightarrow> ObAddr \<Rightarrow> ElectionImpl \<Rightarrow> ElectionImpl option" where
  "inner_change_leader_to E dst e =
     (let old_ballot = pr_ballot_number (proposer e) in
      case proposer_advance_ballot (old_ballot + 1) e of
        None \<Rightarrow> None
      | Some e1 \<Rightarrow>
          let e2 = upd_p lease_and_epoch_reset e1;
              msg = \<lparr>msg_ls_id = el_ls_id e2, msg_sender = self_addr e2, msg_receiver = dst,
                msg_restart_counter = restart_counter (proposer e2), msg_ballot_number = pr_ballot_number (proposer e2),
                msg_cluster_version = get_ls_biggest_min_cluster_version_ever_seen E e2,
                clm_switch_source_leader_ballot = old_ballot, clm_membership_version = get_membership_version e2\<rparr>;
              e3 = snd (leader_revoke_if_lease_expired E ChangeLeaderToRevoke e2) in
          Some (send_msg (ChangeLeader msg) e3))"

definition proposer_change_leader_to :: "el_env \<Rightarrow> ObAddr \<Rightarrow> ElectionImpl \<Rightarrow> (ob_ret \<times> ElectionImpl) option" where
  "proposer_change_leader_to E dest_addr e =
     (let redirect_addr = (if dest_addr \<in> set (addr_list (pr_member_list e)) then dest_addr else self_addr e) in
      if \<not> check_leader E e then Some (OB_NOT_MASTER, e)
      else map_option (\<lambda>e1. (OB_SUCCESS, e1)) (inner_change_leader_to E redirect_addr e))"

text \<open>Outside of a fatal failure the request goes to the callback \<open>change_leader_cb\<close>, which calls
  \<open>change_leader_to\<close> later, if at all.\<close>

definition prepare_change_leader_to :: "el_env \<Rightarrow> ObAddr \<Rightarrow> ElectionImpl \<Rightarrow> (ob_ret \<times> ElectionImpl) option" where
  "prepare_change_leader_to E dest_addr e =
     (if has_priority e \<and> has_fatal_failure E
      then proposer_change_leader_to E (msg_sender (cached_msg (proposer e))) e
      else case change_leader_cb E of
        None \<Rightarrow> Some (OB_SUCCESS, e)
      | Some ret \<Rightarrow> Some (ret, e))"

definition on_change_leader :: "el_env \<Rightarrow> ElectionChangeLeaderMsg \<Rightarrow> ElectionImpl \<Rightarrow> ElectionImpl option" where
  "on_change_leader E msg e =
     (let accept = (if msg_sender msg = self_addr e then msg_ballot_number msg = pr_ballot_number (proposer e)
                    else msg_ballot_number msg > pr_ballot_number (proposer e)) in
      if \<not> accept then Some e
      else if cv_gt (clm_membership_version msg) (get_membership_version e) then Some e
      else case proposer_advance_ballot (msg_ballot_number msg) e of
        None \<Rightarrow> None
      | Some e1 \<Rightarrow>
          prepare E LEADER (upd_p (\<lambda>p. p\<lparr>switch_source_leader_ballot := clm_switch_source_leader_ballot msg,
            switch_source_leader_addr := msg_sender msg\<rparr>) e1))"

subsection \<open>Accept responses\<close>

definition take_new_lease :: "el_env \<Rightarrow> int \<Rightarrow> ElectionImpl \<Rightarrow> ElectionImpl" where
  "take_new_lease E new_lease_end e =
     (let e1 = snd (leader_revoke_if_lease_expired E LeaseExpiredToRevoke e);
          e2 = (if new_lease_end > leader_lease (proposer e1)
                then upd_p (\<lambda>p. set_lease_and_epoch_if_lease_expired_or_just_set_lease E new_lease_end (prepare_success_ballot p) p) e1
                else e1) in
      if switch_source_leader_ballot (proposer e2) \<noteq> INVALID_VALUE then
        if switch_source_leader_ballot (proposer e2) \<noteq> pr_ballot_number (proposer e2) - 1 then e2
        else case leader_takeover_if_lease_valid E ChangeLeaderToBeLeader e2 of (taken, e3) \<Rightarrow>
          if taken then upd_p (\<lambda>p. p\<lparr>switch_source_leader_ballot := INVALID_VALUE, switch_source_leader_addr := None\<rparr>) e3 else e3
      else snd (leader_takeover_if_lease_valid E DevoteToBeLeader e2))"

definition mock_self_accept_response :: "el_env \<Rightarrow> ElectionImpl \<Rightarrow> ob_ret \<times> ElectionAcceptResponseMsg" where
  "mock_self_accept_response E e =
     ars_set_accepted (pr_ballot_number (proposer e)) (get_priority E e)
       (new_accept_response E e
         \<lparr>msg_ls_id = el_ls_id e, msg_sender = self_addr e, msg_receiver = None,
          msg_restart_counter = restart_counter (proposer e), msg_ballot_number = pr_ballot_number (proposer e),
          msg_cluster_version = get_ls_biggest_min_cluster_version_ever_seen E e,
          arq_lease_start_ts_on_proposer = 0, arq_lease_interval = record_lease_interval (proposer e),
          arq_membership_version = get_membership_version e\<rparr>)"

definition compare_with_follower :: "el_env \<Rightarrow> ElectionAcceptResponseMsg \<Rightarrow> ElectionImpl \<Rightarrow> ElectionImpl option" where
  "compare_with_follower E res e =
     (if pr_role (proposer e) = LEADER \<and> msg_sender res \<noteq> self_addr e then
        case mock_self_accept_response E e of (ret, mock) \<Rightarrow>
          if ret \<noteq> OB_SUCCESS then Some e
          else if is_rhs_message_higher E e (accept_rank mock) (accept_rank res) False then
            let e1 = upd_p (cache_check_expired E) e; cached = cached_msg (proposer e1) in
            if \<not> msg_is_valid cached then Some (upd_p (cache_set E res) e1)
            else if is_rhs_message_higher E e1 (accept_rank cached) (accept_rank res) True
            then Some (upd_p (cache_set E res) e1)
            else if msg_sender cached = msg_sender res
            then map_option snd (prepare_change_leader_to E (msg_sender cached) e1)
            else Some e1
          else Some e
      else Some e)"

definition on_accept_response :: "el_env \<Rightarrow> ElectionAcceptResponseMsg \<Rightarrow> ElectionImpl \<Rightarrow> ElectionImpl option" where
  "on_accept_response E res e =
     (case check_ballot_and_restart_counter_valid_and_accepted E (msg_restart_counter res) (msg_ballot_number res) (ars_accepted res) e of
        None \<Rightarrow> None
      | Some (ok, e1) \<Rightarrow>
          let e3 = (if \<not> ok then e1
                    else case record_accept_ok (memberlist_with_states (proposer e1)) res of (ret, s) \<Rightarrow>
                      let e2 = set_books s e1 in
                      if ret \<noteq> OB_SUCCESS then e2
                      else take_new_lease E (get_majority_promised_not_vote_ts (memberlist_with_states (proposer e2))) e2) in
          compare_with_follower E res e3)"

subsection \<open>Timer tasks, start and stop\<close>

definition renew_lease_task :: "el_env \<Rightarrow> ElectionImpl \<Rightarrow> ElectionImpl" where
  "renew_lease_task E e =
     (if \<not> is_running e then e
      else if pr_role (proposer e) = FOLLOWER then e
      else if pr_role (proposer e) \<noteq> LEADER then e
      else case leader_revoke_if_lease_expired E LeaseExpiredToRevoke e of (revoked, e1) \<Rightarrow>
        if revoked then e1
        else if prepare_success_ballot (proposer e1) \<noteq> pr_ballot_number (proposer e1) then e1
        else propose E e1)"

definition devote_task :: "el_env \<Rightarrow> ElectionImpl \<Rightarrow> ElectionImpl option" where
  "devote_task E e =
     (if check_leader E e then
        if prepare_success_ballot (proposer e) = pr_ballot_number (proposer e) then Some e
        else prepare E (pr_role (proposer e)) e
      else
        let e1 = (if pr_role (proposer e) = LEADER then upd_p (\<lambda>p. p\<lparr>pr_role := FOLLOWER\<rparr>) e else e) in
        prepare E (pr_role (proposer e1)) e1)"

definition reschedule_or_register_prepare_task_after :: "el_env \<Rightarrow> int \<Rightarrow> ElectionImpl \<Rightarrow> ob_ret \<times> ElectionImpl" where
  "reschedule_or_register_prepare_task_after E delay_us e =
     (if delay_us < 0 then (OB_INVALID_ARGUMENT, e)
      else if timer_ret E \<noteq> OB_SUCCESS then (timer_ret E, e)
      else (OB_SUCCESS, upd_p (\<lambda>p. p\<lparr>devote_task_delay := Some delay_us\<rparr>) e))"

definition proposer_stop :: "el_env \<Rightarrow> ElectionImpl \<Rightarrow> ElectionImpl" where
  "proposer_stop E e = snd (leader_revoke_if_lease_expired E StopToRevoke
     (upd_p (\<lambda>p. lease_and_epoch_reset (p\<lparr>devote_task_delay := None\<rparr>)) e))"

subsection \<open>Member lists\<close>

definition proposer_can_set_memberlist :: "el_env \<Rightarrow> LogConfigVersion \<Rightarrow> ElectionImpl \<Rightarrow> ob_ret" where
  "proposer_can_set_memberlist E version e =
     (if \<not> cv_is_valid version then OB_INVALID_ARGUMENT
      else if ml_is_valid (pr_member_list e) then
        if cv_lt version (membership_version (pr_member_list e)) then OB_INVALID_ARGUMENT
        else if check_leader E e \<and> \<not> is_synced_with_majority (memberlist_with_states (proposer e)) then OB_OP_NOT_ALLOW
        else OB_SUCCESS
      else OB_SUCCESS)"

definition proposer_set_member_list :: "el_env \<Rightarrow> MemberList \<Rightarrow> ElectionImpl \<Rightarrow> (ob_ret \<times> ElectionImpl) option" where
  "proposer_set_member_list E new e =
     (let ret = proposer_can_set_memberlist E (membership_version new) e in
      if ret \<noteq> OB_SUCCESS then Some (ret, e)
      else
        let old_list = pr_member_list e in
        case mls_set_member_list (memory_left E) (memberlist_with_states (proposer e)) new of (ret, s) \<Rightarrow>
          let e1 = set_books s e in
          if ret \<noteq> OB_SUCCESS then Some (ret, e1)
          else if addr_list old_list = [] \<and> length (addr_list new) = 1
          then map_option (\<lambda>e2. (OB_SUCCESS, e2)) (prepare E FOLLOWER e1)
          else Some (OB_SUCCESS, e1))"

end
