(* ===== verification/Election_Impl.thy ===== *)
theory Election_Impl
  imports Election_Proposer
begin

text \<open>
  The election object (\<^verbatim>\<open>algorithm/election_impl.{h,cpp}\<close>): start and stop, the handlers of the five
  messages, the calls of the layers above. A handler that schedules the devote task after it has
  released the lock does so in the same step. Counting messages for the monitor is left out.
\<close>

subsection \<open>Start and stop\<close>

text \<open>The codes are those of what \<^verbatim>\<open>init_and_start\<close> calls: initialising the books, assigning the two
  callbacks, scheduling the devote, the renew and the window task.\<close>

record start_codes =
  mls_init_ok :: bool
  prepare_cb_ret :: ob_ret
  role_cb_ret :: ob_ret
  devote_ret :: ob_ret
  renew_ret :: ob_ret
  window_ret :: ob_ret

definition proposer_start :: "start_codes \<Rightarrow> ElectionImpl \<Rightarrow> ob_ret \<times> ElectionImpl" where
  "proposer_start c e =
     (if devote_ret c \<noteq> OB_SUCCESS then (devote_ret c, e)
      else (renew_ret c, upd_p (\<lambda>p. p\<lparr>devote_task_delay := Some 3000000\<rparr>) e))"

definition acceptor_start :: "start_codes \<Rightarrow> ElectionImpl \<Rightarrow> ob_ret \<times> ElectionImpl" where
  "acceptor_start c e =
     (if window_ret c \<noteq> OB_SUCCESS then (window_ret c, e)
      else (OB_SUCCESS, upd_a (\<lambda>a. a\<lparr>last_record_lease_owner := None, last_record_lease_valid_state := False,
              window_task_delay := Some 250000\<rparr>) e))"

definition init_and_start ::
    "start_codes \<Rightarrow> int \<Rightarrow> bool \<Rightarrow> bool \<Rightarrow> ObAddr \<Rightarrow> u64 \<Rightarrow> int \<Rightarrow> ElectionImpl \<Rightarrow> ob_ret \<times> ElectionImpl" where
  "init_and_start c ls timer_given handler_given addr seed counter e =
     (if \<not> (handler_given \<and> timer_given) then (OB_INVALID_ARGUMENT, e)
      else if el_is_inited e then (OB_INIT_TWICE, e)
      else case proposer_init counter (mls_init_ok c) (proposer e) of (ret, p) \<Rightarrow>
        let e1 = e\<lparr>proposer := p\<rparr> in
        if ret \<noteq> OB_SUCCESS then (ret, e1)
        else if prepare_cb_ret c \<noteq> OB_SUCCESS then (prepare_cb_ret c, e1)
        else if role_cb_ret c \<noteq> OB_SUCCESS then (role_cb_ret c, e1)
        else
          case proposer_start c (e1\<lparr>el_ls_id := ls, self_addr := addr, inner_priority_seed := seed\<rparr>) of (ret, e2) \<Rightarrow>
            if ret \<noteq> OB_SUCCESS then (ret, e2)
            else case acceptor_start c e2 of (ret, e3) \<Rightarrow>
              if ret \<noteq> OB_SUCCESS then (ret, e3)
              else (OB_SUCCESS, e3\<lparr>el_is_inited := True, is_running := True\<rparr>))"

definition stop :: "el_env \<Rightarrow> ElectionImpl \<Rightarrow> ElectionImpl" where
  "stop E e =
     (let e1 = e\<lparr>has_priority := False\<rparr> in
      if \<not> el_is_inited e1 \<or> \<not> is_running e1 then e1
      else upd_a (\<lambda>a. a\<lparr>window_task_delay := None\<rparr>) (proposer_stop E (e1\<lparr>is_running := False\<rparr>)))"

subsection \<open>Messages\<close>

definition handle_message_base :: "'a ElectionMsgBase_scheme \<Rightarrow> ElectionImpl \<Rightarrow> ElectionImpl" where
  "handle_message_base m e = e\<lparr>biggest_version_ever_seen := max (biggest_version_ever_seen e) (msg_cluster_version m)\<rparr>"

definition check_election_init_and_start :: "ElectionImpl \<Rightarrow> ob_ret" where
  "check_election_init_and_start e =
     (if \<not> el_is_inited e then OB_NOT_INIT else if \<not> is_running e then OB_NOT_RUNNING else OB_SUCCESS)"

definition handle_prepare_request ::
    "el_env \<Rightarrow> ElectionPrepareRequestMsg \<Rightarrow> ElectionImpl \<Rightarrow> (ob_ret \<times> ElectionImpl) option" where
  "handle_prepare_request E msg e =
     (let e1 = handle_message_base msg e; ret = check_election_init_and_start e1 in
      if ret \<noteq> OB_SUCCESS then Some (ret, e1)
      else case (if msg_sender msg \<noteq> self_addr e1 then proposer_on_prepare_request E msg e1 else Some (False, e1)) of
        None \<Rightarrow> None
      | Some (need_register_devote_task, e2) \<Rightarrow>
          let e3 = acceptor_on_prepare_request E msg e2 in
          Some (if need_register_devote_task
                then reschedule_or_register_prepare_task_after E (CALCULATE_MAX_ELECT_COST_TIME (MAX_TST E)) e3
                else (OB_SUCCESS, e3)))"

definition handle_accept_request ::
    "el_env \<Rightarrow> ElectionAcceptRequestMsg \<Rightarrow> ElectionImpl \<Rightarrow> (ob_ret \<times> ElectionImpl) option" where
  "handle_accept_request E msg e =
     (let e1 = handle_message_base msg e; ret = check_election_init_and_start e1 in
      if ret \<noteq> OB_SUCCESS then Some (ret, e1)
      else case (if msg_ballot_number msg > pr_ballot_number (proposer e1)
                 then proposer_advance_ballot (msg_ballot_number msg) e1 else Some e1) of
        None \<Rightarrow> None
      | Some e2 \<Rightarrow>
          (case acceptor_on_accept_request E msg e2 of
             None \<Rightarrow> None
           | Some (e3, us_to_expired) \<Rightarrow>
               let delay = us_to_expired - CALCULATE_TRIGGER_ELECT_WATER_MARK (MAX_TST E) in
               Some (if us_to_expired > 0 \<and> delay \<ge> 0 then reschedule_or_register_prepare_task_after E delay e3
                     else (OB_SUCCESS, e3))))"

definition handle_prepare_response ::
    "el_env \<Rightarrow> ElectionPrepareResponseMsg \<Rightarrow> ElectionImpl \<Rightarrow> (ob_ret \<times> ElectionImpl) option" where
  "handle_prepare_response E msg e =
     (let e1 = handle_message_base msg e; ret = check_election_init_and_start e1 in
      if ret \<noteq> OB_SUCCESS then Some (ret, e1)
      else map_option (\<lambda>e2. (OB_SUCCESS, e2)) (on_prepare_response E msg e1))"

definition handle_accept_response ::
    "el_env \<Rightarrow> ElectionAcceptResponseMsg \<Rightarrow> ElectionImpl \<Rightarrow> (ob_ret \<times> ElectionImpl) option" where
  "handle_accept_response E msg e =
     (let e1 = handle_message_base msg e; ret = check_election_init_and_start e1 in
      if ret \<noteq> OB_SUCCESS then Some (ret, e1)
      else map_option (\<lambda>e2. (OB_SUCCESS, e2)) (on_accept_response E msg e1))"

definition handle_change_leader ::
    "el_env \<Rightarrow> ElectionChangeLeaderMsg \<Rightarrow> ElectionImpl \<Rightarrow> (ob_ret \<times> ElectionImpl) option" where
  "handle_change_leader E msg e =
     (let e1 = handle_message_base msg e; ret = check_election_init_and_start e1 in
      if ret \<noteq> OB_SUCCESS then Some (ret, e1)
      else map_option (\<lambda>e2. (OB_SUCCESS, e2)) (on_change_leader E msg e1))"

fun handle_message :: "el_env \<Rightarrow> ElectionMsg \<Rightarrow> ElectionImpl \<Rightarrow> (ob_ret \<times> ElectionImpl) option" where
  "handle_message E (PrepareRequest m) e = handle_prepare_request E m e"
| "handle_message E (PrepareResponse m) e = handle_prepare_response E m e"
| "handle_message E (AcceptRequest m) e = handle_accept_request E m e"
| "handle_message E (AcceptResponse m) e = handle_accept_response E m e"
| "handle_message E (ChangeLeader m) e = handle_change_leader E m e"

subsection \<open>Calls of the layers above\<close>

definition can_set_memberlist :: "el_env \<Rightarrow> LogConfigVersion \<Rightarrow> ElectionImpl \<Rightarrow> ob_ret" where
  "can_set_memberlist E version e =
     (if \<not> cv_is_valid version then OB_INVALID_ARGUMENT
      else if \<not> el_is_inited e then OB_NOT_INIT
      else proposer_can_set_memberlist E version e)"

definition set_memberlist :: "el_env \<Rightarrow> MemberList \<Rightarrow> ElectionImpl \<Rightarrow> (ob_ret \<times> ElectionImpl) option" where
  "set_memberlist E new e =
     (if \<not> ml_is_valid new then Some (OB_INVALID_ARGUMENT, e)
      else if \<not> el_is_inited e then Some (OB_NOT_INIT, e)
      else proposer_set_member_list E new e)"

definition change_leader_to :: "el_env \<Rightarrow> ObAddr \<Rightarrow> ElectionImpl \<Rightarrow> (ob_ret \<times> ElectionImpl) option" where
  "change_leader_to E dest_addr e =
     (if dest_addr = None then Some (OB_INVALID_ARGUMENT, e)
      else if \<not> el_is_inited e then Some (OB_NOT_INIT, e)
      else proposer_change_leader_to E dest_addr e)"

definition set_priority :: "bool \<Rightarrow> ElectionImpl \<Rightarrow> ob_ret \<times> ElectionImpl" where
  "set_priority given e =
     (if \<not> given then (OB_INVALID_ARGUMENT, e)
      else if has_priority e then (OB_ENTRY_EXIST, e)
      else (OB_SUCCESS, e\<lparr>has_priority := True\<rparr>))"

definition reset_priority :: "ElectionImpl \<Rightarrow> ob_ret \<times> ElectionImpl" where
  "reset_priority e = (if \<not> el_is_inited e then (OB_NOT_INIT, e) else (OB_SUCCESS, e\<lparr>has_priority := False\<rparr>))"

definition temporarily_downgrade_protocol_priority :: "el_env \<Rightarrow> int \<Rightarrow> ElectionImpl \<Rightarrow> ob_ret \<times> ElectionImpl" where
  "temporarily_downgrade_protocol_priority E time_us e =
     (if \<not> el_is_inited e then (OB_NOT_INIT, e)
      else (OB_SUCCESS, e\<lparr>downgrade_expire_ts := mono_ts E + time_us\<rparr>))"

definition add_inner_priority_seed_bit :: "u64 \<Rightarrow> ElectionImpl \<Rightarrow> ob_ret \<times> ElectionImpl" where
  "add_inner_priority_seed_bit new_bit e =
     (if \<not> el_is_inited e then (OB_NOT_INIT, e)
      else if inner_priority_seed e AND new_bit \<noteq> 0 then (OB_ENTRY_EXIST, e)
      else (OB_SUCCESS, e\<lparr>inner_priority_seed := inner_priority_seed e OR new_bit\<rparr>))"

definition clear_inner_priority_seed_bit :: "u64 \<Rightarrow> ElectionImpl \<Rightarrow> ob_ret \<times> ElectionImpl" where
  "clear_inner_priority_seed_bit old_bit e =
     (if \<not> el_is_inited e then (OB_NOT_INIT, e)
      else if inner_priority_seed e OR old_bit = 0 then (OB_ENTRY_NOT_EXIST, e)
      else (OB_SUCCESS, e\<lparr>inner_priority_seed := inner_priority_seed e AND NOT old_bit\<rparr>))"

definition set_inner_priority_seed :: "u64 \<Rightarrow> ElectionImpl \<Rightarrow> ob_ret \<times> ElectionImpl" where
  "set_inner_priority_seed seed e = (OB_SUCCESS, e\<lparr>inner_priority_seed := seed\<rparr>)"

subsection \<open>Who leads\<close>

definition get_role :: "el_env \<Rightarrow> ElectionImpl \<Rightarrow> ObRole \<times> int" where
  "get_role E e = (if check_leader E e then (LEADER, leader_epoch (proposer e)) else (FOLLOWER, 0))"

definition get_current_leader_likely :: "el_env \<Rightarrow> ElectionImpl \<Rightarrow> ObAddr \<times> int" where
  "get_current_leader_likely E e =
     (if check_leader E e then (self_addr e, leader_epoch (proposer e))
      else if \<not> lease_is_expired (mono_ts E) (ac_lease (acceptor e)) then
        let l = ac_lease (acceptor e) in
        if ls_owner l = self_addr e \<or> ls_owner l = None then (None, 0) else (ls_owner l, ls_ballot_number l)
      else (None, 0))"

end
