(* ===== verification/Election_Protocol.thy ===== *)
theory Election_Protocol
  imports Election_Define
begin

text \<open>
  The protocol the election implements, without its code: what an agent may do with its ballot, its
  votes, its promises and its lease, given the messages under way. The moves are weaker than the
  code's, so that every operation of the code is a sequence of them, and strong enough that two
  agents never hold a valid leader lease at the same time. Messages are never taken off the net:
  they may be lost, repeated and overtaken. The clock of agent \<open>n\<close> is the real time plus \<open>off n\<close>.
\<close>

datatype pmsg =
    Ask ObAddr int
  | Vote ObAddr ObAddr int Lease
  | Offer ObAddr int int int
  | Promise ObAddr ObAddr int int int
  | Handover ObAddr ObAddr int

record agent =
  ag_ballot :: int
  ag_success :: int
  ag_votes :: "ObAddr set"
  ag_promises :: "(ObAddr \<times> int) set"
  ag_lease :: int
  ag_source :: "ObAddr \<times> int"
  ag_aballot :: int
  ag_alease :: Lease

record pstate =
  p_time :: int
  p_agents :: "ObAddr \<Rightarrow> agent"
  p_net :: "pmsg set"

record cluster =
  cl_members :: "ObAddr set"
  cl_offset :: "ObAddr \<Rightarrow> int"

definition majority :: "cluster \<Rightarrow> ObAddr set \<Rightarrow> bool" where
  "majority c Q \<longleftrightarrow> Q \<subseteq> cl_members c \<and> card (cl_members c) < 2 * card Q"

definition free_lease :: "pmsg set \<Rightarrow> ObAddr \<Rightarrow> Lease \<Rightarrow> bool" where
  "free_lease N P l \<longleftrightarrow> ls_owner l = None \<or> ls_owner l = P \<or> Handover (ls_owner l) P (ls_ballot_number l) \<in> N"

definition backed :: "cluster \<Rightarrow> pmsg set \<Rightarrow> ObAddr \<Rightarrow> int \<Rightarrow> bool" where
  "backed c N P b \<longleftrightarrow> (\<exists>Q. majority c Q \<and> (\<forall>a\<in>Q. \<exists>l. Vote a P b l \<in> N \<and> free_lease N P l))"

subsection \<open>Moves\<close>

text \<open>\<open>move c T n (g, N) (g', N')\<close>: agent \<open>n\<close> goes from \<open>g\<close> to \<open>g'\<close> at time \<open>T\<close> and the net from \<open>N\<close> to \<open>N'\<close>.\<close>

inductive move :: "cluster \<Rightarrow> int \<Rightarrow> ObAddr \<Rightarrow> agent \<times> pmsg set \<Rightarrow> agent \<times> pmsg set \<Rightarrow> bool" for c T n where
  Advance: "ag_ballot g \<le> b \<Longrightarrow>
    move c T n (g, N) (g\<lparr>ag_ballot := b, ag_votes := {}, ag_promises := {}, ag_source := (None, - 1)\<rparr>, N)"
| Clear: "move c T n (g, N) (g\<lparr>ag_votes := {}, ag_promises := {}\<rparr>, N)"
| Unsource: "move c T n (g, N) (g\<lparr>ag_source := (None, - 1)\<rparr>, N)"
| Lapse: "v \<le> 0 \<Longrightarrow> move c T n (g, N) (g\<lparr>ag_lease := v\<rparr>, N)"
| Request: "0 \<le> ag_ballot g \<Longrightarrow> move c T n (g, N) (g, insert (Ask n (ag_ballot g)) N)"
| CountVote: "\<lbrakk>Vote a n (ag_ballot g) l \<in> N; a \<in> cl_members c;
     ls_owner l = None \<or> ls_owner l = n \<or> (ls_owner l, ls_ballot_number l) = ag_source g;
     V \<subseteq> insert a (ag_votes g)\<rbrakk> \<Longrightarrow> move c T n (g, N) (g\<lparr>ag_votes := V\<rparr>, N)"
| Succeed: "\<lbrakk>majority c Q; Q \<subseteq> ag_votes g\<rbrakk> \<Longrightarrow> move c T n (g, N) (g\<lparr>ag_success := ag_ballot g\<rparr>, N)"
| Propose: "0 \<le> ag_success g \<Longrightarrow>
     move c T n (g, N) (g, insert (Offer n (ag_success g) (T + cl_offset c n) d) N)"
| CountPromise: "\<lbrakk>Promise a n (ag_ballot g) s d \<in> N; a \<in> cl_members c; A \<subseteq> insert (a, s + d) (ag_promises g)\<rbrakk> \<Longrightarrow>
     move c T n (g, N) (g\<lparr>ag_promises := A\<rparr>, N)"
| Lead: "\<lbrakk>majority c Q; \<And>a. a \<in> Q \<Longrightarrow> \<exists>t\<ge>v. (a, t) \<in> ag_promises g\<rbrakk> \<Longrightarrow> move c T n (g, N) (g\<lparr>ag_lease := v\<rparr>, N)"
| Hand: "move c T n (g, N)
     (g\<lparr>ag_ballot := ag_ballot g + 1, ag_votes := {}, ag_promises := {}, ag_source := (None, - 1), ag_lease := - 1\<rparr>,
      insert (Handover n P (ag_ballot g)) N)"
| Inherit: "Handover X n ob \<in> N \<Longrightarrow> move c T n (g, N) (g\<lparr>ag_source := (X, ob)\<rparr>, N)"
| CastVote: "\<lbrakk>Ask P b \<in> N; ag_aballot g < b;
     l = ag_alease g \<or> lease_is_expired (T + cl_offset c n) (ag_alease g) \<and> l = lease_reset (ag_alease g)\<rbrakk> \<Longrightarrow>
     move c T n (g, N) (g\<lparr>ag_aballot := b, ag_alease := l\<rparr>, insert (Vote n P b l) N)"
| Expire: "lease_is_expired (T + cl_offset c n) (ag_alease g) \<Longrightarrow>
     move c T n (g, N) (g\<lparr>ag_alease := lease_reset (ag_alease g)\<rparr>, N)"
| Grant: "\<lbrakk>Offer P b s d \<in> N; ag_aballot g \<le> b; M \<subseteq> {Promise n P b s d}\<rbrakk> \<Longrightarrow>
     move c T n (g, N)
       (g\<lparr>ag_aballot := b, ag_alease := \<lparr>ls_owner = P, lease_end_ts = max (lease_end_ts (ag_alease g)) (T + cl_offset c n + d),
          ls_ballot_number = b\<rparr>\<rparr>, M \<union> N)"

definition agent_start :: agent where
  "agent_start = \<lparr>ag_ballot = - 1, ag_success = - 1, ag_votes = {}, ag_promises = {}, ag_lease = - 1,
     ag_source = (None, - 1), ag_aballot = - 1, ag_alease = lease_construct\<rparr>"

definition agent_moves :: "cluster \<Rightarrow> ObAddr \<Rightarrow> pstate \<Rightarrow> pstate \<Rightarrow> bool" where
  "agent_moves c n S S' \<longleftrightarrow> n \<noteq> None \<and>
     (\<exists>g' N'. move c (p_time S) n (p_agents S n, p_net S) (g', N')
        \<and> S' = S\<lparr>p_agents := (p_agents S)(n := g'), p_net := N'\<rparr>)"

definition time_passes :: "pstate \<Rightarrow> pstate \<Rightarrow> bool" where
  "time_passes S S' \<longleftrightarrow> (\<exists>t\<ge>p_time S. S' = S\<lparr>p_time := t\<rparr>)"

subsection \<open>Invariant\<close>

text \<open>What holds of the proposer's side of an agent, given time and net.\<close>

definition proposer_inv :: "cluster \<Rightarrow> int \<Rightarrow> ObAddr \<Rightarrow> agent \<Rightarrow> pmsg set \<Rightarrow> bool" where
  "proposer_inv c T n g N \<longleftrightarrow>
     (\<forall>b. Ask n b \<in> N \<longrightarrow> 0 \<le> b \<and> b \<le> ag_ballot g)
   \<and> (\<forall>b s d. Offer n b s d \<in> N \<longrightarrow> 0 \<le> b \<and> b \<le> ag_success g \<and> s \<le> T + cl_offset c n)
   \<and> ag_success g \<le> ag_ballot g
   \<and> (0 \<le> ag_success g \<longrightarrow> backed c N n (ag_success g))
   \<and> (\<forall>a\<in>ag_votes g. a \<in> cl_members c \<and> (\<exists>l. Vote a n (ag_ballot g) l \<in> N \<and> free_lease N n l))
   \<and> (\<forall>X ob. ag_source g = (X, ob) \<and> X \<noteq> None \<longrightarrow> Handover X n ob \<in> N)
   \<and> (\<forall>a t. (a, t) \<in> ag_promises g \<longrightarrow> a \<in> cl_members c \<and> (\<exists>s d. Promise a n (ag_ballot g) s d \<in> N \<and> t = s + d))
   \<and> (\<forall>P ob. Handover n P ob \<in> N \<longrightarrow> ob < ag_ballot g)
   \<and> (0 < ag_lease g \<longrightarrow> (\<exists>b Q. majority c Q \<and> (\<forall>a\<in>Q. \<exists>s d. Promise a n b s d \<in> N \<and> ag_lease g \<le> s + d)
        \<and> (\<forall>P ob. Handover n P ob \<in> N \<longrightarrow> ob < b)))"

text \<open>What holds of the acceptor's side.\<close>

definition acceptor_inv :: "cluster \<Rightarrow> int \<Rightarrow> ObAddr \<Rightarrow> agent \<Rightarrow> pmsg set \<Rightarrow> bool" where
  "acceptor_inv c T n g N \<longleftrightarrow>
     ls_ballot_number (ag_alease g) \<le> ag_aballot g
   \<and> (ls_owner (ag_alease g) \<noteq> None \<longrightarrow> (\<exists>s d. Offer (ls_owner (ag_alease g)) (ls_ballot_number (ag_alease g)) s d \<in> N))
   \<and> (\<forall>P b l. Vote n P b l \<in> N \<longrightarrow> b \<le> ag_aballot g)
   \<and> (\<forall>P b s d. Promise n P b s d \<in> N \<longrightarrow> b \<le> ls_ballot_number (ag_alease g)
        \<and> (T < s + d - cl_offset c P \<longrightarrow> ls_owner (ag_alease g) \<noteq> None
            \<and> s + d - cl_offset c P \<le> lease_end_ts (ag_alease g) - cl_offset c n))"

text \<open>What holds of the messages.\<close>

definition net_inv :: "cluster \<Rightarrow> int \<Rightarrow> pmsg set \<Rightarrow> bool" where
  "net_inv c T N \<longleftrightarrow>
     (\<forall>a P b l. Vote a P b l \<in> N \<longrightarrow> Ask P b \<in> N \<and> ls_ballot_number l < b)
   \<and> (\<forall>a P b l P' l'. Vote a P b l \<in> N \<and> Vote a P' b l' \<in> N \<longrightarrow> P = P')
   \<and> (\<forall>P b s d. Offer P b s d \<in> N \<longrightarrow> P \<noteq> None \<and> backed c N P b)
   \<and> (\<forall>a P b s d. Promise a P b s d \<in> N \<longrightarrow> Offer P b s d \<in> N)
   \<and> (\<forall>a P b s d P' b' l. Promise a P b s d \<in> N \<and> Vote a P' b' l \<in> N \<and> b < b' \<and> T < s + d - cl_offset c P
        \<longrightarrow> ls_owner l \<noteq> None \<and> b \<le> ls_ballot_number l \<and> (\<exists>s d. Offer (ls_owner l) (ls_ballot_number l) s d \<in> N))"

definition protocol_inv :: "cluster \<Rightarrow> pstate \<Rightarrow> bool" where
  "protocol_inv c S \<longleftrightarrow> net_inv c (p_time S) (p_net S)
     \<and> (\<forall>n. proposer_inv c (p_time S) n (p_agents S n) (p_net S) \<and> acceptor_inv c (p_time S) n (p_agents S n) (p_net S))"

subsection \<open>A growing net\<close>

lemma free_lease_mono: "\<lbrakk>free_lease N P l; N \<subseteq> N'\<rbrakk> \<Longrightarrow> free_lease N' P l"
  unfolding free_lease_def by blast

lemma backed_mono: "\<lbrakk>backed c N P b; N \<subseteq> N'\<rbrakk> \<Longrightarrow> backed c N' P b"
  unfolding backed_def by (meson free_lease_mono subsetD)

lemma proposer_inv_mono:
  assumes "proposer_inv c T n g N" "N \<subseteq> N'" "T \<le> T'"
    "\<And>b. Ask n b \<in> N' \<Longrightarrow> Ask n b \<in> N \<or> 0 \<le> b \<and> b \<le> ag_ballot g"
    "\<And>b s d. Offer n b s d \<in> N' \<Longrightarrow> Offer n b s d \<in> N \<or> 0 \<le> b \<and> b \<le> ag_success g \<and> s \<le> T' + cl_offset c n"
    "\<And>P ob. Handover n P ob \<in> N' \<Longrightarrow> Handover n P ob \<in> N \<or> ob < ag_ballot g \<and> ag_lease g \<le> 0"
    "ag_ballot g' = ag_ballot g" "ag_success g' = ag_success g" "ag_votes g' = ag_votes g" "ag_promises g' = ag_promises g"
    "ag_lease g' = ag_lease g" "ag_source g' = ag_source g"
  shows "proposer_inv c T' n g' N'"
  using assms(1) unfolding proposer_inv_def assms(7-)
  apply (elim conjE, intro conjI)
          apply (meson assms(4))
         apply (meson assms(3,5) add_mono_thms_linordered_semiring(3) order_trans)
        apply assumption
       apply (meson assms(2) backed_mono)
      apply (meson assms(2) free_lease_mono subsetD)
     apply (meson assms(2) subsetD)
    apply (meson assms(2) subsetD)
   apply (meson assms(6))
  apply (metis assms(2,6) subsetD not_less)
  done

lemma acceptor_inv_mono:
  assumes "acceptor_inv c T n g N" "N \<subseteq> N'" "T \<le> T'"
    "\<And>P b l. Vote n P b l \<in> N' \<Longrightarrow> Vote n P b l \<in> N" "\<And>P b s d. Promise n P b s d \<in> N' \<Longrightarrow> Promise n P b s d \<in> N"
    "ag_aballot g' = ag_aballot g" "ag_alease g' = ag_alease g"
  shows "acceptor_inv c T' n g' N'"
  using assms(1) unfolding acceptor_inv_def assms(6-)
  apply (elim conjE, intro conjI)
     apply assumption
    apply (meson assms(2) subsetD)
   apply (meson assms(4))
  apply (meson assms(3,5) le_less_trans)
  done

subsection \<open>Moves keep the invariant\<close>

lemmas move_cases [consumes 1, case_names Advance Clear Unsource Lapse Request CountVote Succeed Propose CountPromise
    Lead Hand Inherit CastVote Expire Grant] =
  move.cases[where ?a1.0 = "(g, N)" and ?a2.0 = "(g', N')" for g N g' N', simplified]

lemma move_grows: "move c T n (g, N) (g', N') \<Longrightarrow> N \<subseteq> N'"
  by (erule move_cases) auto

lemma move_senders:
  "\<lbrakk>move c T n (g, N) (g', N'); m \<noteq> n\<rbrakk> \<Longrightarrow>
     (Ask m b \<in> N' \<longleftrightarrow> Ask m b \<in> N) \<and> (Offer m b s d \<in> N' \<longleftrightarrow> Offer m b s d \<in> N)
   \<and> (Handover m P b \<in> N' \<longleftrightarrow> Handover m P b \<in> N) \<and> (Vote m P b l \<in> N' \<longleftrightarrow> Vote m P b l \<in> N)
   \<and> (Promise m P b s d \<in> N' \<longleftrightarrow> Promise m P b s d \<in> N)"
  by (erule move_cases) auto

lemma proposer_invD:
  assumes "proposer_inv c T n g N"
  shows "Ask n b \<in> N \<Longrightarrow> 0 \<le> b" "Ask n b \<in> N \<Longrightarrow> b \<le> ag_ballot g" "Offer n b s d \<in> N \<Longrightarrow> 0 \<le> b"
    "Offer n b s d \<in> N \<Longrightarrow> b \<le> ag_success g" "ag_success g \<le> ag_ballot g"
  using assms unfolding proposer_inv_def by (elim conjE, blast)+

lemma backed_by_votes:
  assumes "proposer_inv c T n g N" "majority c Q" "Q \<subseteq> ag_votes g"
  shows "backed c N n (ag_ballot g)"
  unfolding backed_def using assms by (intro exI[of _ Q]) (auto simp: proposer_inv_def)

lemma majority_nonempty: "majority c Q \<Longrightarrow> \<exists>a. a \<in> Q"
  by (cases "Q = {}") (auto simp: majority_def)

lemma count_vote_inv:
  assumes "proposer_inv c T n g N" "Vote a n (ag_ballot g) l \<in> N" "a \<in> cl_members c"
    "ls_owner l = None \<or> ls_owner l = n \<or> (ls_owner l, ls_ballot_number l) = ag_source g" "V \<subseteq> insert a (ag_votes g)"
  shows "proposer_inv c T n (g\<lparr>ag_votes := V\<rparr>) N"
proof -
  have "free_lease N n l"
    using assms(1,4) unfolding proposer_inv_def free_lease_def by (metis prod.inject)
  then show ?thesis using assms(1,2,3,5) unfolding proposer_inv_def
    by (elim conjE, intro conjI) (simp_all, blast)
qed

lemma count_promise_inv:
  assumes "proposer_inv c T n g N" "Promise a n (ag_ballot g) s d \<in> N" "a \<in> cl_members c"
    "A \<subseteq> insert (a, s + d) (ag_promises g)"
  shows "proposer_inv c T n (g\<lparr>ag_promises := A\<rparr>) N"
proof -
  have "a' \<in> cl_members c \<and> (\<exists>s d. Promise a' n (ag_ballot g) s d \<in> N \<and> t = s + d)" if "(a', t) \<in> A" for a' t
    using that assms unfolding proposer_inv_def by blast
  then show ?thesis using assms(1) unfolding proposer_inv_def by (elim conjE, intro conjI) simp_all
qed

lemma lead_inv:
  assumes "proposer_inv c T n g N" "majority c Q" "\<And>a. a \<in> Q \<Longrightarrow> \<exists>t\<ge>v. (a, t) \<in> ag_promises g"
  shows "proposer_inv c T n (g\<lparr>ag_lease := v\<rparr>) N"
proof -
  have "\<forall>a\<in>Q. \<exists>s d. Promise a n (ag_ballot g) s d \<in> N \<and> v \<le> s + d"
    using assms(1,3) unfolding proposer_inv_def by metis
  then show ?thesis using assms(1,2) unfolding proposer_inv_def
    by (elim conjE, intro conjI) (simp_all, blast)
qed

lemma move_proposer_inv:
  assumes "move c T n (g, N) (g', N')" "proposer_inv c T n g N"
  shows "proposer_inv c T n g' N'"
  using assms(1)
proof (cases rule: move_cases)
  case (CountVote a l V)
  then show ?thesis using count_vote_inv assms(2) by blast
next
  case (Lead Q v)
  then show ?thesis using lead_inv assms(2) by blast
next
  case (Succeed Q)
  then show ?thesis using assms(2) backed_by_votes[OF assms(2)] unfolding proposer_inv_def
    by (elim conjE, intro conjI) (simp_all, meson order_trans)
next
  case (Grant P b s d M)
  then show ?thesis by (intro proposer_inv_mono[OF assms(2)]) auto
next
  case (CastVote P b l)
  then show ?thesis by (intro proposer_inv_mono[OF assms(2)]) auto
next
  case Expire
  then show ?thesis by (intro proposer_inv_mono[OF assms(2)]) auto
next
  case (Advance b)
  then show ?thesis using assms(2) unfolding proposer_inv_def
    by (elim conjE, intro conjI) (simp_all, (meson order_trans le_less_trans less_le_trans)+)
next
  case Clear
  then show ?thesis using assms(2) unfolding proposer_inv_def by (elim conjE, intro conjI) simp_all
next
  case Unsource
  then show ?thesis using assms(2) unfolding proposer_inv_def by (elim conjE, intro conjI) simp_all
next
  case (Lapse v)
  then show ?thesis using assms(2) unfolding proposer_inv_def by (elim conjE, intro conjI) simp_all
next
  case (Inherit X ob)
  then show ?thesis using assms(2) unfolding proposer_inv_def by (elim conjE, intro conjI) simp_all
next
  case (CountPromise g a s d A)
  then show ?thesis using count_promise_inv assms(2) by blast
next
  case Request
  then show ?thesis by (intro proposer_inv_mono[OF assms(2)]) auto
next
  case (Propose d)
  then show ?thesis by (intro proposer_inv_mono[OF assms(2)]) auto
next
  case (Hand g1 P)
  let ?g = "g\<lparr>ag_ballot := ag_ballot g + 1, ag_votes := {}, ag_promises := {}, ag_source := (None, - 1), ag_lease := - 1\<rparr>"
  have "proposer_inv c T n ?g N"
    using assms(2) unfolding proposer_inv_def
    by (elim conjE, intro conjI) (simp_all, (meson order_trans zle_add1_eq_le less_imp_le)+)
  then show ?thesis by (rule proposer_inv_mono) (use Hand in auto)
qed

lemma cast_vote_inv:
  assumes "acceptor_inv c T n g N" "ag_aballot g < b"
    "l = ag_alease g \<or> lease_is_expired (T + cl_offset c n) (ag_alease g) \<and> l = lease_reset (ag_alease g)"
  shows "acceptor_inv c T n (g\<lparr>ag_aballot := b, ag_alease := l\<rparr>) (insert (Vote n P b l) N)"
proof -
  have l: "ls_ballot_number l = ls_ballot_number (ag_alease g)" using assms(3) by (auto simp: lease_reset_def)
  have same: "l = ag_alease g" if "Promise n P' b' s d \<in> N" "T < s + d - cl_offset c P'" for P' b' s d
  proof -
    have "s + d - cl_offset c P' \<le> lease_end_ts (ag_alease g) - cl_offset c n"
      using that assms(1) by (auto simp: acceptor_inv_def)
    then show ?thesis using assms(3) that(2) by (auto simp: lease_is_expired_def)
  qed
  have owner: "ls_owner l \<noteq> None \<Longrightarrow> l = ag_alease g" using assms(3) by (auto simp: lease_reset_def)
  have "ls_ballot_number l \<le> b" using assms(1,2) l by (simp add: acceptor_inv_def)
  moreover have "\<exists>s d. Offer (ls_owner l) (ls_ballot_number l) s d \<in> N" if "ls_owner l \<noteq> None"
    using that owner assms(1) unfolding acceptor_inv_def by metis
  moreover have "b' \<le> b" if "Vote n P' b' l' \<in> N" for P' b' l'
    using that assms(1,2) unfolding acceptor_inv_def by (meson less_imp_le order_trans)
  moreover have "b' \<le> ls_ballot_number l \<and> (T < s + d - cl_offset c P' \<longrightarrow> ls_owner l \<noteq> None
      \<and> s + d - cl_offset c P' \<le> lease_end_ts l - cl_offset c n)" if "Promise n P' b' s d \<in> N" for P' b' s d
    using that same[OF that] assms(1) l unfolding acceptor_inv_def by metis
  ultimately show ?thesis unfolding acceptor_inv_def by auto
qed

lemma expire_inv:
  assumes "acceptor_inv c T n g N" "lease_is_expired (T + cl_offset c n) (ag_alease g)"
  shows "acceptor_inv c T n (g\<lparr>ag_alease := lease_reset (ag_alease g)\<rparr>) N"
proof -
  have "\<not> T < s + d - cl_offset c P'" if "Promise n P' b' s d \<in> N" for P' b' s d
    using that assms by (force simp: acceptor_inv_def lease_is_expired_def)
  then show ?thesis using assms(1) unfolding acceptor_inv_def
    by (elim conjE, intro conjI) (simp_all add: lease_reset_def)
qed

lemma grant_inv:
  assumes "acceptor_inv c T n g N" "Offer P b s d \<in> N" "P \<noteq> None" "s \<le> T + cl_offset c P" "ag_aballot g \<le> b" "M \<subseteq> {Promise n P b s d}"
  shows "acceptor_inv c T n (g\<lparr>ag_aballot := b, ag_alease := \<lparr>ls_owner = P,
    lease_end_ts = max (lease_end_ts (ag_alease g)) (T + cl_offset c n + d), ls_ballot_number = b\<rparr>\<rparr>) (M \<union> N)"
proof -
  have "b' \<le> b \<and> (T < s' + d' - cl_offset c P' \<longrightarrow>
      s' + d' - cl_offset c P' \<le> max (lease_end_ts (ag_alease g)) (T + cl_offset c n + d) - cl_offset c n)"
    if "Promise n P' b' s' d' \<in> M \<union> N" for P' b' s' d'
  proof (cases "Promise n P' b' s' d' \<in> N")
    case True
    then show ?thesis using assms(1,5) by (fastforce simp: acceptor_inv_def)
  next
    case False
    then show ?thesis using that assms(4,6) by auto
  qed
  moreover have "\<And>P' b' l. Vote n P' b' l \<in> M \<union> N \<Longrightarrow> b' \<le> b"
    using assms(1,5,6) by (force simp: acceptor_inv_def)
  ultimately show ?thesis using assms(2,3) unfolding acceptor_inv_def by (intro conjI) (simp_all, blast)
qed

lemma move_acceptor_inv:
  assumes "move c T n (g, N) (g', N')" "acceptor_inv c T n g N" "\<And>P. proposer_inv c T P (G P) N" "net_inv c T N"
  shows "acceptor_inv c T n g' N'"
  using assms(1)
proof (cases rule: move_cases)
  case (CastVote P b l)
  then show ?thesis using cast_vote_inv assms(2) by blast
next
  case Expire
  then show ?thesis using expire_inv assms(2) by blast
next
  case (Grant P b s d N1 M)
  have "P \<noteq> None" using Grant assms(4) unfolding net_inv_def by blast
  moreover have "s \<le> T + cl_offset c P" using Grant assms(3)[of P] unfolding proposer_inv_def by blast
  ultimately show ?thesis using Grant grant_inv[OF assms(2)] by blast
qed (rule acceptor_inv_mono[OF assms(2)]; auto; fail)+

lemma net_inv_mono:
  assumes "net_inv c T N" "N \<subseteq> N'" "T \<le> T'"
    "\<And>a P b l. Vote a P b l \<in> N' \<Longrightarrow> Vote a P b l \<in> N" "\<And>a P b s d. Promise a P b s d \<in> N' \<Longrightarrow> Promise a P b s d \<in> N"
    "\<And>P b s d. Offer P b s d \<in> N' \<Longrightarrow> Offer P b s d \<in> N \<or> P \<noteq> None \<and> backed c N' P b"
  shows "net_inv c T' N'"
  using assms(1) unfolding net_inv_def
  apply (elim conjE, intro conjI)
      apply (meson assms(2,4) subsetD)
     apply (meson assms(4))
    apply (metis assms(2,6) backed_mono)
   apply (meson assms(2,5) subsetD)
  apply (meson assms(2,3,4,5) subsetD le_less_trans)
  done

lemma net_invD:
  assumes "net_inv c T N"
  shows "Vote a P b l \<in> N \<Longrightarrow> Ask P b \<in> N" "Vote a P b l \<in> N \<Longrightarrow> ls_ballot_number l < b"
    "\<lbrakk>Vote a P b l \<in> N; Vote a P' b l' \<in> N\<rbrakk> \<Longrightarrow> P = P'"
    "Offer P b s d \<in> N \<Longrightarrow> P \<noteq> None" "Offer P b s d \<in> N \<Longrightarrow> backed c N P b"
    "Promise a P b s d \<in> N \<Longrightarrow> Offer P b s d \<in> N"
    "\<lbrakk>Promise a P b s d \<in> N; Vote a P' b' l \<in> N; b < b'; T < s + d - cl_offset c P\<rbrakk> \<Longrightarrow>
       ls_owner l \<noteq> None \<and> b \<le> ls_ballot_number l \<and> (\<exists>s d. Offer (ls_owner l) (ls_ballot_number l) s d \<in> N)"
proof -
  note A = assms[unfolded net_inv_def]
  show "Vote a P b l \<in> N \<Longrightarrow> Ask P b \<in> N" "Vote a P b l \<in> N \<Longrightarrow> ls_ballot_number l < b" using A[THEN conjunct1] by simp_all
  note B = A[THEN conjunct2]
  show "\<lbrakk>Vote a P b l \<in> N; Vote a P' b l' \<in> N\<rbrakk> \<Longrightarrow> P = P'" using B[THEN conjunct1] by meson
  note C = B[THEN conjunct2]
  show "Offer P b s d \<in> N \<Longrightarrow> P \<noteq> None" "Offer P b s d \<in> N \<Longrightarrow> backed c N P b" using C[THEN conjunct1] by metis+
  show "Promise a P b s d \<in> N \<Longrightarrow> Offer P b s d \<in> N" using C[THEN conjunct2, THEN conjunct1] by meson
  show "\<lbrakk>Promise a P b s d \<in> N; Vote a P' b' l \<in> N; b < b'; T < s + d - cl_offset c P\<rbrakk> \<Longrightarrow>
       ls_owner l \<noteq> None \<and> b \<le> ls_ballot_number l \<and> (\<exists>s d. Offer (ls_owner l) (ls_ballot_number l) s d \<in> N)"
    using C[THEN conjunct2, THEN conjunct2] by meson
qed

lemma net_invI:
  assumes "\<And>a P b l. Vote a P b l \<in> N \<Longrightarrow> Ask P b \<in> N \<and> ls_ballot_number l < b"
    "\<And>a P b l P' l'. \<lbrakk>Vote a P b l \<in> N; Vote a P' b l' \<in> N\<rbrakk> \<Longrightarrow> P = P'"
    "\<And>P b s d. Offer P b s d \<in> N \<Longrightarrow> P \<noteq> None" "\<And>P b s d. Offer P b s d \<in> N \<Longrightarrow> backed c N P b"
    "\<And>a P b s d. Promise a P b s d \<in> N \<Longrightarrow> Offer P b s d \<in> N"
    "\<And>a P b s d P' b' l. \<lbrakk>Promise a P b s d \<in> N; Vote a P' b' l \<in> N; b < b'; T < s + d - cl_offset c P\<rbrakk> \<Longrightarrow>
       ls_owner l \<noteq> None \<and> b \<le> ls_ballot_number l \<and> (\<exists>s d. Offer (ls_owner l) (ls_ballot_number l) s d \<in> N)"
  shows "net_inv c T N"
  unfolding net_inv_def by (intro conjI; meson assms)

lemma cast_vote_net:
  assumes "net_inv c T N" "acceptor_inv c T n g N" "Ask P b \<in> N" "ag_aballot g < b"
    "l = ag_alease g \<or> lease_is_expired (T + cl_offset c n) (ag_alease g) \<and> l = lease_reset (ag_alease g)"
  shows "net_inv c T (insert (Vote n P b l) N)"
proof -
  let ?N = "insert (Vote n P b l) N"
  note a' = cast_vote_inv[OF assms(2,4,5), of P]
  have new: "b' < b" if "Vote n P' b' l' \<in> N" for P' b' l'
    using that assms(2,4) unfolding acceptor_inv_def by (meson le_less_trans)
  have l: "ls_ballot_number l < b" using assms(2,4,5) by (auto simp: acceptor_inv_def lease_reset_def)
  have 6: "ls_owner l' \<noteq> None \<and> b1 \<le> ls_ballot_number l' \<and> (\<exists>s d. Offer (ls_owner l') (ls_ballot_number l') s d \<in> ?N)"
    if "Promise a P1 b1 s d \<in> ?N" "Vote a P2 b2 l' \<in> ?N" "b1 < b2" "T < s + d - cl_offset c P1" for a P1 b1 s d P2 b2 l'
  proof (cases "Vote a P2 b2 l' \<in> N")
    case True
    then show ?thesis using net_invD(7)[OF assms(1), of a P1 b1 s d P2 b2 l'] that by auto
  next
    case False
    then have e: "a = n" "l' = l" using that by auto
    show ?thesis using a' that(1,4) unfolding acceptor_inv_def e by simp
  qed
  have 34: "P' \<noteq> None" "backed c ?N P' b'" if "Offer P' b' s d \<in> ?N" for P' b' s d
    using that net_invD(4,5)[OF assms(1)] backed_mono[of c N P' b' ?N] by auto
  have 5: "Offer P' b' s d \<in> ?N" if "Promise a P' b' s d \<in> ?N" for a P' b' s d
    using that net_invD(6)[OF assms(1)] by auto
  have 2: "P1 = P2" if "Vote a P1 b1 l1 \<in> ?N" "Vote a P2 b1 l2 \<in> ?N" for a P1 b1 l1 P2 l2
    using that new net_invD(3)[OF assms(1), of a P1 b1 l1 P2 l2] by auto
  have 1: "Ask P1 b1 \<in> ?N \<and> ls_ballot_number l1 < b1" if "Vote a P1 b1 l1 \<in> ?N" for a P1 b1 l1
    using that l assms(3) net_invD(1,2)[OF assms(1), of a P1 b1 l1] by auto
  show ?thesis by (rule net_invI) (fact 1 2 34 5 6)+
qed

lemma grant_net:
  assumes "net_inv c T N" "acceptor_inv c T n g N" "Offer P b s d \<in> N" "ag_aballot g \<le> b" "M \<subseteq> {Promise n P b s d}"
  shows "net_inv c T (M \<union> N)"
proof -
  have old: "Vote a P' b' l \<in> M \<union> N \<longleftrightarrow> Vote a P' b' l \<in> N" "Ask P' b' \<in> M \<union> N \<longleftrightarrow> Ask P' b' \<in> N"
    "Offer P' b' s' d' \<in> M \<union> N \<longleftrightarrow> Offer P' b' s' d' \<in> N" for a P' b' l s' d'
    using assms(5) by auto
  have 6: "ls_owner l' \<noteq> None \<and> b1 \<le> ls_ballot_number l' \<and> (\<exists>s d. Offer (ls_owner l') (ls_ballot_number l') s d \<in> N)"
    if "Promise a P1 b1 s1 d1 \<in> M \<union> N" "Vote a P2 b2 l' \<in> N" "b1 < b2" "T < s1 + d1 - cl_offset c P1"
    for a P1 b1 s1 d1 P2 b2 l'
  proof (cases "Promise a P1 b1 s1 d1 \<in> N")
    case True
    then show ?thesis using net_invD(7)[OF assms(1)] that by blast
  next
    case False
    then have "a = n" "b1 = b" using that(1) assms(5) by auto
    then have "b2 \<le> b1" using that(2) assms(2,4) unfolding acceptor_inv_def by force
    then show ?thesis using that(3) by simp
  qed
  have 5: "Offer P' b' s' d' \<in> N" if "Promise a P' b' s' d' \<in> M \<union> N" for a P' b' s' d'
    using that assms(3,5) net_invD(6)[OF assms(1)] by auto
  have 4: "backed c (M \<union> N) P' b'" if "Offer P' b' s' d' \<in> N" for P' b' s' d'
    using that net_invD(5)[OF assms(1)] backed_mono by blast
  show ?thesis by (rule net_invI; unfold old) (fact 4 5 6 net_invD(3,4)[OF assms(1)] | blast dest: net_invD(1,2)[OF assms(1)])+
qed

lemma move_net_inv:
  assumes "move c T n (g, N) (g', N')" "net_inv c T N" "acceptor_inv c T n g N" "proposer_inv c T n g N" "n \<noteq> None"
  shows "net_inv c T N'"
  using assms(1)
proof (cases rule: move_cases)
  case (CastVote P b l)
  then show ?thesis using cast_vote_net[OF assms(2,3)] by blast
next
  case (Grant P b s d N1 M)
  then show ?thesis using grant_net[OF assms(2,3)] by blast
next
  case (Propose d)
  have "backed c N n (ag_success g)" using Propose assms(4) unfolding proposer_inv_def by blast
  then have "backed c N' n (ag_success g)" using move_grows[OF assms(1)] by (rule backed_mono)
  then show ?thesis using Propose assms(5) by (intro net_inv_mono[OF assms(2)]) auto
qed (use assms(2) in \<open>simp; fail\<close> | rule net_inv_mono[OF assms(2)]; auto; fail)+

lemma agent_moves_inv:
  assumes "protocol_inv c S" "agent_moves c n S S'"
  shows "protocol_inv c S'"
proof -
  let ?T = "p_time S" let ?N = "p_net S" let ?G = "p_agents S"
  obtain g' N' where m: "move c ?T n (?G n, ?N) (g', N')" and S': "S' = S\<lparr>p_agents := ?G(n := g'), p_net := N'\<rparr>" and n: "n \<noteq> None"
    using assms(2) unfolding agent_moves_def by blast
  note i = assms(1)[unfolded protocol_inv_def]
  have "proposer_inv c ?T k (?G k) N' \<and> acceptor_inv c ?T k (?G k) N'" if "k \<noteq> n" for k
    using i move_grows[OF m] move_senders[OF m that]
    by (intro conjI proposer_inv_mono[of c ?T k "?G k" ?N N' ?T] acceptor_inv_mono[of c ?T k "?G k" ?N N' ?T]) auto
  moreover have "proposer_inv c ?T n g' N'" using move_proposer_inv[OF m] i by blast
  moreover have "acceptor_inv c ?T n g' N'" using move_acceptor_inv[OF m] i by blast
  moreover have "net_inv c ?T N'" using move_net_inv[OF m] i n by blast
  ultimately show ?thesis unfolding protocol_inv_def S' by simp
qed

lemma time_passes_inv: "\<lbrakk>protocol_inv c S; time_passes S S'\<rbrakk> \<Longrightarrow> protocol_inv c S'"
  unfolding protocol_inv_def time_passes_def
  by (elim conjE exE) (auto intro: proposer_inv_mono acceptor_inv_mono net_inv_mono)

subsection \<open>One leader\<close>

lemma majorities_meet:
  assumes "finite (cl_members c)" "majority c Q" "majority c Q'"
  obtains a where "a \<in> Q" "a \<in> Q'"
proof -
  have q: "Q \<subseteq> cl_members c" "Q' \<subseteq> cl_members c" "card (cl_members c) < 2 * card Q" "card (cl_members c) < 2 * card Q'"
    using assms(2,3) by (auto simp: majority_def)
  have "card (Q \<union> Q') \<le> card (cl_members c)" using q assms(1) by (intro card_mono) auto
  moreover have "card (Q \<union> Q') = card Q + card Q'" if "Q \<inter> Q' = {}"
    using that q assms(1) by (intro card_Un_disjoint) (auto intro: finite_subset)
  ultimately have "Q \<inter> Q' \<noteq> {}" using q by linarith
  then show ?thesis using that by blast
qed

lemma offer_unique:
  assumes "finite (cl_members c)" "net_inv c T N" "Offer P b s d \<in> N" "Offer P' b s' d' \<in> N"
  shows "P = P'"
proof -
  obtain Q where Q: "majority c Q" "\<And>a. a \<in> Q \<Longrightarrow> \<exists>l. Vote a P b l \<in> N"
    using net_invD(5)[OF assms(2,3)] unfolding backed_def by blast
  obtain Q' where Q': "majority c Q'" "\<And>a. a \<in> Q' \<Longrightarrow> \<exists>l. Vote a P' b l \<in> N"
    using net_invD(5)[OF assms(2,4)] unfolding backed_def by blast
  obtain a where "a \<in> Q" "a \<in> Q'" using majorities_meet[OF assms(1) Q(1) Q'(1)] .
  then show ?thesis using Q(2) Q'(2) net_invD(3)[OF assms(2)] by blast
qed

text \<open>A majority that has promised \<open>P\<close> under ballot \<open>b\<close> keeps every later ballot in \<open>P\<close>'s hands as
  long as the promises last, unless \<open>P\<close> has handed its leadership over.\<close>

lemma later_offer_same:
  assumes "finite (cl_members c)" "net_inv c T N" "majority c Q"
    "\<And>a. a \<in> Q \<Longrightarrow> \<exists>s d. Promise a P b s d \<in> N \<and> T < s + d - cl_offset c P" "\<And>P' ob. Handover P P' ob \<in> N \<Longrightarrow> ob < b"
  shows "Offer P' b' s' d' \<in> N \<Longrightarrow> b \<le> b' \<Longrightarrow> P' = P"
proof (induction "nat (b' - b)" arbitrary: P' b' s' d' rule: less_induct)
  case less
  obtain Q' where Q': "majority c Q'" "\<And>a. a \<in> Q' \<Longrightarrow> \<exists>l. Vote a P' b' l \<in> N \<and> free_lease N P' l"
    using net_invD(5)[OF assms(2) less.prems(1)] unfolding backed_def by blast
  obtain a where a: "a \<in> Q" "a \<in> Q'" using majorities_meet[OF assms(1,3) Q'(1)] .
  obtain s d where pr: "Promise a P b s d \<in> N" "T < s + d - cl_offset c P" using assms(4) a(1) by blast
  obtain l where v: "Vote a P' b' l \<in> N" "free_lease N P' l" using Q'(2) a(2) by blast
  show ?case
  proof (cases "b = b'")
    case True
    then show ?thesis using offer_unique[OF assms(1,2)] net_invD(6)[OF assms(2) pr(1)] less.prems(1) by blast
  next
    case False
    then have "b < b'" using less.prems(2) by simp
    then obtain s1 d1 where l: "ls_owner l \<noteq> None" "b \<le> ls_ballot_number l" "Offer (ls_owner l) (ls_ballot_number l) s1 d1 \<in> N"
      using net_invD(7)[OF assms(2) pr(1) v(1)] pr(2) by blast
    have "ls_ballot_number l < b'" using net_invD(2)[OF assms(2) v(1)] .
    then have "ls_owner l = P" using l less.hyps by (simp add: nat_less_iff)
    then show ?thesis using v(2) l(1,2) assms(5) unfolding free_lease_def by force
  qed
qed

definition leads :: "cluster \<Rightarrow> pstate \<Rightarrow> ObAddr \<Rightarrow> bool" where
  "leads c S P \<longleftrightarrow> p_time S + cl_offset c P < ag_lease (p_agents S P)"

lemma leader_backing:
  assumes "protocol_inv c S" "leads c S P" "0 \<le> p_time S + cl_offset c P"
  obtains b Q where "majority c Q" "\<And>P' ob. Handover P P' ob \<in> p_net S \<Longrightarrow> ob < b"
    "\<And>a. a \<in> Q \<Longrightarrow> \<exists>s d. Promise a P b s d \<in> p_net S \<and> p_time S < s + d - cl_offset c P"
proof -
  have "0 < ag_lease (p_agents S P)" using assms(2,3) by (simp add: leads_def)
  then obtain b Q where q: "majority c Q" "\<forall>P' ob. Handover P P' ob \<in> p_net S \<longrightarrow> ob < b"
      "\<forall>a\<in>Q. \<exists>s d. Promise a P b s d \<in> p_net S \<and> ag_lease (p_agents S P) \<le> s + d"
    using assms(1) unfolding protocol_inv_def proposer_inv_def by metis
  have "\<exists>s d. Promise a P b s d \<in> p_net S \<and> p_time S < s + d - cl_offset c P" if "a \<in> Q" for a
    using q(3) that assms(2) unfolding leads_def by fastforce
  then show ?thesis using that[OF q(1)] q(2) by blast
qed

lemma leader_unique:
  assumes "finite (cl_members c)" "protocol_inv c S" "leads c S P" "leads c S P'"
    "0 \<le> p_time S + cl_offset c P" "0 \<le> p_time S + cl_offset c P'"
  shows "P = P'"
proof -
  have net: "net_inv c (p_time S) (p_net S)" using assms(2) by (simp add: protocol_inv_def)
  obtain b Q where q: "majority c Q" "\<And>R ob. Handover P R ob \<in> p_net S \<Longrightarrow> ob < b"
    "\<And>a. a \<in> Q \<Longrightarrow> \<exists>s d. Promise a P b s d \<in> p_net S \<and> p_time S < s + d - cl_offset c P"
    using leader_backing[OF assms(2,3,5)] by metis
  obtain b' Q' where q': "majority c Q'" "\<And>R ob. Handover P' R ob \<in> p_net S \<Longrightarrow> ob < b'"
    "\<And>a. a \<in> Q' \<Longrightarrow> \<exists>s d. Promise a P' b' s d \<in> p_net S \<and> p_time S < s + d - cl_offset c P'"
    using leader_backing[OF assms(2,4,6)] by metis
  obtain s d where "Offer P b s d \<in> p_net S" using q net_invD(6)[OF net] majority_nonempty by metis
  moreover have "R = P'" if "Offer R k s d \<in> p_net S" "b' \<le> k" for R k s d
    using later_offer_same[OF assms(1) net q'(1) q'(3) q'(2) that] .
  moreover obtain s' d' where "Offer P' b' s' d' \<in> p_net S" using q' net_invD(6)[OF net] majority_nonempty by metis
  moreover have "R = P" if "Offer R k s d \<in> p_net S" "b \<le> k" for R k s d
    using later_offer_same[OF assms(1) net q(1) q(3) q(2) that] .
  ultimately show ?thesis by (metis nle_le)
qed

end
