(* ===== verification/Election_Refinement.thy ===== *)
theory Election_Refinement
  imports Election_Impl Election_Protocol
begin

text \<open>
  The election object implements the protocol: an abstraction maps a server and the messages it has
  sent to an agent and its messages, and every operation of the code is a sequence of moves of that
  agent. At the same time no operation aborts and each keeps the server well formed. The members
  are fixed: the list of a server is either still unset or that of the cluster, in any version.
\<close>

record el_cluster =
  ec_members :: "ObAddr list"
  ec_offset :: "ObAddr \<Rightarrow> int"
  ec_counter :: "ObAddr \<Rightarrow> int"

definition cl :: "el_cluster \<Rightarrow> cluster" where
  "cl c = \<lparr>cl_members = set (ec_members c), cl_offset = ec_offset c\<rparr>"

lemma cl_simps [simp]: "cl_members (cl c) = set (ec_members c)" "cl_offset (cl c) = ec_offset c"
  by (simp_all add: cl_def)

subsection \<open>Abstraction\<close>

fun abs_msg :: "ElectionMsg \<Rightarrow> pmsg set" where
  "abs_msg (PrepareRequest m) = {Ask (msg_sender m) (msg_ballot_number m)}"
| "abs_msg (PrepareResponse m) =
     (if prs_accepted m then {Vote (msg_sender m) (msg_receiver m) (msg_ballot_number m) (prs_lease m)} else {})"
| "abs_msg (AcceptRequest m) =
     {Offer (msg_sender m) (msg_ballot_number m) (arq_lease_start_ts_on_proposer m) (arq_lease_interval m)}"
| "abs_msg (AcceptResponse m) =
     (if ars_accepted m then {Promise (msg_sender m) (msg_receiver m) (msg_ballot_number m)
        (ars_lease_started_ts_on_proposer m) (ars_lease_interval m)} else {})"
| "abs_msg (ChangeLeader m) = {Handover (msg_sender m) (msg_receiver m) (clm_switch_source_leader_ballot m)}"

definition abs_net :: "ElectionImpl \<Rightarrow> pmsg set" where
  "abs_net e = (\<Union>m\<in>set (sent_msgs e). abs_msg m)"

definition book_votes :: "MemberListWithStates \<Rightarrow> ObAddr set" where
  "book_votes s = {addr_list (member_list s) ! i | i. i < length (prepare_ok s) \<and> prepare_ok s ! i}"

definition book_promises :: "MemberListWithStates \<Rightarrow> (ObAddr \<times> int) set" where
  "book_promises s = {(addr_list (member_list s) ! i, accept_ok s ! i) | i. i < length (accept_ok s) \<and> accept_ok s ! i \<noteq> 0}"

definition abs_agent :: "ElectionImpl \<Rightarrow> agent" where
  "abs_agent e =
     \<lparr>ag_ballot = pr_ballot_number (proposer e), ag_success = prepare_success_ballot (proposer e),
      ag_votes = book_votes (memberlist_with_states (proposer e)),
      ag_promises = book_promises (memberlist_with_states (proposer e)), ag_lease = leader_lease (proposer e),
      ag_source = (switch_source_leader_addr (proposer e), switch_source_leader_ballot (proposer e)),
      ag_aballot = ac_ballot_number (acceptor e), ag_alease = ac_lease (acceptor e)\<rparr>"

definition lift :: "pstate \<Rightarrow> ObAddr \<Rightarrow> ElectionImpl \<Rightarrow> pstate" where
  "lift S n e = S\<lparr>p_agents := (p_agents S)(n := abs_agent e), p_net := p_net S \<union> abs_net e\<rparr>"

subsection \<open>Well-formed servers\<close>

fun msg_ok :: "el_cluster \<Rightarrow> ElectionMsg \<Rightarrow> bool" where
  "msg_ok c (PrepareRequest m) \<longleftrightarrow> msg_restart_counter m = ec_counter c (msg_sender m)"
| "msg_ok c (PrepareResponse m) \<longleftrightarrow> msg_restart_counter m = ec_counter c (msg_receiver m)"
| "msg_ok c (AcceptRequest m) \<longleftrightarrow> msg_restart_counter m = ec_counter c (msg_sender m)"
| "msg_ok c (AcceptResponse m) \<longleftrightarrow> msg_restart_counter m = ec_counter c (msg_receiver m)"
| "msg_ok c (ChangeLeader m) \<longleftrightarrow> msg_ballot_number m = clm_switch_source_leader_ballot m + 1
     \<and> 0 \<le> msg_ballot_number m"

definition books_ok :: "el_cluster \<Rightarrow> MemberListWithStates \<Rightarrow> bool" where
  "books_ok c s \<longleftrightarrow>
     (addr_list (member_list s) = [] \<and> replica_num (member_list s) = 0
      \<or> addr_list (member_list s) = ec_members c \<and> replica_num (member_list s) = length (ec_members c))
   \<and> length (prepare_ok s) = replica_num (member_list s) \<and> length (accept_ok s) = replica_num (member_list s)
   \<and> length (renewed_version s) = replica_num (member_list s)"

definition server_wf :: "el_cluster \<Rightarrow> ObAddr \<Rightarrow> pmsg set \<Rightarrow> ElectionImpl \<Rightarrow> bool" where
  "server_wf c n N e \<longleftrightarrow>
     self_addr e = n \<and> books_ok c (memberlist_with_states (proposer e))
   \<and> (pr_role (proposer e) = LEADER \<or> pr_role (proposer e) = FOLLOWER) \<and> (pr_role (proposer e) = LEADER \<longrightarrow> 0 \<le> prepare_success_ballot (proposer e))
   \<and> - 1 \<le> pr_ballot_number (proposer e) \<and> restart_counter (proposer e) = ec_counter c n
   \<and> (\<forall>m\<in>set (sent_msgs e). msg_ok c m)
   \<and> (let req = highest_priority_prepare_req (acceptor e) in msg_ballot_number req \<noteq> - 1 \<longrightarrow>
        Ask (msg_sender req) (msg_ballot_number req) \<in> N \<and> msg_restart_counter req = ec_counter c (msg_sender req))
   \<and> - 1 \<le> ac_ballot_number (acceptor e)"

definition in_order :: "el_cluster \<Rightarrow> pstate \<Rightarrow> ObAddr \<Rightarrow> ElectionImpl \<Rightarrow> bool" where
  "in_order c S n e \<longleftrightarrow> protocol_inv (cl c) (lift S n e) \<and> server_wf c n (p_net S \<union> abs_net e) e \<and> n \<noteq> None
     \<and> ec_members c \<noteq> [] \<and> distinct (ec_members c)"

definition goes :: "el_cluster \<Rightarrow> pstate \<Rightarrow> ObAddr \<Rightarrow> ElectionImpl \<Rightarrow> ElectionImpl \<Rightarrow> bool" where
  "goes c S n e e' \<longleftrightarrow> in_order c S n e' \<and> (agent_moves (cl c) n)\<^sup>*\<^sup>* (lift S n e) (lift S n e')"

subsection \<open>Chaining\<close>

lemma goes_trans: "\<lbrakk>goes c S n e e1; goes c S n e1 e2\<rbrakk> \<Longrightarrow> goes c S n e e2"
  by (auto simp: goes_def)

lemma goes_ok: "goes c S n e e' \<Longrightarrow> in_order c S n e'"
  by (simp add: goes_def)

lemma goes_refl: "in_order c S n e \<Longrightarrow> goes c S n e e"
  by (simp add: goes_def)

lemma goes_stutter:
  assumes "in_order c S n e" "abs_agent e' = abs_agent e" "abs_net e' = abs_net e" "server_wf c n (p_net S \<union> abs_net e) e'"
  shows "goes c S n e e'"
proof -
  have "lift S n e' = lift S n e" by (simp add: lift_def assms(2,3))
  then show ?thesis using assms(1,3,4) by (simp add: goes_def in_order_def)
qed

lemma goes_move:
  assumes "in_order c S n e" "move (cl c) (p_time S) n (abs_agent e, p_net S \<union> abs_net e) (abs_agent e', p_net S \<union> abs_net e')"
    "server_wf c n (p_net S \<union> abs_net e') e'"
  shows "goes c S n e e'"
proof -
  have m: "agent_moves (cl c) n (lift S n e) (lift S n e')"
    unfolding agent_moves_def using assms(1,2)
    by (intro conjI exI[of _ "abs_agent e'"] exI[of _ "p_net S \<union> abs_net e'"]) (auto simp: in_order_def lift_def)
  then have "protocol_inv (cl c) (lift S n e')" using assms(1) agent_moves_inv by (auto simp: in_order_def)
  then show ?thesis using assms(1,3) m by (auto simp: goes_def in_order_def)
qed

lemma abs_net_same [simp]: "abs_net (e\<lparr>proposer := p\<rparr>) = abs_net e" "abs_net (e\<lparr>acceptor := a\<rparr>) = abs_net e"
    "abs_net (e\<lparr>role_changes := r\<rparr>) = abs_net e"
  by (simp_all add: abs_net_def)

lemma abs_net_send [simp]: "abs_net (send_msg m e) = abs_msg m \<union> abs_net e"
  by (auto simp: abs_net_def send_msg_def)

lemma abs_net_broadcast [simp]:
  "abs_net (broadcast m e) = (\<Union>dst\<in>set (addr_list (pr_member_list e)). abs_msg (m dst)) \<union> abs_net e"
  by (auto simp: abs_net_def broadcast_def)

lemma abs_agent_send [simp]: "abs_agent (send_msg m e) = abs_agent e" "abs_agent (broadcast f e) = abs_agent e"
  by (simp_all add: abs_agent_def send_msg_def broadcast_def)

lemma server_wf_send [simp]:
  "server_wf c n N (send_msg m e) \<longleftrightarrow> msg_ok c m \<and> server_wf c n N e"
  by (auto simp: server_wf_def send_msg_def Let_def)

lemma server_wf_broadcast [simp]:
  "server_wf c n N (broadcast f e) \<longleftrightarrow> (\<forall>dst\<in>set (addr_list (pr_member_list e)). msg_ok c (f dst)) \<and> server_wf c n N e"
  by (auto simp: server_wf_def broadcast_def Let_def)

lemma server_wf_mono: "\<lbrakk>server_wf c n N e; N \<subseteq> N'\<rbrakk> \<Longrightarrow> server_wf c n N' e"
  by (auto simp: server_wf_def Let_def)

lemma book_votes_clear [simp]:
  "book_votes (clear_prepare_and_accept_states s) = {}" "book_promises (clear_prepare_and_accept_states s) = {}"
  by (auto simp: book_votes_def book_promises_def clear_prepare_and_accept_states_def)

lemma books_ok_clear [simp]: "books_ok c s \<Longrightarrow> books_ok c (clear_prepare_and_accept_states s)"
  by (simp add: books_ok_def clear_prepare_and_accept_states_def)

lemma member_list_clear [simp]: "member_list (clear_prepare_and_accept_states s) = member_list s"
  by (simp add: clear_prepare_and_accept_states_def)

subsection \<open>Proposer: ballots and leases\<close>

lemma okD:
  assumes "in_order c S n e"
  shows "n \<noteq> None" "self_addr e = n" "books_ok c (memberlist_with_states (proposer e))"
    "pr_role (proposer e) = LEADER \<or> pr_role (proposer e) = FOLLOWER" "pr_role (proposer e) = LEADER \<Longrightarrow> 0 \<le> prepare_success_ballot (proposer e)"
    "- 1 \<le> pr_ballot_number (proposer e)" "restart_counter (proposer e) = ec_counter c n"
    "prepare_success_ballot (proposer e) \<le> pr_ballot_number (proposer e)"
    "server_wf c n (p_net S \<union> abs_net e) e" "- 1 \<le> ac_ballot_number (acceptor e)"
    "ls_ballot_number (ac_lease (acceptor e)) \<le> ac_ballot_number (acceptor e)"
    "proposer_inv (cl c) (p_time S) n (abs_agent e) (p_net S \<union> abs_net e)"
    "net_inv (cl c) (p_time S) (p_net S \<union> abs_net e)"
proof -
  show i: "proposer_inv (cl c) (p_time S) n (abs_agent e) (p_net S \<union> abs_net e)"
    using assms unfolding in_order_def protocol_inv_def lift_def by (auto dest: spec[of _ n])
  show "net_inv (cl c) (p_time S) (p_net S \<union> abs_net e)"
    using assms unfolding in_order_def protocol_inv_def lift_def by simp
  show "prepare_success_ballot (proposer e) \<le> pr_ballot_number (proposer e)"
    using i unfolding proposer_inv_def by (simp add: abs_agent_def Let_def)
  have "acceptor_inv (cl c) (p_time S) n (abs_agent e) (p_net S \<union> abs_net e)"
    using assms unfolding in_order_def protocol_inv_def lift_def by (auto dest: spec[of _ n])
  then show "ls_ballot_number (ac_lease (acceptor e)) \<le> ac_ballot_number (acceptor e)"
    unfolding acceptor_inv_def by (simp add: abs_agent_def Let_def)
qed (use assms in \<open>simp_all add: in_order_def server_wf_def Let_def\<close>)

lemma advance_goes:
  assumes "in_order c S n e" "pr_ballot_number (proposer e) \<le> b"
  obtains e' where "proposer_advance_ballot b e = Some e'" "goes c S n e e'" "pr_ballot_number (proposer e') = b"
    "pr_role (proposer e') = pr_role (proposer e)" "pr_member_list e' = pr_member_list e"
    "leader_lease (proposer e') = leader_lease (proposer e)" "self_addr e' = self_addr e"
    "prepare_success_ballot (proposer e') = prepare_success_ballot (proposer e)" "acceptor e' = acceptor e"
proof -
  let ?e = "upd_p (\<lambda>p. p\<lparr>pr_ballot_number := b, memberlist_with_states := clear_prepare_and_accept_states (memberlist_with_states p),
    switch_source_leader_ballot := INVALID_VALUE, switch_source_leader_addr := None\<rparr>) e"
  have "move (cl c) (p_time S) n (abs_agent e, p_net S \<union> abs_net e) (abs_agent ?e, p_net S \<union> abs_net ?e)"
    using Advance[of "abs_agent e" b] assms(2) by (simp add: abs_agent_def INVALID_VALUE_def Let_def)
  then have "goes c S n e ?e"
    using assms okD[OF assms(1)] by (intro goes_move) (auto simp: server_wf_def Let_def)
  then show ?thesis using that[of ?e] assms(2) by (simp add: proposer_advance_ballot_def)
qed

lemma revoke_goes:
  assumes "in_order c S n e"
  shows "goes c S n e (snd (leader_revoke_if_lease_expired E reason e))"
proof (cases "pr_role (proposer e) = LEADER \<and> \<not> check_leader E e")
  case True
  let ?e1 = "upd_p (\<lambda>p. p\<lparr>pr_role := FOLLOWER, memberlist_with_states := clear_prepare_and_accept_states (memberlist_with_states p)\<rparr>)
    (e\<lparr>role_changes := role_changes e @ [(LEADER, FOLLOWER, reason)]\<rparr>)"
  have "move (cl c) (p_time S) n (abs_agent e, p_net S \<union> abs_net e) (abs_agent ?e1, p_net S \<union> abs_net ?e1)"
    using Clear[of "cl c" "p_time S" n "abs_agent e"] by (simp add: abs_agent_def Let_def)
  then have 1: "goes c S n e ?e1"
    using assms okD[OF assms(1)] by (intro goes_move) (auto simp: server_wf_def Let_def)
  let ?e2 = "upd_p lease_and_epoch_reset ?e1"
  have "move (cl c) (p_time S) n (abs_agent ?e1, p_net S \<union> abs_net ?e1) (abs_agent ?e2, p_net S \<union> abs_net ?e2)"
    using Lapse[of "- 1" "cl c" "p_time S" n "abs_agent ?e1"] by (simp add: abs_agent_def lease_and_epoch_reset_def INVALID_VALUE_def Let_def)
  then have 2: "goes c S n ?e1 ?e2"
    using okD(9)[OF goes_ok[OF 1]] by (intro goes_move goes_ok[OF 1]) (auto simp: server_wf_def lease_and_epoch_reset_def Let_def)
  have "snd (leader_revoke_if_lease_expired E reason e) = ?e2"
    using True by (simp add: leader_revoke_if_lease_expired_def)
  then show ?thesis using goes_trans[OF 1 2] by simp
qed (auto simp: leader_revoke_if_lease_expired_def goes_refl assms)

lemma lapse_goes:
  assumes "in_order c S n e"
  shows "goes c S n e (upd_p lease_and_epoch_reset e)"
proof -
  have "move (cl c) (p_time S) n (abs_agent e, p_net S \<union> abs_net e)
      (abs_agent (upd_p lease_and_epoch_reset e), p_net S \<union> abs_net (upd_p lease_and_epoch_reset e))"
    using Lapse[of "- 1" "cl c" "p_time S" n "abs_agent e"] by (simp add: abs_agent_def lease_and_epoch_reset_def INVALID_VALUE_def Let_def)
  then show ?thesis
    using assms okD(9)[OF assms] by (intro goes_move) (auto simp: server_wf_def lease_and_epoch_reset_def Let_def)
qed

lemma propose_wf: "server_wf c n N e \<Longrightarrow> server_wf c n N (propose E e)"
proof -
  assume w: "server_wf c n N e"
  then have "self_addr e = n" "restart_counter (proposer e) = ec_counter c n" by (simp_all add: server_wf_def)
  moreover have "server_wf c n N (upd_p (\<lambda>p. p\<lparr>record_lease_interval := i\<rparr>) e)" for i
    using w by (simp add: server_wf_def)
  ultimately show ?thesis using w by (simp add: propose_def Let_def)
qed

lemma propose_goes:
  assumes "in_order c S n e" "0 \<le> prepare_success_ballot (proposer e)" "mono_ts E = p_time S + ec_offset c n"
  shows "goes c S n e (propose E e)"
proof -
  let ?e1 = "if CALCULATE_LEASE_INTERVAL (MAX_TST E) \<noteq> record_lease_interval (proposer e)
    then upd_p (\<lambda>p. p\<lparr>record_lease_interval := CALCULATE_LEASE_INTERVAL (MAX_TST E)\<rparr>) e else e"
  have e1: "abs_agent ?e1 = abs_agent e" "abs_net ?e1 = abs_net e" "pr_member_list ?e1 = pr_member_list e"
    by (simp_all add: abs_agent_def)
  show ?thesis
  proof (cases "addr_list (pr_member_list e) = []")
    case True
    then show ?thesis using propose_wf[OF okD(9)[OF assms(1)]] by (intro goes_stutter[OF assms(1)]) (simp_all add: propose_def Let_def e1)
  next
    case False
    let ?o = "Offer n (prepare_success_ballot (proposer e)) (p_time S + ec_offset c n) (CALCULATE_LEASE_INTERVAL (MAX_TST E))"
    have net: "abs_net (propose E e) = insert ?o (abs_net e)"
      using False assms(3) okD(2)[OF assms(1)] by (auto simp: propose_def Let_def e1)
    have "server_wf c n (insert ?o (p_net S \<union> abs_net e)) (propose E e)"
      using propose_wf[OF server_wf_mono[OF okD(9)[OF assms(1)]], of "insert ?o (p_net S \<union> abs_net e)"] by blast
    moreover have "abs_agent (propose E e) = abs_agent e" by (simp add: propose_def Let_def e1)
    moreover have "move (cl c) (p_time S) n (abs_agent e, p_net S \<union> abs_net e) (abs_agent e, insert ?o (p_net S \<union> abs_net e))"
      using Propose[of "abs_agent e" "cl c" "p_time S" n "p_net S \<union> abs_net e"] assms(2) by (simp add: abs_agent_def Let_def)
    ultimately show ?thesis using assms(1) net by (intro goes_move) simp_all
  qed
qed

lemma books_empty_or:
  assumes "in_order c S n e" "addr_list (pr_member_list e) \<noteq> []"
  shows "addr_list (pr_member_list e) = ec_members c" "replica_num (pr_member_list e) = length (ec_members c)"
  using okD(3)[OF assms(1)] assms(2) by (auto simp: books_ok_def)

lemma takeover_goes:
  assumes "in_order c S n e" "0 \<le> prepare_success_ballot (proposer e)" "mono_ts E = p_time S + ec_offset c n"
  shows "goes c S n e (snd (leader_takeover_if_lease_valid E reason e))"
proof -
  let ?e1 = "upd_p (\<lambda>p. (cache_reset p)\<lparr>pr_role := LEADER\<rparr>) (e\<lparr>role_changes := role_changes e @ [(FOLLOWER, LEADER, reason)]\<rparr>)"
  have 1: "goes c S n e ?e1" using okD(9)[OF assms(1)] assms(2)
    by (intro goes_stutter[OF assms(1)]) (simp_all add: abs_agent_def cache_reset_def server_wf_def)
  have "goes c S n ?e1 (propose E ?e1)"
    using assms by (intro propose_goes goes_ok[OF 1]) (simp_all add: cache_reset_def)
  from goes_trans[OF 1 this] show ?thesis by (auto simp: leader_takeover_if_lease_valid_def goes_refl assms(1))
qed

subsection \<open>Proposer: asking for votes\<close>

lemma broadcast_prepare_goes:
  assumes "in_order c S n e" "0 \<le> pr_ballot_number (proposer e)"
  shows "goes c S n e (snd (broadcast_prepare E role e))"
proof -
  obtain ret req where req: "prq_set (get_priority E e) role (new_prepare_request E e) = (ret, req)" by fastforce
  have r: "msg_sender req = n" "msg_ballot_number req = pr_ballot_number (proposer e)" "msg_restart_counter req = ec_counter c n"
    using req okD(2,7)[OF assms(1)]
    by (auto simp: prq_set_def new_prepare_request_def Let_def split: option.splits prod.splits if_splits)
  show ?thesis
  proof (cases "ret = OB_SUCCESS \<and> addr_list (pr_member_list e) \<noteq> []")
    case True
    let ?a = "Ask n (pr_ballot_number (proposer e))" let ?e = "broadcast (\<lambda>dst. PrepareRequest (req\<lparr>msg_receiver := dst\<rparr>)) e"
    have net: "abs_net ?e = insert ?a (abs_net e)" using True r by auto
    have "move (cl c) (p_time S) n (abs_agent e, p_net S \<union> abs_net e) (abs_agent e, insert ?a (p_net S \<union> abs_net e))"
      using Request[of "abs_agent e"] assms(2) by (simp add: abs_agent_def)
    then have "goes c S n e ?e"
      using net r server_wf_mono[OF okD(9)[OF assms(1)], of "insert ?a (p_net S \<union> abs_net e)"]
      by (intro goes_move[OF assms(1)]) auto
    then show ?thesis using True req by (simp add: broadcast_prepare_def)
  next
    case False
    then show ?thesis using req okD(9)[OF assms(1)]
      by (cases "ret = OB_SUCCESS") (auto simp: broadcast_prepare_def goes_refl assms(1) intro!: goes_stutter[OF assms(1)])
  qed
qed

lemma broadcast_prepare_keeps:
  "proposer (snd (broadcast_prepare E role e)) = proposer e" "acceptor (snd (broadcast_prepare E role e)) = acceptor e"
  "self_addr (snd (broadcast_prepare E role e)) = self_addr e"
  by (auto simp: broadcast_prepare_def broadcast_def split: prod.splits)

lemma irrelevant_goes:
  assumes "in_order c S n e"
  shows "goes c S n e (upd_p (\<lambda>p. p\<lparr>last_do_prepare_ts := t\<rparr>) e)" "goes c S n e (upd_p (\<lambda>p. p\<lparr>devote_task_delay := d\<rparr>) e)"
    "goes c S n e (upd_p (cache_check_expired E) e)" "goes c S n e (upd_p (cache_set E m) e)"
    "goes c S n e (upd_a (\<lambda>a. a\<lparr>is_time_window_opened := w\<rparr>) e)"
    "goes c S n e (upd_a (\<lambda>a. a\<lparr>last_record_lease_owner := ow\<rparr>) e)"
    "goes c S n e (upd_a (\<lambda>a. a\<lparr>last_record_lease_valid_state := v\<rparr>) e)"
  using okD(9)[OF assms]
  by (intro goes_stutter[OF assms]; auto simp: abs_agent_def server_wf_def cache_check_expired_def cache_reset_def cache_set_def Let_def)+

lemma prepare_goes:
  assumes "in_order c S n e" "role = LEADER \<or> role = FOLLOWER" "role = LEADER \<Longrightarrow> 0 \<le> pr_ballot_number (proposer e)"
  obtains e' where "prepare E role e = Some e'" "goes c S n e e'" "acceptor e' = acceptor e"
proof -
  let ?e1 = "upd_p (\<lambda>p. p\<lparr>last_do_prepare_ts := clock_ts E\<rparr>) e"
  note 1 = irrelevant_goes(1)[OF assms(1), of "clock_ts E"]
  note ok1 = goes_ok[OF 1]
  obtain e2 where e2: "(case role of FOLLOWER \<Rightarrow> proposer_advance_ballot (pr_ballot_number (proposer ?e1) + 1) ?e1
        | LEADER \<Rightarrow> Some ?e1 | _ \<Rightarrow> None) = Some e2"
      "goes c S n ?e1 e2" "0 \<le> pr_ballot_number (proposer e2)" "acceptor e2 = acceptor e"
  proof (cases role)
    case LEADER
    then show ?thesis using that[of ?e1] assms(3) goes_refl[OF ok1] by simp
  next
    case FOLLOWER
    obtain e' where "proposer_advance_ballot (pr_ballot_number (proposer ?e1) + 1) ?e1 = Some e'" "goes c S n ?e1 e'"
        "pr_ballot_number (proposer e') = pr_ballot_number (proposer ?e1) + 1" "acceptor e' = acceptor ?e1"
      using advance_goes[OF ok1, of "pr_ballot_number (proposer ?e1) + 1"] by auto
    then show ?thesis using that[of e'] FOLLOWER okD(6)[OF assms(1)] by simp
  qed (use assms(2) in simp_all)
  note 3 = broadcast_prepare_goes[OF goes_ok[OF e2(2)] e2(3), of E role]
  show ?thesis
  proof (cases "addr_list (pr_member_list e) = [] \<or> \<not> is_self_in_memberlist e
      \<or> role = FOLLOWER \<and> clock_ts E - last_do_prepare_ts (proposer e) < CALCULATE_MAX_ELECT_COST_TIME (MAX_TST E) div 2")
    case True
    then have "prepare E role e = Some e" by (auto simp: prepare_def)
    then show ?thesis using that[of e] goes_refl[OF assms(1)] by simp
  next
    case False
    then have "prepare E role e = Some (snd (broadcast_prepare E role e2))"
      using e2(1) unfolding prepare_def by (auto simp: Let_def)
    then show ?thesis using that goes_trans[OF goes_trans[OF 1 e2(2)] 3] e2(4) by (simp add: broadcast_prepare_keeps)
  qed
qed

subsection \<open>The books\<close>

lemma index_from_some: "index_from x i xs = Some k \<Longrightarrow> i \<le> k \<and> k - i < length xs \<and> xs ! (k - i) = x"
proof (induction x i xs arbitrary: k rule: index_from.induct)
  case (2 x i y ys)
  show ?case
  proof (cases "y = x")
    case True
    then show ?thesis using 2(2) by auto
  next
    case False
    then have h: "i + 1 \<le> k" "k - (i + 1) < length ys" "ys ! (k - (i + 1)) = x" using 2 by auto
    then have "(y # ys) ! (k - i) = ys ! (k - (i + 1))" by (cases "k - i") (auto simp: diff_Suc Suc_diff_le split: nat.splits)
    then show ?thesis using h by auto
  qed
qed auto

lemma server_idx_some:
  "get_server_idx_in_memberlist s a = Some k \<Longrightarrow> k < length (addr_list (member_list s)) \<and> addr_list (member_list s) ! k = a"
  using index_from_some[of a 0 "addr_list (member_list s)" k] by (simp add: get_server_idx_in_memberlist_def)

lemma books_indexed:
  assumes "books_ok c s" "i < length (addr_list (member_list s))"
  shows "addr_list (member_list s) = ec_members c" "replica_num (member_list s) = length (ec_members c)"
    "length (prepare_ok s) = length (ec_members c)" "length (accept_ok s) = length (ec_members c)"
    "length (renewed_version s) = length (ec_members c)" "addr_list (member_list s) ! i \<in> set (ec_members c)"
  using assms by (auto simp: books_ok_def)

text \<open>A majority of the entries of a book are the entries of a majority of the members.\<close>

lemma majority_of_entries:
  assumes "distinct (ec_members c)" "length xs = length (ec_members c)"
    "int (length (ec_members c)) div 2 + 1 \<le> int (card {i. i < length xs \<and> P (xs ! i)})"
  shows "majority (cl c) {ec_members c ! i | i. i < length xs \<and> P (xs ! i)}"
proof -
  let ?I = "{i. i < length xs \<and> P (xs ! i)}" let ?Q = "{ec_members c ! i | i. i < length xs \<and> P (xs ! i)}"
  have "?Q = (\<lambda>i. ec_members c ! i) ` ?I" by auto
  moreover have "inj_on (\<lambda>i. ec_members c ! i) ?I"
    using assms(1,2) by (auto simp: inj_on_def nth_eq_iff_index_eq)
  ultimately have "card ?Q = card ?I" by (simp add: card_image)
  moreover have "length (ec_members c) < 2 * card ?I" using assms(3) by linarith
  ultimately show ?thesis using assms(1,2) by (auto simp: majority_def distinct_card)
qed

lemma record_prepare_ok_facts:
  assumes "books_ok c s" "distinct (ec_members c)" "record_prepare_ok s res = (ret, s1)"
  shows "books_ok c s1 \<and> member_list s1 = member_list s \<and> book_promises s1 = book_promises s
    \<and> (s1 = s \<and> ret \<noteq> OB_SUCCESS \<or> msg_sender res \<in> set (ec_members c) \<and> book_votes s1 \<subseteq> insert (msg_sender res) (book_votes s))
    \<and> (ret = OB_SUCCESS \<longrightarrow> majority (cl c) (book_votes s1))"
proof (cases "get_server_idx_in_memberlist s (msg_sender res)")
  case None
  then show ?thesis using assms by (auto simp: record_prepare_ok_def)
next
  case (Some k)
  note k = server_idx_some[OF Some]
  note b = books_indexed[OF assms(1) conjunct1[OF k]]
  have kl: "k < length (prepare_ok s)" using b k by simp
  have s1: "s1 = s\<lparr>prepare_ok := (prepare_ok s)[k := True]\<rparr>" using assms(3) Some by (auto simp: record_prepare_ok_def Let_def)
  have "book_votes s1 \<subseteq> insert (msg_sender res) (book_votes s)"
    using k kl unfolding s1 by (auto simp: book_votes_def nth_list_update split: if_splits)
  moreover have "majority (cl c) (book_votes s1)" if "ret = OB_SUCCESS"
  proof -
    have "count_if (\<lambda>v. v) (prepare_ok s1) \<ge> majority_count s1"
      using assms(3) Some that unfolding s1 by (auto simp: record_prepare_ok_def Let_def split: if_splits)
    then have "int (length (ec_members c)) div 2 + 1 \<le> int (card {i. i < length (prepare_ok s1) \<and> prepare_ok s1 ! i})"
      using b by (simp add: count_if_def majority_count_def length_filter_conv_card s1)
    then show ?thesis using majority_of_entries[of c "prepare_ok s1" "\<lambda>v. v"] assms(2) b by (simp add: book_votes_def s1)
  qed
  ultimately show ?thesis using assms(1) b k by (auto simp: s1 books_ok_def book_promises_def)
qed

lemma record_accept_ok_facts:
  assumes "books_ok c s" "record_accept_ok s res = (ret, s1)"
  shows "books_ok c s1 \<and> member_list s1 = member_list s \<and> book_votes s1 = book_votes s
    \<and> (s1 = s \<and> ret \<noteq> OB_SUCCESS \<or> msg_sender res \<in> set (ec_members c)
        \<and> book_promises s1 \<subseteq> insert (msg_sender res, ars_lease_started_ts_on_proposer res + ars_lease_interval res) (book_promises s))
    \<and> (ret = OB_SUCCESS \<longrightarrow> length (accept_ok s1) = length (ec_members c) \<and> addr_list (member_list s1) = ec_members c)"
proof (cases "get_server_idx_in_memberlist s (msg_sender res)")
  case None
  then show ?thesis using assms by (auto simp: record_accept_ok_def)
next
  case (Some k)
  note k = server_idx_some[OF Some]
  note b = books_indexed[OF assms(1) conjunct1[OF k]]
  let ?t = "ars_lease_started_ts_on_proposer res + ars_lease_interval res"
  have kl: "k < length (accept_ok s)" using b k by simp
  have s1: "member_list s1 = member_list s" "prepare_ok s1 = prepare_ok s" "length (renewed_version s1) = length (renewed_version s)"
      "accept_ok s1 = (accept_ok s)[k := max (accept_ok s ! k) ?t]"
    using assms(2) Some by (auto simp: record_accept_ok_def Let_def)
  have "book_promises s1 \<subseteq> insert (msg_sender res, ?t) (book_promises s)"
    using k kl by (auto simp: book_promises_def nth_list_update s1 max_def split: if_splits)
  then show ?thesis using assms(1) b k by (auto simp: s1 books_ok_def book_votes_def)
qed

lemma majority_promised:
  assumes "distinct (ec_members c)" "ec_members c \<noteq> []" "length (accept_ok s) = length (ec_members c)"
    "addr_list (member_list s) = ec_members c" "0 < get_majority_promised_not_vote_ts s"
  shows "\<exists>Q. majority (cl c) Q \<and> (\<forall>a\<in>Q. \<exists>t\<ge>get_majority_promised_not_vote_ts s. (a, t) \<in> book_promises s)"
proof -
  let ?v = "get_majority_promised_not_vote_ts s" let ?xs = "accept_ok s"
  have "length ?xs div 2 + 1 \<le> card {i. i < length ?xs \<and> ?v \<le> ?xs ! i}"
    unfolding get_majority_promised_not_vote_ts_def using assms(2,3) by (intro majority_reached) auto
  then have "int (length (ec_members c)) div 2 + 1 \<le> int (card {i. i < length ?xs \<and> ?v \<le> ?xs ! i})"
    using assms(3) by linarith
  note q = majority_of_entries[of c ?xs "\<lambda>x. ?v \<le> x", OF assms(1,3) this]
  have "(ec_members c ! i, ?xs ! i) \<in> book_promises s" if "i < length ?xs" "?v \<le> ?xs ! i" for i
    using that assms(4,5) by (auto simp: book_promises_def)
  then have "\<forall>a\<in>{ec_members c ! i | i. i < length ?xs \<and> ?v \<le> ?xs ! i}. \<exists>t\<ge>?v. (a, t) \<in> book_promises s" by blast
  then show ?thesis using q by blast
qed

subsection \<open>Proposer: messages\<close>

lemma reject_goes:
  assumes "in_order c S n e" "msg_restart_counter req = ec_counter c (msg_sender req)"
  shows "goes c S n e (send_msg (PrepareResponse (prs_set_rejected b (new_prepare_response E e req))) e)"
  using assms okD(9)[OF assms(1)]
  by (intro goes_stutter[OF assms(1)]) (simp_all add: prs_set_rejected_def new_prepare_response_def prepare_response_def)

lemma proposer_on_prepare_request_goes:
  assumes "in_order c S n e" "msg_ok c (PrepareRequest req)"
  obtains need e' where "proposer_on_prepare_request E req e = Some (need, e')" "goes c S n e e'" "acceptor e' = acceptor e"
proof (cases "msg_ballot_number req \<le> pr_ballot_number (proposer e) \<or> \<not> is_self_in_memberlist e")
  case True
  let ?r = "send_msg (PrepareResponse (prs_set_rejected (pr_ballot_number (proposer e)) (new_prepare_response E e req))) e"
  have r: "goes c S n e ?r" using reject_goes[OF assms(1)] assms(2) by simp
  have r': "acceptor ?r = acceptor e" by (simp add: send_msg_def)
  show ?thesis
  proof (cases "msg_ballot_number req < pr_ballot_number (proposer e)")
    case True
    then show ?thesis using that[of False ?r] r r' by (simp add: proposer_on_prepare_request_def)
  next
    case False
    then show ?thesis using that[of False e] \<open>_ \<or> _\<close> goes_refl[OF assms(1)] by (auto simp: proposer_on_prepare_request_def)
  qed
next
  case False
  then obtain e1 where e1: "proposer_advance_ballot (msg_ballot_number req) e = Some e1" "goes c S n e e1"
      "pr_ballot_number (proposer e1) = msg_ballot_number req" "acceptor e1 = acceptor e"
    using advance_goes[OF assms(1), of "msg_ballot_number req"] by auto
  have pos: "0 \<le> pr_ballot_number (proposer e1)" using False e1(3) okD(6)[OF assms(1)] by simp
  obtain ret e2 where b: "broadcast_prepare E (pr_role (proposer e1)) e1 = (ret, e2)" by fastforce
  have 2: "goes c S n e1 e2" using broadcast_prepare_goes[OF goes_ok[OF e1(2)] pos] b by (metis snd_conv)
  have a2: "acceptor e2 = acceptor e" using broadcast_prepare_keeps(2) b e1(4) by (metis snd_conv)
  note 3 = irrelevant_goes(1)[OF goes_ok[OF 2], of "clock_ts E"]
  note g2 = goes_trans[OF e1(2) 2] note g3 = goes_trans[OF g2 3]
  have head: "proposer_on_prepare_request E req e =
      (if prq_role req = LEADER \<or> prq_role req \<noteq> FOLLOWER \<or> addr_list (pr_member_list e1) = [] then Some (False, e1)
       else if ret \<noteq> OB_SUCCESS then Some (False, e2) else Some (True, upd_p (\<lambda>p. p\<lparr>last_do_prepare_ts := clock_ts E\<rparr>) e2))"
    using False e1(1) b unfolding proposer_on_prepare_request_def by auto
  consider "prq_role req = LEADER \<or> prq_role req \<noteq> FOLLOWER \<or> addr_list (pr_member_list e1) = []"
    | "\<not> (prq_role req = LEADER \<or> prq_role req \<noteq> FOLLOWER \<or> addr_list (pr_member_list e1) = [])" "ret \<noteq> OB_SUCCESS"
    | "\<not> (prq_role req = LEADER \<or> prq_role req \<noteq> FOLLOWER \<or> addr_list (pr_member_list e1) = [])" "ret = OB_SUCCESS" by blast
  then show ?thesis
  proof cases
    case 1
    then show ?thesis using that[of False e1] head e1 by simp
  next
    case 2
    then show ?thesis using that[of False e2] head g2 a2 by simp
  next
    case 3
    then show ?thesis using that[of True] head g3 a2 by simp
  qed
qed

lemma checker_goes:
  assumes "in_order c S n e" "counter = ec_counter c n" "accepted \<Longrightarrow> ballot \<le> pr_ballot_number (proposer e)"
  obtains r e' where "check_ballot_and_restart_counter_valid_and_accepted E counter ballot accepted e = Some (r, e')"
    "goes c S n e e'" "acceptor e' = acceptor e" "r \<longrightarrow> e' = e \<and> accepted \<and> ballot = pr_ballot_number (proposer e)"
proof (cases "ballot > pr_ballot_number (proposer e)")
  case True
  then obtain e1 where e1: "proposer_advance_ballot ballot e = Some e1" "goes c S n e e1"
      "pr_ballot_number (proposer e1) = ballot" "acceptor e1 = acceptor e"
    using advance_goes[OF assms(1), of ballot] by auto
  have rejected: "\<not> accepted" using True assms(3) by auto
  have step: "check_ballot_and_restart_counter_valid_and_accepted E counter ballot accepted e =
      (if check_leader E e1 then
         case proposer_advance_ballot (pr_ballot_number (proposer e1) + 1) e1 of None \<Rightarrow> None
         | Some e2 \<Rightarrow> map_option (\<lambda>e3. (False, e3)) (prepare E LEADER e2)
       else Some (False, e1))"
    using True rejected assms(2) okD(7)[OF assms(1)] e1(1) by (simp add: check_ballot_and_restart_counter_valid_and_accepted_def)
  show ?thesis
  proof (cases "check_leader E e1")
    case lead: True
    obtain e2 where e2: "proposer_advance_ballot (pr_ballot_number (proposer e1) + 1) e1 = Some e2" "goes c S n e1 e2"
        "pr_ballot_number (proposer e2) = pr_ballot_number (proposer e1) + 1" "acceptor e2 = acceptor e1"
      using advance_goes[OF goes_ok[OF e1(2)], of "pr_ballot_number (proposer e1) + 1"] by auto
    have "0 \<le> pr_ballot_number (proposer e2)" using e2(3) e1(3) True okD(6)[OF assms(1)] by simp
    then obtain e3 where e3: "prepare E LEADER e2 = Some e3" "goes c S n e2 e3" "acceptor e3 = acceptor e2"
      using prepare_goes[OF goes_ok[OF e2(2)], of LEADER] by auto
    then show ?thesis
      using that[of False e3] step lead e2 e1(4) goes_trans[OF goes_trans[OF e1(2) e2(2)] e3(2)] by simp
  next
    case False
    then show ?thesis using that[of False e1] step e1 by simp
  qed
next
  case False
  then show ?thesis
    using that[of "ballot = pr_ballot_number (proposer e) \<and> accepted" e] assms(2) okD(7)[OF assms(1)] goes_refl[OF assms(1)]
    by (auto simp: check_ballot_and_restart_counter_valid_and_accepted_def)
qed

lemma vote_ballot:
  assumes "in_order c S n e" "Vote a n b l \<in> p_net S"
  shows "b \<le> pr_ballot_number (proposer e)"
proof -
  have "Ask n b \<in> p_net S \<union> abs_net e" using net_invD(1)[OF okD(13)[OF assms(1)]] assms(2) by blast
  then show ?thesis using proposer_invD(2)[OF okD(12)[OF assms(1)]] by (simp add: abs_agent_def)
qed

lemma promise_ballot:
  assumes "in_order c S n e" "Promise a n b s d \<in> p_net S"
  shows "0 \<le> b" "b \<le> prepare_success_ballot (proposer e)" "b \<le> pr_ballot_number (proposer e)"
proof -
  have "Offer n b s d \<in> p_net S \<union> abs_net e" using net_invD(6)[OF okD(13)[OF assms(1)]] assms(2) by blast
  then show "0 \<le> b" "b \<le> prepare_success_ballot (proposer e)"
    using proposer_invD(3,4)[OF okD(12)[OF assms(1)]] by (auto simp: abs_agent_def)
  then show "b \<le> pr_ballot_number (proposer e)" using okD(8)[OF assms(1)] by simp
qed

lemma count_vote_goes:
  assumes "in_order c S n e" "Vote (msg_sender res) n (pr_ballot_number (proposer e)) (prs_lease res) \<in> p_net S"
    "is_lease_free_for e (prs_lease res)" "record_prepare_ok (memberlist_with_states (proposer e)) res = (ret, s)"
  shows "goes c S n e (set_books s e)" "ret = OB_SUCCESS \<Longrightarrow> majority (cl c) (book_votes s)"
proof -
  let ?s = "memberlist_with_states (proposer e)"
  have dist: "distinct (ec_members c)" using assms(1) by (simp add: in_order_def)
  note f = record_prepare_ok_facts[OF okD(3)[OF assms(1)] dist assms(4)]
  then show "ret = OB_SUCCESS \<Longrightarrow> majority (cl c) (book_votes s)" by blast
  show "goes c S n e (set_books s e)"
  proof (cases "s = ?s")
    case True
    then show ?thesis using goes_refl[OF assms(1)] by simp
  next
    case False
    have "move (cl c) (p_time S) n (abs_agent e, p_net S \<union> abs_net e)
        ((abs_agent e)\<lparr>ag_votes := book_votes s\<rparr>, p_net S \<union> abs_net e)"
      using assms(2,3) f False okD(2)[OF assms(1)]
      by (intro CountVote[of "msg_sender res" n _ "prs_lease res"]) (auto simp: abs_agent_def is_lease_free_for_def lease_is_empty_def)
    then show ?thesis using okD(9)[OF assms(1)] f
      by (intro goes_move[OF assms(1)]) (auto simp: abs_agent_def server_wf_def)
  qed
qed

lemma succeed_goes:
  assumes "in_order c S n e" "majority (cl c) (book_votes (memberlist_with_states (proposer e)))" "0 \<le> pr_ballot_number (proposer e)"
    "mono_ts E = p_time S + ec_offset c n"
  shows "goes c S n e (propose E (upd_p (\<lambda>p. p\<lparr>prepare_success_ballot := max (pr_ballot_number p) (prepare_success_ballot p)\<rparr>) e))"
proof -
  let ?e3 = "upd_p (\<lambda>p. p\<lparr>prepare_success_ballot := max (pr_ballot_number p) (prepare_success_ballot p)\<rparr>) e"
  have m: "max (pr_ballot_number (proposer e)) (prepare_success_ballot (proposer e)) = pr_ballot_number (proposer e)"
    using okD(8)[OF assms(1)] by simp
  have "move (cl c) (p_time S) n (abs_agent e, p_net S \<union> abs_net e) (abs_agent ?e3, p_net S \<union> abs_net ?e3)"
    using assms(2) m Succeed[of "cl c" "book_votes (memberlist_with_states (proposer e))" "abs_agent e"] by (simp add: abs_agent_def)
  then have 3: "goes c S n e ?e3" using okD(9)[OF assms(1)] assms(3) m
    by (intro goes_move[OF assms(1)]) (auto simp: server_wf_def)
  have "goes c S n ?e3 (propose E ?e3)" using assms(3,4) by (intro propose_goes goes_ok[OF 3]) auto
  then show ?thesis using goes_trans[OF 3] by blast
qed

lemma on_prepare_response_goes:
  assumes "in_order c S n e" "msg_ok c (PrepareResponse res)" "msg_receiver res = n" "abs_msg (PrepareResponse res) \<subseteq> p_net S"
    "mono_ts E = p_time S + ec_offset c n"
  obtains e' where "on_prepare_response E res e = Some e'" "goes c S n e e'"
proof -
  have v: "Vote (msg_sender res) n (msg_ballot_number res) (prs_lease res) \<in> p_net S" if "prs_accepted res"
    using that assms(3,4) by simp
  obtain r e1 where chk: "check_ballot_and_restart_counter_valid_and_accepted E (msg_restart_counter res) (msg_ballot_number res)
        (prs_accepted res) e = Some (r, e1)" "goes c S n e e1"
        "r \<longrightarrow> e1 = e \<and> prs_accepted res \<and> msg_ballot_number res = pr_ballot_number (proposer e)"
    by (rule checker_goes[OF assms(1), of "msg_restart_counter res" "prs_accepted res" "msg_ballot_number res" E])
      (use vote_ballot[OF assms(1) v] assms(2,3) in auto)
  show ?thesis
  proof (cases "r \<and> is_lease_free_for e (prs_lease res)")
    case False
    then have "on_prepare_response E res e = Some e1" using chk by (auto simp: on_prepare_response_def)
    then show ?thesis using that chk(2) by blast
  next
    case True
    obtain ret s where rec: "record_prepare_ok (memberlist_with_states (proposer e)) res = (ret, s)" by fastforce
    have a: "prs_accepted res" "msg_ballot_number res = pr_ballot_number (proposer e)" "e1 = e" using chk(3) True by auto
    note 2 = count_vote_goes[OF assms(1) v[OF a(1), unfolded a(2)] _ rec]
    have pos: "0 \<le> pr_ballot_number (proposer e)"
      using v[OF a(1)] a(2) net_invD(1)[OF okD(13)[OF assms(1)]] proposer_invD(1)[OF okD(12)[OF assms(1)]] by (metis UnI1)
    let ?e2 = "set_books s e"
    let ?e3 = "propose E (upd_p (\<lambda>p. p\<lparr>prepare_success_ballot := max (pr_ballot_number p) (prepare_success_ballot p)\<rparr>) ?e2)"
    have "goes c S n ?e2 ?e3" if "ret = OB_SUCCESS"
      using 2 True that pos assms(5) by (intro succeed_goes goes_ok[OF 2(1)]) auto
    moreover have "on_prepare_response E res e = Some (if ret = OB_SUCCESS then ?e3 else ?e2)"
      using chk rec True a by (simp add: on_prepare_response_def Let_def)
    ultimately show ?thesis using that 2(1) True goes_trans by (cases "ret = OB_SUCCESS") auto
  qed
qed

end
