(* ===== verification/Election_Handlers.thy ===== *)
theory Election_Handlers
  imports Election_Refinement
begin

text \<open>
  The remaining operations of the election object as moves of the protocol: handing the leadership
  over, taking a new lease, the timer tasks, the acceptor, and the handlers that put them together.
\<close>

subsection \<open>Handing over\<close>

lemma revoke_keeps:
  "pr_ballot_number (proposer (snd (leader_revoke_if_lease_expired E reason e))) = pr_ballot_number (proposer e)"
  "prepare_success_ballot (proposer (snd (leader_revoke_if_lease_expired E reason e))) = prepare_success_ballot (proposer e)"
  "acceptor (snd (leader_revoke_if_lease_expired E reason e)) = acceptor e"
  "is_running (snd (leader_revoke_if_lease_expired E reason e)) = is_running e"
  by (simp_all add: leader_revoke_if_lease_expired_def lease_and_epoch_reset_def)

lemma revoke_abs:
  assumes "book_votes (memberlist_with_states (proposer e)) = {}" "book_promises (memberlist_with_states (proposer e)) = {}"
    "leader_lease (proposer e) = - 1"
  shows "abs_agent (snd (leader_revoke_if_lease_expired E reason e)) = abs_agent e"
    "abs_net (snd (leader_revoke_if_lease_expired E reason e)) = abs_net e"
  using assms by (simp_all add: leader_revoke_if_lease_expired_def abs_agent_def lease_and_epoch_reset_def INVALID_VALUE_def)

lemma revoke_wf: "server_wf c n N e \<Longrightarrow> server_wf c n N (snd (leader_revoke_if_lease_expired E reason e))"
  by (auto simp: leader_revoke_if_lease_expired_def server_wf_def lease_and_epoch_reset_def Let_def)

lemma inner_change_leader_to_goes:
  assumes "in_order c S n e"
  obtains e' where "inner_change_leader_to E dst e = Some e'" "goes c S n e e'"
proof -
  let ?b = "pr_ballot_number (proposer e)"
  let ?e1 = "upd_p (\<lambda>p. p\<lparr>pr_ballot_number := ?b + 1, memberlist_with_states := clear_prepare_and_accept_states (memberlist_with_states p),
    switch_source_leader_ballot := INVALID_VALUE, switch_source_leader_addr := None\<rparr>) e"
  let ?e2 = "upd_p lease_and_epoch_reset ?e1"
  let ?m = "\<lparr>msg_ls_id = el_ls_id e, msg_sender = self_addr e, msg_receiver = dst,
    msg_restart_counter = restart_counter (proposer e), msg_ballot_number = ?b + 1,
    msg_cluster_version = get_ls_biggest_min_cluster_version_ever_seen E ?e2,
    clm_switch_source_leader_ballot = ?b, clm_membership_version = get_membership_version ?e2\<rparr>"
  let ?e3 = "snd (leader_revoke_if_lease_expired E ChangeLeaderToRevoke ?e2)"
  have run: "inner_change_leader_to E dst e = Some (send_msg (ChangeLeader ?m) ?e3)"
    by (simp add: inner_change_leader_to_def proposer_advance_ballot_def lease_and_epoch_reset_def Let_def)
  have a2: "abs_agent ?e2 = (abs_agent e)\<lparr>ag_ballot := ?b + 1, ag_votes := {}, ag_promises := {}, ag_source := (None, - 1), ag_lease := - 1\<rparr>"
    by (simp add: abs_agent_def lease_and_epoch_reset_def INVALID_VALUE_def)
  have a3: "abs_agent ?e3 = abs_agent ?e2" "abs_net ?e3 = abs_net ?e2"
    by (intro revoke_abs; simp add: lease_and_epoch_reset_def INVALID_VALUE_def)+
  have "move (cl c) (p_time S) n (abs_agent e, p_net S \<union> abs_net e)
      (abs_agent ?e3, insert (Handover n dst ?b) (p_net S \<union> abs_net e))"
    using Hand[of "cl c" "p_time S" n "abs_agent e" _ dst] unfolding a3 a2 by (simp add: abs_agent_def)
  moreover have "server_wf c n (insert (Handover n dst ?b) (p_net S \<union> abs_net e)) ?e3"
    using server_wf_mono[OF okD(9)[OF assms], of "insert (Handover n dst ?b) (p_net S \<union> abs_net e)"] okD(3,6)[OF assms]
    by (intro revoke_wf) (auto simp: server_wf_def lease_and_epoch_reset_def Let_def)
  ultimately have "goes c S n e (send_msg (ChangeLeader ?m) ?e3)"
    using okD(2,6)[OF assms] a3 by (intro goes_move[OF assms]) auto
  then show ?thesis using that run by blast
qed

lemma change_leader_to_goes:
  assumes "in_order c S n e"
  obtains ret e' where "proposer_change_leader_to E dst e = Some (ret, e')" "goes c S n e e'"
proof -
  let ?d = "if dst \<in> set (addr_list (pr_member_list e)) then dst else self_addr e"
  obtain e' where "inner_change_leader_to E ?d e = Some e'" "goes c S n e e'"
    using inner_change_leader_to_goes[OF assms] by blast
  then show ?thesis using that goes_refl[OF assms]
    by (cases "check_leader E e") (auto simp: proposer_change_leader_to_def Let_def)
qed

lemma prepare_change_leader_to_goes:
  assumes "in_order c S n e"
  obtains ret e' where "prepare_change_leader_to E dst e = Some (ret, e')" "goes c S n e e'"
proof (cases "has_priority e \<and> has_fatal_failure E")
  case True
  then show ?thesis using that change_leader_to_goes[OF assms, of E "msg_sender (cached_msg (proposer e))"]
    by (metis prepare_change_leader_to_def)
next
  case False
  then show ?thesis using that goes_refl[OF assms] by (cases "change_leader_cb E") (auto simp: prepare_change_leader_to_def)
qed

lemma on_change_leader_goes:
  assumes "in_order c S n e" "msg_ok c (ChangeLeader msg)" "msg_receiver msg = n" "abs_msg (ChangeLeader msg) \<subseteq> p_net S"
  obtains e' where "on_change_leader E msg e = Some e'" "goes c S n e e'"
proof (cases "(if msg_sender msg = self_addr e then msg_ballot_number msg = pr_ballot_number (proposer e)
      else msg_ballot_number msg > pr_ballot_number (proposer e)) \<and> \<not> cv_gt (clm_membership_version msg) (get_membership_version e)")
  case True
  then have "pr_ballot_number (proposer e) \<le> msg_ballot_number msg" by (simp split: if_splits)
  then obtain e1 where e1: "proposer_advance_ballot (msg_ballot_number msg) e = Some e1" "goes c S n e e1"
      "pr_ballot_number (proposer e1) = msg_ballot_number msg"
    using advance_goes[OF assms(1)] by metis
  let ?e2 = "upd_p (\<lambda>p. p\<lparr>switch_source_leader_ballot := clm_switch_source_leader_ballot msg,
    switch_source_leader_addr := msg_sender msg\<rparr>) e1"
  have "move (cl c) (p_time S) n (abs_agent e1, p_net S \<union> abs_net e1) (abs_agent ?e2, p_net S \<union> abs_net ?e2)"
    using Inherit[of "msg_sender msg" n "clm_switch_source_leader_ballot msg" _ "cl c" "p_time S" "abs_agent e1"] assms(3,4)
    by (simp add: abs_agent_def)
  then have 2: "goes c S n e1 ?e2" using okD(9)[OF goes_ok[OF e1(2)]]
    by (intro goes_move goes_ok[OF e1(2)]) (auto simp: server_wf_def)
  obtain e' where e': "prepare E LEADER ?e2 = Some e'" "goes c S n ?e2 e'"
    using prepare_goes[OF goes_ok[OF 2], of LEADER] e1(3) assms(2) by auto
  have "on_change_leader E msg e = Some e'" using True e1(1) e'(1) by (simp add: on_change_leader_def Let_def)
  then show ?thesis using that goes_trans[OF goes_trans[OF e1(2) 2] e'(2)] by blast
next
  case False
  then have "on_change_leader E msg e = Some e" by (auto simp: on_change_leader_def Let_def)
  then show ?thesis using that goes_refl[OF assms(1)] by blast
qed

subsection \<open>Taking a lease\<close>

abbreviation put_lease :: "int \<Rightarrow> int \<Rightarrow> ElectionImpl \<Rightarrow> ElectionImpl" where
  "put_lease v x e \<equiv> upd_p (\<lambda>p. p\<lparr>leader_lease := v, leader_epoch := x\<rparr>) e"

lemma put_lease_goes:
  assumes "in_order c S n e" "v \<le> 0 \<or> (\<exists>Q. majority (cl c) Q \<and> (\<forall>a\<in>Q. \<exists>t\<ge>v. (a, t) \<in> book_promises (memberlist_with_states (proposer e))))"
  shows "goes c S n e (put_lease v x e)"
proof -
  have "move (cl c) (p_time S) n (abs_agent e, p_net S \<union> abs_net e) ((abs_agent e)\<lparr>ag_lease := v\<rparr>, p_net S \<union> abs_net e)"
    using assms(2)
  proof
    assume "\<exists>Q. majority (cl c) Q \<and> (\<forall>a\<in>Q. \<exists>t\<ge>v. (a, t) \<in> book_promises (memberlist_with_states (proposer e)))"
    then obtain Q where "majority (cl c) Q" "\<And>a. a \<in> Q \<Longrightarrow> \<exists>t\<ge>v. (a, t) \<in> ag_promises (abs_agent e)"
      by (auto simp: abs_agent_def)
    then show ?thesis by (rule Lead)
  qed (rule Lapse)
  then show ?thesis using okD(9)[OF assms(1)] by (intro goes_move[OF assms(1)]) (auto simp: abs_agent_def server_wf_def)
qed

lemma set_lease_put:
  "\<exists>x. upd_p (\<lambda>p. set_lease_and_epoch_if_lease_expired_or_just_set_lease E v (k p) p) e = put_lease v x e"
proof -
  let ?p = "proposer e"
  have "\<exists>x. set_lease_and_epoch_if_lease_expired_or_just_set_lease E v (k ?p) ?p = ?p\<lparr>leader_lease := v, leader_epoch := x\<rparr>"
    by (cases "mono_ts E < leader_lease ?p \<and> \<not> mono_ts_later E \<ge> leader_lease ?p")
      (auto simp: set_lease_and_epoch_if_lease_expired_or_just_set_lease_def Let_def
        intro: exI[of _ "leader_epoch ?p"] exI[of _ "k ?p"])
  then show ?thesis by auto
qed

lemma revoke_and_set_goes:
  assumes "in_order c S n e" "v \<le> 0 \<or> (\<exists>Q. majority (cl c) Q \<and> (\<forall>a\<in>Q. \<exists>t\<ge>v. (a, t) \<in> book_promises (memberlist_with_states (proposer e))))"
  shows "goes c S n e (put_lease v x (snd (leader_revoke_if_lease_expired E reason e)))"
proof (cases "pr_role (proposer e) = LEADER \<and> \<not> check_leader E e")
  case True
  let ?e1 = "put_lease v x e"
  note 1 = put_lease_goes[OF assms, of x]
  let ?e2 = "upd_p (\<lambda>p. p\<lparr>pr_role := FOLLOWER, memberlist_with_states := clear_prepare_and_accept_states (memberlist_with_states p)\<rparr>)
    (?e1\<lparr>role_changes := role_changes e @ [(LEADER, FOLLOWER, reason)]\<rparr>)"
  have "move (cl c) (p_time S) n (abs_agent ?e1, p_net S \<union> abs_net ?e1) (abs_agent ?e2, p_net S \<union> abs_net ?e2)"
    using Clear[of "cl c" "p_time S" n "abs_agent ?e1"] by (simp add: abs_agent_def)
  then have 2: "goes c S n ?e1 ?e2" using okD(3,9)[OF goes_ok[OF 1]]
    by (intro goes_move[OF goes_ok[OF 1]]) (auto simp: server_wf_def Let_def)
  have "put_lease v x (snd (leader_revoke_if_lease_expired E reason e)) = ?e2"
    using True by (simp add: leader_revoke_if_lease_expired_def lease_and_epoch_reset_def)
  then show ?thesis using goes_trans[OF 1 2] by simp
next
  case False
  then have "snd (leader_revoke_if_lease_expired E reason e) = e" by (auto simp: leader_revoke_if_lease_expired_def)
  then show ?thesis using put_lease_goes[OF assms] by simp
qed

lemma unsource_goes:
  assumes "in_order c S n e"
  shows "goes c S n e (upd_p (\<lambda>p. p\<lparr>switch_source_leader_ballot := INVALID_VALUE, switch_source_leader_addr := None\<rparr>) e)"
proof -
  have "move (cl c) (p_time S) n (abs_agent e, p_net S \<union> abs_net e) ((abs_agent e)\<lparr>ag_source := (None, - 1)\<rparr>, p_net S \<union> abs_net e)"
    by (rule Unsource)
  then show ?thesis using okD(9)[OF assms]
    by (intro goes_move[OF assms]) (auto simp: abs_agent_def server_wf_def INVALID_VALUE_def)
qed

lemma take_new_lease_goes:
  assumes "in_order c S n e" "v \<le> 0 \<or> (\<exists>Q. majority (cl c) Q \<and> (\<forall>a\<in>Q. \<exists>t\<ge>v. (a, t) \<in> book_promises (memberlist_with_states (proposer e))))"
    "0 \<le> prepare_success_ballot (proposer e)" "mono_ts E = p_time S + ec_offset c n"
  shows "goes c S n e (take_new_lease E v e)"
proof -
  let ?e1 = "snd (leader_revoke_if_lease_expired E LeaseExpiredToRevoke e)"
  define e2 where "e2 = (if v > leader_lease (proposer ?e1)
    then upd_p (\<lambda>p. set_lease_and_epoch_if_lease_expired_or_just_set_lease E v (prepare_success_ballot p) p) ?e1 else ?e1)"
  obtain x where x: "upd_p (\<lambda>p. set_lease_and_epoch_if_lease_expired_or_just_set_lease E v (prepare_success_ballot p) p) ?e1 = put_lease v x ?e1"
    using set_lease_put[of E v prepare_success_ballot ?e1] by blast
  have 2: "goes c S n e e2"
    unfolding e2_def x using revoke_and_set_goes[OF assms(1,2)] revoke_goes[OF assms(1)] by simp
  have "prepare_success_ballot (proposer e2) = prepare_success_ballot (proposer e)"
    unfolding e2_def x by (simp add: revoke_keeps)
  then have t: "goes c S n e2 (snd (leader_takeover_if_lease_valid E r e2))" for r
    using assms(3,4) by (intro takeover_goes goes_ok[OF 2]) auto
  note u = unsource_goes[OF goes_ok[OF t]]
  have "take_new_lease E v e =
     (if switch_source_leader_ballot (proposer e2) \<noteq> INVALID_VALUE then
        if switch_source_leader_ballot (proposer e2) \<noteq> pr_ballot_number (proposer e2) - 1 then e2
        else if fst (leader_takeover_if_lease_valid E ChangeLeaderToBeLeader e2)
        then upd_p (\<lambda>p. p\<lparr>switch_source_leader_ballot := INVALID_VALUE, switch_source_leader_addr := None\<rparr>)
          (snd (leader_takeover_if_lease_valid E ChangeLeaderToBeLeader e2))
        else snd (leader_takeover_if_lease_valid E ChangeLeaderToBeLeader e2)
      else snd (leader_takeover_if_lease_valid E DevoteToBeLeader e2))"
    unfolding take_new_lease_def Let_def e2_def[symmetric] by (simp add: case_prod_beta)
  then show ?thesis using 2 goes_trans[OF 2 t] goes_trans[OF goes_trans[OF 2 t] u] by simp
qed

subsection \<open>Accept responses\<close>

lemma compare_with_follower_goes:
  assumes "in_order c S n e"
  obtains e' where "compare_with_follower E res e = Some e'" "goes c S n e e'"
proof -
  let ?e1 = "upd_p (cache_check_expired E) e"
  note 1 = irrelevant_goes(3)[OF assms, of E]
  note 2 = irrelevant_goes(4)[OF goes_ok[OF 1], of E res]
  obtain ret mock where mock: "mock_self_accept_response E e = (ret, mock)" by fastforce
  obtain r e3 where 3: "prepare_change_leader_to E (msg_sender (cached_msg (proposer ?e1))) ?e1 = Some (r, e3)" "goes c S n ?e1 e3"
    using prepare_change_leader_to_goes[OF goes_ok[OF 1]] by metis
  have "compare_with_follower E res e \<in> {Some e, Some ?e1, Some (upd_p (cache_set E res) ?e1), Some e3}"
    using 3(1) by (auto simp: compare_with_follower_def mock Let_def)
  then show ?thesis
    using that goes_refl[OF assms] 1 goes_trans[OF 1 2] goes_trans[OF 1 3(2)] by blast
qed

lemma count_promise_goes:
  assumes "in_order c S n e" "Promise (msg_sender res) n (pr_ballot_number (proposer e)) (ars_lease_started_ts_on_proposer res)
      (ars_lease_interval res) \<in> p_net S" "record_accept_ok (memberlist_with_states (proposer e)) res = (ret, s)"
  shows "goes c S n e (set_books s e)"
proof (cases "s = memberlist_with_states (proposer e)")
  case True
  then show ?thesis using goes_refl[OF assms(1)] by simp
next
  case False
  note f = record_accept_ok_facts[OF okD(3)[OF assms(1)] assms(3)]
  have "move (cl c) (p_time S) n (abs_agent e, p_net S \<union> abs_net e)
      ((abs_agent e)\<lparr>ag_promises := book_promises s\<rparr>, p_net S \<union> abs_net e)"
    using assms(2) f False by (intro CountPromise[of "msg_sender res" n _ "ars_lease_started_ts_on_proposer res" "ars_lease_interval res"])
      (auto simp: abs_agent_def)
  then show ?thesis using okD(9)[OF assms(1)] f
    by (intro goes_move[OF assms(1)]) (auto simp: abs_agent_def server_wf_def)
qed

lemma on_accept_response_goes:
  assumes "in_order c S n e" "msg_ok c (AcceptResponse res)" "msg_receiver res = n" "abs_msg (AcceptResponse res) \<subseteq> p_net S"
    "mono_ts E = p_time S + ec_offset c n"
  obtains e' where "on_accept_response E res e = Some e'" "goes c S n e e'"
proof -
  let ?t = "ars_lease_started_ts_on_proposer res" let ?d = "ars_lease_interval res"
  have v: "Promise (msg_sender res) n (msg_ballot_number res) ?t ?d \<in> p_net S" if "ars_accepted res"
    using that assms(3,4) by simp
  obtain r e1 where chk: "check_ballot_and_restart_counter_valid_and_accepted E (msg_restart_counter res) (msg_ballot_number res)
        (ars_accepted res) e = Some (r, e1)" "goes c S n e e1"
        "r \<longrightarrow> e1 = e \<and> ars_accepted res \<and> msg_ballot_number res = pr_ballot_number (proposer e)"
    by (rule checker_goes[OF assms(1), of "msg_restart_counter res" "ars_accepted res" "msg_ballot_number res" E])
      (use promise_ballot(3)[OF assms(1) v] assms(2,3) in auto)
  obtain ret s where rec: "record_accept_ok (memberlist_with_states (proposer e1)) res = (ret, s)" by fastforce
  let ?e2 = "set_books s e1"
  let ?v = "get_majority_promised_not_vote_ts s"
  define e3 where "e3 = (if \<not> r then e1 else if ret \<noteq> OB_SUCCESS then ?e2 else take_new_lease E ?v ?e2)"
  have 3: "goes c S n e e3"
  proof (cases r)
    case True
    then have e1: "e1 = e" "ars_accepted res" "msg_ballot_number res = pr_ballot_number (proposer e)" using chk(3) by auto
    note f = record_accept_ok_facts[OF okD(3)[OF goes_ok[OF chk(2)]] rec]
    have 2: "goes c S n e ?e2" using count_promise_goes[OF assms(1) _ rec[unfolded e1]] v e1 by simp
    have "goes c S n ?e2 (take_new_lease E ?v ?e2)" if "ret = OB_SUCCESS"
    proof (rule take_new_lease_goes[OF goes_ok[OF 2]])
      show "?v \<le> 0 \<or> (\<exists>Q. majority (cl c) Q \<and> (\<forall>a\<in>Q. \<exists>t\<ge>?v. (a, t) \<in> book_promises (memberlist_with_states (proposer ?e2))))"
        by (cases "0 < ?v") (use majority_promised[of c s] f that assms(1) in \<open>auto simp: in_order_def\<close>)
      show "0 \<le> prepare_success_ballot (proposer ?e2)" using promise_ballot(1,2)[OF assms(1) v] e1 by simp
    qed (use assms(5) in simp)
    then show ?thesis unfolding e3_def using True 2 goes_trans by auto
  qed (simp add: e3_def chk(2))
  obtain e' where e': "compare_with_follower E res e3 = Some e'" "goes c S n e3 e'"
    using compare_with_follower_goes[OF goes_ok[OF 3]] by blast
  have "on_accept_response E res e = compare_with_follower E res e3"
    unfolding on_accept_response_def chk(1) e3_def using rec by (simp add: Let_def)
  then show ?thesis using that e' goes_trans[OF 3] by simp
qed

subsection \<open>Timer tasks, stopping, member lists\<close>

lemma renew_lease_task_goes:
  assumes "in_order c S n e" "mono_ts E = p_time S + ec_offset c n"
  shows "goes c S n e (renew_lease_task E e)"
proof (cases "is_running e \<and> pr_role (proposer e) = LEADER \<and> check_leader E e \<and> prepare_success_ballot (proposer e) = pr_ballot_number (proposer e)")
  case True
  then have "renew_lease_task E e = propose E e" by (simp add: renew_lease_task_def leader_revoke_if_lease_expired_def)
  then show ?thesis using propose_goes[OF assms(1) _ assms(2)] okD(5)[OF assms(1)] True by simp
next
  case False
  then have "renew_lease_task E e \<in> {e, snd (leader_revoke_if_lease_expired E LeaseExpiredToRevoke e)}"
    by (auto simp: renew_lease_task_def leader_revoke_if_lease_expired_def)
  then show ?thesis using goes_refl[OF assms(1)] revoke_goes[OF assms(1)] by auto
qed

lemma devote_task_goes:
  assumes "in_order c S n e"
  obtains e' where "devote_task E e = Some e'" "goes c S n e e'"
proof -
  let ?e1 = "if pr_role (proposer e) = LEADER then upd_p (\<lambda>p. p\<lparr>pr_role := FOLLOWER\<rparr>) e else e"
  have "goes c S n e (upd_p (\<lambda>p. p\<lparr>pr_role := FOLLOWER\<rparr>) e)" using okD(9)[OF assms]
    by (intro goes_stutter[OF assms]) (simp_all add: abs_agent_def server_wf_def)
  then have 1: "goes c S n e ?e1" using goes_refl[OF assms] by simp
  have f: "pr_role (proposer ?e1) = FOLLOWER" using okD(4)[OF assms] by (cases "pr_role (proposer e)") auto
  obtain e' where e': "prepare E (pr_role (proposer ?e1)) ?e1 = Some e'" "goes c S n ?e1 e'"
    by (rule prepare_goes[OF goes_ok[OF 1], of "pr_role (proposer ?e1)" E]) (simp_all add: f)
  obtain e2 where e2: "prepare E (pr_role (proposer e)) e = Some e2" "goes c S n e e2"
    by (rule prepare_goes[OF assms, of "pr_role (proposer e)" E]) (use okD(4,5,8)[OF assms] in auto)
  show ?thesis
  proof (cases "check_leader E e")
    case True
    then show ?thesis using that[of e] that[of e2] goes_refl[OF assms] e2
      by (cases "prepare_success_ballot (proposer e) = pr_ballot_number (proposer e)") (simp_all add: devote_task_def)
  next
    case False
    then have "devote_task E e = Some e'" using e'(1) by (simp add: devote_task_def Let_def)
    then show ?thesis using that goes_trans[OF 1 e'(2)] by blast
  qed
qed

lemma reschedule_goes:
  assumes "in_order c S n e"
  shows "goes c S n e (snd (reschedule_or_register_prepare_task_after E d e))"
  using irrelevant_goes(2)[OF assms] goes_refl[OF assms] by (simp add: reschedule_or_register_prepare_task_after_def)

lemma outer_goes:
  assumes "in_order c S n e"
  shows "goes c S n e (e\<lparr>has_priority := b\<rparr>)" "goes c S n e (e\<lparr>is_running := b\<rparr>)" "goes c S n e (e\<lparr>downgrade_expire_ts := t\<rparr>)"
    "goes c S n e (e\<lparr>inner_priority_seed := w\<rparr>)" "goes c S n e (e\<lparr>biggest_version_ever_seen := w\<rparr>)"
    "goes c S n e (upd_a (\<lambda>a. a\<lparr>window_task_delay := d\<rparr>) e)"
  using okD(9)[OF assms]
  by (intro goes_stutter[OF assms]; simp add: abs_agent_def abs_net_def server_wf_def)+

lemma stop_goes:
  assumes "in_order c S n e"
  shows "goes c S n e (stop E e)"
proof -
  note 1 = outer_goes(1)[OF assms, of False]
  let ?e1 = "e\<lparr>has_priority := False\<rparr>" let ?e2 = "?e1\<lparr>is_running := False\<rparr>"
  note 2 = goes_trans[OF 1 outer_goes(2)[OF goes_ok[OF 1], of False]]
  note 3 = goes_trans[OF 2 irrelevant_goes(2)[OF goes_ok[OF 2], of None]]
  note 4 = goes_trans[OF 3 lapse_goes[OF goes_ok[OF 3]]]
  note 5 = goes_trans[OF 4 revoke_goes[OF goes_ok[OF 4], of E StopToRevoke]]
  note 6 = goes_trans[OF 5 outer_goes(6)[OF goes_ok[OF 5], of None]]
  have "stop E e \<in> {?e1, upd_a (\<lambda>a. a\<lparr>window_task_delay := None\<rparr>) (proposer_stop E ?e2)}"
    by (auto simp: stop_def Let_def)
  then show ?thesis using 1 6 by (auto simp: proposer_stop_def)
qed

lemma mls_set_same:
  assumes "books_ok c s" "addr_list new = ec_members c" "replica_num new = length (ec_members c)" "ec_members c \<noteq> []"
    "mls_set_member_list alloc s new = (ret, s1)"
  shows "books_ok c s1 \<and> book_votes s1 = book_votes s \<and> book_promises s1 = book_promises s"
proof (cases "same_members (member_list s) new")
  case True
  then have "s1 = s\<lparr>member_list := (member_list s)\<lparr>membership_version := membership_version new\<rparr>\<rparr>"
    using assms(5) by (simp add: mls_set_member_list_def)
  then show ?thesis using assms(1) by (simp add: books_ok_def book_votes_def book_promises_def)
next
  case False
  then have e: "addr_list (member_list s) = []" using assms(1-4) by (auto simp: books_ok_def same_members_def)
  then have "s1 = s \<or> s1 = \<lparr>member_list = new, prepare_ok = replicate (replica_num new) False,
      accept_ok = replicate (replica_num new) 0, renewed_version = replicate (replica_num new) cv_reset\<rparr>"
    using assms(5) False by (auto simp: mls_set_member_list_def carry_over_def Let_def split: if_splits)
  then show ?thesis using assms(1-4) e by (auto simp: books_ok_def book_votes_def book_promises_def)
qed

lemma set_member_list_goes:
  assumes "in_order c S n e" "addr_list new = ec_members c" "replica_num new = length (ec_members c)"
  obtains ret e' where "proposer_set_member_list E new e = Some (ret, e')" "goes c S n e e'"
proof (cases "proposer_can_set_memberlist E (membership_version new) e = OB_SUCCESS")
  case True
  let ?s = "memberlist_with_states (proposer e)"
  obtain ret s where s: "mls_set_member_list (memory_left E) ?s new = (ret, s)" by fastforce
  have "ec_members c \<noteq> []" using assms(1) by (simp add: in_order_def)
  note f = mls_set_same[OF okD(3)[OF assms(1)] assms(2,3) this s]
  let ?e1 = "set_books s e"
  have 1: "goes c S n e ?e1" using okD(9)[OF assms(1)] f
    by (intro goes_stutter[OF assms(1)]) (simp_all add: abs_agent_def server_wf_def)
  obtain e2 where e2: "prepare E FOLLOWER ?e1 = Some e2" "goes c S n ?e1 e2"
    by (rule prepare_goes[OF goes_ok[OF 1], of FOLLOWER E]) auto
  have "proposer_set_member_list E new e \<in> {Some (ret, ?e1), Some (OB_SUCCESS, ?e1), Some (OB_SUCCESS, e2)}"
    using True s e2(1) by (auto simp: proposer_set_member_list_def Let_def)
  then show ?thesis using that 1 goes_trans[OF 1 e2(2)] by blast
next
  case False
  then show ?thesis using that[of _ e] goes_refl[OF assms(1)] by (simp add: proposer_set_member_list_def Let_def)
qed

subsection \<open>Acceptor\<close>

lemma reset_window_keeps:
  "ac_ballot_number (reset_time_window_states a) = ac_ballot_number a" "ac_lease (reset_time_window_states a) = ac_lease a"
  "msg_ballot_number (highest_priority_prepare_req (reset_time_window_states a)) \<noteq> - 1 \<Longrightarrow>
     highest_priority_prepare_req (reset_time_window_states a) = highest_priority_prepare_req a"
  by (auto simp: reset_time_window_states_def msg_reset_def INVALID_VALUE_def)

lemma window_goes:
  assumes "in_order c S n e" "ac_ballot_number a = ac_ballot_number (acceptor e)" "ac_lease a = ac_lease (acceptor e)"
    "msg_ballot_number (highest_priority_prepare_req a) \<noteq> - 1 \<Longrightarrow>
       highest_priority_prepare_req a = highest_priority_prepare_req (acceptor e)
       \<or> Ask (msg_sender (highest_priority_prepare_req a)) (msg_ballot_number (highest_priority_prepare_req a)) \<in> p_net S
         \<and> msg_restart_counter (highest_priority_prepare_req a) = ec_counter c (msg_sender (highest_priority_prepare_req a))"
  shows "goes c S n e (e\<lparr>acceptor := a\<rparr>)"
  using okD(9)[OF assms(1)] assms(2-)
  by (intro goes_stutter[OF assms(1)]) (auto simp: abs_agent_def server_wf_def Let_def)

lemma vote_wf:
  assumes "server_wf c n N e" "- 1 \<le> b"
  shows "server_wf c n N (upd_a (\<lambda>a. a\<lparr>ac_ballot_number := b, ac_lease := l\<rparr>) e)"
  using assms by (simp add: server_wf_def)

lemma cast_vote_goes:
  assumes "in_order c S n e" "Ask (msg_sender req) (msg_ballot_number req) \<in> p_net S \<union> abs_net e" "ac_ballot_number (acceptor e) < msg_ballot_number req"
    "msg_restart_counter req = ec_counter c (msg_sender req)"
    "l = ac_lease (acceptor e) \<or> lease_is_expired (p_time S + ec_offset c n) (ac_lease (acceptor e)) \<and> l = lease_reset (ac_lease (acceptor e))"
    "e1 = upd_a (\<lambda>a. a\<lparr>ac_ballot_number := msg_ballot_number req, ac_lease := l\<rparr>) e" "self_addr x = n"
  shows "goes c S n e (send_msg (PrepareResponse (prs_set_accepted (msg_ballot_number req) l (new_prepare_response E x req))) e1)"
proof -
  let ?v = "Vote n (msg_sender req) (msg_ballot_number req) l"
  have "move (cl c) (p_time S) n (abs_agent e, p_net S \<union> abs_net e)
     ((abs_agent e)\<lparr>ag_aballot := msg_ballot_number req, ag_alease := l\<rparr>, insert ?v (p_net S \<union> abs_net e))"
    using assms by (intro CastVote) (auto simp: abs_agent_def)
  moreover have "(abs_agent e)\<lparr>ag_aballot := msg_ballot_number req, ag_alease := l\<rparr> = abs_agent e1"
    using assms(6) by (simp add: abs_agent_def)
  moreover have "server_wf c n (insert ?v (p_net S \<union> abs_net e)) e1"
    unfolding assms(6) using server_wf_mono[OF okD(9)[OF assms(1)], of "insert ?v (p_net S \<union> abs_net e)"] okD(10)[OF assms(1)] assms(3)
    by (intro vote_wf) auto
  moreover have "abs_net e1 = abs_net e" using assms(6) by simp
  ultimately show ?thesis using assms(4,7)
    by (intro goes_move[OF assms(1)]) (auto simp: prs_set_accepted_def new_prepare_response_def prepare_response_def)
qed

lemma acceptor_advance_goes:
  assumes "in_order c S n e"
  shows "goes c S n e (e\<lparr>acceptor := (reset_time_window_states (acceptor e))\<lparr>ballot_of_time_window := b\<rparr>\<rparr>)"
  using reset_window_keeps[of "acceptor e"] by (intro window_goes[OF assms]) auto

lemma advance_ballot_split:
  "ac_ballot_number a < b \<Longrightarrow> acceptor_advance_ballot b a = (reset_time_window_states a)\<lparr>ballot_of_time_window := b\<rparr>\<lparr>ac_ballot_number := b\<rparr>"
  by (simp add: acceptor_advance_ballot_def reset_time_window_states_def)

lemma vote_for_leader_goes:
  assumes "in_order c S n e" "msg_ok c (PrepareRequest req)" "abs_msg (PrepareRequest req) \<subseteq> p_net S"
  shows "goes c S n e (vote_for_leader E req e)"
proof (cases "ac_ballot_number (acceptor e) < msg_ballot_number req")
  case True
  let ?b = "msg_ballot_number req"
  let ?e1 = "e\<lparr>acceptor := (reset_time_window_states (acceptor e))\<lparr>ballot_of_time_window := ?b\<rparr>\<rparr>"
  let ?e2 = "upd_a (acceptor_advance_ballot ?b) e"
  note 1 = acceptor_advance_goes[OF assms(1), of ?b]
  have e2: "?e2 = upd_a (\<lambda>a. a\<lparr>ac_ballot_number := ?b, ac_lease := ac_lease (acceptor e)\<rparr>) ?e1"
    using True reset_window_keeps(2)[of "acceptor e"] by (simp add: advance_ballot_split)
  have "goes c S n ?e1 (send_msg (PrepareResponse (prs_set_accepted ?b (ac_lease (acceptor e)) (new_prepare_response E ?e2 req))) ?e2)"
    by (rule cast_vote_goes[OF goes_ok[OF 1]])
      (use assms(2,3) True okD(2)[OF assms(1)] reset_window_keeps(1,2)[of "acceptor e"] e2 in auto)
  moreover have "ac_ballot_number (acceptor ?e2) = ?b" "ac_lease (acceptor ?e2) = ac_lease (acceptor e)" unfolding e2 by simp_all
  ultimately show ?thesis using True goes_trans[OF 1] by (simp add: vote_for_leader_def Let_def)
qed (simp add: vote_for_leader_def goes_refl[OF assms(1)])

lemma collect_goes:
  assumes "in_order c S n e" "msg_ok c (PrepareRequest req)" "abs_msg (PrepareRequest req) \<subseteq> p_net S"
  shows "goes c S n e (collect_prepare_request E req e)"
proof -
  let ?a = "acceptor e"
  define a1 where "a1 = (if is_time_window_opened ?a \<and> msg_ballot_number req > ballot_of_time_window ?a
    then reset_time_window_states ?a else ?a)"
  obtain ret a2 where a2: "open_time_window E req a1 = (ret, a2)" by fastforce
  have k: "ac_ballot_number a2 = ac_ballot_number ?a" "ac_lease a2 = ac_lease ?a"
    "msg_ballot_number (highest_priority_prepare_req a2) \<noteq> - 1 \<Longrightarrow> highest_priority_prepare_req a2 = highest_priority_prepare_req ?a"
    using a2 reset_window_keeps[of ?a] unfolding a1_def open_time_window_def Let_def
    by (auto simp: msg_reset_def INVALID_VALUE_def split: if_splits)
  let ?e1 = "e\<lparr>acceptor := a2\<rparr>"
  have 1: "goes c S n e ?e1" using k by (intro window_goes[OF assms(1)]) auto
  let ?r = "upd_a (\<lambda>a. a\<lparr>highest_priority_prepare_req := req\<rparr>) ?e1"
  have 2: "goes c S n ?e1 ?r" using assms(2,3) by (intro window_goes[OF goes_ok[OF 1]]) auto
  have "count_prepare_request E req ?e1 \<in> {?e1, ?r}" by (simp add: count_prepare_request_def Let_def)
  then have "collect_prepare_request E req e \<in> {?e1, ?r}"
    unfolding collect_prepare_request_def Let_def a1_def[symmetric] a2 by auto
  then show ?thesis using 1 goes_trans[OF 1 2] by auto
qed

lemma acceptor_on_prepare_request_goes:
  assumes "in_order c S n e" "msg_ok c (PrepareRequest req)" "abs_msg (PrepareRequest req) \<subseteq> p_net S"
  shows "goes c S n e (acceptor_on_prepare_request E req e)"
  using goes_refl[OF assms(1)] reject_goes[OF assms(1), of req] assms(2) vote_for_leader_goes[OF assms] collect_goes[OF assms]
  by (auto simp: acceptor_on_prepare_request_def check_prepare_ballot_valid_def)

lemma expire_goes:
  assumes "in_order c S n e" "lease_is_expired (p_time S + ec_offset c n) (ac_lease (acceptor e))"
  shows "goes c S n e (upd_a (\<lambda>a. a\<lparr>ac_lease := lease_reset (ac_lease a)\<rparr>) e)"
proof -
  have "move (cl c) (p_time S) n (abs_agent e, p_net S \<union> abs_net e)
      ((abs_agent e)\<lparr>ag_alease := lease_reset (ag_alease (abs_agent e))\<rparr>, p_net S \<union> abs_net e)"
    using assms(2) by (intro Expire) (simp add: abs_agent_def)
  then show ?thesis using okD(9)[OF assms(1)] by (intro goes_move[OF assms(1)]) (auto simp: abs_agent_def server_wf_def)
qed

lemma vote_when_closed_goes:
  assumes "in_order c S n e" "mono_ts E = p_time S + ec_offset c n"
  shows "goes c S n e (vote_when_closed E e)"
proof -
  let ?a = "acceptor e" let ?req = "highest_priority_prepare_req ?a"
  show ?thesis
  proof (cases "ballot_of_time_window ?a = msg_ballot_number ?req \<and> ballot_of_time_window ?a > ac_ballot_number ?a")
    case True
    define l where "l = (if lease_is_expired (mono_ts E) (ac_lease ?a) then lease_reset (ac_lease ?a) else ac_lease ?a)"
    define e2 where "e2 = upd_a (\<lambda>a. a\<lparr>ac_ballot_number := msg_ballot_number ?req, ac_lease := l\<rparr>) e"
    have "msg_ballot_number ?req \<noteq> - 1" using True okD(10)[OF assms(1)] by simp
    then have r: "Ask (msg_sender ?req) (msg_ballot_number ?req) \<in> p_net S \<union> abs_net e"
        "msg_restart_counter ?req = ec_counter c (msg_sender ?req)"
      using okD(9)[OF assms(1)] by (simp_all add: server_wf_def Let_def)
    have "goes c S n e (send_msg (PrepareResponse (prs_set_accepted (msg_ballot_number ?req) l (new_prepare_response E e2 ?req))) e2)"
      by (rule cast_vote_goes[OF assms(1) r(1) _ r(2)])
        (use True assms(2) okD(2)[OF assms(1)] in \<open>auto simp: l_def e2_def\<close>)
    moreover have "vote_when_closed E e = send_msg (PrepareResponse (prs_set_accepted (msg_ballot_number ?req) l (new_prepare_response E e2 ?req))) e2"
      using True by (simp add: vote_when_closed_def Let_def e2_def l_def)
    ultimately show ?thesis by simp
  qed (auto simp: vote_when_closed_def Let_def goes_refl[OF assms(1)])
qed

lemma time_window_task_goes:
  assumes "in_order c S n e" "mono_ts E = p_time S + ec_offset c n"
  shows "goes c S n e (time_window_task E e)"
proof -
  let ?a = "acceptor e"
  define e1 where "e1 = (if last_record_lease_valid_state ?a \<noteq> (\<not> lease_is_expired (mono_ts E) (ac_lease ?a))
      \<and> \<not> \<not> lease_is_expired (mono_ts E) (ac_lease ?a) then upd_a (\<lambda>a. a\<lparr>ac_lease := lease_reset (ac_lease a)\<rparr>) e else e)"
  have 1: "goes c S n e e1" unfolding e1_def using goes_refl[OF assms(1)] expire_goes[OF assms(1)] assms(2) by simp
  define e2 where "e2 = (if last_record_lease_owner (acceptor e1) \<noteq> ls_owner (ac_lease (acceptor e1))
      then upd_a (\<lambda>a. a\<lparr>last_record_lease_owner := ls_owner (ac_lease a)\<rparr>) e1 else e1)"
  have 2: "goes c S n e1 e2" unfolding e2_def using goes_refl[OF goes_ok[OF 1]] irrelevant_goes(6)[OF goes_ok[OF 1]] by simp
  note 3 = vote_when_closed_goes[OF goes_ok[OF 2] assms(2)]
  note 4 = goes_trans[OF 3 irrelevant_goes(5)[OF goes_ok[OF 3], of False]]
  define e3 where "e3 = (if is_time_window_opened (acceptor e2) \<and> ((last_record_lease_valid_state ?a \<and> \<not> \<not> lease_is_expired (mono_ts E) (ac_lease ?a))
      \<or> clock_ts E - last_time_window_open_ts (acceptor e2) \<ge> CALCULATE_TIME_WINDOW_SPAN_TS (MAX_TST E))
    then upd_a (\<lambda>a. a\<lparr>is_time_window_opened := False\<rparr>) (vote_when_closed E e2) else e2)"
  have 5: "goes c S n e2 e3" unfolding e3_def using goes_refl[OF goes_ok[OF 2]] 4 by simp
  note 6 = goes_trans[OF goes_trans[OF 1 2] 5]
  have "time_window_task E e = upd_a (\<lambda>a. a\<lparr>last_record_lease_valid_state := \<not> lease_is_expired (mono_ts E) (ac_lease ?a)\<rparr>) e3"
    unfolding time_window_task_def Let_def e3_def e2_def e1_def ..
  then show ?thesis using goes_trans[OF 6 irrelevant_goes(7)[OF goes_ok[OF 6]]] by simp
qed

lemma grant_goes:
  assumes "in_order c S n e" "Offer P b s d \<in> p_net S" "ac_ballot_number (acceptor e) \<le> b" "self_addr e1 = n"
    "e1 = upd_a (\<lambda>a. a\<lparr>ac_ballot_number := b, ac_lease := \<lparr>ls_owner = P,
       lease_end_ts = max (lease_end_ts (ac_lease a)) (p_time S + ec_offset c n + d), ls_ballot_number = b\<rparr>\<rparr>) e"
    "e' = e1 \<or> (\<exists>res. e' = send_msg (AcceptResponse res) e1 \<and> msg_sender res = n \<and> msg_receiver res = P \<and> msg_ballot_number res = b
       \<and> ars_lease_started_ts_on_proposer res = s \<and> ars_lease_interval res = d \<and> ars_accepted res
       \<and> msg_restart_counter res = ec_counter c P)"
  shows "goes c S n e e'"
proof -
  define M where "M = (if e' = e1 then {} else {Promise n P b s d})"
  let ?l = "\<lparr>ls_owner = P, lease_end_ts = max (lease_end_ts (ac_lease (acceptor e))) (p_time S + ec_offset c n + d), ls_ballot_number = b\<rparr>"
  have net: "abs_net e' = M \<union> abs_net e" "abs_agent e' = abs_agent e1" using assms(5,6) by (auto simp: M_def)
  have "move (cl c) (p_time S) n (abs_agent e, p_net S \<union> abs_net e)
      ((abs_agent e)\<lparr>ag_aballot := b, ag_alease := \<lparr>ls_owner = P, lease_end_ts = max (lease_end_ts (ag_alease (abs_agent e))) (p_time S + cl_offset (cl c) n + d), ls_ballot_number = b\<rparr>\<rparr>,
       M \<union> (p_net S \<union> abs_net e))"
    using assms(2,3) by (intro Grant) (auto simp: abs_agent_def M_def)
  then have "move (cl c) (p_time S) n (abs_agent e, p_net S \<union> abs_net e) (abs_agent e', p_net S \<union> abs_net e')"
    unfolding net using assms(5) by (simp add: abs_agent_def Un_left_commute)
  moreover have "server_wf c n (p_net S \<union> abs_net e') e1"
    unfolding assms(5) using server_wf_mono[OF okD(9)[OF assms(1)], of "p_net S \<union> abs_net e'"] okD(10)[OF assms(1)] assms(3) net
    by (intro vote_wf) auto
  ultimately show ?thesis using assms(6) by (intro goes_move[OF assms(1)]) auto
qed

lemma accept_response_fields:
  assumes "ars_set_accepted b pri (new_accept_response E e req) = (ret, res)"
  shows "msg_sender res = self_addr e" "msg_receiver res = msg_sender req" "msg_ballot_number res = b"
    "ars_lease_started_ts_on_proposer res = arq_lease_start_ts_on_proposer req" "ars_lease_interval res = arq_lease_interval req"
    "ars_accepted res" "msg_restart_counter res = msg_restart_counter req"
  using assms by (auto simp: ars_set_accepted_def new_accept_response_def accept_response_def Let_def
      split: option.splits prod.splits if_splits)

lemma acceptor_on_accept_request_goes:
  assumes "in_order c S n e" "msg_ok c (AcceptRequest req)" "abs_msg (AcceptRequest req) \<subseteq> p_net S" "mono_ts E = p_time S + ec_offset c n"
  obtains us e' where "acceptor_on_accept_request E req e = Some (e', us)" "goes c S n e e'"
proof -
  let ?b = "msg_ballot_number req" let ?a = "acceptor e"
  let ?r = "send_msg (AcceptResponse (ars_set_rejected (ac_ballot_number ?a) (new_accept_response E e req))) e"
  have r: "goes c S n e ?r" using assms(1,2) okD(9)[OF assms(1)]
    by (intro goes_stutter[OF assms(1)]) (simp_all add: ars_set_rejected_def new_accept_response_def accept_response_def)
  consider "keeps_silence E" | "\<not> keeps_silence E" "?b < ac_ballot_number ?a" | "\<not> keeps_silence E" "ac_ballot_number ?a \<le> ?b"
    by fastforce
  then show ?thesis
  proof cases
    case 1
    then show ?thesis using that[of e] goes_refl[OF assms(1)] by (simp add: acceptor_on_accept_request_def)
  next
    case 2
    then show ?thesis using that[of ?r] r by (simp add: acceptor_on_accept_request_def check_accept_ballot_valid_def)
  next
    case 3
    define a2 where "a2 = (if ?b > ac_ballot_number ?a then (reset_time_window_states ?a)\<lparr>ballot_of_time_window := ?b\<rparr> else ?a)"
    have a2: "ac_ballot_number a2 = ac_ballot_number ?a" "ac_lease a2 = ac_lease ?a"
      "msg_ballot_number (highest_priority_prepare_req a2) \<noteq> - 1 \<Longrightarrow> highest_priority_prepare_req a2 = highest_priority_prepare_req ?a"
      unfolding a2_def using reset_window_keeps[of ?a] by auto
    let ?e2 = "e\<lparr>acceptor := a2\<rparr>"
    have 2: "goes c S n e ?e2" using a2 by (intro window_goes[OF assms(1)]) auto
    define l where "l = \<lparr>ls_owner = msg_sender req, lease_end_ts = max (lease_end_ts (ac_lease ?a)) (mono_ts E + arq_lease_interval req), ls_ballot_number = ?b\<rparr>"
    let ?e3 = "e\<lparr>acceptor := a2\<lparr>ac_ballot_number := ?b, ac_lease := l\<rparr>\<rparr>"
    have adv: "(if ?b > ac_ballot_number ?a then upd_a (acceptor_advance_ballot ?b) e else e) = e\<lparr>acceptor := a2\<lparr>ac_ballot_number := ?b\<rparr>\<rparr>"
      using 3 by (auto simp: a2_def advance_ballot_split)
    have up: "lease_update_from (mono_ts E) (ac_lease a2) req = Some l"
      using okD(11)[OF assms(1)] 3 a2 by (simp add: lease_update_from_def l_def)
    obtain ret res where res: "ars_set_accepted ?b (get_priority E ?e3) (new_accept_response E ?e3 req) = (ret, res)" by fastforce
    note f = accept_response_fields[OF res]
    let ?e' = "if ret \<noteq> OB_SUCCESS then ?e3 else send_msg (AcceptResponse res) ?e3"
    have "acceptor_on_accept_request E req e = Some (?e', lease_end_ts l - mono_ts E)"
      using 3 up res unfolding acceptor_on_accept_request_def check_accept_ballot_valid_def by (simp add: adv Let_def)
    moreover have "goes c S n ?e2 ?e'"
      by (rule grant_goes[OF goes_ok[OF 2], of "msg_sender req" ?b "arq_lease_start_ts_on_proposer req" "arq_lease_interval req" ?e3])
        (use assms(2-) 3 a2 f okD(2)[OF assms(1)] in \<open>auto simp: l_def\<close>)
    ultimately show ?thesis using that goes_trans[OF 2] by blast
  qed
qed

end
