(* ===== verification/Election_System.thy ===== *)
theory Election_System
  imports Election_Handlers
begin

text \<open>
  A cluster of election objects: servers, the messages that were ever sent, and the real time. A
  step is one call on one member, at the time its own clock shows, or the passing of time. Messages
  stay on the net, so that they may arrive late, repeatedly, in any order or never; a timer task may
  run at any moment while the election runs. The members are fixed, clocks advance at the same
  rate, and servers do not restart.
\<close>

datatype el_op =
    Deliver ElectionMsg
  | WindowTask
  | RenewTask
  | DevoteTask
  | SetMembers MemberList
  | ChangeLeaderTo ObAddr
  | Stop
  | SetPriority bool
  | ResetPriority
  | Downgrade int
  | AddSeedBit u64
  | ClearSeedBit u64
  | SetSeed u64

fun el_call :: "el_env \<Rightarrow> el_op \<Rightarrow> ElectionImpl \<Rightarrow> ElectionImpl option" where
  "el_call E (Deliver m) e = map_option snd (handle_message E m e)"
| "el_call E WindowTask e = Some (time_window_task E e)"
| "el_call E RenewTask e = Some (renew_lease_task E e)"
| "el_call E DevoteTask e = devote_task E e"
| "el_call E (SetMembers l) e = map_option snd (set_memberlist E l e)"
| "el_call E (ChangeLeaderTo dst) e = map_option snd (change_leader_to E dst e)"
| "el_call E Stop e = Some (stop E e)"
| "el_call E (SetPriority given) e = Some (snd (set_priority given e))"
| "el_call E ResetPriority e = Some (snd (reset_priority e))"
| "el_call E (Downgrade time_us) e = Some (snd (temporarily_downgrade_protocol_priority E time_us e))"
| "el_call E (AddSeedBit b) e = Some (snd (add_inner_priority_seed_bit b e))"
| "el_call E (ClearSeedBit b) e = Some (snd (clear_inner_priority_seed_bit b e))"
| "el_call E (SetSeed w) e = Some (snd (set_inner_priority_seed w e))"

record el_system =
  es_time :: int
  es_servers :: "ObAddr \<Rightarrow> ElectionImpl"
  es_net :: "ElectionMsg set"

fun msg_dst :: "ElectionMsg \<Rightarrow> ObAddr" where
  "msg_dst (PrepareRequest m) = msg_receiver m"
| "msg_dst (PrepareResponse m) = msg_receiver m"
| "msg_dst (AcceptRequest m) = msg_receiver m"
| "msg_dst (AcceptResponse m) = msg_receiver m"
| "msg_dst (ChangeLeader m) = msg_receiver m"

fun may_call :: "el_cluster \<Rightarrow> el_system \<Rightarrow> ObAddr \<Rightarrow> el_op \<Rightarrow> bool" where
  "may_call c s n (Deliver m) \<longleftrightarrow> m \<in> es_net s \<and> msg_dst m = n"
| "may_call c s n (SetMembers l) \<longleftrightarrow> addr_list l = ec_members c \<and> replica_num l = length (ec_members c)"
| "may_call c s n WindowTask \<longleftrightarrow> is_running (es_servers s n)"
| "may_call c s n RenewTask \<longleftrightarrow> is_running (es_servers s n)"
| "may_call c s n DevoteTask \<longleftrightarrow> is_running (es_servers s n)"
| "may_call c s n _ \<longleftrightarrow> True"

definition after_call :: "el_system \<Rightarrow> ObAddr \<Rightarrow> ElectionImpl \<Rightarrow> el_system" where
  "after_call s n e = s\<lparr>es_servers := (es_servers s)(n := e), es_net := es_net s \<union> set (sent_msgs e)\<rparr>"

inductive el_step :: "el_cluster \<Rightarrow> el_system \<Rightarrow> (ObAddr \<times> el_op) option \<Rightarrow> el_system \<Rightarrow> bool" for c where
  Call: "\<lbrakk>n \<in> set (ec_members c); may_call c s n a; mono_ts E = es_time s + ec_offset c n;
      el_call E a (es_servers s n) = Some e\<rbrakk> \<Longrightarrow> el_step c s (Some (n, a)) (after_call s n e)"
| Tick: "es_time s \<le> t \<Longrightarrow> el_step c s None (s\<lparr>es_time := t\<rparr>)"

inductive_cases el_stepE: "el_step c s x s'"

text \<open>The start: every server has been initialised and has no member list yet.\<close>

definition all_well :: start_codes where
  "all_well = \<lparr>mls_init_ok = True, prepare_cb_ret = OB_SUCCESS, role_cb_ret = OB_SUCCESS, devote_ret = OB_SUCCESS,
     renew_ret = OB_SUCCESS, window_ret = OB_SUCCESS\<rparr>"

definition started :: "el_cluster \<Rightarrow> int \<Rightarrow> u64 \<Rightarrow> ObAddr \<Rightarrow> ElectionImpl" where
  "started c ls seed n = snd (init_and_start all_well ls True True n seed (ec_counter c n) election_construct)"

definition cluster_ok :: "el_cluster \<Rightarrow> bool" where
  "cluster_ok c \<longleftrightarrow> ec_members c \<noteq> [] \<and> distinct (ec_members c) \<and> None \<notin> set (ec_members c)
     \<and> (\<forall>n\<in>set (ec_members c). 0 \<le> ec_offset c n)"

definition el_init :: "el_cluster \<Rightarrow> el_system \<Rightarrow> bool" where
  "el_init c s \<longleftrightarrow> 0 \<le> es_time s \<and> (\<forall>n. \<exists>ls seed. es_servers s n = started c ls seed n) \<and> es_net s = {}"

subsection \<open>Invariant\<close>

definition abs_system :: "el_system \<Rightarrow> pstate" where
  "abs_system s = \<lparr>p_time = es_time s, p_agents = (\<lambda>n. abs_agent (es_servers s n)), p_net = (\<Union>m\<in>es_net s. abs_msg m)\<rparr>"

definition el_inv :: "el_cluster \<Rightarrow> el_system \<Rightarrow> bool" where
  "el_inv c s \<longleftrightarrow> 0 \<le> es_time s \<and> protocol_inv (cl c) (abs_system s)
     \<and> (\<forall>n. server_wf c n (p_net (abs_system s)) (es_servers s n) \<and> set (sent_msgs (es_servers s n)) \<subseteq> es_net s)
     \<and> (\<forall>m\<in>es_net s. msg_ok c m)"

lemma abs_system_lift: "el_inv c s \<Longrightarrow> lift (abs_system s) n (es_servers s n) = abs_system s"
proof -
  assume "el_inv c s"
  then have "abs_net (es_servers s n) \<subseteq> p_net (abs_system s)" by (auto simp: el_inv_def abs_net_def abs_system_def)
  then have "p_net (abs_system s) \<union> abs_net (es_servers s n) = p_net (abs_system s)" by blast
  then show ?thesis by (simp add: lift_def) (simp add: abs_system_def fun_upd_idem)
qed

lemma el_inv_ok:
  assumes "el_inv c s" "cluster_ok c" "n \<in> set (ec_members c)"
  shows "in_order c (abs_system s) n (es_servers s n)"
proof -
  have "server_wf c n (p_net (abs_system s) \<union> abs_net (es_servers s n)) (es_servers s n)"
    using assms(1) by (auto simp: el_inv_def intro: server_wf_mono)
  moreover have "n \<noteq> None" using assms(2,3) by (metis cluster_ok_def)
  ultimately show ?thesis using abs_system_lift[OF assms(1), of n] assms(1,2) by (simp add: in_order_def el_inv_def cluster_ok_def)
qed

lemma lift_after_call: "lift (abs_system s) n e = abs_system (after_call s n e)"
  by (auto simp: lift_def abs_system_def after_call_def abs_net_def)

text \<open>A call is a sequence of moves of the protocol and keeps the invariant.\<close>

lemma goes_inv:
  assumes "el_inv c s" "goes c (abs_system s) n (es_servers s n) e"
  shows "el_inv c (after_call s n e)" "(agent_moves (cl c) n)\<^sup>*\<^sup>* (abs_system s) (abs_system (after_call s n e))"
proof -
  let ?s = "after_call s n e"
  have k: "in_order c (abs_system s) n e" using assms(2) by (rule goes_ok)
  have net: "p_net (abs_system s) \<union> abs_net e = p_net (abs_system ?s)"
    by (auto simp: abs_system_def after_call_def abs_net_def)
  show "(agent_moves (cl c) n)\<^sup>*\<^sup>* (abs_system s) (abs_system ?s)"
    using assms(2) abs_system_lift[OF assms(1), of n] lift_after_call[of s n e] by (simp add: goes_def)
  have "protocol_inv (cl c) (abs_system ?s)" using k lift_after_call[of s n e] by (simp add: in_order_def)
  moreover have "server_wf c m (p_net (abs_system ?s)) (es_servers ?s m)" for m
  proof (cases "m = n")
    case True
    then show ?thesis using okD(9)[OF k] net by (simp add: after_call_def)
  next
    case False
    then have "server_wf c m (p_net (abs_system s)) (es_servers ?s m)" using assms(1) by (simp add: el_inv_def after_call_def)
    then show ?thesis by (rule server_wf_mono) (use net in blast)
  qed
  moreover have "\<forall>m\<in>set (sent_msgs e). msg_ok c m" using okD(9)[OF k] by (simp add: server_wf_def)
  ultimately show "el_inv c ?s" using assms(1) by (auto simp: el_inv_def after_call_def)
qed

subsection \<open>Every call is good\<close>

lemma base_goes: "in_order c S n e \<Longrightarrow> goes c S n e (handle_message_base m e)"
  unfolding handle_message_base_def by (rule outer_goes(5))

lemma handle_prepare_request_goes:
  assumes "in_order c S n e" "msg_ok c (PrepareRequest m)" "abs_msg (PrepareRequest m) \<subseteq> p_net S"
  shows "\<exists>ret e'. handle_prepare_request E m e = Some (ret, e') \<and> goes c S n e e'"
proof -
  let ?e1 = "handle_message_base m e"
  note 1 = base_goes[OF assms(1), of m]
  obtain need e2 where e2: "(if msg_sender m \<noteq> self_addr ?e1 then proposer_on_prepare_request E m ?e1 else Some (False, ?e1)) = Some (need, e2)"
      "goes c S n ?e1 e2"
    using that proposer_on_prepare_request_goes[OF goes_ok[OF 1] assms(2), of E] goes_refl[OF goes_ok[OF 1]] by (metis (full_types))
  note 3 = acceptor_on_prepare_request_goes[OF goes_ok[OF e2(2)] assms(2,3), of E]
  let ?e3 = "acceptor_on_prepare_request E m e2"
  note 4 = reschedule_goes[OF goes_ok[OF 3], of E "CALCULATE_MAX_ELECT_COST_TIME (MAX_TST E)"]
  have "\<exists>ret. handle_prepare_request E m e \<in> {Some (ret, ?e1), Some (ret, ?e3),
      Some (ret, snd (reschedule_or_register_prepare_task_after E (CALCULATE_MAX_ELECT_COST_TIME (MAX_TST E)) ?e3))}"
    unfolding handle_prepare_request_def Let_def using e2(1) by (auto simp: prod_eq_iff)
  then show ?thesis
    using 1 goes_trans[OF goes_trans[OF 1 e2(2)] 3] goes_trans[OF goes_trans[OF goes_trans[OF 1 e2(2)] 3] 4] by blast
qed

lemma handle_accept_request_goes:
  assumes "in_order c S n e" "msg_ok c (AcceptRequest m)" "abs_msg (AcceptRequest m) \<subseteq> p_net S" "mono_ts E = p_time S + ec_offset c n"
  shows "\<exists>ret e'. handle_accept_request E m e = Some (ret, e') \<and> goes c S n e e'"
proof -
  let ?e1 = "handle_message_base m e"
  note 1 = base_goes[OF assms(1), of m]
  obtain e2 where e2: "(if msg_ballot_number m > pr_ballot_number (proposer ?e1)
      then proposer_advance_ballot (msg_ballot_number m) ?e1 else Some ?e1) = Some e2" "goes c S n ?e1 e2"
    using that advance_goes[OF goes_ok[OF 1], of "msg_ballot_number m"] goes_refl[OF goes_ok[OF 1]] by (metis less_imp_le)
  obtain us e3 where e3: "acceptor_on_accept_request E m e2 = Some (e3, us)" "goes c S n e2 e3"
    using acceptor_on_accept_request_goes[OF goes_ok[OF e2(2)] assms(2,3,4)] by blast
  note 3 = goes_trans[OF goes_trans[OF 1 e2(2)] e3(2)]
  let ?d = "us - CALCULATE_TRIGGER_ELECT_WATER_MARK (MAX_TST E)"
  note 4 = goes_trans[OF 3 reschedule_goes[OF goes_ok[OF 3], of E ?d]]
  have "\<exists>ret. handle_accept_request E m e \<in> {Some (ret, ?e1), Some (ret, e3), Some (ret, snd (reschedule_or_register_prepare_task_after E ?d e3))}"
    unfolding handle_accept_request_def Let_def using e2(1) e3(1) by (auto simp: prod_eq_iff)
  then show ?thesis using 1 3 4 by blast
qed

lemma handle_message_goes:
  assumes "in_order c S n e" "msg_ok c m" "abs_msg m \<subseteq> p_net S" "msg_dst m = n" "mono_ts E = p_time S + ec_offset c n"
  shows "\<exists>ret e'. handle_message E m e = Some (ret, e') \<and> goes c S n e e'"
proof (cases m)
  case (PrepareRequest x)
  then show ?thesis using handle_prepare_request_goes[OF assms(1)] assms(2,3) by simp
next
  case (AcceptRequest x)
  then show ?thesis using handle_accept_request_goes[OF assms(1)] assms by simp
next
  case (PrepareResponse x)
  note 1 = base_goes[OF assms(1), of x]
  obtain e' where "on_prepare_response E x (handle_message_base x e) = Some e'" "goes c S n (handle_message_base x e) e'"
    using on_prepare_response_goes[OF goes_ok[OF 1]] assms PrepareResponse by (metis msg_dst.simps(2))
  then show ?thesis using PrepareResponse 1 goes_trans[OF 1] by (auto simp: handle_prepare_response_def Let_def)
next
  case (AcceptResponse x)
  note 1 = base_goes[OF assms(1), of x]
  obtain e' where "on_accept_response E x (handle_message_base x e) = Some e'" "goes c S n (handle_message_base x e) e'"
    using on_accept_response_goes[OF goes_ok[OF 1]] assms AcceptResponse by (metis msg_dst.simps(4))
  then show ?thesis using AcceptResponse 1 goes_trans[OF 1] by (auto simp: handle_accept_response_def Let_def)
next
  case (ChangeLeader x)
  note 1 = base_goes[OF assms(1), of x]
  obtain e' where "on_change_leader E x (handle_message_base x e) = Some e'" "goes c S n (handle_message_base x e) e'"
    using on_change_leader_goes[OF goes_ok[OF 1]] assms ChangeLeader by (metis msg_dst.simps(5))
  then show ?thesis using ChangeLeader 1 goes_trans[OF 1] by (auto simp: handle_change_leader_def Let_def)
qed

lemma el_call_goes:
  assumes "in_order c (abs_system s) n (es_servers s n)" "el_inv c s" "may_call c s n a" "mono_ts E = es_time s + ec_offset c n"
  shows "\<exists>e'. el_call E a (es_servers s n) = Some e' \<and> goes c (abs_system s) n (es_servers s n) e'"
proof -
  let ?S = "abs_system s" let ?e = "es_servers s n"
  have t: "mono_ts E = p_time ?S + ec_offset c n" using assms(4) by (simp add: abs_system_def)
  note refl = goes_refl[OF assms(1)]
  note out = outer_goes[OF assms(1)]
  show ?thesis
  proof (cases a)
    case (Deliver m)
    then have "m \<in> es_net s" "msg_dst m = n" using assms(3) by auto
    moreover have "msg_ok c m" "abs_msg m \<subseteq> p_net ?S" using calculation(1) assms(2) by (auto simp: el_inv_def abs_system_def)
    ultimately show ?thesis using handle_message_goes[OF assms(1) _ _ _ t] Deliver by fastforce
  next
    case (SetMembers l)
    then obtain ret e' where "proposer_set_member_list E l ?e = Some (ret, e')" "goes c ?S n ?e e'"
      using set_member_list_goes[OF assms(1)] assms(3) by (metis may_call.simps(2))
    then show ?thesis using SetMembers refl by (auto simp: set_memberlist_def)
  next
    case (ChangeLeaderTo dst)
    obtain ret e' where "proposer_change_leader_to E dst ?e = Some (ret, e')" "goes c ?S n ?e e'"
      using change_leader_to_goes[OF assms(1)] by blast
    then show ?thesis using ChangeLeaderTo refl by (auto simp: change_leader_to_def)
  next
    case DevoteTask
    then show ?thesis using devote_task_goes[OF assms(1)] by (metis el_call.simps(4))
  qed (use refl out time_window_task_goes[OF assms(1) t] renew_lease_task_goes[OF assms(1) t] stop_goes[OF assms(1)] in
      \<open>simp_all add: set_priority_def reset_priority_def temporarily_downgrade_protocol_priority_def add_inner_priority_seed_bit_def
        clear_inner_priority_seed_bit_def set_inner_priority_seed_def\<close>)
qed

end
