(* ===== verification/Election_Liveness.thy ===== *)
theory Election_Liveness
  imports Election_Handlers
begin

text \<open>
  A candidate whose accept requests a majority has answered is elected: after the answers have been
  handled, in whatever order, it is the leader.
\<close>

fun handle_accept_responses :: "el_env \<Rightarrow> ElectionAcceptResponseMsg list \<Rightarrow> ElectionImpl \<Rightarrow> ElectionImpl option" where
  "handle_accept_responses E [] e = Some e"
| "handle_accept_responses E (m # ms) e =
     (case handle_accept_response E m e of None \<Rightarrow> None | Some (ret, e1) \<Rightarrow> handle_accept_responses E ms e1)"

definition promised :: "el_env \<Rightarrow> MemberListWithStates \<Rightarrow> ObAddr set" where
  "promised E s = {addr_list (member_list s) ! i | i. i < length (accept_ok s) \<and> mono_ts E < accept_ok s ! i}"

text \<open>The candidate: it runs, has its member list, leads or has not yet the role of a leader, and
  its priority knows no fatal failure.\<close>

definition candidate :: "el_cluster \<Rightarrow> el_env \<Rightarrow> int \<Rightarrow> int \<Rightarrow> ElectionImpl \<Rightarrow> bool" where
  "candidate c E b k e \<longleftrightarrow> el_is_inited e \<and> is_running e \<and> books_ok c (memberlist_with_states (proposer e))
     \<and> addr_list (pr_member_list e) = ec_members c \<and> pr_ballot_number (proposer e) = b \<and> restart_counter (proposer e) = k
     \<and> \<not> (has_priority e \<and> has_fatal_failure E) \<and> (check_leader E e \<or> pr_role (proposer e) = FOLLOWER)"

definition good_answer :: "el_cluster \<Rightarrow> el_env \<Rightarrow> int \<Rightarrow> int \<Rightarrow> ElectionAcceptResponseMsg \<Rightarrow> bool" where
  "good_answer c E b k m \<longleftrightarrow> msg_restart_counter m = k \<and> msg_ballot_number m = b \<and> ars_accepted m
     \<and> msg_sender m \<in> set (ec_members c) \<and> mono_ts E < ars_lease_started_ts_on_proposer m + ars_lease_interval m"

lemma majority_mono: "\<lbrakk>majority (cl c) Q; Q \<subseteq> Q'; Q' \<subseteq> set (ec_members c)\<rbrakk> \<Longrightarrow> majority (cl c) Q'"
  using card_mono[of Q' Q] finite_subset[of Q' "set (ec_members c)"] by (auto simp: majority_def)

lemma index_from_none: "index_from x i xs = None \<longleftrightarrow> x \<notin> set xs"
  by (induction x i xs rule: index_from.induct) auto

lemma record_promise:
  assumes "books_ok c s" "addr_list (member_list s) = ec_members c" "msg_sender m \<in> set (ec_members c)"
    "mono_ts E < ars_lease_started_ts_on_proposer m + ars_lease_interval m" "record_accept_ok s m = (ret, s1)"
  shows "books_ok c s1" "member_list s1 = member_list s" "insert (msg_sender m) (promised E s) \<subseteq> promised E s1"
    "length (accept_ok s1) = length (ec_members c)"
    "ret = (if count_if (\<lambda>v. v \<noteq> 0) (accept_ok s1) < majority_count s1 then OB_ELECTION_BELOW_MAJORITY else OB_SUCCESS)"
proof -
  obtain k where k: "get_server_idx_in_memberlist s (msg_sender m) = Some k"
    using assms(2,3) by (cases "get_server_idx_in_memberlist s (msg_sender m)") (auto simp: get_server_idx_in_memberlist_def index_from_none)
  note i = server_idx_some[OF k]
  note b = books_indexed[OF assms(1) conjunct1[OF i]]
  let ?t = "ars_lease_started_ts_on_proposer m + ars_lease_interval m"
  have s1: "member_list s1 = member_list s" "accept_ok s1 = (accept_ok s)[k := max (accept_ok s ! k) ?t]"
      "ret = (if count_if (\<lambda>v. v \<noteq> 0) (accept_ok s1) < majority_count s1 then OB_ELECTION_BELOW_MAJORITY else OB_SUCCESS)"
    using assms(5) k by (auto simp: record_accept_ok_def Let_def)
  have kl: "k < length (accept_ok s)" using b i by simp
  show "books_ok c s1" "member_list s1 = member_list s" "length (accept_ok s1) = length (ec_members c)"
      "ret = (if count_if (\<lambda>v. v \<noteq> 0) (accept_ok s1) < majority_count s1 then OB_ELECTION_BELOW_MAJORITY else OB_SUCCESS)"
    using record_accept_ok_facts[OF assms(1,5)] s1 b by auto
  have "msg_sender m \<in> promised E s1"
    using i kl assms(4) s1 by (auto simp: promised_def intro!: exI[of _ k])
  moreover have "promised E s \<subseteq> promised E s1"
  proof
    fix x assume "x \<in> promised E s"
    then obtain j where j: "x = addr_list (member_list s) ! j" "j < length (accept_ok s)" "mono_ts E < accept_ok s ! j"
      by (auto simp: promised_def)
    then show "x \<in> promised E s1" using s1(1,2) assms(4) kl by (auto simp: promised_def nth_list_update intro!: exI[of _ j])
  qed
  ultimately show "insert (msg_sender m) (promised E s) \<subseteq> promised E s1" by blast
qed

text \<open>The promises of a majority reach beyond now: then so does the lease they give.\<close>

lemma majority_lease:
  assumes "distinct (ec_members c)" "books_ok c s" "addr_list (member_list s) = ec_members c"
    "length (accept_ok s) = length (ec_members c)" "majority (cl c) (promised E s)" "0 \<le> mono_ts E"
  shows "mono_ts E < get_majority_promised_not_vote_ts s" "\<not> count_if (\<lambda>v. v \<noteq> 0) (accept_ok s) < majority_count s"
proof -
  let ?xs = "accept_ok s" let ?I = "{i. i < length ?xs \<and> mono_ts E < ?xs ! i}"
  have "promised E s = (\<lambda>i. ec_members c ! i) ` ?I" using assms(3) by (auto simp: promised_def)
  then have "card (promised E s) \<le> card ?I" by (simp add: card_image_le)
  then have I: "length ?xs < 2 * card ?I" using assms(1,4,5) by (simp add: majority_def distinct_card)
  show "mono_ts E < get_majority_promised_not_vote_ts s"
  proof (rule ccontr)
    assume n: "\<not> ?thesis"
    have "card ?I \<le> card {i. i < length ?xs \<and> get_sorted_majority_one_desc ?xs < ?xs ! i}"
      by (rule card_mono) (use n in \<open>auto simp: get_majority_promised_not_vote_ts_def\<close>)
    then show False using majority_not_exceeded[of ?xs] I by linarith
  qed
  have "?I \<subseteq> {i. i < length ?xs \<and> ?xs ! i \<noteq> 0}" using assms(6) by auto
  then have "card ?I \<le> card {i. i < length ?xs \<and> ?xs ! i \<noteq> 0}" by (intro card_mono) auto
  moreover have "replica_num (member_list s) = length ?xs" using assms(2) by (simp add: books_ok_def)
  ultimately show "\<not> count_if (\<lambda>v. v \<noteq> 0) ?xs < majority_count s"
    using I by (simp add: count_if_def majority_count_def length_filter_conv_card)
qed

lemma propose_keeps:
  "proposer (propose E e) = (proposer e)\<lparr>record_lease_interval := CALCULATE_LEASE_INTERVAL (MAX_TST E)\<rparr>"
  "has_priority (propose E e) = has_priority e" "el_is_inited (propose E e) = el_is_inited e" "is_running (propose E e) = is_running e"
  by (simp_all add: propose_def broadcast_def Let_def)

definition same_standing :: "el_env \<Rightarrow> ElectionImpl \<Rightarrow> ElectionImpl \<Rightarrow> bool" where
  "same_standing E e e' \<longleftrightarrow> leader_lease (proposer e') = leader_lease (proposer e) \<and> has_priority e' = has_priority e
     \<and> el_is_inited e' = el_is_inited e \<and> is_running e' = is_running e
     \<and> memberlist_with_states (proposer e') = memberlist_with_states (proposer e)
     \<and> pr_ballot_number (proposer e') = pr_ballot_number (proposer e) \<and> restart_counter (proposer e') = restart_counter (proposer e)
     \<and> (check_leader E e \<or> pr_role (proposer e') = pr_role (proposer e))"

lemma takeover_standing: "same_standing E e (snd (leader_takeover_if_lease_valid E r e))"
proof (cases "pr_role (proposer e) \<noteq> LEADER \<and> check_leader E e")
  case True
  then show ?thesis by (simp add: same_standing_def leader_takeover_if_lease_valid_def propose_keeps cache_reset_def)
next
  case False
  then have "snd (leader_takeover_if_lease_valid E r e) = e" unfolding leader_takeover_if_lease_valid_def by (simp only: if_False snd_conv)
  then show ?thesis by (simp add: same_standing_def)
qed

lemma standing_refl: "same_standing E e e"
  by (simp add: same_standing_def)

lemma unsource_standing:
  "same_standing E e e' \<Longrightarrow>
     same_standing E e (upd_p (\<lambda>p. p\<lparr>switch_source_leader_ballot := INVALID_VALUE, switch_source_leader_addr := None\<rparr>) e')"
  by (simp add: same_standing_def)

text \<open>Taking a lease never takes the leadership away from a candidate.\<close>

lemma take_new_lease_candidate:
  assumes "candidate c E b k e"
  shows "candidate c E b k (take_new_lease E v e)" "check_leader E e \<Longrightarrow> check_leader E (take_new_lease E v e)"
    "mono_ts E < v \<Longrightarrow> check_leader E (take_new_lease E v e)"
    "memberlist_with_states (proposer (take_new_lease E v e)) = memberlist_with_states (proposer e)"
proof -
  let ?e1 = "snd (leader_revoke_if_lease_expired E LeaseExpiredToRevoke e)"
  have r: "?e1 = e" using assms by (auto simp: candidate_def leader_revoke_if_lease_expired_def)
  define e2 where "e2 = (if v > leader_lease (proposer e)
    then upd_p (\<lambda>p. set_lease_and_epoch_if_lease_expired_or_just_set_lease E v (prepare_success_ballot p) p) e else e)"
  have e2: "leader_lease (proposer e2) = max v (leader_lease (proposer e))" "has_priority e2 = has_priority e"
      "el_is_inited e2 = el_is_inited e" "is_running e2 = is_running e" "pr_role (proposer e2) = pr_role (proposer e)"
      "memberlist_with_states (proposer e2) = memberlist_with_states (proposer e)"
      "pr_ballot_number (proposer e2) = pr_ballot_number (proposer e)" "restart_counter (proposer e2) = restart_counter (proposer e)"
    by (auto simp: e2_def set_lease_and_epoch_if_lease_expired_or_just_set_lease_def Let_def)
  have t: "take_new_lease E v e \<in> {e2, snd (leader_takeover_if_lease_valid E ChangeLeaderToBeLeader e2),
      snd (leader_takeover_if_lease_valid E DevoteToBeLeader e2),
      upd_p (\<lambda>p. p\<lparr>switch_source_leader_ballot := INVALID_VALUE, switch_source_leader_addr := None\<rparr>)
        (snd (leader_takeover_if_lease_valid E ChangeLeaderToBeLeader e2))}"
    unfolding take_new_lease_def Let_def r e2_def[symmetric] by (auto simp: case_prod_beta)
  have f': "same_standing E e2 (take_new_lease E v e)"
    using t takeover_standing[of E e2 DevoteToBeLeader] takeover_standing[of E e2 ChangeLeaderToBeLeader]
      unsource_standing[OF takeover_standing[of E e2 ChangeLeaderToBeLeader]] standing_refl by auto
  note f' = f'[unfolded same_standing_def]
  show "memberlist_with_states (proposer (take_new_lease E v e)) = memberlist_with_states (proposer e)" using f' e2 by simp
  have l: "check_leader E (take_new_lease E v e) \<longleftrightarrow> check_leader E e \<or> mono_ts E < v"
    using f' e2(1) by (auto simp: check_leader_def)
  show "check_leader E e \<Longrightarrow> check_leader E (take_new_lease E v e)" "mono_ts E < v \<Longrightarrow> check_leader E (take_new_lease E v e)"
    using l by blast+
  have "check_leader E e2 = check_leader E (take_new_lease E v e)" using f' by (simp add: check_leader_def)
  then show "candidate c E b k (take_new_lease E v e)" using assms f' e2 l by (auto simp: candidate_def)
qed

lemma compare_candidate:
  assumes "candidate c E b k e"
  obtains e' where "compare_with_follower E m e = Some e'" "candidate c E b k e'" "check_leader E e' = check_leader E e"
    "memberlist_with_states (proposer e') = memberlist_with_states (proposer e)"
proof -
  let ?e1 = "upd_p (cache_check_expired E) e"
  obtain ret mock where mock: "mock_self_accept_response E e = (ret, mock)" by fastforce
  have p: "\<exists>r. prepare_change_leader_to E dst ?e1 = Some (r, ?e1)" for dst
    using assms by (auto simp: prepare_change_leader_to_def candidate_def split: option.splits)
  have "compare_with_follower E m e \<in> {Some e, Some ?e1, Some (upd_p (cache_set E m) ?e1)}"
    using p[of "msg_sender (cached_msg (proposer ?e1))"] by (auto simp: compare_with_follower_def mock Let_def)
  then consider "compare_with_follower E m e = Some e" | "compare_with_follower E m e = Some ?e1"
    | "compare_with_follower E m e = Some (upd_p (cache_set E m) ?e1)" by blast
  then show ?thesis
    by cases (rule that, assumption, use assms in \<open>auto simp: candidate_def check_leader_def cache_check_expired_def cache_reset_def cache_set_def\<close>)+
qed

lemma one_answer:
  assumes "candidate c E b k e" "good_answer c E b k m" "distinct (ec_members c)" "0 \<le> mono_ts E"
  obtains ret e' where "handle_accept_response E m e = Some (ret, e')" "candidate c E b k e'"
    "check_leader E e \<Longrightarrow> check_leader E e'"
    "insert (msg_sender m) (promised E (memberlist_with_states (proposer e))) \<subseteq> promised E (memberlist_with_states (proposer e'))"
    "majority (cl c) (promised E (memberlist_with_states (proposer e'))) \<Longrightarrow> check_leader E e'"
proof -
  let ?e1 = "handle_message_base m e" let ?s = "memberlist_with_states (proposer e)"
  have e1: "candidate c E b k ?e1" "check_leader E ?e1 = check_leader E e" "memberlist_with_states (proposer ?e1) = ?s"
    using assms(1) by (auto simp: candidate_def handle_message_base_def check_leader_def)
  have chk: "check_ballot_and_restart_counter_valid_and_accepted E (msg_restart_counter m) (msg_ballot_number m) (ars_accepted m) ?e1 = Some (True, ?e1)"
    using e1(1) assms(2) by (simp add: candidate_def good_answer_def check_ballot_and_restart_counter_valid_and_accepted_def)
  obtain ret s where rec: "record_accept_ok ?s m = (ret, s)" by fastforce
  have c: "books_ok c ?s" "addr_list (member_list ?s) = ec_members c" using assms(1) by (auto simp: candidate_def)
  note f = record_promise[OF c _ _ rec, of E]
  have g: "msg_sender m \<in> set (ec_members c)" "mono_ts E < ars_lease_started_ts_on_proposer m + ars_lease_interval m"
    using assms(2) by (auto simp: good_answer_def)
  note f = f[OF g]
  let ?e2 = "set_books s ?e1" let ?v = "get_majority_promised_not_vote_ts s"
  have e2: "candidate c E b k ?e2" "check_leader E ?e2 = check_leader E e"
    using e1 f(1,2) c by (auto simp: candidate_def check_leader_def)
  define e3 where "e3 = (if ret \<noteq> OB_SUCCESS then ?e2 else take_new_lease E ?v ?e2)"
  have e3: "candidate c E b k e3" "check_leader E e \<Longrightarrow> check_leader E e3" "memberlist_with_states (proposer e3) = s"
    unfolding e3_def using take_new_lease_candidate[OF e2(1), of ?v] e2 by auto
  have m3: "check_leader E e3" if "majority (cl c) (promised E s)"
  proof -
    have l: "mono_ts E < ?v" "ret = OB_SUCCESS"
      using majority_lease[OF assms(3) f(1) _ f(4) that assms(4)] f(2,5) c(2) by auto
    then show ?thesis unfolding e3_def using take_new_lease_candidate(3)[OF e2(1), of ?v] by simp
  qed
  obtain e' where e': "compare_with_follower E m e3 = Some e'" "candidate c E b k e'" "check_leader E e' = check_leader E e3"
      "memberlist_with_states (proposer e') = memberlist_with_states (proposer e3)"
    using compare_candidate[OF e3(1)] by blast
  have "on_accept_response E m ?e1 = Some e'"
    unfolding on_accept_response_def chk using rec e'(1) e1(3) by (auto simp: e3_def Let_def split: if_splits)
  then have "handle_accept_response E m e = Some (OB_SUCCESS, e')"
    using e1(1) by (simp add: handle_accept_response_def check_election_init_and_start_def candidate_def Let_def)
  then show ?thesis by (rule that) (use e' e3 m3 f(3) in auto)
qed

lemma answers_elect:
  assumes "candidate c E b k e" "\<forall>m\<in>set ms. good_answer c E b k m" "distinct (ec_members c)" "0 \<le> mono_ts E"
    "majority (cl c) (promised E (memberlist_with_states (proposer e)) \<union> msg_sender ` set ms)"
    "majority (cl c) (promised E (memberlist_with_states (proposer e))) \<Longrightarrow> check_leader E e"
  shows "\<exists>e'. handle_accept_responses E ms e = Some e' \<and> candidate c E b k e' \<and> check_leader E e'"
  using assms
proof (induction ms arbitrary: e)
  case (Cons m ms)
  obtain ret e1 where e1: "handle_accept_response E m e = Some (ret, e1)" "candidate c E b k e1"
    "insert (msg_sender m) (promised E (memberlist_with_states (proposer e))) \<subseteq> promised E (memberlist_with_states (proposer e1))"
    "majority (cl c) (promised E (memberlist_with_states (proposer e1))) \<Longrightarrow> check_leader E e1"
    using one_answer[OF Cons.prems(1) _ Cons.prems(3,4), of m] Cons.prems(2) by (metis list.set_intros(1))
  have i: "promised E (memberlist_with_states (proposer e1)) \<subseteq> set (ec_members c)"
    using e1(2) by (auto simp: promised_def candidate_def books_ok_def)
  let ?P = "promised E (memberlist_with_states (proposer e))" let ?P1 = "promised E (memberlist_with_states (proposer e1))"
  have "msg_sender ` set ms \<subseteq> set (ec_members c)" using Cons.prems(2) by (auto simp: good_answer_def)
  moreover have "?P \<union> msg_sender ` set (m # ms) \<subseteq> ?P1 \<union> msg_sender ` set ms" using e1(3) by auto
  ultimately have "majority (cl c) (?P1 \<union> msg_sender ` set ms)"
    using Cons.prems(5) i by (intro majority_mono[OF Cons.prems(5)]) auto
  then show ?case using Cons.IH[OF e1(2) _ Cons.prems(3,4) _ e1(4)] Cons.prems(2) e1(1) by simp
qed simp

text \<open>C17: A candidate is elected by the answers of a majority: once the accept responses of more
  than half of the members to its ballot, each promising a lease that is still running, have been
  handled, in any order and with any repetitions, the candidate leads; handling them never aborts.\<close>

theorem majority_elects:
  assumes "candidate c E b k e" "pr_role (proposer e) = FOLLOWER" "distinct (ec_members c)" "0 \<le> mono_ts E"
    "\<forall>m\<in>set ms. good_answer c E b k m" "length (ec_members c) < 2 * card (msg_sender ` set ms)"
    "accept_ok (memberlist_with_states (proposer e)) = replicate (length (ec_members c)) 0"
  shows "\<exists>e'. handle_accept_responses E ms e = Some e' \<and> fst (get_role E e') = LEADER"
proof -
  have p: "promised E (memberlist_with_states (proposer e)) = {}" using assms(4,7) by (auto simp: promised_def)
  have "msg_sender ` set ms \<subseteq> set (ec_members c)" using assms(5) by (auto simp: good_answer_def)
  then have "majority (cl c) (msg_sender ` set ms)" using assms(3,6) by (simp add: majority_def distinct_card)
  moreover have "\<not> majority (cl c) {}" by (simp add: majority_def)
  ultimately show ?thesis using answers_elect[OF assms(1,5,3,4)] by (auto simp: p get_role_def)
qed

end
