(* ===== verification/Election_Samples.thy ===== *)
theory Election_Samples
  imports Election_System Election_Liveness
begin

text \<open>
  A cluster of three members and a schedule under which member 1 is elected, for the witnesses:
  members 1 and 2 learn the member list, the devote task of member 1 asks for votes, both vote when
  their windows close, and both promise the lease that member 1 then proposes. Member 3 is down.
  \<open>el_exec\<close> runs a schedule; \<open>Msg P k\<close> delivers the message number \<open>k\<close> that \<open>P\<close> has sent.
\<close>

definition env_at :: "int \<Rightarrow> el_env" where
  "env_at t = \<lparr>mono_ts = t, mono_ts_later = t, clock_ts = t, real_clock_ts = t, INIT_TS = 0, MAX_TST = 1000000,
     send_ret = OB_SUCCESS, broadcast_ret = OB_SUCCESS, timer_ret = OB_SUCCESS, priority_serialize = (OB_SUCCESS, []),
     priority_compare = (\<lambda>_ _ _ _. (OB_SUCCESS, 0)), has_fatal_failure = False, change_leader_cb = None,
     min_cluster_version = 0, is_arbitration_mode = False, memory_left = True\<rparr>"

datatype el_pick = Op el_op | Msg ObAddr nat

fun picked :: "el_system \<Rightarrow> el_pick \<Rightarrow> el_op" where
  "picked s (Op a) = a"
| "picked s (Msg P k) = Deliver (sent_msgs (es_servers s P) ! k)"

fun el_exec :: "el_cluster \<Rightarrow> (int \<times> ObAddr \<times> el_pick) list \<Rightarrow> el_system \<Rightarrow> el_system option" where
  "el_exec c [] s = Some s"
| "el_exec c ((t, n, x) # rest) s =
     (let s1 = s\<lparr>es_time := t\<rparr>; a = picked s1 x in
      if es_time s \<le> t \<and> n \<in> set (ec_members c) \<and> may_call c s1 n a then
        case el_call (env_at (t + ec_offset c n)) a (es_servers s1 n) of
          None \<Rightarrow> None | Some e \<Rightarrow> el_exec c rest (after_call s1 n e)
      else None)"

lemma el_exec_run: "el_exec c sched s = Some s' \<Longrightarrow> \<exists>ops. run (el_step c) s ops s'"
proof (induction c sched s rule: el_exec.induct)
  case (1 c s)
  then show ?case using run_nil by fastforce
next
  case (2 c t n x rest s)
  let ?s1 = "s\<lparr>es_time := t\<rparr>" let ?a = "picked ?s1 x" let ?E = "env_at (t + ec_offset c n)"
  obtain e where e: "es_time s \<le> t" "n \<in> set (ec_members c)" "may_call c ?s1 n ?a" "el_call ?E ?a (es_servers ?s1 n) = Some e"
      "el_exec c rest (after_call ?s1 n e) = Some s'"
    using 2(2) by (auto simp: Let_def split: if_splits option.splits)
  then obtain ops where "run (el_step c) (after_call ?s1 n e) ops s'" using 2(1)[OF refl refl] by auto
  moreover have "el_step c ?s1 (Some (n, ?a)) (after_call ?s1 n e)"
    using e by (intro Call[of n c _ _ ?E]) (auto simp: env_at_def)
  ultimately have "run (el_step c) ?s1 ((n, ?a) # ops) s'" using run_cons by fastforce
  then show ?case using run_cons[of "el_step c" s None ?s1] Tick[OF e(1), of c] by fastforce
qed

definition trio :: el_cluster where
  "trio = \<lparr>ec_members = [Some 1, Some 2, Some 3], ec_offset = (\<lambda>n. case n of Some k \<Rightarrow> 10 * int k | None \<Rightarrow> 0), ec_counter = (\<lambda>_. 1)\<rparr>"

definition trio_list :: MemberList where
  "trio_list = ml_set_new_member_list (ec_members trio) \<lparr>cv_proposal_id = 1, cv_config_seq = 1\<rparr> 3"

definition trio_start :: el_system where
  "trio_start = \<lparr>es_time = 0, es_servers = (\<lambda>n. started trio 1 0 n), es_net = {}\<rparr>"

definition trio_votes :: "(int \<times> ObAddr \<times> el_pick) list" where
  "trio_votes =
    [(20000000, Some 1, Op (SetMembers trio_list)), (20000000, Some 2, Op (SetMembers trio_list)),
     (20000000, Some 1, Op DevoteTask), (20000000, Some 1, Msg (Some 1) 0), (20000000, Some 2, Msg (Some 1) 1),
     (23000000, Some 1, Op WindowTask), (23000000, Some 2, Op WindowTask),
     (23000001, Some 1, Msg (Some 1) 3), (23000001, Some 1, Msg (Some 2) 3),
     (23000002, Some 1, Msg (Some 1) 4), (23000002, Some 2, Msg (Some 1) 5)]"

definition trio_promises :: "(int \<times> ObAddr \<times> el_pick) list" where
  "trio_promises = [(23000003, Some 1, Msg (Some 1) 7), (23000003, Some 1, Msg (Some 2) 4)]"

definition trio_end :: el_system where
  "trio_end = the (el_exec trio (trio_votes @ trio_promises) trio_start)"

text \<open>Member 1 after its accept requests have been answered, before it sees the answers.\<close>

definition trio_candidate :: ElectionImpl where
  "trio_candidate = es_servers (the (el_exec trio trio_votes trio_start)) (Some 1)"

fun accept_answers :: "ElectionMsg list \<Rightarrow> ElectionAcceptResponseMsg list" where
  "accept_answers [] = []"
| "accept_answers (AcceptResponse m # ms) = m # accept_answers ms"
| "accept_answers (_ # ms) = accept_answers ms"

definition trio_answers :: "ElectionAcceptResponseMsg list" where
  "trio_answers = (let s = the (el_exec trio trio_votes trio_start) in
     accept_answers (sent_msgs (es_servers s (Some 2)) @ sent_msgs (es_servers s (Some 1))))"

lemma trio_ok: "cluster_ok trio"
  by (simp add: cluster_ok_def trio_def)

lemma trio_init: "el_init trio trio_start"
  by (auto simp: el_init_def trio_start_def)

lemma trio_elects: "el_exec trio (trio_votes @ trio_promises) trio_start \<noteq> None"
  by code_simp

lemma trio_run: "\<exists>ops. run (el_step trio) trio_start ops trio_end"
  using trio_elects el_exec_run unfolding trio_end_def by force

end
