(* ===== verification/Election_Safety.thy ===== *)
theory Election_Safety
  imports Election_Samples
begin

text \<open>
  What the election promises, for every run of a cluster: no call aborts and servers stay well
  formed, every call is a sequence of moves of the protocol, and at no time do two members hold
  the leadership.
\<close>

lemma started_facts:
  "proposer (started c ls seed n) = proposer_construct\<lparr>restart_counter := ec_counter c n, devote_task_delay := Some 3000000\<rparr>"
  "acceptor (started c ls seed n) = acceptor_construct\<lparr>window_task_delay := Some 250000\<rparr>"
  "self_addr (started c ls seed n) = n" "sent_msgs (started c ls seed n) = []" "is_running (started c ls seed n)"
  "el_is_inited (started c ls seed n)"
  by (simp_all add: started_def init_and_start_def all_well_def election_construct_def proposer_init_def proposer_start_def
      acceptor_start_def proposer_construct_def acceptor_construct_def)

lemma started_abs: "abs_agent (started c ls seed n) = agent_start"
  by (simp add: abs_agent_def started_facts proposer_construct_def acceptor_construct_def agent_start_def mls_construct_def
      ml_construct_def book_votes_def book_promises_def INVALID_VALUE_def)

lemma started_wf: "server_wf c n N (started c ls seed n)"
  by (simp add: server_wf_def started_facts proposer_construct_def acceptor_construct_def mls_construct_def ml_construct_def
      books_ok_def empty_prepare_request_def INVALID_VALUE_def)

lemma init_inv:
  assumes "el_init c s"
  shows "el_inv c s"
proof -
  have a: "abs_agent (es_servers s n) = agent_start" for n using assms by (metis el_init_def started_abs)
  have "protocol_inv (cl c) (abs_system s)"
    using assms by (simp add: protocol_inv_def abs_system_def el_init_def net_inv_def proposer_inv_def acceptor_inv_def a
        agent_start_def lease_construct_def INVALID_VALUE_def)
  moreover have "server_wf c n N (es_servers s n) \<and> sent_msgs (es_servers s n) = []" for n N
    using assms by (metis el_init_def started_wf started_facts(4))
  ultimately show ?thesis using assms by (simp add: el_inv_def el_init_def)
qed

lemma el_step_inv:
  assumes "cluster_ok c" "el_inv c s" "el_step c s x s'"
  shows "el_inv c s'"
  using assms(3)
proof cases
  case (Call n a E e)
  note k = el_inv_ok[OF assms(2,1) Call(3)]
  have "goes c (abs_system s) n (es_servers s n) e" using el_call_goes[OF k assms(2) Call(4,5)] Call(6) by simp
  then show ?thesis using goes_inv(1)[OF assms(2)] Call(2) by simp
next
  case (Tick t)
  then have "time_passes (abs_system s) (abs_system s')" by (auto simp: time_passes_def abs_system_def)
  moreover have "protocol_inv (cl c) (abs_system s)" using assms(2) by (simp add: el_inv_def)
  ultimately have "protocol_inv (cl c) (abs_system s')" using time_passes_inv by blast
  then show ?thesis using assms(2) Tick by (simp add: el_inv_def abs_system_def)
qed

interpretation el_runs: invariant_system "el_step c" "\<lambda>s. cluster_ok c \<and> el_inv c s" for c
  using el_step_inv by unfold_locales blast

definition leader_at :: "el_cluster \<Rightarrow> el_system \<Rightarrow> ObAddr \<Rightarrow> bool" where
  "leader_at c s n \<longleftrightarrow> n \<in> set (ec_members c)
     \<and> (\<exists>E. mono_ts E = es_time s + ec_offset c n \<and> fst (get_role E (es_servers s n)) = LEADER)"

lemma leader_at_leads: "leader_at c s n \<Longrightarrow> leads (cl c) (abs_system s) n"
  by (auto simp: leader_at_def leads_def get_role_def check_leader_def abs_system_def abs_agent_def split: if_splits)

text \<open>C1: At every moment of every run at most one member is the leader: \<^verbatim>\<open>get_role\<close> does not
  answer LEADER on two members at the same real time, whatever is lost, delayed, repeated or
  overtaken, however the timers fire and whatever leadership changes are ordered.\<close>

theorem one_leader:
  assumes "cluster_ok c" "el_init c s0" "run (el_step c) s0 ops s" "leader_at c s P" "leader_at c s Q"
  shows "P = Q"
proof -
  have i: "el_inv c s" using el_runs.run_inv[OF assms(3)] init_inv[OF assms(2)] assms(1) by blast
  have "0 \<le> p_time (abs_system s) + cl_offset (cl c) n" if "leader_at c s n" for n
    using i that assms(1) by (simp add: el_inv_def abs_system_def cluster_ok_def leader_at_def)
  then show ?thesis
    using leader_unique[of "cl c" "abs_system s" P Q] assms(4,5) leader_at_leads i by (simp add: el_inv_def)
qed

lemma trio_running: "is_running (es_servers trio_end (Some 1))"
  by code_simp

lemma trio_leader: "leader_at trio trio_end (Some 1)"
proof -
  have "fst (get_role (env_at (es_time trio_end + ec_offset trio (Some 1))) (es_servers trio_end (Some 1))) = LEADER" by code_simp
  moreover have "Some 1 \<in> set (ec_members trio)" by (simp add: trio_def)
  ultimately show ?thesis unfolding leader_at_def by (intro conjI exI[of _ "env_at (es_time trio_end + ec_offset trio (Some 1))"]) (simp_all add: env_at_def)
qed

theorem one_leader_witness: "leader_at trio trio_end (Some 1) \<and> \<not> leader_at trio trio_end (Some 2)"
proof -
  obtain ops where "run (el_step trio) trio_start ops trio_end" using trio_run by blast
  from one_leader[OF trio_ok trio_init this trio_leader, of "Some 2"] show ?thesis using trio_leader by auto
qed

text \<open>C16: No call that can occur in a run aborts, be it an assertion on ballots, on restart counters
  or on the ballot of a lease, or the abort on an unknown role, and every call leaves the server well formed.\<close>

theorem election_never_aborts:
  assumes "cluster_ok c" "el_init c s0" "run (el_step c) s0 ops s" "n \<in> set (ec_members c)" "may_call c s n a"
    "mono_ts E = es_time s + ec_offset c n"
  shows "\<exists>e. el_call E a (es_servers s n) = Some e \<and> server_wf c n (p_net (abs_system (after_call s n e))) e"
proof -
  have i: "el_inv c s" using el_runs.run_inv[OF assms(3)] init_inv[OF assms(2)] assms(1) by blast
  obtain e where e: "el_call E a (es_servers s n) = Some e" "goes c (abs_system s) n (es_servers s n) e"
    using el_call_goes[OF el_inv_ok[OF i assms(1,4)] i assms(5,6)] by blast
  have "server_wf c n (p_net (abs_system (after_call s n e))) (es_servers (after_call s n e) n)"
    using goes_inv(1)[OF i e(2)] by (simp add: el_inv_def)
  then show ?thesis using e(1) by (simp add: after_call_def)
qed

theorem election_never_aborts_witness:
  "\<exists>e. el_call (env_at (es_time trio_end + 10)) DevoteTask (es_servers trio_end (Some 1)) = Some e
     \<and> server_wf trio (Some 1) (p_net (abs_system (after_call trio_end (Some 1) e))) e"
proof -
  obtain ops where "run (el_step trio) trio_start ops trio_end" using trio_run by blast
  from election_never_aborts[OF trio_ok trio_init this, of "Some 1" DevoteTask "env_at (es_time trio_end + 10)"]
  show ?thesis using trio_running by (simp add: trio_def env_at_def)
qed

text \<open>C15: The code implements the protocol: every step of a run is, seen through the abstraction, a
  sequence of moves of the one agent concerned, or the passing of time.\<close>

theorem election_refines_protocol:
  assumes "cluster_ok c" "el_init c s0" "run (el_step c) s0 ops s" "el_step c s x s'"
  shows "(case x of None \<Rightarrow> time_passes (abs_system s) (abs_system s')
    | Some (n, a) \<Rightarrow> (agent_moves (cl c) n)\<^sup>*\<^sup>* (abs_system s) (abs_system s'))"
proof -
  have i: "el_inv c s" using el_runs.run_inv[OF assms(3)] init_inv[OF assms(2)] assms(1) by blast
  show ?thesis using assms(4)
  proof cases
    case (Call n a E e)
    then have "goes c (abs_system s) n (es_servers s n) e"
      using el_call_goes[OF el_inv_ok[OF i assms(1) Call(3)] i Call(4,5)] by simp
    then show ?thesis using goes_inv(2)[OF i] Call(1,2) by simp
  next
    case (Tick t)
    then show ?thesis by (auto simp: time_passes_def abs_system_def)
  qed
qed

theorem election_refines_protocol_witness:
  "(agent_moves (cl trio) (Some 1))\<^sup>*\<^sup>* (abs_system trio_end)
     (abs_system (after_call trio_end (Some 1) (renew_lease_task (env_at (es_time trio_end + 10)) (es_servers trio_end (Some 1)))))"
proof -
  obtain ops where r: "run (el_step trio) trio_start ops trio_end" using trio_run by blast
  have "el_step trio trio_end (Some (Some 1, RenewTask))
      (after_call trio_end (Some 1) (renew_lease_task (env_at (es_time trio_end + 10)) (es_servers trio_end (Some 1))))"
    using trio_running by (intro Call[where E = "env_at (es_time trio_end + 10)"]) (simp_all add: trio_def env_at_def)
  from election_refines_protocol[OF trio_ok trio_init r this] show ?thesis by simp
qed

theorem majority_elects_witness:
  "\<exists>e'. handle_accept_responses (env_at 23000013) trio_answers trio_candidate = Some e' \<and> fst (get_role (env_at 23000013) e') = LEADER"
proof (rule majority_elects[where c = trio and b = 0 and k = 1])
  show "candidate trio (env_at 23000013) 0 1 trio_candidate" "pr_role (proposer trio_candidate) = FOLLOWER" by code_simp+
  show "distinct (ec_members trio)" "0 \<le> mono_ts (env_at 23000013)" by (simp_all add: trio_def env_at_def)
  show "\<forall>m\<in>set trio_answers. good_answer trio (env_at 23000013) 0 1 m" by code_simp
  show "length (ec_members trio) < 2 * card (msg_sender ` set trio_answers)" by code_simp
  show "accept_ok (memberlist_with_states (proposer trio_candidate)) = replicate (length (ec_members trio)) 0" by code_simp
qed

end
