(* ===== verification/Deadlock_Define.thy ===== *)
theory Deadlock_Define
  imports Election_Define "HOL-Library.Signed_Division"
begin

text \<open>
  The vocabulary of the deadlock detector (\<^verbatim>\<open>share/deadlock\<close>): parameters, keys
  (\<^verbatim>\<open>ob_deadlock_key_wrapper.cpp\<close>), priorities, resources and report infos
  (\<^verbatim>\<open>ob_deadlock_detector_common_define.cpp\<close>), labels and messages of the LCL scheme
  (\<^verbatim>\<open>ob_lcl_scheme/ob_lcl_utils.cpp\<close>, \<^verbatim>\<open>ob_lcl_message.cpp\<close>, \<^verbatim>\<open>ob_deadlock_message.cpp\<close>), and the macros
  that check arguments (\<^verbatim>\<open>ob_deadlock_arg_checker.h\<close>). Arrays grow without failure: an allocation
  that fails is not modelled. The orders of keys, priorities and labels are shown to be
  linear orders and become instances of the library's class.
\<close>

subsection \<open>Parameters\<close>

definition BUFFER_LIMIT_SIZE :: nat where "BUFFER_LIMIT_SIZE = 128"
definition DETECT_INVALID_VALUE :: u64 where "DETECT_INVALID_VALUE = 0x7FFFFFFFFFFFFFFF"
definition STR_LEN_LIMIT :: nat where "STR_LEN_LIMIT = 65536"
definition LCL_MSG_CACHE_LIMIT :: int where "LCL_MSG_CACHE_LIMIT = 4096"

definition MAX_CLOCK_DIFF :: int where "MAX_CLOCK_DIFF = 50 * 1000"
definition MAX_MSG_DELAY :: int where "MAX_MSG_DELAY = 40 * 1000"
definition SEND_MSG_LIMIT_INTERVAL :: int where "SEND_MSG_LIMIT_INTERVAL = 10 * 1000"
definition MIN_CYCLY_SIZE_SUPPORTED :: int where "MIN_CYCLY_SIZE_SUPPORTED = 10"
definition RANDOM_DELAY_RANGE :: int where "RANDOM_DELAY_RANGE = 100 * 1000"
definition TIMER_SCHEDULE_RESERVE_TIME :: int where "TIMER_SCHEDULE_RESERVE_TIME = 1 * 1000"

definition PHASE_TIME :: int where
  "PHASE_TIME = 2 * MAX_CLOCK_DIFF + RANDOM_DELAY_RANGE
     + (MAX_MSG_DELAY + SEND_MSG_LIMIT_INTERVAL) * MIN_CYCLY_SIZE_SUPPORTED"

definition PERIOD :: int where "PERIOD = 2 * PHASE_TIME"

lemma PHASE_TIME_eval: "PHASE_TIME = 700000"
  by (simp add: PHASE_TIME_def MAX_CLOCK_DIFF_def MAX_MSG_DELAY_def SEND_MSG_LIMIT_INTERVAL_def
      MIN_CYCLY_SIZE_SUPPORTED_def RANDOM_DELAY_RANGE_def)

lemma PERIOD_eval: "PERIOD = 1400000"
  by (simp add: PERIOD_def PHASE_TIME_eval)

subsection \<open>Argument checks\<close>

text \<open>
  \<^verbatim>\<open>check_args\<close> of one argument returns its validity, a \<^verbatim>\<open>bool\<close>; of several it returns the code
  \<^verbatim>\<open>OB_INVALID_ARGUMENT\<close> when the head is invalid and otherwise what the call on the rest
  returns. \<^verbatim>\<open>CHECK_ARGS\<close> compares the result, as an \<^verbatim>\<open>int\<close>, with \<^verbatim>\<open>OB_INVALID_ARGUMENT\<close>. An
  argument is represented by its validity.
\<close>

definition OB_INVALID_ARGUMENT_VAL :: int where "OB_INVALID_ARGUMENT_VAL = - 4002"

fun check_args :: "bool list \<Rightarrow> int" where
  "check_args [] = 0"
| "check_args [valid] = of_bool valid"
| "check_args (valid # rest) = (if \<not> valid then OB_INVALID_ARGUMENT_VAL else check_args rest)"

definition CHECK_ARGS :: "bool list \<Rightarrow> bool" where
  "CHECK_ARGS vs \<longleftrightarrow> check_args vs \<noteq> OB_INVALID_ARGUMENT_VAL"

text \<open>The check passes whatever the validity of the last argument, in particular of an only one.\<close>

lemma CHECK_ARGS_ignores_last: "CHECK_ARGS vs \<longleftrightarrow> list_all (\<lambda>v. v) (butlast vs)"
  by (induction vs rule: check_args.induct)
     (auto simp: CHECK_ARGS_def OB_INVALID_ARGUMENT_VAL_def)

lemma CHECK_ARGS_single [simp]: "CHECK_ARGS [v]"
  by (simp add: CHECK_ARGS_ignores_last)

subsection \<open>Keys\<close>

text \<open>
  A key keeps the first \<^verbatim>\<open>key_binary_code_buffer_length_\<close> bytes of its buffer: no operation reads the
  bytes behind them. \<^verbatim>\<open>char\<close> is signed.
\<close>

datatype UserBinaryKey = UserKey (key_type_id: u64) (key_binary_code: "byte list")

definition key_reset :: UserBinaryKey where
  "key_reset = UserKey DETECT_INVALID_VALUE []"

definition key_is_valid :: "UserBinaryKey \<Rightarrow> bool" where
  "key_is_valid k \<longleftrightarrow> DETECT_INVALID_VALUE \<noteq> key_type_id k
     \<and> BUFFER_LIMIT_SIZE \<ge> length (key_binary_code k) \<and> 0 \<noteq> length (key_binary_code k)"

text \<open>
  The user's key gives its type number, its serialized size and the outcome of its serializer,
  which writes that many bytes when it succeeds.
\<close>

definition set_user_key :: "u64 \<Rightarrow> nat \<Rightarrow> ob_ret \<times> byte list \<Rightarrow> ob_ret \<times> UserBinaryKey" where
  "set_user_key type_id ser_size ser =
     (if BUFFER_LIMIT_SIZE < ser_size then (OB_BUF_NOT_ENOUGH, key_reset)
      else if fst ser \<noteq> OB_SUCCESS then (fst ser, key_reset)
      else (OB_SUCCESS, UserKey type_id (take ser_size (snd ser))))"

fun key_bytes_compare :: "byte list \<Rightarrow> byte list \<Rightarrow> int" where
  "key_bytes_compare (x # xs) (y # ys) =
     (if sint x > sint y then 1 else if sint x < sint y then - 1 else key_bytes_compare xs ys)"
| "key_bytes_compare _ _ = 0"

definition key_compare :: "UserBinaryKey \<Rightarrow> UserBinaryKey \<Rightarrow> int" where
  "key_compare a b =
     (if key_type_id a > key_type_id b then 1
      else if key_type_id a < key_type_id b then - 1
      else if length (key_binary_code a) > length (key_binary_code b) then 1
      else if length (key_binary_code a) < length (key_binary_code b) then - 1
      else key_bytes_compare (key_binary_code a) (key_binary_code b))"

definition key_eq :: "UserBinaryKey \<Rightarrow> UserBinaryKey \<Rightarrow> bool" where
  "key_eq a b \<longleftrightarrow> 0 = key_compare a b"

definition key_less :: "UserBinaryKey \<Rightarrow> UserBinaryKey \<Rightarrow> bool" where
  "key_less a b \<longleftrightarrow> key_compare a b < 0"

lemma sint_eq_iff: "sint (x :: byte) = sint y \<longleftrightarrow> x = y"
  by transfer (simp add: signed_take_bit_eq_iff_take_bit_eq)

lemma key_bytes_compare_zero:
  "length xs = length ys \<Longrightarrow> key_bytes_compare xs ys = 0 \<longleftrightarrow> xs = ys"
  by (induction xs ys rule: list_induct2) (auto simp: sint_eq_iff)

lemma key_bytes_compare_range: "key_bytes_compare xs ys \<in> {- 1, 0, 1}"
  by (induction xs ys rule: key_bytes_compare.induct) auto

lemma key_bytes_compare_anti: "key_bytes_compare ys xs = - key_bytes_compare xs ys"
  by (induction xs ys rule: key_bytes_compare.induct) auto

lemma key_bytes_compare_trans:
  "length xs = length ys \<Longrightarrow> length ys = length zs \<Longrightarrow>
   key_bytes_compare xs ys \<le> 0 \<Longrightarrow> key_bytes_compare ys zs \<le> 0 \<Longrightarrow> key_bytes_compare xs zs \<le> 0"
  by (induction xs ys zs rule: list_induct3) (auto split: if_splits)

text \<open>Two keys compare equal only when they are the same key, so that \<^term>\<open>(=)\<close> is \<open>operator==\<close>.\<close>

lemma key_eq_iff [simp]: "key_eq a b \<longleftrightarrow> a = b"
  unfolding key_eq_def key_compare_def
  by (cases a; cases b) (simp add: key_bytes_compare_zero eq_commute [of 0], auto)

lemma key_compare_anti: "key_compare b a = - key_compare a b"
  unfolding key_compare_def
  using key_bytes_compare_anti [of "key_binary_code b" "key_binary_code a"] by auto

lemma key_compare_trans:
  "key_compare a b \<le> 0 \<Longrightarrow> key_compare b c \<le> 0 \<Longrightarrow> key_compare a c \<le> 0"
  unfolding key_compare_def
  using key_bytes_compare_trans [of "key_binary_code a" "key_binary_code b" "key_binary_code c"]
  by (auto split: if_splits)

instantiation UserBinaryKey :: linorder
begin

definition less_eq_UserBinaryKey :: "UserBinaryKey \<Rightarrow> UserBinaryKey \<Rightarrow> bool" where
  "less_eq_UserBinaryKey a b \<longleftrightarrow> key_compare a b \<le> 0"

definition less_UserBinaryKey :: "UserBinaryKey \<Rightarrow> UserBinaryKey \<Rightarrow> bool" where
  "less_UserBinaryKey a b \<longleftrightarrow> key_less a b"

instance
proof
  fix a b c :: UserBinaryKey
  have eq: "key_compare a b = 0 \<longleftrightarrow> a = b" for a b
    using key_eq_iff [of a b, unfolded key_eq_def] by metis
  show "a < b \<longleftrightarrow> a \<le> b \<and> \<not> b \<le> a"
    using key_compare_anti [of a b]
    by (auto simp: less_UserBinaryKey_def less_eq_UserBinaryKey_def key_less_def)
  show "a \<le> a" using eq [of a a] by (simp add: less_eq_UserBinaryKey_def)
  show "a \<le> b \<Longrightarrow> b \<le> c \<Longrightarrow> a \<le> c"
    unfolding less_eq_UserBinaryKey_def by (rule key_compare_trans)
  show "a \<le> b \<Longrightarrow> b \<le> a \<Longrightarrow> a = b"
    using key_compare_anti [of a b] eq [of a b] by (simp add: less_eq_UserBinaryKey_def)
  show "a \<le> b \<or> b \<le> a"
    using key_compare_anti [of a b] by (auto simp: less_eq_UserBinaryKey_def)
qed

end

subsection \<open>Priorities, resources, labels\<close>

datatype ObDetectorPriority = Priority (priority_range: int) (priority_value: u64)

definition EXTREMELY_LOW :: int where "EXTREMELY_LOW = - 2"
definition LOW :: int where "LOW = - 1"
definition NORMAL :: int where "NORMAL = 0"
definition HIGH :: int where "HIGH = 1"
definition EXTREMELY_HIGH :: int where "EXTREMELY_HIGH = 2"

definition priority_of_value :: "u64 \<Rightarrow> ObDetectorPriority" where
  "priority_of_value v = Priority NORMAL v"

definition priority_is_valid :: "ObDetectorPriority \<Rightarrow> bool" where
  "priority_is_valid p \<longleftrightarrow> DETECT_INVALID_VALUE \<noteq> priority_value p"

definition get_range_str :: "ObDetectorPriority \<Rightarrow> string" where
  "get_range_str p =
     (if priority_range p = EXTREMELY_LOW then ''extreme-low''
      else if priority_range p = LOW then ''low''
      else if priority_range p = NORMAL then ''normal''
      else if priority_range p = HIGH then ''high''
      else if priority_range p = EXTREMELY_HIGH then ''extreme-high''
      else ''unknown'')"

definition priority_lt :: "ObDetectorPriority \<Rightarrow> ObDetectorPriority \<Rightarrow> bool" where
  "priority_lt p q \<longleftrightarrow>
     (if priority_range p < priority_range q then True
      else if priority_range p = priority_range q then priority_value p < priority_value q
      else False)"

definition priority_gt :: "ObDetectorPriority \<Rightarrow> ObDetectorPriority \<Rightarrow> bool" where
  "priority_gt p q \<longleftrightarrow> \<not> priority_lt p q \<and> p \<noteq> q"

definition priority_le :: "ObDetectorPriority \<Rightarrow> ObDetectorPriority \<Rightarrow> bool" where
  "priority_le p q \<longleftrightarrow> priority_lt p q \<or> p = q"

definition priority_ge :: "ObDetectorPriority \<Rightarrow> ObDetectorPriority \<Rightarrow> bool" where
  "priority_ge p q \<longleftrightarrow> priority_gt p q \<or> p = q"

instantiation ObDetectorPriority :: linorder
begin

definition less_eq_ObDetectorPriority :: "ObDetectorPriority \<Rightarrow> ObDetectorPriority \<Rightarrow> bool" where
  "less_eq_ObDetectorPriority p q \<longleftrightarrow> priority_le p q"

definition less_ObDetectorPriority :: "ObDetectorPriority \<Rightarrow> ObDetectorPriority \<Rightarrow> bool" where
  "less_ObDetectorPriority p q \<longleftrightarrow> priority_lt p q"

instance
proof
  fix p q r :: ObDetectorPriority
  note defs = less_eq_ObDetectorPriority_def less_ObDetectorPriority_def priority_le_def priority_lt_def
  show "p < q \<longleftrightarrow> p \<le> q \<and> \<not> q \<le> p" by (cases p; cases q) (auto simp: defs)
  show "p \<le> p" by (simp add: defs)
  show "p \<le> q \<Longrightarrow> q \<le> r \<Longrightarrow> p \<le> r" by (cases p; cases q; cases r) (auto simp: defs split: if_splits)
  show "p \<le> q \<Longrightarrow> q \<le> p \<Longrightarrow> p = q" by (cases p; cases q) (auto simp: defs split: if_splits)
  show "p \<le> q \<or> q \<le> p" by (cases p; cases q) (auto simp: defs)
qed

end

lemma priority_ops [simp]:
  "priority_lt p q \<longleftrightarrow> p < q" "priority_le p q \<longleftrightarrow> p \<le> q"
  "priority_gt p q \<longleftrightarrow> q < p" "priority_ge p q \<longleftrightarrow> q \<le> p"
  by (auto simp: less_eq_ObDetectorPriority_def [symmetric] less_ObDetectorPriority_def [symmetric]
      priority_gt_def priority_ge_def)

definition addr_is_valid :: "ObAddr \<Rightarrow> bool" where
  "addr_is_valid a \<longleftrightarrow> a \<noteq> None"

datatype ObDependencyResource = Resource (res_addr: ObAddr) (res_key: UserBinaryKey)

definition res_is_valid :: "ObDependencyResource \<Rightarrow> bool" where
  "res_is_valid r \<longleftrightarrow> key_is_valid (res_key r) \<and> addr_is_valid (res_addr r)"

definition res_less :: "ObDependencyResource \<Rightarrow> ObDependencyResource \<Rightarrow> bool" where
  "res_less a b \<longleftrightarrow>
     (if addr_less (res_addr a) (res_addr b) then True
      else if addr_less (res_addr b) (res_addr a) then False
      else key_less (res_key a) (res_key b))"

datatype ObLCLLabel = Label (label_addr: ObAddr) (label_id: u64) (label_priority: ObDetectorPriority)

definition invalid_label :: ObLCLLabel where
  "invalid_label = Label None DETECT_INVALID_VALUE (priority_of_value DETECT_INVALID_VALUE)"

definition label_is_valid :: "ObLCLLabel \<Rightarrow> bool" where
  "label_is_valid l \<longleftrightarrow> addr_is_valid (label_addr l) \<and> priority_is_valid (label_priority l)
     \<and> DETECT_INVALID_VALUE \<noteq> label_id l"

definition label_eq :: "ObLCLLabel \<Rightarrow> ObLCLLabel \<Rightarrow> bool" where
  "label_eq a b \<longleftrightarrow> label_priority a = label_priority b \<and> label_addr a = label_addr b
     \<and> label_id a = label_id b"

definition label_lt :: "ObLCLLabel \<Rightarrow> ObLCLLabel \<Rightarrow> bool" where
  "label_lt a b \<longleftrightarrow>
     (if priority_lt (label_priority a) (label_priority b) then True
      else if label_priority a = label_priority b then
        (if addr_less (label_addr a) (label_addr b) then True
         else if label_addr a = label_addr b then label_id a < label_id b
         else False)
      else False)"

lemma label_eq_iff [simp]: "label_eq a b \<longleftrightarrow> a = b"
  by (cases a; cases b) (auto simp: label_eq_def)

lemma addr_less_linear: "addr_less a b \<or> a = b \<or> addr_less b a"
  by (cases a; cases b) auto

lemma addr_less_irrefl [simp]: "\<not> addr_less a a"
  by (cases a) auto

lemma addr_less_trans: "addr_less a b \<Longrightarrow> addr_less b c \<Longrightarrow> addr_less a c"
  by (cases a; cases b; cases c) auto

instantiation ObLCLLabel :: linorder
begin

definition less_eq_ObLCLLabel :: "ObLCLLabel \<Rightarrow> ObLCLLabel \<Rightarrow> bool" where
  "less_eq_ObLCLLabel a b \<longleftrightarrow> label_lt a b \<or> a = b"

definition less_ObLCLLabel :: "ObLCLLabel \<Rightarrow> ObLCLLabel \<Rightarrow> bool" where
  "less_ObLCLLabel a b \<longleftrightarrow> label_lt a b"

instance
proof
  fix a b c :: ObLCLLabel
  have irrefl: "\<not> label_lt a a" for a by (simp add: label_lt_def)
  have trans: "label_lt a b \<Longrightarrow> label_lt b c \<Longrightarrow> label_lt a c" for a b c
    unfolding label_lt_def priority_ops
    by (smt (verit) addr_less_trans order.strict_trans)
  have linear: "label_lt a b \<or> a = b \<or> label_lt b a" for a b
    unfolding label_lt_def priority_ops
    by (metis ObLCLLabel.expand addr_less_linear linorder_less_linear)
  show "a < b \<longleftrightarrow> a \<le> b \<and> \<not> b \<le> a"
    using irrefl trans by (auto simp: less_ObLCLLabel_def less_eq_ObLCLLabel_def)
  show "a \<le> a" by (simp add: less_eq_ObLCLLabel_def)
  show "a \<le> b \<Longrightarrow> b \<le> c \<Longrightarrow> a \<le> c" using trans by (auto simp: less_eq_ObLCLLabel_def)
  show "a \<le> b \<Longrightarrow> b \<le> a \<Longrightarrow> a = b" using irrefl trans by (auto simp: less_eq_ObLCLLabel_def)
  show "a \<le> b \<or> b \<le> a" using linear by (auto simp: less_eq_ObLCLLabel_def)
qed

end

lemma label_lt_iff [simp]: "label_lt a b \<longleftrightarrow> a < b"
  by (simp add: less_ObLCLLabel_def)

lemma label_le_priority: "a \<le> b \<Longrightarrow> label_priority a \<le> label_priority b"
  by (auto simp: less_eq_ObLCLLabel_def label_lt_def simp del: label_lt_iff split: if_splits)

end
