(* ===== verification/Deadlock_Messages.thy ===== *)
theory Deadlock_Messages
  imports Deadlock_Define
begin

text \<open>
  The messages of the deadlock detector and what they carry: the label message of the LCL scheme
  (\<^verbatim>\<open>ob_lcl_message.cpp\<close>), the report infos (\<^verbatim>\<open>ob_deadlock_detector_common_define.cpp\<close>), the message
  that collects them along a chain of waits and the notification of a parent
  (\<^verbatim>\<open>ob_deadlock_message.cpp\<close>). A string is the list of its characters; a pointer that may be
  null is an option.
\<close>

subsection \<open>Label messages\<close>

record ObLCLMessage =
  lm_dest_addr :: ObAddr
  lm_dest_key :: UserBinaryKey
  lm_src_addr :: ObAddr
  lm_src_key :: UserBinaryKey
  lm_lclv :: u64
  lm_label :: ObLCLLabel
  lm_send_ts :: int

definition lm_is_valid :: "ObLCLMessage \<Rightarrow> bool" where
  "lm_is_valid m \<longleftrightarrow> addr_is_valid (lm_dest_addr m) \<and> key_is_valid (lm_dest_key m)
     \<and> DETECT_INVALID_VALUE \<noteq> lm_lclv m \<and> label_is_valid (lm_label m)"

text \<open>The members are set even when an argument is refused.\<close>

definition lm_set_args ::
  "ObAddr \<Rightarrow> UserBinaryKey \<Rightarrow> ObAddr \<Rightarrow> UserBinaryKey \<Rightarrow> u64 \<Rightarrow> ObLCLLabel \<Rightarrow> int \<Rightarrow> ob_ret \<times> ObLCLMessage" where
  "lm_set_args dest_addr dest_key src_addr src_key lclv label ts =
     (if \<not> addr_is_valid dest_addr \<or> \<not> key_is_valid dest_key \<or> \<not> addr_is_valid src_addr
         \<or> \<not> key_is_valid src_key \<or> DETECT_INVALID_VALUE = lclv \<or> \<not> label_is_valid label
         \<or> uint DETECT_INVALID_VALUE = ts then OB_INVALID_ARGUMENT else OB_SUCCESS,
      \<lparr>lm_dest_addr = dest_addr, lm_dest_key = dest_key, lm_src_addr = src_addr, lm_src_key = src_key,
       lm_lclv = lclv, lm_label = label, lm_send_ts = ts\<rparr>)"

definition lm_merge :: "ObLCLMessage \<Rightarrow> ObLCLMessage \<Rightarrow> ob_ret \<times> ObLCLMessage" where
  "lm_merge m rhs =
     (if lm_dest_addr m \<noteq> lm_dest_addr rhs \<or> lm_dest_key m \<noteq> lm_dest_key rhs then (OB_INVALID_ARGUMENT, m)
      else if lm_lclv m < lm_lclv rhs then
        (OB_SUCCESS, m\<lparr>lm_lclv := lm_lclv rhs, lm_label := lm_label rhs, lm_src_key := lm_src_key rhs\<rparr>)
      else if lm_lclv m = lm_lclv rhs \<and> label_lt (lm_label rhs) (lm_label m) then
        (OB_SUCCESS, m\<lparr>lm_label := lm_label rhs, lm_src_key := lm_src_key rhs\<rparr>)
      else (OB_SUCCESS, m))"

text \<open>
  Merging keeps the stronger of the two messages: the one with the larger value, and of two with
  the same value the one with the smaller label. What several messages to one resource become is
  therefore independent of the order in which they are merged.
\<close>

definition lm_stronger :: "u64 \<times> ObLCLLabel \<Rightarrow> u64 \<times> ObLCLLabel \<Rightarrow> u64 \<times> ObLCLLabel" where
  "lm_stronger a b = (if fst a < fst b then b else if fst a = fst b \<and> snd b < snd a then b else a)"

definition lm_rank :: "ObLCLMessage \<Rightarrow> u64 \<times> ObLCLLabel" where
  "lm_rank m = (lm_lclv m, lm_label m)"

lemma lm_stronger_comm: "lm_stronger a b = lm_stronger b a"
  by (cases a; cases b) (auto simp: lm_stronger_def)

lemma lm_stronger_assoc: "lm_stronger (lm_stronger a b) c = lm_stronger a (lm_stronger b c)"
  by (cases a; cases b; cases c) (auto simp: lm_stronger_def)

lemma lm_merge_dest [simp]:
  "lm_dest_addr (snd (lm_merge m rhs)) = lm_dest_addr m"
  "lm_dest_key (snd (lm_merge m rhs)) = lm_dest_key m"
  by (auto simp: lm_merge_def)

lemma lm_merge_rank:
  "fst (lm_merge m rhs) = OB_SUCCESS \<Longrightarrow>
   lm_rank (snd (lm_merge m rhs)) = lm_stronger (lm_rank m) (lm_rank rhs)"
  by (auto simp: lm_merge_def lm_rank_def lm_stronger_def split: if_splits)

lemma lm_merge_label: "lm_label (snd (lm_merge m rhs)) \<in> {lm_label m, lm_label rhs}"
  by (auto simp: lm_merge_def)

lemma lm_merge_fails: "fst (lm_merge m rhs) \<noteq> OB_SUCCESS \<Longrightarrow> snd (lm_merge m rhs) = m"
  by (auto simp: lm_merge_def split: if_splits)

subsection \<open>What a user reports\<close>

record ObDetectorUserReportInfo =
  user_module_name :: string
  resource_visitor :: string
  required_resource :: string
  extra_columns_names :: "string list"
  extra_columns_values :: "string list"
  valid_extra_column_size :: nat

definition empty_user_report :: ObDetectorUserReportInfo where
  "empty_user_report = \<lparr>user_module_name = [], resource_visitor = [], required_resource = [],
     extra_columns_names = [], extra_columns_values = [], valid_extra_column_size = 0\<rparr>"

text \<open>A length of zero stands for \<^verbatim>\<open>strlen\<close>.\<close>

definition check_and_assign_ptr :: "string option \<Rightarrow> nat \<Rightarrow> string \<Rightarrow> ob_ret \<times> string" where
  "check_and_assign_ptr others_ptr len self_string =
     (case others_ptr of
        None \<Rightarrow> (OB_INVALID_ARGUMENT, self_string)
      | Some str \<Rightarrow>
          (let calculated_len = (if len = 0 then length str else len) in
           if calculated_len \<le> 0 \<or> calculated_len \<ge> STR_LEN_LIMIT then (OB_ERR_UNEXPECTED, self_string)
           else (OB_SUCCESS, take calculated_len str)))"

definition set_module_name :: "string option \<Rightarrow> ObDetectorUserReportInfo \<Rightarrow> ob_ret \<times> ObDetectorUserReportInfo" where
  "set_module_name ptr u = (case check_and_assign_ptr ptr 0 (user_module_name u) of (ret, s) \<Rightarrow>
     (ret, u\<lparr>user_module_name := s\<rparr>))"

definition set_visitor :: "string option \<Rightarrow> ObDetectorUserReportInfo \<Rightarrow> ob_ret \<times> ObDetectorUserReportInfo" where
  "set_visitor ptr u = (case check_and_assign_ptr ptr 0 (resource_visitor u) of (ret, s) \<Rightarrow>
     (ret, u\<lparr>resource_visitor := s\<rparr>))"

definition set_resource :: "string option \<Rightarrow> ObDetectorUserReportInfo \<Rightarrow> ob_ret \<times> ObDetectorUserReportInfo" where
  "set_resource ptr u = (case check_and_assign_ptr ptr 0 (required_resource u) of (ret, s) \<Rightarrow>
     (ret, u\<lparr>required_resource := s\<rparr>))"

definition user_report_is_valid :: "ObDetectorUserReportInfo \<Rightarrow> bool" where
  "user_report_is_valid u \<longleftrightarrow>
     \<not> (user_module_name u = [] \<or> resource_visitor u = [] \<or> required_resource u = [])"

text \<open>The three overloads of \<^verbatim>\<open>set_columns_\<close>, by the type of the column.\<close>

datatype ValueType = COLUMN_NAME | COLUMN_VALUE

datatype column_info = ColString string | ColPtr "string option" | ColGuard string

fun push_column :: "ValueType \<Rightarrow> string \<Rightarrow> ObDetectorUserReportInfo \<Rightarrow> ObDetectorUserReportInfo" where
  "push_column COLUMN_NAME s u = u\<lparr>extra_columns_names := extra_columns_names u @ [s]\<rparr>"
| "push_column COLUMN_VALUE s u = u\<lparr>extra_columns_values := extra_columns_values u @ [s]\<rparr>"

fun set_columns :: "ValueType \<Rightarrow> column_info \<Rightarrow> ObDetectorUserReportInfo \<Rightarrow> ob_ret \<times> ObDetectorUserReportInfo" where
  "set_columns type (ColString s) u =
     (if s = [] then (OB_INVALID_ARGUMENT, u)
      else if STR_LEN_LIMIT \<le> length s then (OB_INVALID_ARGUMENT, u)
      else (OB_SUCCESS, push_column type s u))"
| "set_columns type (ColPtr ptr) u =
     (case ptr of
        None \<Rightarrow> (OB_INVALID_ARGUMENT, u)
      | Some s \<Rightarrow> if STR_LEN_LIMIT \<le> length s then (OB_INVALID_ARGUMENT, u)
                  else (OB_SUCCESS, push_column type s u))"
| "set_columns type (ColGuard s) u = (OB_SUCCESS, push_column type s u)"

fun set_extra_info_floor ::
  "nat \<Rightarrow> (column_info \<times> column_info) list \<Rightarrow> ObDetectorUserReportInfo \<Rightarrow> ob_ret \<times> ObDetectorUserReportInfo" where
  "set_extra_info_floor floor_no [] u = (OB_SUCCESS, u\<lparr>valid_extra_column_size := floor_no\<rparr>)"
| "set_extra_info_floor floor_no ((column_name, column_value) # rest) u =
     (let u0 = (if floor_no = 0
                then u\<lparr>valid_extra_column_size := 0, extra_columns_names := [], extra_columns_values := []\<rparr>
                else u) in
      or_chain [set_columns COLUMN_NAME column_name, set_columns COLUMN_VALUE column_value,
                set_extra_info_floor (floor_no + 1) rest] u0)"

definition set_extra_info ::
  "(column_info \<times> column_info) list \<Rightarrow> ObDetectorUserReportInfo \<Rightarrow> ob_ret \<times> ObDetectorUserReportInfo" where
  "set_extra_info columns u = set_extra_info_floor 0 columns u"

text \<open>The number of valid columns never exceeds the columns stored.\<close>

lemma set_columns_push:
  "set_columns ty x w = (r, w') \<Longrightarrow>
   valid_extra_column_size w' = valid_extra_column_size w
   \<and> length (extra_columns_names w')
       = length (extra_columns_names w) + (if ty = COLUMN_NAME \<and> r = OB_SUCCESS then 1 else 0)
   \<and> length (extra_columns_values w')
       = length (extra_columns_values w) + (if ty = COLUMN_VALUE \<and> r = OB_SUCCESS then 1 else 0)"
  by (cases x; cases ty) (auto split: option.splits if_splits)

lemma set_extra_info_floor_counts:
  "set_extra_info_floor k cs u = (ret, u') \<Longrightarrow>
   valid_extra_column_size u = 0 \<Longrightarrow> k \<noteq> 0 \<Longrightarrow> length (extra_columns_names u) = k \<Longrightarrow> length (extra_columns_values u) = k \<Longrightarrow>
   valid_extra_column_size u' \<le> length (extra_columns_names u')
   \<and> valid_extra_column_size u' \<le> length (extra_columns_values u')
   \<and> (ret = OB_SUCCESS \<longrightarrow> valid_extra_column_size u' = k + length cs)"
proof (induction cs arbitrary: k u)
  case Nil
  then show ?case by auto
next
  case (Cons c cs)
  obtain n v where c: "c = (n, v)" by (cases c)
  obtain r1 u1 where 1: "set_columns COLUMN_NAME n u = (r1, u1)" by (cases "set_columns COLUMN_NAME n u")
  obtain r2 u2 where 2: "set_columns COLUMN_VALUE v u1 = (r2, u2)" by (cases "set_columns COLUMN_VALUE v u1")
  show ?case
    using Cons.prems Cons.IH [of "k + 1" u2] set_columns_push [OF 1] set_columns_push [OF 2]
    by (auto simp: c 1 2 split: if_splits prod.splits)
qed

lemma set_extra_info_counts:
  assumes "set_extra_info cs u = (ret, u')" "cs \<noteq> []"
  shows "valid_extra_column_size u' \<le> length (extra_columns_names u')"
    and "valid_extra_column_size u' \<le> length (extra_columns_values u')"
    and "ret = OB_SUCCESS \<longrightarrow> valid_extra_column_size u' = length cs"
proof -
  obtain n v cs' where c: "cs = (n, v) # cs'" using assms(2) by (cases cs) auto
  let ?u0 = "u\<lparr>valid_extra_column_size := 0, extra_columns_names := [], extra_columns_values := []\<rparr>"
  obtain r1 u1 where 1: "set_columns COLUMN_NAME n ?u0 = (r1, u1)" by (cases "set_columns COLUMN_NAME n ?u0")
  obtain r2 u2 where 2: "set_columns COLUMN_VALUE v u1 = (r2, u2)" by (cases "set_columns COLUMN_VALUE v u1")
  have "valid_extra_column_size u' \<le> length (extra_columns_names u')
    \<and> valid_extra_column_size u' \<le> length (extra_columns_values u')
    \<and> (ret = OB_SUCCESS \<longrightarrow> valid_extra_column_size u' = length cs)"
    using assms(1) set_columns_push [OF 1] set_columns_push [OF 2] set_extra_info_floor_counts [of 1 cs' u2 ret u']
    by (auto simp: c set_extra_info_def 1 2 split: if_splits prod.splits)
  then show "valid_extra_column_size u' \<le> length (extra_columns_names u')"
    and "valid_extra_column_size u' \<le> length (extra_columns_values u')"
    and "ret = OB_SUCCESS \<longrightarrow> valid_extra_column_size u' = length cs" by auto
qed

subsection \<open>What a detector reports\<close>

record ObDetectorInnerReportInfo =
  info_key :: UserBinaryKey
  info_tenant_id :: u64
  info_addr :: ObAddr
  info_detector_id :: u64
  info_report_time :: int
  info_created_time :: int
  info_event_id :: u64
  info_role :: string
  info_start_delay :: u64
  info_priority :: ObDetectorPriority
  info_user :: ObDetectorUserReportInfo

definition ROLE_WITNESS :: string where "ROLE_WITNESS = ''witness''"
definition ROLE_VICTIM :: string where "ROLE_VICTIM = ''victim''"

definition info_set_args ::
  "u64 \<Rightarrow> UserBinaryKey \<Rightarrow> ObAddr \<Rightarrow> u64 \<Rightarrow> int \<Rightarrow> int \<Rightarrow> u64 \<Rightarrow> string \<Rightarrow> u64 \<Rightarrow> ObDetectorPriority \<Rightarrow>
   ObDetectorUserReportInfo \<Rightarrow> ob_ret \<times> ObDetectorInnerReportInfo option" where
  "info_set_args mtl_id binary_key addr detector_id report_time created_time event_id role start_delay prio user_report_info =
     (case check_and_assign_ptr (Some role) 0 [] of (ret, str) \<Rightarrow>
        if ret \<noteq> OB_SUCCESS then (ret, None)
        else (OB_SUCCESS, Some \<lparr>info_key = binary_key, info_tenant_id = mtl_id, info_addr = addr,
               info_detector_id = detector_id, info_report_time = report_time,
               info_created_time = created_time, info_event_id = event_id, info_role = str,
               info_start_delay = start_delay, info_priority = prio, info_user = user_report_info\<rparr>))"

definition info_is_valid :: "ObDetectorInnerReportInfo \<Rightarrow> bool" where
  "info_is_valid i \<longleftrightarrow> key_is_valid (info_key i) \<and> DETECT_INVALID_VALUE \<noteq> info_tenant_id i
     \<and> addr_is_valid (info_addr i) \<and> DETECT_INVALID_VALUE \<noteq> info_detector_id i
     \<and> uint DETECT_INVALID_VALUE \<noteq> info_report_time i \<and> uint DETECT_INVALID_VALUE \<noteq> info_created_time i
     \<and> DETECT_INVALID_VALUE \<noteq> info_event_id i \<and> info_role i \<noteq> [] \<and> DETECT_INVALID_VALUE \<noteq> info_start_delay i
     \<and> user_report_is_valid (info_user i)"

record ObDeadLockCollectInfoMessage =
  cm_dest_key :: UserBinaryKey
  cm_collected_info :: "ObDetectorInnerReportInfo list"

definition cm_append :: "ObDetectorInnerReportInfo \<Rightarrow> ObDeadLockCollectInfoMessage \<Rightarrow> ObDeadLockCollectInfoMessage" where
  "cm_append info m = m\<lparr>cm_collected_info := cm_collected_info m @ [info]\<rparr>"

definition cm_set_dest_key :: "UserBinaryKey \<Rightarrow> ObDeadLockCollectInfoMessage \<Rightarrow> ObDeadLockCollectInfoMessage" where
  "cm_set_dest_key dest_key m = m\<lparr>cm_dest_key := dest_key\<rparr>"

definition cm_is_valid :: "ObDeadLockCollectInfoMessage \<Rightarrow> bool" where
  "cm_is_valid m \<longleftrightarrow> key_is_valid (cm_dest_key m)"

record ObDeadLockNotifyParentMessage =
  nm_parent_addr :: ObAddr
  nm_parent_key :: UserBinaryKey
  nm_src_addr :: ObAddr
  nm_src_key :: UserBinaryKey

definition nm_set_args ::
  "ObAddr \<Rightarrow> UserBinaryKey \<Rightarrow> ObAddr \<Rightarrow> UserBinaryKey \<Rightarrow> ObDeadLockNotifyParentMessage \<Rightarrow>
   ob_ret \<times> ObDeadLockNotifyParentMessage" where
  "nm_set_args parent_addr parent_key src_addr src_key m =
     (if \<not> addr_is_valid parent_addr \<or> \<not> key_is_valid parent_key \<or> \<not> addr_is_valid src_addr
         \<or> \<not> key_is_valid src_key then (OB_INVALID_ARGUMENT, m)
      else (OB_SUCCESS, m\<lparr>nm_parent_addr := parent_addr, nm_parent_key := parent_key,
                          nm_src_addr := src_addr, nm_src_key := src_key\<rparr>))"

definition nm_is_valid :: "ObDeadLockNotifyParentMessage \<Rightarrow> bool" where
  "nm_is_valid m \<longleftrightarrow> addr_is_valid (nm_parent_addr m) \<and> key_is_valid (nm_parent_key m)
     \<and> addr_is_valid (nm_src_addr m) \<and> key_is_valid (nm_src_key m)"

text \<open>The resource a report info speaks of, and the number that names its detector.\<close>

definition info_res :: "ObDetectorInnerReportInfo \<Rightarrow> ObDependencyResource" where
  "info_res i = Resource (info_addr i) (info_key i)"

definition info_no :: "ObDetectorInnerReportInfo \<Rightarrow> ObAddr \<times> u64" where
  "info_no i = (info_addr i, info_detector_id i)"

end
