(* ===== verification/Lcl_Node.thy ===== *)
theory Lcl_Node
  imports Deadlock_Messages
begin

text \<open>
  The detector of one resource, \<^verbatim>\<open>ObLCLNode\<close> (\<^verbatim>\<open>ob_lcl_scheme/ob_lcl_node.cpp\<close>): its list of waits,
  the label scheme, and the collection of report infos around a suspected cycle.

  A handler is a function of an environment and the node. The environment holds what the
  handler reads from elsewhere: the address of the server, the clocks (one reading per handler),
  the user's callbacks, \<^verbatim>\<open>murmurhash\<close> the outcomes of the timer and of the network, the
  number of detectors alive in the process and the draws of the random generator. A handler returns its
  code, the new node and the list of its effects in order. The spin lock of a node makes each
  locked part atomic; the parts of a handler are run in their order.
\<close>

record lcl_env =
  en_self_addr :: ObAddr
  en_mtl_id :: u64
  en_real_clock :: int
  en_clock :: int
  en_op_interval :: int
  en_callback_valid :: "nat \<Rightarrow> bool"
  en_call_back :: "nat \<Rightarrow> ob_ret \<times> ObDependencyResource list \<times> bool"
  en_detect_callback :: "ObDetectorInnerReportInfo list \<Rightarrow> ob_ret"
  en_collect_callback :: "ob_ret \<times> ObDetectorUserReportInfo"
  en_hash_addr :: "ObAddr \<Rightarrow> u64 \<Rightarrow> u64"
  en_hash_u64 :: "u64 \<Rightarrow> u64 \<Rightarrow> u64"
  en_post_collect :: "ObAddr \<Rightarrow> ObDeadLockCollectInfoMessage \<Rightarrow> ob_ret"
  en_post_notify :: "ObAddr \<Rightarrow> ObDeadLockNotifyParentMessage \<Rightarrow> ob_ret"
  en_schedule :: "int \<Rightarrow> ob_ret"
  en_alived_count :: int
  en_constructed :: bool
  en_draw :: "nat \<Rightarrow> int"

datatype lcl_out =
    CacheMsg ObDependencyResource ObLCLMessage
  | PostCollect ObAddr ObDeadLockCollectInfoMessage
  | PostNotify ObAddr ObDeadLockNotifyParentMessage
  | InsertAll "ObDetectorInnerReportInfo list"
  | DetectCall "ObDetectorInnerReportInfo list"
  | UnregisterKey UserBinaryKey
  | RevertSelf

record ObLCLNode =
  self_key :: UserBinaryKey
  timeout_ts :: u64
  node_lclv :: u64
  private_label :: ObLCLLabel
  public_label :: ObLCLLabel
  auto_activate_when_detected :: bool
  created_time :: int
  allow_detect_time :: int
  is_timer_task_canceled :: bool
  block_list :: "ObDependencyResource list"
  parent_list :: "ObDependencyResource list"
  block_callback_list :: "nat list"
  lcl_period :: int
  last_report_waiting_for_period :: int
  last_send_collect_info_period :: int
  count_down_allow_detect :: u32
  expected_executed_ts :: int

definition new_lcl_node ::
  "lcl_env \<Rightarrow> UserBinaryKey \<Rightarrow> u64 \<Rightarrow> ObDetectorPriority \<Rightarrow> u64 \<Rightarrow> u32 \<Rightarrow> bool \<Rightarrow> ObLCLNode" where
  "new_lcl_node E user_key resource_id prio start_delay count_down auto_activate =
     (let lab = Label (en_self_addr E) resource_id prio in
      \<lparr>self_key = user_key, timeout_ts = 0, node_lclv = 0, private_label = lab, public_label = lab,
       auto_activate_when_detected = auto_activate, created_time = en_real_clock E,
       allow_detect_time = sint (word_of_int (en_real_clock E) + start_delay),
       is_timer_task_canceled = False, block_list = [], parent_list = [], block_callback_list = [],
       lcl_period = 0, last_report_waiting_for_period = 0, last_send_collect_info_period = 0,
       count_down_allow_detect = count_down, expected_executed_ts = 0\<rparr>)"

definition self_res :: "lcl_env \<Rightarrow> ObLCLNode \<Rightarrow> ObDependencyResource" where
  "self_res E n = Resource (en_self_addr E) (self_key n)"

subsection \<open>The list of waits\<close>

definition node_add_parent :: "ObDependencyResource \<Rightarrow> ObLCLNode \<Rightarrow> ob_ret \<times> ObLCLNode" where
  "node_add_parent parent n =
     (if parent \<in> set (parent_list n) then (OB_ENTRY_EXIST, n)
      else (OB_SUCCESS, n\<lparr>parent_list := parent_list n @ [parent]\<rparr>))"

definition node_set_timeout :: "lcl_env \<Rightarrow> u64 \<Rightarrow> ObLCLNode \<Rightarrow> ObLCLNode" where
  "node_set_timeout E timeout n = n\<lparr>timeout_ts := word_of_int (en_real_clock E) + timeout\<rparr>"

definition unregister_timer_task :: "ObLCLNode \<Rightarrow> ObLCLNode" where
  "unregister_timer_task n = n\<lparr>is_timer_task_canceled := True\<rparr>"

text \<open>The loop of the compare-and-swap is the step of its successful swap.\<close>

definition node_dec_count_down :: "ObLCLNode \<Rightarrow> ObLCLNode" where
  "node_dec_count_down n =
     (if count_down_allow_detect n > 0
      then n\<lparr>count_down_allow_detect := count_down_allow_detect n - 1\<rparr> else n)"

definition add_resource_to_list ::
  "ObDependencyResource \<Rightarrow> ObDependencyResource list \<Rightarrow> ob_ret \<times> ObDependencyResource list" where
  "add_resource_to_list resource blocks =
     (if list_ex (\<lambda>b. res_addr b = res_addr resource \<and> res_key b = res_key resource) blocks
      then (OB_ENTRY_EXIST, blocks) else (OB_SUCCESS, blocks @ [resource]))"

definition node_block :: "ObDependencyResource \<Rightarrow> ObLCLNode \<Rightarrow> ob_ret \<times> ObLCLNode" where
  "node_block resource n =
     (if \<not> res_is_valid resource then (OB_INVALID_ARGUMENT, n)
      else case add_resource_to_list resource (block_list n) of
        (ret, blocks) \<Rightarrow> (ret, n\<lparr>block_list := blocks\<rparr>))"

definition node_block_callback :: "lcl_env \<Rightarrow> nat \<Rightarrow> ObLCLNode \<Rightarrow> ob_ret \<times> ObLCLNode" where
  "node_block_callback E func n =
     (if \<not> en_callback_valid E func then (OB_ERR_UNEXPECTED, n)
      else (OB_SUCCESS, n\<lparr>block_callback_list := block_callback_list n @ [func]\<rparr>))"

definition node_activate :: "ObDependencyResource \<Rightarrow> ObLCLNode \<Rightarrow> ob_ret \<times> ObLCLNode" where
  "node_activate resource n =
     (if resource \<notin> set (block_list n) then (OB_ENTRY_NOT_EXIST, n)
      else (OB_SUCCESS, n\<lparr>block_list := remove1 resource (block_list n)\<rparr>))"

definition node_activate_all :: "ObLCLNode \<Rightarrow> ob_ret \<times> ObLCLNode" where
  "node_activate_all n = (OB_SUCCESS, n\<lparr>block_list := [], block_callback_list := []\<rparr>)"

definition need_replace_block_list ::
  "ObDependencyResource \<Rightarrow> ObDependencyResource list \<Rightarrow> ObDependencyResource list \<Rightarrow> bool" where
  "need_replace_block_list me new_list blocks \<longleftrightarrow>
     (if length new_list \<noteq> length blocks then True
      else list_ex (\<lambda>r. \<not> list_ex (\<lambda>b. r = b \<or> r = me) blocks) new_list)"

definition node_replace_block_list ::
  "lcl_env \<Rightarrow> ObDependencyResource list \<Rightarrow> ObLCLNode \<Rightarrow> ob_ret \<times> ObLCLNode" where
  "node_replace_block_list E new_list n =
     (OB_SUCCESS, if need_replace_block_list (self_res E n) new_list (block_list n)
                  then n\<lparr>block_list := new_list\<rparr> else n)"

subsection \<open>A snapshot of the waits\<close>

text \<open>
  The resources a callback names are taken up to the first one that is invalid or that is the
  node itself; one flag per callback says whether it can be dropped.
\<close>

fun push_resources ::
  "ObDependencyResource \<Rightarrow> ObDependencyResource list \<Rightarrow> ObDependencyResource list \<Rightarrow> ObDependencyResource list" where
  "push_resources me snapshot [] = snapshot"
| "push_resources me snapshot (r # rs) =
     (if \<not> res_is_valid r then snapshot
      else if r = me then snapshot
      else push_resources me (snapshot @ [r]) rs)"

fun get_resource_from_callback_list ::
  "lcl_env \<Rightarrow> ObDependencyResource \<Rightarrow> nat list \<Rightarrow> ObDependencyResource list \<times> bool list \<Rightarrow>
   ObDependencyResource list \<times> bool list" where
  "get_resource_from_callback_list E me [] acc = acc"
| "get_resource_from_callback_list E me (cb # cbs) (snapshot, remove_idxs) =
     get_resource_from_callback_list E me cbs
       (if \<not> en_callback_valid E cb then (snapshot, remove_idxs @ [False])
        else case en_call_back E cb of (ret, resource_array, need_remove) \<Rightarrow>
          (if ret \<noteq> OB_SUCCESS \<or> resource_array = [] then snapshot
           else push_resources me snapshot resource_array, remove_idxs @ [need_remove]))"

definition remove_unuseful_callback :: "bool list \<Rightarrow> ObLCLNode \<Rightarrow> ObLCLNode" where
  "remove_unuseful_callback remove_idxs n =
     (if remove_idxs \<noteq> [] \<and> length remove_idxs = length (block_callback_list n)
      then n\<lparr>block_callback_list := map fst (filter (\<lambda>(cb, rm). \<not> rm) (zip (block_callback_list n) remove_idxs))\<rparr>
      else n)"

definition get_state_snapshot ::
  "lcl_env \<Rightarrow> ObLCLNode \<Rightarrow> ObDependencyResource list \<times> u64 \<times> ObLCLLabel \<times> ObLCLNode" where
  "get_state_snapshot E n =
     (case get_resource_from_callback_list E (self_res E n) (block_callback_list n) (block_list n, []) of
        (snapshot, remove_idxs) \<Rightarrow>
          (snapshot, node_lclv n, public_label n, remove_unuseful_callback remove_idxs n))"

subsection \<open>The label scheme\<close>

definition node_broadcast ::
  "lcl_env \<Rightarrow> ObLCLNode \<Rightarrow> ObDependencyResource list \<Rightarrow> u64 \<Rightarrow> ObLCLLabel \<Rightarrow> lcl_out list" where
  "node_broadcast E n blocks lclv label =
     map (\<lambda>r. CacheMsg r (snd (lm_set_args (res_addr r) (res_key r) (en_self_addr E) (self_key n)
                                 lclv label (en_real_clock E)))) blocks"

definition update_lcl_period_if_necessary :: "lcl_env \<Rightarrow> ObLCLNode \<Rightarrow> ObLCLNode \<times> lcl_out list" where
  "update_lcl_period_if_necessary E n =
     (let new_period = en_real_clock E sdiv PERIOD;
          timeout = sint (timeout_ts n) in
      (if new_period > lcl_period n
       then n\<lparr>lcl_period := new_period, public_label := private_label n\<rparr> else n,
       if timeout \<noteq> 0 \<and> en_real_clock E > timeout then [UnregisterKey (self_key n)] else []))"

definition if_phase_match :: "int \<Rightarrow> ObLCLMessage \<Rightarrow> bool" where
  "if_phase_match ts m \<longleftrightarrow> ts sdiv PHASE_TIME = lm_send_ts m sdiv PHASE_TIME"

definition process_msg_as_lclp_msg :: "ObLCLMessage \<Rightarrow> ObLCLNode \<Rightarrow> ob_ret \<times> ObLCLNode" where
  "process_msg_as_lclp_msg m n =
     (OB_SUCCESS, if lm_lclv m + 1 > node_lclv n then n\<lparr>node_lclv := lm_lclv m + 1\<rparr> else n)"

definition process_msg_as_lcls_msg :: "ObLCLMessage \<Rightarrow> ObLCLNode \<Rightarrow> ob_ret \<times> bool \<times> ObLCLNode" where
  "process_msg_as_lcls_msg m n =
     (if lm_lclv m \<ge> node_lclv n then
        (let n1 = n\<lparr>node_lclv := lm_lclv m\<rparr> in
         if lm_lclv m = node_lclv n1 \<and> label_eq (lm_label m) (private_label n1) then
           (if last_send_collect_info_period n1 = lcl_period n1 then (OB_EAGAIN, False, n1)
            else (OB_SUCCESS, True, n1\<lparr>last_send_collect_info_period := lcl_period n1\<rparr>))
         else if label_lt (lm_label m) (public_label n1) then
           (OB_SUCCESS, False, n1\<lparr>public_label := lm_label m\<rparr>)
         else (OB_SUCCESS, False, n1))
      else (OB_SUCCESS, False, n))"

subsection \<open>Collecting the report infos of a cycle\<close>

fun lowest_priority_idx ::
  "nat \<Rightarrow> ObDetectorPriority \<Rightarrow> int \<Rightarrow> ObDetectorInnerReportInfo list \<Rightarrow> int" where
  "lowest_priority_idx i lowest idx [] = idx"
| "lowest_priority_idx i lowest idx (info # infos) =
     (if priority_lt (info_priority info) lowest
      then lowest_priority_idx (i + 1) (info_priority info) (int i) infos
      else lowest_priority_idx (i + 1) lowest idx infos)"

definition if_self_has_lowest_priority :: "ObDetectorInnerReportInfo list \<Rightarrow> bool" where
  "if_self_has_lowest_priority collected_info \<longleftrightarrow>
     lowest_priority_idx 0 (Priority EXTREMELY_HIGH (- 1)) (- 1) collected_info = 0"

definition check_and_process_completely_collected_msg ::
  "lcl_env \<Rightarrow> ObDetectorInnerReportInfo list \<Rightarrow> ObLCLNode \<Rightarrow> ob_ret \<times> ObLCLNode \<times> lcl_out list" where
  "check_and_process_completely_collected_msg E infos n =
     (if infos \<noteq> [] \<and> info_addr (infos ! 0) = en_self_addr E
         \<and> info_detector_id (infos ! 0) = label_id (private_label n) then
        (if \<not> if_self_has_lowest_priority infos then (OB_SUCCESS, n, [])
         else if en_detect_callback E infos \<noteq> OB_SUCCESS then (OB_SUCCESS, n, [DetectCall infos])
         else if auto_activate_when_detected n then
           (let next_idx = (if length infos = 1 then 0 else 1);
                peer = Resource (info_addr (infos ! next_idx)) (info_key (infos ! next_idx)) in
            (OB_SUCCESS, n\<lparr>block_list := remove1 peer (block_list n)\<rparr>, [DetectCall infos]))
         else (OB_SUCCESS, n, [DetectCall infos]))
      else (OB_EAGAIN, n, []))"

definition generate_event_id :: "lcl_env \<Rightarrow> ObDetectorInnerReportInfo list \<Rightarrow> ObLCLNode \<Rightarrow> u64" where
  "generate_event_id E infos n =
     (if infos = [] then
        en_hash_u64 E (word_of_int (created_time n))
          (en_hash_u64 E (label_id (private_label n)) (en_hash_addr E (en_self_addr E) 0))
      else info_event_id (infos ! 0))"

definition check_dead_loop :: "lcl_env \<Rightarrow> ObDetectorInnerReportInfo list \<Rightarrow> ObLCLNode \<Rightarrow> bool" where
  "check_dead_loop E infos n \<longleftrightarrow>
     list_ex (\<lambda>i. info_addr i = en_self_addr E \<and> info_detector_id i = label_id (private_label n)) infos"

definition append_report_info_to_msg ::
  "lcl_env \<Rightarrow> ObDeadLockCollectInfoMessage \<Rightarrow> u64 \<Rightarrow> ObLCLNode \<Rightarrow> ob_ret \<times> ObDeadLockCollectInfoMessage" where
  "append_report_info_to_msg E m event_id n =
     (case en_collect_callback E of (ret, user_report_info) \<Rightarrow>
        if ret \<noteq> OB_SUCCESS then (ret, m)
        else if \<not> user_report_is_valid user_report_info then (OB_ERR_UNEXPECTED, m)
        else case info_set_args (en_mtl_id E) (self_key n) (en_self_addr E) (label_id (private_label n))
               (en_real_clock E) (created_time n) event_id
               (if cm_collected_info m = [] then ROLE_VICTIM else ROLE_WITNESS)
               (word_of_int (allow_detect_time n - created_time n)) (label_priority (private_label n))
               user_report_info of
             (ret1, None) \<Rightarrow> (ret1, m)
           | (ret1, Some info) \<Rightarrow> (ret1, cm_append info m))"

definition post_collect_info_message ::
  "lcl_env \<Rightarrow> ObAddr \<Rightarrow> ObDeadLockCollectInfoMessage \<Rightarrow> ob_ret" where
  "post_collect_info_message E dest_addr m =
     (if \<not> cm_is_valid m \<or> \<not> addr_is_valid dest_addr then OB_INVALID_ARGUMENT
      else en_post_collect E dest_addr m)"

fun post_collect_loop ::
  "lcl_env \<Rightarrow> ObDeadLockCollectInfoMessage \<Rightarrow> ObDependencyResource list \<Rightarrow> ob_ret \<times> lcl_out list" where
  "post_collect_loop E m [] = (OB_SUCCESS, [])"
| "post_collect_loop E m (r # rs) =
     (let m1 = cm_set_dest_key (res_key r) m;
          ret = post_collect_info_message E (res_addr r) m1 in
      if ret \<noteq> OB_SUCCESS then (ret, [])
      else case post_collect_loop E m1 rs of (ret1, outs) \<Rightarrow> (ret1, PostCollect (res_addr r) m1 # outs))"

definition broadcast_collect_info ::
  "lcl_env \<Rightarrow> ObDeadLockCollectInfoMessage \<Rightarrow> ObLCLNode \<Rightarrow> ob_ret \<times> ObLCLNode \<times> lcl_out list" where
  "broadcast_collect_info E m n =
     (case get_state_snapshot E n of (blocks, _, _, n1) \<Rightarrow>
        case post_collect_loop E m blocks of (ret, outs) \<Rightarrow> (ret, n1, outs))"

definition node_process_collect_info_message ::
  "lcl_env \<Rightarrow> ObDeadLockCollectInfoMessage \<Rightarrow> ObLCLNode \<Rightarrow> ob_ret \<times> ObLCLNode \<times> lcl_out list" where
  "node_process_collect_info_message E msg n =
     (if \<not> CHECK_ARGS [cm_is_valid msg] then (OB_INVALID_ARGUMENT, n, [])
      else
        let infos = cm_collected_info msg in
        case check_and_process_completely_collected_msg E infos n of (ret, n1, outs) \<Rightarrow>
          if ret = OB_SUCCESS then (OB_SUCCESS, n1, outs @ [InsertAll infos])
          else if check_dead_loop E infos n1 then (ret, n1, outs)
          else case append_report_info_to_msg E msg (generate_event_id E infos n1) n1 of (ret1, msg1) \<Rightarrow>
            if ret1 \<noteq> OB_SUCCESS then (ret1, n1, outs)
            else case broadcast_collect_info E msg1 n1 of (ret2, n2, outs2) \<Rightarrow> (ret2, n2, outs @ outs2))"

definition node_process_lcl_message ::
  "lcl_env \<Rightarrow> ObLCLMessage \<Rightarrow> ObLCLNode \<Rightarrow> ob_ret \<times> ObLCLNode \<times> lcl_out list" where
  "node_process_lcl_message E m n =
     (case update_lcl_period_if_necessary E n of (n1, outs1) \<Rightarrow>
        if \<not> if_phase_match (en_clock E) m then (OB_SUCCESS, n1, outs1)
        else
          let (ret, detected_flag, n2) =
                (if (en_clock E sdiv PHASE_TIME) smod 2 = 0
                 then (case process_msg_as_lclp_msg m n1 of (ret, n') \<Rightarrow> (ret, False, n'))
                 else process_msg_as_lcls_msg m n1);
              n3 = (if ret = OB_SUCCESS then (case get_state_snapshot E n2 of (_, _, _, n') \<Rightarrow> n') else n2) in
          if detected_flag then
            (case node_process_collect_info_message E
                    \<lparr>cm_dest_key = self_key n3, cm_collected_info = []\<rparr> n3 of
               (_, n4, outs2) \<Rightarrow> (OB_SUCCESS, n4, outs1 @ outs2))
          else (OB_SUCCESS, n3, outs1))"

subsection \<open>The timer task\<close>

definition post_notify_parent_message ::
  "lcl_env \<Rightarrow> ObAddr \<Rightarrow> ObDeadLockNotifyParentMessage \<Rightarrow> ob_ret" where
  "post_notify_parent_message E dest_addr m =
     (if \<not> nm_is_valid m \<or> \<not> addr_is_valid dest_addr then OB_INVALID_ARGUMENT
      else en_post_notify E dest_addr m)"

fun notify_parents ::
  "lcl_env \<Rightarrow> UserBinaryKey \<Rightarrow> ob_ret \<Rightarrow> ObDeadLockNotifyParentMessage \<Rightarrow> ObDependencyResource list \<Rightarrow>
   ob_ret \<times> lcl_out list" where
  "notify_parents E key ret m [] = (ret, [])"
| "notify_parents E key ret m (p # ps) =
     (let m1 = snd (nm_set_args (res_addr p) (res_key p) (en_self_addr E) key m);
          ret1 = post_notify_parent_message E (res_addr p) m1 in
      case notify_parents E key ret1 m1 ps of (ret2, outs) \<Rightarrow>
        (ret2, (if ret1 = OB_SUCCESS then [PostNotify (res_addr p) m1] else []) @ outs))"

definition push_state_to_downstreams ::
  "lcl_env \<Rightarrow> ObLCLNode \<Rightarrow> ob_ret \<times> ObLCLNode \<times> lcl_out list" where
  "push_state_to_downstreams E n =
     (case get_state_snapshot E n of (blocks, lclv, label, n1) \<Rightarrow>
        if count_down_allow_detect n1 \<noteq> 0 then (OB_SUCCESS, n1, [])
        else
          let outs = node_broadcast E n1 blocks lclv label in
          if lcl_period n1 > last_report_waiting_for_period n1 then
            (case notify_parents E (self_key n1) OB_SUCCESS
                    \<lparr>nm_parent_addr = None, nm_parent_key = key_reset, nm_src_addr = None, nm_src_key = key_reset\<rparr>
                    (parent_list n1) of
               (ret, outs2) \<Rightarrow>
                 (ret, n1\<lparr>last_report_waiting_for_period := lcl_period n1\<rparr>, outs @ outs2))
          else (OB_SUCCESS, n1, outs))"

text \<open>
  The loop that schedules the next run would retry only with a negative delay; the readings of
  the clock in its rounds are a list.
\<close>

fun register_timer_loop :: "lcl_env \<Rightarrow> int \<Rightarrow> (int \<times> int) list \<Rightarrow> (ob_ret \<times> int) option" where
  "register_timer_loop E allow_time [] = None"
| "register_timer_loop E allow_time ((cur_ts, later_ts) # clocks) =
     (let baseline_ts = (if cur_ts > allow_time then cur_ts else allow_time) in
      if en_op_interval E = 0 then Some (OB_NOT_RUNNING, 0)
      else
        let next_expect_ts = (baseline_ts sdiv en_op_interval E + 1) * en_op_interval E;
            delay0 = next_expect_ts - later_ts;
            delay = (if delay0 < TIMER_SCHEDULE_RESERVE_TIME then TIMER_SCHEDULE_RESERVE_TIME else delay0);
            ret = en_schedule E delay in
        if ret = OB_INVALID_ARGUMENT \<and> delay < 0 then register_timer_loop E allow_time clocks
        else Some (ret, next_expect_ts))"

definition register_timer :: "lcl_env \<Rightarrow> ObLCLNode \<Rightarrow> ob_ret \<times> ObLCLNode" where
  "register_timer E n =
     (case register_timer_loop E (allow_detect_time n) [(en_real_clock E, en_real_clock E)] of
        None \<Rightarrow> (OB_ERR_UNEXPECTED, n)
      | Some (ret, next_expect_ts) \<Rightarrow>
          if ret \<noteq> OB_SUCCESS then (ret, n)
          else (OB_SUCCESS, n\<lparr>expected_executed_ts := next_expect_ts\<rparr>))"

text \<open>One round is enough, whatever the clock and the timer say.\<close>

lemma register_timer_loop_one_round:
  "register_timer_loop E allow_time (c # cs) = register_timer_loop E allow_time [c]"
  "register_timer_loop E allow_time (c # cs) \<noteq> None"
  by (cases c; simp add: Let_def TIMER_SCHEDULE_RESERVE_TIME_def)+

text \<open>
  Taking a reference to oneself, as the pair of the code and the references gained: the map may
  by now hold another detector under the key, whose reference is given back.
\<close>

definition add_self_ref_count :: "ob_ret \<Rightarrow> bool \<Rightarrow> ob_ret \<times> int" where
  "add_self_ref_count get_ret found_this =
     (if get_ret \<noteq> OB_SUCCESS then (get_ret, 0)
      else if \<not> found_this then (OB_SUCCESS, 0)
      else (OB_SUCCESS, 1))"

definition register_timer_task ::
  "lcl_env \<Rightarrow> ob_ret \<Rightarrow> bool \<Rightarrow> ObLCLNode \<Rightarrow> ob_ret \<times> int \<times> ObLCLNode" where
  "register_timer_task E get_ret found_this n =
     (case add_self_ref_count get_ret found_this of (ret, refs) \<Rightarrow>
        if ret \<noteq> OB_SUCCESS then (ret, refs, n)
        else case register_timer E n of (ret1, n1) \<Rightarrow>
          if ret1 \<noteq> OB_SUCCESS then (ret1, refs - 1, n1) else (OB_SUCCESS, refs, n1))"

definition run_timer_task :: "lcl_env \<Rightarrow> ObLCLNode \<Rightarrow> ob_ret \<times> ObLCLNode \<times> lcl_out list" where
  "run_timer_task E n =
     (if \<not> is_timer_task_canceled n then
        (case update_lcl_period_if_necessary E n of (n1, outs1) \<Rightarrow>
           case push_state_to_downstreams E n1 of (_, n2, outs2) \<Rightarrow>
             case register_timer E n2 of (ret, n3) \<Rightarrow> (ret, n3, outs1 @ outs2))
      else (OB_SUCCESS, n, [RevertSelf]))"

end
