(* ===== verification/Lcl_Sender.thy ===== *)
theory Lcl_Sender
  imports Lcl_Node "HOL-Library.AList"
begin

text \<open>
  The thread that batches the label messages of a server, \<^verbatim>\<open>ObLCLBatchSenderThread\<close>
  (\<^verbatim>\<open>ob_lcl_scheme/ob_lcl_batch_sender_thread.cpp\<close>), and the sending half of
  \<^verbatim>\<open>ob_deadlock_detector_rpc.cpp\<close>. The concurrent hash map of pending messages is an association
  list with distinct keys; each of its calls is atomic.
\<close>

record ObLCLBatchSenderThread =
  sd_is_inited :: bool
  sd_is_running :: bool
  sd_allow_send :: bool
  sd_total_record_time :: int
  sd_total_busy_time :: int
  sd_over_night_times :: int
  lcl_msg_map :: "(ObDependencyResource \<times> ObLCLMessage) list"

definition merge_op :: "ObLCLMessage \<Rightarrow> ObLCLMessage \<Rightarrow> ObLCLMessage" where
  "merge_op lcl_msg val = snd (lm_merge val lcl_msg)"

text \<open>
  With the calls of the map atomic and the thread alone, the retry loop ends in its first round:
  a key that cannot be inserted is there to be operated on.
\<close>

definition insert_or_merge ::
  "ObDependencyResource \<Rightarrow> ObLCLMessage \<Rightarrow> bool \<Rightarrow> ObLCLBatchSenderThread \<Rightarrow> ob_ret \<times> ObLCLBatchSenderThread" where
  "insert_or_merge key lcl_msg can_insert s =
     (case map_of (lcl_msg_map s) key of
        None \<Rightarrow> if can_insert then (OB_SUCCESS, s\<lparr>lcl_msg_map := (key, lcl_msg) # lcl_msg_map s\<rparr>)
                else (OB_BUF_NOT_ENOUGH, s)
      | Some val \<Rightarrow> (OB_SUCCESS, s\<lparr>lcl_msg_map := AList.update key (merge_op lcl_msg val) (lcl_msg_map s)\<rparr>))"

definition can_insert_msg :: "int \<Rightarrow> int \<Rightarrow> bool" where
  "can_insert_msg draw msg_count \<longleftrightarrow>
     (if msg_count < LCL_MSG_CACHE_LIMIT div 2 then True
      else if msg_count < LCL_MSG_CACHE_LIMIT then
        (let keep_threshold = LCL_MSG_CACHE_LIMIT div 2 in
         draw > (msg_count - keep_threshold) * 100 div keep_threshold)
      else False)"

definition cache_msg ::
  "int \<Rightarrow> ObDependencyResource \<Rightarrow> ObLCLMessage \<Rightarrow> ObLCLBatchSenderThread \<Rightarrow> ob_ret \<times> ObLCLBatchSenderThread" where
  "cache_msg draw key lcl_msg s =
     (if \<not> sd_is_inited s then (OB_NOT_INIT, s)
      else if \<not> sd_is_running s then (OB_NOT_RUNNING, s)
      else insert_or_merge key lcl_msg (can_insert_msg draw (int (length (lcl_msg_map s)))) s)"

definition post_lcl_message :: "(ObAddr \<Rightarrow> ObLCLMessage \<Rightarrow> ob_ret) \<Rightarrow> ObAddr \<Rightarrow> ObLCLMessage \<Rightarrow> ob_ret" where
  "post_lcl_message post dest_addr m =
     (if \<not> lm_is_valid m \<or> \<not> addr_is_valid dest_addr then OB_INVALID_ARGUMENT else post dest_addr m)"

text \<open>\<^verbatim>\<open>RemoveIfOp\<close> moves messages to the list up to the limit, in the order of the map.\<close>

definition take_messages ::
  "ObLCLBatchSenderThread \<Rightarrow> ObLCLMessage list \<times> ObLCLBatchSenderThread" where
  "take_messages s =
     (map snd (take (nat LCL_MSG_CACHE_LIMIT) (lcl_msg_map s)),
      s\<lparr>lcl_msg_map := drop (nat LCL_MSG_CACHE_LIMIT) (lcl_msg_map s)\<rparr>)"

definition record_summary :: "int \<Rightarrow> int \<Rightarrow> ObLCLBatchSenderThread \<Rightarrow> ObLCLBatchSenderThread" where
  "record_summary interval diff s =
     (let s1 = (if diff > interval then s\<lparr>sd_over_night_times := sd_over_night_times s + 1\<rparr> else s);
          s2 = s1\<lparr>sd_total_record_time := sd_total_record_time s1 + (if diff < interval then interval else diff),
                  sd_total_busy_time := sd_total_busy_time s1 + diff\<rparr> in
      if sd_total_record_time s2 > 5 * 1000 * 1000
      then s2\<lparr>sd_total_record_time := 0, sd_total_busy_time := 0, sd_over_night_times := 0\<rparr> else s2)"

text \<open>One round of the thread's loop, with the messages that the network takes.\<close>

definition sender_round ::
  "(ObAddr \<Rightarrow> ObLCLMessage \<Rightarrow> ob_ret) \<Rightarrow> int \<Rightarrow> int \<Rightarrow> ObLCLBatchSenderThread \<Rightarrow>
   ObLCLMessage list \<times> ObLCLBatchSenderThread" where
  "sender_round post interval diff s =
     (if interval = 0 then ([], s\<lparr>lcl_msg_map := []\<rparr>)
      else
        let (msgs, s1) = (if sd_allow_send s then take_messages s else ([], s)) in
        (filter (\<lambda>m. post_lcl_message post (lm_dest_addr m) m = OB_SUCCESS) msgs,
         record_summary interval diff s1))"

subsection \<open>What the cache holds\<close>

text \<open>
  Every cached message goes to the resource it is filed under, so that merging is never refused,
  and the cache never holds more messages than its limit.
\<close>

definition sender_wf :: "ObLCLBatchSenderThread \<Rightarrow> bool" where
  "sender_wf s \<longleftrightarrow> distinct (map fst (lcl_msg_map s))
     \<and> (\<forall>(r, m) \<in> set (lcl_msg_map s). r = Resource (lm_dest_addr m) (lm_dest_key m))
     \<and> int (length (lcl_msg_map s)) \<le> LCL_MSG_CACHE_LIMIT"

lemma set_AList_update:
  "(k, v) \<in> set (AList.update key x al) \<Longrightarrow> (k, v) = (key, x) \<or> (k, v) \<in> set al"
  by (induction al) (auto split: if_splits)

lemma length_AList_update:
  "map_of al key \<noteq> None \<Longrightarrow> length (AList.update key x al) = length al"
  by (induction al) auto

lemma keys_AList_update:
  "map_of al key \<noteq> None \<Longrightarrow> map fst (AList.update key x al) = map fst al"
  by (induction al) auto

lemma cache_msg_wf:
  assumes "sender_wf s" "r = Resource (lm_dest_addr m) (lm_dest_key m)"
    "cache_msg draw r m s = (ret, s')"
  shows "sender_wf s'"
proof (cases "map_of (lcl_msg_map s) r")
  case None
  then have "r \<notin> set (map fst (lcl_msg_map s))" by (simp add: map_of_eq_None_iff)
  with None assms show ?thesis
    by (auto simp: sender_wf_def cache_msg_def insert_or_merge_def can_insert_msg_def Let_def
        LCL_MSG_CACHE_LIMIT_def split: if_splits)
next
  case (Some val)
  then have old: "r = Resource (lm_dest_addr val) (lm_dest_key val)"
    using assms(1) map_of_SomeD by (fastforce simp: sender_wf_def)
  have new: "r = Resource (lm_dest_addr (merge_op m val)) (lm_dest_key (merge_op m val))"
    using old by (simp add: merge_op_def)
  show ?thesis
    using Some assms new
    by (auto simp: sender_wf_def cache_msg_def insert_or_merge_def keys_AList_update length_AList_update
        dest!: set_AList_update split: if_splits)
qed

text \<open>A message filed under a known resource leaves the stronger of the two there.\<close>

lemma cache_msg_keeps_stronger:
  assumes "sender_wf s" "sd_is_inited s" "sd_is_running s" "map_of (lcl_msg_map s) r = Some val"
    "r = Resource (lm_dest_addr m) (lm_dest_key m)" "cache_msg draw r m s = (ret, s')"
  shows "ret = OB_SUCCESS"
    and "\<exists>m'. map_of (lcl_msg_map s') r = Some m' \<and> lm_rank m' = lm_stronger (lm_rank val) (lm_rank m)"
proof -
  have old: "r = Resource (lm_dest_addr val) (lm_dest_key val)"
    using assms(1,4) map_of_SomeD by (fastforce simp: sender_wf_def)
  then have "fst (lm_merge val m) = OB_SUCCESS" using assms(5) by (simp add: lm_merge_def)
  with lm_merge_rank [OF this] show "ret = OB_SUCCESS"
    and "\<exists>m'. map_of (lcl_msg_map s') r = Some m' \<and> lm_rank m' = lm_stronger (lm_rank val) (lm_rank m)"
    using assms by (auto simp: cache_msg_def insert_or_merge_def merge_op_def update_Some_unfold update_conv)
qed

text \<open>Where the messages of a cache and of a round of the thread come from.\<close>

lemma cache_msg_origin:
  assumes "cache_msg draw r m s = (ret, s')" "(k, x) \<in> set (lcl_msg_map s')"
  shows "(k, x) \<in> set (lcl_msg_map s) \<or> (k, x) = (r, m)
    \<or> (\<exists>val. (r, val) \<in> set (lcl_msg_map s) \<and> k = r \<and> x = merge_op m val)"
  using assms
  by (auto simp: cache_msg_def insert_or_merge_def split: if_splits option.splits
      dest!: set_AList_update dest: map_of_SomeD)

lemma take_messages_origin:
  assumes "take_messages s = (msgs, s')"
  shows "set msgs \<subseteq> snd ` set (lcl_msg_map s)" "set (lcl_msg_map s') \<subseteq> set (lcl_msg_map s)"
    "sender_wf s \<Longrightarrow> sender_wf s'"
proof -
  show "set msgs \<subseteq> snd ` set (lcl_msg_map s)" "set (lcl_msg_map s') \<subseteq> set (lcl_msg_map s)"
    using assms by (auto simp: take_messages_def dest: in_set_dropD intro: rev_image_eqI [OF in_set_takeD])
  show "sender_wf s \<Longrightarrow> sender_wf s'"
    using assms by (auto simp: take_messages_def sender_wf_def drop_map [symmetric] dest: in_set_dropD)
qed

lemma record_summary_map [simp]: "lcl_msg_map (record_summary i d s) = lcl_msg_map s"
  by (simp add: record_summary_def Let_def)

lemma sender_round_wf:
  assumes "sender_round post interval diff s = (msgs, s')" "sender_wf s"
  shows "sender_wf s'"
proof -
  obtain tm ts where t: "take_messages s = (tm, ts)" by (cases "take_messages s")
  have "lcl_msg_map s' \<in> {[], lcl_msg_map ts, lcl_msg_map s}"
    using assms(1) by (auto simp: sender_round_def t split: if_splits)
  with take_messages_origin(3) [OF t assms(2)] assms(2) show ?thesis
    by (auto simp: sender_wf_def LCL_MSG_CACHE_LIMIT_def)
qed

lemma sender_round_origin:
  assumes "sender_round post interval diff s = (msgs, s')"
  shows "set msgs \<subseteq> snd ` set (lcl_msg_map s)" "set (lcl_msg_map s') \<subseteq> set (lcl_msg_map s)"
proof -
  obtain tm ts where t: "take_messages s = (tm, ts)" by (cases "take_messages s")
  note o = take_messages_origin(1,2) [OF t]
  show "set msgs \<subseteq> snd ` set (lcl_msg_map s)" "set (lcl_msg_map s') \<subseteq> set (lcl_msg_map s)"
    using assms o by (auto simp: sender_round_def t split: if_splits)
qed

end
