(* ===== verification/Lcl_Mgr.thy ===== *)
theory Lcl_Mgr
  imports Lcl_Sender
begin

text \<open>
  The manager of the detectors of one server and tenant, \<^verbatim>\<open>ObDeadLockDetectorMgr\<close>
  (\<^verbatim>\<open>ob_deadlock_detector_mgr.{h,cpp}\<close>): registration, the calls of the users and the handlers of
  the messages. A user's key enters as the outcome of \<open>set_user_key\<close>. The map of detectors is
  a map from keys to nodes; references to nodes are not counted.
\<close>

subsection \<open>The record of reported cycles\<close>

record LimitRecordBuffer =
  lr_begin :: u64
  lr_end :: u64
  lr_buffer :: "u64 list"

definition NUM_OF_SLOTS :: u64 where "NUM_OF_SLOTS = 128"

definition lr_init :: LimitRecordBuffer where
  "lr_init = \<lparr>lr_begin = 0, lr_end = 0, lr_buffer = replicate 128 0\<rparr>"

definition real_idx :: "u64 \<Rightarrow> nat" where
  "real_idx logic_idx = unat (logic_idx AND (NUM_OF_SLOTS - 1))"

lemma unat_succ_below: "idx < limit \<Longrightarrow> unat (idx + 1) = unat idx + 1" for idx limit :: u64
  using unsigned_less [of limit, where ?'a = nat] by (simp add: unat_word_ariths word_less_nat_alt)

text \<open>The search, with the code and the index at which it stops.\<close>

function lr_search :: "u64 list \<Rightarrow> u64 \<Rightarrow> u64 \<Rightarrow> u64 \<Rightarrow> ob_ret \<times> u64" where
  "lr_search buffer element idx limit =
     (if idx < limit then
        (if buffer ! real_idx idx = element then (OB_ENTRY_EXIST, idx + 1)
         else lr_search buffer element (idx + 1) limit)
      else (OB_SUCCESS, idx))"
  by pat_completeness auto

termination
proof (relation "measure (\<lambda>(buffer, element, idx, limit). unat limit - unat idx)")
  fix buffer :: "u64 list" and element idx limit :: u64
  assume "idx < limit"
  then have less: "unat idx < unat limit" by (simp add: word_less_nat_alt)
  with less show "((buffer, element, idx + 1, limit), buffer, element, idx, limit)
      \<in> measure (\<lambda>(buffer, element, idx, limit). unat limit - unat idx)"
    by (simp add: unat_succ_below [OF \<open>idx < limit\<close>])
qed auto

definition check_and_push :: "u64 \<Rightarrow> LimitRecordBuffer \<Rightarrow> ob_ret \<times> LimitRecordBuffer" where
  "check_and_push element b =
     (case lr_search (lr_buffer b) element (lr_begin b) (lr_end b) of (ret, idx) \<Rightarrow>
        if idx = lr_end b then
          (let b1 = b\<lparr>lr_buffer := (lr_buffer b)[real_idx (lr_end b) := element], lr_end := lr_end b + 1\<rparr> in
           (ret, if lr_end b1 - lr_begin b1 > NUM_OF_SLOTS then b1\<lparr>lr_begin := lr_end b1 - NUM_OF_SLOTS\<rparr> else b1))
        else (ret, b))"

declare lr_search.simps [simp del]

text \<open>The code says whether the value is among the recorded ones.\<close>

lemma lr_search_finds:
  "fst (lr_search buffer element idx limit) = (if \<exists>i. idx \<le> i \<and> i < limit \<and> buffer ! real_idx i = element
     then OB_ENTRY_EXIST else OB_SUCCESS)"
proof (induction buffer element idx limit rule: lr_search.induct)
  case (1 buffer element idx limit)
  have next_idx: "idx < limit \<Longrightarrow> idx + 1 \<le> i \<longleftrightarrow> idx < i" for i
    using unat_succ_below [of idx limit] by (auto simp: word_le_nat_alt word_less_nat_alt)
  consider "\<not> idx < limit" | "idx < limit" "buffer ! real_idx idx = element"
    | "idx < limit" "buffer ! real_idx idx \<noteq> element" by blast
  then show ?case
  proof cases
    case 1 then show ?thesis by (subst lr_search.simps) (auto dest: order.strict_trans1)
  next
    case 2 then show ?thesis by (subst lr_search.simps) auto
  next
    case 3
    have "(\<exists>i. idx \<le> i \<and> i < limit \<and> buffer ! real_idx i = element)
        \<longleftrightarrow> (\<exists>i. idx + 1 \<le> i \<and> i < limit \<and> buffer ! real_idx i = element)"
      using 3 next_idx by (metis order.order_iff_strict)
    with "1.IH" [OF 3(1) 3(2)] 3 show ?thesis by (subst lr_search.simps) simp
  qed
qed

lemma check_and_push_code:
  "fst (check_and_push element b) = OB_ENTRY_EXIST
   \<longleftrightarrow> (\<exists>i. lr_begin b \<le> i \<and> i < lr_end b \<and> lr_buffer b ! real_idx i = element)"
proof -
  have "fst (check_and_push element b) = fst (lr_search (lr_buffer b) element (lr_begin b) (lr_end b))"
    by (auto simp: check_and_push_def Let_def split: prod.splits)
  then show ?thesis by (simp add: lr_search_finds)
qed

text \<open>
  When the value found is the last one recorded it is recorded again: the search stops behind it,
  where the search that finds nothing stops too.
\<close>

lemma same_cycle_recorded_twice:
  assumes "b = snd (check_and_push h lr_init)"
  shows "fst (check_and_push h b) = OB_ENTRY_EXIST \<and> lr_end (snd (check_and_push h b)) = 2"
proof -
  have "(128::nat) = Suc 127" by simp
  then have slots: "replicate 128 (0::u64) = 0 # replicate 127 0" by (simp only: replicate_Suc)
  have "lr_search xs h 0 0 = (OB_SUCCESS, 0)" for xs by (subst lr_search.simps) simp
  then have b: "b = \<lparr>lr_begin = 0, lr_end = 1, lr_buffer = h # replicate 127 0\<rparr>"
    using slots by (simp add: assms check_and_push_def lr_init_def real_idx_def NUM_OF_SLOTS_def Let_def)
  have "lr_search (h # xs) h 0 1 = (OB_ENTRY_EXIST, 1)" for xs
    by (subst lr_search.simps) (simp add: real_idx_def)
  then show ?thesis
    by (simp add: b check_and_push_def NUM_OF_SLOTS_def Let_def)
qed

subsection \<open>Registration\<close>

record ObDeadLockDetectorMgr =
  mgr_is_inited :: bool
  detector_map :: "UserBinaryKey \<Rightarrow> ObLCLNode option"
  logic_id :: u64
  sender_thread :: ObLCLBatchSenderThread
  reported_cycle_record :: LimitRecordBuffer

definition is_deadlock_enabled :: "lcl_env \<Rightarrow> bool" where
  "is_deadlock_enabled E \<longleftrightarrow> en_op_interval E \<noteq> 0"

definition factory_create ::
  "lcl_env \<Rightarrow> UserBinaryKey \<Rightarrow> ObDetectorPriority \<Rightarrow> u64 \<Rightarrow> u32 \<Rightarrow> bool \<Rightarrow> ObDeadLockDetectorMgr \<Rightarrow>
   ob_ret \<times> ObLCLNode option \<times> ObDeadLockDetectorMgr" where
  "factory_create E key prio start_delay count_down auto_activate g =
     (if en_alived_count E > 50 * 1000 then (OB_ERR_UNEXPECTED, None, g)
      else
        let new_id = logic_id g + 1; g1 = g\<lparr>logic_id := new_id\<rparr> in
        if \<not> en_constructed E then (OB_INIT_FAIL, None, g1)
        else (OB_SUCCESS, Some (new_lcl_node E key new_id prio start_delay count_down auto_activate), g1))"

definition get_detector :: "UserBinaryKey \<Rightarrow> ObDeadLockDetectorMgr \<Rightarrow> ob_ret \<times> ObLCLNode option" where
  "get_detector user_key g =
     (if \<not> mgr_is_inited g then (OB_NOT_INIT, None)
      else if \<not> CHECK_ARGS [key_is_valid user_key] then (OB_INVALID_ARGUMENT, None)
      else case detector_map g user_key of
             None \<Rightarrow> (OB_ENTRY_NOT_EXIST, None)
           | Some n \<Rightarrow> (OB_SUCCESS, Some n))"

definition put_detector :: "UserBinaryKey \<Rightarrow> ObLCLNode option \<Rightarrow> ObDeadLockDetectorMgr \<Rightarrow> ObDeadLockDetectorMgr" where
  "put_detector key nd g = g\<lparr>detector_map := (detector_map g)(key := nd)\<rparr>"

definition register_key ::
  "lcl_env \<Rightarrow> bool list \<Rightarrow> ob_ret \<times> UserBinaryKey \<Rightarrow> ObDetectorPriority \<Rightarrow> u64 \<Rightarrow> u32 \<Rightarrow> bool \<Rightarrow>
   ObDeadLockDetectorMgr \<Rightarrow> ob_ret \<times> ObDeadLockDetectorMgr" where
  "register_key E valid_args user_key prio start_delay count_down auto_activate g =
     (if \<not> mgr_is_inited g then (OB_NOT_INIT, g)
      else if \<not> is_deadlock_enabled E then (OB_NOT_RUNNING, g)
      else if \<not> CHECK_ARGS (valid_args @ [priority_is_valid prio, start_delay \<noteq> DETECT_INVALID_VALUE])
        then (OB_INVALID_ARGUMENT, g)
      else case user_key of (key_ret, key) \<Rightarrow>
        if key_ret \<noteq> OB_SUCCESS then (key_ret, g)
        else case detector_map g key of
          Some _ \<Rightarrow> (OB_ENTRY_EXIST, g)
        | None \<Rightarrow>
            (case factory_create E key prio start_delay count_down auto_activate g of
               (ret, None, g1) \<Rightarrow> (ret, g1)
             | (ret, Some n, g1) \<Rightarrow>
                 (case register_timer_task E OB_SUCCESS True n of (ret1, _, n1) \<Rightarrow>
                    if ret1 \<noteq> OB_SUCCESS
                    then (if ret1 = OB_ENTRY_NOT_EXIST then OB_EAGAIN else ret1, g1)
                    else (OB_SUCCESS, put_detector key (Some n1) g1))))"

definition unregister_key :: "UserBinaryKey \<Rightarrow> ObDeadLockDetectorMgr \<Rightarrow> ob_ret \<times> ObDeadLockDetectorMgr" where
  "unregister_key key g =
     (case get_detector key g of
        (ret, None) \<Rightarrow> (ret, g)
      | (ret, Some n) \<Rightarrow> (OB_SUCCESS, put_detector key None g))"

definition unregister_user_key ::
  "bool \<Rightarrow> ob_ret \<times> UserBinaryKey \<Rightarrow> ObDeadLockDetectorMgr \<Rightarrow> ob_ret \<times> ObDeadLockDetectorMgr" where
  "unregister_user_key key_valid user_key g =
     (if \<not> mgr_is_inited g then (OB_NOT_INIT, g)
      else if \<not> CHECK_ARGS [key_valid] then (OB_INVALID_ARGUMENT, g)
      else if fst user_key \<noteq> OB_SUCCESS then (fst user_key, g)
      else unregister_key (snd user_key) g)"

definition check_detector_exist ::
  "bool \<Rightarrow> ob_ret \<times> UserBinaryKey \<Rightarrow> ObDeadLockDetectorMgr \<Rightarrow> ob_ret \<times> bool option" where
  "check_detector_exist key_valid user_key g =
     (if \<not> mgr_is_inited g then (OB_NOT_INIT, None)
      else if \<not> CHECK_ARGS [key_valid] then (OB_INVALID_ARGUMENT, None)
      else if fst user_key \<noteq> OB_SUCCESS then (fst user_key, None)
      else case get_detector (snd user_key) g of
        (ret, Some n) \<Rightarrow> (ret, Some True)
      | (ret, None) \<Rightarrow> if ret = OB_ENTRY_NOT_EXIST then (OB_SUCCESS, Some False) else (ret, None))"

definition mgr_get_block_list ::
  "lcl_env \<Rightarrow> ob_ret \<times> UserBinaryKey \<Rightarrow> ObDeadLockDetectorMgr \<Rightarrow> ob_ret \<times> ObDependencyResource list option" where
  "mgr_get_block_list E src_key g =
     (if \<not> mgr_is_inited g then (OB_NOT_INIT, None)
      else if \<not> is_deadlock_enabled E then (OB_NOT_RUNNING, None)
      else if fst src_key \<noteq> OB_SUCCESS then (fst src_key, None)
      else case get_detector (snd src_key) g of
        (ret, None) \<Rightarrow> (ret, None)
      | (_, Some n) \<Rightarrow> (OB_SUCCESS, Some (block_list n)))"

subsection \<open>The calls of the users\<close>

text \<open>
  What the calls share: the checks of the macros, the serialized keys in their order, the first
  of which names the detector, and the operation on it.
\<close>

definition on_detector ::
  "lcl_env \<Rightarrow> bool list \<Rightarrow> (ob_ret \<times> UserBinaryKey) list \<Rightarrow> (ObLCLNode \<Rightarrow> ob_ret \<times> ObLCLNode) \<Rightarrow>
   ObDeadLockDetectorMgr \<Rightarrow> ob_ret \<times> ObDeadLockDetectorMgr" where
  "on_detector E valid_args keys f g =
     (if \<not> mgr_is_inited g then (OB_NOT_INIT, g)
      else if \<not> is_deadlock_enabled E then (OB_NOT_RUNNING, g)
      else if \<not> CHECK_ARGS valid_args then (OB_INVALID_ARGUMENT, g)
      else case find (\<lambda>(ret, _). ret \<noteq> OB_SUCCESS) keys of
        Some (ret, _) \<Rightarrow> (ret, g)
      | None \<Rightarrow>
          (case get_detector (snd (hd keys)) g of
             (ret, None) \<Rightarrow> (ret, g)
           | (_, Some n) \<Rightarrow>
               (case f n of (ret, n1) \<Rightarrow> (ret, put_detector (snd (hd keys)) (Some n1) g))))"

definition mgr_block ::
  "lcl_env \<Rightarrow> bool \<Rightarrow> bool \<Rightarrow> ob_ret \<times> UserBinaryKey \<Rightarrow> ObAddr \<Rightarrow> ob_ret \<times> UserBinaryKey \<Rightarrow>
   ObDeadLockDetectorMgr \<Rightarrow> ob_ret \<times> ObDeadLockDetectorMgr" where
  "mgr_block E src_valid dest_valid src_key dest_addr dest_key =
     on_detector E [src_valid, addr_is_valid dest_addr, dest_valid] [src_key, dest_key]
       (node_block (Resource dest_addr (snd dest_key)))"

fun block_each :: "ObDependencyResource list \<Rightarrow> ObLCLNode \<Rightarrow> ob_ret \<times> ObLCLNode" where
  "block_each [] n = (OB_SUCCESS, n)"
| "block_each (r # rs) n =
     (case node_block r n of (ret, n1) \<Rightarrow>
        if ret = OB_SUCCESS \<or> ret = OB_ENTRY_EXIST then block_each rs n1 else (ret, n1))"

definition mgr_block_list ::
  "lcl_env \<Rightarrow> bool \<Rightarrow> ob_ret \<times> UserBinaryKey \<Rightarrow> ObDependencyResource list \<Rightarrow> ObDeadLockDetectorMgr \<Rightarrow>
   ob_ret \<times> ObDeadLockDetectorMgr" where
  "mgr_block_list E src_valid src_key appened_list =
     on_detector E [src_valid] [src_key] (block_each appened_list)"

definition mgr_block_callback ::
  "lcl_env \<Rightarrow> bool \<Rightarrow> ob_ret \<times> UserBinaryKey \<Rightarrow> nat \<Rightarrow> ObDeadLockDetectorMgr \<Rightarrow> ob_ret \<times> ObDeadLockDetectorMgr" where
  "mgr_block_callback E src_valid src_key func =
     on_detector E [en_callback_valid E func, src_valid] [src_key] (node_block_callback E func)"

definition mgr_replace_block_list ::
  "lcl_env \<Rightarrow> ob_ret \<times> UserBinaryKey \<Rightarrow> ObDependencyResource list \<Rightarrow> ObDeadLockDetectorMgr \<Rightarrow>
   ob_ret \<times> ObDeadLockDetectorMgr" where
  "mgr_replace_block_list E src_key new_list =
     on_detector E [] [src_key] (node_replace_block_list E new_list)"

text \<open>A list that is replaced is read back, unless the old one had the same length and every new resource in it.\<close>

lemma replaced_list_read_back:
  assumes "mgr_replace_block_list E key new_list g = (OB_SUCCESS, g')" "length new_list \<noteq> length old"
    "mgr_get_block_list E key g = (OB_SUCCESS, Some old)"
  shows "mgr_get_block_list E key g' = (OB_SUCCESS, Some new_list)"
  using assms
  by (cases key) (auto simp: mgr_replace_block_list_def mgr_get_block_list_def on_detector_def get_detector_def
      node_replace_block_list_def need_replace_block_list_def put_detector_def split: if_splits option.splits)

definition mgr_dec_count_down_allow_detect ::
  "lcl_env \<Rightarrow> ob_ret \<times> UserBinaryKey \<Rightarrow> ObDeadLockDetectorMgr \<Rightarrow> ob_ret \<times> ObDeadLockDetectorMgr" where
  "mgr_dec_count_down_allow_detect E src_key =
     on_detector E [] [src_key] (\<lambda>n. (OB_SUCCESS, node_dec_count_down n))"

definition mgr_activate ::
  "lcl_env \<Rightarrow> bool \<Rightarrow> bool \<Rightarrow> ob_ret \<times> UserBinaryKey \<Rightarrow> ObAddr \<Rightarrow> ob_ret \<times> UserBinaryKey \<Rightarrow>
   ObDeadLockDetectorMgr \<Rightarrow> ob_ret \<times> ObDeadLockDetectorMgr" where
  "mgr_activate E src_valid dest_valid src_key dest_addr dest_key =
     on_detector E [src_valid, addr_is_valid dest_addr, dest_valid] [src_key, dest_key]
       (node_activate (Resource dest_addr (snd dest_key)))"

definition mgr_activate_all ::
  "lcl_env \<Rightarrow> bool \<Rightarrow> ob_ret \<times> UserBinaryKey \<Rightarrow> ObDeadLockDetectorMgr \<Rightarrow> ob_ret \<times> ObDeadLockDetectorMgr" where
  "mgr_activate_all E src_valid src_key = on_detector E [src_valid] [src_key] node_activate_all"

definition mgr_add_parent ::
  "lcl_env \<Rightarrow> bool \<Rightarrow> bool \<Rightarrow> ob_ret \<times> UserBinaryKey \<Rightarrow> ObAddr \<Rightarrow> ob_ret \<times> UserBinaryKey \<Rightarrow>
   ObDeadLockDetectorMgr \<Rightarrow> ob_ret \<times> ObDeadLockDetectorMgr" where
  "mgr_add_parent E src_valid dest_valid src_key dest_addr parent_key =
     on_detector E [src_valid, addr_is_valid dest_addr, dest_valid] [src_key, parent_key]
       (node_add_parent (Resource dest_addr (snd parent_key)))"

definition mgr_set_timeout ::
  "lcl_env \<Rightarrow> bool \<Rightarrow> ob_ret \<times> UserBinaryKey \<Rightarrow> u64 \<Rightarrow> ObDeadLockDetectorMgr \<Rightarrow> ob_ret \<times> ObDeadLockDetectorMgr" where
  "mgr_set_timeout E key_valid user_key timeout g =
     (if \<not> mgr_is_inited g then (OB_NOT_INIT, g)
      else if \<not> CHECK_ARGS [key_valid, timeout \<noteq> DETECT_INVALID_VALUE] then (OB_INVALID_ARGUMENT, g)
      else if fst user_key \<noteq> OB_SUCCESS then (fst user_key, g)
      else case get_detector (snd user_key) g of
        (ret, None) \<Rightarrow> (ret, g)
      | (_, Some n) \<Rightarrow> (OB_SUCCESS, put_detector (snd user_key) (Some (node_set_timeout E timeout n)) g))"

subsection \<open>The messages\<close>

definition process_notify_parent_message ::
  "lcl_env \<Rightarrow> ObDeadLockNotifyParentMessage \<Rightarrow> ObDeadLockDetectorMgr \<Rightarrow> ob_ret \<times> ObDeadLockDetectorMgr" where
  "process_notify_parent_message E m g =
     (if \<not> mgr_is_inited g then (OB_NOT_INIT, g)
      else if \<not> CHECK_ARGS [nm_is_valid m] then (OB_INVALID_ARGUMENT, g)
      else case detector_map g (nm_parent_key m) of
        Some _ \<Rightarrow> (OB_ENTRY_EXIST, g)
      | None \<Rightarrow>
          (case factory_create E (nm_parent_key m) (Priority EXTREMELY_HIGH 0) 0 0 True g of
             (ret, None, g1) \<Rightarrow> (ret, g1)
           | (_, Some n, g1) \<Rightarrow>
               (case register_timer_task E OB_SUCCESS True (node_set_timeout E (10 * 1000 * 1000) n) of
                  (ret1, _, n1) \<Rightarrow>
                    if ret1 \<noteq> OB_SUCCESS
                    then (if ret1 = OB_ENTRY_NOT_EXIST then OB_EAGAIN else ret1, g1)
                    else case node_block (Resource (nm_src_addr m) (nm_src_key m)) n1 of (ret2, n2) \<Rightarrow>
                      if ret2 \<noteq> OB_SUCCESS then (ret2, g1)
                      else (OB_SUCCESS, put_detector (nm_parent_key m) (Some n2) g1))))"

text \<open>
  The effects of a handler that stay on the server are carried out; those that leave it are
  returned. A parent on the same server is notified by a direct call.
\<close>

fun deal_outs :: "lcl_env \<Rightarrow> lcl_out list \<Rightarrow> ObDeadLockDetectorMgr \<Rightarrow> ObDeadLockDetectorMgr \<times> lcl_out list" where
  "deal_outs E [] g = (g, [])"
| "deal_outs E (CacheMsg r m # outs) g =
     deal_outs E outs (g\<lparr>sender_thread := snd (cache_msg (en_draw E (length outs)) r m (sender_thread g))\<rparr>)"
| "deal_outs E (UnregisterKey key # outs) g = deal_outs E outs (snd (unregister_key key g))"
| "deal_outs E (PostNotify addr m # outs) g =
     (if addr = en_self_addr E then deal_outs E outs (snd (process_notify_parent_message E m g))
      else case deal_outs E outs g of (g1, rest) \<Rightarrow> (g1, PostNotify addr m # rest))"
| "deal_outs E (out # outs) g = (case deal_outs E outs g of (g1, rest) \<Rightarrow> (g1, out # rest))"

definition mgr_process_lcl_message ::
  "lcl_env \<Rightarrow> ObLCLMessage \<Rightarrow> ObDeadLockDetectorMgr \<Rightarrow> ob_ret \<times> ObDeadLockDetectorMgr \<times> lcl_out list" where
  "mgr_process_lcl_message E m g =
     (if \<not> mgr_is_inited g then (OB_NOT_INIT, g, [])
      else if \<not> CHECK_ARGS [lm_is_valid m] then (OB_INVALID_ARGUMENT, g, [])
      else case get_detector (lm_dest_key m) g of
        (ret, None) \<Rightarrow> (if ret = OB_ENTRY_NOT_EXIST then OB_SUCCESS else ret, g, [])
      | (_, Some n) \<Rightarrow>
          (case node_process_lcl_message E m n of (ret, n1, outs) \<Rightarrow>
             (ret, deal_outs E outs (put_detector (lm_dest_key m) (Some n1) g))))"

definition calculate_cycle_hash :: "lcl_env \<Rightarrow> ObDetectorInnerReportInfo list \<Rightarrow> u64" where
  "calculate_cycle_hash E infos =
     foldl (\<lambda>h i. en_hash_u64 E (info_detector_id i) (en_hash_addr E (info_addr i) h)) 0 infos"

definition check_and_report_cycle ::
  "lcl_env \<Rightarrow> ObDeadLockCollectInfoMessage \<Rightarrow> ObDeadLockDetectorMgr \<Rightarrow> ob_ret \<times> ObDeadLockDetectorMgr \<times> lcl_out list" where
  "check_and_report_cycle E m g =
     (case cm_collected_info m of
        [] \<Rightarrow> (OB_INVALID_ARGUMENT, g, [])
      | organizer # _ \<Rightarrow>
          if info_addr organizer = en_self_addr E \<and> info_key organizer = cm_dest_key m then
            (case check_and_push (calculate_cycle_hash E (cm_collected_info m)) (reported_cycle_record g) of
               (ret, b) \<Rightarrow> (ret, g\<lparr>reported_cycle_record := b\<rparr>,
                            if ret = OB_SUCCESS then [InsertAll (cm_collected_info m)] else []))
          else (OB_SUCCESS, g, []))"

definition mgr_process_collect_info_message ::
  "lcl_env \<Rightarrow> ObDeadLockCollectInfoMessage \<Rightarrow> ObDeadLockDetectorMgr \<Rightarrow>
   ob_ret \<times> ObDeadLockDetectorMgr \<times> lcl_out list" where
  "mgr_process_collect_info_message E m g =
     (if \<not> mgr_is_inited g then (OB_NOT_INIT, g, [])
      else if \<not> CHECK_ARGS [cm_is_valid m] then (OB_INVALID_ARGUMENT, g, [])
      else case check_and_report_cycle E m g of (_, g1, outs1) \<Rightarrow>
        case get_detector (cm_dest_key m) g1 of
          (ret, None) \<Rightarrow> (ret, g1, outs1)
        | (_, Some n) \<Rightarrow>
            (case node_process_collect_info_message E m n of (ret, n1, outs) \<Rightarrow>
               case deal_outs E outs (put_detector (cm_dest_key m) (Some n1) g1) of
                 (g2, outs2) \<Rightarrow> (ret, g2, outs1 @ outs2)))"

definition mgr_run_timer ::
  "lcl_env \<Rightarrow> UserBinaryKey \<Rightarrow> ObDeadLockDetectorMgr \<Rightarrow> ObDeadLockDetectorMgr \<times> lcl_out list" where
  "mgr_run_timer E key g =
     (case detector_map g key of
        None \<Rightarrow> (g, [])
      | Some n \<Rightarrow>
          (case run_timer_task E n of (_, n1, outs) \<Rightarrow> deal_outs E outs (put_detector key (Some n1) g)))"

end
