(* ===== verification/Lcl_System.thy ===== *)
theory Lcl_System
  imports Lcl_Mgr
begin

text \<open>
  The deadlock detectors of a cluster: one manager per address, the messages under way, and the
  calls a server can be asked to do. What each kind of call may change is stated once per call
  and used by the proofs about runs.
\<close>

subsection \<open>Calls\<close>

datatype lcl_op =
    OpRegister "bool list" "ob_ret \<times> UserBinaryKey" ObDetectorPriority u64 u32 bool
  | OpUnregister bool "ob_ret \<times> UserBinaryKey"
  | OpBlock bool bool "ob_ret \<times> UserBinaryKey" ObAddr "ob_ret \<times> UserBinaryKey"
  | OpBlockList bool "ob_ret \<times> UserBinaryKey" "ObDependencyResource list"
  | OpBlockCallback bool "ob_ret \<times> UserBinaryKey" nat
  | OpReplace "ob_ret \<times> UserBinaryKey" "ObDependencyResource list"
  | OpDecCountDown "ob_ret \<times> UserBinaryKey"
  | OpActivate bool bool "ob_ret \<times> UserBinaryKey" ObAddr "ob_ret \<times> UserBinaryKey"
  | OpActivateAll bool "ob_ret \<times> UserBinaryKey"
  | OpAddParent bool bool "ob_ret \<times> UserBinaryKey" ObAddr "ob_ret \<times> UserBinaryKey"
  | OpSetTimeout bool "ob_ret \<times> UserBinaryKey" u64
  | OpTimer UserBinaryKey
  | OpSend "ObAddr \<Rightarrow> ObLCLMessage \<Rightarrow> ob_ret" int
  | OpLcl ObLCLMessage
  | OpCollect ObDeadLockCollectInfoMessage
  | OpNotify ObDeadLockNotifyParentMessage

text \<open>A call gives the new manager, the label messages sent and the other effects that leave the server.\<close>

fun lcl_call ::
  "lcl_env \<Rightarrow> lcl_op \<Rightarrow> ObDeadLockDetectorMgr \<Rightarrow> ObDeadLockDetectorMgr \<times> ObLCLMessage list \<times> lcl_out list" where
  "lcl_call E (OpRegister vs k p d c au) g = (snd (register_key E vs k p d c au g), [], [])"
| "lcl_call E (OpUnregister v k) g = (snd (unregister_user_key v k g), [], [])"
| "lcl_call E (OpBlock v w k a d) g = (snd (mgr_block E v w k a d g), [], [])"
| "lcl_call E (OpBlockList v k rs) g = (snd (mgr_block_list E v k rs g), [], [])"
| "lcl_call E (OpBlockCallback v k cb) g = (snd (mgr_block_callback E v k cb g), [], [])"
| "lcl_call E (OpReplace k rs) g = (snd (mgr_replace_block_list E k rs g), [], [])"
| "lcl_call E (OpDecCountDown k) g = (snd (mgr_dec_count_down_allow_detect E k g), [], [])"
| "lcl_call E (OpActivate v w k a d) g = (snd (mgr_activate E v w k a d g), [], [])"
| "lcl_call E (OpActivateAll v k) g = (snd (mgr_activate_all E v k g), [], [])"
| "lcl_call E (OpAddParent v w k a d) g = (snd (mgr_add_parent E v w k a d g), [], [])"
| "lcl_call E (OpSetTimeout v k t) g = (snd (mgr_set_timeout E v k t g), [], [])"
| "lcl_call E (OpTimer k) g = (case mgr_run_timer E k g of (g1, outs) \<Rightarrow> (g1, [], outs))"
| "lcl_call E (OpSend post diff) g =
     (case sender_round post (en_op_interval E) diff (sender_thread g) of
        (msgs, s1) \<Rightarrow> (g\<lparr>sender_thread := s1\<rparr>, msgs, []))"
| "lcl_call E (OpLcl m) g = (case mgr_process_lcl_message E m g of (_, g1, outs) \<Rightarrow> (g1, [], outs))"
| "lcl_call E (OpCollect m) g = (case mgr_process_collect_info_message E m g of (_, g1, outs) \<Rightarrow> (g1, [], outs))"
| "lcl_call E (OpNotify m) g = (snd (process_notify_parent_message E m g), [], [])"

subsection \<open>What a node waits for\<close>

definition node_waits :: "lcl_env \<Rightarrow> ObLCLNode \<Rightarrow> ObDependencyResource set" where
  "node_waits E n = set (block_list n)
     \<union> (\<Union>cb \<in> set (block_callback_list n). set (fst (snd (en_call_back E cb))))"

lemma push_resources_subset: "set (push_resources me snap rs) \<subseteq> set snap \<union> set rs"
  by (induction me snap rs rule: push_resources.induct) auto

lemma callback_list_subset:
  "get_resource_from_callback_list E me cbs (snap, flags) = (snap', flags') \<Longrightarrow>
   set snap' \<subseteq> set snap \<union> (\<Union>cb \<in> set cbs. set (fst (snd (en_call_back E cb))))"
proof (induction cbs arbitrary: snap flags)
  case Nil
  then show ?case by simp
next
  case (Cons cb cbs)
  obtain ret rs rm where c: "en_call_back E cb = (ret, rs, rm)" by (cases "en_call_back E cb") auto
  show ?case
  proof (cases "en_callback_valid E cb \<and> ret = OB_SUCCESS \<and> rs \<noteq> []")
    case True
    with Cons.prems have "get_resource_from_callback_list E me cbs
        (push_resources me snap rs, flags @ [rm]) = (snap', flags')" by (simp add: c)
    from Cons.IH [OF this] push_resources_subset [of me snap rs] show ?thesis by (auto simp: c)
  next
    case False
    then obtain fl where "get_resource_from_callback_list E me cbs (snap, flags @ [fl]) = (snap', flags')"
      using Cons.prems by (auto simp: c split: if_splits)
    from Cons.IH [OF this] show ?thesis by auto
  qed
qed

text \<open>A snapshot names waits of the node and leaves everything but the callbacks as it is.\<close>

definition fewer_callbacks :: "ObLCLNode \<Rightarrow> ObLCLNode \<Rightarrow> bool" where
  "fewer_callbacks n n' \<longleftrightarrow> n' = n\<lparr>block_callback_list := block_callback_list n'\<rparr>
     \<and> set (block_callback_list n') \<subseteq> set (block_callback_list n)"

lemma fewer_callbacks_refl [simp]: "fewer_callbacks n n"
  by (simp add: fewer_callbacks_def)

lemma fewer_callbacks_fields:
  assumes "fewer_callbacks n n'"
  shows "self_key n' = self_key n" "private_label n' = private_label n" "public_label n' = public_label n"
    "node_lclv n' = node_lclv n" "block_list n' = block_list n" "lcl_period n' = lcl_period n"
    "parent_list n' = parent_list n" "count_down_allow_detect n' = count_down_allow_detect n"
    "last_send_collect_info_period n' = last_send_collect_info_period n"
    "created_time n' = created_time n" "auto_activate_when_detected n' = auto_activate_when_detected n"
    "node_waits E n' \<subseteq> node_waits E n"
proof -
  have n': "n' = n\<lparr>block_callback_list := block_callback_list n'\<rparr>"
    and cb: "set (block_callback_list n') \<subseteq> set (block_callback_list n)"
    using assms by (auto simp: fewer_callbacks_def)
  show "self_key n' = self_key n" "private_label n' = private_label n" "public_label n' = public_label n"
    "node_lclv n' = node_lclv n" "block_list n' = block_list n" "lcl_period n' = lcl_period n"
    "parent_list n' = parent_list n" "count_down_allow_detect n' = count_down_allow_detect n"
    "last_send_collect_info_period n' = last_send_collect_info_period n"
    "created_time n' = created_time n" "auto_activate_when_detected n' = auto_activate_when_detected n"
    by (subst n'; simp)+
  with cb show "node_waits E n' \<subseteq> node_waits E n" by (auto simp: node_waits_def)
qed

lemma get_state_snapshot_waits:
  assumes "get_state_snapshot E n = (blocks, lclv, label, n')"
  shows "set blocks \<subseteq> node_waits E n" "lclv = node_lclv n" "label = public_label n" "fewer_callbacks n n'"
proof -
  obtain flags where f: "get_resource_from_callback_list E (self_res E n) (block_callback_list n) (block_list n, [])
      = (blocks, flags)" and r: "lclv = node_lclv n" "label = public_label n"
    and n': "n' = remove_unuseful_callback flags n"
    using assms by (auto simp: get_state_snapshot_def split: prod.splits)
  show "set blocks \<subseteq> node_waits E n" using callback_list_subset [OF f] by (auto simp: node_waits_def)
  show "lclv = node_lclv n" "label = public_label n" by (rule r)+
  show "fewer_callbacks n n'"
    unfolding n' remove_unuseful_callback_def fewer_callbacks_def by (auto dest: set_zip_leftD)
qed

subsection \<open>What the handlers of a node do\<close>

lemma update_period_fields:
  assumes "update_lcl_period_if_necessary E n = (n1, outs)"
  shows "self_key n1 = self_key n" "private_label n1 = private_label n" "block_list n1 = block_list n"
    "node_lclv n1 = node_lclv n" "block_callback_list n1 = block_callback_list n" "parent_list n1 = parent_list n"
    "public_label n1 \<in> {public_label n, private_label n}" "set outs \<subseteq> {UnregisterKey (self_key n)}"
    "node_waits E n1 = node_waits E n" "is_timer_task_canceled n1 = is_timer_task_canceled n"
  using assms by (auto simp: update_lcl_period_if_necessary_def Let_def node_waits_def split: if_splits)

lemma post_collect_loop_outs:
  "post_collect_loop E m rs = (ret, outs) \<Longrightarrow> out \<in> set outs \<Longrightarrow>
   \<exists>r \<in> set rs. \<exists>m'. out = PostCollect (res_addr r) m' \<and> cm_dest_key m' = res_key r
     \<and> cm_collected_info m' = cm_collected_info m"
proof (induction E m rs arbitrary: ret outs rule: post_collect_loop.induct)
  case (2 E m r rs)
  let ?m1 = "cm_set_dest_key (res_key r) m"
  obtain ret1 outs1 where t: "post_collect_loop E ?m1 rs = (ret1, outs1)" by (cases "post_collect_loop E ?m1 rs")
  have ok: "post_collect_info_message E (res_addr r) ?m1 = OB_SUCCESS"
    using "2.prems" by (auto simp: Let_def split: if_splits)
  then have "outs = PostCollect (res_addr r) ?m1 # outs1" using "2.prems"(1) by (simp add: t)
  then consider "out = PostCollect (res_addr r) ?m1" | "out \<in> set outs1" using "2.prems"(2) by auto
  then show ?case
  proof cases
    case 1 then show ?thesis by (auto simp: cm_set_dest_key_def)
  next
    case 2
    from "2.IH" [OF refl refl _ t 2] ok show ?thesis by (auto simp: cm_set_dest_key_def)
  qed
qed simp

text \<open>What a node adds to a message that collects report infos.\<close>

definition own_info :: "lcl_env \<Rightarrow> ObLCLNode \<Rightarrow> ObDetectorInnerReportInfo \<Rightarrow> bool" where
  "own_info E n i \<longleftrightarrow> info_res i = Resource (en_self_addr E) (self_key n)
     \<and> info_no i = (en_self_addr E, label_id (private_label n))
     \<and> info_priority i = label_priority (private_label n)"

lemma append_report_info_own:
  assumes "append_report_info_to_msg E m ev n = (OB_SUCCESS, m')"
  shows "\<exists>i. own_info E n i \<and> cm_collected_info m' = cm_collected_info m @ [i]"
  using assms
  by (auto simp: append_report_info_to_msg_def info_set_args_def cm_append_def own_info_def info_res_def info_no_def
      split: prod.splits if_splits option.splits)

definition chosen_victim :: "lcl_env \<Rightarrow> ObDetectorInnerReportInfo list \<Rightarrow> ObLCLNode \<Rightarrow> bool" where
  "chosen_victim E infos n \<longleftrightarrow> infos \<noteq> [] \<and> info_no (hd infos) = (en_self_addr E, label_id (private_label n))
     \<and> if_self_has_lowest_priority infos"

definition same_labels :: "ObLCLNode \<Rightarrow> ObLCLNode \<Rightarrow> bool" where
  "same_labels n n' \<longleftrightarrow> self_key n' = self_key n \<and> private_label n' = private_label n
     \<and> public_label n' = public_label n"

lemma check_completely_collected:
  assumes "check_and_process_completely_collected_msg E infos n = (ret, n1, outs)"
  shows "same_labels n n1" "ret \<noteq> OB_SUCCESS \<Longrightarrow> n1 = n \<and> outs = []"
    "set outs \<subseteq> {DetectCall infos}" "outs \<noteq> [] \<Longrightarrow> chosen_victim E infos n"
  using assms
  by (auto simp: check_and_process_completely_collected_msg_def same_labels_def chosen_victim_def info_no_def
      Let_def hd_conv_nth split: if_splits)

text \<open>The effects of handling such a message with infos \<open>infos\<close>.\<close>

definition collect_out :: "lcl_env \<Rightarrow> ObDetectorInnerReportInfo list \<Rightarrow> ObLCLNode \<Rightarrow> lcl_out \<Rightarrow> bool" where
  "collect_out E infos n out \<longleftrightarrow>
     out = InsertAll infos
     \<or> out = DetectCall infos \<and> chosen_victim E infos n
     \<or> (\<exists>b m' i. out = PostCollect b m' \<and> Resource b (cm_dest_key m') \<in> node_waits E n \<and> own_info E n i
          \<and> cm_collected_info m' = infos @ [i]
          \<and> (en_self_addr E, label_id (private_label n)) \<notin> info_no ` set infos)"

lemma broadcast_collect_outs:
  assumes "broadcast_collect_info E m n = (ret, n', outs)" "cm_collected_info m = infos @ [i]" "own_info E n i"
    "\<not> check_dead_loop E infos n"
  shows "same_labels n n'" "\<forall>out \<in> set outs. collect_out E infos n out"
proof -
  obtain blocks v l n2 where s: "get_state_snapshot E n = (blocks, v, l, n2)"
    by (cases "get_state_snapshot E n") auto
  obtain r3 o3 where p: "post_collect_loop E m blocks = (r3, o3)" by (cases "post_collect_loop E m blocks")
  have res: "n' = n2" "outs = o3" using assms(1) by (auto simp: broadcast_collect_info_def s p)
  have new: "(en_self_addr E, label_id (private_label n)) \<notin> info_no ` set infos"
    using assms(4) by (auto simp: check_dead_loop_def list_ex_iff info_no_def)
  show "same_labels n n'"
    using fewer_callbacks_fields [OF get_state_snapshot_waits(4) [OF s]] res by (simp add: same_labels_def)
  show "\<forall>out \<in> set outs. collect_out E infos n out"
  proof
    fix out assume "out \<in> set outs"
    then obtain r m' where "r \<in> set blocks" "out = PostCollect (res_addr r) m'" "cm_dest_key m' = res_key r"
        "cm_collected_info m' = infos @ [i]"
      using post_collect_loop_outs [OF p] res assms(2) by force
    with get_state_snapshot_waits(1) [OF s] assms(3) new show "collect_out E infos n out"
      by (auto simp: collect_out_def)
  qed
qed

lemma node_collect_outs:
  assumes "node_process_collect_info_message E m n = (ret, n', outs)"
  shows "same_labels n n'" "\<forall>out \<in> set outs. collect_out E (cm_collected_info m) n out"
proof -
  let ?infos = "cm_collected_info m"
  obtain r1 n1 o1 where 1: "check_and_process_completely_collected_msg E ?infos n = (r1, n1, o1)"
    by (cases "check_and_process_completely_collected_msg E ?infos n") auto
  note c = check_completely_collected [OF 1]
  obtain r2 m2 where 2: "append_report_info_to_msg E m (generate_event_id E ?infos n) n = (r2, m2)"
    by (cases "append_report_info_to_msg E m (generate_event_id E ?infos n) n")
  have n1: "r1 \<noteq> OB_SUCCESS \<Longrightarrow> n1 = n \<and> o1 = []" by (rule c(2))
  consider "r1 = OB_SUCCESS" "n' = n1" "outs = o1 @ [InsertAll ?infos]"
    | "n' = n" "outs = []"
    | "\<not> check_dead_loop E ?infos n" "r2 = OB_SUCCESS" "broadcast_collect_info E m2 n = (ret, n', outs)"
    using assms n1 2
    by (cases "r1 = OB_SUCCESS")
       (auto simp: node_process_collect_info_message_def 1 Let_def split: if_splits prod.splits)
  then have "same_labels n n' \<and> (\<forall>out \<in> set outs. collect_out E ?infos n out)"
  proof cases
    case 1
    have "collect_out E ?infos n out" if "out \<in> set o1" for out
    proof -
      have "o1 \<noteq> []" using that by auto
      with c(3,4) that show ?thesis by (auto simp: collect_out_def)
    qed
    with 1 c(1) show ?thesis by (auto simp: collect_out_def)
  next
    case 2 then show ?thesis by (simp add: same_labels_def)
  next
    case 3
    obtain i where "own_info E n i" "cm_collected_info m2 = ?infos @ [i]"
      using append_report_info_own 2 3(2) by metis
    then show ?thesis using broadcast_collect_outs [OF 3(3)] 3(1) by blast
  qed
  then show "same_labels n n'" "\<forall>out \<in> set outs. collect_out E ?infos n out" by blast+
qed

text \<open>The effects of a label message: collecting starts only at the node whose label it carries.\<close>

definition lcl_msg_out :: "lcl_env \<Rightarrow> ObLCLMessage \<Rightarrow> ObLCLNode \<Rightarrow> lcl_out \<Rightarrow> bool" where
  "lcl_msg_out E m n out \<longleftrightarrow> out = UnregisterKey (self_key n)
     \<or> lm_label m = private_label n \<and> collect_out E [] n out"

lemma collect_out_same:
  assumes "collect_out E infos n' out" "self_key n' = self_key n" "private_label n' = private_label n"
    "node_waits E n' \<subseteq> node_waits E n"
  shows "collect_out E infos n out"
  using assms(1,4) unfolding collect_out_def chosen_victim_def own_info_def assms(2,3) by (elim disjE) (auto 0 3)

lemma process_phase_msg:
  assumes "(if lclp then (case process_msg_as_lclp_msg m n of (ret, n') \<Rightarrow> (ret, False, n'))
            else process_msg_as_lcls_msg m n) = (ret, detected, n')"
  shows "self_key n' = self_key n" "private_label n' = private_label n" "node_waits E n' = node_waits E n"
    "public_label n' \<in> {public_label n, lm_label m}" "detected \<Longrightarrow> lm_label m = private_label n"
    "detected \<Longrightarrow> ret = OB_SUCCESS"
  using assms
  by (auto simp: process_msg_as_lclp_msg_def process_msg_as_lcls_msg_def node_waits_def Let_def split: if_splits)

lemma node_lcl_outs:
  assumes "node_process_lcl_message E m n = (ret, n', outs)"
  shows "self_key n' = self_key n \<and> private_label n' = private_label n
      \<and> public_label n' \<in> {public_label n, private_label n, lm_label m}"
    and "\<forall>out \<in> set outs. lcl_msg_out E m n out"
proof -
  obtain n1 o1 where 1: "update_lcl_period_if_necessary E n = (n1, o1)"
    by (cases "update_lcl_period_if_necessary E n")
  note u = update_period_fields [OF 1]
  obtain r2 d n2 where 2: "(if (en_clock E sdiv PHASE_TIME) smod 2 = 0
        then (case process_msg_as_lclp_msg m n1 of (ret, n') \<Rightarrow> (ret, False, n'))
        else process_msg_as_lcls_msg m n1) = (r2, d, n2)" using prod_cases3 by blast
  note p = process_phase_msg [OF 2]
  obtain bl v l n3 where 3: "get_state_snapshot E n2 = (bl, v, l, n3)" by (cases "get_state_snapshot E n2") auto
  note f = fewer_callbacks_fields [OF get_state_snapshot_waits(4) [OF 3]]
  define nx where "nx = (if r2 = OB_SUCCESS then n3 else n2)"
  let ?cm = "\<lparr>cm_dest_key = self_key nx, cm_collected_info = []\<rparr>"
  obtain r4 n4 o4 where 4: "node_process_collect_info_message E ?cm nx = (r4, n4, o4)"
    by (cases "node_process_collect_info_message E ?cm nx") auto
  note c = node_collect_outs [OF 4]
  have out1: "\<forall>out \<in> set o1. lcl_msg_out E m n out" using u(8) by (auto simp: lcl_msg_out_def)
  have "node_process_lcl_message E m n = (if \<not> if_phase_match (en_clock E) m then (OB_SUCCESS, n1, o1)
      else if d then (OB_SUCCESS, n4, o1 @ o4) else (OB_SUCCESS, nx, o1))"
    using 4 by (cases "r2 = OB_SUCCESS") (simp_all add: node_process_lcl_message_def 1 2 3 nx_def)
  then consider "n' = n1" "outs = o1" | "n' = nx" "outs = o1" | "d" "n' = n4" "outs = o1 @ o4"
    using assms by (auto split: if_splits)
  then have "(self_key n' = self_key n \<and> private_label n' = private_label n
      \<and> public_label n' \<in> {public_label n, private_label n, lm_label m})
      \<and> (\<forall>out \<in> set outs. lcl_msg_out E m n out)"
  proof cases
    case 1 with u out1 show ?thesis by auto
  next
    case 2 with u p f out1 show ?thesis by (auto simp: nx_def)
  next
    case 3
    then have d: "lm_label m = private_label n" "r2 = OB_SUCCESS" using p(5,6) u(2) by auto
    have sub: "node_waits E n3 \<subseteq> node_waits E n" using f(12) p(3) u(9) by (metis)
    have out4: "\<forall>out \<in> set o4. lcl_msg_out E m n out"
    proof
      fix out assume "out \<in> set o4"
      then have "collect_out E [] n3 out" using c(2) d(2) by (simp add: nx_def)
      then have "collect_out E [] n out"
        by (rule collect_out_same) (use sub u(1,2) p(1,2) f(1,2) in auto)
      then show "lcl_msg_out E m n out" using d(1) by (simp add: lcl_msg_out_def)
    qed
    have "self_key n' = self_key n3" "private_label n' = private_label n3" "public_label n' = public_label n3"
      using c(1) 3(2) d(2) by (auto simp: same_labels_def nx_def)
    with 3 out4 u p f out1 show ?thesis by auto
  qed
  then show "self_key n' = self_key n \<and> private_label n' = private_label n
      \<and> public_label n' \<in> {public_label n, private_label n, lm_label m}"
    and "\<forall>out \<in> set outs. lcl_msg_out E m n out" by blast+
qed

text \<open>The effects of the timer task.\<close>

definition timer_out :: "lcl_env \<Rightarrow> ObLCLNode \<Rightarrow> lcl_out \<Rightarrow> bool" where
  "timer_out E n out \<longleftrightarrow> out \<in> {UnregisterKey (self_key n), RevertSelf}
     \<or> (\<exists>a m. out = PostNotify a m)
     \<or> (\<exists>r m. out = CacheMsg r m \<and> r \<in> node_waits E n \<and> r = Resource (lm_dest_addr m) (lm_dest_key m)
          \<and> lm_label m \<in> {public_label n, private_label n})"

definition notify_count :: "lcl_out list \<Rightarrow> nat" where
  "notify_count outs = length (filter (\<lambda>out. \<exists>a m. out = PostNotify a m) outs)"

lemma notify_parents_outs:
  "notify_parents E key ret m ps = (ret', outs) \<Longrightarrow>
   length outs \<le> length ps \<and> (\<forall>out \<in> set outs. \<exists>a m'. out = PostNotify a m')"
proof (induction E key ret m ps arbitrary: ret' outs rule: notify_parents.induct)
  case (2 E key ret m p ps)
  let ?m1 = "snd (nm_set_args (res_addr p) (res_key p) (en_self_addr E) key m)"
  let ?ret1 = "post_notify_parent_message E (res_addr p) ?m1"
  obtain r2 o2 where t: "notify_parents E key ?ret1 ?m1 ps = (r2, o2)"
    by (cases "notify_parents E key ?ret1 ?m1 ps")
  with "2.prems" have "outs = (if ?ret1 = OB_SUCCESS then [PostNotify (res_addr p) ?m1] else []) @ o2"
    by (simp add: Let_def)
  with "2.IH" [OF refl refl t] show ?case by (auto split: if_splits)
qed simp

lemma push_state_outs:
  assumes "push_state_to_downstreams E n = (ret, n', outs)"
  shows "same_labels n n'" "\<forall>out \<in> set outs. timer_out E n out" "notify_count outs \<le> length (parent_list n)"
proof -
  obtain bl v l n1 where 1: "get_state_snapshot E n = (bl, v, l, n1)" by (cases "get_state_snapshot E n") auto
  note g = get_state_snapshot_waits [OF 1] and f = fewer_callbacks_fields [OF get_state_snapshot_waits(4) [OF 1]]
  obtain r2 o2 where 2: "notify_parents E (self_key n1) OB_SUCCESS
      \<lparr>nm_parent_addr = None, nm_parent_key = key_reset, nm_src_addr = None, nm_src_key = key_reset\<rparr>
      (parent_list n1) = (r2, o2)" by (cases "notify_parents E (self_key n1) OB_SUCCESS
      \<lparr>nm_parent_addr = None, nm_parent_key = key_reset, nm_src_addr = None, nm_src_key = key_reset\<rparr>
      (parent_list n1)")
  note np = notify_parents_outs [OF 2]
  have b: "\<forall>out \<in> set (node_broadcast E n1 bl v l). timer_out E n out \<and> \<not> (\<exists>a m. out = PostNotify a m)"
    using g by (auto simp: node_broadcast_def timer_out_def lm_set_args_def)
  then have bc: "notify_count (node_broadcast E n1 bl v l) = 0" by (auto simp: notify_count_def filter_empty_conv)
  have nc: "notify_count o2 \<le> length (parent_list n)"
    using np f(7) by (auto simp: notify_count_def intro: order.trans [OF length_filter_le])
  have out2: "\<forall>out \<in> set o2. timer_out E n out" using np by (auto simp: timer_out_def)
  let ?n2 = "n1\<lparr>last_report_waiting_for_period := lcl_period n1\<rparr>"
  have "push_state_to_downstreams E n = (if count_down_allow_detect n1 \<noteq> 0 then (OB_SUCCESS, n1, [])
      else if lcl_period n1 > last_report_waiting_for_period n1
        then (r2, ?n2, node_broadcast E n1 bl v l @ o2)
      else (OB_SUCCESS, n1, node_broadcast E n1 bl v l))"
    by (simp add: push_state_to_downstreams_def 1 2 Let_def)
  then have "(n' = n1 \<or> n' = ?n2) \<and> (outs = [] \<or> outs = node_broadcast E n1 bl v l
      \<or> outs = node_broadcast E n1 bl v l @ o2)"
    using assms by (simp split: if_splits)
  moreover have "same_labels n n1" "same_labels n ?n2" using f by (simp_all add: same_labels_def)
  ultimately have "same_labels n n' \<and> (\<forall>out \<in> set outs. timer_out E n out) \<and> notify_count outs \<le> length (parent_list n)"
    using b bc nc out2 by (elim conjE disjE) (simp_all add: notify_count_def ball_Un)
  then show "same_labels n n'" "\<forall>out \<in> set outs. timer_out E n out" "notify_count outs \<le> length (parent_list n)"
    by blast+
qed

lemma register_timer_fields:
  assumes "register_timer E n = (ret, n')"
  shows "same_labels n n'"
  using assms by (auto simp: register_timer_def same_labels_def split: option.splits prod.splits if_splits)

lemma run_timer_outs:
  assumes "run_timer_task E n = (ret, n', outs)"
  shows "self_key n' = self_key n \<and> private_label n' = private_label n
      \<and> public_label n' \<in> {public_label n, private_label n}"
    and "\<forall>out \<in> set outs. timer_out E n out" and "notify_count outs \<le> length (parent_list n)"
proof -
  obtain n1 o1 where 1: "update_lcl_period_if_necessary E n = (n1, o1)"
    by (cases "update_lcl_period_if_necessary E n")
  note u = update_period_fields [OF 1]
  obtain r2 n2 o2 where 2: "push_state_to_downstreams E n1 = (r2, n2, o2)"
    by (cases "push_state_to_downstreams E n1") auto
  note p = push_state_outs [OF 2]
  obtain r3 n3 where 3: "register_timer E n2 = (r3, n3)" by (cases "register_timer E n2")
  note t = register_timer_fields [OF 3]
  have o2: "\<forall>out \<in> set o2. timer_out E n out"
    using p(2) u(1,2,7,9) by (auto simp: timer_out_def)
  have o1: "\<forall>out \<in> set o1. timer_out E n out" "notify_count o1 = 0"
    using u(8) by (auto simp: timer_out_def notify_count_def filter_empty_conv)
  consider "n' = n" "outs = [RevertSelf]" | "n' = n3" "outs = o1 @ o2"
    using assms by (auto simp: run_timer_task_def 1 2 3 split: if_splits)
  then have "(self_key n' = self_key n \<and> private_label n' = private_label n
      \<and> public_label n' \<in> {public_label n, private_label n})
      \<and> (\<forall>out \<in> set outs. timer_out E n out) \<and> notify_count outs \<le> length (parent_list n)"
    using u p t o1 o2 by cases (auto simp: same_labels_def timer_out_def notify_count_def)
  then show "self_key n' = self_key n \<and> private_label n' = private_label n
      \<and> public_label n' \<in> {public_label n, private_label n}"
    and "\<forall>out \<in> set outs. timer_out E n out" and "notify_count outs \<le> length (parent_list n)" by blast+
qed

end
