(* ===== verification/Lcl_Calls.thy ===== *)
theory Lcl_Calls
  imports Lcl_System
begin

text \<open>
  What a call of the manager does to the detectors of its server: detectors keep their key and
  their private label, new ones get a fresh number, a public label is an old one or comes from
  the message handled, and what leaves the server is one of the effects of the handler.
\<close>

subsection \<open>Well formed managers\<close>

definition mgr_wf :: "ObAddr \<Rightarrow> ObDeadLockDetectorMgr \<Rightarrow> bool" where
  "mgr_wf a g \<longleftrightarrow>
     (\<forall>k n. detector_map g k = Some n \<longrightarrow> self_key n = k \<and> label_addr (private_label n) = a
        \<and> unat (label_id (private_label n)) \<le> unat (logic_id g))
     \<and> (\<forall>k n k' n'. detector_map g k = Some n \<longrightarrow> detector_map g k' = Some n' \<longrightarrow>
          label_id (private_label n) = label_id (private_label n') \<longrightarrow> k = k')
     \<and> finite (dom (detector_map g)) \<and> sender_wf (sender_thread g)"

definition evolves :: "(UserBinaryKey \<times> ObLCLLabel) set \<Rightarrow> ObDeadLockDetectorMgr \<Rightarrow> ObDeadLockDetectorMgr \<Rightarrow> bool" where
  "evolves L g g' \<longleftrightarrow> unat (logic_id g) \<le> unat (logic_id g')
     \<and> (\<forall>k n'. detector_map g' k = Some n' \<longrightarrow>
          (\<exists>n. detector_map g k = Some n \<and> private_label n' = private_label n
             \<and> (public_label n' \<in> {public_label n, private_label n} \<or> (k, public_label n') \<in> L))
          \<or> unat (logic_id g) < unat (label_id (private_label n')) \<and> public_label n' = private_label n')"

definition cache_from :: "(ObDependencyResource \<times> ObLCLLabel) set \<Rightarrow> ObDeadLockDetectorMgr \<Rightarrow> ObDeadLockDetectorMgr \<Rightarrow> bool" where
  "cache_from C g g' \<longleftrightarrow> (\<forall>(r, x) \<in> set (lcl_msg_map (sender_thread g')).
     (\<exists>y. (r, y) \<in> set (lcl_msg_map (sender_thread g)) \<and> lm_label x = lm_label y) \<or> (r, lm_label x) \<in> C)"

lemma evolves_refl [simp]: "evolves L g g"
  by (auto simp: evolves_def)

lemma evolves_trans:
  assumes "evolves L g g1" "evolves {} g1 g2"
  shows "evolves L g g2"
  unfolding evolves_def
proof (intro conjI allI impI)
  show "unat (logic_id g) \<le> unat (logic_id g2)" using assms by (auto simp: evolves_def)
  fix k n2 assume k: "detector_map g2 k = Some n2"
  consider n1 where "detector_map g1 k = Some n1" "private_label n2 = private_label n1"
      "public_label n2 \<in> {public_label n1, private_label n1}"
    | "unat (logic_id g1) < unat (label_id (private_label n2))" "public_label n2 = private_label n2"
    using assms(2) k by (auto simp: evolves_def)
  then show "(\<exists>n. detector_map g k = Some n \<and> private_label n2 = private_label n
             \<and> (public_label n2 \<in> {public_label n, private_label n} \<or> (k, public_label n2) \<in> L))
          \<or> unat (logic_id g) < unat (label_id (private_label n2)) \<and> public_label n2 = private_label n2"
  proof cases
    case 1
    with assms(1) show ?thesis unfolding evolves_def by (metis (no_types, lifting) insertE singletonD insertI1 insert_iff)
  next
    case 2
    with assms(1) show ?thesis by (auto simp: evolves_def)
  qed
qed

lemma cache_from_refl [simp]: "cache_from C g g"
  by (auto simp: cache_from_def)

lemma cache_from_trans:
  assumes "cache_from C g g1" "cache_from D g1 g2"
  shows "cache_from (C \<union> D) g g2"
  using assms unfolding cache_from_def by (fastforce split: prod.splits)

lemma cache_from_mono: "cache_from C g g' \<Longrightarrow> C \<subseteq> D \<Longrightarrow> cache_from D g g'"
  by (auto simp: cache_from_def)

lemma cache_from_same: "sender_thread g' = sender_thread g \<Longrightarrow> cache_from C g g'"
  by (auto simp: cache_from_def)

subsection \<open>The parts of a call\<close>

lemma put_detector_fields [simp]:
  "detector_map (put_detector k nd g) = (detector_map g)(k := nd)"
  "logic_id (put_detector k nd g) = logic_id g"
  "sender_thread (put_detector k nd g) = sender_thread g"
  "mgr_is_inited (put_detector k nd g) = mgr_is_inited g"
  by (simp_all add: put_detector_def)

lemma put_known:
  assumes "mgr_wf a g" "detector_map g k = Some n" "self_key n' = self_key n"
    "private_label n' = private_label n" "public_label n' \<in> {public_label n, private_label n} \<or> (k, public_label n') \<in> L"
  shows "mgr_wf a (put_detector k (Some n') g)" "evolves L g (put_detector k (Some n') g)"
proof -
  show "mgr_wf a (put_detector k (Some n') g)"
    using assms(1-4) unfolding mgr_wf_def by (simp split: if_splits) blast
  show "evolves L g (put_detector k (Some n') g)"
    using assms(2,4,5) unfolding evolves_def by auto
qed

lemma remove_known:
  assumes "mgr_wf a g"
  shows "mgr_wf a (put_detector k None g)" "evolves L g (put_detector k None g)"
  using assms unfolding mgr_wf_def evolves_def by (auto split: if_splits)

lemma unregister_key_wf:
  assumes "mgr_wf a g"
  shows "mgr_wf a (snd (unregister_key k g))" "evolves L g (snd (unregister_key k g))"
    "sender_thread (snd (unregister_key k g)) = sender_thread g"
    "logic_id (snd (unregister_key k g)) = logic_id g"
  using assms remove_known [OF assms]
  by (auto simp: unregister_key_def split: prod.splits option.splits)

lemma on_detector_wf:
  assumes "mgr_wf a g" "\<And>n. same_labels n (snd (f n))"
  shows "mgr_wf a (snd (on_detector E vs ks f g))" "evolves L g (snd (on_detector E vs ks f g))"
    "sender_thread (snd (on_detector E vs ks f g)) = sender_thread g"
proof -
  let ?k = "snd (hd ks)"
  have "snd (on_detector E vs ks f g) = g
    \<or> (\<exists>n. detector_map g ?k = Some n \<and> snd (on_detector E vs ks f g) = put_detector ?k (Some (snd (f n))) g)"
    by (auto simp: on_detector_def get_detector_def split: option.split prod.split)
  then consider "snd (on_detector E vs ks f g) = g"
    | n where "detector_map g ?k = Some n" "snd (on_detector E vs ks f g) = put_detector ?k (Some (snd (f n))) g"
    by blast
  then have "mgr_wf a (snd (on_detector E vs ks f g)) \<and> evolves L g (snd (on_detector E vs ks f g))
    \<and> sender_thread (snd (on_detector E vs ks f g)) = sender_thread g"
  proof cases
    case 1 then show ?thesis using assms(1) by simp
  next
    case 2
    have "self_key (snd (f n)) = self_key n" "private_label (snd (f n)) = private_label n"
      "public_label (snd (f n)) = public_label n"
      using assms(2) [of n] by (auto simp: same_labels_def)
    with put_known [OF assms(1) 2(1), of "snd (f n)" L] 2(2) show ?thesis by simp
  qed
  then show "mgr_wf a (snd (on_detector E vs ks f g))" "evolves L g (snd (on_detector E vs ks f g))"
    "sender_thread (snd (on_detector E vs ks f g)) = sender_thread g" by blast+
qed

text \<open>A new detector gets the next number.\<close>

lemma put_new:
  assumes "mgr_wf a g" "detector_map g k = None" "unat (logic_id g) + 1 < 2 ^ 64"
    "self_key n = k" "private_label n = Label a (logic_id g + 1) p" "public_label n = private_label n"
    "g' = put_detector k (Some n) (g\<lparr>logic_id := logic_id g + 1\<rparr>)"
  shows "mgr_wf a g'" "evolves L g g'" "unat (logic_id g') = unat (logic_id g) + 1"
proof -
  have id': "unat (logic_id g + 1) = unat (logic_id g) + 1"
    using assms(3) by (simp add: unat_word_ariths)
  have old: "label_id (private_label x) \<noteq> logic_id g + 1" if "detector_map g j = Some x" for j x
    using assms(1) that id' unfolding mgr_wf_def by (metis add_le_same_cancel1 not_one_le_zero)
  show "unat (logic_id g') = unat (logic_id g) + 1" using id' assms(7) by simp
  show "evolves L g g'" using id' assms(5-7) by (auto simp: evolves_def)
  show "mgr_wf a g'"
    using assms(1) id' old assms(4,5,7) unfolding mgr_wf_def
    by (auto simp: le_Suc_eq split: if_splits) (metis le_SucI)+
qed

lemma skip_number:
  assumes "mgr_wf a g" "unat (logic_id g) + 1 < 2 ^ 64" "g' = g\<lparr>logic_id := logic_id g + 1\<rparr>"
  shows "mgr_wf a g'" "evolves L g g'" "unat (logic_id g') = unat (logic_id g) + 1"
proof -
  have id': "unat (logic_id g + 1) = unat (logic_id g) + 1"
    using assms(2) by (simp add: unat_word_ariths)
  show "unat (logic_id g') = unat (logic_id g) + 1" using id' assms(3) by simp
  show "evolves L g g'" using id' assms(3) by (auto simp: evolves_def)
  show "mgr_wf a g'" using assms(1,3) id' unfolding mgr_wf_def by (auto intro: le_SucI)
qed

text \<open>The ways a manager can change in one creation.\<close>

definition one_more :: "lcl_env \<Rightarrow> ObDeadLockDetectorMgr \<Rightarrow> ObDeadLockDetectorMgr \<Rightarrow> bool" where
  "one_more E g g' \<longleftrightarrow> g' = g \<or> g' = g\<lparr>logic_id := logic_id g + 1\<rparr>
     \<or> (\<exists>k n p. detector_map g k = None \<and> self_key n = k
          \<and> private_label n = Label (en_self_addr E) (logic_id g + 1) p \<and> public_label n = private_label n
          \<and> g' = put_detector k (Some n) (g\<lparr>logic_id := logic_id g + 1\<rparr>))"

lemma one_more_wf:
  assumes "one_more E g g'" "mgr_wf (en_self_addr E) g" "unat (logic_id g) + 1 < 2 ^ 64"
  shows "mgr_wf (en_self_addr E) g'" "evolves L g g'" "unat (logic_id g') \<le> unat (logic_id g) + 1"
    "sender_thread g' = sender_thread g"
proof -
  from assms(1) consider "g' = g" | "g' = g\<lparr>logic_id := logic_id g + 1\<rparr>"
    | k n p where "detector_map g k = None" "self_key n = k"
        "private_label n = Label (en_self_addr E) (logic_id g + 1) p" "public_label n = private_label n"
        "g' = put_detector k (Some n) (g\<lparr>logic_id := logic_id g + 1\<rparr>)"
    unfolding one_more_def by blast
  then have "mgr_wf (en_self_addr E) g' \<and> evolves L g g' \<and> unat (logic_id g') \<le> unat (logic_id g) + 1
    \<and> sender_thread g' = sender_thread g"
  proof cases
    case 1 with assms show ?thesis by simp
  next
    case 2
    with skip_number [OF assms(2,3) 2] show ?thesis by simp
  next
    case 3
    with put_new [OF assms(2) 3(1) assms(3) 3(2-5)] show ?thesis by simp
  qed
  then show "mgr_wf (en_self_addr E) g'" "evolves L g g'" "unat (logic_id g') \<le> unat (logic_id g) + 1"
    "sender_thread g' = sender_thread g" by blast+
qed

lemma register_timer_task_fields:
  "register_timer_task E r f n = (ret, refs, n') \<Longrightarrow> same_labels n n'"
  by (auto simp: register_timer_task_def add_self_ref_count_def same_labels_def
      dest!: register_timer_fields split: if_splits prod.splits)

lemma factory_create_cases:
  assumes "factory_create E k p d c au g = (ret, nd, g1)"
  shows "nd = None \<and> (g1 = g \<or> g1 = g\<lparr>logic_id := logic_id g + 1\<rparr>)
    \<or> ret = OB_SUCCESS \<and> g1 = g\<lparr>logic_id := logic_id g + 1\<rparr>
      \<and> (\<exists>n. nd = Some n \<and> self_key n = k \<and> private_label n = Label (en_self_addr E) (logic_id g + 1) p
           \<and> public_label n = private_label n)"
  using assms by (auto simp: factory_create_def new_lcl_node_def Let_def split: if_splits)

lemma created_one_more:
  assumes "factory_create E k p d c au g = (ret, nd, g1)"
    "g' \<in> {g, g1} \<or> detector_map g k = None
       \<and> (\<exists>n n1. nd = Some n \<and> same_labels n n1 \<and> g' = put_detector k (Some n1) g1)"
  shows "one_more E g g'"
  using assms(2)
proof (elim disjE conjE exE)
  assume "g' \<in> {g, g1}"
  with factory_create_cases [OF assms(1)] show ?thesis by (auto simp: one_more_def)
next
  fix n n1 assume n: "detector_map g k = None" "nd = Some n" "same_labels n n1"
    "g' = put_detector k (Some n1) g1"
  with factory_create_cases [OF assms(1)]
  have "g1 = g\<lparr>logic_id := logic_id g + 1\<rparr>" "self_key n1 = k"
    "private_label n1 = Label (en_self_addr E) (logic_id g + 1) p" "public_label n1 = private_label n1"
    by (auto simp: same_labels_def)
  with n(1,4) show ?thesis unfolding one_more_def by blast
qed

lemma register_key_one_more: "one_more E g (snd (register_key E vs uk p d c au g))"
proof -
  obtain kr k where k: "uk = (kr, k)" by (cases uk)
  obtain ret nd g1 where f: "factory_create E k p d c au g = (ret, nd, g1)"
    by (cases "factory_create E k p d c au g") auto
  have "snd (register_key E vs uk p d c au g) \<in> {g, g1}
    \<or> detector_map g k = None \<and> (\<exists>n n1. nd = Some n \<and> same_labels n n1
        \<and> snd (register_key E vs uk p d c au g) = put_detector k (Some n1) g1)"
    by (auto simp: register_key_def k f split: option.split prod.split dest!: register_timer_task_fields)
  with f show ?thesis by (rule created_one_more)
qed

lemma node_block_labels: "same_labels n (snd (node_block r n))"
  by (auto simp: node_block_def same_labels_def split: prod.split)

lemma notify_one_more: "one_more E g (snd (process_notify_parent_message E m g))"
proof -
  let ?k = "nm_parent_key m"
  obtain ret nd g1 where f: "factory_create E ?k (Priority EXTREMELY_HIGH 0) 0 0 True g = (ret, nd, g1)"
    by (cases "factory_create E ?k (Priority EXTREMELY_HIGH 0) 0 0 True g") auto
  have block: "node_block r n = (ret, n') \<Longrightarrow> same_labels n n'" for r n ret n'
    using node_block_labels [of n r] by simp
  have timeout: "same_labels n (node_set_timeout E t n)" for n t
    by (simp add: node_set_timeout_def same_labels_def)
  have "snd (process_notify_parent_message E m g) \<in> {g, g1}
    \<or> detector_map g ?k = None \<and> (\<exists>n n1. nd = Some n \<and> same_labels n n1
        \<and> snd (process_notify_parent_message E m g) = put_detector ?k (Some n1) g1)"
    using timeout unfolding same_labels_def
    by (auto simp: process_notify_parent_message_def f same_labels_def split: option.split prod.split
        dest!: register_timer_task_fields block)
  with f show ?thesis by (rule created_one_more)
qed

subsection \<open>Carrying out the effects\<close>

lemma cache_msg_call:
  assumes "mgr_wf a g" "r = Resource (lm_dest_addr m) (lm_dest_key m)"
    "g' = g\<lparr>sender_thread := snd (cache_msg d r m (sender_thread g))\<rparr>"
  shows "mgr_wf a g'" "evolves L g g'" "cache_from {(r, lm_label m)} g g'" "logic_id g' = logic_id g"
proof -
  obtain ret s' where c: "cache_msg d r m (sender_thread g) = (ret, s')"
    by (cases "cache_msg d r m (sender_thread g)")
  have "sender_wf (sender_thread g)" using assms(1) by (simp add: mgr_wf_def)
  from cache_msg_wf [OF this assms(2) c] show "mgr_wf a g'" using assms(1,3) c by (simp add: mgr_wf_def)
  show "evolves L g g'" "logic_id g' = logic_id g" using assms(3) by (auto simp: evolves_def)
  show "cache_from {(r, lm_label m)} g g'"
  proof -
    have "(\<exists>y. (k, y) \<in> set (lcl_msg_map (sender_thread g)) \<and> lm_label x = lm_label y)
        \<or> (k, lm_label x) \<in> {(r, lm_label m)}" if x: "(k, x) \<in> set (lcl_msg_map (sender_thread g'))" for k x
    proof -
      from x assms(3) c have "(k, x) \<in> set (lcl_msg_map s')" by simp
      from cache_msg_origin [OF c this] lm_merge_label show ?thesis
        unfolding merge_op_def by fastforce
    qed
    then show ?thesis unfolding cache_from_def by blast
  qed
qed

definition caches :: "lcl_out list \<Rightarrow> (ObDependencyResource \<times> ObLCLLabel) set" where
  "caches outs = {(r, lm_label m) | r m. CacheMsg r m \<in> set outs}"

lemma deal_outs_wf:
  assumes "mgr_wf (en_self_addr E) g" "unat (logic_id g) + notify_count outs < 2 ^ 64"
    "\<forall>r m. CacheMsg r m \<in> set outs \<longrightarrow> r = Resource (lm_dest_addr m) (lm_dest_key m)"
    "deal_outs E outs g = (g', rest)"
  shows "mgr_wf (en_self_addr E) g' \<and> evolves {} g g' \<and> cache_from (caches outs) g g' \<and> set rest \<subseteq> set outs"
  using assms
proof (induction E outs g arbitrary: g' rest rule: deal_outs.induct)
  case (2 E r m outs g)
  let ?g = "g\<lparr>sender_thread := snd (cache_msg (en_draw E (length outs)) r m (sender_thread g))\<rparr>"
  have r: "r = Resource (lm_dest_addr m) (lm_dest_key m)" using "2.prems"(3) by simp
  note c = cache_msg_call [OF "2.prems"(1) r refl, where d = "en_draw E (length outs)"]
  have ih: "mgr_wf (en_self_addr E) g' \<and> evolves {} ?g g' \<and> cache_from (caches outs) ?g g' \<and> set rest \<subseteq> set outs"
    using "2.prems" c(1) by (intro "2.IH") (auto simp: notify_count_def)
  have "caches (CacheMsg r m # outs) = {(r, lm_label m)} \<union> caches outs" by (auto simp: caches_def)
  with ih cache_from_trans [OF c(3)] have "cache_from (caches (CacheMsg r m # outs)) g g'" by metis
  with ih evolves_trans [OF c(2)] show ?case by auto
next
  case (3 E key outs g)
  note u = unregister_key_wf [OF "3.prems"(1), where k = key]
  have "mgr_wf (en_self_addr E) g' \<and> evolves {} (snd (unregister_key key g)) g'
      \<and> cache_from (caches outs) (snd (unregister_key key g)) g' \<and> set rest \<subseteq> set outs"
    using "3.prems" u by (intro "3.IH") (auto simp: notify_count_def)
  with u(3) evolves_trans [OF u(2)] show ?case by (auto simp: caches_def cache_from_def)
next
  case (4 E addr m outs g)
  show ?case
  proof (cases "addr = en_self_addr E")
    case True
    have more: "unat (logic_id g) + 1 + notify_count outs < 2 ^ 64"
      using "4.prems"(2) by (simp add: notify_count_def)
    then have "unat (logic_id g) + 1 < 2 ^ 64" by simp
    note u = one_more_wf [OF notify_one_more [of E g m] "4.prems"(1) this]
    have "mgr_wf (en_self_addr E) g' \<and> evolves {} (snd (process_notify_parent_message E m g)) g'
        \<and> cache_from (caches outs) (snd (process_notify_parent_message E m g)) g' \<and> set rest \<subseteq> set outs"
      using "4.prems" True u more by (intro "4.IH"(1)) auto
    with u(4) evolves_trans [OF u(2)] show ?thesis by (auto simp: caches_def cache_from_def)
  next
    case False
    obtain g1 rest1 where d: "deal_outs E outs g = (g1, rest1)" by (cases "deal_outs E outs g")
    with "4.prems"(4) False have g': "g' = g1" "rest = PostNotify addr m # rest1" by auto
    have "mgr_wf (en_self_addr E) g1 \<and> evolves {} g g1 \<and> cache_from (caches outs) g g1 \<and> set rest1 \<subseteq> set outs"
      using "4.prems" False d by (intro "4.IH"(2)) (auto simp: notify_count_def)
    with g' show ?thesis by (auto simp: caches_def)
  qed
qed (auto simp: caches_def notify_count_def split: prod.splits)

subsection \<open>Calls\<close>

text \<open>Numbers are left for the detectors that one call may create.\<close>

definition ids_left :: "ObDeadLockDetectorMgr \<Rightarrow> bool" where
  "ids_left g \<longleftrightarrow> unat (logic_id g) + 1 < 2 ^ 64
     \<and> (\<forall>k n. detector_map g k = Some n \<longrightarrow> unat (logic_id g) + length (parent_list n) < 2 ^ 64)"

definition call_labels :: "lcl_op \<Rightarrow> (UserBinaryKey \<times> ObLCLLabel) set" where
  "call_labels op = {(lm_dest_key m, lm_label m) | m. op = OpLcl m}"

definition call_caches :: "lcl_env \<Rightarrow> lcl_op \<Rightarrow> ObDeadLockDetectorMgr \<Rightarrow> (ObDependencyResource \<times> ObLCLLabel) set" where
  "call_caches E op g = {(r, l) | r l k n. op = OpTimer k \<and> detector_map g k = Some n \<and> r \<in> node_waits E n
     \<and> l \<in> {public_label n, private_label n}}"

definition call_out :: "lcl_env \<Rightarrow> lcl_op \<Rightarrow> ObDeadLockDetectorMgr \<Rightarrow> lcl_out \<Rightarrow> bool" where
  "call_out E op g out \<longleftrightarrow> (\<exists>a m. out = PostNotify a m) \<or> out = RevertSelf \<or> (\<exists>infos. out = InsertAll infos)
     \<or> (\<exists>m n. op = OpCollect m \<and> detector_map g (cm_dest_key m) = Some n \<and> collect_out E (cm_collected_info m) n out)
     \<or> (\<exists>m n. op = OpLcl m \<and> detector_map g (lm_dest_key m) = Some n \<and> lm_label m = private_label n
          \<and> collect_out E [] n out)"

definition call_ok ::
  "lcl_env \<Rightarrow> lcl_op \<Rightarrow> ObDeadLockDetectorMgr \<Rightarrow> ObDeadLockDetectorMgr \<times> ObLCLMessage list \<times> lcl_out list \<Rightarrow> bool" where
  "call_ok E op g res \<longleftrightarrow> (case res of (g', msgs, outs) \<Rightarrow>
     mgr_wf (en_self_addr E) g' \<and> evolves (call_labels op) g g' \<and> cache_from (call_caches E op g) g g'
     \<and> set msgs \<subseteq> snd ` set (lcl_msg_map (sender_thread g)) \<and> (\<forall>out \<in> set outs. call_out E op g out))"

text \<open>An effect that unregisters a key is carried out on the server.\<close>

lemma deal_outs_no_unregister:
  "deal_outs E outs g = (g', rest) \<Longrightarrow> UnregisterKey k \<notin> set rest \<and> CacheMsg r m \<notin> set rest"
  by (induction E outs g arbitrary: g' rest rule: deal_outs.induct) (auto split: prod.splits if_splits)

lemma handle_known:
  assumes "mgr_wf (en_self_addr E) g" "detector_map g k = Some n" "self_key n1 = self_key n"
    "private_label n1 = private_label n"
    "public_label n1 \<in> {public_label n, private_label n} \<or> (k, public_label n1) \<in> L"
    "unat (logic_id g) + notify_count outs < 2 ^ 64"
    "\<And>r m. CacheMsg r m \<in> set outs \<Longrightarrow> r = Resource (lm_dest_addr m) (lm_dest_key m)"
    "deal_outs E outs (put_detector k (Some n1) g) = (g2, rest)"
  shows "mgr_wf (en_self_addr E) g2" "evolves L g g2" "cache_from (caches outs) g g2"
    "set rest \<subseteq> set outs - {out. (\<exists>j. out = UnregisterKey j) \<or> (\<exists>r m. out = CacheMsg r m)}"
proof -
  note w = put_known [OF assms(1-5)]
  have d: "mgr_wf (en_self_addr E) g2 \<and> evolves {} (put_detector k (Some n1) g) g2
      \<and> cache_from (caches outs) (put_detector k (Some n1) g) g2 \<and> set rest \<subseteq> set outs"
    using deal_outs_wf [OF w(1) _ _ assms(8)] assms(6,7) by simp
  then show "mgr_wf (en_self_addr E) g2" "evolves L g g2" using evolves_trans [OF w(2)] by blast+
  show "cache_from (caches outs) g g2" using d by (simp add: cache_from_def)
  show "set rest \<subseteq> set outs - {out. (\<exists>j. out = UnregisterKey j) \<or> (\<exists>r m. out = CacheMsg r m)}"
    using d deal_outs_no_unregister [OF assms(8)] by blast
qed

lemma silent_outs:
  assumes "\<forall>out \<in> set outs. lcl_msg_out E m n out \<or> collect_out E infos n out"
  shows "notify_count outs = 0" "caches outs = {}" "CacheMsg r x \<notin> set outs"
proof -
  show c: "CacheMsg r x \<notin> set outs" for r x
    using assms by (auto simp: lcl_msg_out_def collect_out_def)
  then show "caches outs = {}" by (auto simp: caches_def)
  show "notify_count outs = 0"
    using assms by (auto simp: notify_count_def filter_empty_conv lcl_msg_out_def collect_out_def)
qed

lemma call_ok_lcl:
  assumes "mgr_wf (en_self_addr E) g" "ids_left g"
  shows "call_ok E (OpLcl m) g (lcl_call E (OpLcl m) g)"
proof (cases "mgr_is_inited g \<and> detector_map g (lm_dest_key m) \<noteq> None")
  case False
  then have "lcl_call E (OpLcl m) g = (g, [], [])"
    by (auto simp: mgr_process_lcl_message_def get_detector_def)
  with assms show ?thesis by (simp add: call_ok_def)
next
  case True
  let ?k = "lm_dest_key m"
  from True obtain n where n: "detector_map g ?k = Some n" by blast
  obtain ret n1 outs where p: "node_process_lcl_message E m n = (ret, n1, outs)"
    by (cases "node_process_lcl_message E m n") auto
  note o = node_lcl_outs [OF p]
  let ?g1 = "put_detector ?k (Some n1) g"
  obtain g2 rest where d: "deal_outs E outs ?g1 = (g2, rest)" by (cases "deal_outs E outs ?g1")
  have call: "lcl_call E (OpLcl m) g = (g2, [], rest)"
    using True n by (simp add: mgr_process_lcl_message_def get_detector_def p d)
  have "(?k, lm_label m) \<in> call_labels (OpLcl m)" by (auto simp: call_labels_def)
  then have pub: "public_label n1 \<in> {public_label n, private_label n} \<or> (?k, public_label n1) \<in> call_labels (OpLcl m)"
    using o(1) by auto
  have quiet: "notify_count outs = 0" "caches outs = {}" "\<And>r x. CacheMsg r x \<notin> set outs"
    using silent_outs [of outs E m n "[]"] o(2) by blast+
  have h: "mgr_wf (en_self_addr E) g2" "evolves (call_labels (OpLcl m)) g g2" "cache_from (caches outs) g g2"
      "set rest \<subseteq> set outs - {out. (\<exists>j. out = UnregisterKey j) \<or> (\<exists>r m. out = CacheMsg r m)}"
    by (rule handle_known [OF assms(1) n _ _ pub _ _ d];
        use o(1) quiet assms(2) in \<open>simp add: ids_left_def\<close>)+
  have "\<forall>out \<in> set rest. call_out E (OpLcl m) g out"
    using h(4) o(2) n by (fastforce simp: lcl_msg_out_def call_out_def)
  with h cache_from_mono [OF h(3), of "call_caches E (OpLcl m) g"] quiet(2) show ?thesis
    unfolding call call_ok_def by simp
qed

lemma call_ok_collect:
  assumes "mgr_wf (en_self_addr E) g" "ids_left g"
  shows "call_ok E (OpCollect m) g (lcl_call E (OpCollect m) g)"
proof -
  let ?k = "cm_dest_key m"
  obtain r1 g1 o1 where c: "check_and_report_cycle E m g = (r1, g1, o1)"
    by (cases "check_and_report_cycle E m g") auto
  have g1: "detector_map g1 = detector_map g" "logic_id g1 = logic_id g" "sender_thread g1 = sender_thread g"
      "mgr_is_inited g1 = mgr_is_inited g" "\<forall>out \<in> set o1. \<exists>infos. out = InsertAll infos"
    using c by (auto simp: check_and_report_cycle_def split: list.splits if_splits prod.splits)
  have wf1: "mgr_wf (en_self_addr E) g1" using assms(1) g1 by (simp add: mgr_wf_def)
  have ev: "evolves L g x" if "evolves L g1 x" for L x using that g1 by (simp add: evolves_def)
  have cf: "cache_from C g x" if "cache_from C g1 x" for C x using that g1 by (simp add: cache_from_def)
  have out1: "\<forall>out \<in> set o1. call_out E (OpCollect m) g out" using g1(5) by (auto simp: call_out_def)
  show ?thesis
  proof (cases "mgr_is_inited g \<and> detector_map g ?k \<noteq> None")
    case False
    then have "lcl_call E (OpCollect m) g = (g, [], []) \<or> lcl_call E (OpCollect m) g = (g1, [], o1)"
      using c g1 by (auto simp: mgr_process_collect_info_message_def get_detector_def)
    then show ?thesis
      using assms(1) wf1 out1 ev [of _ g1] cf [of _ g1]
      by (elim disjE) (simp_all add: call_ok_def del: lcl_call.simps)
  next
    case True
    then obtain n where n: "detector_map g1 ?k = Some n" using g1(1) by auto
    obtain ret n1 outs where p: "node_process_collect_info_message E m n = (ret, n1, outs)"
      by (cases "node_process_collect_info_message E m n") auto
    note o = node_collect_outs [OF p]
    obtain g2 rest where d: "deal_outs E outs (put_detector ?k (Some n1) g1) = (g2, rest)"
      by (cases "deal_outs E outs (put_detector ?k (Some n1) g1)")
    have call: "lcl_call E (OpCollect m) g = (g2, [], o1 @ rest)"
      using True n g1 by (simp add: mgr_process_collect_info_message_def get_detector_def c p d)
    have quiet: "notify_count outs = 0" "caches outs = {}" "\<And>r x. CacheMsg r x \<notin> set outs"
      using silent_outs [of outs E _ n "cm_collected_info m"] o(2) by blast+
    have pub: "public_label n1 \<in> {public_label n, private_label n} \<or> (?k, public_label n1) \<in> {}"
      using o(1) by (simp add: same_labels_def)
    have h: "mgr_wf (en_self_addr E) g2" "evolves {} g1 g2" "cache_from (caches outs) g1 g2"
        "set rest \<subseteq> set outs - {out. (\<exists>j. out = UnregisterKey j) \<or> (\<exists>r m. out = CacheMsg r m)}"
      by (rule handle_known [OF wf1 n _ _ pub _ _ d];
          use o(1) quiet assms(2) g1 in \<open>simp add: ids_left_def same_labels_def\<close>)+
    have "\<forall>out \<in> set rest. call_out E (OpCollect m) g out"
      using h(4) o(2) n g1(1) by (fastforce simp: call_out_def)
    moreover have "call_labels (OpCollect m) = {}" by (simp add: call_labels_def)
    ultimately show ?thesis
      using h(1) ev [OF h(2)] cache_from_mono [OF cf [OF h(3)], of "call_caches E (OpCollect m) g"] out1 quiet(2)
      unfolding call call_ok_def by auto
  qed
qed

lemma call_ok_timer:
  assumes "mgr_wf (en_self_addr E) g" "ids_left g"
  shows "call_ok E (OpTimer k) g (lcl_call E (OpTimer k) g)"
proof (cases "detector_map g k")
  case None
  then have "lcl_call E (OpTimer k) g = (g, [], [])" by (simp add: mgr_run_timer_def)
  with assms show ?thesis by (simp add: call_ok_def)
next
  case (Some n)
  obtain ret n1 outs where p: "run_timer_task E n = (ret, n1, outs)" by (cases "run_timer_task E n") auto
  note o = run_timer_outs [OF p]
  obtain g2 rest where d: "deal_outs E outs (put_detector k (Some n1) g) = (g2, rest)"
    by (cases "deal_outs E outs (put_detector k (Some n1) g)")
  have call: "lcl_call E (OpTimer k) g = (g2, [], rest)" by (simp add: mgr_run_timer_def Some p d)
  have pub: "public_label n1 \<in> {public_label n, private_label n} \<or> (k, public_label n1) \<in> call_labels (OpTimer k)"
    using o(1) by blast
  have left: "unat (logic_id g) + notify_count outs < 2 ^ 64"
    using assms(2) Some o(3) by (auto simp: ids_left_def intro: order.strict_trans1 add_left_mono)
  have same: "self_key n1 = self_key n" "private_label n1 = private_label n" using o(1) by blast+
  have dest: "\<And>r m. CacheMsg r m \<in> set outs \<Longrightarrow> r = Resource (lm_dest_addr m) (lm_dest_key m)"
    using o(2) by (auto simp: timer_out_def)
  note h = handle_known [OF assms(1) Some same pub left dest d]
  have "call_out E (OpTimer k) g out" if "out \<in> set rest" for out
  proof -
    have "timer_out E n out" "\<not> (\<exists>j. out = UnregisterKey j)" "\<not> (\<exists>r m. out = CacheMsg r m)"
      using that h(4) o(2) by blast+
    then show ?thesis unfolding timer_out_def call_out_def by blast
  qed
  moreover have "(r, lm_label m) \<in> call_caches E (OpTimer k) g" if "CacheMsg r m \<in> set outs" for r m
  proof -
    have "timer_out E n (CacheMsg r m)" using that o(2) by blast
    then have "r \<in> node_waits E n" "lm_label m \<in> {public_label n, private_label n}"
      by (auto simp: timer_out_def)
    then show ?thesis using Some unfolding call_caches_def by blast
  qed
  then have "caches outs \<subseteq> call_caches E (OpTimer k) g" by (auto simp: caches_def)
  ultimately show ?thesis
    using h(1,2) cache_from_mono [OF h(3)] unfolding call call_ok_def by simp
qed

lemma call_ok_send:
  assumes "mgr_wf (en_self_addr E) g"
  shows "call_ok E (OpSend post diff) g (lcl_call E (OpSend post diff) g)"
proof -
  obtain msgs s1 where r: "sender_round post (en_op_interval E) diff (sender_thread g) = (msgs, s1)"
    by (cases "sender_round post (en_op_interval E) diff (sender_thread g)")
  note o = sender_round_origin [OF r]
  have "sender_wf (sender_thread g)" using assms by (simp add: mgr_wf_def)
  then have "sender_wf s1" using r by (rule sender_round_wf [rotated])
  with assms o show ?thesis
    by (auto simp: r call_ok_def mgr_wf_def evolves_def cache_from_def)
qed

text \<open>The user's calls change one detector and keep its labels.\<close>

lemma call_ok_on_detector:
  assumes "mgr_wf (en_self_addr E) g" "\<And>n. same_labels n (snd (f n))"
  shows "call_ok E op g (snd (on_detector E vs ks f g), [], [])"
  by (simp add: call_ok_def cache_from_same on_detector_wf [OF assms])

lemma call_ok_one_more:
  assumes "mgr_wf (en_self_addr E) g" "ids_left g" "one_more E g g'"
  shows "call_ok E op g (g', [], [])"
  using one_more_wf [OF assms(3,1)] assms(2) by (simp add: call_ok_def cache_from_same ids_left_def)

lemma block_each_labels: "same_labels n (snd (block_each rs n))"
proof (induction rs n rule: block_each.induct)
  case (2 r rs n)
  obtain ret n1 where b: "node_block r n = (ret, n1)" by (cases "node_block r n")
  then have n1: "same_labels n n1" using node_block_labels [of n r] by simp
  show ?case
  proof (cases "ret = OB_SUCCESS \<or> ret = OB_ENTRY_EXIST")
    case True
    with "2.IH" [OF b [symmetric]] have "same_labels n1 (snd (block_each rs n1))" by blast
    with n1 have "same_labels n (snd (block_each rs n1))" by (simp add: same_labels_def)
    with True b show ?thesis by auto
  next
    case False with b n1 show ?thesis by simp
  qed
qed (simp add: same_labels_def)

lemma user_op_labels:
  "same_labels n (snd (node_activate r n))" "same_labels n (snd (node_activate_all n))"
  "same_labels n (snd (node_add_parent r n))" "same_labels n (snd (node_replace_block_list E rs n))"
  "same_labels n (snd (node_block_callback E cb n))" "same_labels n (node_dec_count_down n)"
  "same_labels n (node_set_timeout E t n)"
  by (auto simp: same_labels_def node_activate_def node_activate_all_def node_add_parent_def
      node_replace_block_list_def node_block_callback_def node_dec_count_down_def node_set_timeout_def)

lemma call_ok_set_timeout:
  assumes "mgr_wf (en_self_addr E) g"
  shows "call_ok E op g (snd (mgr_set_timeout E v uk t g), [], [])"
proof -
  let ?k = "snd uk"
  have "snd (mgr_set_timeout E v uk t g) = g
    \<or> (\<exists>n. detector_map g ?k = Some n
         \<and> snd (mgr_set_timeout E v uk t g) = put_detector ?k (Some (node_set_timeout E t n)) g)"
    by (auto simp: mgr_set_timeout_def get_detector_def split: option.split prod.split)
  then consider "snd (mgr_set_timeout E v uk t g) = g"
    | n where "detector_map g ?k = Some n"
        "snd (mgr_set_timeout E v uk t g) = put_detector ?k (Some (node_set_timeout E t n)) g" by blast
  then show ?thesis
  proof cases
    case 1 with assms show ?thesis by (simp add: call_ok_def)
  next
    case 2
    with put_known [OF assms 2(1), of "node_set_timeout E t n"] user_op_labels(7) [of n E t]
    show ?thesis by (simp add: call_ok_def cache_from_same same_labels_def)
  qed
qed

lemma lcl_call_ok:
  assumes "mgr_wf (en_self_addr E) g" "ids_left g"
  shows "call_ok E op g (lcl_call E op g)"
proof (cases op)
  case (OpRegister vs k p d c au)
  then show ?thesis using call_ok_one_more [OF assms register_key_one_more] by simp
next
  case (OpUnregister v k)
  have "snd (unregister_user_key v k g) \<in> {g, snd (unregister_key (snd k) g)}"
    by (auto simp: unregister_user_key_def)
  with OpUnregister show ?thesis using unregister_key_wf [OF assms(1)] assms(1) by (auto simp: call_ok_def cache_from_same)
next
  case (OpSetTimeout v k t)
  then show ?thesis using call_ok_set_timeout [OF assms(1)] by simp
next
  case (OpNotify m)
  then show ?thesis using call_ok_one_more [OF assms notify_one_more] by simp
next
  case (OpTimer k) then show ?thesis using call_ok_timer [OF assms] by blast
next
  case (OpSend post d) then show ?thesis using call_ok_send [OF assms(1)] by blast
next
  case (OpLcl m) then show ?thesis using call_ok_lcl [OF assms] by blast
next
  case (OpCollect m) then show ?thesis using call_ok_collect [OF assms] by blast
qed (simp_all add: mgr_block_def mgr_block_list_def mgr_block_callback_def mgr_replace_block_list_def
      mgr_dec_count_down_allow_detect_def mgr_activate_def mgr_activate_all_def mgr_add_parent_def
      call_ok_on_detector [OF assms(1)] node_block_labels block_each_labels user_op_labels)

end
