(* ===== verification/Lcl_Safety.thy ===== *)
theory Lcl_Safety
  imports Lcl_Calls "HOL-Library.Multiset"
begin

text \<open>
  Runs of the deadlock detectors of a cluster. Besides the managers and the messages under way, the
  state of a run keeps its history: which waits the detectors of the acting server had at each
  step, which detectors were ever registered, and which were told to give up. No detector is told
  to give up unless the recorded waits lead from it back to it through detectors of no lower
  priority.
\<close>

record lcl_sys =
  sy_mgr :: "ObAddr \<Rightarrow> ObDeadLockDetectorMgr"
  sy_lcl :: "ObLCLMessage set"
  sy_collect :: "(ObAddr \<times> ObDeadLockCollectInfoMessage) multiset"
  sy_waits :: "(ObDependencyResource \<times> ObDependencyResource) set"
  sy_born :: "(ObAddr \<times> u64 \<times> UserBinaryKey) set"
  sy_kills :: "(ObDependencyResource \<times> ObDetectorInnerReportInfo list) set"

definition waits_now :: "lcl_env \<Rightarrow> ObDeadLockDetectorMgr \<Rightarrow> (ObDependencyResource \<times> ObDependencyResource) set" where
  "waits_now E g = {(Resource (en_self_addr E) k, r) | k n r. detector_map g k = Some n \<and> r \<in> node_waits E n}"

definition born_now :: "ObAddr \<Rightarrow> ObDeadLockDetectorMgr \<Rightarrow> (ObAddr \<times> u64 \<times> UserBinaryKey) set" where
  "born_now a g = {(a, label_id (private_label n), k) | k n. detector_map g k = Some n}"

definition posted :: "lcl_out list \<Rightarrow> (ObAddr \<times> ObDeadLockCollectInfoMessage) list" where
  "posted outs = List.map_filter (\<lambda>out. case out of PostCollect b m \<Rightarrow> Some (b, m) | _ \<Rightarrow> None) outs"

definition killed_by :: "ObAddr \<Rightarrow> lcl_op \<Rightarrow> lcl_out list \<Rightarrow> (ObDependencyResource \<times> ObDetectorInnerReportInfo list) set" where
  "killed_by a op outs = {(Resource a (cm_dest_key m), infos) | m infos. op = OpCollect m \<and> DetectCall infos \<in> set outs}
     \<union> {(Resource a (lm_dest_key m), infos) | m infos. op = OpLcl m \<and> DetectCall infos \<in> set outs}"

text \<open>
  A label message reaches the server it is sent to any number of times or never. A message that
  collects infos is taken from the network; the network may lose or repeat it.
\<close>

definition may_lcl_call :: "lcl_sys \<Rightarrow> ObAddr \<Rightarrow> lcl_op \<Rightarrow> bool" where
  "may_lcl_call s a op \<longleftrightarrow> (case op of
       OpLcl m \<Rightarrow> m \<in> sy_lcl s \<and> lm_dest_addr m = a
     | OpCollect m \<Rightarrow> (a, m) \<in># sy_collect s
     | _ \<Rightarrow> True)"

definition taken :: "ObAddr \<Rightarrow> lcl_op \<Rightarrow> (ObAddr \<times> ObDeadLockCollectInfoMessage) multiset" where
  "taken a op = (case op of OpCollect m \<Rightarrow> {#(a, m)#} | _ \<Rightarrow> {#})"

definition after_lcl_call :: "lcl_env \<Rightarrow> lcl_op \<Rightarrow> lcl_sys \<Rightarrow> lcl_sys" where
  "after_lcl_call E op s =
     (let a = en_self_addr E; g = sy_mgr s a; (g', msgs, outs) = lcl_call E op g in
      \<lparr>sy_mgr = (sy_mgr s)(a := g'), sy_lcl = sy_lcl s \<union> set msgs,
       sy_collect = sy_collect s - taken a op + mset (posted outs),
       sy_waits = sy_waits s \<union> waits_now E g, sy_born = sy_born s \<union> born_now a g',
       sy_kills = sy_kills s \<union> killed_by a op outs\<rparr>)"

inductive lcl_step :: "lcl_sys \<Rightarrow> lcl_sys \<Rightarrow> bool" where
  call: "may_lcl_call s (en_self_addr E) op \<Longrightarrow> ids_left (sy_mgr s (en_self_addr E)) \<Longrightarrow>
         lcl_step s (after_lcl_call E op s)"
| lose: "lcl_step s (s\<lparr>sy_collect := sy_collect s - {#x#}\<rparr>)"
| repeat: "x \<in># sy_collect s \<Longrightarrow> lcl_step s (s\<lparr>sy_collect := add_mset x (sy_collect s)\<rparr>)"

text \<open>A cluster starts without detectors and without messages.\<close>

definition fresh_mgr :: "ObDeadLockDetectorMgr \<Rightarrow> bool" where
  "fresh_mgr g \<longleftrightarrow> detector_map g = Map.empty \<and> logic_id g = 0 \<and> lcl_msg_map (sender_thread g) = []"

definition lcl_init :: "lcl_sys \<Rightarrow> bool" where
  "lcl_init s \<longleftrightarrow> (\<forall>a. fresh_mgr (sy_mgr s a)) \<and> sy_lcl s = {} \<and> sy_collect s = {#} \<and> sy_waits s = {}
     \<and> sy_born s = {} \<and> sy_kills s = {}"

inductive lcl_reachable :: "lcl_sys \<Rightarrow> bool" where
  start: "lcl_init s \<Longrightarrow> lcl_reachable s"
| step: "lcl_reachable s \<Longrightarrow> lcl_step s s' \<Longrightarrow> lcl_reachable s'"

subsection \<open>The invariant\<close>

definition label_reaches :: "lcl_sys \<Rightarrow> ObLCLLabel \<Rightarrow> (ObDependencyResource \<Rightarrow> ObDependencyResource \<Rightarrow> bool) \<Rightarrow>
    ObDependencyResource \<Rightarrow> bool" where
  "label_reaches s l R r \<longleftrightarrow> (\<exists>k. (label_addr l, label_id l, k) \<in> sy_born s \<and> R (Resource (label_addr l) k) r)"

abbreviation waits_path :: "lcl_sys \<Rightarrow> ObDependencyResource \<Rightarrow> ObDependencyResource \<Rightarrow> bool" where
  "waits_path s x y \<equiv> (x, y) \<in> (sy_waits s)\<^sup>*"

abbreviation waits_chain :: "lcl_sys \<Rightarrow> ObDependencyResource \<Rightarrow> ObDependencyResource \<Rightarrow> bool" where
  "waits_chain s x y \<equiv> (x, y) \<in> (sy_waits s)\<^sup>+"

definition waits_list :: "lcl_sys \<Rightarrow> ObDependencyResource list \<Rightarrow> bool" where
  "waits_list s rs \<longleftrightarrow> (\<forall>i. Suc i < length rs \<longrightarrow> (rs ! i, rs ! Suc i) \<in> sy_waits s)"

definition born_inv :: "lcl_sys \<Rightarrow> bool" where
  "born_inv s \<longleftrightarrow> (\<forall>a i k. (a, i, k) \<in> sy_born s \<longrightarrow> unat i \<le> unat (logic_id (sy_mgr s a)))
     \<and> (\<forall>a i k k'. (a, i, k) \<in> sy_born s \<longrightarrow> (a, i, k') \<in> sy_born s \<longrightarrow> k = k')
     \<and> (\<forall>a. born_now a (sy_mgr s a) \<subseteq> sy_born s)"

definition label_inv :: "lcl_sys \<Rightarrow> bool" where
  "label_inv s \<longleftrightarrow> (\<forall>a k n. detector_map (sy_mgr s a) k = Some n \<longrightarrow>
       label_reaches s (public_label n) (waits_path s) (Resource a k))
     \<and> (\<forall>a r m. (r, m) \<in> set (lcl_msg_map (sender_thread (sy_mgr s a))) \<longrightarrow>
          label_reaches s (lm_label m) (waits_chain s) r)
     \<and> (\<forall>m \<in> sy_lcl s. label_reaches s (lm_label m) (waits_chain s) (Resource (lm_dest_addr m) (lm_dest_key m)))"

definition collected_ok :: "lcl_sys \<Rightarrow> ObDetectorInnerReportInfo list \<Rightarrow> ObDependencyResource \<Rightarrow> bool" where
  "collected_ok s infos r \<longleftrightarrow> infos \<noteq> [] \<and> waits_list s (map info_res infos @ [r])
     \<and> distinct (map info_no infos)
     \<and> (\<forall>i \<in> set infos. (info_addr i, info_detector_id i, info_key i) \<in> sy_born s)
     \<and> waits_chain s (info_res (hd infos)) (info_res (hd infos))"

definition kill_ok :: "lcl_sys \<Rightarrow> ObDependencyResource \<Rightarrow> ObDetectorInnerReportInfo list \<Rightarrow> bool" where
  "kill_ok s r infos \<longleftrightarrow> collected_ok s infos r \<and> info_res (hd infos) = r
     \<and> (\<forall>i \<in> set infos. info_priority (hd infos) \<le> info_priority i)"

definition lcl_inv :: "lcl_sys \<Rightarrow> bool" where
  "lcl_inv s \<longleftrightarrow> (\<forall>a. mgr_wf a (sy_mgr s a)) \<and> born_inv s \<and> label_inv s
     \<and> (\<forall>(a, m) \<in># sy_collect s. collected_ok s (cm_collected_info m) (Resource a (cm_dest_key m)))
     \<and> (\<forall>(r, infos) \<in> sy_kills s. kill_ok s r infos)"

text \<open>The history only grows, and with it what it justifies.\<close>

definition more_history :: "lcl_sys \<Rightarrow> lcl_sys \<Rightarrow> bool" where
  "more_history s s' \<longleftrightarrow> sy_waits s \<subseteq> sy_waits s' \<and> sy_born s \<subseteq> sy_born s'"

lemma label_reaches_mono:
  assumes "more_history s s'"
  shows "label_reaches s l (waits_path s) r \<Longrightarrow> label_reaches s' l (waits_path s') r"
    "label_reaches s l (waits_chain s) r \<Longrightarrow> label_reaches s' l (waits_chain s') r"
  using assms rtrancl_mono trancl_mono unfolding label_reaches_def more_history_def by blast+

lemma collected_ok_mono:
  assumes "more_history s s'" "collected_ok s infos r"
  shows "collected_ok s' infos r"
  using assms trancl_mono unfolding collected_ok_def waits_list_def more_history_def by blast

lemma kill_ok_mono: "more_history s s' \<Longrightarrow> kill_ok s r infos \<Longrightarrow> kill_ok s' r infos"
  using collected_ok_mono unfolding kill_ok_def by blast

lemma lcl_init_inv: "lcl_init s \<Longrightarrow> lcl_inv s"
  by (auto simp: lcl_init_def lcl_inv_def fresh_mgr_def mgr_wf_def born_inv_def label_inv_def born_now_def
      sender_wf_def LCL_MSG_CACHE_LIMIT_def)

subsection \<open>The lowest priority\<close>

lemma lowest_priority_idx_bound:
  "lowest_priority_idx i lowest idx infos = idx' \<Longrightarrow> idx' = idx \<or> int i \<le> idx'"
  by (induction i lowest idx infos rule: lowest_priority_idx.induct) (force split: if_splits)+

lemma lowest_priority_idx_kept:
  "lowest_priority_idx i lowest idx infos = idx \<Longrightarrow> idx < int i \<Longrightarrow> j \<in> set infos \<Longrightarrow> lowest \<le> info_priority j"
proof (induction i lowest idx infos rule: lowest_priority_idx.induct)
  case (2 i lowest idx info infos)
  have "\<not> info_priority info < lowest"
    using "2.prems"(1,2) lowest_priority_idx_bound [of "i + 1" "info_priority info" "int i" infos idx]
    by auto
  with 2 show ?case by (auto simp: not_less)
qed simp

lemma lowest_priority_is_first:
  assumes "if_self_has_lowest_priority infos" "infos \<noteq> []" "j \<in> set infos"
  shows "info_priority (hd infos) \<le> info_priority j"
proof -
  obtain i0 rest where infos: "infos = i0 # rest" using assms(2) by (cases infos) auto
  have first: "info_priority i0 < Priority EXTREMELY_HIGH (- 1)"
    using assms(1) lowest_priority_idx_bound [of 1 "Priority EXTREMELY_HIGH (- 1)" "- 1" rest 0]
    by (auto simp: if_self_has_lowest_priority_def infos split: if_splits)
  then have "lowest_priority_idx 1 (info_priority i0) 0 rest = 0"
    using assms(1) by (simp add: if_self_has_lowest_priority_def infos)
  from lowest_priority_idx_kept [OF this] assms(3) infos show ?thesis by auto
qed

subsection \<open>The invariant is kept\<close>

lemma call_effects:
  assumes "lcl_inv s" "ids_left (sy_mgr s a)" "a = en_self_addr E" "lcl_call E op (sy_mgr s a) = (g', msgs, outs)"
  shows "mgr_wf a g'" "evolves (call_labels op) (sy_mgr s a) g'" "cache_from (call_caches E op (sy_mgr s a)) (sy_mgr s a) g'"
    "set msgs \<subseteq> snd ` set (lcl_msg_map (sender_thread (sy_mgr s a)))"
    "out \<in> set outs \<Longrightarrow> call_out E op (sy_mgr s a) out"
    "after_lcl_call E op s = \<lparr>sy_mgr = (sy_mgr s)(a := g'), sy_lcl = sy_lcl s \<union> set msgs,
       sy_collect = sy_collect s - taken a op + mset (posted outs),
       sy_waits = sy_waits s \<union> waits_now E (sy_mgr s a), sy_born = sy_born s \<union> born_now a g',
       sy_kills = sy_kills s \<union> killed_by a op outs\<rparr>"
proof -
  have "mgr_wf (en_self_addr E) (sy_mgr s a)" using assms(1,3) by (simp add: lcl_inv_def)
  from lcl_call_ok [OF this assms(2), of op] assms(3,4)
  show "mgr_wf a g'" "evolves (call_labels op) (sy_mgr s a) g'"
    "cache_from (call_caches E op (sy_mgr s a)) (sy_mgr s a) g'"
    "set msgs \<subseteq> snd ` set (lcl_msg_map (sender_thread (sy_mgr s a)))"
    "out \<in> set outs \<Longrightarrow> call_out E op (sy_mgr s a) out" by (auto simp: call_ok_def)
  show "after_lcl_call E op s = \<lparr>sy_mgr = (sy_mgr s)(a := g'), sy_lcl = sy_lcl s \<union> set msgs,
       sy_collect = sy_collect s - taken a op + mset (posted outs),
       sy_waits = sy_waits s \<union> waits_now E (sy_mgr s a), sy_born = sy_born s \<union> born_now a g',
       sy_kills = sy_kills s \<union> killed_by a op outs\<rparr>"
    using assms(3,4) by (simp add: after_lcl_call_def Let_def)
qed

lemma born_inv_step:
  assumes "born_inv s" "mgr_wf a g'" "evolves L (sy_mgr s a) g'"
    "sy_mgr s' = (sy_mgr s)(a := g')" "sy_born s' = sy_born s \<union> born_now a g'"
  shows "born_inv s'"
proof -
  have grow: "unat (logic_id (sy_mgr s b)) \<le> unat (logic_id (sy_mgr s' b))" for b
    using assms(3,4) by (simp add: evolves_def)
  have new: "unat i \<le> unat (logic_id g')" if "(b, i, k) \<in> born_now a g'" for b i k
    using that assms(2) by (auto simp: born_now_def mgr_wf_def)
  have mixed: "k = k'" if old: "(b, i, k) \<in> sy_born s" and n: "(b, i, k') \<in> born_now a g'" for b i k k'
  proof -
    obtain n' where n': "detector_map g' k' = Some n'" "i = label_id (private_label n')" "b = a"
      using n by (auto simp: born_now_def)
    have "unat i \<le> unat (logic_id (sy_mgr s a))" using old assms(1) n'(3) by (auto simp: born_inv_def)
    with assms(3) n' obtain n where "detector_map (sy_mgr s a) k' = Some n" "private_label n' = private_label n"
      unfolding evolves_def by (metis leD)
    with n' have "(b, i, k') \<in> born_now a (sy_mgr s a)" by (auto simp: born_now_def)
    then have "(b, i, k') \<in> sy_born s" using assms(1) unfolding born_inv_def by blast
    with old assms(1) show ?thesis unfolding born_inv_def by blast
  qed
  have both: "k = k'" if "(b, i, k) \<in> born_now a g'" "(b, i, k') \<in> born_now a g'" for b i k k'
    using that assms(2) unfolding born_now_def mgr_wf_def by blast
  show ?thesis
    unfolding born_inv_def
  proof (intro conjI allI impI)
    fix b i k assume "(b, i, k) \<in> sy_born s'"
    then consider "(b, i, k) \<in> sy_born s" | "(b, i, k) \<in> born_now a g'" "b = a" using assms(5) by (auto simp: born_now_def)
    then show "unat i \<le> unat (logic_id (sy_mgr s' b))"
    proof cases
      case 1 with assms(1) grow [of b] show ?thesis unfolding born_inv_def by (meson order.trans)
    next
      case 2 with new assms(4) show ?thesis by simp
    qed
  next
    fix b i k k' assume "(b, i, k) \<in> sy_born s'" "(b, i, k') \<in> sy_born s'"
    with mixed both assms(1,5) show "k = k'" unfolding born_inv_def by (metis Un_iff)
  next
    fix b show "born_now b (sy_mgr s' b) \<subseteq> sy_born s'"
      using assms(1,4,5) by (cases "b = a") (auto simp: born_inv_def)
  qed
qed

lemma own_label_reaches:
  assumes "mgr_wf a g" "detector_map g k = Some n" "born_now a g \<subseteq> sy_born s"
  shows "label_reaches s (private_label n) (waits_path s) (Resource a k)"
proof -
  have "label_addr (private_label n) = a" using assms(1,2) by (auto simp: mgr_wf_def)
  moreover have "(a, label_id (private_label n), k) \<in> sy_born s" using assms(2,3) by (auto simp: born_now_def)
  ultimately show ?thesis unfolding label_reaches_def by blast
qed

lemma chain_is_path: "label_reaches s l (waits_chain s) r \<Longrightarrow> label_reaches s l (waits_path s) r"
  unfolding label_reaches_def by (meson trancl_into_rtrancl)

lemma label_reaches_step:
  assumes "label_reaches s l (waits_path s) (Resource a k)" "(Resource a k, r) \<in> sy_waits s"
  shows "label_reaches s l (waits_chain s) r"
  using assms unfolding label_reaches_def by (meson rtrancl_into_trancl1)

lemma label_inv_step:
  assumes inv: "lcl_inv s" and left: "ids_left (sy_mgr s a)" and a: "a = en_self_addr E"
    and call: "lcl_call E op (sy_mgr s a) = (g', msgs, outs)" and may: "may_lcl_call s a op"
    and s': "s' = after_lcl_call E op s" and hist: "more_history s s'"
  shows "label_inv s'"
proof -
  note c = call_effects [OF inv left a call]
  let ?g = "sy_mgr s a"
  have wf: "mgr_wf a ?g" and born: "born_now a ?g \<subseteq> sy_born s" and lab: "label_inv s"
    using inv by (auto simp: lcl_inv_def born_inv_def)
  have born': "born_now a g' \<subseteq> sy_born s'" "waits_now E ?g \<subseteq> sy_waits s'" using s' c(6) by auto
  have node_s: "label_reaches s l (waits_path s) (Resource a k)"
    if "detector_map ?g k = Some n" "l \<in> {public_label n, private_label n}" for k n l
    using that own_label_reaches [OF wf that(1) born] lab by (auto simp: label_inv_def)
  have node: "label_reaches s' (public_label n') (waits_path s') (Resource a k)" if k: "detector_map g' k = Some n'" for k n'
  proof -
    from c(2) k consider n where "detector_map ?g k = Some n" "public_label n' \<in> {public_label n, private_label n}"
      | "(k, public_label n') \<in> call_labels op" | "public_label n' = private_label n'"
      unfolding evolves_def by blast
    then show ?thesis
    proof cases
      case 1 then show ?thesis by (intro label_reaches_mono(1) [OF hist] node_s)
    next
      case 2
      then obtain m where m: "op = OpLcl m" "k = lm_dest_key m" "public_label n' = lm_label m"
        by (auto simp: call_labels_def)
      with may have "m \<in> sy_lcl s" "lm_dest_addr m = a" by (auto simp: may_lcl_call_def)
      with lab m have "label_reaches s (public_label n') (waits_chain s) (Resource a k)" by (auto simp: label_inv_def)
      then show ?thesis by (intro label_reaches_mono(1) [OF hist] chain_is_path)
    next
      case 3 with own_label_reaches [OF c(1) k born'(1)] show ?thesis by simp
    qed
  qed
  have cache: "label_reaches s' (lm_label m) (waits_chain s') r" if m: "(r, m) \<in> set (lcl_msg_map (sender_thread g'))" for r m
  proof -
    from c(3) m consider y where "(r, y) \<in> set (lcl_msg_map (sender_thread ?g))" "lm_label m = lm_label y"
      | "(r, lm_label m) \<in> call_caches E op ?g"
      unfolding cache_from_def by blast
    then show ?thesis
    proof cases
      case 1 with lab have "label_reaches s (lm_label m) (waits_chain s) r" by (auto simp: label_inv_def)
      then show ?thesis by (rule label_reaches_mono(2) [OF hist])
    next
      case 2
      then obtain k n where n: "detector_map ?g k = Some n" "r \<in> node_waits E n"
          "lm_label m \<in> {public_label n, private_label n}" by (auto simp: call_caches_def)
      then have "(Resource a k, r) \<in> sy_waits s'" using born'(2) a unfolding waits_now_def by blast
      with label_reaches_mono(1) [OF hist node_s [OF n(1,3)]] show ?thesis by (rule label_reaches_step)
    qed
  qed
  have sent: "label_reaches s' (lm_label m) (waits_chain s') (Resource (lm_dest_addr m) (lm_dest_key m))"
    if "m \<in> set msgs" for m
  proof -
    from that c(4) obtain r where r: "(r, m) \<in> set (lcl_msg_map (sender_thread ?g))" by auto
    with wf have "r = Resource (lm_dest_addr m) (lm_dest_key m)" by (auto simp: mgr_wf_def sender_wf_def)
    with r lab have "label_reaches s (lm_label m) (waits_chain s) (Resource (lm_dest_addr m) (lm_dest_key m))"
      unfolding label_inv_def by blast
    then show ?thesis by (rule label_reaches_mono(2) [OF hist])
  qed
  show ?thesis
    unfolding label_inv_def
  proof (intro conjI allI impI ballI)
    fix b k n assume "detector_map (sy_mgr s' b) k = Some n"
    then show "label_reaches s' (public_label n) (waits_path s') (Resource b k)"
      using node lab label_reaches_mono(1) [OF hist] s' c(6) by (cases "b = a") (auto simp: label_inv_def)
  next
    fix b r m assume "(r, m) \<in> set (lcl_msg_map (sender_thread (sy_mgr s' b)))"
    then show "label_reaches s' (lm_label m) (waits_chain s') r"
      using cache lab label_reaches_mono(2) [OF hist] s' c(6) by (cases "b = a") (auto simp: label_inv_def)
  next
    fix m assume "m \<in> sy_lcl s'"
    then show "label_reaches s' (lm_label m) (waits_chain s') (Resource (lm_dest_addr m) (lm_dest_key m))"
      using sent lab label_reaches_mono(2) [OF hist] s' c(6) by (auto simp: label_inv_def)
  qed
qed

text \<open>What a node adds to a collection continues the chain of waits.\<close>

lemma waits_list_append:
  assumes "waits_list s (rs @ [x])" "(x, y) \<in> sy_waits s"
  shows "waits_list s (rs @ [x, y])"
  unfolding waits_list_def
proof (intro allI impI)
  fix i assume i: "Suc i < length (rs @ [x, y])"
  show "((rs @ [x, y]) ! i, (rs @ [x, y]) ! Suc i) \<in> sy_waits s"
  proof (cases "Suc i < length (rs @ [x])")
    case True
    then have "(rs @ [x, y]) ! i = (rs @ [x]) ! i" "(rs @ [x, y]) ! Suc i = (rs @ [x]) ! Suc i"
      by (auto simp: nth_append)
    with True assms(1) show ?thesis by (simp add: waits_list_def)
  next
    case False
    with i have "i = length rs" by simp
    with assms(2) show ?thesis by (simp add: nth_append)
  qed
qed

lemma collected_ok_extend:
  assumes "collected_ok s infos (info_res i) \<or> infos = [] \<and> waits_chain s (info_res i) (info_res i)"
    "(info_res i, r) \<in> sy_waits s" "info_no i \<notin> info_no ` set infos"
    "(info_addr i, info_detector_id i, info_key i) \<in> sy_born s"
  shows "collected_ok s (infos @ [i]) r"
  using assms(1)
proof
  assume c: "collected_ok s infos (info_res i)"
  then have "waits_list s (map info_res infos @ [info_res i, r])"
    using waits_list_append [OF _ assms(2)] by (simp add: collected_ok_def)
  with c assms(3,4) show ?thesis by (auto simp: collected_ok_def)
next
  assume "infos = [] \<and> waits_chain s (info_res i) (info_res i)"
  with assms(2,4) show ?thesis by (auto simp: collected_ok_def waits_list_def)
qed

lemma own_info_born:
  assumes "lcl_inv s" "detector_map (sy_mgr s a) k = Some n" "own_info E n i" "a = en_self_addr E"
  shows "info_res i = Resource a k" "(info_addr i, info_detector_id i, info_key i) \<in> sy_born s"
proof -
  have "self_key n = k" using assms(1,2) by (auto simp: lcl_inv_def mgr_wf_def)
  with assms(3,4) show r: "info_res i = Resource a k" by (simp add: own_info_def)
  have "(a, label_id (private_label n), k) \<in> born_now a (sy_mgr s a)" using assms(2) by (auto simp: born_now_def)
  then have "(a, label_id (private_label n), k) \<in> sy_born s" using assms(1) unfolding lcl_inv_def born_inv_def by blast
  with r assms(3,4) show "(info_addr i, info_detector_id i, info_key i) \<in> sy_born s"
    by (simp add: own_info_def info_res_def info_no_def)
qed

text \<open>Whoever finds its own label in a message waits, through others, for itself.\<close>

lemma own_label_cycle:
  assumes "lcl_inv s" "m \<in> sy_lcl s" "lm_dest_addr m = a" "detector_map (sy_mgr s a) (lm_dest_key m) = Some n"
    "lm_label m = private_label n"
  shows "waits_chain s (Resource a (lm_dest_key m)) (Resource a (lm_dest_key m))"
proof -
  let ?k = "lm_dest_key m"
  have "label_addr (private_label n) = a" using assms(1,4) by (auto simp: lcl_inv_def mgr_wf_def)
  then obtain k where k: "(a, label_id (private_label n), k) \<in> sy_born s" "waits_chain s (Resource a k) (Resource a ?k)"
    using assms(1-3,5) by (auto simp: lcl_inv_def label_inv_def label_reaches_def)
  have "(a, label_id (private_label n), ?k) \<in> born_now a (sy_mgr s a)" using assms(4) by (auto simp: born_now_def)
  then have "k = ?k" using k(1) assms(1) unfolding lcl_inv_def born_inv_def by blast
  with k(2) show ?thesis by simp
qed

lemma posted_iff: "(b, m) \<in> set (posted outs) \<longleftrightarrow> PostCollect b m \<in> set outs"
  by (induction outs) (auto simp: posted_def map_filter_simps split: lcl_out.splits)

lemma collect_step:
  assumes inv: "lcl_inv s" and left: "ids_left (sy_mgr s a)" and a: "a = en_self_addr E"
    and call: "lcl_call E op (sy_mgr s a) = (g', msgs, outs)" and may: "may_lcl_call s a op"
    and s': "s' = after_lcl_call E op s" and hist: "more_history s s'" and out: "PostCollect b m' \<in> set outs"
  shows "collected_ok s' (cm_collected_info m') (Resource b (cm_dest_key m'))"
proof -
  note c = call_effects [OF inv left a call]
  have waits: "waits_now E (sy_mgr s a) \<subseteq> sy_waits s'" using s' c(6) by auto
  have extend: ?thesis if n: "detector_map (sy_mgr s a) k = Some n" and co: "collect_out E infos n (PostCollect b m')"
    and prem: "collected_ok s infos (Resource a k) \<or> infos = [] \<and> waits_chain s (Resource a k) (Resource a k)" for k n infos
  proof -
    obtain i where i: "Resource b (cm_dest_key m') \<in> node_waits E n" "own_info E n i"
        "cm_collected_info m' = infos @ [i]" "(en_self_addr E, label_id (private_label n)) \<notin> info_no ` set infos"
      using co by (auto simp: collect_out_def)
    note o = own_info_born [OF inv n i(2) a]
    have "(Resource a k, Resource b (cm_dest_key m')) \<in> waits_now E (sy_mgr s a)"
      using n i(1) a unfolding waits_now_def by blast
    then have w: "(info_res i, Resource b (cm_dest_key m')) \<in> sy_waits s'" using waits o(1) by auto
    have "collected_ok s' infos (info_res i) \<or> infos = [] \<and> waits_chain s' (info_res i) (info_res i)"
      using prem collected_ok_mono [OF hist] hist trancl_mono o(1) unfolding more_history_def by metis
    moreover have "info_no i \<notin> info_no ` set infos" using i(2,4) by (simp add: own_info_def)
    moreover have "(info_addr i, info_detector_id i, info_key i) \<in> sy_born s'"
      using o(2) hist by (auto simp: more_history_def)
    ultimately show ?thesis using collected_ok_extend w i(3) by metis
  qed
  from c(5) [OF out] consider m n where "op = OpCollect m" "detector_map (sy_mgr s a) (cm_dest_key m) = Some n"
        "collect_out E (cm_collected_info m) n (PostCollect b m')"
    | m n where "op = OpLcl m" "detector_map (sy_mgr s a) (lm_dest_key m) = Some n" "lm_label m = private_label n"
        "collect_out E [] n (PostCollect b m')"
    unfolding call_out_def by blast
  then show ?thesis
  proof cases
    case 1
    with may have "(a, m) \<in># sy_collect s" by (simp add: may_lcl_call_def)
    with inv have "collected_ok s (cm_collected_info m) (Resource a (cm_dest_key m))" by (auto simp: lcl_inv_def)
    with 1 show ?thesis by (intro extend) auto
  next
    case 2
    with may have "m \<in> sy_lcl s" "lm_dest_addr m = a" by (auto simp: may_lcl_call_def)
    from own_label_cycle [OF inv this 2(2,3)] 2 show ?thesis by (intro extend) auto
  qed
qed

lemma kill_step:
  assumes inv: "lcl_inv s" and left: "ids_left (sy_mgr s a)" and a: "a = en_self_addr E"
    and call: "lcl_call E op (sy_mgr s a) = (g', msgs, outs)" and may: "may_lcl_call s a op"
    and kill: "(r, infos) \<in> killed_by a op outs"
  shows "kill_ok s r infos"
proof -
  note c = call_effects [OF inv left a call]
  have detect: "DetectCall infos \<in> set outs" using kill by (auto simp: killed_by_def)
  from c(5) [OF detect] obtain m n where m: "op = OpCollect m" "detector_map (sy_mgr s a) (cm_dest_key m) = Some n"
      "infos = cm_collected_info m" "chosen_victim E infos n"
    unfolding call_out_def collect_out_def chosen_victim_def by blast
  let ?k = "cm_dest_key m"
  have r: "r = Resource a ?k" using kill m(1) by (auto simp: killed_by_def)
  have "(a, m) \<in># sy_collect s" using may m(1) by (simp add: may_lcl_call_def)
  then have ok: "collected_ok s infos r" using inv m(3) r by (auto simp: lcl_inv_def)
  have v: "infos \<noteq> []" "info_no (hd infos) = (a, label_id (private_label n))" "if_self_has_lowest_priority infos"
    using m(4) a by (auto simp: chosen_victim_def)
  have "(a, label_id (private_label n), info_key (hd infos)) \<in> sy_born s"
  proof -
    have "(info_addr (hd infos), info_detector_id (hd infos), info_key (hd infos)) \<in> sy_born s"
      using ok hd_in_set [OF v(1)] unfolding collected_ok_def by blast
    with v(2) show ?thesis by (simp add: info_no_def)
  qed
  moreover have "(a, label_id (private_label n), ?k) \<in> sy_born s"
  proof -
    have "(a, label_id (private_label n), ?k) \<in> born_now a (sy_mgr s a)" using m(2) by (auto simp: born_now_def)
    then show ?thesis using inv unfolding lcl_inv_def born_inv_def by blast
  qed
  ultimately have "info_key (hd infos) = ?k" using inv unfolding lcl_inv_def born_inv_def by blast
  with v(2) r have "info_res (hd infos) = r" by (simp add: info_res_def info_no_def)
  with ok lowest_priority_is_first [OF v(3,1)] show ?thesis by (simp add: kill_ok_def)
qed

lemma lcl_step_inv:
  assumes "lcl_inv s" "lcl_step s s'"
  shows "lcl_inv s'"
  using assms(2,1)
proof cases
  case (call E op)
  let ?a = "en_self_addr E"
  obtain g' msgs outs where l: "lcl_call E op (sy_mgr s ?a) = (g', msgs, outs)"
    by (cases "lcl_call E op (sy_mgr s ?a)") auto
  note c = call_effects [OF assms(1) call(3) refl l]
  have hist: "more_history s s'" using c(6) call(1) by (auto simp: more_history_def)
  have wf: "\<forall>b. mgr_wf b (sy_mgr s' b)" using assms(1) c(1,6) call(1) by (auto simp: lcl_inv_def)
  have born: "born_inv s'"
    by (rule born_inv_step [OF _ c(1,2)]) (use assms(1) c(6) call(1) in \<open>simp_all add: lcl_inv_def\<close>)
  have labels: "label_inv s'" by (rule label_inv_step [OF assms(1) call(3) refl l call(2,1) hist])
  have "collected_ok s' (cm_collected_info m) (Resource b (cm_dest_key m))" if "(b, m) \<in># sy_collect s'" for b m
  proof (cases "(b, m) \<in># sy_collect s")
    case True
    with assms(1) have "collected_ok s (cm_collected_info m) (Resource b (cm_dest_key m))" by (auto simp: lcl_inv_def)
    then show ?thesis by (rule collected_ok_mono [OF hist])
  next
    case False
    with that c(6) call(1) have "PostCollect b m \<in> set outs" by (auto simp: posted_iff dest: in_diffD)
    then show ?thesis by (rule collect_step [OF assms(1) call(3) refl l call(2,1) hist])
  qed
  moreover have "kill_ok s' r infos" if "(r, infos) \<in> sy_kills s'" for r infos
  proof -
    from that c(6) call(1) consider "(r, infos) \<in> sy_kills s" | "(r, infos) \<in> killed_by ?a op outs" by auto
    then have "kill_ok s r infos"
      using assms(1) kill_step [OF assms(1) call(3) refl l call(2)] by cases (auto simp: lcl_inv_def)
    then show ?thesis by (rule kill_ok_mono [OF hist])
  qed
  ultimately show ?thesis using wf born labels by (auto simp: lcl_inv_def)
next
  case (lose x)
  have h: "more_history s s'" using lose by (simp add: more_history_def)
  with assms(1) lose collected_ok_mono [OF h] kill_ok_mono [OF h] show ?thesis
    by (auto simp: lcl_inv_def born_inv_def label_inv_def label_reaches_def dest!: in_diffD)
next
  case (repeat x)
  have h: "more_history s s'" using repeat by (simp add: more_history_def)
  with assms(1) repeat collected_ok_mono [OF h] kill_ok_mono [OF h] show ?thesis
    by (auto simp: lcl_inv_def born_inv_def label_inv_def label_reaches_def)
qed

lemma lcl_reachable_inv: "lcl_reachable s \<Longrightarrow> lcl_inv s"
  by (induction rule: lcl_reachable.induct) (auto intro: lcl_init_inv lcl_step_inv)

text \<open>C3: Whenever in a run of the detectors of a cluster the detect callback of a resource is called,
  the report infos it is called with describe a cycle of waits: the first is that of the resource
  itself, each resource has waited for the next one and the last for the first, no detector
  occurs twice, and none of them has a lower priority than the one that is told to give up. This
  holds for any interleaving of registrations, blocks, activations, timers and messages, for
  messages that are lost, repeated and reordered, and for any answers of the callbacks.
\<close>

theorem killed_in_a_cycle:
  assumes "lcl_reachable s" "(r, infos) \<in> sy_kills s"
  shows "infos \<noteq> [] \<and> info_res (hd infos) = r
    \<and> (\<forall>i < length infos. (info_res (infos ! i), info_res (infos ! (Suc i mod length infos))) \<in> sy_waits s)
    \<and> distinct (map info_no infos) \<and> (\<forall>i \<in> set infos. info_priority (hd infos) \<le> info_priority i)"
proof -
  have k: "kill_ok s r infos" using lcl_reachable_inv [OF assms(1)] assms(2) by (auto simp: lcl_inv_def)
  have "(info_res (infos ! i), info_res (infos ! (Suc i mod length infos))) \<in> sy_waits s" if i: "i < length infos" for i
  proof -
    let ?rs = "map info_res infos @ [r]"
    have "(?rs ! i, ?rs ! Suc i) \<in> sy_waits s" using k i by (auto simp: kill_ok_def collected_ok_def waits_list_def)
    moreover have "?rs ! i = info_res (infos ! i)" using i by (simp add: nth_append)
    moreover have "?rs ! Suc i = info_res (infos ! (Suc i mod length infos))"
    proof (cases "Suc i = length infos")
      case True
      with k show ?thesis by (auto simp: nth_append kill_ok_def collected_ok_def hd_conv_nth)
    next
      case False
      with i show ?thesis by (simp add: nth_append)
    qed
    ultimately show ?thesis by simp
  qed
  with k show ?thesis by (auto simp: kill_ok_def collected_ok_def)
qed

end
