(* ===== verification/Lcl_Termination.thy ===== *)
theory Lcl_Termination
  imports Lcl_Safety
begin

text \<open>
  The collection of report infos comes to an end. A message that collects infos is answered by a
  message to every resource its receiver waits for, so that one detection can flood the graph of
  waits; but a detector never handles a message that has passed it, and each message names one
  detector more than the one it answers.
\<close>

subsection \<open>Floods\<close>

text \<open>
  A step takes one pending message and adds messages of smaller weight. However many it adds, no
  run of such steps is infinite.
\<close>

locale flood =
  fixes deliver :: "'s \<Rightarrow> 's \<Rightarrow> bool"
    and good :: "'s \<Rightarrow> bool"
    and pending :: "'s \<Rightarrow> 'm multiset"
    and weight :: "'s \<Rightarrow> 'm \<Rightarrow> nat"
  assumes good_kept: "good s \<Longrightarrow> deliver s s' \<Longrightarrow> good s'"
    and weight_kept: "good s \<Longrightarrow> deliver s s' \<Longrightarrow> weight s' = weight s"
    and takes_one: "good s \<Longrightarrow> deliver s s' \<Longrightarrow>
      \<exists>x K. x \<in># pending s \<and> pending s' = pending s - {#x#} + K \<and> (\<forall>y \<in># K. weight s y < weight s x)"
begin

definition load :: "'s \<Rightarrow> nat multiset" where
  "load s = image_mset (weight s) (pending s)"

lemma load_falls:
  assumes "good s" "deliver s s'"
  shows "(load s', load s) \<in> mult less_than"
proof -
  obtain x K where x: "x \<in># pending s" "pending s' = pending s - {#x#} + K" "\<forall>y \<in># K. weight s y < weight s x"
    using takes_one [OF assms] by blast
  let ?I = "image_mset (weight s) (pending s - {#x#})"
  have s: "load s = ?I + {#weight s x#}"
    using x(1) unfolding load_def by (metis add_mset_add_single image_mset_add_mset insert_DiffM)
  have s': "load s' = ?I + image_mset (weight s) K"
    using x(2) weight_kept [OF assms] unfolding load_def by simp
  show ?thesis
    unfolding s s' by (rule one_step_implies_mult) (use x(3) in auto)
qed

lemma flood_good_run:
  assumes "good (tr 0)" "\<And>i. deliver (tr i) (tr (Suc i))"
  shows "good (tr i)"
  by (induction i) (use assms good_kept in blast)+

lemma flood_ends:
  assumes "good s"
  shows "\<not> (\<exists>tr. tr 0 = s \<and> (\<forall>i. deliver (tr i) (tr (Suc i))))"
proof
  assume "\<exists>tr. tr 0 = s \<and> (\<forall>i. deliver (tr i) (tr (Suc i)))"
  then obtain tr where tr: "tr 0 = s" "\<And>i. deliver (tr i) (tr (Suc i))" by blast
  have "good (tr i)" for i by (rule flood_good_run) (use assms tr in auto)
  then have "\<forall>i. (load (tr (Suc i)), load (tr i)) \<in> mult less_than" using load_falls tr(2) by blast
  moreover have "wf (mult less_than)" by (rule wf_mult) (rule wf_less_than)
  then have "\<nexists>f. \<forall>i. (f (Suc i), f i) \<in> mult less_than" unfolding wf_iff_no_infinite_down_chain .
  ultimately show False by (elim notE) (rule exI [of _ "\<lambda>i. load (tr i)"])
qed

end

subsection \<open>The flood of a collection\<close>

inductive collect_deliver :: "lcl_sys \<Rightarrow> lcl_sys \<Rightarrow> bool" where
  deliver: "(en_self_addr E, m) \<in># sy_collect s \<Longrightarrow> collect_deliver s (after_lcl_call E (OpCollect m) s)"
| lose: "x \<in># sy_collect s \<Longrightarrow> collect_deliver s (s\<lparr>sy_collect := sy_collect s - {#x#}\<rparr>)"

text \<open>The detectors that a message may still name.\<close>

definition unnamed :: "lcl_sys \<Rightarrow> ObAddr \<times> ObDeadLockCollectInfoMessage \<Rightarrow> nat" where
  "unnamed s x = card ({(a, i). \<exists>k. (a, i, k) \<in> sy_born s} - info_no ` set (cm_collected_info (snd x)))"

definition known_detectors :: "lcl_sys \<Rightarrow> bool" where
  "known_detectors s \<longleftrightarrow> finite (sy_born s) \<and> (\<forall>a. born_now a (sy_mgr s a) \<subseteq> sy_born s)"

lemma deal_outs_collect:
  "\<forall>out \<in> set outs. collect_out E infos n out \<Longrightarrow> deal_outs E outs g = (g, outs)"
proof (induction outs)
  case (Cons out outs)
  then have "deal_outs E outs g = (g, outs)" "collect_out E infos n out" by auto
  then show ?case by (auto simp: collect_out_def)
qed simp

text \<open>Handling such a message changes no label and creates no detector.\<close>

lemma collect_call:
  assumes "lcl_call E (OpCollect m) g = (g', msgs, outs)"
  shows "born_now a g' = born_now a g"
    and "PostCollect b m' \<in> set outs \<Longrightarrow> \<exists>n i. detector_map g (cm_dest_key m) = Some n \<and> own_info E n i
      \<and> cm_collected_info m' = cm_collected_info m @ [i] \<and> info_no i \<notin> info_no ` set (cm_collected_info m)"
proof -
  let ?k = "cm_dest_key m"
  obtain r1 g1 o1 where c: "check_and_report_cycle E m g = (r1, g1, o1)"
    by (cases "check_and_report_cycle E m g") auto
  have g1: "detector_map g1 = detector_map g" "\<forall>out \<in> set o1. \<exists>infos. out = InsertAll infos"
    using c by (auto simp: check_and_report_cycle_def split: list.splits if_splits prod.splits)
  consider "g' = g" "outs = []" | "g' = g1" "outs = o1"
    | n ret n1 outs1 where "detector_map g ?k = Some n" "node_process_collect_info_message E m n = (ret, n1, outs1)"
        "deal_outs E outs1 (put_detector ?k (Some n1) g1) = (g', drop (length o1) outs)"
        "outs = o1 @ drop (length o1) outs"
    using assms g1(1)
    by (auto simp: mgr_process_collect_info_message_def get_detector_def c
        split: prod.splits if_splits option.splits)
  then have "born_now a g' = born_now a g \<and> (PostCollect b m' \<in> set outs \<longrightarrow>
      (\<exists>n i. detector_map g ?k = Some n \<and> own_info E n i
      \<and> cm_collected_info m' = cm_collected_info m @ [i] \<and> info_no i \<notin> info_no ` set (cm_collected_info m)))"
  proof cases
    case 1 then show ?thesis by simp
  next
    case 2 then show ?thesis using g1 by (auto simp: born_now_def)
  next
    case 3
    note o = node_collect_outs [OF 3(2)]
    from 3(3) deal_outs_collect [OF o(2)] have g': "g' = put_detector ?k (Some n1) g1" "drop (length o1) outs = outs1"
      by auto
    have "born_now a g' = born_now a g"
      using 3(1) o(1) g1(1) unfolding g' born_now_def same_labels_def
      by (auto split: if_splits) (metis option.inject)+
    moreover have "\<exists>n i. detector_map g ?k = Some n \<and> own_info E n i
        \<and> cm_collected_info m' = cm_collected_info m @ [i] \<and> info_no i \<notin> info_no ` set (cm_collected_info m)"
      if post: "PostCollect b m' \<in> set outs"
    proof -
      have "set outs = set o1 \<union> set outs1" using 3(4) g'(2) by (metis set_append)
      with post g1(2) have "PostCollect b m' \<in> set outs1" by auto
      then have "collect_out E (cm_collected_info m) n (PostCollect b m')" using o(2) by blast
      then show ?thesis using 3(1) by (auto simp: collect_out_def own_info_def)
    qed
    ultimately show ?thesis by blast
  qed
  then show "born_now a g' = born_now a g"
    and "PostCollect b m' \<in> set outs \<Longrightarrow> \<exists>n i. detector_map g ?k = Some n \<and> own_info E n i
      \<and> cm_collected_info m' = cm_collected_info m @ [i] \<and> info_no i \<notin> info_no ` set (cm_collected_info m)" by blast+
qed

lemma collect_deliver_flood:
  assumes "known_detectors s" "collect_deliver s s'"
  shows "sy_born s' = sy_born s" "known_detectors s'"
    "\<exists>x K. x \<in># sy_collect s \<and> sy_collect s' = sy_collect s - {#x#} + K \<and> (\<forall>y \<in># K. unnamed s y < unnamed s x)"
proof -
  have "sy_born s' = sy_born s \<and> known_detectors s' \<and> (\<exists>x K. x \<in># sy_collect s
      \<and> sy_collect s' = sy_collect s - {#x#} + K \<and> (\<forall>y \<in># K. unnamed s y < unnamed s x))"
    using assms(2)
  proof cases
    case (lose x)
    have "sy_collect s' = sy_collect s - {#x#} + {#}" "\<forall>y \<in># {#}. unnamed s y < unnamed s x"
      using lose(1) by simp_all
    moreover have "sy_born s' = sy_born s" "known_detectors s'" using assms(1) lose(1) by (simp_all add: known_detectors_def)
    ultimately show ?thesis using lose(2) by blast
  next
    case (deliver E m)
    let ?a = "en_self_addr E"
    obtain g' msgs outs where l: "lcl_call E (OpCollect m) (sy_mgr s ?a) = (g', msgs, outs)"
      by (cases "lcl_call E (OpCollect m) (sy_mgr s ?a)") auto
    note c = collect_call [OF l]
    have born: "born_now ?a (sy_mgr s ?a) \<subseteq> sy_born s" using assms(1) by (simp add: known_detectors_def)
    have s': "sy_born s' = sy_born s" "sy_mgr s' = (sy_mgr s)(?a := g')"
        "sy_collect s' = sy_collect s - {#(?a, m)#} + mset (posted outs)"
      using deliver(1) l c(1) born by (auto simp: after_lcl_call_def taken_def Let_def simp del: lcl_call.simps)
    have "unnamed s (b, m') < unnamed s (?a, m)" if "(b, m') \<in> set (posted outs)" for b m'
    proof -
      let ?names = "{(a, i). \<exists>k. (a, i, k) \<in> sy_born s}"
      have "PostCollect b m' \<in> set outs" using that posted_iff by blast
      from c(2) [OF this] obtain n i where i: "detector_map (sy_mgr s ?a) (cm_dest_key m) = Some n" "own_info E n i"
          "cm_collected_info m' = cm_collected_info m @ [i]" "info_no i \<notin> info_no ` set (cm_collected_info m)"
        by blast
      have "(en_self_addr E, label_id (private_label n), cm_dest_key m) \<in> sy_born s"
        using i(1) born unfolding born_now_def by blast
      then have name: "info_no i \<in> ?names - info_no ` set (cm_collected_info m)"
        using i(2,4) by (auto simp: own_info_def)
      have "?names = (\<lambda>(a, i, k). (a, i)) ` sy_born s" by (force simp: image_iff)
      then have "finite ?names" using assms(1) by (simp add: known_detectors_def)
      then have fin: "finite (?names - info_no ` set (cm_collected_info m))" by blast
      have "?names - info_no ` set (cm_collected_info m') = ?names - info_no ` set (cm_collected_info m) - {info_no i}"
        by (auto simp: i(3))
      with card_Diff1_less [OF fin name] show ?thesis by (simp add: unnamed_def)
    qed
    then have "\<forall>y \<in># mset (posted outs). unnamed s y < unnamed s (?a, m)" by auto
    moreover have "known_detectors s'" using assms(1) s'(1,2) c(1) by (simp add: known_detectors_def)
    ultimately show ?thesis using s' deliver(2) by blast
  qed
  then show "sy_born s' = sy_born s" "known_detectors s'"
    "\<exists>x K. x \<in># sy_collect s \<and> sy_collect s' = sy_collect s - {#x#} + K \<and> (\<forall>y \<in># K. unnamed s y < unnamed s x)"
    by blast+
qed

interpretation collecting: flood collect_deliver known_detectors sy_collect unnamed
proof unfold_locales
  fix s s' assume s: "known_detectors s" "collect_deliver s s'"
  note f = collect_deliver_flood [OF s]
  show "known_detectors s'" by (rule f(2))
  show "unnamed s' = unnamed s" using f(1) by (simp add: unnamed_def fun_eq_iff)
  show "\<exists>x K. x \<in># sy_collect s \<and> sy_collect s' = sy_collect s - {#x#} + K \<and> (\<forall>y \<in># K. unnamed s y < unnamed s x)"
    by (rule f(3))
qed

lemma reachable_known: "lcl_reachable s \<Longrightarrow> known_detectors s"
proof (induction rule: lcl_reachable.induct)
  case (start s)
  then show ?case by (auto simp: lcl_init_def fresh_mgr_def known_detectors_def born_now_def)
next
  case (step s s')
  have inv: "lcl_inv s" "lcl_inv s'" using step lcl_reachable_inv lcl_reachable.step by blast+
  have "finite (sy_born s')"
    using step(2)
  proof cases
    case (call E op)
    obtain g' msgs outs where l: "lcl_call E op (sy_mgr s (en_self_addr E)) = (g', msgs, outs)"
      by (cases "lcl_call E op (sy_mgr s (en_self_addr E))") auto
    note c = call_effects [OF inv(1) call(3) refl l]
    have "born_now a g' \<subseteq> (\<lambda>k. (a, label_id (private_label (the (detector_map g' k))), k)) ` dom (detector_map g')" for a
    proof
      fix x assume "x \<in> born_now a g'"
      then obtain k n where x: "x = (a, label_id (private_label n), k)" "detector_map g' k = Some n"
        unfolding born_now_def by blast
      show "x \<in> (\<lambda>k. (a, label_id (private_label (the (detector_map g' k))), k)) ` dom (detector_map g')"
        by (rule image_eqI [of _ _ k]) (use x in auto)
    qed
    moreover have "finite (dom (detector_map g'))" using c(1) by (simp add: mgr_wf_def)
    ultimately have "finite (born_now a g')" for a by (meson finite_imageI finite_subset)
    then show ?thesis using step.IH c(6) call(1) by (simp add: known_detectors_def)
  qed (use step.IH in \<open>simp_all add: known_detectors_def\<close>)
  then show ?case using inv(2) by (simp add: known_detectors_def lcl_inv_def born_inv_def)
qed

text \<open>C19: From any state that the detectors of a cluster can reach, handling and losing the messages
  that collect report infos cannot go on for ever: there is no infinite run of such steps,
  whatever waits the detectors have and whatever the callbacks answer.
\<close>

theorem collection_ends:
  assumes "lcl_reachable s"
  shows "\<not> (\<exists>tr. tr 0 = s \<and> (\<forall>i. collect_deliver (tr i) (tr (Suc i))))"
  by (rule collecting.flood_ends [OF reachable_known [OF assms]])

end
