(* ===== verification/Lcl_Ring.thy ===== *)
theory Lcl_Ring
  imports Lcl_System
begin

text \<open>
  A deadlock is found and broken. The detectors of a ring of resources, each waiting for the next,
  run their timers in the second phase of a period. Once every detector has pushed its state
  often enough, in any order, the detector with the smallest label finds its own label and starts
  to collect; and the message it sends comes back to it with the infos of the whole ring, on
  which it calls its detect callback.
\<close>

subsection \<open>Spreading along a ring\<close>

text \<open>
  A condition on positions that no step destroys and that a step at a position hands to the next
  one holds everywhere after as many rounds as there are further positions.
\<close>

locale ring_spread =
  fixes n :: nat
    and move :: "'s \<Rightarrow> 'e \<Rightarrow> 's"
    and src :: "'e \<Rightarrow> nat"
    and allowed :: "'e \<Rightarrow> bool"
    and ok :: "'s \<Rightarrow> bool"
    and good :: "'s \<Rightarrow> nat \<Rightarrow> bool"
  assumes ok_kept: "allowed e \<Longrightarrow> ok s \<Longrightarrow> ok (move s e)"
    and good_kept: "allowed e \<Longrightarrow> ok s \<Longrightarrow> i < n \<Longrightarrow> good s i \<Longrightarrow> good (move s e) i"
    and good_next: "allowed e \<Longrightarrow> ok s \<Longrightarrow> good s (src e) \<Longrightarrow> good (move s e) (Suc (src e) mod n)"
begin

definition covers :: "'e list \<Rightarrow> bool" where
  "covers es \<longleftrightarrow> (\<forall>e \<in> set es. allowed e) \<and> {..<n} \<subseteq> src ` set es"

lemma ok_run: "\<forall>e \<in> set es. allowed e \<Longrightarrow> ok s \<Longrightarrow> ok (foldl move s es)"
  by (induction es arbitrary: s) (auto simp: ok_kept)

lemma good_run:
  "\<forall>e \<in> set es. allowed e \<Longrightarrow> ok s \<Longrightarrow> i < n \<Longrightarrow> good s i \<Longrightarrow> good (foldl move s es) i"
  by (induction es arbitrary: s) (auto simp: ok_kept good_kept)

lemma good_next_run:
  assumes "covers es" "ok s" "i < n" "good s i"
  shows "good (foldl move s es) (Suc i mod n)"
proof -
  from assms(1,3) obtain e where e: "e \<in> set es" "src e = i" by (auto simp: covers_def)
  then obtain xs ys where es: "es = xs @ e # ys" by (auto simp: in_set_conv_decomp)
  have al: "\<forall>x \<in> set xs. allowed x" "allowed e" "\<forall>x \<in> set ys. allowed x"
    using assms(1) by (auto simp: covers_def es)
  let ?s = "foldl move s xs"
  have s: "ok ?s" "good ?s i" using al assms(2-4) ok_run good_run by auto
  have "good (move ?s e) (Suc i mod n)" using good_next [OF al(2) s(1)] s(2) e(2) by simp
  then have "good (foldl move (move ?s e) ys) (Suc i mod n)"
    using good_run [OF al(3) ok_kept [OF al(2) s(1)]] assms(3) by simp
  then show ?thesis by (simp add: es)
qed

lemma good_after:
  assumes "\<forall>es \<in> set segs. covers es" "ok s" "i < n" "good s i" "d \<le> length segs"
  shows "good (foldl move s (concat segs)) ((i + d) mod n)"
  using assms
proof (induction segs arbitrary: s i d)
  case (Cons es segs)
  have al: "\<forall>e \<in> set es. allowed e" and cov: "covers es" using Cons.prems(1) by (auto simp: covers_def)
  let ?s = "foldl move s es"
  have ok: "ok ?s" using ok_run [OF al Cons.prems(2)] .
  show ?case
  proof (cases d)
    case 0
    then have "good (foldl move ?s (concat segs)) ((i + 0) mod n)"
      using Cons.prems good_run [OF al Cons.prems(2-4)] ok by (intro Cons.IH) auto
    with 0 show ?thesis by simp
  next
    case (Suc d')
    have "good (foldl move ?s (concat segs)) ((Suc i mod n + d') mod n)"
      using Cons.prems Suc good_next_run [OF cov Cons.prems(2-4)] ok by (intro Cons.IH) auto
    with Suc show ?thesis by (simp add: mod_simps)
  qed
qed simp

lemma good_everywhere:
  assumes "\<forall>es \<in> set segs. covers es" "ok s" "i < n" "good s i" "n - 1 \<le> length segs" "j < n"
  shows "good (foldl move s (concat segs)) j"
proof -
  let ?d = "(j + n - i) mod n"
  have "?d \<le> length segs" using assms(3,5) by (metis Suc_diff_1 le_less_trans less_Suc_eq_le
        gr_implies_not0 mod_less_divisor neq0_conv order.trans)
  from good_after [OF assms(1-4) this] have "good (foldl move s (concat segs)) ((i + ?d) mod n)" .
  moreover have "(i + ?d) mod n = j" using assms(3,6) by (simp add: mod_simps)
  ultimately show ?thesis by simp
qed

end

subsection \<open>The ring\<close>

definition in_ring :: "ObDependencyResource list \<Rightarrow> (nat \<Rightarrow> ObLCLLabel) \<Rightarrow> int \<Rightarrow> nat \<Rightarrow> ObLCLNode \<Rightarrow> bool" where
  "in_ring rs L per i nd \<longleftrightarrow> self_key nd = res_key (rs ! i) \<and> private_label nd = L i
     \<and> label_addr (L i) = res_addr (rs ! i) \<and> block_list nd = [rs ! (Suc i mod length rs)]
     \<and> block_callback_list nd = [] \<and> count_down_allow_detect nd = 0 \<and> lcl_period nd = per
     \<and> timeout_ts nd = 0 \<and> \<not> is_timer_task_canceled nd"

text \<open>
  What a handler finds while the ring is observed: callbacks and a network that work and, for the
  handlers of timers and label messages, the second phase \<open>ph\<close> of the period \<open>per\<close>.
\<close>

definition collect_env :: "ObAddr \<Rightarrow> lcl_env \<Rightarrow> bool" where
  "collect_env a E \<longleftrightarrow> en_self_addr E = a
     \<and> fst (en_collect_callback E) = OB_SUCCESS \<and> user_report_is_valid (snd (en_collect_callback E))
     \<and> (\<forall>b m. en_post_collect E b m = OB_SUCCESS)"

definition ring_env :: "int \<Rightarrow> int \<Rightarrow> ObAddr \<Rightarrow> lcl_env \<Rightarrow> bool" where
  "ring_env ph per a E \<longleftrightarrow> collect_env a E \<and> en_clock E sdiv PHASE_TIME = ph \<and> ph smod 2 \<noteq> 0
     \<and> en_real_clock E sdiv PHASE_TIME = ph \<and> en_real_clock E sdiv PERIOD = per"

fun cached_for :: "ObDependencyResource \<Rightarrow> lcl_out list \<Rightarrow> ObLCLMessage option" where
  "cached_for r [] = None"
| "cached_for r (CacheMsg r' m # outs) = (if r' = r then Some m else cached_for r outs)"
| "cached_for r (out # outs) = cached_for r outs"

text \<open>
  A step of the ring: the timer task of position \<open>i\<close>, and the message it has for the next position
  handled there.
\<close>

definition ring_step ::
  "ObDependencyResource list \<Rightarrow> (nat \<Rightarrow> ObLCLNode) \<times> lcl_out list \<Rightarrow> nat \<times> lcl_env \<times> lcl_env \<Rightarrow>
   (nat \<Rightarrow> ObLCLNode) \<times> lcl_out list" where
  "ring_step rs s e = (case (s, e) of ((nodes, outs), (i, Ep, Er)) \<Rightarrow>
     let j = Suc i mod length rs in
     case run_timer_task Ep (nodes i) of (_, ni, outs1) \<Rightarrow>
       let nodes1 = nodes(i := ni) in
       case cached_for (rs ! j) outs1 of
         None \<Rightarrow> (nodes1, outs)
       | Some m \<Rightarrow> (case node_process_lcl_message Er m (nodes1 j) of
           (_, nj, outs2) \<Rightarrow> (nodes1(j := nj), outs @ outs2)))"

definition ring_allowed :: "ObDependencyResource list \<Rightarrow> int \<Rightarrow> int \<Rightarrow> nat \<times> lcl_env \<times> lcl_env \<Rightarrow> bool" where
  "ring_allowed rs ph per e \<longleftrightarrow> (case e of (i, Ep, Er) \<Rightarrow> i < length rs
     \<and> ring_env ph per (res_addr (rs ! i)) Ep \<and> ring_env ph per (res_addr (rs ! (Suc i mod length rs))) Er)"

subsection \<open>What the handlers do in the ring\<close>

lemma snapshot_no_callbacks:
  "block_callback_list n = [] \<Longrightarrow> get_state_snapshot E n = (block_list n, node_lclv n, public_label n, n)"
  by (simp add: get_state_snapshot_def remove_unuseful_callback_def)

lemma ring_period:
  assumes "in_ring rs L per i nd" "ring_env ph per a E"
  shows "update_lcl_period_if_necessary E nd = (nd, [])"
  using assms by (simp add: update_lcl_period_if_necessary_def in_ring_def ring_env_def Let_def)

definition ring_same :: "ObLCLNode \<Rightarrow> ObLCLNode \<Rightarrow> bool" where
  "ring_same n n' \<longleftrightarrow> node_lclv n' = node_lclv n \<and> public_label n' = public_label n
     \<and> last_send_collect_info_period n' = last_send_collect_info_period n"

lemma ring_timer:
  assumes "in_ring rs L per i nd" "ring_env ph per a E" "run_timer_task E nd = (ret, nd', outs)"
  shows "in_ring rs L per i nd'" "ring_same nd nd'"
    "\<exists>m. cached_for (rs ! (Suc i mod length rs)) outs = Some m \<and> lm_lclv m = node_lclv nd
       \<and> lm_label m = public_label nd \<and> lm_send_ts m = en_real_clock E"
proof -
  obtain r2 n2 o2 where 2: "push_state_to_downstreams E nd = (r2, n2, o2)"
    by (cases "push_state_to_downstreams E nd") auto
  obtain r3 n3 where 3: "register_timer E n2 = (r3, n3)" by (cases "register_timer E n2")
  have res: "nd' = n3" "outs = o2"
    using assms(1,3) by (auto simp: run_timer_task_def ring_period [OF assms(1,2)] 2 3 in_ring_def)
  let ?m = "snd (lm_set_args (res_addr (rs ! (Suc i mod length rs))) (res_key (rs ! (Suc i mod length rs)))
      (en_self_addr E) (self_key nd) (node_lclv nd) (public_label nd) (en_real_clock E))"
  have cb: "block_callback_list nd = []" "count_down_allow_detect nd = 0"
      "block_list nd = [rs ! (Suc i mod length rs)]" using assms(1) by (auto simp: in_ring_def)
  have n2: "n2 = nd \<or> n2 = nd\<lparr>last_report_waiting_for_period := lcl_period nd\<rparr>"
      and o2: "\<exists>rest. o2 = CacheMsg (rs ! (Suc i mod length rs)) ?m # rest"
    using 2 cb by (auto simp: push_state_to_downstreams_def snapshot_no_callbacks node_broadcast_def Let_def
        split: if_splits prod.splits)
  have n3: "n3 = n2 \<or> (\<exists>t. n3 = n2\<lparr>expected_executed_ts := t\<rparr>)"
    using 3 by (auto simp: register_timer_def split: option.splits prod.splits if_splits)
  show "in_ring rs L per i nd'" using assms(1) n2 n3 res by (auto simp: in_ring_def)
  show "ring_same nd nd'" using n2 n3 res by (auto simp: ring_same_def)
  show "\<exists>m. cached_for (rs ! (Suc i mod length rs)) outs = Some m \<and> lm_lclv m = node_lclv nd
       \<and> lm_label m = public_label nd \<and> lm_send_ts m = en_real_clock E"
    using o2 res by (auto simp: lm_set_args_def)
qed

text \<open>A node that starts or continues a collection sends one message to the next position.\<close>

lemma ring_append:
  assumes "collect_env a E"
  shows "\<exists>i m'. append_report_info_to_msg E m ev nd = (OB_SUCCESS, m') \<and> own_info E nd i
    \<and> cm_collected_info m' = cm_collected_info m @ [i]"
proof -
  obtain u where u: "en_collect_callback E = (OB_SUCCESS, u)" "user_report_is_valid u"
    using assms by (cases "en_collect_callback E") (auto simp: collect_env_def)
  have ap: "\<exists>m'. append_report_info_to_msg E m ev nd = (OB_SUCCESS, m')"
    using u by (auto simp: append_report_info_to_msg_def info_set_args_def check_and_assign_ptr_def ROLE_VICTIM_def
        ROLE_WITNESS_def STR_LEN_LIMIT_def)
  then show ?thesis using append_report_info_own by metis
qed

definition ring_post :: "ObDependencyResource \<Rightarrow> ObDetectorInnerReportInfo list \<Rightarrow> lcl_out \<Rightarrow> bool" where
  "ring_post r infos out \<longleftrightarrow> (\<exists>m. out = PostCollect (res_addr r) m \<and> cm_dest_key m = res_key r \<and> cm_collected_info m = infos)"

lemma ring_collect_forward:
  assumes "in_ring rs L per j nd" "collect_env (res_addr (rs ! j)) E" "res_is_valid (rs ! (Suc j mod length rs))"
    "(en_self_addr E, label_id (L j)) \<notin> info_no ` set (cm_collected_info m)"
    "node_process_collect_info_message E m nd = (ret, nd', outs)"
  shows "nd' = nd" "\<exists>i out. own_info E nd i \<and> outs = [out] \<and> ring_post (rs ! (Suc j mod length rs)) (cm_collected_info m @ [i]) out"
proof -
  let ?r = "rs ! (Suc j mod length rs)" and ?infos = "cm_collected_info m"
  have nd: "private_label nd = L j" "block_list nd = [?r]" "block_callback_list nd = []"
    using assms(1) by (auto simp: in_ring_def)
  have not_first: "check_and_process_completely_collected_msg E ?infos nd = (OB_EAGAIN, nd, [])"
    using assms(4) nd by (auto simp: check_and_process_completely_collected_msg_def info_no_def)
      (metis (mono_tags, lifting) image_eqI info_no_def length_greater_0_conv nth_mem)+
  have no_loop: "\<not> check_dead_loop E ?infos nd"
    using assms(4) nd by (auto simp: check_dead_loop_def list_ex_iff info_no_def image_iff)
  obtain i m' where i: "append_report_info_to_msg E m (generate_event_id E ?infos nd) nd = (OB_SUCCESS, m')"
      "own_info E nd i" "cm_collected_info m' = ?infos @ [i]"
    using ring_append [OF assms(2)] by metis
  let ?m1 = "cm_set_dest_key (res_key ?r) m'"
  have "post_collect_info_message E (res_addr ?r) ?m1 = OB_SUCCESS"
    using assms(2,3)
    by (simp add: post_collect_info_message_def cm_is_valid_def cm_set_dest_key_def res_is_valid_def collect_env_def)
  then have res: "nd' = nd \<and> outs = [PostCollect (res_addr ?r) ?m1]"
    using assms(5) i(1) no_loop
    by (simp add: node_process_collect_info_message_def not_first broadcast_collect_info_def
        snapshot_no_callbacks [OF nd(3)] nd(2) Let_def)
  then show "nd' = nd" by simp
  show "\<exists>i out. own_info E nd i \<and> outs = [out] \<and> ring_post ?r (?infos @ [i]) out"
    using res i(2,3) by (auto simp: ring_post_def cm_set_dest_key_def)
qed

text \<open>What a label message does at a position of the ring.\<close>

definition ring_took :: "ObLCLLabel \<Rightarrow> u64 \<Rightarrow> ObLCLLabel \<Rightarrow> int \<Rightarrow> ObLCLNode \<Rightarrow> ObLCLNode \<Rightarrow> bool" where
  "ring_took own v l per nd nd' \<longleftrightarrow>
     (if v < node_lclv nd then ring_same nd nd'
      else node_lclv nd' = v
        \<and> (if l = own then public_label nd' = public_label nd \<and> last_send_collect_info_period nd' = per
           else public_label nd' = min l (public_label nd)
             \<and> last_send_collect_info_period nd' = last_send_collect_info_period nd))"

lemma ring_took_same:
  assumes "ring_took own v l per nd1 nd'" "ring_same nd nd1"
  shows "ring_took own v l per nd nd'"
  using assms by (auto simp: ring_took_def ring_same_def split: if_splits)

lemma ring_receive:
  assumes ring: "in_ring rs L per j nd" and env: "ring_env ph per (res_addr (rs ! j)) E"
    and valid: "res_is_valid (rs ! (Suc j mod length rs))" and ts: "lm_send_ts m sdiv PHASE_TIME = ph"
    and p: "node_process_lcl_message E m nd = (ret, nd', outs)"
  shows "in_ring rs L per j nd'" "ring_took (L j) (lm_lclv m) (lm_label m) per nd nd'"
    "lm_lclv m \<ge> node_lclv nd \<Longrightarrow> lm_label m = L j \<Longrightarrow> last_send_collect_info_period nd \<noteq> per \<Longrightarrow>
       \<exists>i out. own_info E nd i \<and> out \<in> set outs \<and> ring_post (rs ! (Suc j mod length rs)) [i] out"
proof -
  obtain r2 d n2 where 2: "process_msg_as_lcls_msg m nd = (r2, d, n2)" by (cases "process_msg_as_lcls_msg m nd") auto
  have fields: "private_label nd = L j" "lcl_period nd = per" using ring by (auto simp: in_ring_def)
  have ring2: "in_ring rs L per j n2" and took: "ring_took (L j) (lm_lclv m) (lm_label m) per nd n2"
    and d: "d \<longleftrightarrow> lm_lclv m \<ge> node_lclv nd \<and> lm_label m = L j \<and> last_send_collect_info_period nd \<noteq> per"
    using 2 ring fields
    by (auto simp: process_msg_as_lcls_msg_def in_ring_def ring_took_def ring_same_def Let_def min_def
        split: if_splits)
  have cb: "block_callback_list n2 = []" using ring2 by (simp add: in_ring_def)
  let ?cm = "\<lparr>cm_dest_key = self_key n2, cm_collected_info = []\<rparr>"
  obtain r3 n3 o3 where 3: "node_process_collect_info_message E ?cm n2 = (r3, n3, o3)"
    by (cases "node_process_collect_info_message E ?cm n2") auto
  have cenv: "collect_env (res_addr (rs ! j)) E" using env by (simp add: ring_env_def)
  have fwd: "n3 = n2" "\<exists>i out. own_info E n2 i \<and> o3 = [out] \<and> ring_post (rs ! (Suc j mod length rs)) [i] out"
    using ring_collect_forward [OF ring2 cenv valid _ 3] by auto
  have "node_process_lcl_message E m nd = (if d then (OB_SUCCESS, n3, o3) else (OB_SUCCESS, n2, []))"
    using env ts 3
    by (simp add: node_process_lcl_message_def ring_period [OF ring env] if_phase_match_def ring_env_def 2
        snapshot_no_callbacks [OF cb])
  then have res: "nd' = n2" "d \<Longrightarrow> outs = o3" using p fwd(1) by (auto split: if_splits)
  show "in_ring rs L per j nd'" "ring_took (L j) (lm_lclv m) (lm_label m) per nd nd'" using ring2 took res by simp_all
  assume "lm_lclv m \<ge> node_lclv nd" "lm_label m = L j" "last_send_collect_info_period nd \<noteq> per"
  with d fwd(2) res ring ring2
  show "\<exists>i out. own_info E nd i \<and> out \<in> set outs \<and> ring_post (rs ! (Suc j mod length rs)) [i] out"
    by (fastforce simp: own_info_def in_ring_def)
qed

subsection \<open>Steps of the ring\<close>

definition ring_ok :: "ObDependencyResource list \<Rightarrow> (nat \<Rightarrow> ObLCLLabel) \<Rightarrow> int \<Rightarrow> (nat \<Rightarrow> ObLCLNode) \<times> lcl_out list \<Rightarrow> bool" where
  "ring_ok rs L per s \<longleftrightarrow> (\<forall>i < length rs. in_ring rs L per i (fst s i)) \<and> (\<forall>r \<in> set rs. res_is_valid r)"

definition own_start :: "ObDependencyResource \<Rightarrow> ObLCLLabel \<Rightarrow> ObDetectorInnerReportInfo \<Rightarrow> bool" where
  "own_start r l i \<longleftrightarrow> info_res i = r \<and> info_no i = (res_addr r, label_id l) \<and> info_priority i = label_priority l"

lemma ring_step_effect:
  assumes ok: "ring_ok rs L per s" and allowed: "ring_allowed rs ph per e" and i: "i = fst e" and j: "j = Suc i mod length rs"
  shows "ring_ok rs L per (ring_step rs s e)"
    "\<forall>k < length rs. k \<noteq> j \<longrightarrow> ring_same (fst s k) (fst (ring_step rs s e) k)"
    "ring_took (L j) (node_lclv (fst s i)) (public_label (fst s i)) per (fst s j) (fst (ring_step rs s e) j)"
    "set (snd s) \<subseteq> set (snd (ring_step rs s e))"
    "node_lclv (fst s i) \<ge> node_lclv (fst s j) \<Longrightarrow> public_label (fst s i) = L j \<Longrightarrow>
       last_send_collect_info_period (fst s j) \<noteq> per \<Longrightarrow>
       \<exists>inf. \<exists>out \<in> set (snd (ring_step rs s e)). own_start (rs ! j) (L j) inf \<and> ring_post (rs ! (Suc j mod length rs)) [inf] out"
proof -
  obtain nodes outs where s: "s = (nodes, outs)" by (cases s)
  obtain Ep Er where e: "e = (i, Ep, Er)" using i by (cases e) auto
  let ?n = "length rs"
  have al: "i < ?n" "ring_env ph per (res_addr (rs ! i)) Ep" "ring_env ph per (res_addr (rs ! j)) Er"
    using allowed j by (auto simp: ring_allowed_def e)
  then have "0 < ?n" by (metis gr_implies_not0 not_gr_zero)
  then have jn: "j < ?n" "Suc j mod ?n < ?n" using j by simp_all
  have valid: "res_is_valid (rs ! (Suc j mod ?n))" using ok jn by (auto simp: ring_ok_def)
  have ri: "in_ring rs L per i (nodes i)" using ok al(1) by (simp add: ring_ok_def s)
  obtain r1 ni o1 where 1: "run_timer_task Ep (nodes i) = (r1, ni, o1)" by (cases "run_timer_task Ep (nodes i)") auto
  note t = ring_timer [OF ri al(2) 1]
  obtain m where m: "cached_for (rs ! j) o1 = Some m" "lm_lclv m = node_lclv (nodes i)"
      "lm_label m = public_label (nodes i)" "lm_send_ts m = en_real_clock Ep" using t(3) j by auto
  let ?nodes1 = "nodes(i := ni)"
  have view: "ring_same (nodes k) (?nodes1 k)" for k using t(2) by (simp add: ring_same_def)
  have rj: "in_ring rs L per j (?nodes1 j)" using ok jn(1) t(1) by (auto simp: ring_ok_def s)
  have ts: "lm_send_ts m sdiv PHASE_TIME = ph" using m(4) al(2) by (simp add: ring_env_def)
  obtain r2 nj o2 where 2: "node_process_lcl_message Er m (?nodes1 j) = (r2, nj, o2)"
    by (cases "node_process_lcl_message Er m (?nodes1 j)") auto
  note r = ring_receive [OF rj al(3) valid ts 2]
  have step: "ring_step rs s e = (?nodes1(j := nj), outs @ o2)"
    using 1 m(1) 2 by (simp add: ring_step_def s e j Let_def)
  show "ring_ok rs L per (ring_step rs s e)"
    unfolding step using ok t(1) r(1) by (simp add: ring_ok_def s)
  show "\<forall>k < length rs. k \<noteq> j \<longrightarrow> ring_same (fst s k) (fst (ring_step rs s e) k)"
    unfolding step using view by (simp add: s)
  show "ring_took (L j) (node_lclv (fst s i)) (public_label (fst s i)) per (fst s j) (fst (ring_step rs s e) j)"
    unfolding step using ring_took_same [OF r(2) view] m(2,3) by (simp add: s)
  show "set (snd s) \<subseteq> set (snd (ring_step rs s e))" unfolding step by (simp add: s)
  assume "node_lclv (fst s i) \<ge> node_lclv (fst s j)" "public_label (fst s i) = L j"
    "last_send_collect_info_period (fst s j) \<noteq> per"
  with view [of j] m(2,3) have "\<exists>inf out. own_info Er (?nodes1 j) inf \<and> out \<in> set o2
      \<and> ring_post (rs ! (Suc j mod length rs)) [inf] out"
    by (intro r(3)) (auto simp: s ring_same_def)
  with rj al(3) show "\<exists>inf. \<exists>out \<in> set (snd (ring_step rs s e)). own_start (rs ! j) (L j) inf
      \<and> ring_post (rs ! (Suc j mod length rs)) [inf] out"
    unfolding step by (fastforce simp: own_info_def own_start_def in_ring_def ring_env_def collect_env_def)
qed

subsection \<open>The smallest label comes home\<close>

definition ring_started :: "ObDependencyResource list \<Rightarrow> (nat \<Rightarrow> ObLCLLabel) \<Rightarrow> nat \<Rightarrow> (nat \<Rightarrow> ObLCLNode) \<times> lcl_out list \<Rightarrow> bool" where
  "ring_started rs L q s \<longleftrightarrow> (\<exists>inf. \<exists>out \<in> set (snd s). own_start (rs ! q) (L q) inf
     \<and> ring_post (rs ! (Suc q mod length rs)) [inf] out)"

text \<open>
  No value is above \<open>M\<close>, no public label below that of position \<open>q\<close> or above the private one, and
  position \<open>q\<close> has started if its book of the period says so.
\<close>

definition value_ok ::
  "ObDependencyResource list \<Rightarrow> (nat \<Rightarrow> ObLCLLabel) \<Rightarrow> int \<Rightarrow> nat \<Rightarrow> u64 \<Rightarrow> (nat \<Rightarrow> ObLCLNode) \<times> lcl_out list \<Rightarrow> bool" where
  "value_ok rs L per q M s \<longleftrightarrow> ring_ok rs L per s \<and> q < length rs
     \<and> (\<forall>k < length rs. node_lclv (fst s k) \<le> M \<and> L q \<le> public_label (fst s k) \<and> public_label (fst s k) \<le> L k)
     \<and> (last_send_collect_info_period (fst s q) = per \<longrightarrow> ring_started rs L q s)"

definition label_ok ::
  "ObDependencyResource list \<Rightarrow> (nat \<Rightarrow> ObLCLLabel) \<Rightarrow> int \<Rightarrow> nat \<Rightarrow> u64 \<Rightarrow> (nat \<Rightarrow> ObLCLNode) \<times> lcl_out list \<Rightarrow> bool" where
  "label_ok rs L per q M s \<longleftrightarrow> value_ok rs L per q M s \<and> (\<forall>k < length rs. node_lclv (fst s k) = M)"

lemma ring_positions:
  assumes "ring_allowed rs ph per e"
  shows "fst e < length rs" "Suc (fst e) mod length rs < length rs"
proof -
  show less: "fst e < length rs" using assms by (auto simp: ring_allowed_def)
  then have "0 < length rs" by (metis gr_implies_not0 not_gr_zero)
  then show "Suc (fst e) mod length rs < length rs" by simp
qed

lemma ring_started_kept:
  assumes "ring_ok rs L per s" "ring_allowed rs ph per e" "ring_started rs L q s"
  shows "ring_started rs L q (ring_step rs s e)"
  using ring_step_effect(4) [OF assms(1,2) refl refl] assms(3) by (auto simp: ring_started_def)

lemma ring_run_kept:
  assumes "ring_ok rs L per s" "\<forall>e \<in> set es. ring_allowed rs ph per e"
  shows "ring_ok rs L per (foldl (ring_step rs) s es)"
    "ring_started rs L q s \<Longrightarrow> ring_started rs L q (foldl (ring_step rs) s es)"
proof -
  have "ring_ok rs L per (foldl (ring_step rs) s es)
    \<and> (ring_started rs L q s \<longrightarrow> ring_started rs L q (foldl (ring_step rs) s es))"
    using assms
  proof (induction es arbitrary: s)
    case (Cons e es)
    have e: "ring_allowed rs ph per e" using Cons.prems(2) by simp
    have "ring_ok rs L per (ring_step rs s e)" by (rule ring_step_effect(1) [OF Cons.prems(1) e refl refl])
    with Cons.IH [of "ring_step rs s e"] Cons.prems ring_started_kept [OF Cons.prems(1) e] show ?case by simp
  qed simp
  then show "ring_ok rs L per (foldl (ring_step rs) s es)"
    "ring_started rs L q s \<Longrightarrow> ring_started rs L q (foldl (ring_step rs) s es)" by blast+
qed

lemma ring_took_bounds:
  assumes "ring_took own v l per nd nd'" "v \<le> M" "node_lclv nd \<le> M" "low \<le> l" "low \<le> public_label nd" "public_label nd \<le> own"
  shows "node_lclv nd' \<le> M" "low \<le> public_label nd'" "public_label nd' \<le> own" "v = M \<Longrightarrow> node_lclv nd' = M"
    "v = node_lclv nd \<Longrightarrow> node_lclv nd' = v" "v = node_lclv nd \<Longrightarrow> l = low \<Longrightarrow> public_label nd' = low"
    "public_label nd = low \<Longrightarrow> public_label nd' = low" "node_lclv nd = M \<Longrightarrow> node_lclv nd' = M"
  using assms by (auto simp: ring_took_def ring_same_def min_def split: if_splits)

lemma value_ok_step:
  assumes ok: "value_ok rs L per q M s" and al: "ring_allowed rs ph per e"
  shows "value_ok rs L per q M (ring_step rs s e)"
proof -
  let ?i = "fst e" and ?n = "length rs" and ?s' = "ring_step rs s e"
  let ?j = "Suc ?i mod ?n"
  have rok: "ring_ok rs L per s" and q: "q < ?n" using ok by (auto simp: value_ok_def)
  note ef = ring_step_effect [OF rok al refl refl]
  note ij = ring_positions [OF al]
  have bounds: "node_lclv (fst ?s' k) \<le> M \<and> L q \<le> public_label (fst ?s' k) \<and> public_label (fst ?s' k) \<le> L k"
    if k: "k < ?n" for k
  proof (cases "k = ?j")
    case True
    with ok ij ring_took_bounds(1-3) [OF ef(3), of M "L q"] show ?thesis by (auto simp: value_ok_def)
  next
    case False
    with ok ef(2) k show ?thesis by (auto simp: value_ok_def ring_same_def)
  qed
  have "ring_started rs L q ?s'" if per: "last_send_collect_info_period (fst ?s' q) = per"
  proof (cases "last_send_collect_info_period (fst s q) = per")
    case True
    with ok ring_started_kept [OF rok al] show ?thesis by (auto simp: value_ok_def)
  next
    case False
    with per ef(2) q have j: "q = ?j" by (auto simp: ring_same_def)
    with per False ef(3) have "node_lclv (fst s ?i) \<ge> node_lclv (fst s q)" "public_label (fst s ?i) = L q"
      by (auto simp: ring_took_def ring_same_def split: if_splits)
    with ef(5) j False show ?thesis unfolding ring_started_def by metis
  qed
  with bounds ef(1) q show ?thesis by (simp add: value_ok_def)
qed

lemma value_step:
  assumes ok: "value_ok rs L per q M s" and al: "ring_allowed rs ph per e"
  shows "k < length rs \<Longrightarrow> node_lclv (fst s k) = M \<Longrightarrow> node_lclv (fst (ring_step rs s e) k) = M"
    and "node_lclv (fst s (fst e)) = M \<Longrightarrow> node_lclv (fst (ring_step rs s e) (Suc (fst e) mod length rs)) = M"
proof -
  let ?i = "fst e" and ?n = "length rs" and ?s' = "ring_step rs s e"
  let ?j = "Suc ?i mod ?n"
  have rok: "ring_ok rs L per s" and q: "q < ?n" using ok by (auto simp: value_ok_def)
  note ef = ring_step_effect [OF rok al refl refl]
  note ij = ring_positions [OF al]
  note b = ring_took_bounds [OF ef(3), of M "L q"]
  have pre: "node_lclv (fst s ?i) \<le> M" "node_lclv (fst s ?j) \<le> M" "L q \<le> public_label (fst s ?i)"
      "L q \<le> public_label (fst s ?j)" "public_label (fst s ?j) \<le> L ?j"
    using ok ij by (auto simp: value_ok_def)
  show "node_lclv (fst s ?i) = M \<Longrightarrow> node_lclv (fst ?s' ?j) = M" using b(4) [OF pre] by simp
  show "k < ?n \<Longrightarrow> node_lclv (fst s k) = M \<Longrightarrow> node_lclv (fst ?s' k) = M"
    using b(8) [OF pre] ef(2) by (cases "k = ?j") (auto simp: ring_same_def)
qed

lemma label_step:
  assumes ok: "label_ok rs L per q M s" and al: "ring_allowed rs ph per e"
  shows "k < length rs \<Longrightarrow> public_label (fst s k) = L q \<Longrightarrow> public_label (fst (ring_step rs s e) k) = L q"
    and "public_label (fst s (fst e)) = L q \<Longrightarrow> public_label (fst (ring_step rs s e) (Suc (fst e) mod length rs)) = L q"
proof -
  let ?i = "fst e" and ?n = "length rs" and ?s' = "ring_step rs s e"
  let ?j = "Suc ?i mod ?n"
  have rok: "ring_ok rs L per s" and q: "q < ?n" using ok by (auto simp: label_ok_def value_ok_def)
  note ef = ring_step_effect [OF rok al refl refl]
  note ij = ring_positions [OF al]
  note b = ring_took_bounds [OF ef(3), of M "L q"]
  have pre: "node_lclv (fst s ?i) \<le> M" "node_lclv (fst s ?j) \<le> M" "L q \<le> public_label (fst s ?i)"
      "L q \<le> public_label (fst s ?j)" "public_label (fst s ?j) \<le> L ?j"
    using ok ij by (auto simp: label_ok_def value_ok_def)
  have same: "node_lclv (fst s ?i) = node_lclv (fst s ?j)" using ok ij by (simp add: label_ok_def)
  show "public_label (fst s ?i) = L q \<Longrightarrow> public_label (fst ?s' ?j) = L q" using b(6) [OF pre same] by simp
  show "k < ?n \<Longrightarrow> public_label (fst s k) = L q \<Longrightarrow> public_label (fst ?s' k) = L q"
    using b(7) [OF pre] ef(2) by (cases "k = ?j") (auto simp: ring_same_def)
qed

lemma label_ok_step:
  assumes "label_ok rs L per q M s" "ring_allowed rs ph per e"
  shows "label_ok rs L per q M (ring_step rs s e)"
  using assms value_ok_step value_step(1) unfolding label_ok_def by blast

interpretation value_ring: ring_spread "length rs" "ring_step rs" fst "ring_allowed rs ph per" "value_ok rs L per q M"
  "\<lambda>s k. node_lclv (fst s k) = M" for rs ph per L q M
  by unfold_locales (auto intro: value_ok_step value_step)

interpretation label_ring: ring_spread "length rs" "ring_step rs" fst "ring_allowed rs ph per" "label_ok rs L per q M"
  "\<lambda>s k. public_label (fst s k) = L q" for rs ph per L q M
  by unfold_locales (auto intro: label_ok_step label_step)

definition ring_covers :: "ObDependencyResource list \<Rightarrow> int \<Rightarrow> int \<Rightarrow> (nat \<times> lcl_env \<times> lcl_env) list \<Rightarrow> bool" where
  "ring_covers rs ph per es \<longleftrightarrow> (\<forall>e \<in> set es. ring_allowed rs ph per e) \<and> {..<length rs} \<subseteq> fst ` set es"

lemma ring_covers_iff [simp]:
  "ring_spread.covers (length rs) fst (ring_allowed rs ph per) es \<longleftrightarrow> ring_covers rs ph per es"
  by (simp add: ring_covers_def value_ring.covers_def)

text \<open>One more round makes the smallest label arrive at its owner.\<close>

lemma last_round_starts:
  assumes ok: "label_ok rs L per q M s" and cov: "ring_covers rs ph per es"
    and all: "\<forall>k < length rs. public_label (fst s k) = L q"
  shows "ring_started rs L q (foldl (ring_step rs) s es)"
proof -
  let ?n = "length rs"
  have q: "q < ?n" using ok by (auto simp: label_ok_def value_ok_def)
  define p where "p = (q + ?n - 1) mod ?n"
  have pos: "0 < ?n" using q by (metis gr_implies_not0 not_gr_zero)
  then have "Suc (q + ?n - 1) = q + ?n" by simp
  then have p: "p < ?n" "Suc p mod ?n = q" using q pos by (simp_all add: p_def mod_Suc_eq)
  obtain e xs ys where es: "es = xs @ e # ys" "fst e = p"
    using cov p(1) by (auto simp: ring_covers_def dest!: split_list subsetD)
  have al: "\<forall>x \<in> set xs. ring_allowed rs ph per x" "ring_allowed rs ph per e" "\<forall>x \<in> set ys. ring_allowed rs ph per x"
    using cov by (auto simp: ring_covers_def es)
  let ?s = "foldl (ring_step rs) s xs"
  have s: "label_ok rs L per q M ?s" by (rule label_ring.ok_run [OF al(1) ok])
  have rok: "ring_ok rs L per ?s" using s by (simp add: label_ok_def value_ok_def)
  have pub: "public_label (fst ?s p) = L q" using label_ring.good_run [OF al(1) ok p(1)] all p(1) by simp
  have started_e: "ring_started rs L q (ring_step rs ?s e)"
  proof (cases "last_send_collect_info_period (fst ?s q) = per")
    case True
    with s ring_started_kept [OF rok al(2)] show ?thesis by (auto simp: label_ok_def value_ok_def)
  next
    case False
    have "node_lclv (fst ?s p) \<ge> node_lclv (fst ?s q)" using s p(1) q by (simp add: label_ok_def)
    with ring_step_effect(5) [OF rok al(2) refl refl] pub False es(2) p(2) show ?thesis
      unfolding ring_started_def by metis
  qed
  have "ring_started rs L q (foldl (ring_step rs) (ring_step rs ?s e) ys)"
    using ring_run_kept(2) [OF ring_step_effect(1) [OF rok al(2)] al(3)] started_e by blast
  then show ?thesis by (simp add: es)
qed

text \<open>How the nodes of a ring stand when the second phase begins: nobody has adopted a label yet.\<close>

definition ring_ready :: "ObDependencyResource list \<Rightarrow> (nat \<Rightarrow> ObLCLLabel) \<Rightarrow> int \<Rightarrow> nat \<Rightarrow> (nat \<Rightarrow> ObLCLNode) \<Rightarrow> bool" where
  "ring_ready rs L per q nodes \<longleftrightarrow> q < length rs \<and> (\<forall>r \<in> set rs. res_is_valid r)
     \<and> (\<forall>k < length rs. in_ring rs L per k (nodes k) \<and> public_label (nodes k) = L k \<and> L q \<le> L k)
     \<and> last_send_collect_info_period (nodes q) \<noteq> per"

lemma ring_starts:
  assumes ready: "ring_ready rs L per q nodes" and cov: "\<forall>es \<in> set segs. ring_covers rs ph per es"
    and len: "2 * length rs \<le> length segs"
  shows "ring_ok rs L per (foldl (ring_step rs) (nodes, []) (concat segs))"
    "ring_started rs L q (foldl (ring_step rs) (nodes, []) (concat segs))"
proof -
  let ?n = "length rs" and ?s = "(nodes, [] :: lcl_out list)"
  have q: "q < ?n" using ready by (simp add: ring_ready_def)
  let ?vs = "(\<lambda>k. node_lclv (nodes k)) ` {..<?n}"
  define M where "M = Max ?vs"
  have fin: "finite ?vs" "?vs \<noteq> {}" using q by auto
  then have "M \<in> ?vs" unfolding M_def by (rule Max_in)
  then obtain p where p: "p < ?n" "node_lclv (nodes p) = M" by blast
  have v0: "value_ok rs L per q M ?s"
    using ready fin by (auto simp: value_ok_def ring_ok_def ring_ready_def M_def)
  define A B C where "A = take (?n - 1) segs" and "B = take (?n - 1) (drop (?n - 1) segs)"
    and "C = drop (?n - 1) (drop (?n - 1) segs)"
  have segs: "segs = A @ B @ C" unfolding A_def B_def C_def by (simp only: append_take_drop_id)
  have lens: "?n - 1 \<le> length A" "?n - 1 \<le> length B" "C \<noteq> []" using len q by (auto simp: A_def B_def C_def)
  have covs: "\<forall>es \<in> set A. ring_covers rs ph per es" "\<forall>es \<in> set B. ring_covers rs ph per es"
    "\<forall>es \<in> set C. ring_covers rs ph per es" using cov by (auto simp: segs)
  have al: "\<forall>e \<in> set (concat X). ring_allowed rs ph per e" if "\<forall>es \<in> set X. ring_covers rs ph per es" for X
    using that by (auto simp: ring_covers_def)
  let ?a = "foldl (ring_step rs) ?s (concat A)"
  have "value_ok rs L per q M ?a" by (rule value_ring.ok_run [OF al [OF covs(1)] v0])
  moreover have "node_lclv (fst ?a k) = M" if "k < ?n" for k
    using value_ring.good_everywhere [of A rs ph per L q M ?s p k] covs(1) v0 p lens(1) that by simp
  ultimately have la: "label_ok rs L per q M ?a" by (simp add: label_ok_def)
  have qa: "public_label (fst ?a q) = L q"
  proof -
    have "L q \<le> public_label (fst ?a q)" "public_label (fst ?a q) \<le> L q"
      using la q by (auto simp: label_ok_def value_ok_def)
    then show ?thesis by simp
  qed
  let ?b = "foldl (ring_step rs) ?a (concat B)"
  have lb: "label_ok rs L per q M ?b" by (rule label_ring.ok_run [OF al [OF covs(2)] la])
  have pb: "\<forall>k < ?n. public_label (fst ?b k) = L q"
    using label_ring.good_everywhere [of B rs ph per L q M ?a q] covs(2) la q qa lens(2) by simp
  obtain es D where C: "C = es # D" using lens(3) by (cases C) auto
  let ?c = "foldl (ring_step rs) ?b es"
  have "ring_covers rs ph per es" using covs(3) C by simp
  then have sc: "ring_started rs L q ?c" by (rule last_round_starts [OF lb _ pb])
  have run: "foldl (ring_step rs) ?s (concat segs) = foldl (ring_step rs) ?c (concat D)" by (simp add: segs C)
  have "ring_ok rs L per ?b" using lb by (simp add: label_ok_def value_ok_def)
  then have rc: "ring_ok rs L per ?c" using ring_run_kept(1) al [OF covs(3)] C by (metis concat.simps(2) set_append UnCI)
  have "\<forall>e \<in> set (concat D). ring_allowed rs ph per e" using al [OF covs(3)] C by simp
  from ring_run_kept [OF rc this] sc show "ring_ok rs L per (foldl (ring_step rs) ?s (concat segs))"
    "ring_started rs L q (foldl (ring_step rs) ?s (concat segs))" unfolding run by blast+
qed

end
