(* ===== verification/Lcl_Liveness.thy ===== *)
theory Lcl_Liveness
  imports Lcl_Ring
begin

text \<open>
  The second half of a detection: the collect message of the detector with the smallest label
  passes through the ring, every detector adds its info, and the detector that began calls its
  detect callback on the infos of the whole ring and stops waiting.
\<close>

subsection \<open>A collect message on its way\<close>

fun posted_to :: "ObDependencyResource \<Rightarrow> lcl_out list \<Rightarrow> ObDeadLockCollectInfoMessage option" where
  "posted_to r [] = None"
| "posted_to r (PostCollect a m # outs) =
     (if a = res_addr r \<and> cm_dest_key m = res_key r then Some m else posted_to r outs)"
| "posted_to r (out # outs) = posted_to r outs"

text \<open>The message is handled at a position, and the one posted there to the next position is handled in turn.\<close>

fun ring_collect ::
  "ObDependencyResource list \<Rightarrow> lcl_env list \<Rightarrow> nat \<Rightarrow> ObDeadLockCollectInfoMessage \<Rightarrow> (nat \<Rightarrow> ObLCLNode) \<Rightarrow>
   (nat \<Rightarrow> ObLCLNode) \<times> lcl_out list" where
  "ring_collect rs [] j m nodes = (nodes, [])"
| "ring_collect rs (E # Es) j m nodes =
     (case node_process_collect_info_message E m (nodes j) of (_, nj, outs) \<Rightarrow>
        case posted_to (rs ! (Suc j mod length rs)) outs of
          None \<Rightarrow> (nodes(j := nj), outs)
        | Some m' \<Rightarrow> ring_collect rs Es (Suc j mod length rs) m' (nodes(j := nj)))"

definition ring_at :: "'a list \<Rightarrow> nat \<Rightarrow> nat \<Rightarrow> nat" where
  "ring_at rs q k = (q + k) mod length rs"

lemma ring_at_Suc: "Suc (ring_at rs q k) mod length rs = ring_at rs q (Suc k)"
  by (simp add: ring_at_def mod_Suc_eq)

lemma ring_at_less: "q < length rs \<Longrightarrow> ring_at rs q k < length rs"
  unfolding ring_at_def by (rule mod_less_divisor) (metis gr_implies_not0 not_gr_zero)

lemma ring_at_round: "q < length rs \<Longrightarrow> ring_at rs q (length rs) = q" "q < length rs \<Longrightarrow> ring_at rs q 0 = q"
  by (simp_all add: ring_at_def)

lemma ring_at_inj:
  assumes "ring_at rs q j = ring_at rs q k" "j < length rs" "k < length rs"
  shows "j = k"
proof -
  have "j mod length rs = k mod length rs"
    using assms(1) by (simp add: ring_at_def mod_add_cong nat_mod_eq_iff)
  with assms(2,3) show ?thesis by simp
qed

definition distinct_numbers :: "ObDependencyResource list \<Rightarrow> (nat \<Rightarrow> ObLCLLabel) \<Rightarrow> bool" where
  "distinct_numbers rs L \<longleftrightarrow> inj_on (\<lambda>k. (res_addr (rs ! k), label_id (L k))) {..<length rs}"

text \<open>The infos of the first \<open>d\<close> positions from \<open>q\<close> on.\<close>

definition collected :: "ObDependencyResource list \<Rightarrow> (nat \<Rightarrow> ObLCLLabel) \<Rightarrow> nat \<Rightarrow> nat \<Rightarrow> ObDetectorInnerReportInfo list \<Rightarrow> bool" where
  "collected rs L q d infos \<longleftrightarrow> length infos = d
     \<and> (\<forall>k < d. own_start (rs ! ring_at rs q k) (L (ring_at rs q k)) (infos ! k))"

lemma collected_snoc:
  assumes "collected rs L q d infos" "own_start (rs ! ring_at rs q d) (L (ring_at rs q d)) i"
  shows "collected rs L q (Suc d) (infos @ [i])"
  using assms by (auto simp: collected_def nth_append less_Suc_eq)

lemma ring_hop:
  assumes ok: "ring_ok rs L per (nodes, outs0)" and dn: "distinct_numbers rs L" and q: "q < length rs"
    and d: "d < length rs" and c: "collected rs L q d (cm_collected_info m)"
    and E: "collect_env (res_addr (rs ! ring_at rs q d)) E"
    and p: "node_process_collect_info_message E m (nodes (ring_at rs q d)) = (ret, nd', outs)"
  shows "nd' = nodes (ring_at rs q d)"
    "\<exists>m'. posted_to (rs ! ring_at rs q (Suc d)) outs = Some m' \<and> collected rs L q (Suc d) (cm_collected_info m')"
proof -
  let ?j = "ring_at rs q d" and ?infos = "cm_collected_info m"
  have j: "?j < length rs" "ring_at rs q (Suc d) < length rs" using q by (simp_all add: ring_at_less)
  have rj: "in_ring rs L per ?j (nodes ?j)" using ok j by (simp add: ring_ok_def)
  have valid: "res_is_valid (rs ! (Suc ?j mod length rs))" using ok j(2) by (auto simp: ring_ok_def ring_at_Suc)
  have a: "en_self_addr E = res_addr (rs ! ?j)" using E by (simp add: collect_env_def)
  have fresh: "(en_self_addr E, label_id (L ?j)) \<notin> info_no ` set ?infos"
  proof
    assume "(en_self_addr E, label_id (L ?j)) \<in> info_no ` set ?infos"
    then obtain k where k: "k < d" "info_no (?infos ! k) = (res_addr (rs ! ?j), label_id (L ?j))"
      using c a by (auto simp: collected_def in_set_conv_nth)
    then have "(res_addr (rs ! ring_at rs q k), label_id (L (ring_at rs q k))) = (res_addr (rs ! ?j), label_id (L ?j))"
      using c by (simp add: collected_def own_start_def)
    from inj_onD [OF dn [unfolded distinct_numbers_def] this] have "ring_at rs q k = ?j"
      using q j(1) by (simp add: ring_at_less)
    with k(1) d ring_at_inj [of rs q k d] show False by simp
  qed
  note fwd = ring_collect_forward [OF rj E valid fresh p]
  show "nd' = nodes ?j" by (rule fwd(1))
  obtain i out where i: "own_info E (nodes ?j) i" "outs = [out]" "ring_post (rs ! ring_at rs q (Suc d)) (?infos @ [i]) out"
    using fwd(2) by (auto simp: ring_at_Suc)
  have "own_start (rs ! ?j) (L ?j) i"
    using i(1) rj a by (auto simp: own_info_def own_start_def in_ring_def)
  with i(2,3) c show "\<exists>m'. posted_to (rs ! ring_at rs q (Suc d)) outs = Some m'
      \<and> collected rs L q (Suc d) (cm_collected_info m')"
    by (auto simp: ring_post_def intro: collected_snoc)
qed

subsection \<open>The end of a collection\<close>

lemma lowest_priority_idx_first:
  assumes "\<forall>i \<in> set infos. lowest \<le> info_priority i"
  shows "lowest_priority_idx k lowest idx infos = idx"
  using assms by (induction infos arbitrary: k) auto

lemma collected_lowest:
  assumes "collected rs L q (length rs) infos" "q < length rs" "\<forall>k < length rs. L q \<le> L k"
    "label_priority (L q) < Priority EXTREMELY_HIGH (- 1)"
  shows "if_self_has_lowest_priority infos"
proof -
  have prio: "\<forall>i \<in> set infos. label_priority (L q) \<le> info_priority i"
    using assms(1-3) label_le_priority by (auto simp: collected_def in_set_conv_nth own_start_def ring_at_less)
  obtain i rest where infos: "infos = i # rest" using assms(1,2) by (cases infos) (auto simp: collected_def)
  have i: "info_priority i = label_priority (L q)"
    using assms(1,2) by (force simp: collected_def infos own_start_def ring_at_round)
  have "\<forall>x \<in> set rest. info_priority i \<le> info_priority x" using prio by (simp add: infos i)
  from lowest_priority_idx_first [OF this] show ?thesis
    using assms(4) by (simp add: if_self_has_lowest_priority_def infos i)
qed

definition broken :: "ObDependencyResource list \<Rightarrow> nat \<Rightarrow> lcl_env \<Rightarrow> (nat \<Rightarrow> ObLCLNode) \<Rightarrow> (nat \<Rightarrow> ObLCLNode) \<times> lcl_out list \<Rightarrow> bool" where
  "broken rs q E nodes s \<longleftrightarrow> (\<exists>infos. snd s = [DetectCall infos, InsertAll infos]
     \<and> map info_res infos = map (\<lambda>k. rs ! ring_at rs q k) [0..<length rs]
     \<and> (en_detect_callback E infos = OB_SUCCESS \<and> auto_activate_when_detected (nodes q) \<longrightarrow> block_list (fst s q) = []))"

lemma ring_last_hop:
  assumes ok: "ring_ok rs L per (nodes, outs0)" and q: "q < length rs" "\<forall>k < length rs. L q \<le> L k"
      "label_priority (L q) < Priority EXTREMELY_HIGH (- 1)"
    and c: "collected rs L q (length rs) (cm_collected_info m)" and E: "collect_env (res_addr (rs ! q)) E"
  shows "broken rs q E nodes (ring_collect rs (E # Es) q m nodes)"
proof -
  let ?infos = "cm_collected_info m" and ?nd = "nodes q"
  have rq: "in_ring rs L per q ?nd" using ok q by (simp add: ring_ok_def)
  have os: "own_start (rs ! ring_at rs q k) (L (ring_at rs q k)) (?infos ! k)" if "k < length rs" for k
    using c that by (simp add: collected_def)
  have len: "length ?infos = length rs" using c by (simp add: collected_def)
  have pos: "0 < length rs" "?infos \<noteq> []" using q(1) len by auto
  have first: "info_addr (?infos ! 0) = en_self_addr E" "info_detector_id (?infos ! 0) = label_id (private_label ?nd)"
    using os [OF pos(1)] q(1) E rq by (auto simp: own_start_def ring_at_round info_no_def collect_env_def in_ring_def)
  let ?idx = "if length ?infos = 1 then 0 else 1"
  have "?idx < length rs \<and> ring_at rs q ?idx = Suc q mod length rs"
    using pos(1) len q(1) by (cases "length rs = 1") (auto simp: ring_at_def)
  then have peer: "info_res (?infos ! ?idx) = rs ! (Suc q mod length rs)"
    using os [of ?idx] by (simp add: own_start_def)
  have low: "if_self_has_lowest_priority ?infos" by (rule collected_lowest [OF c q])
  define nd' where "nd' = (if en_detect_callback E ?infos = OB_SUCCESS \<and> auto_activate_when_detected ?nd
      then ?nd\<lparr>block_list := remove1 (info_res (?infos ! ?idx)) (block_list ?nd)\<rparr> else ?nd)"
  have h: "check_and_process_completely_collected_msg E ?infos ?nd = (OB_SUCCESS, nd', [DetectCall ?infos])"
    using pos(2) first low by (simp add: check_and_process_completely_collected_msg_def nd'_def info_res_def Let_def)
  have nd': "en_detect_callback E ?infos = OB_SUCCESS \<Longrightarrow> auto_activate_when_detected ?nd \<Longrightarrow> block_list nd' = []"
    unfolding nd'_def peer using rq by (simp add: in_ring_def)
  have run: "ring_collect rs (E # Es) q m nodes = (nodes(q := nd'), [DetectCall ?infos, InsertAll ?infos])"
    by (simp add: node_process_collect_info_message_def h Let_def)
  have "map info_res ?infos = map (\<lambda>k. rs ! ring_at rs q k) [0..<length rs]"
    using os by (intro nth_equalityI) (simp_all add: len own_start_def)
  with nd' show ?thesis unfolding run broken_def by simp
qed

lemma ring_collect_completes:
  assumes ok: "ring_ok rs L per (nodes, outs0)" and dn: "distinct_numbers rs L"
    and q: "q < length rs" "\<forall>k < length rs. L q \<le> L k" "label_priority (L q) < Priority EXTREMELY_HIGH (- 1)"
    and c: "collected rs L q d (cm_collected_info m)" and len: "d + length Es = Suc (length rs)" "Es \<noteq> []"
    and E: "\<forall>k < length Es. collect_env (res_addr (rs ! ring_at rs q (d + k))) (Es ! k)"
  shows "broken rs q (last Es) nodes (ring_collect rs Es (ring_at rs q d) m nodes)"
  using c len E
proof (induction Es arbitrary: d m)
  case (Cons E Es)
  show ?case
  proof (cases "Es = []")
    case True
    then have d: "d = length rs" using Cons.prems(2) by simp
    with Cons.prems(4) q(1) have "collect_env (res_addr (rs ! q)) E" by (auto simp: ring_at_round)
    from ring_last_hop [OF ok q _ this, of m Es] Cons.prems(1) show ?thesis
      using True q(1) by (simp add: d ring_at_round)
  next
    case False
    then have d: "d < length rs" using Cons.prems(2) by (cases Es) auto
    let ?j = "ring_at rs q d"
    obtain ret nd' outs where p: "node_process_collect_info_message E m (nodes ?j) = (ret, nd', outs)"
      by (cases "node_process_collect_info_message E m (nodes ?j)") auto
    have Ej: "collect_env (res_addr (rs ! ?j)) E" using Cons.prems(4) by force
    note hop = ring_hop [OF ok dn q(1) d Cons.prems(1) Ej p]
    obtain m' where m': "posted_to (rs ! ring_at rs q (Suc d)) outs = Some m'" "collected rs L q (Suc d) (cm_collected_info m')"
      using hop(2) by blast
    have "\<forall>k < length Es. collect_env (res_addr (rs ! ring_at rs q (Suc d + k))) (Es ! k)"
      using Cons.prems(4) by force
    from Cons.IH [OF m'(2) _ False this] Cons.prems(2)
    have "broken rs q (last Es) nodes (ring_collect rs Es (ring_at rs q (Suc d)) m' nodes)" by simp
    then show ?thesis using False by (simp add: p ring_at_Suc m'(1) hop(1))
  qed
qed simp

subsection \<open>A ring of waiting detectors is broken\<close>

text \<open>C18: A deadlock is detected and resolved. Let every detector of a ring wait for the next one only,
  the ring be ready in the second phase of a period (no label adopted yet, the smallest label at
  position q, no collection begun by q in this period), the detector numbers be distinct and the
  callbacks and the network work. After any run of timer tasks and message deliveries that serves
  every position at least twice as many times as the ring is long, in whatever order, q has sent
  a collect message to the next position; and that message, handed on around the ring, comes back
  to q, which calls its detect callback on the infos of exactly the resources of the ring,
  starting with its own, reports them and, where it activates itself, waits for nothing any more.
\<close>

theorem ring_deadlock_broken:
  assumes "ring_ready rs L per q nodes" "distinct_numbers rs L"
    and "label_priority (L q) < Priority EXTREMELY_HIGH (- 1)"
    and "\<forall>es \<in> set segs. ring_covers rs ph per es" "2 * length rs \<le> length segs"
    and "length Es = length rs" "\<forall>k < length rs. collect_env (res_addr (rs ! ring_at rs q (Suc k))) (Es ! k)"
    and "foldl (ring_step rs) (nodes, []) (concat segs) = (nodes', outs)"
  shows "\<exists>m. PostCollect (res_addr (rs ! ring_at rs q 1)) m \<in> set outs
    \<and> cm_dest_key m = res_key (rs ! ring_at rs q 1)
    \<and> broken rs q (last Es) nodes' (ring_collect rs Es (ring_at rs q 1) m nodes')"
proof -
  have q: "q < length rs" "\<forall>k < length rs. L q \<le> L k" using assms(1) by (simp_all add: ring_ready_def)
  have ok: "ring_ok rs L per (nodes', outs)" and st: "ring_started rs L q (nodes', outs)"
    using ring_starts [OF assms(1,4,5)] unfolding assms(8) .
  have at1: "Suc q mod length rs = ring_at rs q 1" by (simp add: ring_at_def)
  obtain inf m where m: "PostCollect (res_addr (rs ! ring_at rs q 1)) m \<in> set outs"
      "cm_dest_key m = res_key (rs ! ring_at rs q 1)" "cm_collected_info m = [inf]" "own_start (rs ! q) (L q) inf"
    using st by (auto simp: ring_started_def ring_post_def at1)
  have "collected rs L q 1 (cm_collected_info m)" using m(3,4) q(1) by (simp add: collected_def ring_at_round)
  moreover have "1 + length Es = Suc (length rs)" "Es \<noteq> []" using assms(6) q(1) by auto
  ultimately have "broken rs q (last Es) nodes' (ring_collect rs Es (ring_at rs q 1) m nodes')"
    using assms(3,6,7) ok q by (intro ring_collect_completes [OF ok assms(2) q]) auto
  with m(1,2) show ?thesis by blast
qed

end
