(* ===== verification/Lcl_Samples.thy ===== *)
theory Lcl_Samples
  imports Lcl_Safety Lcl_Termination Lcl_Liveness
begin

text \<open>
  Two detectors of one server that wait for each other, for the witnesses. In the second phase of
  a period the first one pushes its label to the second, gets it back from there, collects the
  report infos of both and is told to give up.
\<close>

subsection \<open>The server and its callbacks\<close>

definition duo_env :: lcl_env where
  "duo_env = \<lparr>en_self_addr = Some 1, en_mtl_id = 1, en_real_clock = 2100000, en_clock = 2100000,
     en_op_interval = 100000, en_callback_valid = (\<lambda>_. True), en_call_back = (\<lambda>_. (OB_SUCCESS, [], False)),
     en_detect_callback = (\<lambda>_. OB_SUCCESS),
     en_collect_callback = (OB_SUCCESS, \<lparr>user_module_name = ''m'', resource_visitor = ''v'', required_resource = ''r'',
       extra_columns_names = [], extra_columns_values = [], valid_extra_column_size = 0\<rparr>),
     en_hash_addr = (\<lambda>_ h. h), en_hash_u64 = (\<lambda>_ h. h + 1), en_post_collect = (\<lambda>_ _. OB_SUCCESS),
     en_post_notify = (\<lambda>_ _. OB_SUCCESS), en_schedule = (\<lambda>_. OB_SUCCESS), en_alived_count = 0,
     en_constructed = True, en_draw = (\<lambda>_. 100)\<rparr>"

definition duo_key :: "nat \<Rightarrow> UserBinaryKey" where
  "duo_key i = UserKey 1 [of_nat i]"

definition duo_res :: "nat \<Rightarrow> ObDependencyResource" where
  "duo_res i = Resource (Some 1) (duo_key i)"

definition duo_label :: "nat \<Rightarrow> ObLCLLabel" where
  "duo_label i = Label (Some 1) (of_nat i) (Priority NORMAL 5)"

definition duo_sender :: "(ObDependencyResource \<times> ObLCLMessage) list \<Rightarrow> ObLCLBatchSenderThread" where
  "duo_sender msgs = \<lparr>sd_is_inited = True, sd_is_running = True, sd_allow_send = True, sd_total_record_time = 0,
     sd_total_busy_time = 0, sd_over_night_times = 0, lcl_msg_map = msgs\<rparr>"

definition duo_start :: ObDeadLockDetectorMgr where
  "duo_start = \<lparr>mgr_is_inited = True, detector_map = Map.empty, logic_id = 0, sender_thread = duo_sender [],
     reported_cycle_record = lr_init\<rparr>"

text \<open>A detector, with its period, the label it pushes, its waits and the periods of its last report and collection.\<close>

definition duo_node :: "nat \<Rightarrow> int \<Rightarrow> nat \<Rightarrow> ObDependencyResource list \<Rightarrow> int \<Rightarrow> int \<Rightarrow> ObLCLNode" where
  "duo_node i per pub blocks rep col = \<lparr>self_key = duo_key i, timeout_ts = 0, node_lclv = 0,
     private_label = duo_label i, public_label = duo_label pub, auto_activate_when_detected = True,
     created_time = 2100000, allow_detect_time = 2100000, is_timer_task_canceled = False, block_list = blocks,
     parent_list = [], block_callback_list = [], lcl_period = per, last_report_waiting_for_period = rep,
     last_send_collect_info_period = col, count_down_allow_detect = 0, expected_executed_ts = 2200000\<rparr>"

definition duo_mgr :: "ObLCLNode \<Rightarrow> ObLCLNode \<Rightarrow> int \<Rightarrow> (ObDependencyResource \<times> ObLCLMessage) list \<Rightarrow> ObDeadLockDetectorMgr" where
  "duo_mgr n1 n2 t msgs = \<lparr>mgr_is_inited = True, detector_map = [duo_key 1 \<mapsto> n1, duo_key 2 \<mapsto> n2], logic_id = 2,
     sender_thread = (duo_sender msgs)\<lparr>sd_total_record_time := t\<rparr>, reported_cycle_record = lr_init\<rparr>"

definition duo_msg :: "nat \<Rightarrow> nat \<Rightarrow> ObLCLMessage" where
  "duo_msg dest src = \<lparr>lm_dest_addr = Some 1, lm_dest_key = duo_key dest, lm_src_addr = Some 1, lm_src_key = duo_key src,
     lm_lclv = 0, lm_label = duo_label 1, lm_send_ts = 2100000\<rparr>"

definition duo_info :: "nat \<Rightarrow> string \<Rightarrow> ObDetectorInnerReportInfo" where
  "duo_info i role = \<lparr>info_key = duo_key i, info_tenant_id = 1, info_addr = Some 1, info_detector_id = of_nat i,
     info_report_time = 2100000, info_created_time = 2100000, info_event_id = 2, info_role = role,
     info_start_delay = 0, info_priority = Priority NORMAL 5, info_user = snd (en_collect_callback duo_env)\<rparr>"

definition duo_collect :: "nat \<Rightarrow> ObDetectorInnerReportInfo list \<Rightarrow> ObDeadLockCollectInfoMessage" where
  "duo_collect dest infos = \<lparr>cm_dest_key = duo_key dest, cm_collected_info = infos\<rparr>"

named_theorems duo

lemma priority_less_iff [duo]:
  "Priority r v < Priority r' v' \<longleftrightarrow> r < r' \<or> r = r' \<and> v < v'"
  by (simp add: less_ObDetectorPriority_def priority_lt_def del: priority_ops)

lemma label_less_iff [duo]: "Label a i p < Label a j p \<longleftrightarrow> i < j"
  by (simp add: less_ObLCLLabel_def label_lt_def del: label_lt_iff)

lemmas [duo] = duo_env_def duo_key_def duo_res_def duo_label_def duo_sender_def duo_start_def duo_node_def
  duo_mgr_def duo_msg_def duo_info_def duo_collect_def
  is_deadlock_enabled_def check_args.simps CHECK_ARGS_def OB_INVALID_ARGUMENT_VAL_def
  key_is_valid_def res_is_valid_def addr_is_valid_def label_is_valid_def priority_is_valid_def
  DETECT_INVALID_VALUE_def BUFFER_LIMIT_SIZE_def NORMAL_def
  get_detector_def put_detector_def on_detector_def Let_def

lemma duo_register_1:
  "lcl_call duo_env (OpRegister [True] (OB_SUCCESS, duo_key 1) (Priority NORMAL 5) 0 0 True) duo_start
   = (duo_start\<lparr>detector_map := [duo_key 1 \<mapsto> duo_node 1 0 1 [] 0 0], logic_id := 1\<rparr>, [], [])"
  by (simp add: duo register_key_def factory_create_def new_lcl_node_def register_timer_task_def
      add_self_ref_count_def register_timer_def TIMER_SCHEDULE_RESERVE_TIME_def)

lemma duo_register_2:
  "lcl_call duo_env (OpRegister [True] (OB_SUCCESS, duo_key 2) (Priority NORMAL 5) 0 0 True)
     (duo_start\<lparr>detector_map := [duo_key 1 \<mapsto> duo_node 1 0 1 [] 0 0], logic_id := 1\<rparr>)
   = (duo_mgr (duo_node 1 0 1 [] 0 0) (duo_node 2 0 2 [] 0 0) 0 [], [], [])"
  by (simp add: duo register_key_def factory_create_def new_lcl_node_def register_timer_task_def
      add_self_ref_count_def register_timer_def TIMER_SCHEDULE_RESERVE_TIME_def)

lemma duo_block_1:
  "lcl_call duo_env (OpBlock True True (OB_SUCCESS, duo_key 1) (Some 1) (OB_SUCCESS, duo_key 2))
     (duo_mgr (duo_node 1 0 1 [] 0 0) n2 0 [])
   = (duo_mgr (duo_node 1 0 1 [duo_res 2] 0 0) n2 0 [], [], [])"
  by (simp add: duo mgr_block_def node_block_def add_resource_to_list_def fun_upd_twist)

lemma duo_block_2:
  "lcl_call duo_env (OpBlock True True (OB_SUCCESS, duo_key 2) (Some 1) (OB_SUCCESS, duo_key 1))
     (duo_mgr n1 (duo_node 2 0 2 [] 0 0) 0 [])
   = (duo_mgr n1 (duo_node 2 0 2 [duo_res 1] 0 0) 0 [], [], [])"
  by (simp add: duo mgr_block_def node_block_def add_resource_to_list_def)

lemmas duo_timer = mgr_run_timer_def run_timer_task_def update_lcl_period_if_necessary_def PERIOD_eval PHASE_TIME_eval
  push_state_to_downstreams_def get_state_snapshot_def remove_unuseful_callback_def node_broadcast_def lm_set_args_def
  register_timer_def TIMER_SCHEDULE_RESERVE_TIME_def cache_msg_def insert_or_merge_def can_insert_msg_def LCL_MSG_CACHE_LIMIT_def

lemma duo_timer_1:
  "lcl_call duo_env (OpTimer (duo_key 1)) (duo_mgr (duo_node 1 0 1 [duo_res 2] 0 0) n2 0 [])
   = (duo_mgr (duo_node 1 1 1 [duo_res 2] 1 0) n2 0 [(duo_res 2, duo_msg 2 1)], [], [])"
  by (simp add: duo duo_timer fun_upd_twist)

lemma duo_timer_2:
  "lcl_call duo_env (OpTimer (duo_key 2)) (duo_mgr n1 (duo_node 2 1 1 [duo_res 1] 0 0) t [])
   = (duo_mgr n1 (duo_node 2 1 1 [duo_res 1] 1 0) t [(duo_res 1, duo_msg 1 2)], [], [])"
  by (simp add: duo duo_timer)

lemma duo_send:
  "d \<in> {1, 2} \<Longrightarrow> lcl_call duo_env (OpSend (\<lambda>_ _. OB_SUCCESS) 0) (duo_mgr n1 n2 0 [(duo_res d, duo_msg d e)])
   = (duo_mgr n1 n2 100000 [], [duo_msg d e], [])"
  "d \<in> {1, 2} \<Longrightarrow> lcl_call duo_env (OpSend (\<lambda>_ _. OB_SUCCESS) 0) (duo_mgr n1 n2 100000 [(duo_res d, duo_msg d e)])
   = (duo_mgr n1 n2 200000 [], [duo_msg d e], [])"
  by (simp_all add: duo sender_round_def take_messages_def LCL_MSG_CACHE_LIMIT_def post_lcl_message_def lm_is_valid_def
      record_summary_def)

lemmas duo_lcl = mgr_process_lcl_message_def lm_is_valid_def node_process_lcl_message_def update_lcl_period_if_necessary_def
  PERIOD_eval PHASE_TIME_eval if_phase_match_def process_msg_as_lcls_msg_def label_eq_def get_state_snapshot_def
  remove_unuseful_callback_def

lemmas duo_hop = node_process_collect_info_message_def check_and_process_completely_collected_msg_def
  check_dead_loop_def generate_event_id_def append_report_info_to_msg_def info_set_args_def check_and_assign_ptr_def
  user_report_is_valid_def ROLE_VICTIM_def ROLE_WITNESS_def STR_LEN_LIMIT_def cm_append_def broadcast_collect_info_def
  get_state_snapshot_def remove_unuseful_callback_def cm_set_dest_key_def post_collect_info_message_def cm_is_valid_def

lemma duo_adopts:
  "lcl_call duo_env (OpLcl (duo_msg 2 1)) (duo_mgr n1 (duo_node 2 0 2 [duo_res 1] 0 0) t [])
   = (duo_mgr n1 (duo_node 2 1 1 [duo_res 1] 0 0) t [], [], [])"
  by (simp add: duo duo_lcl)

lemma duo_collects:
  "lcl_call duo_env (OpLcl (duo_msg 1 2)) (duo_mgr (duo_node 1 1 1 [duo_res 2] 1 0) n2 t [])
   = (duo_mgr (duo_node 1 1 1 [duo_res 2] 1 1) n2 t [], [], [PostCollect (Some 1) (duo_collect 2 [duo_info 1 ''victim''])])"
  by (simp add: duo duo_lcl duo_hop fun_upd_twist)

lemma duo_hands_on:
  "lcl_call duo_env (OpCollect (duo_collect 2 [duo_info 1 ''victim'']))
     (duo_mgr n1 (duo_node 2 1 1 [duo_res 1] 1 0) t [])
   = (duo_mgr n1 (duo_node 2 1 1 [duo_res 1] 1 0) t [], [],
      [PostCollect (Some 1) (duo_collect 1 [duo_info 1 ''victim'', duo_info 2 ''witness''])])"
  by (simp add: duo duo_hop mgr_process_collect_info_message_def check_and_report_cycle_def)

lemma duo_killed:
  "DetectCall [duo_info 1 ''victim'', duo_info 2 ''witness''] \<in> set (snd (snd (lcl_call duo_env
     (OpCollect (duo_collect 1 [duo_info 1 ''victim'', duo_info 2 ''witness'']))
     (duo_mgr (duo_node 1 1 1 [duo_res 2] 1 1) n2 t []))))"
  by (cases "check_and_push (calculate_cycle_hash duo_env [duo_info 1 ''victim'', duo_info 2 ''witness'']) lr_init")
    (simp add: duo duo_hop mgr_process_collect_info_message_def check_and_report_cycle_def if_self_has_lowest_priority_def
      EXTREMELY_HIGH_def)

subsection \<open>Running calls of one server\<close>

definition seen :: "lcl_sys \<Rightarrow> ObDeadLockDetectorMgr \<Rightarrow> ObLCLMessage set \<Rightarrow> (ObAddr \<times> ObDeadLockCollectInfoMessage) multiset \<Rightarrow> bool" where
  "seen s g ms cs \<longleftrightarrow> lcl_reachable s \<and> sy_mgr s (Some 1) = g \<and> sy_lcl s = ms \<and> sy_collect s = cs"

definition duo_sys :: lcl_sys where
  "duo_sys = \<lparr>sy_mgr = (\<lambda>_. duo_start), sy_lcl = {}, sy_collect = {#}, sy_waits = {}, sy_born = {}, sy_kills = {}\<rparr>"

lemma seen_start: "seen duo_sys duo_start {} {#}"
  by (simp add: seen_def lcl_reachable.start lcl_init_def fresh_mgr_def duo_sys_def duo_start_def duo_sender_def)

lemma seen_call:
  assumes "seen s g ms cs" "ids_left g" "lcl_call duo_env op g = (g', msgs, outs)"
    "case op of OpLcl m \<Rightarrow> m \<in> ms \<and> lm_dest_addr m = Some 1 | OpCollect m \<Rightarrow> (Some 1, m) \<in># cs | _ \<Rightarrow> True"
  shows "seen (after_lcl_call duo_env op s) g' (ms \<union> set msgs) (cs - taken (Some 1) op + mset (posted outs))"
    "killed_by (Some 1) op outs \<subseteq> sy_kills (after_lcl_call duo_env op s)"
proof -
  have a: "en_self_addr duo_env = Some 1" by (simp add: duo_env_def)
  have "may_lcl_call s (en_self_addr duo_env) op"
    using assms(1,4) by (cases op) (auto simp: may_lcl_call_def seen_def a)
  then have "lcl_step s (after_lcl_call duo_env op s)"
    using assms(1,2) by (intro lcl_step.call) (simp_all add: seen_def a)
  then show "seen (after_lcl_call duo_env op s) g' (ms \<union> set msgs) (cs - taken (Some 1) op + mset (posted outs))"
    "killed_by (Some 1) op outs \<subseteq> sy_kills (after_lcl_call duo_env op s)"
    using assms(1,3) lcl_reachable.step by (auto simp: seen_def after_lcl_call_def a Let_def)
qed

lemma duo_ids_left:
  "ids_left duo_start" "ids_left (duo_start\<lparr>detector_map := [duo_key 1 \<mapsto> duo_node 1 p l bs r c], logic_id := 1\<rparr>)"
  "ids_left (duo_mgr (duo_node 1 p l bs r c) (duo_node 2 p' l' bs' r' c') t msgs)"
  by (auto simp: ids_left_def duo_start_def duo_mgr_def duo_node_def duo_key_def)

lemma duo_run:
  "\<exists>s. seen s (duo_mgr (duo_node 1 1 1 [duo_res 2] 1 1) (duo_node 2 1 1 [duo_res 1] 1 0) 200000 [])
     {duo_msg 2 1, duo_msg 1 2} {#(Some 1, duo_collect 2 [duo_info 1 ''victim''])#}"
proof -
  note ids = duo_ids_left
  note 1 = seen_call(1) [OF seen_start ids(1) duo_register_1]
  note 2 = seen_call(1) [OF 1 ids(2) duo_register_2]
  note 3 = seen_call(1) [OF 2 ids(3) duo_block_1]
  note 4 = seen_call(1) [OF 3 ids(3) duo_block_2]
  note 5 = seen_call(1) [OF 4 ids(3) duo_timer_1]
  note 6 = seen_call(1) [OF 5 ids(3) duo_send(1)]
  note 7 = seen_call(1) [OF 6 ids(3) duo_adopts]
  note 8 = seen_call(1) [OF 7 ids(3) duo_timer_2]
  note 9 = seen_call(1) [OF 8 ids(3) duo_send(2)]
  note 10 = seen_call(1) [OF 9 ids(3) duo_collects]
  from 10 show ?thesis
    by (auto simp: taken_def posted_def List.map_filter_def duo_msg_def insert_commute)
qed

lemma duo_kill:
  "\<exists>s. lcl_reachable s \<and> (duo_res 1, [duo_info 1 ''victim'', duo_info 2 ''witness'']) \<in> sy_kills s"
proof -
  let ?c = "duo_collect 1 [duo_info 1 ''victim'', duo_info 2 ''witness'']"
  let ?g = "duo_mgr (duo_node 1 1 1 [duo_res 2] 1 1) (duo_node 2 1 1 [duo_res 1] 1 0) 200000 []"
  obtain s where s: "seen s ?g {duo_msg 2 1, duo_msg 1 2} {#(Some 1, duo_collect 2 [duo_info 1 ''victim''])#}"
    using duo_run by blast
  obtain s1 ms cs where s1: "seen s1 ?g ms cs" "(Some 1, ?c) \<in># cs"
    using seen_call(1) [OF s duo_ids_left(3) duo_hands_on] by (force simp: posted_def List.map_filter_def)
  obtain g' msgs outs where k: "lcl_call duo_env (OpCollect ?c) ?g = (g', msgs, outs)"
    by (cases "lcl_call duo_env (OpCollect ?c) ?g") auto
  have "DetectCall [duo_info 1 ''victim'', duo_info 2 ''witness''] \<in> set outs" using duo_killed k by (metis snd_conv)
  then have "(Resource (Some 1) (cm_dest_key ?c), [duo_info 1 ''victim'', duo_info 2 ''witness''])
      \<in> killed_by (Some 1) (OpCollect ?c) outs" unfolding killed_by_def by blast
  moreover have "Resource (Some 1) (cm_dest_key ?c) = duo_res 1" by (simp add: duo_collect_def duo_res_def)
  ultimately show ?thesis
    using seen_call [OF s1(1) duo_ids_left(3) k] s1(2) unfolding seen_def by auto
qed

subsection \<open>Witnesses\<close>

lemma killed_in_a_cycle_witness:
  "\<exists>s infos. lcl_reachable s \<and> (duo_res 1, infos) \<in> sy_kills s \<and> map info_res infos = [duo_res 1, duo_res 2]
     \<and> (duo_res 1, duo_res 2) \<in> sy_waits s \<and> (duo_res 2, duo_res 1) \<in> sy_waits s"
proof -
  obtain s where s: "lcl_reachable s" "(duo_res 1, [duo_info 1 ''victim'', duo_info 2 ''witness'']) \<in> sy_kills s"
    using duo_kill by blast
  have res: "info_res (duo_info i role) = duo_res i" for i role
    by (simp add: info_res_def duo_info_def duo_res_def)
  have "{..<2::nat} = {0, 1}" by auto
  then have "(duo_res 1, duo_res 2) \<in> sy_waits s" "(duo_res 2, duo_res 1) \<in> sy_waits s"
    using killed_in_a_cycle [OF s] by (auto simp: res less_Suc_eq)
  with s res show ?thesis by (intro exI [of _ s] exI [of _ "[duo_info 1 ''victim'', duo_info 2 ''witness'']"]) simp
qed

lemma collection_ends_witness:
  "\<exists>s. sy_collect s \<noteq> {#} \<and> lcl_reachable s \<and> \<not> (\<exists>tr. tr 0 = s \<and> (\<forall>i. collect_deliver (tr i) (tr (Suc i))))"
proof -
  obtain s where s: "lcl_reachable s" "sy_collect s = {#(Some 1, duo_collect 2 [duo_info 1 ''victim''])#}"
    using duo_run by (auto simp: seen_def)
  from s collection_ends [OF s(1)] show ?thesis by (intro exI [of _ s]) simp
qed

definition duo_ring :: "nat \<Rightarrow> ObLCLNode" where
  "duo_ring k = duo_node (Suc k) 1 (Suc k) [duo_res (if k = 0 then 2 else 1)] 1 0"

lemma duo_ring_ready: "ring_ready [duo_res 1, duo_res 2] (\<lambda>k. duo_label (Suc k)) 1 0 duo_ring"
  unfolding ring_ready_def in_ring_def
  by (auto simp: less_Suc_eq less_eq_ObLCLLabel_def duo_ring_def duo)

lemma duo_ring_env: "ring_env 3 1 (Some 1) duo_env" "collect_env (Some 1) duo_env"
  by (simp_all add: ring_env_def collect_env_def duo_env_def PHASE_TIME_eval PERIOD_eval user_report_is_valid_def)

lemma duo_ring_covers: "ring_covers [duo_res 1, duo_res 2] 3 1 [(0, duo_env, duo_env), (1, duo_env, duo_env)]"
  using duo_ring_env by (auto simp: ring_covers_def ring_allowed_def duo_res_def less_Suc_eq)

lemma ring_deadlock_broken_witness:
  "\<exists>nodes' outs m. foldl (ring_step [duo_res 1, duo_res 2]) (duo_ring, [])
       (concat (replicate 4 [(0, duo_env, duo_env), (1, duo_env, duo_env)])) = (nodes', outs)
     \<and> PostCollect (Some 1) m \<in> set outs \<and> cm_dest_key m = duo_key 2
     \<and> broken [duo_res 1, duo_res 2] 0 duo_env nodes'
         (ring_collect [duo_res 1, duo_res 2] [duo_env, duo_env] 1 m nodes')"
proof -
  let ?rs = "[duo_res 1, duo_res 2]" and ?L = "\<lambda>k. duo_label (Suc k)"
  let ?segs = "replicate 4 [(0, duo_env, duo_env), (1, duo_env, duo_env)]"
  obtain nodes' outs where run: "foldl (ring_step ?rs) (duo_ring, []) (concat ?segs) = (nodes', outs)"
    by (cases "foldl (ring_step ?rs) (duo_ring, []) (concat ?segs)")
  have dn: "distinct_numbers ?rs ?L" by (auto simp: distinct_numbers_def inj_on_def duo_label_def less_Suc_eq)
  have pr: "label_priority (?L 0) < Priority EXTREMELY_HIGH (- 1)" by (simp add: duo EXTREMELY_HIGH_def)
  have cov: "\<forall>es \<in> set ?segs. ring_covers ?rs 3 1 es" using duo_ring_covers by simp
  have env: "\<forall>k < length ?rs. collect_env (res_addr (?rs ! ring_at ?rs 0 (Suc k))) ([duo_env, duo_env] ! k)"
    using duo_ring_env(2) by (auto simp: less_Suc_eq ring_at_def duo_res_def)
  have len: "2 * length ?rs \<le> length ?segs" "length [duo_env, duo_env] = length ?rs" by simp_all
  have at: "ring_at ?rs 0 1 = 1" "?rs ! 1 = duo_res 2" "res_addr (duo_res 2) = Some 1" "res_key (duo_res 2) = duo_key 2"
    "last [duo_env, duo_env] = duo_env" by (simp_all add: ring_at_def duo_res_def)
  from ring_deadlock_broken [OF duo_ring_ready dn pr cov len env run, unfolded at] run show ?thesis by blast
qed

end
