(* ===== verification/Id_Service.thy ===== *)
theory Id_Service
  imports Scn Election_Define "HOL-Library.Signed_Division"
begin

text \<open>
  The services that number things for a whole tenant: the global timestamp service, the service of
  transaction numbers and that of DAS numbers (\<^verbatim>\<open>ob_id_service.{h,cpp}\<close>, \<^verbatim>\<open>ob_timestamp_service.{h,cpp}\<close>,
  \<^verbatim>\<open>ob_trans_id_service.cpp\<close>, \<^verbatim>\<open>ob_timestamp_access.cpp\<close>). A service hands out numbers below a limit that
  it has made durable in the log, and raises the limit by a log entry ahead of time.

  The numbers are 64-bit integers far from their bounds and are modelled as \<^typ>\<open>int\<close>. The record
  \<open>id_env\<close> holds what the functions read from elsewhere: the clocks, the log stream, the log handler and
  the outcomes of the lock and of the serializer. What a function writes into the meta data of the
  log stream is part of its result.
\<close>

definition OB_INVALID_TIMESTAMP :: int where "OB_INVALID_TIMESTAMP = - 1"
definition MIN_LAST_ID :: int where "MIN_LAST_ID = 1"
definition TIMESTAMP_PREALLOCATED_RANGE :: int where "TIMESTAMP_PREALLOCATED_RANGE = MAX_LEASE_TIME * 1000"
definition TRANS_ID_PREALLOCATED_RANGE :: int where "TRANS_ID_PREALLOCATED_RANGE = 1000000"

datatype ServiceType = INVALID_ID_SERVICE_TYPE | TimestampService | TransIDService | DASIDService

fun service_no :: "ServiceType \<Rightarrow> int" where
  "service_no INVALID_ID_SERVICE_TYPE = - 1"
| "service_no TimestampService = 0"
| "service_no TransIDService = 1"
| "service_no DASIDService = 2"

definition MAX_SERVICE_TYPE :: int where "MAX_SERVICE_TYPE = 3"

record id_env =
  ie_time :: int
  ie_clock :: int
  ie_get_ls :: ob_ret
  ie_role :: "ob_ret \<times> bool"
  ie_max_scn :: "ob_ret \<times> SCN"
  ie_lock :: bool
  ie_serialize :: ob_ret
  ie_append :: "SCN \<Rightarrow> ob_ret \<times> SCN"
  ie_update_meta :: ob_ret

record ObIDService =
  service_type :: ServiceType
  pre_allocated_range :: int
  last_id :: int
  tmp_last_id :: int
  limited_id :: int
  is_logging :: bool
  rec_log_ts :: SCN
  latest_log_ts :: SCN
  submit_log_ts :: int
  ls_filled :: bool
  cb_srv_type :: ServiceType
  cb_limited_id :: int
  cb_log_ts :: SCN

type_synonym id_meta_update = "(ServiceType \<times> int \<times> SCN) option"

subsection \<open>The log of a service\<close>

definition inc_update_id :: "int \<Rightarrow> int \<Rightarrow> int" where
  "inc_update_id v x = (if v < x then x else v)"

lemma inc_update_id_max [simp]: "inc_update_id v x = max v x"
  by (simp add: inc_update_id_def)

definition cb_reset :: "'a ObIDService_scheme \<Rightarrow> 'a ObIDService_scheme" where
  "cb_reset s = s\<lparr>cb_srv_type := INVALID_ID_SERVICE_TYPE, cb_limited_id := 0, cb_log_ts := scn_reset\<rparr>"

definition id_reset :: "'a ObIDService_scheme \<Rightarrow> 'a ObIDService_scheme" where
  "id_reset s = s\<lparr>service_type := INVALID_ID_SERVICE_TYPE, pre_allocated_range := 0, last_id := MIN_LAST_ID,
     tmp_last_id := 0, limited_id := MIN_LAST_ID, is_logging := False, rec_log_ts := max_scn,
     latest_log_ts := scn_reset, submit_log_ts := OB_INVALID_TIMESTAMP, ls_filled := False\<rparr>"

definition check_and_fill_ls :: "id_env \<Rightarrow> 'a ObIDService_scheme \<Rightarrow> ob_ret \<times> 'a ObIDService_scheme" where
  "check_and_fill_ls E s =
     (if ls_filled s then (OB_SUCCESS, s)
      else if ie_get_ls E \<noteq> OB_SUCCESS then (ie_get_ls E, s)
      else (OB_SUCCESS, s\<lparr>ls_filled := True\<rparr>))"

definition reset_ls :: "'a ObIDService_scheme \<Rightarrow> 'a ObIDService_scheme" where
  "reset_ls s = s\<lparr>ls_filled := False\<rparr>"

definition serialize_ls_log :: "id_env \<Rightarrow> ServiceType \<Rightarrow> ob_ret" where
  "serialize_ls_log E ty = (case ty of INVALID_ID_SERVICE_TYPE \<Rightarrow> OB_ERR_UNEXPECTED | _ \<Rightarrow> ie_serialize E)"

definition submit_log :: "id_env \<Rightarrow> int \<Rightarrow> int \<Rightarrow> 'a ObIDService_scheme \<Rightarrow> ob_ret \<times> 'a ObIDService_scheme" where
  "submit_log E last_v limit s =
     (if is_logging s then
        (if submit_log_ts s = OB_INVALID_TIMESTAMP then OB_ERR_UNEXPECTED else OB_EAGAIN, s)
      else if last_v < 0 \<or> limit < 0 then (OB_INVALID_ARGUMENT, s)
      else if limit \<le> limited_id s then (OB_SUCCESS, s)
      else case check_and_fill_ls E s of (ret, s1) \<Rightarrow>
        if ret \<noteq> OB_SUCCESS then (ret, s1)
        else
          let base_ts = (if service_type s1 = TimestampService
                         then (if tmp_last_id s1 \<noteq> 0 then tmp_last_id s1 else last_id s1) else 0) in
          case convert_for_gts scn_reset base_ts of (ret1, base) \<Rightarrow>
            if ret1 \<noteq> OB_SUCCESS then (ret1, s1)
            else if serialize_ls_log E (service_type s1) \<noteq> OB_SUCCESS then (serialize_ls_log E (service_type s1), s1)
            else
              let s2 = s1\<lparr>cb_srv_type := service_type s1\<rparr> in
              case ie_append E base of (ret2, log_ts) \<Rightarrow>
                if ret2 \<noteq> OB_SUCCESS then (ret2, cb_reset s2)
                else (OB_SUCCESS, s2\<lparr>submit_log_ts := ie_time E, cb_log_ts := log_ts, cb_limited_id := limit, is_logging := True\<rparr>))"

definition submit_log_with_lock :: "id_env \<Rightarrow> int \<Rightarrow> int \<Rightarrow> 'a ObIDService_scheme \<Rightarrow> ob_ret \<times> 'a ObIDService_scheme" where
  "submit_log_with_lock E last_v limit s = (if \<not> ie_lock E then (OB_EAGAIN, s) else submit_log E last_v limit s)"

definition update_ls_id_meta ::
  "id_env \<Rightarrow> 'a ObIDService_scheme \<Rightarrow> ob_ret \<times> 'a ObIDService_scheme \<times> id_meta_update" where
  "update_ls_id_meta E s =
     (case check_and_fill_ls E s of (ret, s1) \<Rightarrow>
        if ret \<noteq> OB_SUCCESS then (ret, s1, None)
        else (ie_update_meta E, s1, Some (service_type s1, limited_id s1, latest_log_ts s1)))"

definition handle_submit_callback ::
  "id_env \<Rightarrow> bool \<Rightarrow> int \<Rightarrow> SCN \<Rightarrow> 'a ObIDService_scheme \<Rightarrow> ob_ret \<times> 'a ObIDService_scheme \<times> id_meta_update" where
  "handle_submit_callback E success limit log_ts s =
     (case (if limit < 0 \<or> \<not> scn_is_valid log_ts then (OB_SUCCESS, s, None)
            else if success then
              let s1 = (if tmp_last_id s \<noteq> 0 then s\<lparr>last_id := tmp_last_id s, tmp_last_id := 0\<rparr> else s) in
              update_ls_id_meta E (s1\<lparr>limited_id := inc_update_id (limited_id s1) limit,
                                      rec_log_ts := log_ts, latest_log_ts := log_ts\<rparr>)
            else (OB_SUCCESS, s, None)) of
        (ret, s2, upd) \<Rightarrow>
          (ret, cb_reset (s2\<lparr>is_logging := False, submit_log_ts := OB_INVALID_TIMESTAMP\<rparr>), upd))"

text \<open>The callbacks of the log choose the service by its type.\<close>

definition cb_on_success :: "id_env \<Rightarrow> 'a ObIDService_scheme \<Rightarrow> ob_ret \<times> 'a ObIDService_scheme \<times> id_meta_update" where
  "cb_on_success E s =
     (if cb_srv_type s = INVALID_ID_SERVICE_TYPE then (OB_ERR_UNEXPECTED, s, None)
      else handle_submit_callback E True (cb_limited_id s) (cb_log_ts s) s)"

definition cb_on_failure :: "id_env \<Rightarrow> 'a ObIDService_scheme \<Rightarrow> ob_ret \<times> 'a ObIDService_scheme \<times> id_meta_update" where
  "cb_on_failure E s =
     (if cb_srv_type s = INVALID_ID_SERVICE_TYPE then (OB_ERR_UNEXPECTED, s, None)
      else handle_submit_callback E False (cb_limited_id s) (cb_log_ts s) s)"

definition handle_replay_result ::
  "id_env \<Rightarrow> int \<Rightarrow> int \<Rightarrow> SCN \<Rightarrow> 'a ObIDService_scheme \<Rightarrow> ob_ret \<times> 'a ObIDService_scheme \<times> id_meta_update" where
  "handle_replay_result E last_v limit log_ts s =
     (if last_v < 0 \<or> limit < 0 \<or> \<not> scn_is_valid log_ts then (OB_INVALID_ARGUMENT, s, None)
      else
        let s1 = (if last_v \<noteq> limit \<and> limit = limited_id s
                  then s\<lparr>tmp_last_id := inc_update_id (tmp_last_id s) last_v\<rparr> else s\<lparr>tmp_last_id := 0\<rparr>);
            s2 = s1\<lparr>last_id := inc_update_id (last_id s1) limit, limited_id := inc_update_id (limited_id s1) limit\<rparr> in
        if scn_gt log_ts (latest_log_ts s2)
        then update_ls_id_meta E (s2\<lparr>rec_log_ts := log_ts, latest_log_ts := log_ts\<rparr>)
        else (OB_SUCCESS, s2, None))"

definition id_replay ::
  "id_env \<Rightarrow> ob_ret \<Rightarrow> ob_ret \<times> int \<times> int \<Rightarrow> SCN \<Rightarrow> 'a ObIDService_scheme \<Rightarrow> ob_ret \<times> 'a ObIDService_scheme \<times> id_meta_update" where
  "id_replay E header_ret entry log_ts s =
     (if header_ret \<noteq> OB_SUCCESS then (header_ret, s, None)
      else if fst entry \<noteq> OB_SUCCESS then (fst entry, s, None)
      else handle_replay_result E (fst (snd entry)) (snd (snd entry)) log_ts s)"

definition id_flush :: "id_env \<Rightarrow> SCN \<Rightarrow> 'a ObIDService_scheme \<Rightarrow> ob_ret \<times> 'a ObIDService_scheme \<times> id_meta_update" where
  "id_flush E rec_scn s =
     (if scn_le (rec_log_ts s) rec_scn then
        (case update_ls_id_meta E s of (ret, s1, upd) \<Rightarrow>
           (ret, if ret = OB_SUCCESS then s1\<lparr>rec_log_ts := max_scn\<rparr> else s1, upd))
      else (OB_SUCCESS, s, None))"

definition update_limited_id :: "int \<Rightarrow> SCN \<Rightarrow> 'a ObIDService_scheme \<Rightarrow> 'a ObIDService_scheme" where
  "update_limited_id limit log_ts s =
     s\<lparr>last_id := inc_update_id (last_id s) limit, limited_id := inc_update_id (limited_id s) limit,
       rec_log_ts := max_scn, latest_log_ts := log_ts\<rparr>"

definition id_check_leader :: "id_env \<Rightarrow> 'a ObIDService_scheme \<Rightarrow> ob_ret \<times> bool \<times> 'a ObIDService_scheme" where
  "id_check_leader E s =
     (case check_and_fill_ls E s of (ret, s1) \<Rightarrow>
        if ret \<noteq> OB_SUCCESS then (ret, False, s1)
        else if fst (ie_role E) \<noteq> OB_SUCCESS then (fst (ie_role E), False, s1)
        else (OB_SUCCESS, snd (ie_role E), s1))"

subsection \<open>Getting numbers\<close>

text \<open>
  The parts of \<^verbatim>\<open>get_number\<close>, which runs without the lock: the range a call may take by the values it
  has read, the compare-and-swap and the fetch-and-add on the last number, the test against the
  limit read again, and the limit that the next log entry is to set.
\<close>

definition gn_range :: "int \<Rightarrow> int \<Rightarrow> int \<Rightarrow> int \<Rightarrow> int" where
  "gn_range rng base last_v limit = min (min (limit - base) (limit - last_v)) rng"

definition gn_cas :: "int \<Rightarrow> int \<Rightarrow> int \<Rightarrow> 'a ObIDService_scheme \<Rightarrow> bool \<times> 'a ObIDService_scheme" where
  "gn_cas base last_v alloc s = (if last_id s = last_v then (True, s\<lparr>last_id := base + alloc\<rparr>) else (False, s))"

definition gn_faa :: "int \<Rightarrow> 'a ObIDService_scheme \<Rightarrow> int \<times> 'a ObIDService_scheme" where
  "gn_faa alloc s = (last_id s, s\<lparr>last_id := last_id s + alloc\<rparr>)"

definition gn_check :: "int \<Rightarrow> int \<Rightarrow> int \<Rightarrow> ob_ret \<times> (int \<times> int) option" where
  "gn_check tmp alloc limit =
     (if tmp \<ge> limit then (OB_EAGAIN, None) else (OB_SUCCESS, Some (tmp, min (tmp + alloc) limit)))"

definition max_pre_allocated_id :: "int \<Rightarrow> 'a ObIDService_scheme \<Rightarrow> int \<times> 'a ObIDService_scheme" where
  "max_pre_allocated_id base s =
     (if service_type s = TimestampService then
        let s1 = (if base > limited_id s then s\<lparr>last_id := inc_update_id (last_id s) base\<rparr> else s) in
        (last_id s1 + 2 * pre_allocated_range s1, s1)
      else (INT64_MAX, s))"

definition gn_needs_log :: "ob_ret \<Rightarrow> 'a ObIDService_scheme \<Rightarrow> bool" where
  "gn_needs_log ret s \<longleftrightarrow>
     ret = OB_EAGAIN \<or> limited_id s - last_id s < (pre_allocated_range s * 2) sdiv 3"

definition gn_next_limit :: "int \<Rightarrow> int \<Rightarrow> 'a ObIDService_scheme \<Rightarrow> int \<times> 'a ObIDService_scheme" where
  "gn_next_limit rng base s =
     (case max_pre_allocated_id base s of (most, s1) \<Rightarrow>
        (min most (max base (limited_id s1) + max (rng * 10) (pre_allocated_range s1)), s1))"

definition gn_allocate ::
  "int \<Rightarrow> int \<Rightarrow> 'a ObIDService_scheme \<Rightarrow> ob_ret \<times> (int \<times> int) option \<times> 'a ObIDService_scheme" where
  "gn_allocate rng base s =
     (let last_v = last_id s; alloc = gn_range rng base last_v (limited_id s) in
      if alloc \<le> 0 then (OB_EAGAIN, None, s)
      else
        let (tmp, s1) = (if base > last_v then
                           (case gn_cas base last_v alloc s of (ok, s1) \<Rightarrow> if ok then (base, s1) else gn_faa alloc s1)
                         else gn_faa alloc s);
            (ret, res) = gn_check tmp alloc (limited_id s1) in
        (ret, res, s1))"

definition get_number ::
  "id_env \<Rightarrow> int \<Rightarrow> int \<Rightarrow> 'a ObIDService_scheme \<Rightarrow> ob_ret \<times> (int \<times> int) option \<times> 'a ObIDService_scheme" where
  "get_number E rng base s =
     (case id_check_leader E s of (ret, leader, s1) \<Rightarrow>
        if ret \<noteq> OB_SUCCESS then (ret, None, s1)
        else if \<not> leader then (OB_NOT_MASTER, None, s1)
        else case gn_allocate rng base s1 of (ret1, res, s2) \<Rightarrow>
          if gn_needs_log ret1 s2 then
            (case gn_next_limit rng base s2 of (limit, s3) \<Rightarrow>
               (ret1, res, snd (submit_log_with_lock E limit limit s3)))
          else (ret1, res, s2))"

lemma check_and_fill_ls_keeps:
  assumes "check_and_fill_ls E s = (ret, s')"
  shows "s' = s\<lparr>ls_filled := ls_filled s'\<rparr>"
  using assms by (auto simp: check_and_fill_ls_def split: if_splits)

text \<open>What a submission changes, apart from the books of the callback.\<close>

lemma submit_log_effect:
  assumes "submit_log E last_v limit s = (ret, s')"
  shows "last_id s' = last_id s" "limited_id s' = limited_id s" "tmp_last_id s' = tmp_last_id s"
    "service_type s' = service_type s" "pre_allocated_range s' = pre_allocated_range s"
    "is_logging s \<Longrightarrow> s' = s"
    "is_logging s' \<Longrightarrow> \<not> is_logging s \<Longrightarrow> limited_id s < limit \<and> cb_limited_id s' = limit
       \<and> cb_srv_type s' = service_type s \<and> (\<exists>base. ie_append E base = (OB_SUCCESS, cb_log_ts s'))
       \<and> service_type s \<noteq> INVALID_ID_SERVICE_TYPE"
proof -
  obtain r1 s1 where 1: "check_and_fill_ls E s = (r1, s1)" by (cases "check_and_fill_ls E s")
  have s1: "s1 = s\<lparr>ls_filled := ls_filled s1\<rparr>" by (rule check_and_fill_ls_keeps [OF 1])
  have f: "last_id s1 = last_id s" "limited_id s1 = limited_id s" "tmp_last_id s1 = tmp_last_id s"
      "service_type s1 = service_type s" "pre_allocated_range s1 = pre_allocated_range s" "is_logging s1 = is_logging s"
    by (subst s1; simp)+
  show "last_id s' = last_id s" "limited_id s' = limited_id s" "tmp_last_id s' = tmp_last_id s"
    "service_type s' = service_type s" "pre_allocated_range s' = pre_allocated_range s"
    "is_logging s \<Longrightarrow> s' = s"
    using assms f by (auto simp: submit_log_def 1 cb_reset_def Let_def split: if_splits prod.splits)
  show "is_logging s' \<Longrightarrow> \<not> is_logging s \<Longrightarrow> limited_id s < limit \<and> cb_limited_id s' = limit
       \<and> cb_srv_type s' = service_type s \<and> (\<exists>base. ie_append E base = (OB_SUCCESS, cb_log_ts s'))
       \<and> service_type s \<noteq> INVALID_ID_SERVICE_TYPE"
    using assms f by (auto simp: submit_log_def 1 cb_reset_def serialize_ls_log_def Let_def
        split: if_splits prod.splits ServiceType.splits)
qed

text \<open>One call alone: the numbers it hands out are new, below the limit and not below its base.\<close>

lemma get_number_alone:
  assumes "get_number E rng base s = (OB_SUCCESS, res, s')"
  shows "\<exists>start end. res = Some (start, end) \<and> max base (last_id s) \<le> start \<and> start < end
    \<and> end \<le> start + rng \<and> end \<le> limited_id s \<and> end \<le> last_id s'"
proof -
  obtain r1 ld s1 where 1: "id_check_leader E s = (r1, ld, s1)" by (cases "id_check_leader E s") auto
  have s1: "last_id s1 = last_id s" "limited_id s1 = limited_id s"
    using 1 by (auto simp: id_check_leader_def check_and_fill_ls_def split: if_splits)
  obtain r2 re s2 where 2: "gn_allocate rng base s1 = (r2, re, s2)" by (cases "gn_allocate rng base s1") auto
  obtain limit s3 where 3: "gn_next_limit rng base s2 = (limit, s3)" by (cases "gn_next_limit rng base s2")
  obtain r4 s4 where 4: "submit_log E limit limit s3 = (r4, s4)" by (cases "submit_log E limit limit s3")
  have ok: "r2 = OB_SUCCESS" "re = res" and s': "s' = s2 \<or> s' = s3 \<or> s' = s4"
    using assms 1 2 3 4 by (auto simp: get_number_def submit_log_with_lock_def split: if_splits)
  have grow: "last_id s2 \<le> last_id s3" using 3
    by (auto simp: gn_next_limit_def max_pre_allocated_id_def Let_def split: if_splits)
  have "last_id s2 \<le> last_id s'" using s' grow submit_log_effect(1) [OF 4] by auto
  moreover have "\<exists>start end. re = Some (start, end) \<and> max base (last_id s) \<le> start \<and> start < end
      \<and> end \<le> start + rng \<and> end \<le> limited_id s \<and> end \<le> last_id s2"
    using 2 ok(1) s1 by (auto simp: gn_allocate_def gn_check_def gn_cas_def gn_faa_def gn_range_def Let_def
        split: if_splits prod.splits)
  ultimately show ?thesis using ok(2) by fastforce
qed

subsection \<open>The services\<close>

definition id_init :: "ServiceType \<Rightarrow> int \<Rightarrow> 'a ObIDService_scheme \<Rightarrow> 'a ObIDService_scheme" where
  "id_init ty pre s = s\<lparr>service_type := ty, pre_allocated_range := pre\<rparr>"

record ObIDMeta =
  meta_limited_id :: int
  meta_latest_log_ts :: SCN

type_synonym ObAllIDMeta = "ObIDMeta list"

definition inc_update_meta :: "int \<Rightarrow> SCN \<Rightarrow> ObIDMeta \<Rightarrow> ObIDMeta" where
  "inc_update_meta limit log_ts m =
     \<lparr>meta_limited_id = inc_update_id (meta_limited_id m) limit,
      meta_latest_log_ts = snd (inc_update (meta_latest_log_ts m) [] log_ts)\<rparr>"

definition update_all_id_meta :: "ObAllIDMeta \<Rightarrow> ObAllIDMeta \<Rightarrow> ObAllIDMeta" where
  "update_all_id_meta other metas =
     map2 (\<lambda>m x. inc_update_meta (meta_limited_id x) (meta_latest_log_ts x) m) metas other"

definition update_id_meta :: "int \<Rightarrow> int \<Rightarrow> SCN \<Rightarrow> ObAllIDMeta \<Rightarrow> ob_ret \<times> ObAllIDMeta" where
  "update_id_meta no limit log_ts metas =
     (if no \<le> service_no INVALID_ID_SERVICE_TYPE \<or> no \<ge> MAX_SERVICE_TYPE then (OB_INVALID_ARGUMENT, metas)
      else (OB_SUCCESS, metas[nat no := inc_update_meta limit log_ts (metas ! nat no)]))"

definition get_id_meta :: "int \<Rightarrow> ObAllIDMeta \<Rightarrow> ob_ret \<times> (int \<times> SCN) option" where
  "get_id_meta no metas =
     (if no \<le> service_no INVALID_ID_SERVICE_TYPE \<or> no \<ge> MAX_SERVICE_TYPE then (OB_INVALID_ARGUMENT, None)
      else (OB_SUCCESS, Some (meta_limited_id (metas ! nat no), meta_latest_log_ts (metas ! nat no))))"

text \<open>The meta data never goes back, and what is stored is read back or something larger is.\<close>

lemma id_meta_read_back:
  assumes "update_id_meta no limit log_ts metas = (OB_SUCCESS, metas')" "length metas = 3"
    "get_id_meta no metas' = (OB_SUCCESS, Some (limit', ts))"
  shows "limit' = max (meta_limited_id (metas ! nat no)) limit"
  using assms by (auto simp: update_id_meta_def get_id_meta_def inc_update_meta_def MAX_SERVICE_TYPE_def split: if_splits)

text \<open>The timestamp service, with the test of its speed.\<close>

record ObTimestampService = ObIDService +
  last_gts :: int
  last_request_ts :: int
  check_gts_speed_lock :: int

definition ts_init :: "ObTimestampService \<Rightarrow> ObTimestampService" where
  "ts_init s = (id_init TimestampService TIMESTAMP_PREALLOCATED_RANGE s)
     \<lparr>last_gts := 0, last_request_ts := 0, check_gts_speed_lock := 0\<rparr>"

definition CHECK_INTERVAL :: int where "CHECK_INTERVAL = 100000000"

definition get_timestamp :: "id_env \<Rightarrow> ObTimestampService \<Rightarrow> ob_ret \<times> int \<times> ObTimestampService" where
  "get_timestamp E s =
     (let current_time = ie_clock E * 1000;
          time_delta = current_time - last_request_ts s in
      case get_number E 1 current_time s of
        (ret, None, s1) \<Rightarrow> (ret, 0, s1)
      | (ret, Some (gts, _), s1) \<Rightarrow>
          if (last_request_ts s = 0 \<or> time_delta < 0) \<and> check_gts_speed_lock s1 = 0 then
            (ret, gts, s1\<lparr>last_request_ts := current_time, last_gts := gts\<rparr>)
          else if time_delta > CHECK_INTERVAL \<and> check_gts_speed_lock s1 = 0 then
            (if time_delta - (gts - last_gts s1) > time_delta sdiv 2 then
               (case get_number E (time_delta sdiv 10) current_time s1 of
                  (ret2, None, s2) \<Rightarrow> (ret2, gts, s2)
                | (ret2, Some (gts2, _), s2) \<Rightarrow>
                    (ret2, gts2, if ret2 = OB_SUCCESS then s2\<lparr>last_request_ts := current_time, last_gts := gts2\<rparr> else s2))
             else (ret, gts, s1\<lparr>last_request_ts := current_time, last_gts := gts\<rparr>))
          else (ret, gts, s1))"

text \<open>
  The access point of the tenant sends a request to the service of a primary tenant or to that of a
  standby one, whose answer is a parameter; the changes of role of the timestamp service set it.
\<close>

datatype AccessType = ACCESS_FOLLOWER | GTS_LEADER | STS_LEADER

definition ts_switch_to_leader ::
  "id_env \<Rightarrow> AccessType \<Rightarrow> 'a ObIDService_scheme \<Rightarrow> ob_ret \<times> AccessType \<times> 'a ObIDService_scheme" where
  "ts_switch_to_leader E acc s =
     (case check_and_fill_ls E s of (ret, s1) \<Rightarrow>
        if ret \<noteq> OB_SUCCESS then (ret, acc, s1)
        else case ie_max_scn E of (ret1, version) \<Rightarrow>
          if ret1 \<noteq> OB_SUCCESS then (ret1, acc, s1)
          else
            let v = (if scn_is_valid version then uint (scn_val version) else - 1) in
            (OB_SUCCESS, GTS_LEADER,
             if v \<ge> limited_id s1 then s1\<lparr>last_id := inc_update_id (last_id s1) v, tmp_last_id := 0\<rparr>
             else if tmp_last_id s1 \<noteq> 0 \<and> v > tmp_last_id s1 then s1\<lparr>tmp_last_id := inc_update_id (tmp_last_id s1) v\<rparr>
             else s1))"

definition ts_switch_to_follower :: "AccessType \<Rightarrow> AccessType" where
  "ts_switch_to_follower acc = (if acc = GTS_LEADER then ACCESS_FOLLOWER else acc)"

definition ts_resume_leader :: "AccessType \<Rightarrow> ob_ret \<times> AccessType" where
  "ts_resume_leader acc = (OB_SUCCESS, GTS_LEADER)"

definition access_get_number ::
  "id_env \<Rightarrow> ob_ret \<times> int \<Rightarrow> AccessType \<Rightarrow> ObTimestampService \<Rightarrow> ob_ret \<times> int \<times> ObTimestampService" where
  "access_get_number E standby acc s =
     (case acc of GTS_LEADER \<Rightarrow> get_timestamp E s
      | STS_LEADER \<Rightarrow> (fst standby, snd standby, s)
      | ACCESS_FOLLOWER \<Rightarrow> (OB_NOT_MASTER, 0, s))"

text \<open>A restart: each service takes its limit from the meta data of the log stream.\<close>

definition update_id_service :: "ObAllIDMeta \<Rightarrow> ObIDService list \<Rightarrow> ob_ret \<times> ObIDService list" where
  "update_id_service metas srvs =
     (OB_SUCCESS, map2 (\<lambda>m s. update_limited_id (meta_limited_id m) (meta_latest_log_ts m) s) metas srvs)"

text \<open>
  A timestamp is never below an earlier one: it is at or above the last number of the service, and
  that number moves behind it.
\<close>

lemma get_number_some:
  assumes "get_number E rng base s = (ret, res, s')"
  shows "ret = OB_SUCCESS \<longleftrightarrow> res \<noteq> None"
  using assms by (auto simp: get_number_def gn_allocate_def gn_check_def Let_def split: if_splits prod.splits)

lemma get_number_first:
  assumes "get_number E rng base s = (ret, Some (start, stop), s')"
  shows "ret = OB_SUCCESS" "last_id s \<le> start" "start < last_id s'"
  using assms get_number_some [OF assms] get_number_alone [of E rng base s "Some (start, stop)" s'] by auto

lemma get_timestamp_alone:
  assumes "get_timestamp E s = (OB_SUCCESS, gts, s')"
  shows "last_id s \<le> gts \<and> gts < last_id s'"
proof -
  let ?now = "ie_clock E * 1000" and ?d = "ie_clock E * 1000 - last_request_ts s"
  obtain r1 o1 s1 where 1: "get_number E 1 ?now s = (r1, o1, s1)" by (cases "get_number E 1 ?now s") auto
  obtain r2 o2 s2 where 2: "get_number E (?d sdiv 10) ?now s1 = (r2, o2, s2)" by (cases "get_number E (?d sdiv 10) ?now s1") auto
  have "o1 \<noteq> None" using assms get_number_some [OF 1] by (cases o1) (auto simp: get_timestamp_def 1 Let_def)
  then obtain g1 e1 where o1: "o1 = Some (g1, e1)" by auto
  note f1 = get_number_first [OF 1 [unfolded o1]]
  show ?thesis
  proof (cases "o2")
    case None
    with get_number_some [OF 2] have "r2 \<noteq> OB_SUCCESS" by simp
    with assms f1 None show ?thesis by (auto simp: get_timestamp_def 1 2 o1 Let_def split: if_splits)
  next
    case (Some x)
    obtain g2 e2 where o2: "o2 = Some (g2, e2)" using Some by (cases x) auto
    note f2 = get_number_first [OF 2 [unfolded o2]]
    from assms f1 f2 show ?thesis by (auto simp: get_timestamp_def 1 2 o1 o2 Let_def split: if_splits)
  qed
qed

end
