(* ===== verification/Id_System.thy ===== *)
theory Id_System
  imports Id_Service
begin

text \<open>
  The number service of a tenant on all its servers. A server instance is one life of one replica:
  it starts from a checkpoint of the log and replays the rest. Calls of \<^verbatim>\<open>get_number\<close> run on any
  instance, each in a thread of its own, and every access to the shared fields is one step; the
  sections under the lock are one step each. The replicated log takes an entry from an instance
  only when that instance has applied all earlier ones, which is what PALF guarantees for a
  leader; whether a submitted entry is in the end kept or lost is decided by the step.
\<close>

subsection \<open>Steps\<close>

datatype gn_pc =
    PcStart int int
  | PcLast int int int
  | PcTake int int int int
  | PcAdd int int int
  | PcTaken int int int int nat nat
  | PcChecked int int ob_ret
  | PcSubmit int

text \<open>
  Beside the instances, the log and the threads, the state has the number of entries that an
  instance has applied and of those it had applied at its last replay, the entry it waits for, and
  the history of ranges taken and ranges handed out, the latter with their place among the former.
\<close>

record id_sys =
  is_up :: "nat set"
  is_srv :: "nat \<Rightarrow> ObIDService"
  is_log :: "(nat \<times> int \<times> SCN) list"
  is_done :: "nat \<Rightarrow> nat"
  is_floor :: "nat \<Rightarrow> nat"
  is_flight :: "nat \<Rightarrow> nat option"
  is_threads :: "nat \<Rightarrow> (nat \<times> gn_pc) option"
  is_taken :: "(nat \<times> int \<times> int) list"
  is_given :: "(nat \<times> int \<times> int) list"

definition lim :: "(nat \<times> int \<times> SCN) list \<Rightarrow> nat \<Rightarrow> int" where
  "lim log k = (if k = 0 then MIN_LAST_ID else fst (snd (log ! (k - 1))))"

definition booted :: "(nat \<times> int \<times> SCN) list \<Rightarrow> nat \<Rightarrow> ServiceType \<Rightarrow> int \<Rightarrow> SCN \<Rightarrow> ObIDService \<Rightarrow> ObIDService" where
  "booted log k ty pre ts s = update_limited_id (lim log k) ts (id_init ty pre (cb_reset (id_reset s)))"

definition put_srv :: "nat \<Rightarrow> ObIDService \<Rightarrow> id_sys \<Rightarrow> id_sys" where
  "put_srv i s w = w\<lparr>is_srv := (is_srv w)(i := s)\<rparr>"

definition put_thread :: "nat \<Rightarrow> (nat \<times> gn_pc) option \<Rightarrow> id_sys \<Rightarrow> id_sys" where
  "put_thread t pc w = w\<lparr>is_threads := (is_threads w)(t := pc)\<rparr>"

definition put_taken :: "nat \<Rightarrow> nat \<Rightarrow> int \<Rightarrow> int \<Rightarrow> int \<Rightarrow> int \<Rightarrow> id_sys \<Rightarrow> id_sys" where
  "put_taken t i rng base tmp alloc w =
     (put_thread t (Some (i, PcTaken rng base tmp alloc (length (is_taken w)) (is_floor w i))) w)
       \<lparr>is_taken := is_taken w @ [(i, tmp, tmp + alloc)]\<rparr>"

text \<open>
  With \<open>strict\<close> no entry is replayed on an instance between the moment a thread takes its range there
  and the moment it reads the limit again.
\<close>

inductive id_step :: "bool \<Rightarrow> id_sys \<Rightarrow> id_sys \<Rightarrow> bool" for strict where
  boot: "i \<notin> is_up w \<Longrightarrow> k \<le> length (is_log w) \<Longrightarrow>
    id_step strict w ((put_srv i (booted (is_log w) k ty pre ts s) w)
      \<lparr>is_up := insert i (is_up w), is_done := (is_done w)(i := k), is_floor := (is_floor w)(i := k),
       is_flight := (is_flight w)(i := None)\<rparr>)"
| call: "i \<in> is_up w \<Longrightarrow> is_threads w t = None \<Longrightarrow> id_check_leader E (is_srv w i) = (OB_SUCCESS, True, s) \<Longrightarrow>
    id_step strict w (put_thread t (Some (i, PcStart rng base)) (put_srv i s w))"
| read_last: "is_threads w t = Some (i, PcStart rng base) \<Longrightarrow>
    id_step strict w (put_thread t (Some (i, PcLast rng base (last_id (is_srv w i)))) w)"
| read_limit: "is_threads w t = Some (i, PcLast rng base l) \<Longrightarrow>
    alloc = gn_range rng base l (limited_id (is_srv w i)) \<Longrightarrow>
    pc = (if alloc \<le> 0 then PcChecked rng base OB_EAGAIN else if base > l then PcTake rng base l alloc else PcAdd rng base alloc) \<Longrightarrow>
    id_step strict w (put_thread t (Some (i, pc)) w)"
| swap: "is_threads w t = Some (i, PcTake rng base l alloc) \<Longrightarrow> gn_cas base l alloc (is_srv w i) = (True, s) \<Longrightarrow>
    id_step strict w (put_taken t i rng base base alloc (put_srv i s w))"
| swap_fails: "is_threads w t = Some (i, PcTake rng base l alloc) \<Longrightarrow> gn_cas base l alloc (is_srv w i) = (False, s) \<Longrightarrow>
    id_step strict w (put_thread t (Some (i, PcAdd rng base alloc)) w)"
| add: "is_threads w t = Some (i, PcAdd rng base alloc) \<Longrightarrow> gn_faa alloc (is_srv w i) = (tmp, s) \<Longrightarrow>
    id_step strict w (put_taken t i rng base tmp alloc (put_srv i s w))"
| check: "is_threads w t = Some (i, PcTaken rng base tmp alloc idx f) \<Longrightarrow> (strict \<longrightarrow> is_floor w i = f) \<Longrightarrow>
    gn_check tmp alloc (limited_id (is_srv w i)) = (ret, res) \<Longrightarrow>
    id_step strict w ((put_thread t (Some (i, PcChecked rng base ret)) w)
      \<lparr>is_given := is_given w @ (case res of None \<Rightarrow> [] | Some (a, b) \<Rightarrow> [(idx, a, b)])\<rparr>)"
| no_log: "is_threads w t = Some (i, PcChecked rng base ret) \<Longrightarrow> \<not> gn_needs_log ret (is_srv w i) \<Longrightarrow>
    id_step strict w (put_thread t None w)"
| next_limit: "is_threads w t = Some (i, PcChecked rng base ret) \<Longrightarrow> gn_needs_log ret (is_srv w i) \<Longrightarrow>
    gn_next_limit rng base (is_srv w i) = (limit, s) \<Longrightarrow>
    id_step strict w (put_thread t (Some (i, PcSubmit limit)) (put_srv i s w))"
| submit_lost: "is_threads w t = Some (i, PcSubmit limit) \<Longrightarrow>
    submit_log_with_lock E limit limit (is_srv w i) = (ret, s) \<Longrightarrow>
    id_step strict w (put_thread t None (put_srv i s w))"
| submit_kept: "is_threads w t = Some (i, PcSubmit limit) \<Longrightarrow>
    submit_log_with_lock E limit limit (is_srv w i) = (ret, s) \<Longrightarrow> is_logging s \<Longrightarrow> \<not> is_logging (is_srv w i) \<Longrightarrow>
    is_done w i = length (is_log w) \<Longrightarrow> scn_is_valid (cb_log_ts s) \<Longrightarrow>
    id_step strict w ((put_thread t None (put_srv i s w))
      \<lparr>is_log := is_log w @ [(i, limit, cb_log_ts s)], is_flight := (is_flight w)(i := Some (length (is_log w)))\<rparr>)"
| success: "i \<in> is_up w \<Longrightarrow> is_flight w i = Some (is_done w i) \<Longrightarrow> cb_on_success E (is_srv w i) = (ret, s, upd) \<Longrightarrow>
    id_step strict w ((put_srv i s w)
      \<lparr>is_done := (is_done w)(i := Suc (is_done w i)), is_flight := (is_flight w)(i := None)\<rparr>)"
| failure: "i \<in> is_up w \<Longrightarrow> is_logging (is_srv w i) \<Longrightarrow> cb_on_failure E (is_srv w i) = (ret, s, upd) \<Longrightarrow>
    id_step strict w ((put_srv i s w)\<lparr>is_flight := (is_flight w)(i := None)\<rparr>)"
| replay: "i \<in> is_up w \<Longrightarrow> k \<le> is_done w i \<Longrightarrow> k < length (is_log w) \<Longrightarrow> is_log w ! k = (own, limit, ts) \<Longrightarrow>
    id_replay E OB_SUCCESS (OB_SUCCESS, limit, limit) ts (is_srv w i) = (ret, s, upd) \<Longrightarrow>
    id_step strict w (if k = is_done w i
      then (put_srv i s w)\<lparr>is_done := (is_done w)(i := Suc k), is_floor := (is_floor w)(i := Suc k)\<rparr>
      else put_srv i s w)"
| flush: "i \<in> is_up w \<Longrightarrow> id_flush E ts (is_srv w i) = (ret, s, upd) \<Longrightarrow> id_step strict w (put_srv i s w)"
| lead: "i \<in> is_up w \<Longrightarrow> service_type (is_srv w i) = TimestampService \<Longrightarrow> ts_switch_to_leader E acc (is_srv w i) = (ret, acc', s) \<Longrightarrow>
    id_step strict w (put_srv i s w)"

definition id_start :: "id_sys \<Rightarrow> bool" where
  "id_start w \<longleftrightarrow> is_up w = {} \<and> is_log w = [] \<and> is_threads w = (\<lambda>_. None) \<and> is_taken w = [] \<and> is_given w = []"

inductive id_reachable :: "bool \<Rightarrow> id_sys \<Rightarrow> bool" for strict where
  start: "id_start w \<Longrightarrow> id_reachable strict w"
| step: "id_reachable strict w \<Longrightarrow> id_step strict w w' \<Longrightarrow> id_reachable strict w'"

subsection \<open>The invariant\<close>

definition log_ok :: "(nat \<times> int \<times> SCN) list \<Rightarrow> bool" where
  "log_ok log \<longleftrightarrow> (\<forall>k < length log. lim log k < lim log (Suc k) \<and> scn_is_valid (snd (snd (log ! k))))"

text \<open>The entry of the log that covers a number.\<close>

definition owns :: "(nat \<times> int \<times> SCN) list \<Rightarrow> nat \<Rightarrow> int \<Rightarrow> bool" where
  "owns log i x \<longleftrightarrow> (\<exists>k < length log. fst (log ! k) = i \<and> lim log k \<le> x \<and> x < lim log (Suc k))"

definition srv_ok :: "id_sys \<Rightarrow> nat \<Rightarrow> bool" where
  "srv_ok w i \<longleftrightarrow> is_floor w i \<le> is_done w i \<and> is_done w i \<le> length (is_log w)
     \<and> limited_id (is_srv w i) = lim (is_log w) (is_done w i)
     \<and> lim (is_log w) (is_floor w i) \<le> last_id (is_srv w i)
     \<and> (\<forall>k. is_floor w i \<le> k \<longrightarrow> k < is_done w i \<longrightarrow> fst (is_log w ! k) = i)
     \<and> tmp_last_id (is_srv w i) = 0
     \<and> (\<forall>k. is_flight w i = Some k \<longrightarrow> k < length (is_log w) \<and> is_logging (is_srv w i)
          \<and> cb_srv_type (is_srv w i) \<noteq> INVALID_ID_SERVICE_TYPE
          \<and> is_log w ! k = (i, cb_limited_id (is_srv w i), cb_log_ts (is_srv w i)))"

fun pc_ok :: "(nat \<times> int \<times> SCN) list \<Rightarrow> (nat \<times> int \<times> int) list \<Rightarrow> nat \<Rightarrow> gn_pc \<Rightarrow> bool" where
  "pc_ok log taken i (PcTake rng base l alloc) \<longleftrightarrow> 0 < alloc \<and> l < base"
| "pc_ok log taken i (PcAdd rng base alloc) \<longleftrightarrow> 0 < alloc"
| "pc_ok log taken i (PcTaken rng base tmp alloc idx f) \<longleftrightarrow> 0 < alloc \<and> idx < length taken
     \<and> taken ! idx = (i, tmp, tmp + alloc) \<and> f \<le> length log \<and> lim log f \<le> tmp"
| "pc_ok log taken i pc \<longleftrightarrow> True"

definition threads_ok :: "id_sys \<Rightarrow> bool" where
  "threads_ok w \<longleftrightarrow> (\<forall>t i pc. is_threads w t = Some (i, pc) \<longrightarrow> i \<in> is_up w \<and> pc_ok (is_log w) (is_taken w) i pc)"

definition taken_ok :: "id_sys \<Rightarrow> bool" where
  "taken_ok w \<longleftrightarrow> (\<forall>(i, a, b) \<in> set (is_taken w). i \<in> is_up w \<and> a < b \<and> b \<le> last_id (is_srv w i))
     \<and> sorted_wrt (\<lambda>(i, a, b) (j, c, d). i = j \<longrightarrow> b \<le> c) (is_taken w)"

definition given_ok :: "id_sys \<Rightarrow> bool" where
  "given_ok w \<longleftrightarrow> (\<forall>(idx, a, b) \<in> set (is_given w). idx < length (is_taken w) \<and> a < b
     \<and> (\<exists>i d. is_taken w ! idx = (i, a, d) \<and> b \<le> d \<and> (\<forall>x. a \<le> x \<longrightarrow> x < b \<longrightarrow> owns (is_log w) i x)))"

fun pc_index :: "gn_pc \<Rightarrow> nat option" where
  "pc_index (PcTaken rng base tmp alloc idx f) = Some idx"
| "pc_index pc = None"

definition index_at :: "id_sys \<Rightarrow> nat \<Rightarrow> nat option" where
  "index_at w t = (case is_threads w t of None \<Rightarrow> None | Some (i, pc) \<Rightarrow> pc_index pc)"

definition index_ok :: "id_sys \<Rightarrow> bool" where
  "index_ok w \<longleftrightarrow> distinct (map fst (is_given w))
     \<and> (\<forall>t idx. index_at w t = Some idx \<longrightarrow> idx \<notin> fst ` set (is_given w))
     \<and> (\<forall>t t' idx. index_at w t = Some idx \<longrightarrow> index_at w t' = Some idx \<longrightarrow> t = t')"

definition id_inv :: "id_sys \<Rightarrow> bool" where
  "id_inv w \<longleftrightarrow> log_ok (is_log w) \<and> (\<forall>i \<in> is_up w. srv_ok w i) \<and> threads_ok w \<and> taken_ok w \<and> given_ok w \<and> index_ok w"

subsection \<open>What the operations do to an instance\<close>

definition srv_grows :: "ObIDService \<Rightarrow> ObIDService \<Rightarrow> bool" where
  "srv_grows s s' \<longleftrightarrow> last_id s \<le> last_id s' \<and> limited_id s' = limited_id s \<and> tmp_last_id s' = tmp_last_id s
     \<and> is_logging s' = is_logging s \<and> cb_srv_type s' = cb_srv_type s \<and> cb_limited_id s' = cb_limited_id s
     \<and> cb_log_ts s' = cb_log_ts s"

lemma srv_grows_refl [simp]: "srv_grows s s" by (simp add: srv_grows_def)

lemma fill_ls_grows: "check_and_fill_ls E s = (ret, s') \<Longrightarrow> srv_grows s s'"
  by (auto simp: check_and_fill_ls_def srv_grows_def split: if_splits)

lemma operations_grow:
  "id_check_leader E s = (ret, ok, s') \<Longrightarrow> srv_grows s s'"
  "0 < alloc \<Longrightarrow> l < base \<Longrightarrow> gn_cas base l alloc s = (ok, s') \<Longrightarrow> srv_grows s s'"
  "0 < alloc \<Longrightarrow> gn_faa alloc s = (tmp, s') \<Longrightarrow> srv_grows s s'"
  "gn_next_limit rng base s = (limit, s') \<Longrightarrow> srv_grows s s'"
  "id_flush E ts s = (ret, s', upd) \<Longrightarrow> srv_grows s s'"
  "ts_switch_to_leader E acc s = (ret, acc', s') \<Longrightarrow> tmp_last_id s = 0 \<Longrightarrow> srv_grows s s'"
  by (auto simp: id_check_leader_def gn_cas_def gn_faa_def gn_next_limit_def max_pre_allocated_id_def id_flush_def
      ts_switch_to_leader_def update_ls_id_meta_def check_and_fill_ls_def srv_grows_def Let_def split: if_splits prod.splits)

lemma on_success_effect:
  assumes "cb_on_success E s = (ret, s', upd)" "tmp_last_id s = 0" "cb_srv_type s \<noteq> INVALID_ID_SERVICE_TYPE"
    "0 \<le> cb_limited_id s" "scn_is_valid (cb_log_ts s)"
  shows "last_id s' = last_id s" "limited_id s' = max (limited_id s) (cb_limited_id s)" "tmp_last_id s' = 0"
  using assms by (auto simp: cb_on_success_def handle_submit_callback_def update_ls_id_meta_def check_and_fill_ls_def
      cb_reset_def Let_def split: if_splits)

lemma on_failure_effect:
  assumes "cb_on_failure E s = (ret, s', upd)"
  shows "last_id s' = last_id s" "limited_id s' = limited_id s" "tmp_last_id s' = tmp_last_id s"
  using assms by (auto simp: cb_on_failure_def handle_submit_callback_def cb_reset_def split: if_splits)

lemma replay_effect:
  assumes "id_replay E OB_SUCCESS (OB_SUCCESS, limit, limit) ts s = (ret, s', upd)" "0 \<le> limit" "scn_is_valid ts"
  shows "last_id s' = max (last_id s) limit" "limited_id s' = max (limited_id s) limit" "tmp_last_id s' = 0"
    "is_logging s' = is_logging s" "cb_srv_type s' = cb_srv_type s" "cb_limited_id s' = cb_limited_id s" "cb_log_ts s' = cb_log_ts s"
  using assms by (auto simp: id_replay_def handle_replay_result_def update_ls_id_meta_def check_and_fill_ls_def
      Let_def split: if_splits)

lemma submit_effect:
  assumes "submit_log_with_lock E limit limit s = (ret, s')"
  shows "last_id s' = last_id s" "limited_id s' = limited_id s" "tmp_last_id s' = tmp_last_id s"
    "is_logging s \<Longrightarrow> s' = s"
    "is_logging s' \<Longrightarrow> \<not> is_logging s \<Longrightarrow> limited_id s < limit \<and> cb_limited_id s' = limit
       \<and> cb_srv_type s' \<noteq> INVALID_ID_SERVICE_TYPE"
proof -
  obtain r1 s1 where 1: "submit_log E limit limit s = (r1, s1)" by (cases "submit_log E limit limit s")
  have s': "s' = s \<or> s' = s1" using assms 1 by (auto simp: submit_log_with_lock_def split: if_splits)
  note e = submit_log_effect [OF 1]
  show "last_id s' = last_id s" "limited_id s' = limited_id s" "tmp_last_id s' = tmp_last_id s" "is_logging s \<Longrightarrow> s' = s"
    "is_logging s' \<Longrightarrow> \<not> is_logging s \<Longrightarrow> limited_id s < limit \<and> cb_limited_id s' = limit
       \<and> cb_srv_type s' \<noteq> INVALID_ID_SERVICE_TYPE"
    using s' e by auto
qed

lemma booted_fields:
  "last_id (booted log k ty pre ts s) = max MIN_LAST_ID (lim log k)" "limited_id (booted log k ty pre ts s) = max MIN_LAST_ID (lim log k)"
  "tmp_last_id (booted log k ty pre ts s) = 0" "\<not> is_logging (booted log k ty pre ts s)"
  by (simp_all add: booted_def update_limited_id_def id_init_def cb_reset_def id_reset_def)

subsection \<open>Limits and owners\<close>

lemma lim_append [simp]: "k \<le> length log \<Longrightarrow> lim (log @ xs) k = lim log k"
  by (auto simp: lim_def nth_append)

lemma lim_last [simp]: "lim (log @ [e]) (Suc (length log)) = fst (snd e)"
  by (simp add: lim_def)

lemma lim_0 [simp]: "lim log 0 = MIN_LAST_ID" by (simp add: lim_def)

lemma lim_mono: "log_ok log \<Longrightarrow> j \<le> k \<Longrightarrow> k \<le> length log \<Longrightarrow> lim log j \<le> lim log k"
proof (induction k)
  case (Suc k)
  have "lim log k < lim log (Suc k)" using Suc.prems by (simp add: log_ok_def)
  then show ?case using Suc by (cases "j = Suc k") auto
qed simp

lemma lim_positive: "log_ok log \<Longrightarrow> k \<le> length log \<Longrightarrow> MIN_LAST_ID \<le> lim log k"
  using lim_mono [of log 0 k] by simp

lemma owns_append: "owns log i x \<Longrightarrow> owns (log @ xs) i x"
  unfolding owns_def by (elim exE conjE, rule_tac x = k in exI) (simp add: nth_append)

lemma owns_unique:
  assumes "log_ok log" "owns log i x" "owns log j x"
  shows "i = j"
proof -
  obtain k where k: "k < length log" "fst (log ! k) = i" "lim log k \<le> x" "x < lim log (Suc k)" using assms(2) by (auto simp: owns_def)
  obtain m where m: "m < length log" "fst (log ! m) = j" "lim log m \<le> x" "x < lim log (Suc m)" using assms(3) by (auto simp: owns_def)
  have "\<not> Suc k \<le> m" "\<not> Suc m \<le> k"
    using k m lim_mono [OF assms(1), of "Suc k" m] lim_mono [OF assms(1), of "Suc m" k] by auto
  then have "k = m" by simp
  with k m show ?thesis by simp
qed

lemma owns_between:
  assumes "f \<le> d" "d \<le> length log" "lim log f \<le> x" "x < lim log d" "\<forall>k. f \<le> k \<longrightarrow> k < d \<longrightarrow> fst (log ! k) = i"
  shows "owns log i x"
  using assms
proof (induction d)
  case (Suc d)
  show ?case
  proof (cases "x < lim log d")
    case True
    show ?thesis
    proof (cases "f = Suc d")
      case True
      with Suc.prems(3,4) show ?thesis by simp
    next
      case False
      with Suc \<open>x < lim log d\<close> show ?thesis by simp
    qed
  next
    case False
    moreover have "f \<le> d" using Suc.prems(1,3,4) by (cases "f = Suc d") auto
    ultimately show ?thesis using Suc.prems unfolding owns_def by (intro exI [of _ d]) auto
  qed
qed simp

subsection \<open>Preservation\<close>

lemmas put_defs = put_srv_def put_thread_def put_taken_def

lemma thread_ok:
  assumes "id_inv w" "is_threads w t = Some (i, pc)"
  shows "i \<in> is_up w" "pc_ok (is_log w) (is_taken w) i pc" "srv_ok w i"
  using assms unfolding id_inv_def threads_ok_def by metis+

lemma pc_ok_append: "pc_ok log taken i pc \<Longrightarrow> pc_ok (log @ xs) (taken @ ys) i pc"
  by (cases pc) (auto simp: nth_append)

text \<open>A step that only moves one instance forward.\<close>

lemma srv_ok_grows:
  assumes "srv_ok w i" "srv_grows (is_srv w i) (is_srv w' i)" "is_floor w' i = is_floor w i" "is_done w' i = is_done w i"
    "is_log w' = is_log w" "is_flight w' i = is_flight w i"
  shows "srv_ok w' i"
  using assms by (auto simp: srv_ok_def srv_grows_def)

lemma taken_ok_grows:
  assumes "taken_ok w" "is_taken w' = is_taken w" "is_up w \<subseteq> is_up w'"
    "\<forall>i \<in> is_up w. last_id (is_srv w i) \<le> last_id (is_srv w' i)"
  shows "taken_ok w'"
  using assms unfolding taken_ok_def by force

lemma id_inv_srv:
  assumes "id_inv w" "i \<in> is_up w" "last_id (is_srv w i) \<le> last_id s"
    "is_up w' = is_up w" "is_log w' = is_log w" "is_threads w' = is_threads w" "is_taken w' = is_taken w" "is_given w' = is_given w"
    "is_srv w' = (is_srv w)(i := s)" "\<forall>j. j \<noteq> i \<longrightarrow> is_floor w' j = is_floor w j \<and> is_done w' j = is_done w j \<and> is_flight w' j = is_flight w j"
    "srv_ok w' i"
  shows "id_inv w'"
proof -
  have "srv_ok w' j" if "j \<in> is_up w" for j
  proof (cases "j = i")
    case False
    with assms(1,5,9,10) that show ?thesis by (auto simp: id_inv_def srv_ok_def)
  qed (use assms(11) in simp)
  moreover have "taken_ok w" using assms(1) by (simp add: id_inv_def)
  then have "taken_ok w'" by (rule taken_ok_grows) (use assms(3,4,7,9) in simp_all)
  ultimately show ?thesis
    using assms(1,4-8) by (simp add: id_inv_def threads_ok_def given_ok_def index_ok_def index_at_def)
qed

lemma index_ok_mono:
  assumes "index_ok w" "is_given w' = is_given w" "\<And>u idx. index_at w' u = Some idx \<Longrightarrow> index_at w u = Some idx"
  shows "index_ok w'"
  unfolding index_ok_def
proof (intro conjI allI impI)
  show "distinct (map fst (is_given w'))" using assms(1,2) by (simp add: index_ok_def)
next
  fix t idx assume "index_at w' t = Some idx"
  with assms(3) have "index_at w t = Some idx" by blast
  with assms(1,2) show "idx \<notin> fst ` set (is_given w')" unfolding index_ok_def by metis
next
  fix t t' idx assume "index_at w' t = Some idx" "index_at w' t' = Some idx"
  with assms(3) have "index_at w t = Some idx" "index_at w t' = Some idx" by blast+
  with assms(1) show "t = t'" unfolding index_ok_def by metis
qed

text \<open>A step that only moves one thread.\<close>

lemma id_inv_thread:
  assumes "id_inv w" "is_threads w t = None \<or> (\<exists>pc0. is_threads w t = Some (i, pc0))" "i \<in> is_up w"
    "pc = None \<or> (\<exists>pc1. pc = Some (i, pc1) \<and> pc_ok (is_log w) (is_taken w) i pc1 \<and> pc_index pc1 = None)"
  shows "id_inv (put_thread t pc w)"
proof -
  have "threads_ok (put_thread t pc w)"
    using assms by (auto simp: id_inv_def threads_ok_def put_thread_def)
  moreover have "index_at (put_thread t pc w) t = None" "\<forall>u. u \<noteq> t \<longrightarrow> index_at (put_thread t pc w) u = index_at w u"
    using assms(4) by (auto simp: index_at_def put_thread_def)
  then have old: "index_at w u = Some idx" if "index_at (put_thread t pc w) u = Some idx" for u idx
    using that by (cases "u = t") auto
  have "is_given (put_thread t pc w) = is_given w" by (simp add: put_thread_def)
  then have "index_ok (put_thread t pc w)"
    using assms(1) old by (intro index_ok_mono [of w "put_thread t pc w"]) (unfold id_inv_def, blast+)
  ultimately show ?thesis
    using assms(1) by (simp add: id_inv_def put_thread_def srv_ok_def taken_ok_def given_ok_def)
qed

lemma id_inv_grows:
  assumes "id_inv w" "i \<in> is_up w" "srv_grows (is_srv w i) s"
  shows "id_inv (put_srv i s w)"
proof -
  have "srv_ok w i" using assms(1,2) by (simp add: id_inv_def)
  then have "srv_ok (put_srv i s w) i" by (rule srv_ok_grows) (use assms(3) in \<open>simp_all add: put_srv_def\<close>)
  note ok = this
  show ?thesis
    by (rule id_inv_srv [OF assms(1,2) _ _ _ _ _ _ _ _ ok, of s]) (use assms(3) in \<open>simp_all add: put_srv_def srv_grows_def\<close>)
qed

lemma id_inv_thread_srv:
  assumes "id_inv w" "is_threads w t = Some (i, pc0)" "srv_grows (is_srv w i) s"
    "pc = None \<or> (\<exists>pc1. pc = Some (i, pc1) \<and> pc_ok (is_log w) (is_taken w) i pc1 \<and> pc_index pc1 = None)"
  shows "id_inv (put_thread t pc (put_srv i s w))"
proof -
  note i = thread_ok(1) [OF assms(1,2)]
  have "id_inv (put_srv i s w)" by (rule id_inv_grows [OF assms(1) i assms(3)])
  then show ?thesis by (rule id_inv_thread) (use assms(2,4) i in \<open>simp_all add: put_srv_def\<close>)
qed

lemma put_srv_same [simp]: "put_srv i (is_srv w i) w = w" by (simp add: put_srv_def)

text \<open>A thread takes a range.\<close>

lemma taken_ok_take:
  assumes "taken_ok w" "i \<in> is_up w" "0 < alloc" "last_id (is_srv w i) \<le> tmp" "last_id s = tmp + alloc"
  shows "taken_ok (put_taken t i rng base tmp alloc (put_srv i s w))"
proof -
  have old: "j \<in> is_up w" "a < b" "b \<le> last_id (is_srv w j)" if "(j, a, b) \<in> set (is_taken w)" for j a b
    using assms(1) that by (auto simp: taken_ok_def)
  have "b \<le> tmp" if "(i, a, b) \<in> set (is_taken w)" for a b using old(3) [OF that] assms(4) by simp
  then show ?thesis using assms old by (auto simp: taken_ok_def put_defs sorted_wrt_append intro: order_trans)
qed

lemma index_ok_new:
  assumes "index_ok w" "is_given w' = is_given w" "index_at w' t = Some n" "\<And>u. u \<noteq> t \<Longrightarrow> index_at w' u = index_at w u"
    "\<And>u idx. index_at w u = Some idx \<Longrightarrow> idx < n" "\<And>idx. idx \<in> fst ` set (is_given w) \<Longrightarrow> idx < n"
  shows "index_ok w'"
  unfolding index_ok_def
proof (intro conjI allI impI)
  show "distinct (map fst (is_given w'))" using assms(1,2) by (simp add: index_ok_def)
next
  fix u idx assume u: "index_at w' u = Some idx"
  show "idx \<notin> fst ` set (is_given w')"
  proof (cases "u = t")
    case True
    with u assms(2,3) assms(6) [of n] show ?thesis by auto
  next
    case False
    with u assms(4) have "index_at w u = Some idx" by simp
    with assms(1,2) show ?thesis unfolding index_ok_def by metis
  qed
next
  fix u u' idx assume u: "index_at w' u = Some idx" "index_at w' u' = Some idx"
  have "\<not> (v = t \<and> v' \<noteq> t)" if "index_at w' v = Some idx" "index_at w' v' = Some idx" for v v'
    using that assms(3,4) assms(5) [of v' n] by force
  with u have "(u = t) = (u' = t)" by metis
  moreover have "u = u'" if "u \<noteq> t" "u' \<noteq> t"
    using that u assms(1,4) unfolding index_ok_def by metis
  ultimately show "u = u'" by blast
qed

lemma id_inv_take:
  assumes "id_inv w" "is_threads w t = Some (i, pc0)" "0 < alloc" "last_id (is_srv w i) \<le> tmp"
    "srv_grows (is_srv w i) s" "last_id s = tmp + alloc"
  shows "id_inv (put_taken t i rng base tmp alloc (put_srv i s w))" (is "id_inv ?w")
proof -
  note i = thread_ok(1) [OF assms(1,2)] and s = thread_ok(3) [OF assms(1,2)]
  have g: "id_inv (put_srv i s w)" by (rule id_inv_grows [OF assms(1) i assms(5)])
  have "\<forall>j \<in> is_up ?w. srv_ok ?w j" using g by (simp add: id_inv_def srv_ok_def put_defs)
  moreover have "threads_ok ?w" unfolding threads_ok_def
  proof (intro allI impI)
    fix u j pc assume u: "is_threads ?w u = Some (j, pc)"
    show "j \<in> is_up ?w \<and> pc_ok (is_log ?w) (is_taken ?w) j pc"
    proof (cases "u = t")
      case True
      with u assms(3,4) s i show ?thesis by (auto simp: put_defs srv_ok_def)
    next
      case False
      with u have "is_threads w u = Some (j, pc)" by (simp add: put_defs)
      with assms(1) have "j \<in> is_up w" "pc_ok (is_log w) (is_taken w) j pc" by (auto simp: id_inv_def threads_ok_def)
      then show ?thesis using pc_ok_append [of "is_log w" "is_taken w" j pc "[]"] by (simp add: put_defs)
    qed
  qed
  moreover have "taken_ok ?w" using assms i by (intro taken_ok_take) (simp_all add: id_inv_def)
  moreover have "given_ok w" using assms(1) by (simp add: id_inv_def)
  then have "given_ok ?w" by (fastforce simp: given_ok_def put_defs nth_append)
  moreover have "index_ok ?w"
  proof -
    have new: "index_at ?w t = Some (length (is_taken w))" by (simp add: index_at_def put_defs)
    have old: "index_at ?w u = index_at w u" if "u \<noteq> t" for u using that by (simp add: index_at_def put_defs)
    have less: "idx < length (is_taken w)" if "index_at w u = Some idx" for u idx
      using that assms(1) by (auto simp: index_at_def id_inv_def threads_ok_def split: option.splits elim!: pc_index.elims) force
    have given: "idx < length (is_taken w)" if "idx \<in> fst ` set (is_given w)" for idx
      using that assms(1) by (fastforce simp: id_inv_def given_ok_def)
    have same: "is_given ?w = is_given w" by (simp add: put_defs)
    have ok: "index_ok w" using assms(1) by (simp add: id_inv_def)
    show ?thesis by (rule index_ok_new [OF ok same new old less given])
  qed
  ultimately show ?thesis using assms(1) by (simp add: id_inv_def put_defs)
qed

text \<open>A thread reads the limit again: what it hands out was covered by entries of its own instance.\<close>

lemma checked_range_owned:
  assumes "id_inv w" "is_threads w t = Some (i, PcTaken rng base tmp alloc idx f)" "is_floor w i = f"
    "gn_check tmp alloc (limited_id (is_srv w i)) = (ret, Some (a, b))"
  shows "a = tmp" "a < b" "b \<le> tmp + alloc" "\<forall>x. a \<le> x \<longrightarrow> x < b \<longrightarrow> owns (is_log w) i x"
proof -
  note pc = thread_ok(2) [OF assms(1,2)] and s = thread_ok(3) [OF assms(1,2)]
  show ab: "a = tmp" "a < b" "b \<le> tmp + alloc" using assms(4) pc by (auto simp: gn_check_def split: if_splits)
  have b: "b \<le> lim (is_log w) (is_done w i)" using assms(4) s by (auto simp: gn_check_def srv_ok_def split: if_splits)
  show "\<forall>x. a \<le> x \<longrightarrow> x < b \<longrightarrow> owns (is_log w) i x"
    using s pc assms(3) ab b by (auto simp: srv_ok_def intro!: owns_between [of "is_floor w i" "is_done w i"])
qed

lemma id_inv_check:
  assumes "id_inv w" "is_threads w t = Some (i, PcTaken rng base tmp alloc idx f)" "is_floor w i = f"
    "gn_check tmp alloc (limited_id (is_srv w i)) = (ret, res)"
  shows "id_inv ((put_thread t (Some (i, PcChecked rng base ret)) w)
      \<lparr>is_given := is_given w @ (case res of None \<Rightarrow> [] | Some (a, b) \<Rightarrow> [(idx, a, b)])\<rparr>)" (is "id_inv ?w")
proof (cases res)
  case None
  note up = thread_ok(1) [OF assms(1,2)]
  have "id_inv (put_thread t (Some (i, PcChecked rng base ret)) w)"
    by (rule id_inv_thread [OF assms(1) _ up]) (use assms(2) in simp_all)
  then show ?thesis by (simp add: None put_thread_def)
next
  case (Some r)
  then obtain a b where r: "res = Some (a, b)" by (cases r) auto
  note c = checked_range_owned [OF assms(1-3) assms(4) [unfolded r]]
  note up = thread_ok(1) [OF assms(1,2)] and pc = thread_ok(2) [OF assms(1,2)]
  have inv: "id_inv (put_thread t (Some (i, PcChecked rng base ret)) w)" (is "id_inv ?v")
    by (rule id_inv_thread [OF assms(1) _ up]) (use assms(2) in simp_all)
  have at: "index_at w t = Some idx" using assms(2) by (simp add: index_at_def)
  have gone: "index_at ?v t = None" "\<And>u. u \<noteq> t \<Longrightarrow> index_at ?v u = index_at w u" by (simp_all add: index_at_def put_thread_def)
  have "index_ok w" using assms(1) by (simp add: id_inv_def)
  then have fresh: "idx \<notin> fst ` set (is_given w)" and only: "\<And>u. index_at w u = Some idx \<Longrightarrow> u = t"
    using at unfolding index_ok_def by metis+
  have "given_ok ?v" "index_ok ?v" using inv by (simp_all add: id_inv_def)
  have given: "given_ok ?w"
    using \<open>given_ok ?v\<close> c pc by (auto simp: given_ok_def r put_thread_def)
  have same: "index_at ?w = index_at ?v" by (rule ext) (simp add: index_at_def)
  have none: "\<And>u. index_at ?v u \<noteq> Some idx" using gone only by (metis option.distinct(1))
  have index: "index_ok ?w"
    using \<open>index_ok ?v\<close> fresh none unfolding index_ok_def same by (auto simp: r put_thread_def)
  show ?thesis using inv given index by (simp add: id_inv_def threads_ok_def taken_ok_def srv_ok_def)
qed

text \<open>An instance comes up.\<close>

lemma id_inv_boot:
  assumes "id_inv w" "i \<notin> is_up w" "k \<le> length (is_log w)"
  shows "id_inv ((put_srv i (booted (is_log w) k ty pre ts s) w)
      \<lparr>is_up := insert i (is_up w), is_done := (is_done w)(i := k), is_floor := (is_floor w)(i := k),
       is_flight := (is_flight w)(i := None)\<rparr>)" (is "id_inv ?w")
proof -
  have log: "log_ok (is_log w)" and old: "\<forall>j \<in> is_up w. srv_ok w j" using assms(1) by (simp_all add: id_inv_def)
  have "srv_ok ?w i" using lim_positive [OF log assms(3)] assms(3) by (simp add: srv_ok_def put_srv_def booted_fields)
  moreover have "srv_ok ?w j" if "j \<in> is_up w" for j
  proof -
    have "j \<noteq> i" "srv_ok w j" using that assms(2) old by auto
    then show ?thesis by (simp add: srv_ok_def put_srv_def)
  qed
  moreover have "taken_ok w" using assms(1) by (simp add: id_inv_def)
  then have "taken_ok ?w" by (rule taken_ok_grows) (use assms(2) in \<open>auto simp: put_srv_def\<close>)
  moreover have "threads_ok ?w" using assms(1) unfolding id_inv_def threads_ok_def by (fastforce simp: put_srv_def)
  ultimately show ?thesis
    using assms(1) by (simp add: id_inv_def given_ok_def index_ok_def index_at_def put_srv_def)
qed

text \<open>A submission whose entry is lost, and one whose entry is kept.\<close>

lemma id_inv_lost:
  assumes "id_inv w" "is_threads w t = Some (i, PcSubmit limit)" "submit_log_with_lock E limit limit (is_srv w i) = (ret, s)"
  shows "id_inv (put_thread t None (put_srv i s w))"
proof -
  note i = thread_ok(1) [OF assms(1,2)] and ok = thread_ok(3) [OF assms(1,2)] and e = submit_effect [OF assms(3)]
  have ok': "srv_ok (put_srv i s w) i" using ok e by (auto simp: srv_ok_def put_srv_def)
  have "id_inv (put_srv i s w)"
    by (rule id_inv_srv [OF assms(1) i _ _ _ _ _ _ _ _ ok', of s]) (use e in \<open>simp_all add: put_srv_def\<close>)
  then show ?thesis by (rule id_inv_thread [where i = i]) (use assms(2) i in \<open>simp_all add: put_srv_def\<close>)
qed

lemma log_ok_append:
  assumes "log_ok log" "lim log (length log) < fst (snd e)" "scn_is_valid (snd (snd e))"
  shows "log_ok (log @ [e])"
  unfolding log_ok_def
proof (intro allI impI)
  fix k assume "k < length (log @ [e])"
  then consider "k < length log" | "k = length log" by force
  then show "lim (log @ [e]) k < lim (log @ [e]) (Suc k) \<and> scn_is_valid (snd (snd ((log @ [e]) ! k)))"
    using assms by cases (auto simp: log_ok_def nth_append)
qed

lemma srv_ok_append:
  assumes "srv_ok w j" "is_log w' = is_log w @ [e]" "is_srv w' j = is_srv w j" "is_floor w' j = is_floor w j"
    "is_done w' j = is_done w j" "is_flight w' j = is_flight w j"
  shows "srv_ok w' j"
  using assms by (auto simp: srv_ok_def nth_append)

lemma given_ok_append:
  assumes "given_ok w" "is_log w' = is_log w @ es" "is_taken w' = is_taken w" "is_given w' = is_given w"
  shows "given_ok w'"
  unfolding given_ok_def
proof (intro ballI, clarify)
  fix idx a b assume "(idx, a, b) \<in> set (is_given w')"
  with assms(1,4) have g: "idx < length (is_taken w)" "a < b"
      "\<exists>i d. is_taken w ! idx = (i, a, d) \<and> b \<le> d \<and> (\<forall>x. a \<le> x \<longrightarrow> x < b \<longrightarrow> owns (is_log w) i x)"
    unfolding given_ok_def by auto
  then obtain i d where "is_taken w ! idx = (i, a, d)" "b \<le> d" "\<forall>x. a \<le> x \<longrightarrow> x < b \<longrightarrow> owns (is_log w) i x" by blast
  then show "idx < length (is_taken w') \<and> a < b
      \<and> (\<exists>i d. is_taken w' ! idx = (i, a, d) \<and> b \<le> d \<and> (\<forall>x. a \<le> x \<longrightarrow> x < b \<longrightarrow> owns (is_log w') i x))"
    using g(1,2) assms(2,3) owns_append by auto
qed

lemma id_inv_kept:
  assumes "id_inv w" "is_threads w t = Some (i, PcSubmit limit)" "submit_log_with_lock E limit limit (is_srv w i) = (ret, s)"
    "is_logging s" "\<not> is_logging (is_srv w i)" "is_done w i = length (is_log w)" "scn_is_valid (cb_log_ts s)"
  shows "id_inv ((put_thread t None (put_srv i s w))
      \<lparr>is_log := is_log w @ [(i, limit, cb_log_ts s)], is_flight := (is_flight w)(i := Some (length (is_log w)))\<rparr>)" (is "id_inv ?w")
proof -
  note up = thread_ok(1) [OF assms(1,2)] and ok = thread_ok(3) [OF assms(1,2)] and e = submit_effect [OF assms(3)]
  have inv: "id_inv (put_thread t None (put_srv i s w))" (is "id_inv ?v") by (rule id_inv_lost [OF assms(1-3)])
  have log: "log_ok (is_log ?w)"
    using assms(1,6,7) e(5) [OF assms(4,5)] ok by (auto simp: id_inv_def srv_ok_def intro!: log_ok_append)
  have srv: "srv_ok ?w j" if "j \<in> is_up w" for j
  proof (cases "j = i")
    case True
    then show ?thesis using ok e assms(4-6) by (auto simp: srv_ok_def put_defs nth_append)
  next
    case False
    have "srv_ok ?v j" using inv that by (simp add: id_inv_def put_defs)
    then show ?thesis by (rule srv_ok_append) (use False in \<open>simp_all add: put_defs\<close>)
  qed
  have th: "threads_ok ?w" unfolding threads_ok_def
  proof (intro allI impI)
    fix u j pc assume "is_threads ?w u = Some (j, pc)"
    then have "is_threads ?v u = Some (j, pc)" by simp
    from thread_ok [OF inv this] show "j \<in> is_up ?w \<and> pc_ok (is_log ?w) (is_taken ?w) j pc"
      using pc_ok_append [of "is_log w" "is_taken w" j pc _ "[]"] by (simp add: put_defs)
  qed
  have "given_ok ?v" using inv by (simp add: id_inv_def)
  then have "given_ok ?w" by (rule given_ok_append) (simp_all add: put_defs)
  moreover have "taken_ok ?v" "index_ok ?v" using inv by (simp_all add: id_inv_def)
  then have "taken_ok ?w" "index_ok ?w"
    by (simp add: taken_ok_def, elim index_ok_mono) (simp_all add: index_at_def)
  moreover have "is_up ?w = is_up w" by (simp add: put_defs)
  ultimately show ?thesis using log srv th unfolding id_inv_def by simp
qed

text \<open>The callbacks and the replay.\<close>

lemma id_inv_success:
  assumes "id_inv w" "i \<in> is_up w" "is_flight w i = Some (is_done w i)" "cb_on_success E (is_srv w i) = (ret, s, upd)"
  shows "id_inv ((put_srv i s w)
      \<lparr>is_done := (is_done w)(i := Suc (is_done w i)), is_flight := (is_flight w)(i := None)\<rparr>)" (is "id_inv ?w")
proof -
  let ?k = "is_done w i"
  have log: "log_ok (is_log w)" and ok: "srv_ok w i" using assms(1,2) by (simp_all add: id_inv_def)
  have k: "?k < length (is_log w)" "cb_srv_type (is_srv w i) \<noteq> INVALID_ID_SERVICE_TYPE"
      "is_log w ! ?k = (i, cb_limited_id (is_srv w i), cb_log_ts (is_srv w i))" and tmp: "tmp_last_id (is_srv w i) = 0"
    using ok assms(3) by (auto simp: srv_ok_def)
  have new: "lim (is_log w) (Suc ?k) = cb_limited_id (is_srv w i)" using k(3) by (simp add: lim_def)
  have valid: "scn_is_valid (cb_log_ts (is_srv w i))" and less: "lim (is_log w) ?k < lim (is_log w) (Suc ?k)"
    using log k unfolding log_ok_def by (metis snd_conv)+
  have "0 \<le> cb_limited_id (is_srv w i)" using lim_positive [OF log, of "Suc ?k"] k(1) new by (simp add: MIN_LAST_ID_def)
  note e = on_success_effect [OF assms(4) tmp k(2) this valid]
  have ok': "srv_ok ?w i" using ok e k less new by (auto simp: srv_ok_def put_srv_def less_Suc_eq)
  show ?thesis
    by (rule id_inv_srv [OF assms(1,2) _ _ _ _ _ _ _ _ ok', of s]) (use e in \<open>simp_all add: put_srv_def\<close>)
qed

lemma id_inv_failure:
  assumes "id_inv w" "i \<in> is_up w" "cb_on_failure E (is_srv w i) = (ret, s, upd)"
  shows "id_inv ((put_srv i s w)\<lparr>is_flight := (is_flight w)(i := None)\<rparr>)" (is "id_inv ?w")
proof -
  note e = on_failure_effect [OF assms(3)]
  have "srv_ok w i" using assms(1,2) by (simp add: id_inv_def)
  then have ok': "srv_ok ?w i" using e by (simp add: srv_ok_def put_srv_def)
  show ?thesis
    by (rule id_inv_srv [OF assms(1,2) _ _ _ _ _ _ _ _ ok', of s]) (use e in \<open>simp_all add: put_srv_def\<close>)
qed

lemma id_inv_replay:
  assumes "id_inv w" "i \<in> is_up w" "k \<le> is_done w i" "k < length (is_log w)" "is_log w ! k = (own, limit, ts)"
    "id_replay E OB_SUCCESS (OB_SUCCESS, limit, limit) ts (is_srv w i) = (ret, s, upd)"
  shows "id_inv (if k = is_done w i
      then (put_srv i s w)\<lparr>is_done := (is_done w)(i := Suc k), is_floor := (is_floor w)(i := Suc k)\<rparr>
      else put_srv i s w)" (is "id_inv ?w")
proof -
  have log: "log_ok (is_log w)" and ok: "srv_ok w i" using assms(1,2) by (simp_all add: id_inv_def)
  have new: "lim (is_log w) (Suc k) = limit" using assms(5) by (simp add: lim_def)
  have valid: "scn_is_valid ts" and less: "lim (is_log w) k < lim (is_log w) (Suc k)"
    using log assms(4,5) unfolding log_ok_def by (metis snd_conv)+
  have "0 \<le> limit" using lim_positive [OF log, of "Suc k"] assms(4) new by (simp add: MIN_LAST_ID_def)
  note e = replay_effect [OF assms(6) this valid]
  have ok': "srv_ok ?w i"
  proof (cases "k = is_done w i")
    case True
    then show ?thesis using ok e less new assms(4) by (auto simp: srv_ok_def put_srv_def)
  next
    case False
    have "lim (is_log w) (Suc k) \<le> lim (is_log w) (is_done w i)"
      using False assms(3) ok by (intro lim_mono [OF log]) (auto simp: srv_ok_def)
    then show ?thesis using False ok e new by (auto simp: srv_ok_def put_srv_def)
  qed
  show ?thesis
    by (rule id_inv_srv [OF assms(1,2) _ _ _ _ _ _ _ _ ok', of s]) (use e in \<open>simp_all add: put_srv_def\<close>)
qed

subsection \<open>No number twice\<close>

lemma id_inv_step:
  assumes "id_step True w w'" "id_inv w"
  shows "id_inv w'"
  using assms
proof (cases rule: id_step.cases)
  case (call i t E s rng base)
  have "id_inv (put_srv i s w)" by (rule id_inv_grows [OF assms(2) call(2) operations_grow(1) [OF call(4)]])
  then show ?thesis unfolding call(1) by (rule id_inv_thread [where i = i]) (use call in \<open>simp_all add: put_srv_def\<close>)
next
  case (read_last t i rng base)
  then show ?thesis using id_inv_thread [OF assms(2) _ thread_ok(1) [OF assms(2)]] by simp
next
  case (read_limit t i rng base l alloc pc)
  then show ?thesis using id_inv_thread [OF assms(2) _ thread_ok(1) [OF assms(2)]] by simp
next
  case (swap t i rng base l alloc s)
  note ok = thread_ok(2) [OF assms(2) swap(2)]
  then have "srv_grows (is_srv w i) s" using operations_grow(2) [OF _ _ swap(3)] by simp
  then show ?thesis unfolding swap(1)
    by (rule id_inv_take [OF assms(2) swap(2), rotated 2]) (use swap(3) ok in \<open>auto simp: gn_cas_def split: if_splits\<close>)
next
  case (swap_fails t i rng base l alloc s)
  then show ?thesis using id_inv_thread [OF assms(2) _ thread_ok(1) [OF assms(2)]] thread_ok(2) [OF assms(2) swap_fails(2)] by simp
next
  case (add t i rng base alloc tmp s)
  note ok = thread_ok(2) [OF assms(2) add(2)]
  then have "srv_grows (is_srv w i) s" using operations_grow(3) [OF _ add(3)] by simp
  then show ?thesis unfolding add(1)
    by (rule id_inv_take [OF assms(2) add(2), rotated 2]) (use add(3) ok in \<open>auto simp: gn_faa_def\<close>)
next
  case (no_log t i rng base ret)
  then show ?thesis using id_inv_thread [OF assms(2) _ thread_ok(1) [OF assms(2)]] by simp
next
  case (replay i k own limit ts E ret s upd)
  then show ?thesis using id_inv_replay [OF assms(2)] by blast
next
  case (flush i E ts ret s upd)
  show ?thesis unfolding flush(1) by (rule id_inv_grows [OF assms(2) flush(2) operations_grow(5) [OF flush(3)]])
next
  case (next_limit t i rng base ret limit s)
  then show ?thesis using id_inv_thread_srv [OF assms(2) next_limit(2) operations_grow(4) [OF next_limit(4)]] by simp
next
  case (lead i E acc ret acc' s)
  have "tmp_last_id (is_srv w i) = 0" using assms(2) lead(2) by (auto simp: id_inv_def srv_ok_def)
  then show ?thesis unfolding lead(1) by (intro id_inv_grows assms(2) lead(2) operations_grow(6) [OF lead(4)])
qed (auto intro: id_inv_boot id_inv_check id_inv_lost id_inv_kept id_inv_success id_inv_failure)

lemma id_inv_reachable: "id_reachable True w \<Longrightarrow> id_inv w"
proof (induction rule: id_reachable.induct)
  case (start w)
  then show ?case
    by (simp add: id_start_def id_inv_def log_ok_def threads_ok_def taken_ok_def given_ok_def index_ok_def index_at_def)
qed (blast intro: id_inv_step)

lemma taken_in_order:
  assumes "taken_ok w" "j < k" "k < length (is_taken w)" "is_taken w ! j = (i, a, b)" "is_taken w ! k = (i, c, d)"
  shows "b \<le> c"
  using assms sorted_wrt_nth_less [of _ "is_taken w" j k] by (auto simp: taken_ok_def)

lemma given_disjoint:
  assumes "id_inv w" "(j, a, b) \<in> set (is_given w)" "(k, c, d) \<in> set (is_given w)" "j \<noteq> k"
  shows "b \<le> c \<or> d \<le> a"
proof -
  have inv: "log_ok (is_log w)" "taken_ok w" "given_ok w" using assms(1) by (simp_all add: id_inv_def)
  obtain p e where p: "j < length (is_taken w)" "a < b" "is_taken w ! j = (p, a, e)" "b \<le> e" "\<forall>x. a \<le> x \<longrightarrow> x < b \<longrightarrow> owns (is_log w) p x"
    using inv(3) assms(2) unfolding given_ok_def by fast
  obtain q f where q: "k < length (is_taken w)" "c < d" "is_taken w ! k = (q, c, f)" "d \<le> f" "\<forall>x. c \<le> x \<longrightarrow> x < d \<longrightarrow> owns (is_log w) q x"
    using inv(3) assms(3) unfolding given_ok_def by fast
  show ?thesis
  proof (cases "p = q")
    case True
    then show ?thesis using p q assms(4) taken_in_order [OF inv(2), of j k q a e c f] taken_in_order [OF inv(2), of k j q c f a e]
      by (cases "j < k") auto
  next
    case False
    then have "\<not> (owns (is_log w) p (max a c) \<and> owns (is_log w) q (max a c))" using owns_unique [OF inv(1)] by blast
    moreover have "max a c < b \<Longrightarrow> owns (is_log w) p (max a c)" "max a c < d \<Longrightarrow> owns (is_log w) q (max a c)"
      using p(5) q(5) by simp_all
    ultimately have "\<not> (max a c < b \<and> max a c < d)" by blast
    then show ?thesis using p(2) q(2) by linarith
  qed
qed

end
