(* ===== verification/Id_Samples.thy ===== *)
theory Id_Samples
  imports Id_System
begin

text \<open>
  Runs of the number service: an executable form of its steps, and from it the properties of the
  service over all servers with their witnesses.
\<close>

subsection \<open>Executable steps\<close>

datatype id_act = Boot nat ServiceType int | Call nat nat int int | Move nat | Submit nat | Succeed nat | Replay nat

fun id_move :: "bool \<Rightarrow> nat \<Rightarrow> nat \<Rightarrow> gn_pc \<Rightarrow> id_sys \<Rightarrow> id_sys option" where
  "id_move strict t i (PcStart rng base) w = Some (put_thread t (Some (i, PcLast rng base (last_id (is_srv w i)))) w)"
| "id_move strict t i (PcLast rng base l) w =
     (let alloc = gn_range rng base l (limited_id (is_srv w i)) in
      Some (put_thread t (Some (i, if alloc \<le> 0 then PcChecked rng base OB_EAGAIN
        else if base > l then PcTake rng base l alloc else PcAdd rng base alloc)) w))"
| "id_move strict t i (PcTake rng base l alloc) w =
     (case gn_cas base l alloc (is_srv w i) of (ok, s) \<Rightarrow>
        Some (if ok then put_taken t i rng base base alloc (put_srv i s w) else put_thread t (Some (i, PcAdd rng base alloc)) w))"
| "id_move strict t i (PcAdd rng base alloc) w =
     (case gn_faa alloc (is_srv w i) of (tmp, s) \<Rightarrow> Some (put_taken t i rng base tmp alloc (put_srv i s w)))"
| "id_move strict t i (PcTaken rng base tmp alloc idx f) w =
     (if strict \<and> is_floor w i \<noteq> f then None
      else case gn_check tmp alloc (limited_id (is_srv w i)) of (ret, res) \<Rightarrow>
        Some ((put_thread t (Some (i, PcChecked rng base ret)) w)
          \<lparr>is_given := is_given w @ (case res of None \<Rightarrow> [] | Some (a, b) \<Rightarrow> [(idx, a, b)])\<rparr>))"
| "id_move strict t i (PcChecked rng base ret) w =
     (if gn_needs_log ret (is_srv w i)
      then (case gn_next_limit rng base (is_srv w i) of (limit, s) \<Rightarrow> Some (put_thread t (Some (i, PcSubmit limit)) (put_srv i s w)))
      else Some (put_thread t None w))"
| "id_move strict t i (PcSubmit limit) w = None"

definition good_env :: id_env where
  "good_env = \<lparr>ie_time = 0, ie_clock = 0, ie_get_ls = OB_SUCCESS, ie_role = (OB_SUCCESS, True), ie_max_scn = (OB_SUCCESS, min_scn),
     ie_lock = True, ie_serialize = OB_SUCCESS, ie_append = (\<lambda>_. (OB_SUCCESS, min_scn)), ie_update_meta = OB_SUCCESS\<rparr>"

definition blank_srv :: ObIDService where
  "blank_srv = \<lparr>service_type = INVALID_ID_SERVICE_TYPE, pre_allocated_range = 0, last_id = 0, tmp_last_id = 0, limited_id = 0,
     is_logging = False, rec_log_ts = max_scn, latest_log_ts = scn_reset, submit_log_ts = 0, ls_filled = False,
     cb_srv_type = INVALID_ID_SERVICE_TYPE, cb_limited_id = 0, cb_log_ts = scn_reset\<rparr>"

fun id_do :: "bool \<Rightarrow> id_act \<Rightarrow> id_sys \<Rightarrow> id_sys option" where
  "id_do strict (Boot i ty pre) w =
     (if i \<in> is_up w then None
      else Some ((put_srv i (booted (is_log w) 0 ty pre min_scn blank_srv) w)
      \<lparr>is_up := insert i (is_up w), is_done := (is_done w)(i := 0), is_floor := (is_floor w)(i := 0),
       is_flight := (is_flight w)(i := None)\<rparr>))"
| "id_do strict (Call t i rng base) w =
     (case id_check_leader good_env (is_srv w i) of (ret, ok, s) \<Rightarrow>
        if i \<in> is_up w \<and> is_threads w t = None \<and> ret = OB_SUCCESS \<and> ok
        then Some (put_thread t (Some (i, PcStart rng base)) (put_srv i s w)) else None)"
| "id_do strict (Move t) w = (case is_threads w t of None \<Rightarrow> None | Some (i, pc) \<Rightarrow> id_move strict t i pc w)"
| "id_do strict (Submit t) w =
     (case is_threads w t of
        Some (i, PcSubmit limit) \<Rightarrow>
          (case submit_log_with_lock good_env limit limit (is_srv w i) of (ret, s) \<Rightarrow>
             if is_logging s \<and> \<not> is_logging (is_srv w i) \<and> is_done w i = length (is_log w) \<and> scn_is_valid (cb_log_ts s)
             then Some ((put_thread t None (put_srv i s w))
               \<lparr>is_log := is_log w @ [(i, limit, cb_log_ts s)], is_flight := (is_flight w)(i := Some (length (is_log w)))\<rparr>)
             else Some (put_thread t None (put_srv i s w)))
      | _ \<Rightarrow> None)"
| "id_do strict (Succeed i) w =
     (case cb_on_success good_env (is_srv w i) of (ret, s, upd) \<Rightarrow>
        if i \<in> is_up w \<and> is_flight w i = Some (is_done w i)
        then Some ((put_srv i s w)\<lparr>is_done := (is_done w)(i := Suc (is_done w i)), is_flight := (is_flight w)(i := None)\<rparr>)
        else None)"
| "id_do strict (Replay i) w =
     (if i \<in> is_up w \<and> is_done w i < length (is_log w) then
        (case is_log w ! is_done w i of (own, limit, ts) \<Rightarrow>
         case id_replay good_env OB_SUCCESS (OB_SUCCESS, limit, limit) ts (is_srv w i) of (ret, s, upd) \<Rightarrow>
           Some ((put_srv i s w)\<lparr>is_done := (is_done w)(i := Suc (is_done w i)), is_floor := (is_floor w)(i := Suc (is_done w i))\<rparr>))
      else None)"

lemma id_move_step:
  assumes "id_move strict t i pc w = Some w'" "is_threads w t = Some (i, pc)"
  shows "id_step strict w w'"
proof (cases pc)
  case (PcTake rng base l alloc)
  with assms show ?thesis
    by (cases "gn_cas base l alloc (is_srv w i)") (auto split: if_splits intro: id_step.swap id_step.swap_fails)
next
  case (PcTaken rng base tmp alloc idx f)
  with assms show ?thesis
    by (cases "gn_check tmp alloc (limited_id (is_srv w i))") (auto split: if_splits intro!: id_step.check)
next
  case (PcLast rng base l)
  with assms show ?thesis by (auto simp: Let_def intro!: id_step.read_limit)
next
  case (PcChecked rng base ret)
  with assms show ?thesis by (auto split: if_splits prod.splits intro: id_step.no_log id_step.next_limit)
qed (use assms in \<open>auto split: prod.splits intro: id_step.read_last id_step.add\<close>)

lemma id_do_step:
  assumes "id_do strict a w = Some w'"
  shows "id_step strict w w'"
proof (cases a)
  case (Boot i ty pre)
  with assms show ?thesis by (auto split: if_splits intro!: id_step.boot)
next
  case (Call t i rng base)
  with assms show ?thesis by (auto split: if_splits prod.splits intro: id_step.call)
next
  case (Move t)
  with assms show ?thesis by (auto split: option.splits intro: id_move_step)
next
  case (Submit t)
  with assms show ?thesis
    by (auto split: option.splits gn_pc.splits prod.splits if_splits intro: id_step.submit_kept id_step.submit_lost)
next
  case (Succeed i)
  with assms show ?thesis by (auto split: if_splits prod.splits intro: id_step.success)
next
  case (Replay i)
  with assms obtain own limit ts where l: "is_log w ! is_done w i = (own, limit, ts)" by (cases "is_log w ! is_done w i") auto
  obtain ret s upd where r: "id_replay good_env OB_SUCCESS (OB_SUCCESS, limit, limit) ts (is_srv w i) = (ret, s, upd)"
    by (cases "id_replay good_env OB_SUCCESS (OB_SUCCESS, limit, limit) ts (is_srv w i)") auto
  show ?thesis using assms Replay l r id_step.replay [OF _ _ _ l r, of strict] by (auto split: if_splits)
qed

interpretation id_run: executable_system "id_do strict" "id_step strict" "id_reachable strict" for strict
  by unfold_locales (blast intro: id_do_step id_reachable.step)+

definition id_nothing :: id_sys where
  "id_nothing = \<lparr>is_up = {}, is_srv = (\<lambda>_. blank_srv), is_log = [], is_done = (\<lambda>_. 0), is_floor = (\<lambda>_. 0),
     is_flight = (\<lambda>_. None), is_threads = (\<lambda>_. None), is_taken = [], is_given = []\<rparr>"

lemma id_nothing_reachable: "id_reachable strict id_nothing"
  by (rule id_reachable.start) (simp add: id_start_def id_nothing_def)

subsection \<open>Two replicas\<close>

text \<open>
  The first limit is logged on instance 0 for a request of one number. Then two threads read the same
  last number and the same limit there, and each asks for everything below it; the second takes a
  range that starts at the limit. Instance 1 replays the entry, logs the next limit and serves one number.
\<close>

definition first_limit :: "id_act list" where
  "first_limit = [Boot 0 TransIDService 1000000, Boot 1 TransIDService 1000000,
     Call 10 0 1 0, Move 10, Move 10, Move 10, Submit 10, Succeed 0,
     Call 11 0 1000000 0, Call 12 0 1000000 0, Move 11, Move 12, Move 11, Move 12, Move 11, Move 12, Move 11]"

definition second_limit :: "id_act list" where
  "second_limit = [Replay 1, Call 13 1 1 0, Move 13, Move 13, Move 13, Submit 13, Succeed 1,
     Call 13 1 1 0, Move 13, Move 13, Move 13, Move 13]"

lemma stalled_run:
  "map_option is_given (run_acts (id_do False) (first_limit @ second_limit @ [Replay 0, Move 12]) id_nothing)
     = Some [(0, 1, 1000001), (2, 1000001, 1000002), (1, 1000001, 2000001)]"
  by code_simp

lemma strict_run:
  "map_option is_given (run_acts (id_do True) (first_limit @ second_limit) id_nothing) = Some [(0, 1, 1000001), (2, 1000001, 1000002)]"
  by code_simp

subsection \<open>Properties\<close>

text \<open>C4: The number service of a tenant (timestamps, transaction numbers, DAS numbers), on any number
  of replicas that come and go: whatever the threads, log entries, callbacks, replays and changes of
  leader do, two calls of \<^verbatim>\<open>get_number\<close> never hand out a number in common, as long as no entry
  is replayed on a replica while one of its threads is between taking its range and reading the limit
  again.\<close>

theorem ids_disjoint:
  assumes "id_reachable True w" "x < length (is_given w)" "y < length (is_given w)" "x \<noteq> y"
    "is_given w ! x = (j, a, b)" "is_given w ! y = (k, c, d)"
  shows "a < b \<and> (b \<le> c \<or> d \<le> a)"
proof -
  have inv: "id_inv w" by (rule id_inv_reachable [OF assms(1)])
  have set: "(j, a, b) \<in> set (is_given w)" "(k, c, d) \<in> set (is_given w)" using assms(2,3,5,6) by (metis nth_mem)+
  have "distinct (map fst (is_given w))" using inv by (simp add: id_inv_def index_ok_def)
  then have "j \<noteq> k" using assms(2-6) by (metis distinct_conv_nth fst_conv length_map nth_map)
  then have "b \<le> c \<or> d \<le> a" by (rule given_disjoint [OF inv set])
  moreover have "a < b" using inv set(1) by (auto simp: id_inv_def given_ok_def)
  ultimately show ?thesis by simp
qed

theorem ids_disjoint_witness:
  "\<exists>w. id_reachable True w \<and> is_given w = [(0, 1, 1000001), (2, 1000001, 1000002)]
    \<and> (1 :: int) < 1000001 \<and> ((1000001 :: int) \<le> 1000001 \<or> (1000002 :: int) \<le> 1)"
proof -
  obtain w where w: "run_acts (id_do True) (first_limit @ second_limit) id_nothing = Some w"
      "is_given w = [(0, 1, 1000001), (2, 1000001, 1000002)]"
    using strict_run by auto
  have r: "id_reachable True w" by (rule id_run.run_acts_reach [OF w(1) id_nothing_reachable])
  show ?thesis using ids_disjoint [OF r, of 0 1 0 1 1000001 2 1000001 1000002] r w(2) by auto
qed

text \<open>C33: Without that condition the service can hand out a number twice: a thread whose range starts at the
  limit waits before it reads the limit again; meanwhile the leadership moves, the new leader logs a higher
  limit and serves the number, and the old leader replays the entry. The thread then finds its range below
  the limit and returns it, although its replica is not the leader any more.\<close>

theorem id_handed_out_twice:
  "\<exists>w. id_reachable False w \<and> (2, 1000001, 1000002) \<in> set (is_given w) \<and> (1, 1000001, 2000001) \<in> set (is_given w)"
proof -
  obtain w where w: "run_acts (id_do False) (first_limit @ second_limit @ [Replay 0, Move 12]) id_nothing = Some w"
      "is_given w = [(0, 1, 1000001), (2, 1000001, 1000002), (1, 1000001, 2000001)]"
    using stalled_run by auto
  show ?thesis using id_run.run_acts_reach [OF w(1) id_nothing_reachable] w(2) by auto
qed

end
