(* ===== verification/Gti_Source.thy ===== *)
theory Gti_Source
  imports Id_Service
begin

text \<open>
  The cache of transaction numbers of a server (\<^verbatim>\<open>ob_gti_source.{h,cpp}\<close>): a ring of ranges that were
  handed out by the transaction number service, from which \<^verbatim>\<open>get_trans_id\<close> takes single
  numbers without a lock. First the operations alone, then their interleaving.
\<close>

definition MIN_PREALLOCATE_COUNT :: int where "MIN_PREALLOCATE_COUNT = 10000"
definition MAX_PREALLOCATE_COUNT :: int where "MAX_PREALLOCATE_COUNT = 1000000"
definition UPDATE_FACTOR :: int where "UPDATE_FACTOR = 4"
definition UPDATE_PREALLOCATE_COUNT_INTERVAL :: int where "UPDATE_PREALLOCATE_COUNT_INTERVAL = 100000"
definition MAX_CACHE_NUM :: int where "MAX_CACHE_NUM = 16"
definition PRE_CACHE_NUM :: int where "PRE_CACHE_NUM = MAX_CACHE_NUM div 4"
definition RETRY_REQUEST_INTERVAL :: int where "RETRY_REQUEST_INTERVAL = 100000"
definition MAX_RETRY_REQUEST_INTERVAL :: int where "MAX_RETRY_REQUEST_INTERVAL = RETRY_REQUEST_INTERVAL * 10"

record IdCache =
  start_id :: int
  end_id :: int

record ObGtiSource =
  gti_requesting :: bool
  id_cache :: "IdCache list"
  cur_idx :: int
  cache_idx :: int
  retry_request_cnt :: int
  gti_last_request_ts :: int
  preallocate_count :: int
  last_update_ts :: int

text \<open>The clock, and the outcome of building and posting a request for a number of identifiers.\<close>

record gti_env =
  ge_time :: int
  ge_init :: "int \<Rightarrow> ob_ret"
  ge_post :: "int \<Rightarrow> ob_ret"

definition gti_reset :: "int \<Rightarrow> ObGtiSource" where
  "gti_reset now = \<lparr>gti_requesting = False, id_cache = replicate (nat MAX_CACHE_NUM) \<lparr>start_id = 0, end_id = 0\<rparr>,
     cur_idx = 0, cache_idx = 0, retry_request_cnt = 0, gti_last_request_ts = 0,
     preallocate_count = MIN_PREALLOCATE_COUNT, last_update_ts = now\<rparr>"

definition slot_of :: "int \<Rightarrow> nat" where "slot_of i = nat (i mod MAX_CACHE_NUM)"

definition cache_at :: "ObGtiSource \<Rightarrow> nat \<Rightarrow> IdCache" where "cache_at s k = id_cache s ! k"

definition put_cache :: "nat \<Rightarrow> IdCache \<Rightarrow> ObGtiSource \<Rightarrow> ObGtiSource" where
  "put_cache k c s = s\<lparr>id_cache := (id_cache s)[k := c]\<rparr>"

text \<open>The atomic accesses: the two writes of a new range, the fetch-and-add and the advance of the ring.\<close>

definition write_start :: "nat \<Rightarrow> int \<Rightarrow> ObGtiSource \<Rightarrow> ObGtiSource" where
  "write_start k x s = put_cache k ((cache_at s k)\<lparr>start_id := inc_update_id (start_id (cache_at s k)) x\<rparr>) s"

definition write_end :: "nat \<Rightarrow> int \<Rightarrow> ObGtiSource \<Rightarrow> ObGtiSource" where
  "write_end k x s = put_cache k ((cache_at s k)\<lparr>end_id := inc_update_id (end_id (cache_at s k)) x\<rparr>) s"

definition faa_start :: "nat \<Rightarrow> ObGtiSource \<Rightarrow> int \<times> ObGtiSource" where
  "faa_start k s = (start_id (cache_at s k), put_cache k ((cache_at s k)\<lparr>start_id := start_id (cache_at s k) + 1\<rparr>) s)"

definition cas_cur_idx :: "int \<Rightarrow> ObGtiSource \<Rightarrow> ObGtiSource" where
  "cas_cur_idx i s = (if cur_idx s = i then s\<lparr>cur_idx := i + 1\<rparr> else s)"

definition ring_full :: "ObGtiSource \<Rightarrow> bool" where
  "ring_full s \<longleftrightarrow> cache_idx s - cur_idx s \<ge> MAX_CACHE_NUM - 1"

definition publish_range :: "ObGtiSource \<Rightarrow> ObGtiSource" where
  "publish_range s = s\<lparr>cache_idx := cache_idx s + 1, retry_request_cnt := 0\<rparr>"

definition update_trans_id :: "int \<Rightarrow> int \<Rightarrow> ObGtiSource \<Rightarrow> ob_ret \<times> ObGtiSource" where
  "update_trans_id start stop s =
     (OB_SUCCESS,
      if ring_full s then s
      else let k = slot_of (cache_idx s) in publish_range (write_end k stop (write_start k start s)))"

definition update_preallocate_count :: "int \<Rightarrow> ObGtiSource \<Rightarrow> ObGtiSource" where
  "update_preallocate_count now s =
     (if now - last_update_ts s > UPDATE_PREALLOCATE_COUNT_INTERVAL
      then s\<lparr>preallocate_count := min (preallocate_count s * UPDATE_FACTOR) MAX_PREALLOCATE_COUNT, last_update_ts := now\<rparr>
      else s)"

definition get_preallocate_count :: "ObGtiSource \<Rightarrow> int \<times> ObGtiSource" where
  "get_preallocate_count s =
     (preallocate_count s, s\<lparr>preallocate_count := max (preallocate_count s - MIN_PREALLOCATE_COUNT) MIN_PREALLOCATE_COUNT\<rparr>)"

text \<open>The loop of \<^verbatim>\<open>get_trans_id\<close>, run alone; it ends since the ring is advanced in every round.\<close>

function take_loop :: "ObGtiSource \<Rightarrow> ob_ret \<times> int option \<times> ObGtiSource" where
  "take_loop s =
     (let i = cur_idx s; k = slot_of i; e = end_id (cache_at s k); st = start_id (cache_at s k);
          (tmp, s1) = (if st < e then faa_start k s else (e, s)) in
      if tmp < e then (OB_SUCCESS, Some tmp, s1)
      else if i \<ge> cache_idx s1 then (OB_EAGAIN, None, s1)
      else take_loop (cas_cur_idx i s1))"
  by auto
termination
  by (relation "measure (\<lambda>s. nat (cache_idx s - cur_idx s))")
    (auto simp: cas_cur_idx_def faa_start_def put_cache_def Let_def split: if_splits)

declare take_loop.simps [simp del]

definition gti_request :: "gti_env \<Rightarrow> ObGtiSource \<Rightarrow> int option \<times> ObGtiSource" where
  "gti_request E s =
     (if ge_time E - gti_last_request_ts s > min (retry_request_cnt s * RETRY_REQUEST_INTERVAL) MAX_RETRY_REQUEST_INTERVAL
         \<and> \<not> gti_requesting s
      then (case get_preallocate_count s of (n, s1) \<Rightarrow>
        if ge_init E n \<noteq> OB_SUCCESS then (None, s1)
        else if ge_post E n \<noteq> OB_SUCCESS then (None, s1)
        else (Some n, s1\<lparr>gti_last_request_ts := ge_time E, retry_request_cnt := retry_request_cnt s1 + 1\<rparr>))
      else (None, s))"

definition get_trans_id :: "gti_env \<Rightarrow> ObGtiSource \<Rightarrow> ob_ret \<times> int option \<times> int option \<times> ObGtiSource" where
  "get_trans_id E s =
     (case take_loop s of (ret, res, s1) \<Rightarrow>
        let left_cache_count = cache_idx s1 - cur_idx s1 in
        if left_cache_count < PRE_CACHE_NUM \<and> \<not> gti_requesting s1 then
          (case gti_request E s1 of (req, s2) \<Rightarrow>
             (ret, res, req,
              if left_cache_count \<le> PRE_CACHE_NUM div 2 \<and> \<not> cache_idx s2 < PRE_CACHE_NUM
              then update_preallocate_count (ge_time E) s2 else s2))
        else (ret, res, None, s1))"

text \<open>The size of a request stays within its bounds.\<close>

definition prealloc_ok :: "ObGtiSource \<Rightarrow> bool" where
  "prealloc_ok s \<longleftrightarrow> MIN_PREALLOCATE_COUNT \<le> preallocate_count s \<and> preallocate_count s \<le> MAX_PREALLOCATE_COUNT"

lemma take_loop_preallocate: "take_loop s = (ret, res, s') \<Longrightarrow> preallocate_count s' = preallocate_count s"
proof (induction s arbitrary: ret res s' rule: take_loop.induct)
  case (1 s)
  let ?k = "slot_of (cur_idx s)"
  let ?x = "if start_id (cache_at s ?k) < end_id (cache_at s ?k) then faa_start ?k s else (end_id (cache_at s ?k), s)"
  obtain tmp s1 where x: "?x = (tmp, s1)" by (cases ?x)
  have s1: "preallocate_count s1 = preallocate_count s" using x by (auto simp: faa_start_def put_cache_def split: if_splits)
  show ?case
  proof (cases "tmp < end_id (cache_at s ?k) \<or> cur_idx s \<ge> cache_idx s1")
    case True
    then show ?thesis using "1.prems" x s1 by (subst (asm) take_loop.simps) (auto simp: Let_def split: if_splits)
  next
    case False
    then have "take_loop (cas_cur_idx (cur_idx s) s1) = (ret, res, s')"
      using "1.prems" x by (subst (asm) take_loop.simps) (auto simp: Let_def split: if_splits)
    from "1.IH" [OF refl refl refl refl x [symmetric] _ _ _ this] False s1 show ?thesis by (auto simp: cas_cur_idx_def split: if_splits)
  qed
qed

lemma request_size_bounds:
  assumes "get_trans_id E s = (ret, res, req, s')" "prealloc_ok s"
  shows "prealloc_ok s' \<and> (\<forall>n. req = Some n \<longrightarrow> MIN_PREALLOCATE_COUNT \<le> n \<and> n \<le> MAX_PREALLOCATE_COUNT)"
proof -
  obtain r1 o1 s1 where 1: "take_loop s = (r1, o1, s1)" by (cases "take_loop s") auto
  have p: "prealloc_ok s1" using take_loop_preallocate [OF 1] assms(2) by (simp add: prealloc_ok_def)
  show ?thesis using assms(1) p
    by (auto simp: get_trans_id_def 1 gti_request_def get_preallocate_count_def update_preallocate_count_def prealloc_ok_def
        MIN_PREALLOCATE_COUNT_def MAX_PREALLOCATE_COUNT_def UPDATE_FACTOR_def Let_def split: if_splits)
qed

end
