(* ===== verification/Gti_System.thy ===== *)
theory Gti_System
  imports Gti_Source Id_System
begin

text \<open>
  The cache of transaction numbers under many threads. Every atomic access of \<^verbatim>\<open>get_trans_id\<close> is a
  step; \<^verbatim>\<open>update_trans_id\<close> runs under a lock, so that one range at a time is being stored, but its
  writes are steps of their own which the readers can see. The ranges that arrive are disjoint,
  which is the promise of the transaction number service (\<open>range_provider\<close>).
\<close>

subsection \<open>Steps\<close>

datatype take_pc = TkCur | TkEnd int | TkStart int int | TkAdd int int | TkMiss int | TkNext int

datatype store_pc = StFree | StTest int int | StStart nat int int | StEnd nat int int | StPublish

record gti_sys =
  gs_src :: ObGtiSource
  gs_threads :: "nat \<Rightarrow> take_pc option"
  gs_store :: store_pc
  gs_arrived :: "(int \<times> int) list"
  gs_placed :: "(nat \<times> int \<times> int) list"
  gs_given :: "(nat \<times> int) list"

definition apart :: "int \<times> int \<Rightarrow> int \<times> int \<Rightarrow> bool" where
  "apart p q \<longleftrightarrow> snd p \<le> fst q \<or> snd q \<le> fst p"

definition tk :: "nat \<Rightarrow> take_pc option \<Rightarrow> gti_sys \<Rightarrow> gti_sys" where
  "tk t pc w = w\<lparr>gs_threads := (gs_threads w)(t := pc)\<rparr>"

definition src :: "ObGtiSource \<Rightarrow> gti_sys \<Rightarrow> gti_sys" where "src s w = w\<lparr>gs_src := s\<rparr>"

inductive gti_step :: "gti_sys \<Rightarrow> gti_sys \<Rightarrow> bool" where
  enter: "gs_threads w t = None \<Longrightarrow> gti_step w (tk t (Some TkCur) w)"
| read_cur: "gs_threads w t = Some TkCur \<Longrightarrow> gti_step w (tk t (Some (TkEnd (cur_idx (gs_src w)))) w)"
| read_end: "gs_threads w t = Some (TkEnd i) \<Longrightarrow>
    gti_step w (tk t (Some (TkStart i (end_id (cache_at (gs_src w) (slot_of i))))) w)"
| read_start: "gs_threads w t = Some (TkStart i e) \<Longrightarrow>
    gti_step w (tk t (Some (if start_id (cache_at (gs_src w) (slot_of i)) < e then TkAdd i e else TkMiss i)) w)"
| take: "gs_threads w t = Some (TkAdd i e) \<Longrightarrow> faa_start (slot_of i) (gs_src w) = (v, s) \<Longrightarrow> v < e \<Longrightarrow>
    gti_step w ((tk t None (src s w))\<lparr>gs_given := gs_given w @ [(slot_of i, v)]\<rparr>)"
| too_late: "gs_threads w t = Some (TkAdd i e) \<Longrightarrow> faa_start (slot_of i) (gs_src w) = (v, s) \<Longrightarrow> \<not> v < e \<Longrightarrow>
    gti_step w (tk t (Some (TkMiss i)) (src s w))"
| miss: "gs_threads w t = Some (TkMiss i) \<Longrightarrow>
    gti_step w (tk t (if i \<ge> cache_idx (gs_src w) then None else Some (TkNext i)) w)"
| advance: "gs_threads w t = Some (TkNext i) \<Longrightarrow> gti_step w (tk t (Some TkCur) (src (cas_cur_idx i (gs_src w)) w))"
| other: "id_cache s = id_cache (gs_src w) \<Longrightarrow> cur_idx s = cur_idx (gs_src w) \<Longrightarrow> cache_idx s = cache_idx (gs_src w) \<Longrightarrow>
    gti_step w (src s w)"
| arrive: "gs_store w = StFree \<Longrightarrow> 0 < a \<Longrightarrow> a < b \<Longrightarrow> \<forall>r \<in> set (gs_arrived w). apart r (a, b) \<Longrightarrow>
    gti_step w (w\<lparr>gs_store := StTest a b, gs_arrived := gs_arrived w @ [(a, b)]\<rparr>)"
| test: "gs_store w = StTest a b \<Longrightarrow>
    gti_step w (w\<lparr>gs_store := if ring_full (gs_src w) then StFree else StStart (slot_of (cache_idx (gs_src w))) a b\<rparr>)"
| put_start: "gs_store w = StStart k a b \<Longrightarrow>
    gti_step w ((src (write_start k a (gs_src w)) w)\<lparr>gs_store := StEnd k a b\<rparr>)"
| put_end: "gs_store w = StEnd k a b \<Longrightarrow>
    gti_step w ((src (write_end k b (gs_src w)) w)\<lparr>gs_store := StPublish, gs_placed := gs_placed w @ [(k, a, b)]\<rparr>)"
| publish: "gs_store w = StPublish \<Longrightarrow> gti_step w ((src (publish_range (gs_src w)) w)\<lparr>gs_store := StFree\<rparr>)"

definition gti_start :: "gti_sys \<Rightarrow> bool" where
  "gti_start w \<longleftrightarrow> (\<exists>now. gs_src w = gti_reset now) \<and> gs_threads w = (\<lambda>_. None) \<and> gs_store w = StFree
     \<and> gs_arrived w = [] \<and> gs_placed w = [] \<and> gs_given w = []"

inductive gti_reachable :: "gti_sys \<Rightarrow> bool" where
  start: "gti_start w \<Longrightarrow> gti_reachable w"
| step: "gti_reachable w \<Longrightarrow> gti_step w w' \<Longrightarrow> gti_reachable w'"

subsection \<open>The invariant\<close>

definition starts :: "gti_sys \<Rightarrow> nat \<Rightarrow> int" where "starts w k = start_id (cache_at (gs_src w) k)"

text \<open>An end that was read from a slot belongs to a range whose start the slot has passed.\<close>

definition end_known :: "gti_sys \<Rightarrow> nat \<Rightarrow> int \<Rightarrow> bool" where
  "end_known w k e \<longleftrightarrow> e = 0 \<or> (\<exists>a. (k, a, e) \<in> set (gs_placed w) \<and> a \<le> starts w k)"

fun take_ok :: "gti_sys \<Rightarrow> take_pc \<Rightarrow> bool" where
  "take_ok w (TkStart i e) \<longleftrightarrow> end_known w (slot_of i) e"
| "take_ok w (TkAdd i e) \<longleftrightarrow> end_known w (slot_of i) e"
| "take_ok w pc \<longleftrightarrow> True"

fun held :: "store_pc \<Rightarrow> (int \<times> int) option" where
  "held (StTest a b) = Some (a, b)"
| "held (StStart k a b) = Some (a, b)"
| "held (StEnd k a b) = Some (a, b)"
| "held pc = None"

fun store_ok :: "gti_sys \<Rightarrow> store_pc \<Rightarrow> bool" where
  "store_ok w (StStart k a b) \<longleftrightarrow> k < nat MAX_CACHE_NUM"
| "store_ok w (StEnd k a b) \<longleftrightarrow> k < nat MAX_CACHE_NUM \<and> a \<le> starts w k"
| "store_ok w pc \<longleftrightarrow> True"

definition slots_ok :: "gti_sys \<Rightarrow> bool" where
  "slots_ok w \<longleftrightarrow> length (id_cache (gs_src w)) = nat MAX_CACHE_NUM
     \<and> (\<forall>k < nat MAX_CACHE_NUM. 0 \<le> starts w k \<and> end_known w k (end_id (cache_at (gs_src w) k)))"

definition ranges_ok :: "gti_sys \<Rightarrow> bool" where
  "ranges_ok w \<longleftrightarrow> sorted_wrt (\<lambda>p q. apart (snd p) (snd q)) (gs_placed w)
     \<and> (\<forall>p \<in> set (gs_placed w). snd p \<in> set (gs_arrived w) \<and> fst (snd p) < snd (snd p))
     \<and> (\<forall>r. held (gs_store w) = Some r \<longrightarrow> fst r < snd r \<and> r \<in> set (gs_arrived w) \<and> (\<forall>p \<in> set (gs_placed w). apart (snd p) r))"

definition numbers_ok :: "gti_sys \<Rightarrow> bool" where
  "numbers_ok w \<longleftrightarrow> distinct (gs_given w)
     \<and> (\<forall>(k, v) \<in> set (gs_given w). v < starts w k \<and> (\<exists>a b. (k, a, b) \<in> set (gs_placed w) \<and> a \<le> v \<and> v < b))"

definition gti_inv :: "gti_sys \<Rightarrow> bool" where
  "gti_inv w \<longleftrightarrow> slots_ok w \<and> ranges_ok w \<and> numbers_ok w \<and> store_ok w (gs_store w)
     \<and> (\<forall>t pc. gs_threads w t = Some pc \<longrightarrow> take_ok w pc)"

subsection \<open>Preservation\<close>

lemma slot_of_bound [simp]: "slot_of i < nat MAX_CACHE_NUM"
  by (simp add: slot_of_def MAX_CACHE_NUM_def)

text \<open>What the threads know stays true while the starts grow and ranges are added.\<close>

definition forward :: "gti_sys \<Rightarrow> gti_sys \<Rightarrow> bool" where
  "forward w w' \<longleftrightarrow> (\<forall>k. starts w k \<le> starts w' k) \<and> set (gs_placed w) \<subseteq> set (gs_placed w')"

lemma end_known_forward: "end_known w k e \<Longrightarrow> forward w w' \<Longrightarrow> end_known w' k e"
  unfolding end_known_def forward_def by (meson order_trans subsetD)

lemma take_ok_forward: "take_ok w pc \<Longrightarrow> forward w w' \<Longrightarrow> take_ok w' pc"
  by (cases pc) (auto intro: end_known_forward)

lemma numbers_ok_forward:
  assumes "numbers_ok w" "forward w w'" "gs_given w' = gs_given w"
  shows "numbers_ok w'"
  unfolding numbers_ok_def
proof (intro conjI ballI, goal_cases)
  case 1
  show ?case using assms(1,3) by (simp add: numbers_ok_def)
next
  case (2 x)
  obtain k v where x: "x = (k, v)" by (cases x)
  have "v < starts w k" "\<exists>a b. (k, a, b) \<in> set (gs_placed w) \<and> a \<le> v \<and> v < b"
    using assms(1,3) 2 unfolding numbers_ok_def x by auto
  then show ?case using assms(2) unfolding x forward_def by (auto intro: less_le_trans)
qed

text \<open>A step that changes neither the slots nor the store nor the histories.\<close>

lemma gti_inv_thread:
  assumes "gti_inv w" "id_cache s = id_cache (gs_src w)" "\<And>p. pc = Some p \<Longrightarrow> take_ok w p"
  shows "gti_inv (tk t pc (src s w))"
proof -
  have st: "starts (tk t pc (src s w)) = starts w" by (rule ext) (simp add: starts_def tk_def src_def cache_at_def assms(2))
  have pl: "gs_placed (tk t pc (src s w)) = gs_placed w" "gs_given (tk t pc (src s w)) = gs_given w"
    "gs_store (tk t pc (src s w)) = gs_store w" "gs_arrived (tk t pc (src s w)) = gs_arrived w" by (simp_all add: tk_def src_def)
  have f: "forward w (tk t pc (src s w))" by (simp add: forward_def st pl)
  have slots: "slots_ok (tk t pc (src s w))" using assms(1,2) end_known_forward [OF _ f]
    by (simp add: gti_inv_def slots_ok_def st) (simp add: tk_def src_def cache_at_def)
  have nums: "numbers_ok (tk t pc (src s w))" using assms(1) f pl(2) by (auto simp: gti_inv_def intro: numbers_ok_forward)
  have store: "store_ok (tk t pc (src s w)) (gs_store w)" using assms(1) by (cases "gs_store w") (auto simp: gti_inv_def st)
  have th: "take_ok (tk t pc (src s w)) p" if "gs_threads (tk t pc (src s w)) u = Some p" for u p
  proof (rule take_ok_forward [OF _ f])
    show "take_ok w p" using that assms(1,3) by (cases "u = t") (auto simp: gti_inv_def tk_def src_def)
  qed
  show ?thesis using assms(1) slots nums store th by (simp add: gti_inv_def ranges_ok_def pl)
qed

lemma src_same [simp]: "src (gs_src w) w = w" by (simp add: src_def)

lemma tk_same: "tk t (gs_threads w t) w = w" by (simp add: tk_def)

lemma gti_inv_forward:
  assumes "gti_inv w" "forward w w'" "length (id_cache (gs_src w')) = length (id_cache (gs_src w))"
    "\<And>k. k < nat MAX_CACHE_NUM \<Longrightarrow> end_known w' k (end_id (cache_at (gs_src w') k))"
    "ranges_ok w'" "numbers_ok w'" "store_ok w' (gs_store w')"
    "\<And>t pc. gs_threads w' t = Some pc \<Longrightarrow> take_ok w pc"
  shows "gti_inv w'"
proof -
  have "0 \<le> starts w' k" if "k < nat MAX_CACHE_NUM" for k
    using assms(1,2) that by (auto simp: gti_inv_def slots_ok_def forward_def intro: order_trans)
  then have "slots_ok w'" using assms(1,3,4) by (simp add: gti_inv_def slots_ok_def)
  then show ?thesis using assms(5-8) take_ok_forward [OF _ assms(2)] by (simp add: gti_inv_def)
qed

text \<open>The slots after the atomic accesses.\<close>

lemma cache_put:
  assumes "k < length (id_cache s)"
  shows "cache_at (put_cache k c s) j = (if j = k then c else cache_at s j)"
  using assms by (simp add: cache_at_def put_cache_def)

lemma slot_facts:
  assumes "gti_inv w"
  shows "length (id_cache (gs_src w)) = nat MAX_CACHE_NUM"
    "k < nat MAX_CACHE_NUM \<Longrightarrow> end_known w k (end_id (cache_at (gs_src w) k))" "0 \<le> starts w (slot_of i)"
  using assms by (simp_all add: gti_inv_def slots_ok_def)

text \<open>A fetch-and-add moves the start of its slot by one; what it returns below a known end is new.\<close>

lemma faa_facts:
  assumes "gti_inv w" "faa_start (slot_of i) (gs_src w) = (v, s)"
  shows "v = starts w (slot_of i)" "length (id_cache s) = length (id_cache (gs_src w))"
    "start_id (cache_at s k) = (if k = slot_of i then v + 1 else starts w k)" "end_id (cache_at s k) = end_id (cache_at (gs_src w) k)"
  using assms slot_facts(1) [OF assms(1)]
  by (auto simp: faa_start_def starts_def cache_put) (simp_all add: put_cache_def)

lemma faa_forward:
  assumes "gti_inv w" "faa_start (slot_of i) (gs_src w) = (v, s)" "gs_src w' = s" "gs_placed w' = gs_placed w"
  shows "forward w w'" "v < starts w' (slot_of i)"
  using faa_facts [OF assms(1,2)] by (simp_all add: forward_def starts_def assms(3,4))

lemma gti_inv_faa:
  assumes "gti_inv w" "faa_start (slot_of i) (gs_src w) = (v, s)" "gs_src w' = s" "gs_placed w' = gs_placed w"
    "gs_arrived w' = gs_arrived w" "gs_store w' = gs_store w" "numbers_ok w'"
    "\<And>t pc. gs_threads w' t = Some pc \<Longrightarrow> take_ok w pc"
  shows "gti_inv w'"
proof -
  note f = faa_facts [OF assms(1,2)] and fw = faa_forward(1) [OF assms(1-4)]
  have "store_ok w (gs_store w)" using assms(1) by (simp add: gti_inv_def)
  then have store: "store_ok w' (gs_store w')" using fw assms(6) by (cases "gs_store w") (auto simp: forward_def intro: order_trans)
  have ranges: "ranges_ok w'" using assms(1,4-6) by (simp add: gti_inv_def ranges_ok_def)
  show "gti_inv w'"
  proof (rule gti_inv_forward [OF assms(1) fw _ _ ranges assms(7) store assms(8)])
    fix k assume "k < nat MAX_CACHE_NUM"
    then show "end_known w' k (end_id (cache_at (gs_src w') k))"
      using slot_facts(2) [OF assms(1)] end_known_forward [OF _ fw] f(4) assms(3) by simp
  qed (simp_all add: assms(3) f(2))
qed

lemma new_number:
  assumes "gti_inv w" "gs_threads w t = Some (TkAdd i e)" "faa_start (slot_of i) (gs_src w) = (v, s)" "v < e"
  shows "(slot_of i, v) \<notin> set (gs_given w)" "\<exists>a b. (slot_of i, a, b) \<in> set (gs_placed w) \<and> a \<le> v \<and> v < b"
proof -
  note f = faa_facts [OF assms(1,3)]
  have "numbers_ok w" using assms(1) by (simp add: gti_inv_def)
  then show "(slot_of i, v) \<notin> set (gs_given w)" using f(1) by (auto simp: numbers_ok_def)
  have "take_ok w (TkAdd i e)" using assms(1,2) unfolding gti_inv_def by blast
  then have "end_known w (slot_of i) e" by simp
  moreover have "0 \<le> v" using slot_facts(3) [OF assms(1)] f(1) by simp
  ultimately show "\<exists>a b. (slot_of i, a, b) \<in> set (gs_placed w) \<and> a \<le> v \<and> v < b"
    using assms(4) f(1) by (auto simp: end_known_def)
qed

lemma numbers_ok_add:
  assumes "numbers_ok w" "forward w w'" "gs_given w' = gs_given w @ [(k, v)]" "(k, v) \<notin> set (gs_given w)" "v < starts w' k"
    "\<exists>a b. (k, a, b) \<in> set (gs_placed w) \<and> a \<le> v \<and> v < b"
  shows "numbers_ok w'"
proof -
  have "numbers_ok (w'\<lparr>gs_given := gs_given w\<rparr>)"
    by (rule numbers_ok_forward [OF assms(1)]) (use assms(2) in \<open>simp_all add: forward_def starts_def\<close>)
  then have "distinct (gs_given w)" "\<forall>(k, v) \<in> set (gs_given w). v < starts w' k \<and> (\<exists>a b. (k, a, b) \<in> set (gs_placed w') \<and> a \<le> v \<and> v < b)"
    by (simp_all add: numbers_ok_def starts_def)
  moreover have "\<exists>a b. (k, a, b) \<in> set (gs_placed w') \<and> a \<le> v \<and> v < b" using assms(2,6) by (auto simp: forward_def)
  ultimately show ?thesis using assms(3-5) by (simp add: numbers_ok_def)
qed

lemma gti_inv_take:
  assumes "gti_inv w" "gs_threads w t = Some (TkAdd i e)" "faa_start (slot_of i) (gs_src w) = (v, s)" "v < e"
  shows "gti_inv ((tk t None (src s w))\<lparr>gs_given := gs_given w @ [(slot_of i, v)]\<rparr>)" (is "gti_inv ?w")
proof -
  have src: "gs_src ?w = s" "gs_placed ?w = gs_placed w" by (simp_all add: tk_def src_def)
  have num: "numbers_ok w" using assms(1) by (simp add: gti_inv_def)
  have new: "numbers_ok ?w"
    by (rule numbers_ok_add [OF num faa_forward(1) [OF assms(1,3) src] _ new_number(1) [OF assms(1-4)]
        faa_forward(2) [OF assms(1,3) src] new_number(2) [OF assms(1-4)]]) simp
  show ?thesis
    by (rule gti_inv_faa [OF assms(1,3) src _ _ new])
      (use assms(1) in \<open>auto simp: tk_def src_def gti_inv_def split: if_splits\<close>)
qed

lemma gti_inv_too_late:
  assumes "gti_inv w" "faa_start (slot_of i) (gs_src w) = (v, s)"
  shows "gti_inv (tk t (Some (TkMiss i)) (src s w))" (is "gti_inv ?w")
proof -
  have src: "gs_src ?w = s" "gs_placed ?w = gs_placed w" by (simp_all add: tk_def src_def)
  have "numbers_ok w" using assms(1) by (simp add: gti_inv_def)
  then have new: "numbers_ok ?w" by (rule numbers_ok_forward [OF _ faa_forward(1) [OF assms src]]) (simp add: tk_def src_def)
  show ?thesis
    by (rule gti_inv_faa [OF assms src _ _ new])
      (use assms(1) in \<open>auto simp: tk_def src_def gti_inv_def split: if_splits\<close>)
qed

text \<open>The store.\<close>

lemma held_facts:
  assumes "gti_inv w" "held (gs_store w) = Some (a, b)"
  shows "a < b" "(a, b) \<in> set (gs_arrived w)" "\<forall>p \<in> set (gs_placed w). apart (snd p) (a, b)"
  using assms by (auto simp: gti_inv_def ranges_ok_def)

lemma gti_inv_put_start:
  assumes "gti_inv w" "gs_store w = StStart k a b"
  shows "gti_inv ((src (write_start k a (gs_src w)) w)\<lparr>gs_store := StEnd k a b\<rparr>)" (is "gti_inv ?w")
proof -
  have k: "k < length (id_cache (gs_src w))" "k < nat MAX_CACHE_NUM"
    using assms slot_facts(1) [OF assms(1)] by (simp_all add: gti_inv_def)
  have at: "cache_at (gs_src ?w) j = (if j = k then (cache_at (gs_src w) k)\<lparr>start_id := max (starts w k) a\<rparr> else cache_at (gs_src w) j)" for j
    using k by (simp add: src_def write_start_def cache_put starts_def)
  have st: "starts ?w j = (if j = k then max (starts w k) a else starts w j)" for j
    unfolding starts_def [of ?w] at by (simp add: starts_def)
  have f: "forward w ?w" by (simp add: forward_def st) (simp add: src_def)
  have "numbers_ok w" using assms(1) by (simp add: gti_inv_def)
  then have num: "numbers_ok ?w" by (rule numbers_ok_forward [OF _ f]) (simp add: src_def)
  have ranges: "ranges_ok ?w" using assms by (simp add: gti_inv_def ranges_ok_def src_def)
  show ?thesis
  proof (rule gti_inv_forward [OF assms(1) f _ _ ranges num])
    fix j assume "j < nat MAX_CACHE_NUM"
    then have "end_known ?w j (end_id (cache_at (gs_src w) j))" by (rule end_known_forward [OF slot_facts(2) [OF assms(1)] f])
    then show "end_known ?w j (end_id (cache_at (gs_src ?w) j))" unfolding at by auto
  next
    show "store_ok ?w (gs_store ?w)" using k st [of k] by simp
  qed (use assms(1) in \<open>auto simp: src_def write_start_def put_cache_def gti_inv_def\<close>)
qed

lemma gti_inv_put_end:
  assumes "gti_inv w" "gs_store w = StEnd k a b"
  shows "gti_inv ((src (write_end k b (gs_src w)) w)\<lparr>gs_store := StPublish, gs_placed := gs_placed w @ [(k, a, b)]\<rparr>)" (is "gti_inv ?w")
proof -
  have k: "k < length (id_cache (gs_src w))" "k < nat MAX_CACHE_NUM" "a \<le> starts w k"
    using assms slot_facts(1) [OF assms(1)] by (simp_all add: gti_inv_def)
  have at: "cache_at (gs_src ?w) j = (if j = k then (cache_at (gs_src w) k)\<lparr>end_id := max (end_id (cache_at (gs_src w) k)) b\<rparr> else cache_at (gs_src w) j)" for j
    using k by (simp add: src_def write_end_def cache_put)
  have st: "starts ?w j = starts w j" for j unfolding starts_def at by simp
  have f: "forward w ?w" by (auto simp: forward_def st)
  have "numbers_ok w" using assms(1) by (simp add: gti_inv_def)
  then have num: "numbers_ok ?w" by (rule numbers_ok_forward [OF _ f]) (simp add: src_def)
  have "held (gs_store w) = Some (a, b)" using assms(2) by simp
  note h = held_facts [OF assms(1) this]
  have ranges: "ranges_ok ?w" using assms h by (auto simp: gti_inv_def ranges_ok_def src_def sorted_wrt_append)
  show ?thesis
  proof (rule gti_inv_forward [OF assms(1) f _ _ ranges num])
    fix j assume "j < nat MAX_CACHE_NUM"
    then have old: "end_known ?w j (end_id (cache_at (gs_src w) j))" by (rule end_known_forward [OF slot_facts(2) [OF assms(1)] f])
    have new: "end_known ?w k b" using k(3) by (auto simp: end_known_def st)
    show "end_known ?w j (end_id (cache_at (gs_src ?w) j))" unfolding at using old new by (cases "j = k") (auto simp: max_def)
  qed (use assms(1) in \<open>auto simp: src_def write_end_def put_cache_def gti_inv_def\<close>)
qed

text \<open>A step of the store that leaves the slots alone.\<close>

lemma gti_inv_store:
  assumes "gti_inv w" "gs_src w' = s" "id_cache s = id_cache (gs_src w)" "gs_threads w' = gs_threads w" "gs_placed w' = gs_placed w"
    "gs_given w' = gs_given w" "set (gs_arrived w) \<subseteq> set (gs_arrived w')" "store_ok w' (gs_store w')"
    "\<And>r. held (gs_store w') = Some r \<Longrightarrow> fst r < snd r \<and> r \<in> set (gs_arrived w') \<and> (\<forall>p \<in> set (gs_placed w). apart (snd p) r)"
  shows "gti_inv w'"
proof -
  have at: "cache_at (gs_src w') = cache_at (gs_src w)" by (rule ext) (simp add: cache_at_def assms(2,3))
  have f: "forward w w'" by (simp add: forward_def starts_def at assms(5))
  have "numbers_ok w" using assms(1) by (simp add: gti_inv_def)
  then have num: "numbers_ok w'" by (rule numbers_ok_forward [OF _ f assms(6)])
  have ranges: "ranges_ok w'" using assms(1,5,7,9) unfolding gti_inv_def ranges_ok_def by auto
  show ?thesis
  proof (rule gti_inv_forward [OF assms(1) f _ _ ranges num assms(8)])
    fix k assume "k < nat MAX_CACHE_NUM"
    then show "end_known w' k (end_id (cache_at (gs_src w') k))"
      using end_known_forward [OF slot_facts(2) [OF assms(1)] f] by (simp add: at)
  qed (use assms(1) in \<open>simp_all add: assms(2-4) gti_inv_def\<close>)
qed

lemma gti_inv_step:
  assumes "gti_step w w'" "gti_inv w"
  shows "gti_inv w'"
  using assms
proof (cases rule: gti_step.cases)
  case (read_end t i)
  then show ?thesis using gti_inv_thread [OF assms(2) refl, of "Some (TkStart i (end_id (cache_at (gs_src w) (slot_of i))))" t]
    slot_facts(2) [OF assms(2)] by simp
next
  case (read_start t i e)
  have "take_ok w (TkStart i e)" using assms(2) read_start(2) unfolding gti_inv_def by blast
  then show ?thesis unfolding read_start(1)
    using gti_inv_thread [OF assms(2) refl, of "Some (TkAdd i e)" t] gti_inv_thread [OF assms(2) refl, of "Some (TkMiss i)" t] by simp
next
  case (advance t i)
  then show ?thesis using gti_inv_thread [OF assms(2), of "cas_cur_idx i (gs_src w)" "Some TkCur" t] by (simp add: cas_cur_idx_def)
next
  case (other s)
  have "gti_inv (tk t (gs_threads w t) (src s w))" for t
    by (rule gti_inv_thread [OF assms(2) other(2)]) (use assms(2) in \<open>simp add: gti_inv_def\<close>)
  then show ?thesis unfolding other(1) using tk_same [of _ "src s w"] by (simp add: src_def)
next
  case (arrive a b)
  have "apart (snd p) (a, b)" if "p \<in> set (gs_placed w)" for p
    using assms(2) arrive(5) that by (simp add: gti_inv_def ranges_ok_def)
  then show ?thesis unfolding arrive(1) using arrive by (intro gti_inv_store [OF assms(2) refl]) auto
next
  case (test a b)
  have "held (gs_store w) = Some (a, b)" using test by simp
  note h = held_facts [OF assms(2) this]
  show ?thesis unfolding test(1) using h by (intro gti_inv_store [OF assms(2) refl]) (auto split: if_splits)
next
  case publish
  then show ?thesis by (intro gti_inv_store [OF assms(2) refl]) (auto simp: src_def publish_range_def)
qed (auto simp: gti_inv_take gti_inv_too_late gti_inv_put_start gti_inv_put_end intro: gti_inv_thread [OF _ refl, simplified])

lemma gti_inv_reachable: "gti_reachable w \<Longrightarrow> gti_inv w"
proof (induction rule: gti_reachable.induct)
  case (start w)
  then show ?case
    by (auto simp: gti_start_def gti_inv_def slots_ok_def ranges_ok_def numbers_ok_def starts_def end_known_def gti_reset_def cache_at_def)
qed (blast intro: gti_inv_step)

lemma placed_apart:
  assumes "ranges_ok w" "p \<in> set (gs_placed w)" "q \<in> set (gs_placed w)" "p \<noteq> q"
  shows "apart (snd p) (snd q)"
proof -
  obtain j k where j: "j < length (gs_placed w)" "gs_placed w ! j = p" and k: "k < length (gs_placed w)" "gs_placed w ! k = q"
    using assms(2,3) by (auto simp: in_set_conv_nth)
  have s: "sorted_wrt (\<lambda>p q. apart (snd p) (snd q)) (gs_placed w)" using assms(1) by (simp add: ranges_ok_def)
  have "j < k \<or> k < j" using assms(4) j k by (metis linorder_neqE_nat)
  then show ?thesis using sorted_wrt_nth_less [OF s, of j k] sorted_wrt_nth_less [OF s, of k j] j k by (auto simp: apart_def)
qed

subsection \<open>The service behind the cache\<close>

text \<open>
  What the cache relies on: a provider whose ranges are positive, not empty and pairwise apart. Any range of the
  provider that has not arrived yet can then arrive.
\<close>

locale range_provider =
  fixes live :: "'s \<Rightarrow> bool" and ranges :: "'s \<Rightarrow> (int \<times> int) list"
  assumes ranges_positive: "live v \<Longrightarrow> r \<in> set (ranges v) \<Longrightarrow> 0 < fst r \<and> fst r < snd r"
    and ranges_apart: "live v \<Longrightarrow> m < length (ranges v) \<Longrightarrow> n < length (ranges v) \<Longrightarrow> m \<noteq> n \<Longrightarrow> apart (ranges v ! m) (ranges v ! n)"
begin

lemma next_range_arrives:
  assumes "live v" "gs_arrived w = nths (ranges v) I" "gs_store w = StFree" "n < length (ranges v)" "n \<notin> I" "ranges v ! n = (a, b)"
  shows "gti_step w (w\<lparr>gs_store := StTest a b, gs_arrived := gs_arrived w @ [(a, b)]\<rparr>)"
proof (rule gti_step.arrive [OF assms(3)])
  show "0 < a" "a < b" using ranges_positive [OF assms(1), of "(a, b)"] assms(4,6) nth_mem by force+
  show "\<forall>r \<in> set (gs_arrived w). apart r (a, b)"
  proof
    fix r assume "r \<in> set (gs_arrived w)"
    then obtain m where "m < length (ranges v)" "m \<in> I" "ranges v ! m = r" by (auto simp: assms(2) set_nths)
    with ranges_apart [OF assms(1), of m n] assms(4-6) show "apart r (a, b)" by auto
  qed
qed

end

lemma given_positive:
  assumes "id_inv w" "(j, a, b) \<in> set (is_given w)"
  shows "0 < a" "a < b"
proof -
  have inv: "log_ok (is_log w)" "given_ok w" using assms(1) by (simp_all add: id_inv_def)
  obtain i where i: "a < b" "\<forall>x. a \<le> x \<longrightarrow> x < b \<longrightarrow> owns (is_log w) i x" using inv(2) assms(2) unfolding given_ok_def by fast
  then have "owns (is_log w) i a" by simp
  then show "0 < a" using lim_positive [OF inv(1)] unfolding owns_def MIN_LAST_ID_def by (metis less_imp_le_nat not_le order_trans zero_less_one)
  show "a < b" by (rule i(1))
qed

interpretation number_service: range_provider "id_reachable True" "\<lambda>w. map snd (is_given w)"
proof
  fix v and r :: "int \<times> int" assume v: "id_reachable True v" "r \<in> set (map snd (is_given v))"
  then obtain j where "(j, fst r, snd r) \<in> set (is_given v)" by force
  then show "0 < fst r \<and> fst r < snd r" using given_positive [OF id_inv_reachable [OF v(1)]] by blast
next
  fix v m n assume v: "id_reachable True v" and mn: "m < length (map snd (is_given v))" "n < length (map snd (is_given v))" "m \<noteq> n"
  have inv: "id_inv v" by (rule id_inv_reachable [OF v])
  obtain j a b k c d where x: "is_given v ! m = (j, a, b)" "is_given v ! n = (k, c, d)" by (metis prod_cases3)
  have "distinct (map fst (is_given v))" using inv by (simp add: id_inv_def index_ok_def)
  then have "j \<noteq> k" using mn x by (metis distinct_conv_nth fst_conv length_map nth_map)
  then show "apart (map snd (is_given v) ! m) (map snd (is_given v) ! n)"
    using given_disjoint [OF inv, of j a b k c d] x mn by (simp add: apart_def) (metis nth_mem)
qed

subsection \<open>Executable steps\<close>

datatype gti_act = Take nat | Arrive int int | Store

fun gti_do :: "gti_act \<Rightarrow> gti_sys \<Rightarrow> gti_sys option" where
  "gti_do (Take t) w =
     (case gs_threads w t of
        None \<Rightarrow> Some (tk t (Some TkCur) w)
      | Some TkCur \<Rightarrow> Some (tk t (Some (TkEnd (cur_idx (gs_src w)))) w)
      | Some (TkEnd i) \<Rightarrow> Some (tk t (Some (TkStart i (end_id (cache_at (gs_src w) (slot_of i))))) w)
      | Some (TkStart i e) \<Rightarrow> Some (tk t (Some (if start_id (cache_at (gs_src w) (slot_of i)) < e then TkAdd i e else TkMiss i)) w)
      | Some (TkAdd i e) \<Rightarrow>
          (case faa_start (slot_of i) (gs_src w) of (v, s) \<Rightarrow>
             Some (if v < e then (tk t None (src s w))\<lparr>gs_given := gs_given w @ [(slot_of i, v)]\<rparr> else tk t (Some (TkMiss i)) (src s w)))
      | Some (TkMiss i) \<Rightarrow> Some (tk t (if i \<ge> cache_idx (gs_src w) then None else Some (TkNext i)) w)
      | Some (TkNext i) \<Rightarrow> Some (tk t (Some TkCur) (src (cas_cur_idx i (gs_src w)) w)))"
| "gti_do (Arrive a b) w =
     (if gs_store w = StFree \<and> 0 < a \<and> a < b \<and> (\<forall>r \<in> set (gs_arrived w). apart r (a, b))
      then Some (w\<lparr>gs_store := StTest a b, gs_arrived := gs_arrived w @ [(a, b)]\<rparr>) else None)"
| "gti_do Store w =
     (case gs_store w of
        StFree \<Rightarrow> None
      | StTest a b \<Rightarrow> Some (w\<lparr>gs_store := if ring_full (gs_src w) then StFree else StStart (slot_of (cache_idx (gs_src w))) a b\<rparr>)
      | StStart k a b \<Rightarrow> Some ((src (write_start k a (gs_src w)) w)\<lparr>gs_store := StEnd k a b\<rparr>)
      | StEnd k a b \<Rightarrow> Some ((src (write_end k b (gs_src w)) w)\<lparr>gs_store := StPublish, gs_placed := gs_placed w @ [(k, a, b)]\<rparr>)
      | StPublish \<Rightarrow> Some ((src (publish_range (gs_src w)) w)\<lparr>gs_store := StFree\<rparr>))"

lemma gti_do_step:
  assumes "gti_do a w = Some w'"
  shows "gti_step w w'"
proof (cases a)
  case (Take t)
  show ?thesis
  proof (cases "gs_threads w t")
    case None
    with assms Take show ?thesis by (auto intro: gti_step.enter)
  next
    case (Some pc)
    then show ?thesis
    proof (cases pc)
      case (TkStart i e)
      with assms Take Some gti_step.read_start [of w t i e] show ?thesis by simp
    next
      case (TkMiss i)
      with assms Take Some gti_step.miss [of w t i] show ?thesis by simp
    qed (use assms Take Some in \<open>auto split: prod.splits if_splits
          intro: gti_step.read_cur gti_step.read_end gti_step.take gti_step.too_late gti_step.advance\<close>)
  qed
next
  case (Arrive a b)
  with assms show ?thesis by (auto split: if_splits intro!: gti_step.arrive)
next
  case Store
  with assms show ?thesis
    by (cases "gs_store w") (auto intro: gti_step.test gti_step.put_start gti_step.put_end gti_step.publish)
qed

interpretation gti_run: executable_system gti_do gti_step gti_reachable
  by unfold_locales (blast intro: gti_do_step gti_reachable.step)+

definition gti_nothing :: gti_sys where
  "gti_nothing = \<lparr>gs_src = gti_reset 0, gs_threads = (\<lambda>_. None), gs_store = StFree, gs_arrived = [], gs_placed = [], gs_given = []\<rparr>"

lemma gti_nothing_reachable: "gti_reachable gti_nothing"
  by (rule gti_reachable.start) (auto simp: gti_start_def gti_nothing_def)

text \<open>Two threads compete for the two numbers of one range while the next range is being stored.\<close>

definition two_takers :: "gti_act list" where
  "two_takers = [Arrive 5 7, Store, Store, Store, Store, Take 1, Take 2, Take 1, Take 2, Take 1, Take 2, Take 1, Take 2,
     Arrive 1 3, Store, Take 2, Store, Take 1]"

lemma two_takers_run: "map_option gs_given (run_acts gti_do two_takers gti_nothing) = Some [(0, 5), (0, 6)]"
  by code_simp

subsection \<open>The property\<close>

text \<open>C6: The transaction numbers that a server takes from its cache are all different, under any
  interleaving of threads that take a number with the storing of new ranges into the ring (also into a slot that
  a slow thread is still looking at), and each comes from a range that the transaction number service handed out,
  as long as these ranges are disjoint.\<close>

theorem trans_ids_distinct:
  assumes "gti_reachable w"
  shows "distinct (map snd (gs_given w)) \<and> (\<forall>v. v \<in> snd ` set (gs_given w) \<longrightarrow> (\<exists>a b. (a, b) \<in> set (gs_arrived w) \<and> a \<le> v \<and> v < b))"
proof -
  have inv: "ranges_ok w" "numbers_ok w" using gti_inv_reachable [OF assms] by (simp_all add: gti_inv_def)
  have num: "\<exists>a b. (k, a, b) \<in> set (gs_placed w) \<and> a \<le> v \<and> v < b" if "(k, v) \<in> set (gs_given w)" for k v
    using inv(2) that unfolding numbers_ok_def by auto
  have "j = k" if jk: "(j, v) \<in> set (gs_given w)" "(k, v) \<in> set (gs_given w)" for j k v
  proof (rule ccontr)
    assume "j \<noteq> k"
    obtain a b c d where "(j, a, b) \<in> set (gs_placed w)" "a \<le> v" "v < b" "(k, c, d) \<in> set (gs_placed w)" "c \<le> v" "v < d"
      using num [OF jk(1)] num [OF jk(2)] by blast
    with placed_apart [OF inv(1), of "(j, a, b)" "(k, c, d)"] \<open>j \<noteq> k\<close> show False by (simp add: apart_def)
  qed
  then have "inj_on snd (set (gs_given w))" unfolding inj_on_def by (metis prod.collapse)
  then have "distinct (map snd (gs_given w))" using inv(2) by (simp add: distinct_map numbers_ok_def)
  moreover have "\<exists>a b. (a, b) \<in> set (gs_arrived w) \<and> a \<le> v \<and> v < b" if "v \<in> snd ` set (gs_given w)" for v
    using that num inv(1) unfolding ranges_ok_def by force
  ultimately show ?thesis by blast
qed

theorem trans_ids_distinct_witness:
  "\<exists>w. gti_reachable w \<and> gs_given w = [(0, 5), (0, 6)] \<and> distinct (map snd (gs_given w))
     \<and> (\<exists>a b. (a, b) \<in> set (gs_arrived w) \<and> a \<le> 6 \<and> 6 < b)"
proof -
  obtain w where w: "run_acts gti_do two_takers gti_nothing = Some w" "gs_given w = [(0, 5), (0, 6)]" using two_takers_run by auto
  have r: "gti_reachable w" by (rule gti_run.run_acts_reach [OF w(1) gti_nothing_reachable])
  show ?thesis using trans_ids_distinct [OF r] r w(2) by auto
qed

end
