(* ===== verification/Gts_Source.thy ===== *)
theory Gts_Source
  imports Id_Service
begin

text \<open>
  The source of timestamps on a server that is not the leader of the timestamp service: the cache of
  the last timestamp (\<^verbatim>\<open>ob_gts_local_cache.{h,cpp}\<close>), the queues of tasks that wait for one
  (\<^verbatim>\<open>ob_gts_task_queue.{h,cpp}\<close>), and the source that asks the leader (\<^verbatim>\<open>ob_gts_source.{h,cpp}\<close>).
  Times and timestamps are integers; a task is a value of any type, and its callbacks are parameters.
\<close>

subsection \<open>The cache\<close>

record ObGTSLocalCache =
  srr :: int
  gts :: int
  latest_srr :: int
  receive_gts_ts :: int

definition mts_is_valid :: "int \<Rightarrow> bool" where "mts_is_valid t \<longleftrightarrow> t > 0"

definition lc_reset :: ObGTSLocalCache where
  "lc_reset = \<lparr>srr = 0, gts = 0, latest_srr = 0, receive_gts_ts = 0\<rparr>"

definition atomic_update :: "int \<Rightarrow> int \<Rightarrow> bool \<times> int" where
  "atomic_update v x = (if v < x then (True, x) else (False, v))"

lemma snd_atomic_update [simp]: "snd (atomic_update v x) = max v x"
  by (simp add: atomic_update_def)

text \<open>The three writes of an update, in their order.\<close>

definition put_receive :: "int \<Rightarrow> ObGTSLocalCache \<Rightarrow> ObGTSLocalCache" where
  "put_receive t c = c\<lparr>receive_gts_ts := snd (atomic_update (receive_gts_ts c) t)\<rparr>"

definition put_gts :: "int \<Rightarrow> ObGTSLocalCache \<Rightarrow> ObGTSLocalCache" where
  "put_gts g c = c\<lparr>gts := snd (atomic_update (gts c) g)\<rparr>"

definition put_srr :: "int \<Rightarrow> ObGTSLocalCache \<Rightarrow> ObGTSLocalCache" where
  "put_srr t c = c\<lparr>srr := snd (atomic_update (srr c) t)\<rparr>"

definition gts_acceptable :: "int \<Rightarrow> int \<Rightarrow> bool" where
  "gts_acceptable t g \<longleftrightarrow> mts_is_valid t \<and> 0 < g \<and> g < INT64_MAX div 2"

definition lc_update_gts :: "int \<Rightarrow> int \<Rightarrow> int \<Rightarrow> ObGTSLocalCache \<Rightarrow> ob_ret \<times> bool \<times> ObGTSLocalCache" where
  "lc_update_gts t g rcv c =
     (if \<not> gts_acceptable t g then (OB_INVALID_ARGUMENT, False, c)
      else (OB_SUCCESS, fst (atomic_update (srr c) t), put_srr t (put_gts g (put_receive rcv c))))"

definition update_gts_and_check_barrier :: "int \<Rightarrow> int \<Rightarrow> int \<Rightarrow> ObGTSLocalCache \<Rightarrow> ob_ret \<times> ObGTSLocalCache" where
  "update_gts_and_check_barrier t g rcv c =
     (if \<not> gts_acceptable t g then (OB_INVALID_ARGUMENT, c)
      else (OB_SUCCESS, put_srr t (put_gts g (put_receive rcv c))))"

definition lc_update_gts_only :: "int \<Rightarrow> ObGTSLocalCache \<Rightarrow> ob_ret \<times> bool \<times> ObGTSLocalCache" where
  "lc_update_gts_only g c =
     (if g < 0 \<or> g \<ge> INT64_MAX div 2 then (OB_INVALID_ARGUMENT, False, c)
      else (OB_SUCCESS, fst (atomic_update (gts c) g), put_gts g c))"

definition lc_get_gts_any :: "ObGTSLocalCache \<Rightarrow> ob_ret \<times> int" where
  "lc_get_gts_any c = (if gts c = 0 then (OB_EAGAIN, 0) else (OB_SUCCESS, gts c))"

text \<open>What \<^verbatim>\<open>get_gts\<close> decides by the values it has read; the latest request time is read last.\<close>

definition gts_decide :: "int \<Rightarrow> int \<Rightarrow> int \<Rightarrow> int \<Rightarrow> int \<Rightarrow> ob_ret \<times> (int \<times> int) option \<times> bool" where
  "gts_decide stc s g rcv latest =
     (if g = 0 then (OB_EAGAIN, None, True)
      else if stc > s then (OB_EAGAIN, None, stc > latest)
      else (OB_SUCCESS, Some (g, rcv), False))"

definition lc_get_gts :: "int \<Rightarrow> ObGTSLocalCache \<Rightarrow> ob_ret \<times> (int \<times> int) option \<times> bool" where
  "lc_get_gts stc c =
     (if \<not> mts_is_valid stc then (OB_INVALID_ARGUMENT, None, False)
      else gts_decide stc (srr c) (gts c) (receive_gts_ts c) (latest_srr c))"

definition get_srr_and_gts_safe :: "ObGTSLocalCache \<Rightarrow> int \<times> int \<times> int" where
  "get_srr_and_gts_safe c = (srr c, gts c, receive_gts_ts c)"

definition update_latest_srr :: "int \<Rightarrow> ObGTSLocalCache \<Rightarrow> ob_ret \<times> ObGTSLocalCache" where
  "update_latest_srr t c =
     (if \<not> mts_is_valid t then (OB_INVALID_ARGUMENT, c)
      else (OB_SUCCESS, c\<lparr>latest_srr := snd (atomic_update (latest_srr c) t)\<rparr>))"

definition no_rpc_on_road :: "ObGTSLocalCache \<Rightarrow> bool" where
  "no_rpc_on_road c \<longleftrightarrow> latest_srr c = srr c"

subsection \<open>The queues\<close>

text \<open>
  The loop over a queue: the tenant of a task is entered when it is not that of the task before; a
  task whose callback asks for another try goes to the end of the queue and ends the loop.
\<close>

fun foreach_loop :: "('t \<Rightarrow> nat) \<Rightarrow> (nat \<Rightarrow> ob_ret) \<Rightarrow> ('t \<Rightarrow> ob_ret) \<Rightarrow> nat option \<Rightarrow> 't list \<Rightarrow> ob_ret \<times> 't list" where
  "foreach_loop tenant enter cb last_tenant [] = (OB_SUCCESS, [])"
| "foreach_loop tenant enter cb last_tenant (t # q) =
     (let ret = (if last_tenant \<noteq> Some (tenant t) then enter (tenant t) else OB_SUCCESS) in
      if ret \<noteq> OB_SUCCESS then (ret, q)
      else if cb t = OB_EAGAIN then (OB_EAGAIN, q @ [t])
      else if cb t \<noteq> OB_SUCCESS then (cb t, q)
      else foreach_loop tenant enter cb (Some (tenant t)) q)"

definition foreach_task ::
  "('t \<Rightarrow> nat) \<Rightarrow> (nat \<Rightarrow> ob_ret) \<Rightarrow> ('t \<Rightarrow> int \<Rightarrow> int \<Rightarrow> int \<Rightarrow> ob_ret) \<Rightarrow> int \<times> int \<times> int \<Rightarrow> 't list \<Rightarrow> ob_ret \<times> 't list" where
  "foreach_task tenant enter cb x q =
     (case x of (t, g, rcv) \<Rightarrow>
        if 0 \<ge> t \<or> 0 \<ge> g then (OB_INVALID_ARGUMENT, q)
        else foreach_loop tenant enter (\<lambda>task. cb task t g rcv) None q)"

text \<open>Every task that the loop passes by without an error is served, and the others stay in the queue.\<close>

lemma foreach_loop_serves:
  assumes "foreach_loop tenant enter cb lt q = (ret, q')" "ret = OB_SUCCESS \<or> ret = OB_EAGAIN" "\<forall>n. enter n = OB_SUCCESS"
  shows "\<exists>done. (\<forall>t \<in> set done. cb t = OB_SUCCESS) \<and> mset q = mset done + mset q' \<and> (ret = OB_SUCCESS \<longrightarrow> q' = [])"
  using assms
proof (induction q arbitrary: lt ret q')
  case (Cons t q)
  have e: "enter (tenant t) = OB_SUCCESS" using Cons.prems(3) by blast
  show ?case
  proof (cases "cb t = OB_SUCCESS")
    case True
    then have "foreach_loop tenant enter cb (Some (tenant t)) q = (ret, q')" using Cons.prems(1) True e by (simp add: Let_def split: if_splits)
    from Cons.IH [OF this Cons.prems(2,3)] obtain d where
      "\<forall>t \<in> set d. cb t = OB_SUCCESS" "mset q = mset d + mset q'" "ret = OB_SUCCESS \<longrightarrow> q' = []" by auto
    then show ?thesis using True by (intro exI [of _ "t # d"]) simp
  next
    case False
    then have "q' = q @ [t]" "ret = OB_EAGAIN" using Cons.prems(1,2) e by (auto simp: Let_def split: if_splits)
    then show ?thesis by (intro exI [of _ "[]"]) simp
  qed
qed simp

subsection \<open>The source\<close>

text \<open>
  What the source reads elsewhere: the clock, the location cache and whether its entry may be renewed now,
  the entry into the tenant, the answer of the local timestamp access, and the outcome of building and posting a request.
\<close>

record gts_env =
  xe_now :: int
  xe_leader :: "ob_ret \<times> nat option"
  xe_reach :: bool
  xe_switch :: bool
  xe_access :: "ob_ret \<times> int"
  xe_init :: ob_ret
  xe_post :: ob_ret

record 't ObGtsSource =
  src_inited :: bool
  src_cache :: ObGTSLocalCache
  src_get_queue :: "'t list"
  src_wait_queue :: "'t list"
  src_server :: nat
  src_leader :: "nat option"

text \<open>Requests that are sent, and renewals of the location that are asked for.\<close>

datatype gts_out = PostRequest nat int | RenewLocation

definition get_gts_leader :: "gts_env \<Rightarrow> 't ObGtsSource \<Rightarrow> ob_ret \<times> nat option \<times> 't ObGtsSource" where
  "get_gts_leader E s =
     (case src_leader s of
        Some l \<Rightarrow> (OB_SUCCESS, Some l, s)
      | None \<Rightarrow>
          if fst (xe_leader E) \<noteq> OB_SUCCESS then (fst (xe_leader E), None, s)
          else (if snd (xe_leader E) = None then OB_LS_LOCATION_LEADER_NOT_EXIST else OB_SUCCESS, snd (xe_leader E),
                s\<lparr>src_leader := snd (xe_leader E)\<rparr>))"

definition refresh_gts_location :: "gts_env \<Rightarrow> 't ObGtsSource \<Rightarrow> gts_out list \<times> 't ObGtsSource" where
  "refresh_gts_location E s = (if xe_reach E then [RenewLocation] else [], s\<lparr>src_leader := None\<rparr>)"

definition query_gts :: "gts_env \<Rightarrow> nat \<Rightarrow> 't ObGtsSource \<Rightarrow> ob_ret \<times> gts_out list \<times> 't ObGtsSource" where
  "query_gts E leader s =
     (case update_latest_srr (xe_now E) (src_cache s) of (ret, c) \<Rightarrow>
        let s1 = s\<lparr>src_cache := c\<rparr> in
        if ret \<noteq> OB_SUCCESS then (ret, [], s1)
        else if xe_init E \<noteq> OB_SUCCESS then (xe_init E, [], s1)
        else if xe_post E \<noteq> OB_SUCCESS then (case refresh_gts_location E s1 of (outs, s2) \<Rightarrow> (xe_post E, outs, s2))
        else (OB_SUCCESS, [PostRequest leader (xe_now E)], s1))"

definition refresh_gts :: "gts_env \<Rightarrow> bool \<Rightarrow> 't ObGtsSource \<Rightarrow> ob_ret \<times> gts_out list \<times> 't ObGtsSource" where
  "refresh_gts E need s =
     (case get_gts_leader E s of (ret, leader, s1) \<Rightarrow>
        case (if ret \<noteq> OB_SUCCESS then (ret, [], s1) else query_gts E (the leader) s1) of (ret1, outs, s2) \<Rightarrow>
          if need \<or> ret \<noteq> OB_SUCCESS
          then (case refresh_gts_location E s2 of (outs', s3) \<Rightarrow> (ret1, outs @ outs', s3))
          else (ret1, outs, s2))"

definition local_gts :: "gts_env \<Rightarrow> nat \<Rightarrow> 't ObGtsSource \<Rightarrow> ob_ret \<times> (int \<times> int) option \<times> 't ObGtsSource" where
  "local_gts E leader s =
     (case xe_access E of (ret, g) \<Rightarrow>
        if ret \<noteq> OB_SUCCESS then (ret, None, if ret = OB_NOT_MASTER then s\<lparr>src_leader := None\<rparr> else s)
        else
          let s1 = s\<lparr>src_leader := Some leader\<rparr> in
          case update_gts_and_check_barrier (xe_now E) g (xe_now E) (src_cache s1) of (ret1, c) \<Rightarrow>
            if ret1 \<noteq> OB_SUCCESS then (ret1, None, s1\<lparr>src_cache := c\<rparr>)
            else (OB_SUCCESS, Some (g, xe_now E), s1\<lparr>src_cache := c\<rparr>))"

definition src_get_gts_any ::
  "gts_env \<Rightarrow> 't option \<Rightarrow> 't ObGtsSource \<Rightarrow> ob_ret \<times> int \<times> gts_out list \<times> 't ObGtsSource" where
  "src_get_gts_any E task s =
     (if \<not> src_inited s then (OB_NOT_INIT, 0, [], s)
      else case lc_get_gts_any (src_cache s) of (ret, g) \<Rightarrow>
        if ret = OB_SUCCESS then (OB_SUCCESS, g, [], s)
        else if ret \<noteq> OB_EAGAIN then (ret, 0, [], s)
        else case task of
          None \<Rightarrow> (ret, 0, [], s)
        | Some t \<Rightarrow> (case refresh_gts E False (s\<lparr>src_get_queue := src_get_queue s @ [t]\<rparr>) of (_, outs, s1) \<Rightarrow> (ret, 0, outs, s1)))"

text \<open>The part of \<^verbatim>\<open>get_gts\<close> behind a miss of the cache.\<close>

definition get_gts_miss :: "gts_env \<Rightarrow> bool \<Rightarrow> 't ObGtsSource \<Rightarrow> ob_ret \<times> (int \<times> int) option \<times> gts_out list \<times> 't ObGtsSource" where
  "get_gts_miss E need_send_rpc s =
     (case get_gts_leader E s of (tmp, leader, s1) \<Rightarrow>
        if tmp \<noteq> OB_SUCCESS then (case refresh_gts_location E s1 of (outs, s2) \<Rightarrow> (OB_EAGAIN, None, outs, s2))
        else if the leader = src_server s1 then
          (if \<not> xe_switch E then (case refresh_gts_location E s1 of (outs, s2) \<Rightarrow> (OB_EAGAIN, None, outs, s2))
           else case local_gts E (the leader) s1 of (tmp1, res, s2) \<Rightarrow>
             if tmp1 = OB_SUCCESS then (OB_SUCCESS, res, [], s2)
             else if tmp1 \<noteq> OB_EAGAIN \<and> tmp1 \<noteq> OB_GTS_NOT_READY
             then (case refresh_gts_location E s2 of (outs, s3) \<Rightarrow> (OB_EAGAIN, None, outs, s3))
             else (OB_EAGAIN, None, [], s2))
        else if need_send_rpc then (case query_gts E (the leader) s1 of (_, outs, s2) \<Rightarrow> (OB_EAGAIN, None, outs, s2))
        else (OB_EAGAIN, None, [], s1))"

definition src_get_gts ::
  "gts_env \<Rightarrow> int \<Rightarrow> 't option \<Rightarrow> 't ObGtsSource \<Rightarrow> ob_ret \<times> (int \<times> int) option \<times> gts_out list \<times> 't ObGtsSource" where
  "src_get_gts E stc task s =
     (if \<not> src_inited s then (OB_NOT_INIT, None, [], s)
      else if \<not> mts_is_valid stc then (OB_INVALID_ARGUMENT, None, [], s)
      else case lc_get_gts stc (src_cache s) of (ret, res, need_send_rpc) \<Rightarrow>
        if ret = OB_SUCCESS then (OB_SUCCESS, res, [], s)
        else if ret \<noteq> OB_EAGAIN then (ret, None, [], s)
        else case get_gts_miss E need_send_rpc s of (ret1, res1, outs, s1) \<Rightarrow>
          (ret1, res1, outs,
           case task of Some t \<Rightarrow> if ret1 \<noteq> OB_SUCCESS then s1\<lparr>src_get_queue := src_get_queue s1 @ [t]\<rparr> else s1 | None \<Rightarrow> s1))"

definition wait_gts_elapse_task ::
  "gts_env \<Rightarrow> int \<Rightarrow> 't option \<Rightarrow> 't ObGtsSource \<Rightarrow> ob_ret \<times> bool \<times> gts_out list \<times> 't ObGtsSource" where
  "wait_gts_elapse_task E ts task s =
     (if \<not> src_inited s then (OB_NOT_INIT, False, [], s)
      else if 0 \<ge> ts \<or> task = None then (OB_INVALID_ARGUMENT, False, [], s)
      else
        let (ret, g) = lc_get_gts_any (src_cache s) in
        if ret \<noteq> OB_SUCCESS \<and> ret \<noteq> OB_EAGAIN then (ret, False, [], s)
        else if ret = OB_SUCCESS \<and> ts \<le> g then (OB_SUCCESS, False, [], s)
        else
          case get_gts_leader E s of (tmp, leader, s1) \<Rightarrow>
          case (if tmp \<noteq> OB_SUCCESS then (case refresh_gts_location E s1 of (outs, s2) \<Rightarrow> (True, outs, s2))
                else if the leader = src_server s1 then
                  (case local_gts E (the leader) s1 of (tmp1, res, s2) \<Rightarrow>
                     (\<not> (tmp1 = OB_SUCCESS \<and> ts \<le> fst (the res)), [], s2))
                else (True, [], s1)) of (need, outs, s3) \<Rightarrow>
            if \<not> need then (OB_SUCCESS, False, outs, s3)
            else (case refresh_gts E False (s3\<lparr>src_wait_queue := src_wait_queue s3 @ [the task]\<rparr>) of (_, outs', s4) \<Rightarrow>
                    (OB_SUCCESS, True, outs @ outs', s4)))"

definition wait_gts_elapse :: "gts_env \<Rightarrow> int \<Rightarrow> 't ObGtsSource \<Rightarrow> ob_ret \<times> gts_out list \<times> 't ObGtsSource" where
  "wait_gts_elapse E ts s =
     (if \<not> src_inited s then (OB_NOT_INIT, [], s)
      else if 0 \<ge> ts then (OB_INVALID_ARGUMENT, [], s)
      else
        let (ret, g) = lc_get_gts_any (src_cache s);
            ret1 = (if ret = OB_SUCCESS \<and> ts > g then OB_EAGAIN else ret) in
        if ret1 = OB_SUCCESS then (OB_SUCCESS, [], s)
        else case get_gts_leader E s of (tmp, leader, s1) \<Rightarrow>
          if tmp \<noteq> OB_SUCCESS then (case refresh_gts_location E s1 of (outs, s2) \<Rightarrow> (ret1, outs, s2))
          else if the leader = src_server s1 then
            (case local_gts E (the leader) s1 of (tmp1, res, s2) \<Rightarrow>
               (if tmp1 = OB_SUCCESS \<and> ts \<le> fst (the res) then OB_SUCCESS else ret1, [], s2))
          else (case query_gts E (the leader) s1 of (_, outs, s2) \<Rightarrow> (ret1, outs, s2)))"

definition src_update_gts :: "int \<Rightarrow> int \<Rightarrow> int \<Rightarrow> 't ObGtsSource \<Rightarrow> ob_ret \<times> bool \<times> 't ObGtsSource" where
  "src_update_gts t g rcv s =
     (if \<not> src_inited s then (OB_NOT_INIT, False, s)
      else if \<not> mts_is_valid t \<or> 0 \<ge> g \<or> \<not> mts_is_valid rcv then (OB_INVALID_ARGUMENT, False, s)
      else case lc_update_gts t g rcv (src_cache s) of (ret, update, c) \<Rightarrow> (ret, update, s\<lparr>src_cache := c\<rparr>))"

definition src_update_gts_only :: "int \<Rightarrow> 't ObGtsSource \<Rightarrow> ob_ret \<times> bool \<times> 't ObGtsSource" where
  "src_update_gts_only g s =
     (if \<not> src_inited s then (OB_NOT_INIT, False, s)
      else if 0 \<ge> g then (OB_INVALID_ARGUMENT, False, s)
      else case lc_update_gts_only g (src_cache s) of (ret, update, c) \<Rightarrow> (ret, update, s\<lparr>src_cache := c\<rparr>))"

definition handle_gts_err_response :: "gts_env \<Rightarrow> bool \<Rightarrow> ob_ret \<Rightarrow> 't ObGtsSource \<Rightarrow> ob_ret \<times> gts_out list \<times> 't ObGtsSource" where
  "handle_gts_err_response E valid status s =
     (if \<not> src_inited s then (OB_NOT_INIT, [], s)
      else if \<not> valid then (OB_INVALID_ARGUMENT, [], s)
      else if status = OB_NOT_MASTER
      then (case refresh_gts_location E (s\<lparr>src_leader := None\<rparr>) of (outs, s1) \<Rightarrow> (OB_SUCCESS, outs, s1))
      else (OB_SUCCESS, [], s))"

text \<open>The queue of waiting tasks or that of tasks that want a timestamp is served, by its index.\<close>

definition handle_gts_result ::
  "('t \<Rightarrow> nat) \<Rightarrow> (nat \<Rightarrow> ob_ret) \<Rightarrow> ('t \<Rightarrow> int \<Rightarrow> int \<Rightarrow> int \<Rightarrow> ob_ret) \<Rightarrow> gts_env \<Rightarrow> bool \<Rightarrow> bool \<Rightarrow> 't ObGtsSource \<Rightarrow>
   ob_ret \<times> gts_out list \<times> 't ObGtsSource" where
  "handle_gts_result tenant enter cb E tenant_ok waiting s =
     (if \<not> src_inited s then (OB_NOT_INIT, [], s)
      else if \<not> tenant_ok then (OB_INVALID_ARGUMENT, [], s)
      else case foreach_task tenant enter cb (get_srr_and_gts_safe (src_cache s))
                  (if waiting then src_wait_queue s else src_get_queue s) of (ret, q) \<Rightarrow>
        let s1 = (if waiting then s\<lparr>src_wait_queue := q\<rparr> else s\<lparr>src_get_queue := q\<rparr>) in
        if ret = OB_EAGAIN then
          (if no_rpc_on_road (src_cache s1)
           then (case refresh_gts E False s1 of (_, outs, s2) \<Rightarrow> (OB_SUCCESS, outs, s2)) else (OB_SUCCESS, [], s1))
        else (ret, [], s1))"

end
