(* ===== verification/Gts_System.thy ===== *)
theory Gts_System
  imports Gts_Source
begin

text \<open>
  The cached timestamps of a server beside the timestamp service. Requests are served by the service and
  their answers are written into the cache by any number of threads, each with three atomic writes; other threads
  ask for a timestamp that is not older than a time \<^verbatim>\<open>stc\<close> with three atomic reads. The service is the model of
  \<^verbatim>\<open>get_timestamp\<close>; when the leader changes, another instance goes on at or above the numbers of the old one.
\<close>

subsection \<open>Steps\<close>

datatype write_pc = WrReceive int int int | WrGts int int int | WrSrr int int int

datatype read_pc = RdSrr int | RdGts int int | RdReceive int int int

record gts_sys =
  gc_now :: int
  gc_srv :: ObTimestampService
  gc_cache :: ObGTSLocalCache
  gc_issued :: "(int \<times> int) list"
  gc_answers :: "(int \<times> int) set"
  gc_writers :: "nat \<Rightarrow> write_pc option"
  gc_readers :: "nat \<Rightarrow> read_pc option"
  gc_reads :: "(int \<times> int \<times> int) set"

definition wr :: "nat \<Rightarrow> write_pc option \<Rightarrow> ObGTSLocalCache \<Rightarrow> gts_sys \<Rightarrow> gts_sys" where
  "wr t pc c w = w\<lparr>gc_writers := (gc_writers w)(t := pc), gc_cache := c\<rparr>"

definition rd :: "nat \<Rightarrow> read_pc option \<Rightarrow> gts_sys \<Rightarrow> gts_sys" where
  "rd t pc w = w\<lparr>gc_readers := (gc_readers w)(t := pc)\<rparr>"

text \<open>With \<open>steady\<close> the clock of the server never goes back.\<close>

inductive gts_step :: "bool \<Rightarrow> gts_sys \<Rightarrow> gts_sys \<Rightarrow> bool" for steady where
  tick: "0 < now \<Longrightarrow> (steady \<longrightarrow> gc_now w \<le> now) \<Longrightarrow> gts_step steady w (w\<lparr>gc_now := now\<rparr>)"
| serve: "0 < r \<Longrightarrow> r \<le> gc_now w \<Longrightarrow> get_timestamp E (gc_srv w) = (OB_SUCCESS, g, s) \<Longrightarrow>
    gts_step steady w (w\<lparr>gc_srv := s, gc_issued := gc_issued w @ [(gc_now w, g)], gc_answers := insert (r, g) (gc_answers w)\<rparr>)"
| new_leader: "last_id (gc_srv w) \<le> last_id s \<Longrightarrow> gts_step steady w (w\<lparr>gc_srv := s\<rparr>)"
| answer: "gc_writers w t = None \<Longrightarrow> (r, g) \<in> gc_answers w \<Longrightarrow> gts_acceptable r g \<Longrightarrow>
    gts_step steady w (wr t (Some (WrReceive r g (gc_now w))) (gc_cache w) w)"
| write_receive: "gc_writers w t = Some (WrReceive r g c) \<Longrightarrow>
    gts_step steady w (wr t (Some (WrGts r g c)) (put_receive c (gc_cache w)) w)"
| write_gts: "gc_writers w t = Some (WrGts r g c) \<Longrightarrow>
    gts_step steady w (wr t (Some (WrSrr r g c)) (put_gts g (gc_cache w)) w)"
| write_srr: "gc_writers w t = Some (WrSrr r g c) \<Longrightarrow>
    gts_step steady w (wr t None (put_srr r (gc_cache w)) w)"
| ask: "gc_readers w t = None \<Longrightarrow> mts_is_valid stc \<Longrightarrow> stc \<le> gc_now w \<Longrightarrow> gts_step steady w (rd t (Some (RdSrr stc)) w)"
| read_srr: "gc_readers w t = Some (RdSrr stc) \<Longrightarrow> gts_step steady w (rd t (Some (RdGts stc (srr (gc_cache w)))) w)"
| read_gts: "gc_readers w t = Some (RdGts stc s) \<Longrightarrow> gts_step steady w (rd t (Some (RdReceive stc s (gts (gc_cache w)))) w)"
| read_receive: "gc_readers w t = Some (RdReceive stc s g) \<Longrightarrow>
    gts_decide stc s g (receive_gts_ts (gc_cache w)) (latest_srr (gc_cache w)) = (ret, res, rpc) \<Longrightarrow>
    gts_step steady w ((rd t None w)\<lparr>gc_reads := gc_reads w \<union> (case res of None \<Rightarrow> {} | Some (g', rcv) \<Rightarrow> {(stc, g', rcv)})\<rparr>)"
| request: "update_latest_srr r (gc_cache w) = (ret, c) \<Longrightarrow> gts_step steady w (w\<lparr>gc_cache := c\<rparr>)"

definition gts_start :: "gts_sys \<Rightarrow> bool" where
  "gts_start w \<longleftrightarrow> gc_cache w = lc_reset \<and> gc_issued w = [] \<and> gc_answers w = {} \<and> gc_writers w = (\<lambda>_. None)
     \<and> gc_readers w = (\<lambda>_. None) \<and> gc_reads w = {}"

inductive gts_reachable :: "bool \<Rightarrow> gts_sys \<Rightarrow> bool" for steady where
  start: "gts_start w \<Longrightarrow> gts_reachable steady w"
| step: "gts_reachable steady w \<Longrightarrow> gts_step steady w w' \<Longrightarrow> gts_reachable steady w'"

subsection \<open>The invariant\<close>

text \<open>A timestamp at or below \<open>g\<close> was issued at or after the time \<open>r\<close>; \<open>g\<close> itself was issued by the time \<open>c\<close>.\<close>

definition covered :: "(int \<times> int) list \<Rightarrow> int \<Rightarrow> int \<Rightarrow> bool" where
  "covered iss r g \<longleftrightarrow> (\<exists>t h. (t, h) \<in> set iss \<and> r \<le> t \<and> h \<le> g)"

definition issued_by :: "(int \<times> int) list \<Rightarrow> int \<Rightarrow> int \<Rightarrow> bool" where
  "issued_by iss g c \<longleftrightarrow> (\<exists>t. (t, g) \<in> set iss \<and> t \<le> c)"

definition issued_ok :: "gts_sys \<Rightarrow> bool" where
  "issued_ok w \<longleftrightarrow> sorted_wrt (\<lambda>(t, h) (u, g). t \<le> u \<and> h \<le> g) (gc_issued w)
     \<and> (\<forall>(t, h) \<in> set (gc_issued w). t \<le> gc_now w \<and> h < last_id (gc_srv w))"

definition answers_ok :: "gts_sys \<Rightarrow> bool" where
  "answers_ok w \<longleftrightarrow> (\<forall>(r, g) \<in> gc_answers w. covered (gc_issued w) r g \<and> issued_by (gc_issued w) g (gc_now w))"

definition cache_ok :: "gts_sys \<Rightarrow> bool" where
  "cache_ok w \<longleftrightarrow> (gts (gc_cache w) = 0 \<or> issued_by (gc_issued w) (gts (gc_cache w)) (receive_gts_ts (gc_cache w)))
     \<and> (srr (gc_cache w) = 0 \<or> covered (gc_issued w) (srr (gc_cache w)) (gts (gc_cache w)))"

fun write_ok :: "gts_sys \<Rightarrow> write_pc \<Rightarrow> bool" where
  "write_ok w (WrReceive r g c) \<longleftrightarrow> covered (gc_issued w) r g \<and> issued_by (gc_issued w) g c"
| "write_ok w (WrGts r g c) \<longleftrightarrow> covered (gc_issued w) r g \<and> issued_by (gc_issued w) g (receive_gts_ts (gc_cache w))"
| "write_ok w (WrSrr r g c) \<longleftrightarrow> covered (gc_issued w) r (gts (gc_cache w))"

fun read_ok :: "gts_sys \<Rightarrow> read_pc \<Rightarrow> bool" where
  "read_ok w (RdSrr stc) \<longleftrightarrow> 0 < stc"
| "read_ok w (RdGts stc s) \<longleftrightarrow> 0 < stc \<and> (s = 0 \<or> covered (gc_issued w) s (gts (gc_cache w)))"
| "read_ok w (RdReceive stc s g) \<longleftrightarrow> 0 < stc \<and> (s = 0 \<or> covered (gc_issued w) s g)
     \<and> (g = 0 \<or> issued_by (gc_issued w) g (receive_gts_ts (gc_cache w)))"

definition reads_ok :: "gts_sys \<Rightarrow> bool" where
  "reads_ok w \<longleftrightarrow> (\<forall>(stc, g, c) \<in> gc_reads w. covered (gc_issued w) stc g \<and> issued_by (gc_issued w) g c)"

definition gts_inv :: "gts_sys \<Rightarrow> bool" where
  "gts_inv w \<longleftrightarrow> issued_ok w \<and> answers_ok w \<and> cache_ok w \<and> reads_ok w
     \<and> (\<forall>t pc. gc_writers w t = Some pc \<longrightarrow> write_ok w pc) \<and> (\<forall>t pc. gc_readers w t = Some pc \<longrightarrow> read_ok w pc)"

lemma covered_mono: "covered iss r g \<Longrightarrow> set iss \<subseteq> set iss' \<Longrightarrow> r' \<le> r \<Longrightarrow> g \<le> g' \<Longrightarrow> covered iss' r' g'"
  unfolding covered_def by (meson order_trans subsetD)

lemma issued_by_mono: "issued_by iss g c \<Longrightarrow> set iss \<subseteq> set iss' \<Longrightarrow> c \<le> c' \<Longrightarrow> issued_by iss' g c'"
  unfolding issued_by_def by (meson order_trans subsetD)

lemma issued_by_max: "issued_by iss g c \<Longrightarrow> issued_by iss g (max d c)" "issued_by iss g c \<Longrightarrow> issued_by iss g (max c d)"
  by (erule issued_by_mono; simp)+

lemma covered_max: "covered iss r g \<Longrightarrow> covered iss r (max d g)" "covered iss r g \<Longrightarrow> covered iss r (max g d)"
  by (erule covered_mono; simp)+

text \<open>What writers and readers know stays true while the cache and the list of timestamps grow.\<close>

definition grown :: "gts_sys \<Rightarrow> gts_sys \<Rightarrow> bool" where
  "grown w w' \<longleftrightarrow> set (gc_issued w) \<subseteq> set (gc_issued w') \<and> gts (gc_cache w) \<le> gts (gc_cache w')
     \<and> receive_gts_ts (gc_cache w) \<le> receive_gts_ts (gc_cache w') \<and> gc_now w \<le> gc_now w'"

lemma write_ok_grown: "write_ok w pc \<Longrightarrow> grown w w' \<Longrightarrow> write_ok w' pc"
  by (cases pc) (auto simp: grown_def intro: covered_mono issued_by_mono)

lemma read_ok_grown: "read_ok w pc \<Longrightarrow> grown w w' \<Longrightarrow> read_ok w' pc"
  by (cases pc) (auto simp: grown_def intro: covered_mono issued_by_mono)

lemma reads_ok_grown: "reads_ok w \<Longrightarrow> grown w w' \<Longrightarrow> gc_reads w' = gc_reads w \<Longrightarrow> reads_ok w'"
  unfolding reads_ok_def grown_def by (fastforce intro: covered_mono issued_by_mono)

lemma answers_ok_grown: "answers_ok w \<Longrightarrow> grown w w' \<Longrightarrow> gc_answers w' = gc_answers w \<Longrightarrow> answers_ok w'"
  unfolding answers_ok_def grown_def by (fastforce intro: covered_mono issued_by_mono)

lemma gts_inv_grown:
  assumes "gts_inv w" "grown w w'" "issued_ok w'" "answers_ok w'" "cache_ok w'" "reads_ok w'"
    "\<And>t pc. gc_writers w' t = Some pc \<Longrightarrow> gc_writers w t = Some pc \<or> write_ok w' pc"
    "\<And>t pc. gc_readers w' t = Some pc \<Longrightarrow> gc_readers w t = Some pc \<or> read_ok w' pc"
  shows "gts_inv w'"
proof -
  have "write_ok w' pc" if "gc_writers w' t = Some pc" for t pc
    using assms(1,7) that write_ok_grown [OF _ assms(2)] unfolding gts_inv_def by blast
  moreover have "read_ok w' pc" if "gc_readers w' t = Some pc" for t pc
    using assms(1,8) that read_ok_grown [OF _ assms(2)] unfolding gts_inv_def by blast
  ultimately show ?thesis using assms(3-6) by (simp add: gts_inv_def)
qed

text \<open>A step of a writer: the cache grows and keeps what it promises.\<close>

lemma gts_inv_write:
  assumes "gts_inv w" "grown w (wr t pc c w)" "cache_ok (wr t pc c w)" "\<And>p. pc = Some p \<Longrightarrow> write_ok (wr t pc c w) p"
  shows "gts_inv (wr t pc c w)"
proof (rule gts_inv_grown [OF assms(1,2) _ _ assms(3)])
  have inv: "answers_ok w" "reads_ok w" using assms(1) by (simp_all add: gts_inv_def)
  show "answers_ok (wr t pc c w)" by (rule answers_ok_grown [OF inv(1) assms(2)]) (simp add: wr_def)
  show "reads_ok (wr t pc c w)" by (rule reads_ok_grown [OF inv(2) assms(2)]) (simp add: wr_def)
  show "issued_ok (wr t pc c w)" using assms(1) by (simp add: gts_inv_def issued_ok_def wr_def)
  fix u p
  show "gc_writers w u = Some p \<or> write_ok (wr t pc c w) p" if "gc_writers (wr t pc c w) u = Some p"
    using that assms(4) by (cases "u = t") (auto simp: wr_def)
  show "gc_readers w u = Some p' \<or> read_ok (wr t pc c w) p'" if "gc_readers (wr t pc c w) u = Some p'" for p'
    using that by (simp add: wr_def)
qed

lemma writer_ok: "gts_inv w \<Longrightarrow> gc_writers w t = Some pc \<Longrightarrow> write_ok w pc"
  and reader_ok: "gts_inv w \<Longrightarrow> gc_readers w t = Some rpc \<Longrightarrow> read_ok w rpc"
  and cached_ok: "gts_inv w \<Longrightarrow> cache_ok w"
  unfolding gts_inv_def by blast+

lemma gts_inv_read:
  assumes "gts_inv w" "\<And>p. pc = Some p \<Longrightarrow> read_ok w p" "\<And>x. x \<in> R \<Longrightarrow> (case x of (stc, g, c) \<Rightarrow> covered (gc_issued w) stc g \<and> issued_by (gc_issued w) g c)"
  shows "gts_inv ((rd t pc w)\<lparr>gc_reads := gc_reads w \<union> R\<rparr>)" (is "gts_inv ?w")
proof (rule gts_inv_grown [OF assms(1)])
  show g: "grown w ?w" by (simp add: grown_def rd_def)
  show "issued_ok ?w" "answers_ok ?w" "cache_ok ?w" using assms(1) by (simp_all add: gts_inv_def issued_ok_def answers_ok_def cache_ok_def rd_def)
  show "reads_ok ?w" using assms(1,3) unfolding gts_inv_def reads_ok_def by (auto simp: rd_def)
  fix u p p'
  show "gc_writers w u = Some p \<or> write_ok ?w p" if "gc_writers ?w u = Some p" using that by (simp add: rd_def)
  show "gc_readers w u = Some p' \<or> read_ok ?w p'" if "gc_readers ?w u = Some p'"
    using that assms(2) read_ok_grown [OF _ g] by (cases "u = t") (auto simp: rd_def)
qed

text \<open>The service issues a timestamp.\<close>

lemma gts_inv_serve:
  assumes "gts_inv w" "r \<le> gc_now w" "get_timestamp E (gc_srv w) = (OB_SUCCESS, g, s)"
  shows "gts_inv (w\<lparr>gc_srv := s, gc_issued := gc_issued w @ [(gc_now w, g)], gc_answers := insert (r, g) (gc_answers w)\<rparr>)" (is "gts_inv ?w")
proof (rule gts_inv_grown [OF assms(1)])
  note g = get_timestamp_alone [OF assms(3)]
  show gr: "grown w ?w" by (auto simp: grown_def)
  have iss: "issued_ok w" using assms(1) by (simp add: gts_inv_def)
  then have "t \<le> gc_now w" "h < last_id (gc_srv w)" if "(t, h) \<in> set (gc_issued w)" for t h
    using that by (auto simp: issued_ok_def)
  then show "issued_ok ?w" using iss g by (fastforce simp: issued_ok_def sorted_wrt_append)
  have "answers_ok w" using assms(1) by (simp add: gts_inv_def)
  then have "answers_ok (?w\<lparr>gc_answers := gc_answers w\<rparr>)" by (rule answers_ok_grown) (use gr in \<open>simp_all add: grown_def\<close>)
  moreover have "covered (gc_issued ?w) r g" "issued_by (gc_issued ?w) g (gc_now w)"
    using assms(2) by (auto simp: covered_def issued_by_def)
  ultimately show "answers_ok ?w" by (simp add: answers_ok_def)
  have "cache_ok w" using assms(1) by (simp add: gts_inv_def)
  then show "cache_ok ?w" unfolding cache_ok_def by (auto intro: covered_mono issued_by_mono)
  have "reads_ok w" using assms(1) by (simp add: gts_inv_def)
  then show "reads_ok ?w" by (rule reads_ok_grown [OF _ gr]) simp
qed simp_all

lemma gts_inv_step:
  assumes "gts_step True w w'" "gts_inv w"
  shows "gts_inv w'"
  using assms(1)
proof (cases rule: gts_step.cases)
  case (tick now)
  have gr: "grown w w'" using tick by (simp add: grown_def)
  have "answers_ok w" "reads_ok w" using assms(2) by (simp_all add: gts_inv_def)
  then have "answers_ok w'" "reads_ok w'" using answers_ok_grown [OF _ gr] reads_ok_grown [OF _ gr] tick by simp_all
  moreover have "issued_ok w'" "cache_ok w'" using assms(2) tick by (auto simp: gts_inv_def issued_ok_def cache_ok_def)
  ultimately show ?thesis using tick by (intro gts_inv_grown [OF assms(2) gr]) simp_all
next
  case (serve r E g s)
  show ?thesis unfolding serve(1) by (rule gts_inv_serve [OF assms(2) serve(3,4)])
next
  case (new_leader s)
  have gr: "grown w w'" using new_leader by (simp add: grown_def)
  have "issued_ok w'" "answers_ok w'" "cache_ok w'" "reads_ok w'"
    using assms(2) new_leader by (fastforce simp: gts_inv_def issued_ok_def answers_ok_def cache_ok_def reads_ok_def)+
  then show ?thesis using new_leader by (intro gts_inv_grown [OF assms(2) gr]) simp_all
next
  case (answer t r g)
  have "answers_ok w" using assms(2) by (simp add: gts_inv_def)
  then have "write_ok w (WrReceive r g (gc_now w))" using answer(3) by (auto simp: answers_ok_def)
  then show ?thesis unfolding answer(1) using cached_ok [OF assms(2)]
    by (intro gts_inv_write [OF assms(2)]) (auto simp: grown_def wr_def cache_ok_def)
next
  case (write_receive t r g c)
  note ok = writer_ok [OF assms(2) write_receive(2)]
  show ?thesis unfolding write_receive(1) using ok cached_ok [OF assms(2)]
    by (intro gts_inv_write [OF assms(2)]) (auto simp: grown_def wr_def cache_ok_def put_receive_def intro: issued_by_max)
next
  case (write_gts t r g c)
  note ok = writer_ok [OF assms(2) write_gts(2)]
  have "max (gts (gc_cache w)) g = 0 \<or> issued_by (gc_issued w) (max (gts (gc_cache w)) g) (receive_gts_ts (gc_cache w))"
    using ok cached_ok [OF assms(2)] by (auto simp: cache_ok_def max_def)
  moreover have "covered (gc_issued w) r (max (gts (gc_cache w)) g)" using ok by (simp add: covered_max)
  moreover have "srr (gc_cache w) = 0 \<or> covered (gc_issued w) (srr (gc_cache w)) (max (gts (gc_cache w)) g)"
    using cached_ok [OF assms(2)] by (auto simp: cache_ok_def covered_max)
  ultimately show ?thesis unfolding write_gts(1)
    by (intro gts_inv_write [OF assms(2)]) (simp_all add: grown_def wr_def cache_ok_def put_gts_def, auto)
next
  case (write_srr t r g c)
  note ok = writer_ok [OF assms(2) write_srr(2)]
  show ?thesis unfolding write_srr(1) using ok cached_ok [OF assms(2)]
    by (intro gts_inv_write [OF assms(2)]) (auto simp: grown_def wr_def cache_ok_def put_srr_def max_def)
next
  case (ask t stc)
  then show ?thesis using gts_inv_read [OF assms(2), of "Some (RdSrr stc)" "{}" t] by (simp add: mts_is_valid_def rd_def)
next
  case (read_srr t stc)
  then show ?thesis using gts_inv_read [OF assms(2), of "Some (RdGts stc (srr (gc_cache w)))" "{}" t]
    reader_ok [OF assms(2) read_srr(2)] cached_ok [OF assms(2)] by (simp add: cache_ok_def rd_def)
next
  case (read_gts t stc s)
  then show ?thesis using gts_inv_read [OF assms(2), of "Some (RdReceive stc s (gts (gc_cache w)))" "{}" t]
    reader_ok [OF assms(2) read_gts(2)] cached_ok [OF assms(2)] by (simp add: cache_ok_def rd_def)
next
  case (read_receive t stc s g ret res rpc)
  note ok = reader_ok [OF assms(2) read_receive(2)]
  show ?thesis unfolding read_receive(1)
  proof (rule gts_inv_read [OF assms(2)], simp, goal_cases)
    case (1 x)
    then have "res = Some (g, receive_gts_ts (gc_cache w))" "g \<noteq> 0" "stc \<le> s" "x = (stc, g, receive_gts_ts (gc_cache w))"
      using read_receive(3) by (auto simp: gts_decide_def split: if_splits)
    then show ?case using ok by (auto intro: covered_mono)
  qed
next
  case (request r ret c)
  have same: "gts c = gts (gc_cache w)" "srr c = srr (gc_cache w)" "receive_gts_ts c = receive_gts_ts (gc_cache w)"
    using request(2) by (auto simp: update_latest_srr_def split: if_splits)
  have gr: "grown w w'" using request same by (simp add: grown_def)
  have "issued_ok w'" "answers_ok w'" "cache_ok w'" "reads_ok w'"
    using assms(2) request same by (auto simp: gts_inv_def issued_ok_def answers_ok_def cache_ok_def reads_ok_def)
  then show ?thesis using request by (intro gts_inv_grown [OF assms(2) gr]) simp_all
qed

lemma gts_inv_reachable: "gts_reachable True w \<Longrightarrow> gts_inv w"
proof (induction rule: gts_reachable.induct)
  case (start w)
  then show ?case by (simp add: gts_start_def gts_inv_def issued_ok_def answers_ok_def cache_ok_def reads_ok_def lc_reset_def)
qed (blast intro: gts_inv_step)

lemma covered_not_stale:
  assumes "issued_ok w" "covered (gc_issued w) r g" "(t, h) \<in> set (gc_issued w)" "t < r"
  shows "h \<le> g"
proof -
  let ?x = "gc_issued w"
  obtain t1 h1 where 1: "(t1, h1) \<in> set ?x" "r \<le> t1" "h1 \<le> g" using assms(2) by (auto simp: covered_def)
  obtain j k where j: "j < length ?x" "?x ! j = (t, h)" and k: "k < length ?x" "?x ! k = (t1, h1)"
    using assms(3) 1(1) by (auto simp: in_set_conv_nth)
  have s: "sorted_wrt (\<lambda>(t, h) (u, g). t \<le> u \<and> h \<le> g) ?x" using assms(1) by (simp add: issued_ok_def)
  have "\<not> k \<le> j"
    using sorted_wrt_nth_less [OF s, of k j] j k assms(4) 1(2) by (cases "k = j") auto
  then show ?thesis using sorted_wrt_nth_less [OF s, of j k] j k 1(3) by auto
qed

subsection \<open>Executable steps\<close>

datatype gts_act = Tick int | Serve int | Answer nat int int | Write nat | Ask nat int | Read nat

definition gts_good :: id_env where
  "gts_good = \<lparr>ie_time = 0, ie_clock = 1, ie_get_ls = OB_SUCCESS, ie_role = (OB_SUCCESS, True), ie_max_scn = (OB_SUCCESS, min_scn),
     ie_lock = False, ie_serialize = OB_SUCCESS, ie_append = (\<lambda>_. (OB_SUCCESS, min_scn)), ie_update_meta = OB_SUCCESS\<rparr>"

fun gts_do :: "bool \<Rightarrow> gts_act \<Rightarrow> gts_sys \<Rightarrow> gts_sys option" where
  "gts_do steady (Tick now) w = (if 0 < now \<and> (steady \<longrightarrow> gc_now w \<le> now) then Some (w\<lparr>gc_now := now\<rparr>) else None)"
| "gts_do steady (Serve r) w =
     (case get_timestamp gts_good (gc_srv w) of (ret, g, s) \<Rightarrow>
        if 0 < r \<and> r \<le> gc_now w \<and> ret = OB_SUCCESS
        then Some (w\<lparr>gc_srv := s, gc_issued := gc_issued w @ [(gc_now w, g)], gc_answers := insert (r, g) (gc_answers w)\<rparr>) else None)"
| "gts_do steady (Answer t r g) w =
     (if gc_writers w t = None \<and> (r, g) \<in> gc_answers w \<and> gts_acceptable r g
      then Some (wr t (Some (WrReceive r g (gc_now w))) (gc_cache w) w) else None)"
| "gts_do steady (Write t) w =
     (case gc_writers w t of
        None \<Rightarrow> None
      | Some (WrReceive r g c) \<Rightarrow> Some (wr t (Some (WrGts r g c)) (put_receive c (gc_cache w)) w)
      | Some (WrGts r g c) \<Rightarrow> Some (wr t (Some (WrSrr r g c)) (put_gts g (gc_cache w)) w)
      | Some (WrSrr r g c) \<Rightarrow> Some (wr t None (put_srr r (gc_cache w)) w))"
| "gts_do steady (Ask t stc) w =
     (if gc_readers w t = None \<and> mts_is_valid stc \<and> stc \<le> gc_now w then Some (rd t (Some (RdSrr stc)) w) else None)"
| "gts_do steady (Read t) w =
     (case gc_readers w t of
        None \<Rightarrow> None
      | Some (RdSrr stc) \<Rightarrow> Some (rd t (Some (RdGts stc (srr (gc_cache w)))) w)
      | Some (RdGts stc s) \<Rightarrow> Some (rd t (Some (RdReceive stc s (gts (gc_cache w)))) w)
      | Some (RdReceive stc s g) \<Rightarrow>
          (case gts_decide stc s g (receive_gts_ts (gc_cache w)) (latest_srr (gc_cache w)) of (ret, res, rpc) \<Rightarrow>
             Some ((rd t None w)\<lparr>gc_reads := gc_reads w \<union> (case res of None \<Rightarrow> {} | Some (g', rcv) \<Rightarrow> {(stc, g', rcv)})\<rparr>)))"

lemma gts_do_step: "gts_do steady a w = Some w' \<Longrightarrow> gts_step steady w w'"
proof (induction steady a w rule: gts_do.induct)
  case (4 steady t w)
  then show ?case by (auto split: option.splits write_pc.splits intro: gts_step.write_receive gts_step.write_gts gts_step.write_srr)
next
  case (6 steady t w)
  then obtain pc where pc: "gc_readers w t = Some pc" by (auto split: option.splits)
  show ?case
  proof (cases pc)
    case (RdReceive stc s g)
    obtain ret res rpc where d: "gts_decide stc s g (receive_gts_ts (gc_cache w)) (latest_srr (gc_cache w)) = (ret, res, rpc)"
      by (cases "gts_decide stc s g (receive_gts_ts (gc_cache w)) (latest_srr (gc_cache w))") auto
    show ?thesis using gts_step.read_receive [OF pc [unfolded RdReceive] d, of steady] 6 pc RdReceive d by simp
  qed (use 6 pc in \<open>auto intro: gts_step.read_srr gts_step.read_gts\<close>)
qed (auto split: if_splits prod.splits intro: gts_step.tick gts_step.serve gts_step.answer gts_step.ask)

interpretation gts_run: executable_system "gts_do steady" "gts_step steady" "gts_reachable steady" for steady
  by unfold_locales (blast intro: gts_do_step gts_reachable.step)+

definition gts_nothing :: gts_sys where
  "gts_nothing = \<lparr>gc_now = 1,
     gc_srv = \<lparr>service_type = TimestampService, pre_allocated_range = 3, last_id = 1, tmp_last_id = 0, limited_id = 1000000,
       is_logging = False, rec_log_ts = max_scn, latest_log_ts = min_scn, submit_log_ts = 0, ls_filled = True,
       cb_srv_type = INVALID_ID_SERVICE_TYPE, cb_limited_id = 0, cb_log_ts = scn_reset,
       last_gts = 0, last_request_ts = 0, check_gts_speed_lock = 0\<rparr>,
     gc_cache = lc_reset, gc_issued = [], gc_answers = {}, gc_writers = (\<lambda>_. None), gc_readers = (\<lambda>_. None), gc_reads = {}\<rparr>"

lemma gts_nothing_reachable: "gts_reachable steady gts_nothing"
  by (rule gts_reachable.start) (simp add: gts_start_def gts_nothing_def)

text \<open>A timestamp is cached.\<close>

definition cached_once :: "gts_act list" where
  "cached_once = [Tick 100, Serve 100, Answer 1 100 1000, Write 1, Write 1, Write 1]"

lemma steady_run:
  "map_option (\<lambda>w. (gc_issued w, gc_reads w)) (run_acts (gts_do True) (cached_once @ [Ask 2 90, Read 2, Read 2, Read 2]) gts_nothing)
     = Some ([(100, 1000)], {(90, 1000, 100)})"
  by code_simp

lemma clock_set_back_run:
  "map_option (\<lambda>w. (gc_issued w, gc_reads w))
     (run_acts (gts_do False) (cached_once @ [Tick 60, Serve 60, Tick 70, Ask 2 70, Read 2, Read 2, Read 2]) gts_nothing)
     = Some ([(100, 1000), (60, 1001)], {(70, 1000, 100)})"
  by code_simp

subsection \<open>Properties\<close>



text \<open>C34: The clock behind these times is the time of day: when it is set back, the cache answers a request with a
  timestamp that is below one issued before the request.\<close>

theorem gts_stale_when_clock_set_back:
  "\<exists>w. gts_reachable False w \<and> (70, 1000, 100) \<in> gc_reads w \<and> (60, 1001) \<in> set (gc_issued w)"
proof -
  obtain w where w: "run_acts (gts_do False) (cached_once @ [Tick 60, Serve 60, Tick 70, Ask 2 70, Read 2, Read 2, Read 2]) gts_nothing = Some w"
      "gc_issued w = [(100, 1000), (60, 1001)]" "gc_reads w = {(70, 1000, 100)}"
    using clock_set_back_run by auto
  show ?thesis using gts_run.run_acts_reach [OF w(1) gts_nothing_reachable] w(2,3) by auto
qed

end
