(* ===== verification/Spec2Isabelle.thy ===== *)
theory Spec2Isabelle
  imports Lsn_Allocator Commit_Protocol Tx_Messages Group_Pipeline Crc64 Election_Safety Lcl_Samples
    Id_Samples Gti_System Gts_System
begin

text \<open>
  A verification library for the commit path of OceanBase: the numbers that order everything
  (system change numbers, log sequence numbers), the allocator that gives every log of a log
  stream its place, the headers, checksums and the ring buffer through which a group of logs goes
  to the disk and to the followers, the election of the leader of a log stream, the two phase
  commit of a distributed transaction over several log streams, the services that hand out
  timestamps and transaction numbers, and the detector of deadlocks between transactions.

  \<^bold>\<open>The program.\<close> OceanBase is a distributed database. A tenant's data is split into log streams;
  each log stream is replicated by PALF (\<^verbatim>\<open>src/logservice/palf\<close>), a Paxos log whose leader gives
  each log entry a position (LSN) and a version (SCN), and writes entries in groups. The leader is
  chosen by the election (\<^verbatim>\<open>palf/election\<close>), a lease based Paxos of its own over the same members. A
  transaction (\<^verbatim>\<open>src/storage/tx\<close>) has one context per log stream that it touched; the contexts are
  the participants of a two phase commit that is organised as a tree (which may have cycles
  after transfers): the root decides, every participant logs its state through PALF, and each
  speaks to the participant above it (upstream) and those below it (downstream). Transactions that
  wait for each other's locks register their waits with the deadlock detector
  (\<^verbatim>\<open>src/share/deadlock\<close>): one detector per resource passes labels along the waits, on any servers; a
  label that comes back to its owner shows a cycle, the owner collects the cycle and gives up. Timestamps
  and transaction numbers come from services of the tenant whose leader makes a limit durable in
  the log of one log stream before it hands out numbers below it; every server keeps a cache of both.

  \<^bold>\<open>Theories and sources.\<close>

  \<^item> \<open>Prelude\<close>: machine integers, return codes, the \<^verbatim>\<open>OB_FAIL\<close> chain, runs of a step relation, and
    the interfaces \<open>invariant_system\<close>, \<open>ordered_source\<close> and \<open>executable_system\<close> for such runs.
  \<^item> \<open>Scn\<close> (\<^verbatim>\<open>src/share/scn.{h,cpp}\<close>) and \<open>Lsn\<close> (\<^verbatim>\<open>palf/lsn.{h,cpp}\<close>, \<^verbatim>\<open>palf/log_define.h\<close>): 64-bit values
    with wrap-around; the comparison operators, which treat invalid numbers apart; conversions.
  \<^item> \<open>Lsn_Allocator\<close> (\<^verbatim>\<open>palf/lsn_allocator.{h,cpp}\<close>): the state is the pair of words that the code swaps
    atomically. A compare-and-swap loop is the one step of its successful swap;
    \<open>alloc_call\<close> is the step relation of all operations, any interleaving of them is a run. The
    retry loop of \<open>alloc_lsn_scn\<close> has fuel; it is shown that the loop ends after at most one
    renewal of the base, so the fuel chosen in the definition is enough.
  \<^item> \<open>Serialization\<close> (\<^verbatim>\<open>lib/utility/serialization.h\<close>): fixed width integers in a buffer with a
    position. \<open>Log_Entry_Header\<close>, \<open>Log_Group_Header\<close> (\<^verbatim>\<open>palf/log_entry_header.cpp\<close>, \<^verbatim>\<open>palf/log_entry.cpp\<close>,
    \<^verbatim>\<open>palf/log_group_entry_header.cpp\<close>, \<^verbatim>\<open>palf/log_group_entry.cpp\<close>): the two headers with their parity
    bits and checksums, both instances of the locale \<open>header_codec\<close>; \<open>Log_Group\<close> holds the properties
    of groups, \<open>Log_Checksum\<close> (\<^verbatim>\<open>palf/log_checksum.cpp\<close>) the accumulated checksum.
  \<^item> \<open>Crc_Tables\<close>, \<open>Crc64\<close> (\<^verbatim>\<open>lib/checksum/ob_crc64.{h,cpp}\<close>): the routines of the data checksum, the
    choice among them and the batch accumulator; the instruction of the processor and the
    routine of the external library are parameters with the behaviour of their documentation.
  \<^item> \<open>Group_Buffer\<close> (\<^verbatim>\<open>palf/log_group_buffer.cpp\<close>): the ring of bytes; \<open>Ring_Refinement\<close>: it refines
    an unbounded log of bytes (locale \<open>call_refinement\<close>). \<open>Group_Pipeline\<close>
    (parts of \<^verbatim>\<open>palf/log_sliding_window.cpp\<close>, \<^verbatim>\<open>palf/log_task.cpp\<close>): the header of a frozen group and its way
    into the ring and out of it.
  \<^item> \<open>Election_Define\<close>, \<open>Election_Members\<close>, \<open>Election_State\<close> (\<^verbatim>\<open>palf/election/utils\<close>, \<^verbatim>\<open>palf/election/message\<close>, the
    configuration version of \<^verbatim>\<open>palf/log_meta_info.cpp\<close>): messages, leases, the books of the member states
    and the state of one election object. \<open>Election_Acceptor\<close>, \<open>Election_Proposer\<close>, \<open>Election_Impl\<close>
    (\<^verbatim>\<open>palf/election/algorithm\<close>): every operation, the timer tasks included; the clocks, the sender, the
    timer and the external priority are the record \<open>el_env\<close>. An assertion that fails is the result
    \<^const>\<open>None\<close>.
  \<^item> \<open>Election_Protocol\<close>: the abstract protocol of ballots, votes, promises and leases, with the proof
    that two agents never lead at once. \<open>Election_Refinement\<close>, \<open>Election_Handlers\<close>: the abstraction and
    the proof that every operation of the code is a sequence of moves of the protocol.
    \<open>Election_System\<close>: the cluster as a step relation over calls, timers, messages and time;
    \<open>Election_Liveness\<close>, \<open>Election_Samples\<close>, \<open>Election_Safety\<close>: the properties, with a run that elects
    a leader for the witnesses.
  \<^item> \<open>Committer_Define\<close>, \<open>Two_Phase_Committer\<close> (\<^verbatim>\<open>ob_committer_define.h\<close>, \<^verbatim>\<open>ob_two_phase_committer.h\<close>,
    \<^verbatim>\<open>ob_two_phase_upstream_committer.cpp\<close>, \<^verbatim>\<open>ob_two_phase_downstream_committer.cpp\<close>,
    \<^verbatim>\<open>ob_two_phase_committer_xa.cpp\<close>): the state machine. The C++ base class with pure virtual functions
    is a record (\<open>committer\<close>) with a table of functions (\<open>vtable\<close>); every handler takes the table and
    the object. The locale \<open>committer_contract\<close> states what the base class relies on.
  \<^item> \<open>Committer_Safety\<close>: inside that locale, the legal pairs of durable and in-memory state and what
    each handler does to them.
  \<^item> \<open>Part_Trans_Ctx\<close> (\<^verbatim>\<open>ob_tx_2pc_ctx_impl.cpp\<close>, \<^verbatim>\<open>ob_tx_2pc_msg_handler.cpp\<close>, parts of
    \<^verbatim>\<open>ob_trans_part_ctx.cpp\<close>, \<^verbatim>\<open>ob_tx_msg.cpp\<close>, \<^verbatim>\<open>ob_trans_service_v4.cpp\<close>): the derived class as an extension of the
    record, its table of virtual functions, the messages, the handlers, the dispatcher and the
    callbacks of logs and timestamps. Whatever other subsystems answer is the record \<open>tx_env\<close>, a
    parameter of every function.
  \<^item> \<open>Part_Ctx_Safety\<close>: the contract holds for that table, for every \<open>tx_env\<close>; the step relation
    \<open>tx_step\<close> of a participant, in which the environment may answer differently in each step.
  \<^item> \<open>Participants\<close>, \<open>Tx_Messages\<close>, \<open>Commit_Protocol\<close>, with \<open>Tx_Samples\<close> for the concrete inputs of the
    witnesses: the properties of the protocol.
  \<^item> \<open>Deadlock_Define\<close>, \<open>Deadlock_Messages\<close> (\<^verbatim>\<open>src/share/deadlock\<close>: \<^verbatim>\<open>ob_deadlock_parameters.h\<close>,
    \<^verbatim>\<open>ob_deadlock_arg_checker.h\<close>, \<^verbatim>\<open>ob_deadlock_key_wrapper\<close>, \<^verbatim>\<open>ob_deadlock_detector_common_define\<close>,
    \<^verbatim>\<open>ob_deadlock_message\<close>, \<^verbatim>\<open>ob_lcl_utils\<close>, \<^verbatim>\<open>ob_lcl_message\<close>): keys, priorities and labels with their total
    orders, the messages and report infos.
  \<^item> \<open>Lcl_Node\<close> (\<^verbatim>\<open>ob_lcl_node.cpp\<close>), \<open>Lcl_Sender\<close> (\<^verbatim>\<open>ob_lcl_batch_sender_thread.cpp\<close>,
    \<^verbatim>\<open>ob_deadlock_detector_rpc.cpp\<close>), \<open>Lcl_Mgr\<close> (\<^verbatim>\<open>ob_deadlock_detector_mgr\<close>): the detector of one resource, the cache of
    label messages, and the manager of a server. A handler takes the record \<open>lcl_env\<close> (clocks, callbacks,
    outcomes of the network and the timer) and returns the list of its effects.
  \<^item> \<open>Lcl_System\<close>, \<open>Lcl_Calls\<close>: the calls of a server and what each of them may do. \<open>Lcl_Safety\<close>: the
    cluster as a step relation with its invariant. \<open>Lcl_Termination\<close>: the locale \<open>flood\<close> of messages
    that carry the names of their stations. \<open>Lcl_Ring\<close>, \<open>Lcl_Liveness\<close>: the locale \<open>ring_spread\<close> of what
    travels around a ring, interpreted on the values and on the labels of the detectors.
    \<open>Lcl_Samples\<close>: two detectors that wait for each other, for the witnesses.

  \<^item> \<open>Id_Service\<close> (\<^verbatim>\<open>ob_id_service.{h,cpp}\<close>, \<^verbatim>\<open>ob_timestamp_service.{h,cpp}\<close>, \<^verbatim>\<open>ob_trans_id_service.cpp\<close>,
    \<^verbatim>\<open>ob_timestamp_access.cpp\<close>): the number services. \<open>Id_System\<close>: the replicas of a service, their threads and their log as a
    step relation, with the invariant that every number handed out is covered by an entry of its own replica.
    \<open>Id_Samples\<close>: an executable form of the steps, the properties and their runs.
  \<^item> \<open>Gti_Source\<close> (\<^verbatim>\<open>ob_gti_source.{h,cpp}\<close>): the cache of transaction numbers; \<open>Gti_System\<close>: its interleavings, with
    the locale \<open>range_provider\<close> for what it needs of the service, interpreted on \<open>Id_System\<close>.
  \<^item> \<open>Gts_Source\<close> (\<^verbatim>\<open>ob_gts_local_cache.{h,cpp}\<close>, \<^verbatim>\<open>ob_gts_task_queue.cpp\<close>, \<^verbatim>\<open>ob_gts_source.{h,cpp}\<close>): the cache of
    timestamps and the source that refreshes it; \<open>Gts_System\<close>: the cache, its writers and readers beside the
    timestamp service.

  \<^bold>\<open>What is shown.\<close> Numbers: the comparison operators are one total preorder, the conversions are
  inverse to each other, updates of a shared number only raise it. Allocator: every call places
  its log directly after the previous one, inside a block, with a version above all earlier ones,
  or changes nothing; in every history the logs are disjoint and in order. Headers, checksums,
  buffer: headers survive serialization and a flipped bit is refused; all checksum routines compute
  the same function, which detects every change of up to four adjacent bytes; the ring returns what
  was filled in and is never written outside its bounds; a group frozen by the leader is accepted by
  whoever receives it. Election: at no time do two members lead, over a network that loses,
  repeats and reorders messages and with arbitrary timers; no assertion of the code can fail; the
  promises of a majority make a candidate the leader, with exactly the lease they allow. Two phase commit: in
  every run of a participant at most one decision becomes durable; the durable state moves along
  the protocol only; the root decides with the answers of all participants only; nodes that have
  forgotten the transaction cannot make anyone commit; replicas that replay the log follow the
  leader; the commit version covers all prepare versions; retransmission and the merge of
  participants do exactly what they should. Deadlock detector: whoever is told to give up is on
  a cycle of waits and no one on the cycle has a lower priority, in every run of the cluster over a
  network that loses, repeats and reorders; a collection of report infos always ends; and a ring of
  waiting detectors, served often enough within a phase, is found and broken by its smallest
  label. Number services: over all replicas and changes of leader no number is handed out twice, unless
  an entry is replayed while a thread is between two accesses; the numbers that a server takes from its cache are all different; a cached
  timestamp is never below one that was issued before the time it is asked for, while the clock of
  the server does not go back. Five theorems, one each on the allocator, on group
  headers, on the pre-commit of a transaction, on the number service and on the cache of
  timestamps, prove that the code there does not do what it means to do.

  \<^bold>\<open>What is not modelled.\<close> Concurrency is modelled where the code is lock-free (the allocator, the
  change number, the number services and their caches) as interleaved atomic steps; the transaction context and the election object run
  under their locks, so a handler is one step. Network, disk, memory management, the
  memtable, multi data sources and replicated tables appear only through their answers. Clocks are
  numbers; the election assumes that the monotonic clocks of the members run at the same rate, that
  the members are fixed (their version may change) and that servers do not restart: the acceptor
  keeps its state in memory only, and what protects a restarted server is its silence of
  \<^verbatim>\<open>MAX_LEASE_TIME\<close>. Error injection is off. Execution, redo logging and its replay, transfer and leader
  switch of a transaction are left out. Of the sliding window only the way of a group through the
  ring is modelled. A handler of the deadlock detector
  reads its clock once; its cache of messages and its history of reported cycles belong to one
  manager; the number of detectors that a server ever creates stays below \<open>2 ^ 64\<close>. The liveness of a ring is
  shown for detectors that wait for one resource each and do not change their waits meanwhile. Starting
  and stopping the detector, reference counts, allocation failures, the serialization of keys and the
  history table are left out. Of the number services the remote requests, the standby service and the
  virtual tables are left out; a replica's log takes an entry only from an instance that has applied all
  earlier ones, which is the promise of PALF, and the choice of the next limit in \<^verbatim>\<open>get_number\<close> is one step. Not begun are the log state machine, reconfirm, membership changes, log
  storage, and everything above the transaction layer.

  \<^bold>\<open>Plan.\<close> Next: the state machine of a replica and reconfirm on top of the election; the
  acknowledgements in the sliding window; agreement of all participants of a transaction over a
  network that loses and duplicates messages; detectors whose waits change while a deadlock is
  being searched.
\<close>

end
